(* ===== verification/Prelude.thy ===== *)
theory Prelude
  imports Main "HOL-Library.AList" "HOL-Library.Sublist" "HOL-Library.List_Lexorder"
    "HOL-Library.Char_ord"
begin

text \<open>
  What every component of the model shares: Go maps as association lists, the functions of Go's
  \<open>strings\<close> package that the source calls, error results, and the generic lemmas about them.

  A Go \<open>string\<close> is a sequence of bytes, modelled by Isabelle's \<open>string\<close> (a list of 8-bit
  characters); \<open>List_Lexorder\<close> with \<open>Char_ord\<close> gives it Go's byte-wise order, the one of
  \<open>sort.Strings\<close>.

  A Go map that is ranged over is an association list whose keys are distinct: a lookup is
  \<open>map_of\<close>, an assignment is \<open>AList.update\<close>, and a read of an absent key gives the zero value
  of the element type (\<open>mget_or\<close>). Go ranges over a map in an unspecified order; where a result
  depends on it, the model takes the order as an argument or states its theorem for every order.
  A Go \<open>map[K]bool\<close> that only ever stores \<open>true\<close> is the set of its keys.
\<close>

named_theorems gomap_simps \<open>rewriting of Go map reads and writes\<close>
named_theorems res_simps \<open>rewriting of error results\<close>

type_synonym ('k, 'v) gomap = "('k \<times> 'v) list"

definition mget_or :: "'v \<Rightarrow> ('k, 'v) gomap \<Rightarrow> 'k \<Rightarrow> 'v" where
  "mget_or d m k = (case map_of m k of None \<Rightarrow> d | Some v \<Rightarrow> v)"

abbreviation mput :: "'k \<Rightarrow> 'v \<Rightarrow> ('k, 'v) gomap \<Rightarrow> ('k, 'v) gomap" where
  "mput k v m \<equiv> AList.update k v m"

text \<open>\<open>m[k] = append(m[k], x)\<close>\<close>

definition mappend :: "'k \<Rightarrow> 'v \<Rightarrow> ('k, 'v list) gomap \<Rightarrow> ('k, 'v list) gomap" where
  "mappend k x m = mput k (mget_or [] m k @ [x]) m"

abbreviation mkeys :: "('k, 'v) gomap \<Rightarrow> 'k list" where
  "mkeys m \<equiv> map fst m"

lemma mget_or_mput [simp, gomap_simps]:
  "mget_or d (mput k v m) k' = (if k' = k then v else mget_or d m k')"
  by (simp add: mget_or_def update_conv)

lemma mget_or_Nil [simp, gomap_simps]: "mget_or d [] k = d"
  by (simp add: mget_or_def)

lemma mget_or_mappend [simp, gomap_simps]:
  "mget_or [] (mappend k x m) k' = (if k' = k then mget_or [] m k @ [x] else mget_or [] m k')"
  by (simp add: mappend_def)

lemma set_mkeys_mput [simp, gomap_simps]: "set (mkeys (mput k v m)) = insert k (set (mkeys m))"
  using dom_update [of k v m] by (simp add: dom_map_of_conv_image_fst)

lemma set_mkeys_mappend [simp, gomap_simps]:
  "set (mkeys (mappend k x m)) = insert k (set (mkeys m))"
  unfolding mappend_def by (rule set_mkeys_mput)

lemma fst_image_mput [simp, gomap_simps]: "fst ` set (mput k v m) = insert k (fst ` set m)"
  using set_mkeys_mput [of k v m] by simp

lemma fst_image_mappend [simp, gomap_simps]:
  "fst ` set (mappend k x m) = insert k (fst ` set m)"
  by (simp add: mappend_def)

lemma distinct_mkeys_mput [simp]: "distinct (mkeys m) \<Longrightarrow> distinct (mkeys (mput k v m))"
  by (rule distinct_update)

lemma distinct_mkeys_mappend [simp]: "distinct (mkeys m) \<Longrightarrow> distinct (mkeys (mappend k x m))"
  by (simp add: mappend_def)

lemma map_of_None_iff_mkeys: "map_of m k = None \<longleftrightarrow> k \<notin> set (mkeys m)"
  by (simp add: map_of_eq_None_iff)

lemma mget_or_absent: "k \<notin> set (mkeys m) \<Longrightarrow> mget_or d m k = d"
  unfolding mget_or_def map_of_None_iff_mkeys [symmetric] by simp

lemma mget_or_in_range: "mget_or [] m k = x # xs \<Longrightarrow> x # xs \<in> snd ` set m"
  by (force simp: mget_or_def split: option.splits dest: map_of_SomeD)

text \<open>Every value a key of the map can give comes from the finite set of its entries.\<close>

lemma mget_or_elem: "x \<in> set (mget_or [] m k) \<Longrightarrow> x \<in> set (concat (map snd m))"
  by (cases "map_of m k") (force simp: mget_or_def dest: map_of_SomeD)+

lemma find_append [gomap_simps]:
  "find P (xs @ ys) = (case find P xs of None \<Rightarrow> find P ys | Some x \<Rightarrow> Some x)"
  by (induction xs) auto

subsection \<open>Errors\<close>

text \<open>An operation that can fail gives \<open>Inl\<close> the error or \<open>Inr\<close> the value.\<close>

definition bindE :: "'e + 'a \<Rightarrow> ('a \<Rightarrow> 'e + 'b) \<Rightarrow> 'e + 'b" where
  "bindE r f = (case r of Inl e \<Rightarrow> Inl e | Inr a \<Rightarrow> f a)"

lemma bindE_Inl [simp, res_simps]: "bindE (Inl e) f = Inl e"
  and bindE_Inr [simp, res_simps]: "bindE (Inr a) f = f a"
  by (simp_all add: bindE_def)

lemma bindE_eq_Inr [res_simps]: "bindE r f = Inr b \<longleftrightarrow> (\<exists>a. r = Inr a \<and> f a = Inr b)"
  by (cases r) simp_all

lemma bindE_split: "P (bindE r f) \<longleftrightarrow> (\<forall>e. r = Inl e \<longrightarrow> P (Inl e)) \<and> (\<forall>a. r = Inr a \<longrightarrow> P (f a))"
  by (cases r) simp_all

subsection \<open>Strings\<close>

definition HasPrefix :: "string \<Rightarrow> string \<Rightarrow> bool" where
  "HasPrefix s p = prefix p s"

text \<open>\<open>strings.CutPrefix\<close>: the rest and whether the prefix was there.\<close>

definition CutPrefix :: "string \<Rightarrow> string \<Rightarrow> string \<times> bool" where
  "CutPrefix s p = (if prefix p s then (drop (length p) s, True) else (s, False))"

text \<open>\<open>strings.Contains\<close>.\<close>

fun Contains :: "string \<Rightarrow> string \<Rightarrow> bool" where
  "Contains [] sub = (sub = [])"
| "Contains (c # cs) sub = (prefix sub (c # cs) \<or> Contains cs sub)"

text \<open>\<open>strings.Cut\<close>: the text before and after the first occurrence of the separator.\<close>

fun Cut_from :: "string \<Rightarrow> string \<Rightarrow> string \<Rightarrow> string \<times> string \<times> bool" where
  "Cut_from before [] sep = (if sep = [] then (rev before, [], True) else (rev before, [], False))"
| "Cut_from before (c # cs) sep =
     (if prefix sep (c # cs) then (rev before, drop (length sep) (c # cs), True)
      else Cut_from (c # before) cs sep)"

definition Cut :: "string \<Rightarrow> string \<Rightarrow> string \<times> string \<times> bool" where
  "Cut s sep = Cut_from [] s sep"

lemma Contains_sublist: "Contains s sub \<longleftrightarrow> sublist sub s"
  by (induction s sub rule: Contains.induct) (auto simp: sublist_Cons_right)

lemma Cut_from_found:
  "Cut_from before s sep = (a, b, True) \<Longrightarrow> rev before @ s = a @ sep @ b"
  by (induction before s sep rule: Cut_from.induct)
     (auto simp: prefix_def split: if_splits)

lemma Cut_found: "Cut s sep = (a, b, True) \<Longrightarrow> s = a @ sep @ b"
  by (drule Cut_from_found [of "[]", unfolded rev.simps append_Nil, folded Cut_def])

lemma CutPrefix_eq_True: "CutPrefix s p = (r, True) \<longleftrightarrow> s = p @ r"
  by (auto simp: CutPrefix_def prefix_def)

text \<open>A natural number in decimal.\<close>

fun itoa :: "nat \<Rightarrow> string" where
  "itoa n = (if n < 10 then [char_of (48 + n)] else itoa (n div 10) @ [char_of (48 + n mod 10)])"

declare itoa.simps [simp del]

text \<open>
  \<open>strings.TrimSpace\<close> drops the leading and trailing white space of \<open>unicode.IsSpace\<close>: the six
  ASCII characters and, in UTF-8, the code points below.
\<close>

definition unicode_spaces :: "string list" where
  "unicode_spaces =
     [[CHR 0x09], [CHR 0x0A], [CHR 0x0B], [CHR 0x0C], [CHR 0x0D], [CHR 0x20],
      [CHR 0xC2, CHR 0x85], [CHR 0xC2, CHR 0xA0], [CHR 0xE1, CHR 0x9A, CHR 0x80]] @
     map (\<lambda>c. [CHR 0xE2, CHR 0x80, c])
       [CHR 0x80, CHR 0x81, CHR 0x82, CHR 0x83, CHR 0x84, CHR 0x85, CHR 0x86, CHR 0x87, CHR 0x88,
        CHR 0x89, CHR 0x8A, CHR 0xA8, CHR 0xA9, CHR 0xAF] @
     [[CHR 0xE2, CHR 0x81, CHR 0x9F], [CHR 0xE3, CHR 0x80, CHR 0x80]]"

lemma unicode_spaces_nonempty: "w \<in> set unicode_spaces \<Longrightarrow> w \<noteq> []"
  by (auto simp: unicode_spaces_def)

fun trim_with :: "string list \<Rightarrow> nat \<Rightarrow> string \<Rightarrow> string" where
  "trim_with ws 0 s = s"
| "trim_with ws (Suc n) s =
     (case find (\<lambda>w. prefix w s) ws of None \<Rightarrow> s | Some w \<Rightarrow> trim_with ws n (drop (length w) s))"

text \<open>Each round drops at least one byte, so \<open>length s\<close> rounds are enough.\<close>

definition TrimSpace :: "string \<Rightarrow> string" where
  "TrimSpace s =
     (let l = trim_with unicode_spaces (length s) s
      in rev (trim_with (map rev unicode_spaces) (length l) (rev l)))"

lemma trim_with_done:
  assumes "\<And>w. w \<in> set ws \<Longrightarrow> w \<noteq> []"
  shows "length s \<le> n \<Longrightarrow> find (\<lambda>w. prefix w (trim_with ws n s)) ws = None"
proof (induction n arbitrary: s)
  case 0
  then show ?case using assms by (auto simp: find_None_iff)
next
  case (Suc n)
  show ?case
  proof (cases "find (\<lambda>w. prefix w s) ws")
    case None
    then show ?thesis by simp
  next
    case (Some w)
    then have "w \<in> set ws" and "prefix w s" by (auto simp: find_Some_iff)
    with assms have "w \<noteq> []" and "length w \<le> length s" by (auto simp: prefix_length_le)
    with Suc.prems have "length (drop (length w) s) \<le> n"
      by (cases w) auto
    with Some show ?thesis using Suc.IH by simp
  qed
qed

lemma TrimSpace_Nil [simp]: "TrimSpace [] = []"
  by (simp add: TrimSpace_def Let_def)

end
