(* ===== verification/Bpmn_Types.thy ===== *)
theory Bpmn_Types
  imports Prelude
begin

text \<open>
  The data of the BPMN compiler: the validation errors of \<open>internal/core/domain/errors.go\<close> and
  the document types of \<open>internal/bpmn_compiler/bpmncore/types.go\<close>.  A Go struct is a record whose
  fields carry a short prefix for the struct (Isabelle's record fields share one name space), a Go
  pointer that may be nil is an \<open>option\<close>, a Go slice a list.  \<open>BPMNSubProcess\<close> contains itself and
  is a datatype with selectors.  The texts of error messages are not modelled; the code, the node
  and the severity of an error are.
\<close>

subsection \<open>Validation errors\<close>

datatype BPMNErrorCode =
    BPMNErrRejectedElement | BPMNErrUnsupportedElement | BPMNErrMissingNamespace
  | BPMNErrMissingTaskDefinition | BPMNErrMissingAssignmentDefinition
  | BPMNErrInvalidTaskDefinitionType | BPMNWarnUnknownStageType
  | BPMNWarnUnknownConnectorType | BPMNWarnGatewayBranchWithoutCondition
  | BPMNWarnConnectorTaskHasAssignment | BPMNErrConnectorSecretAuthored
  | BPMNErrTaskNotInLane | BPMNErrCandidateGroupsEmpty | BPMNErrCandidateGroupsInvalid
  | BPMNErrCandidateUsersEmpty | BPMNErrInvalidCandidateUser | BPMNErrInvalidSLADuration
  | BPMNErrInvalidConditionExpression | BPMNErrMissingMessageDefinition
  | BPMNErrUnmatchedMessageFlow | BPMNErrTaskLimitExceeded | BPMNErrLaneLimitExceeded
  | BPMNErrMultipleStartEvents | BPMNErrMultipleEndEvents | BPMNErrNoStartEvent
  | BPMNErrNoEndEvent | BPMNErrDanglingNode | BPMNErrUnreachableNode | BPMNErrCycleDetected
  | BPMNErrUnguardedLoop | BPMNErrMaxDepthExceeded | BPMNErrUnmatchedGateway
  | BPMNErrInvalidSequenceFlowRef | BPMNErrMultipleProcesses | BPMNErrNoRunnableProcess
  | BPMNErrIgnoredLaneWork | BPMNErrInvalidBoundaryAttachment
  | BPMNErrUnsupportedBoundaryTarget | BPMNErrUnsupportedRevertTarget | BPMNErrMissingDiagram
  | BPMNErrMissingDiagramShape | BPMNErrInvalidZeebeProperty | BPMNErrUnresolvedCalledElement
  | BPMNErrNestedSubProcessNotSupported | BPMNErrMissingDeptInputForModule
  | BPMNErrMissingDeptID | BPMNErrInvalidDeptID | BPMNErrInvalidLaneName
  | BPMNErrCalledElementCycle | BPMNErrDuplicateProcessID | BPMNErrSplitWithoutGateway
  | BPMNErrEndEventWithOutgoingFlow | BPMNErrDuplicateElementID | BPMNErrInvalidTaskSchedule

datatype BPMNValidationSeverity = SeverityError | SeverityWarning

record BPMNValidationError =
  be_Code :: BPMNErrorCode
  be_NodeID :: string
  be_Severity :: BPMNValidationSeverity

subsection \<open>Flow nodes\<close>

datatype FlowNodeType =
    NodeTypeStartEvent | NodeTypeEndEvent | NodeTypeUserTask | NodeTypeSendTask
  | NodeTypeReceiveTask | NodeTypeParallelGateway | NodeTypeExclusiveGateway
  | NodeTypeInclusiveGateway | NodeTypeSubProcess | NodeTypeBoundaryEvent
  | NodeTypeTimerBoundaryEvent | NodeTypeErrorBoundaryEvent | NodeTypeMessageBoundaryEvent
  | NodeTypeCallActivity

subsection \<open>Extension elements\<close>

record ZeebeTaskSchedule =
  ts_DueDate :: string
  ts_FollowUpDate :: string

record ZeebeIOVar =
  iv_Source :: string
  iv_Target :: string

record ZeebeIOMapping =
  io_Inputs :: "ZeebeIOVar list"
  io_Outputs :: "ZeebeIOVar list"

record ZeebeCalledElement =
  ce_ProcessID :: string
  ce_PropagateAllChildVariables :: bool
  ce_BindingType :: string
  ce_VersionTag :: string

record ZeebeTaskDefinition =
  td_Type :: string

record ZeebeAssignmentDefinition =
  ad_CandidateGroups :: string
  ad_CandidateUsers :: string

record ZeebeProperty =
  zp_Name :: string
  zp_Value :: string

text \<open>\<open>ext_ZeebeUserTask\<close> says whether the marker element (a pointer to an empty struct) is there.\<close>

record BPMNExtensionElements =
  ext_TaskDefinition :: "ZeebeTaskDefinition option"
  ext_AssignmentDefinition :: "ZeebeAssignmentDefinition option"
  ext_ZeebeProps :: "ZeebeProperty list"
  ext_ZeebeCalledElement :: "ZeebeCalledElement option"
  ext_IOMapping :: "ZeebeIOMapping option"
  ext_TaskSchedule :: "ZeebeTaskSchedule option"
  ext_ZeebeUserTask :: bool

subsection \<open>Elements of a process\<close>

record BPMNLane =
  lane_ID :: string
  lane_Name :: string
  lane_ExtensionElements :: BPMNExtensionElements
  lane_FlowNodeRefs :: "string list"

record BPMNUserTask =
  ut_ID :: string
  ut_Name :: string
  ut_ExtensionElements :: BPMNExtensionElements

record BPMNSendTask =
  st_ID :: string
  st_Name :: string
  st_MessageRef :: string
  st_ExtensionElements :: BPMNExtensionElements

record BPMNReceiveTask =
  rt_ID :: string
  rt_Name :: string
  rt_MessageRef :: string
  rt_ExtensionElements :: BPMNExtensionElements

record BPMNEvent =
  ev_ID :: string
  ev_Name :: string

record BPMNGateway =
  gw_ID :: string
  gw_Name :: string

record BPMNSequenceFlow =
  sf_ID :: string
  sf_SourceRef :: string
  sf_TargetRef :: string
  sf_ConditionExpression :: string
  sf_ExtensionElements :: BPMNExtensionElements

record BPMNTimerDef =
  tm_Duration :: string

record BPMNErrorDef =
  er_ErrorRef :: string

record BPMNMessageEventDef =
  md_ID :: string
  md_MessageRef :: string

record BPMNBoundaryEvent =
  bnd_ID :: string
  bnd_AttachedToRef :: string
  bnd_CancelActivity :: string
  bnd_Timer :: "BPMNTimerDef option"
  bnd_Error :: "BPMNErrorDef option"
  bnd_Message :: "BPMNMessageEventDef option"

record BPMNCallActivity =
  ca_ID :: string
  ca_Name :: string
  ca_Incoming :: "string list"
  ca_Outgoing :: "string list"
  ca_ExtensionElements :: BPMNExtensionElements

datatype BPMNSubProcess = BPMNSubProcess
  (sp_ID: string)
  (sp_Name: string)
  (sp_ExtensionElements: BPMNExtensionElements)
  (sp_LaneSet: "BPMNLane list")
  (sp_UserTasks: "BPMNUserTask list")
  (sp_GenericTasks: "BPMNUserTask list")
  (sp_ServiceTasks: "BPMNUserTask list")
  (sp_SendTasks: "BPMNSendTask list")
  (sp_ReceiveTasks: "BPMNReceiveTask list")
  (sp_StartEvents: "BPMNEvent list")
  (sp_EndEvents: "BPMNEvent list")
  (sp_ParallelGateways: "BPMNGateway list")
  (sp_ExclusiveGateways: "BPMNGateway list")
  (sp_InclusiveGateways: "BPMNGateway list")
  (sp_SequenceFlows: "BPMNSequenceFlow list")
  (sp_BoundaryEvents: "BPMNBoundaryEvent list")
  (sp_SubProcesses: "BPMNSubProcess list")
  (sp_CallActivities: "BPMNCallActivity list")

record BPMNDataStoreRef =
  ds_ID :: string
  ds_Name :: string

record BPMNProcess =
  proc_ID :: string
  proc_Name :: string
  proc_IsExecutable :: bool
  proc_LibraryModule :: bool
  proc_ExtensionElements :: BPMNExtensionElements
  proc_LaneSet :: "BPMNLane list"
  proc_UserTasks :: "BPMNUserTask list"
  proc_GenericTasks :: "BPMNUserTask list"
  proc_ServiceTasks :: "BPMNUserTask list"
  proc_SendTasks :: "BPMNSendTask list"
  proc_ReceiveTasks :: "BPMNReceiveTask list"
  proc_StartEvents :: "BPMNEvent list"
  proc_EndEvents :: "BPMNEvent list"
  proc_ParallelGateways :: "BPMNGateway list"
  proc_ExclusiveGateways :: "BPMNGateway list"
  proc_InclusiveGateways :: "BPMNGateway list"
  proc_SequenceFlows :: "BPMNSequenceFlow list"
  proc_BoundaryEvents :: "BPMNBoundaryEvent list"
  proc_SubProcesses :: "BPMNSubProcess list"
  proc_CallActivities :: "BPMNCallActivity list"
  proc_DataStoreRefs :: "BPMNDataStoreRef list"

subsection \<open>Documents\<close>

record BPMNParticipant =
  pt_ID :: string
  pt_Name :: string
  pt_ProcessRef :: string

record BPMNMessageFlow =
  mf_ID :: string
  mf_Name :: string
  mf_SourceRef :: string
  mf_TargetRef :: string
  mf_MessageRef :: string

record BPMNCollaboration =
  collab_ID :: string
  collab_Participants :: "BPMNParticipant list"
  collab_MessageFlows :: "BPMNMessageFlow list"

record BPMNMessage =
  msg_ID :: string
  msg_Name :: string

record BPMNError =
  err_ID :: string
  err_ErrorCode :: string

text \<open>A diagram is the elements its shapes and its edges name.\<close>

record BPMNDiagram =
  dg_ID :: string
  dg_Shapes :: "string list"
  dg_Edges :: "string list"

text \<open>\<open>defs_ModuleProcesses\<close> is the Go map's set of keys: only \<open>true\<close> is ever stored in it.\<close>

record BPMNDefinitions =
  defs_Processes :: "BPMNProcess list"
  defs_Collaboration :: "BPMNCollaboration option"
  defs_Messages :: "BPMNMessage list"
  defs_Errors :: "BPMNError list"
  defs_Diagrams :: "BPMNDiagram list"
  defs_ModuleProcesses :: "string set"

subsection \<open>Operations of types.go\<close>

definition IsBoundaryEventType :: "FlowNodeType \<Rightarrow> bool" where
  "IsBoundaryEventType t \<longleftrightarrow>
     t = NodeTypeBoundaryEvent \<or> t = NodeTypeTimerBoundaryEvent \<or>
     t = NodeTypeErrorBoundaryEvent \<or> t = NodeTypeMessageBoundaryEvent"

definition ConnectorTaskDefPrefix :: string where
  "ConnectorTaskDefPrefix = ''connector:''"

definition ConnectorType :: "BPMNExtensionElements \<Rightarrow> string \<times> bool" where
  "ConnectorType ext =
     (case ext_TaskDefinition ext of
        None \<Rightarrow> ([], False)
      | Some td \<Rightarrow>
          (let (name, ok) = CutPrefix (td_Type td) ConnectorTaskDefPrefix
           in if name = [] then ([], False) else (name, ok)))"

definition PropsMap :: "BPMNExtensionElements \<Rightarrow> (string, string) gomap" where
  "PropsMap ext = fold (\<lambda>p m. mput (zp_Name p) (zp_Value p) m) (ext_ZeebeProps ext) []"

text \<open>The zero value of the extension elements, for the fields a composite literal leaves out.\<close>

definition zero_ext :: BPMNExtensionElements where
  "zero_ext = \<lparr>ext_TaskDefinition = None, ext_AssignmentDefinition = None, ext_ZeebeProps = [],
     ext_ZeebeCalledElement = None, ext_IOMapping = None, ext_TaskSchedule = None,
     ext_ZeebeUserTask = False\<rparr>"

definition SubProcToProcess :: "BPMNSubProcess \<Rightarrow> BPMNProcess" where
  "SubProcToProcess sp = \<lparr>
     proc_ID = sp_ID sp,
     proc_Name = sp_Name sp,
     proc_IsExecutable = False,
     proc_LibraryModule = False,
     proc_ExtensionElements = zero_ext,
     proc_LaneSet = sp_LaneSet sp,
     proc_UserTasks = sp_UserTasks sp @ sp_GenericTasks sp,
     proc_GenericTasks = [],
     proc_ServiceTasks = [],
     proc_SendTasks = sp_SendTasks sp,
     proc_ReceiveTasks = sp_ReceiveTasks sp,
     proc_StartEvents = sp_StartEvents sp,
     proc_EndEvents = sp_EndEvents sp,
     proc_ParallelGateways = sp_ParallelGateways sp,
     proc_ExclusiveGateways = sp_ExclusiveGateways sp,
     proc_InclusiveGateways = sp_InclusiveGateways sp,
     proc_SequenceFlows = sp_SequenceFlows sp,
     proc_BoundaryEvents = sp_BoundaryEvents sp,
     proc_SubProcesses = [],
     proc_CallActivities = sp_CallActivities sp,
     proc_DataStoreRefs = []\<rparr>"

text \<open>A connector task is exactly a task whose type is the prefix followed by a name.\<close>

lemma ConnectorType_True_iff:
  "ConnectorType ext = (name, True) \<longleftrightarrow>
     name \<noteq> [] \<and> (\<exists>td. ext_TaskDefinition ext = Some td \<and> td_Type td = ConnectorTaskDefPrefix @ name)"
proof (cases "ext_TaskDefinition ext")
  case (Some td)
  then show ?thesis
    by (cases "CutPrefix (td_Type td) ConnectorTaskDefPrefix")
       (auto simp: ConnectorType_def CutPrefix_eq_True [symmetric])
qed (auto simp: ConnectorType_def)

text \<open>The last of several properties with one name wins.\<close>

lemma map_of_fold_props:
  "map_of (fold (\<lambda>p m. mput (zp_Name p) (zp_Value p) m) ps m) k =
     (case find (\<lambda>p. zp_Name p = k) (rev ps) of Some p \<Rightarrow> Some (zp_Value p) | None \<Rightarrow> map_of m k)"
proof (induction ps arbitrary: m)
  case (Cons p ps)
  show ?case
    by (simp add: Cons.IH update_conv find_append split: option.splits)
qed simp

lemma PropsMap_lookup:
  "map_of (PropsMap ext) k =
     map_option zp_Value (find (\<lambda>p. zp_Name p = k) (rev (ext_ZeebeProps ext)))"
  by (simp add: PropsMap_def map_of_fold_props split: option.splits)

lemma SubProcToProcess_simps [simp]:
  "proc_SubProcesses (SubProcToProcess sp) = []"
  "proc_ID (SubProcToProcess sp) = sp_ID sp"
  "proc_LaneSet (SubProcToProcess sp) = sp_LaneSet sp"
  "proc_StartEvents (SubProcToProcess sp) = sp_StartEvents sp"
  "proc_BoundaryEvents (SubProcToProcess sp) = sp_BoundaryEvents sp"
  "proc_SequenceFlows (SubProcToProcess sp) = sp_SequenceFlows sp"
  by (simp_all add: SubProcToProcess_def)

end
