(* ===== verification/Service_Types.thy ===== *)
theory Service_Types
  imports Bpmn_Types
begin

text \<open>
  The data of the services: \<open>internal/core/domain/workflow.go\<close>, \<open>module.go\<close> and \<open>errors.go\<close>, and the
  rows of the tables of \<open>db/migrations/000002_create_tables.up.sql\<close> with the conversions of
  \<open>internal/adapter/outbound/postgres/mapping.go\<close>.

  A UUID is a natural number, \<open>uuid.Nil\<close> is 0; a time is a natural number of ticks and \<open>time.Time{}\<close>
  is 0.  A record version is a \<open>nat\<close>: the column is a \<open>bigint\<close> that starts at 1 and grows by one per
  update, so it cannot wrap around.  A version number is an \<open>int\<close> column, and its bound is modelled.
\<close>

type_synonym uuid = nat
type_synonym time = nat

definition uuid_Nil :: uuid where "uuid_Nil = 0"

subsection \<open>Status\<close>

datatype VersionStatus = VersionStatusDraft | VersionStatusPublished | VersionStatusArchived

text \<open>The order of a version's life.\<close>

fun stage_of :: "VersionStatus \<Rightarrow> nat" where
  "stage_of VersionStatusDraft = 0"
| "stage_of VersionStatusPublished = 1"
| "stage_of VersionStatusArchived = 2"

lemma stage_of_inject: "stage_of a = stage_of b \<longleftrightarrow> a = b"
  by (cases a; cases b) simp_all

instantiation VersionStatus :: linorder
begin

definition less_eq_VersionStatus :: "VersionStatus \<Rightarrow> VersionStatus \<Rightarrow> bool" where
  "less_eq_VersionStatus a b \<longleftrightarrow> stage_of a \<le> stage_of b"

definition less_VersionStatus :: "VersionStatus \<Rightarrow> VersionStatus \<Rightarrow> bool" where
  "less_VersionStatus a b \<longleftrightarrow> stage_of a < stage_of b"

instance
  by standard (auto simp: less_eq_VersionStatus_def less_VersionStatus_def stage_of_inject)

end

lemmas status_order = less_eq_VersionStatus_def less_VersionStatus_def

datatype CatalogScope = ScopeGlobal | ScopeTenant

subsection \<open>Errors\<close>

text \<open>
  The errors of \<open>domain/errors.go\<close>; \<open>ErrPanic\<close> is a panic of the code.  Wrapping an error with a text does not
  change it for \<open>errors.Is\<close>, so the text is left out.  \<open>ErrDatabase\<close> is an error of the database that the
  repositories pass on as it is.
\<close>

datatype error =
    ErrNotFound | ErrForbidden | ErrUnauthorized | ErrDraftAlreadyExists | ErrNoDraftExists
  | ErrNoActiveVersion | ErrDuplicateTemplateKey
  | ErrDraftConcurrency | DraftConcurrencyError nat | ErrRecordVersionRequired
  | ErrInvalidVersionStatus | ErrVersionNotDraft | ErrVersionNotPublished | ErrVersionAlreadyPublished
  | ErrActiveInstancesExist | ErrStructuralDivergence | ErrPlanQuotaExceeded
  | ErrAssigneeIneligible | ErrUpstreamUnavailable | ErrIdempotencyKeyReplay | ErrIdempotencyInProgress
  | ErrMalformedBPMN | ErrForbiddenXML | ErrInvalidConnectorCredentialInput | ErrInvalidConnectorAliasInput
  | ErrModuleProcessIDTaken | ErrModuleProcessIDChanged | ErrTenantRetentionChanged
  | ValidationFailedError "BPMNValidationError list" | ErrInvalidDepartmentID | ErrDatabase | ErrPanic

text \<open>\<open>errors.Is(err, ErrDraftConcurrency)\<close>: \<open>DraftConcurrencyError\<close> unwraps to it.\<close>

definition is_draft_concurrency :: "error \<Rightarrow> bool" where
  "is_draft_concurrency e \<longleftrightarrow> e = ErrDraftConcurrency \<or> (\<exists>n. e = DraftConcurrencyError n)"

lemma is_draft_concurrency_code [code]:
  "is_draft_concurrency e = (case e of ErrDraftConcurrency \<Rightarrow> True | DraftConcurrencyError n \<Rightarrow> True | _ \<Rightarrow> False)"
  by (cases e) (auto simp: is_draft_concurrency_def)

subsection \<open>Domain objects\<close>

record ModuleRef =
  mr_ModuleID :: uuid
  mr_VersionID :: uuid
  mr_ProcessID :: string
  mr_VersionNumber :: nat

record invalidationError =
  ie_NodeID :: string
  ie_Error :: string

record Workflow =
  wf_ID :: uuid
  wf_TenantID :: uuid
  wf_CreatedByUserID :: uuid
  wf_TemplateKey :: string
  wf_Name :: string
  wf_Description :: string
  wf_ActiveVersionID :: "uuid option"
  wf_ActiveVersionNumber :: "nat option"
  wf_HasDraft :: bool
  wf_CreatedAt :: time
  wf_UpdatedAt :: time

text \<open>
  The stored validation errors are only ever written by \<open>SetVersionInvalid\<close>, as an array of
  \<open>invalidationError\<close> objects; the column is that array or NULL.
\<close>

record WorkflowVersion =
  wv_ID :: uuid
  wv_WorkflowID :: uuid
  wv_TenantID :: uuid
  wv_Status :: VersionStatus
  wv_BPMNXML :: string
  wv_CompiledPlanJSON :: "string option"
  wv_ArtifactHash :: string
  wv_VersionNumber :: "nat option"
  wv_PublishedAt :: "time option"
  wv_CreatedByUserID :: uuid
  wv_IsValid :: bool
  wv_ValidationErrorsJSON :: "invalidationError list option"
  wv_CreatedAt :: time
  wv_UpdatedAt :: time
  wv_RecordVersion :: nat
  wv_ModuleRefs :: "ModuleRef list"

record NodeAssignee =
  na_ID :: uuid
  na_TenantID :: uuid
  na_WorkflowVersionID :: uuid
  na_NodeKey :: string
  na_UserID :: uuid
  na_DepartmentID :: uuid
  na_Role :: string
  na_CreatedAt :: time

subsection \<open>Rows\<close>

record workflow_row =
  wr_ID :: uuid
  wr_TenantID :: uuid
  wr_CreatedByUserID :: uuid
  wr_TemplateKey :: string
  wr_Name :: string
  wr_Description :: "string option"
  wr_ActiveVersionID :: "uuid option"
  wr_CreatedAt :: time
  wr_UpdatedAt :: time
  wr_RecordVersion :: nat

record version_row =
  vr_ID :: uuid
  vr_WorkflowID :: uuid
  vr_TenantID :: uuid
  vr_Status :: VersionStatus
  vr_BpmnXml :: string
  vr_CompiledPlanJson :: "string option"
  vr_ArtifactHash :: "string option"
  vr_VersionNumber :: "nat option"
  vr_PublishedAt :: "time option"
  vr_CreatedByUserID :: uuid
  vr_IsValid :: bool
  vr_ValidationErrorsJson :: "invalidationError list option"
  vr_CreatedAt :: time
  vr_UpdatedAt :: time
  vr_RecordVersion :: nat
  vr_ModuleRefs :: "ModuleRef list"

text \<open>\<open>workflow_node_assignee\<close> has the columns of \<open>NodeAssignee\<close>.\<close>

definition toNullableText :: "string \<Rightarrow> string option" where
  "toNullableText s = (if s = [] then None else Some s)"

definition fromPgtypeText :: "string option \<Rightarrow> string" where
  "fromPgtypeText p = (case p of None \<Rightarrow> [] | Some s \<Rightarrow> s)"

definition toNullableJSONB :: "string option \<Rightarrow> string option" where
  "toNullableJSONB s = (case s of None \<Rightarrow> None | Some t \<Rightarrow> if t = [] then None else Some t)"

definition fromJSONB :: "string option \<Rightarrow> string option" where
  "fromJSONB b = (case b of None \<Rightarrow> None | Some t \<Rightarrow> if t = [] then None else Some t)"

lemma text_roundtrip [simp]: "fromPgtypeText (toNullableText s) = s"
  by (simp add: fromPgtypeText_def toNullableText_def)

lemma jsonb_roundtrip: "fromJSONB (toNullableJSONB s) = toNullableJSONB s"
  by (simp add: fromJSONB_def toNullableJSONB_def split: option.splits)

definition workflowFromDB :: "workflow_row \<Rightarrow> Workflow" where
  "workflowFromDB row = \<lparr>wf_ID = wr_ID row, wf_TenantID = wr_TenantID row,
     wf_CreatedByUserID = wr_CreatedByUserID row, wf_TemplateKey = wr_TemplateKey row,
     wf_Name = wr_Name row, wf_Description = fromPgtypeText (wr_Description row),
     wf_ActiveVersionID = wr_ActiveVersionID row, wf_ActiveVersionNumber = None, wf_HasDraft = False,
     wf_CreatedAt = wr_CreatedAt row, wf_UpdatedAt = wr_UpdatedAt row\<rparr>"

definition workflowVersionFromDB :: "version_row \<Rightarrow> WorkflowVersion" where
  "workflowVersionFromDB row = \<lparr>wv_ID = vr_ID row, wv_WorkflowID = vr_WorkflowID row,
     wv_TenantID = vr_TenantID row, wv_Status = vr_Status row, wv_BPMNXML = vr_BpmnXml row,
     wv_CompiledPlanJSON = fromJSONB (vr_CompiledPlanJson row),
     wv_ArtifactHash = fromPgtypeText (vr_ArtifactHash row), wv_VersionNumber = vr_VersionNumber row,
     wv_PublishedAt = vr_PublishedAt row, wv_CreatedByUserID = vr_CreatedByUserID row,
     wv_IsValid = vr_IsValid row, wv_ValidationErrorsJSON = vr_ValidationErrorsJson row,
     wv_CreatedAt = vr_CreatedAt row, wv_UpdatedAt = vr_UpdatedAt row,
     wv_RecordVersion = vr_RecordVersion row, wv_ModuleRefs = vr_ModuleRefs row\<rparr>"

text \<open>A summary leaves out the document, the plan, the hash, the errors and the module references.\<close>

definition workflowVersionSummaryFromDB :: "version_row \<Rightarrow> WorkflowVersion" where
  "workflowVersionSummaryFromDB row = \<lparr>wv_ID = vr_ID row, wv_WorkflowID = vr_WorkflowID row,
     wv_TenantID = vr_TenantID row, wv_Status = vr_Status row, wv_BPMNXML = [],
     wv_CompiledPlanJSON = None, wv_ArtifactHash = [], wv_VersionNumber = vr_VersionNumber row,
     wv_PublishedAt = vr_PublishedAt row, wv_CreatedByUserID = vr_CreatedByUserID row,
     wv_IsValid = vr_IsValid row, wv_ValidationErrorsJSON = None,
     wv_CreatedAt = vr_CreatedAt row, wv_UpdatedAt = vr_UpdatedAt row,
     wv_RecordVersion = vr_RecordVersion row, wv_ModuleRefs = []\<rparr>"

lemma workflowVersionFromDB_simps [simp]:
  "wv_ID (workflowVersionFromDB r) = vr_ID r"
  "wv_WorkflowID (workflowVersionFromDB r) = vr_WorkflowID r"
  "wv_TenantID (workflowVersionFromDB r) = vr_TenantID r"
  "wv_Status (workflowVersionFromDB r) = vr_Status r"
  "wv_BPMNXML (workflowVersionFromDB r) = vr_BpmnXml r"
  "wv_VersionNumber (workflowVersionFromDB r) = vr_VersionNumber r"
  "wv_IsValid (workflowVersionFromDB r) = vr_IsValid r"
  "wv_RecordVersion (workflowVersionFromDB r) = vr_RecordVersion r"
  "wv_ModuleRefs (workflowVersionFromDB r) = vr_ModuleRefs r"
  by (simp_all add: workflowVersionFromDB_def)

end
