(* ===== verification/Lifecycle.thy ===== *)
theory Lifecycle
  imports Service_Types
begin

text \<open>
  The contract of a table of versions, for workflows and for modules alike: an owner has at most one
  draft, a draft is published under the next number of its owner, a published version is archived, and
  only a draft is ever removed by itself.  A table is seen through the key columns of its rows, and the
  contract is a step relation on the list of keys with its invariant.  Beside its steps, an owner can
  leave with all its versions: the purge of a departed tenant.  The locale \<open>version_store\<close> is what a
  store has to provide: every step of it is some such moves.  \<open>tracked_store\<close> extends it for a store
  that knows the versions that have left.  Their facts then hold of the store: the first is interpreted
  on the module store, the second on the workflow store.
\<close>

record vkey =
  k_ID :: uuid
  k_Owner :: uuid
  k_Status :: VersionStatus
  k_Number :: "nat option"

definition numbers :: "uuid \<Rightarrow> vkey list \<Rightarrow> nat set" where
  "numbers oid ks = {n. \<exists>k \<in> set ks. k_Owner k = oid \<and> k_Number k = Some n}"

definition has_draft :: "uuid \<Rightarrow> vkey list \<Rightarrow> bool" where
  "has_draft oid ks \<longleftrightarrow> (\<exists>k \<in> set ks. k_Owner k = oid \<and> k_Status k = VersionStatusDraft)"

text \<open>A change of the one row with an identifier.\<close>

definition on_id :: "uuid \<Rightarrow> (vkey \<Rightarrow> vkey) \<Rightarrow> vkey list \<Rightarrow> vkey list" where
  "on_id i f ks = map (\<lambda>k. if k_ID k = i then f k else k) ks"

definition publish_key :: "nat \<Rightarrow> vkey \<Rightarrow> vkey" where
  "publish_key n k = k\<lparr>k_Status := VersionStatusPublished, k_Number := Some n\<rparr>"

definition archive_key :: "vkey \<Rightarrow> vkey" where
  "archive_key k = k\<lparr>k_Status := VersionStatusArchived\<rparr>"

inductive life_step :: "vkey list \<Rightarrow> vkey list \<Rightarrow> bool" where
  draft: "life_step ks (ks @ [\<lparr>k_ID = i, k_Owner = oid, k_Status = VersionStatusDraft, k_Number = None\<rparr>])"
    if "i \<notin> k_ID ` set ks" and "\<not> has_draft oid ks"
| publish: "life_step ks (on_id (k_ID k) (publish_key n) ks)"
    if "k \<in> set ks" and "k_Status k = VersionStatusDraft" and "n = Suc (Max (insert 0 (numbers (k_Owner k) ks)))"
| archive: "life_step ks (on_id (k_ID k) archive_key ks)"
    if "k \<in> set ks" and "k_Status k = VersionStatusPublished"
| discard: "life_step ks (filter (\<lambda>k'. k_ID k' \<noteq> k_ID k) ks)"
    if "k \<in> set ks" and "k_Status k = VersionStatusDraft"

definition life_ok :: "vkey list \<Rightarrow> bool" where
  "life_ok ks \<longleftrightarrow>
     distinct (map k_ID ks) \<and>
     (\<forall>k \<in> set ks. k_Status k = VersionStatusDraft \<longleftrightarrow> k_Number k = None) \<and>
     (\<forall>k \<in> set ks. \<forall>k' \<in> set ks. k_Owner k = k_Owner k' \<longrightarrow> k_Number k = k_Number k' \<longrightarrow> k = k') \<and>
     (\<forall>oid. \<exists>m. numbers oid ks = {1..m})"

text \<open>Two drafts of one owner have the same number, none, so the third clause says that there is at most one.\<close>

lemma on_id_simps [simp]:
  "map k_ID (on_id i (publish_key n) ks) = map k_ID ks"
  "map k_ID (on_id i archive_key ks) = map k_ID ks"
  by (auto simp: on_id_def publish_key_def archive_key_def)

lemma set_on_id: "set (on_id i f ks) = (\<lambda>k. if k_ID k = i then f k else k) ` set ks"
  by (simp add: on_id_def)

lemma finite_numbers: "finite (numbers oid ks)"
proof -
  have "numbers oid ks \<subseteq> (\<lambda>k. the (k_Number k)) ` set ks" by (force simp: numbers_def)
  then show ?thesis by (rule finite_subset) simp
qed

text \<open>The rows of a well-formed table are determined by their identifiers.\<close>

lemma life_ok_id: "life_ok ks \<Longrightarrow> k \<in> set ks \<Longrightarrow> k' \<in> set ks \<Longrightarrow> k_ID k = k_ID k' \<Longrightarrow> k = k'"
  by (auto simp: life_ok_def distinct_map dest: inj_onD)

lemma set_on_id_member:
  assumes "life_ok ks" and "k \<in> set ks"
  shows "set (on_id (k_ID k) f ks) = insert (f k) (set ks - {k})"
proof -
  have "(\<lambda>x. if k_ID x = k_ID k then f x else x) ` set ks = (\<lambda>x. if x = k then f k else x) ` set ks"
    using life_ok_id [OF assms(1) _ assms(2)] by (intro image_cong) auto
  also have "\<dots> = insert (f k) (set ks - {k})" using assms(2) by auto
  finally show ?thesis by (simp add: set_on_id)
qed

lemma life_okI:
  assumes "distinct (map k_ID ks)"
    and "\<And>k. k \<in> set ks \<Longrightarrow> k_Status k = VersionStatusDraft \<longleftrightarrow> k_Number k = None"
    and "\<And>k k'. k \<in> set ks \<Longrightarrow> k' \<in> set ks \<Longrightarrow> k_Owner k = k_Owner k' \<Longrightarrow> k_Number k = k_Number k' \<Longrightarrow> k = k'"
    and "\<And>oid. \<exists>m. numbers oid ks = {1..m}"
  shows "life_ok ks"
  using assms by (simp add: life_ok_def)

lemma life_ok_facts:
  assumes "life_ok ks"
  shows "distinct (map k_ID ks)"
    and "k \<in> set ks \<Longrightarrow> k_Status k = VersionStatusDraft \<longleftrightarrow> k_Number k = None"
    and "k \<in> set ks \<Longrightarrow> k' \<in> set ks \<Longrightarrow> k_Owner k = k_Owner k' \<Longrightarrow> k_Number k = k_Number k' \<Longrightarrow> k = k'"
    and "\<exists>m. numbers oid ks = {1..m}"
  using assms by (simp_all add: life_ok_def)

lemma life_ok_Nil: "life_ok []"
  by (auto simp: life_ok_def numbers_def intro!: exI [of _ 0])

lemma life_ok_draft:
  assumes ok: "life_ok ks" and fresh: "i \<notin> k_ID ` set ks" and none: "\<not> has_draft oid ks"
  shows "life_ok (ks @ [\<lparr>k_ID = i, k_Owner = oid, k_Status = VersionStatusDraft, k_Number = None\<rparr>])"
proof -
  let ?k = "\<lparr>k_ID = i, k_Owner = oid, k_Status = VersionStatusDraft, k_Number = None\<rparr>"
  have nums: "numbers p (ks @ [?k]) = numbers p ks" for p by (auto simp: numbers_def)
  have other: "k_Number k \<noteq> None" if "k \<in> set ks" "k_Owner k = oid" for k
    using none life_ok_facts(2) [OF ok that(1)] that by (auto simp: has_draft_def)
  show ?thesis
  proof (rule life_okI)
    show "distinct (map k_ID (ks @ [?k]))" using life_ok_facts(1) [OF ok] fresh by simp
    show "\<exists>m. numbers p (ks @ [?k]) = {1..m}" for p using life_ok_facts(4) [OF ok] by (simp add: nums)
    show "k_Status k = VersionStatusDraft \<longleftrightarrow> k_Number k = None" if "k \<in> set (ks @ [?k])" for k
      using that life_ok_facts(2) [OF ok] by auto
    fix k k'
    assume mem: "k \<in> set (ks @ [?k])" "k' \<in> set (ks @ [?k])" and eq: "k_Owner k = k_Owner k'" "k_Number k = k_Number k'"
    then consider "k = ?k" "k' = ?k" | "k = ?k" "k' \<in> set ks" | "k \<in> set ks" "k' = ?k" | "k \<in> set ks" "k' \<in> set ks"
      by fastforce
    then show "k = k'"
    proof cases
      case 4
      then show ?thesis using life_ok_facts(3) [OF ok] eq by blast
    qed (use eq other [of k] other [of k'] in simp_all)
  qed
qed

lemma life_ok_discard:
  assumes ok: "life_ok ks" and k: "k \<in> set ks" "k_Status k = VersionStatusDraft"
  shows "life_ok (filter (\<lambda>k'. k_ID k' \<noteq> k_ID k) ks)"
proof -
  from k life_ok_facts(2) [OF ok] have none: "k_Number k = None" by blast
  have nums: "numbers p (filter (\<lambda>k'. k_ID k' \<noteq> k_ID k) ks) = numbers p ks" for p
    using none life_ok_id [OF ok _ k(1)] by (fastforce simp: numbers_def)
  show ?thesis
  proof (rule life_okI)
    show "distinct (map k_ID (filter (\<lambda>k'. k_ID k' \<noteq> k_ID k) ks))"
      using life_ok_facts(1) [OF ok] by (simp add: distinct_map_filter)
    show "\<exists>m. numbers p (filter (\<lambda>k'. k_ID k' \<noteq> k_ID k) ks) = {1..m}" for p
      using life_ok_facts(4) [OF ok] by (simp add: nums)
  qed (use life_ok_facts(2,3) [OF ok] in auto)
qed

lemma life_ok_archive:
  assumes ok: "life_ok ks" and k: "k \<in> set ks" "k_Status k = VersionStatusPublished"
  shows "life_ok (on_id (k_ID k) archive_key ks)"
proof -
  note set = set_on_id_member [OF ok k(1), of archive_key]
  have same: "k_Number (archive_key k) = k_Number k" "k_Owner (archive_key k) = k_Owner k" by (simp_all add: archive_key_def)
  have nums: "numbers p (on_id (k_ID k) archive_key ks) = numbers p ks" for p
    unfolding numbers_def set using same k(1) by auto
  show ?thesis
  proof (rule life_okI)
    show "distinct (map k_ID (on_id (k_ID k) archive_key ks))" using life_ok_facts(1) [OF ok] by simp
    show "\<exists>m. numbers p (on_id (k_ID k) archive_key ks) = {1..m}" for p
      using life_ok_facts(4) [OF ok] by (simp add: nums)
    show "k_Status x = VersionStatusDraft \<longleftrightarrow> k_Number x = None" if "x \<in> set (on_id (k_ID k) archive_key ks)" for x
      using that life_ok_facts(2) [OF ok] life_ok_facts(2) [OF ok k(1)] k by (auto simp: set archive_key_def)
    show "x = y" if "x \<in> set (on_id (k_ID k) archive_key ks)" "y \<in> set (on_id (k_ID k) archive_key ks)"
      "k_Owner x = k_Owner y" "k_Number x = k_Number y" for x y
      using that life_ok_facts(3) [OF ok, of x y] life_ok_facts(3) [OF ok k(1), of y] life_ok_facts(3) [OF ok, of x k] k(1) same
      unfolding set by fastforce
  qed
qed

lemma life_ok_publish:
  assumes ok: "life_ok ks" and k: "k \<in> set ks" "k_Status k = VersionStatusDraft"
    and n: "n = Suc (Max (insert 0 (numbers (k_Owner k) ks)))"
  shows "life_ok (on_id (k_ID k) (publish_key n) ks)"
proof -
  let ?f = "\<lambda>x. if k_ID x = k_ID k then publish_key n x else x"
  obtain m where m: "numbers (k_Owner k) ks = {1..m}" using life_ok_facts(4) [OF ok] by blast
  have "Max (insert 0 {1..m}) = m" by (cases m) (auto intro!: Max_eqI)
  with n m have n: "n = Suc m" by simp
  from k life_ok_facts(2) [OF ok] have none: "k_Number k = None" by blast
  have set: "set (on_id (k_ID k) (publish_key n) ks) = insert (publish_key n k) (set ks - {k})"
    by (rule set_on_id_member [OF ok k(1)])
  have fresh: "k_Number x \<noteq> Some n" if "x \<in> set ks" "k_Owner x = k_Owner k" for x
  proof
    assume "k_Number x = Some n"
    with that have "n \<in> numbers (k_Owner k) ks" by (auto simp: numbers_def)
    with m n show False by simp
  qed
  have nums: "numbers p (on_id (k_ID k) (publish_key n) ks) =
      (if p = k_Owner k then insert n (numbers p ks) else numbers p ks)" for p
    unfolding numbers_def set using none by (auto simp: publish_key_def)
  show ?thesis
  proof (rule life_okI)
    show "distinct (map k_ID (on_id (k_ID k) (publish_key n) ks))" using life_ok_facts(1) [OF ok] by simp
    show "\<exists>q. numbers p (on_id (k_ID k) (publish_key n) ks) = {1..q}" for p
    proof (cases "p = k_Owner k")
      case True
      with nums m n have "numbers p (on_id (k_ID k) (publish_key n) ks) = {1..Suc m}" by (auto simp: atLeastAtMostSuc_conv)
      then show ?thesis ..
    qed (use nums life_ok_facts(4) [OF ok] in simp)
    show "k_Status x = VersionStatusDraft \<longleftrightarrow> k_Number x = None" if "x \<in> set (on_id (k_ID k) (publish_key n) ks)" for x
      using that life_ok_facts(2) [OF ok] by (auto simp: set publish_key_def)
    show "x = y" if "x \<in> set (on_id (k_ID k) (publish_key n) ks)" "y \<in> set (on_id (k_ID k) (publish_key n) ks)"
      "k_Owner x = k_Owner y" "k_Number x = k_Number y" for x y
      using that life_ok_facts(3) [OF ok, of x y] fresh [of x] fresh [of y] by (auto simp: set publish_key_def)
  qed
qed

lemma life_step_ok: "life_step ks ks' \<Longrightarrow> life_ok ks \<Longrightarrow> life_ok ks'"
  by (induction rule: life_step.induct)
     (simp_all add: life_ok_draft life_ok_discard life_ok_archive life_ok_publish)

lemma life_steps_ok: "life_step\<^sup>*\<^sup>* ks ks' \<Longrightarrow> life_ok ks \<Longrightarrow> life_ok ks'"
  by (induction rule: rtranclp_induct) (auto intro: life_step_ok)

subsection \<open>What a version keeps\<close>

text \<open>
  A version that has left the draft stage stays: it keeps its owner and its number, and its status never
  goes back.
\<close>

definition kept :: "vkey \<Rightarrow> vkey list \<Rightarrow> bool" where
  "kept k ks \<longleftrightarrow> (\<exists>k' \<in> set ks. k_ID k' = k_ID k \<and> k_Owner k' = k_Owner k \<and> k_Number k' = k_Number k \<and>
     k_Status k \<le> k_Status k')"

lemma life_step_kept:
  assumes "life_step ks ks'" and ok: "life_ok ks" and "kept k ks" and "k_Status k \<noteq> VersionStatusDraft"
  shows "kept k ks'"
proof -
  from assms(3) obtain k' where k': "k' \<in> set ks" "k_ID k' = k_ID k" "k_Owner k' = k_Owner k"
    "k_Number k' = k_Number k" "k_Status k \<le> k_Status k'" by (auto simp: kept_def)
  with assms(4) have live: "k_Status k' \<noteq> VersionStatusDraft"
    by (cases "k_Status k"; cases "k_Status k'") (auto simp: status_order)
  from assms(1) show ?thesis
  proof cases
    case (draft i oid)
    with k' show ?thesis by (auto simp: kept_def)
  next
    case (publish x n)
    with live life_ok_id [OF ok k'(1), of x] have "k_ID k' \<noteq> k_ID x" by auto
    then have "k' \<in> set ks'" using k'(1) set_on_id_member [OF ok publish(2)] publish(1) by auto
    with k' show ?thesis unfolding kept_def by blast
  next
    case (discard x)
    with live life_ok_id [OF ok k'(1), of x] have "k_ID k' \<noteq> k_ID x" by auto
    with k' discard show ?thesis by (auto simp: kept_def)
  next
    case (archive x)
    let ?k = "if k_ID k' = k_ID x then archive_key k' else k'"
    have "k_Status k \<le> k_Status ?k" using k'(5)
      by (cases "k_Status k") (auto simp: archive_key_def status_order)
    moreover from archive k'(1) have "?k \<in> set ks'" by (auto simp: set_on_id)
    ultimately show ?thesis using k' unfolding kept_def
      by (intro bexI [of _ ?k]) (auto simp: archive_key_def)
  qed
qed

lemma life_steps_kept:
  assumes "life_step\<^sup>*\<^sup>* ks ks'" and "life_ok ks" and "k \<in> set ks" and "k_Status k \<noteq> VersionStatusDraft"
  shows "kept k ks'"
  using assms(1)
proof (induction rule: rtranclp_induct)
  case base
  from assms(3) show ?case unfolding kept_def by blast
next
  case (step x y)
  then show ?case using life_step_kept [OF step.hyps(2)] life_steps_ok [OF step.hyps(1) assms(2)] assms(4) by blast
qed

subsection \<open>Owners that leave\<close>

text \<open>
  Whole owners can leave the table, each with all its versions.  A move is a step of the contract or such a departure; its
  parameter is a set that the versions that leave belong to.
\<close>

definition drop_owners :: "uuid set \<Rightarrow> vkey list \<Rightarrow> vkey list" where
  "drop_owners gone ks = filter (\<lambda>k. k_Owner k \<notin> gone) ks"

inductive life_move :: "uuid set \<Rightarrow> vkey list \<Rightarrow> vkey list \<Rightarrow> bool" for D where
  step: "life_step ks ks' \<Longrightarrow> life_move D ks ks'"
| drop: "life_move D ks (drop_owners gone ks)" if "k_ID ` {k \<in> set ks. k_Owner k \<in> gone} \<subseteq> D"

lemma numbers_drop: "numbers p (drop_owners gone ks) = (if p \<in> gone then {} else numbers p ks)"
  by (auto simp: numbers_def drop_owners_def)

lemma life_ok_drop:
  assumes ok: "life_ok ks"
  shows "life_ok (drop_owners gone ks)"
proof (rule life_okI)
  show "distinct (map k_ID (drop_owners gone ks))"
    using life_ok_facts(1) [OF ok] by (simp add: drop_owners_def distinct_map_filter)
  show "\<exists>m. numbers p (drop_owners gone ks) = {1..m}" for p
    using life_ok_facts(4) [OF ok, of p] by (auto simp: numbers_drop intro: exI [of _ 0])
qed (use life_ok_facts(2,3) [OF ok] in \<open>auto simp: drop_owners_def\<close>)

lemma life_move_ok: "life_move D ks ks' \<Longrightarrow> life_ok ks \<Longrightarrow> life_ok ks'"
  by (induction rule: life_move.induct) (auto intro: life_step_ok life_ok_drop)

lemma life_moves_ok: "(life_move D)\<^sup>*\<^sup>* ks ks' \<Longrightarrow> life_ok ks \<Longrightarrow> life_ok ks'"
  by (induction rule: rtranclp_induct) (auto intro: life_move_ok)

lemma life_move_mono: "life_move D ks ks' \<Longrightarrow> D \<subseteq> D' \<Longrightarrow> life_move D' ks ks'"
  by (induction rule: life_move.induct) (auto intro!: life_move.intros)

lemma life_moves_mono: "(life_move D)\<^sup>*\<^sup>* ks ks' \<Longrightarrow> D \<subseteq> D' \<Longrightarrow> (life_move D')\<^sup>*\<^sup>* ks ks'"
  by (induction rule: rtranclp_induct) (auto intro: rtranclp.rtrancl_into_rtrancl life_move_mono)

lemma life_steps_moves: "life_step\<^sup>*\<^sup>* ks ks' \<Longrightarrow> (life_move D)\<^sup>*\<^sup>* ks ks'"
  by (induction rule: rtranclp_induct) (auto intro: rtranclp.rtrancl_into_rtrancl life_move.step)

lemma life_move_kept:
  assumes "life_move D ks ks'" and ok: "life_ok ks" and "kept k ks" and "k_Status k \<noteq> VersionStatusDraft"
  shows "kept k ks' \<or> k_ID k \<in> D"
  using assms(1)
proof cases
  case step
  then show ?thesis using life_step_kept [OF _ ok assms(3,4)] by blast
next
  case (drop gone)
  from assms(3) obtain k' where k': "k' \<in> set ks" "k_ID k' = k_ID k" "k_Owner k' = k_Owner k" "k_Number k' = k_Number k"
    "k_Status k \<le> k_Status k'" by (auto simp: kept_def)
  show ?thesis
  proof (cases "k_Owner k' \<in> gone")
    case True
    with k'(1) have "k' \<in> {k \<in> set ks. k_Owner k \<in> gone}" by simp
    with drop(2) have "k_ID k' \<in> D" by blast
    with k'(2) show ?thesis by simp
  next
    case False
    with k' drop(1) show ?thesis by (auto simp: kept_def drop_owners_def)
  qed
qed

lemma life_moves_kept:
  assumes "(life_move D)\<^sup>*\<^sup>* ks ks'" and "life_ok ks" and "k \<in> set ks" and "k_Status k \<noteq> VersionStatusDraft"
  shows "kept k ks' \<or> k_ID k \<in> D"
  using assms(1)
proof (induction rule: rtranclp_induct)
  case base
  from assms(3) show ?case unfolding kept_def by blast
next
  case (step x y)
  then show ?case using life_move_kept [OF step.hyps(2)] life_moves_ok [OF step.hyps(1) assms(2)] assms(4) by blast
qed

subsection \<open>Stores\<close>

locale version_store =
  fixes keys :: "'s \<Rightarrow> vkey list"
    and inv :: "'s \<Rightarrow> bool"
    and start :: 's
    and step :: "'s \<Rightarrow> 's \<Rightarrow> bool"
  assumes start_keys: "keys start = []"
    and start_inv: "inv start"
    and step_inv: "step s s' \<Longrightarrow> inv s \<Longrightarrow> life_ok (keys s) \<Longrightarrow> inv s'"
    and step_keys: "step s s' \<Longrightarrow> inv s \<Longrightarrow> life_ok (keys s) \<Longrightarrow> (life_move UNIV)\<^sup>*\<^sup>* (keys s) (keys s')"
begin

lemma steps_ok:
  assumes "step\<^sup>*\<^sup>* s s'" and "inv s" and "life_ok (keys s)"
  shows "inv s' \<and> life_ok (keys s')"
  using assms(1)
proof (induction rule: rtranclp_induct)
  case base
  show ?case using assms(2,3) by simp
next
  case (step x y)
  with step_keys [OF step.hyps(2)] step_inv [OF step.hyps(2)] show ?case by (blast intro: life_moves_ok)
qed

lemma reach_inv: "step\<^sup>*\<^sup>* start s \<Longrightarrow> inv s"
  and reach_ok: "step\<^sup>*\<^sup>* start s \<Longrightarrow> life_ok (keys s)"
  using steps_ok [of start s] start_inv by (simp_all add: start_keys life_ok_Nil)

end

text \<open>A store that knows which versions have left with their owners.\<close>

locale tracked_store = version_store keys inv start step
  for keys :: "'s \<Rightarrow> vkey list" and inv start step +
  fixes gone :: "'s \<Rightarrow> uuid set"
  assumes step_gone: "step s s' \<Longrightarrow> gone s \<subseteq> gone s'"
    and step_moves: "step s s' \<Longrightarrow> inv s \<Longrightarrow> life_ok (keys s) \<Longrightarrow> (life_move (gone s'))\<^sup>*\<^sup>* (keys s) (keys s')"
begin

lemma steps_gone: "step\<^sup>*\<^sup>* s s' \<Longrightarrow> gone s \<subseteq> gone s'"
  by (induction rule: rtranclp_induct) (auto dest: step_gone)

lemma steps_moves:
  assumes "step\<^sup>*\<^sup>* s s'" and "inv s" and "life_ok (keys s)"
  shows "(life_move (gone s'))\<^sup>*\<^sup>* (keys s) (keys s')"
  using assms(1)
proof (induction rule: rtranclp_induct)
  case (step x y)
  have "(life_move (gone y))\<^sup>*\<^sup>* (keys s) (keys x)" using step.IH step_gone [OF step.hyps(2)] by (rule life_moves_mono)
  also have "(life_move (gone y))\<^sup>*\<^sup>* (keys x) (keys y)"
    using step_moves [OF step.hyps(2)] steps_ok [OF step.hyps(1) assms(2,3)] by blast
  finally show ?case .
qed simp

text \<open>Once a version is published it stays, under its number, as long as its owner does.\<close>

lemma version_kept:
  assumes "step\<^sup>*\<^sup>* start s" and "step\<^sup>*\<^sup>* s s'" and "k \<in> set (keys s)" and "k_Status k \<noteq> VersionStatusDraft"
  shows "kept k (keys s') \<or> k_ID k \<in> gone s'"
  using life_moves_kept [OF steps_moves [OF assms(2)]] reach_inv [OF assms(1)] reach_ok [OF assms(1)] assms(3,4) by blast

end

end
