(* ===== verification/Workflow_Store.thy ===== *)
theory Workflow_Store
  imports Lifecycle
begin

text \<open>
  The workflow tables and their repositories: the queries of \<open>db/queries/workflow.sql\<close>,
  \<open>workflow_version.sql\<close> and \<open>workflow_node_assignee.sql\<close> over the tables, constraints, unique indexes
  and triggers of \<open>db/migrations\<close>, and on top of them \<open>workflow_repo.go\<close>, \<open>workflow_version_repo.go\<close>,
  \<open>assignee_repo.go\<close>, \<open>base.go\<close>, \<open>errors.go\<close> and \<open>transactor.go\<close> of
  \<open>internal/adapter/outbound/postgres\<close>.

  A table is the list of its rows.  A query is a function of the tables; \<open>now\<close> is the transaction's
  \<open>now()\<close>.  A statement that fails leaves the tables as they were.  Lengths of \<open>VARCHAR\<close> columns, row
  level security and a database that cannot be reached are not modelled.
\<close>

subsection \<open>Actions\<close>

text \<open>An action reads and changes a state and gives a value, or fails.\<close>

type_synonym ('s, 'a) action = "'s \<Rightarrow> error + 'a \<times> 's"

definition return_act :: "'a \<Rightarrow> ('s, 'a) action" where
  "return_act a = (\<lambda>s. Inr (a, s))"

definition fail_act :: "error \<Rightarrow> ('s, 'a) action" where
  "fail_act e = (\<lambda>s. Inl e)"

definition bind_act :: "('s, 'a) action \<Rightarrow> ('a \<Rightarrow> ('s, 'b) action) \<Rightarrow> ('s, 'b) action" where
  "bind_act m f = (\<lambda>s. bindE (m s) (\<lambda>(a, s'). f a s'))"

definition lift_act :: "error + 'a \<Rightarrow> ('s, 'a) action" where
  "lift_act r = (\<lambda>s. bindE r (\<lambda>a. Inr (a, s)))"

lemma act_Inr [res_simps]:
  "return_act a s = Inr r \<longleftrightarrow> r = (a, s)"
  "fail_act e s = Inr r \<longleftrightarrow> False"
  "bind_act m f s = Inr r \<longleftrightarrow> (\<exists>a s'. m s = Inr (a, s') \<and> f a s' = Inr r)"
  "lift_act x s = Inr r \<longleftrightarrow> (\<exists>a. x = Inr a \<and> r = (a, s))"
  by (auto simp: return_act_def fail_act_def bind_act_def lift_act_def bindE_eq_Inr)

subsection \<open>Tables\<close>

record db =
  db_workflows :: "workflow_row list"
  db_versions :: "version_row list"
  db_assignees :: "NodeAssignee list"

definition empty_db :: db where
  "empty_db = \<lparr>db_workflows = [], db_versions = [], db_assignees = []\<rparr>"

datatype sql_error = NoRows | UniqueViolation string | OtherViolation

definition constraintWorkflowTemplateKey :: string where
  "constraintWorkflowTemplateKey = ''workflow_tenant_id_template_key_key''"
definition constraintWorkflowVersionDraft :: string where
  "constraintWorkflowVersionDraft = ''idx_wv_single_draft''"
definition constraintWorkflowVersionPublished :: string where
  "constraintWorkflowVersionPublished = ''uq_workflow_version_published''"
definition constraintModuleVersionDraft :: string where
  "constraintModuleVersionDraft = ''idx_mv_single_draft''"
definition constraintModuleVersionPublished :: string where
  "constraintModuleVersionPublished = ''uq_module_version_published''"
definition constraintModuleProcessIDTenant :: string where
  "constraintModuleProcessIDTenant = ''uq_module_process_id_tenant''"
definition constraintModuleProcessIDGlobal :: string where
  "constraintModuleProcessIDGlobal = ''uq_module_process_id_global''"

definition mapErr :: "sql_error \<Rightarrow> error" where
  "mapErr e =
     (case e of
        NoRows \<Rightarrow> ErrNotFound
      | UniqueViolation c \<Rightarrow>
          if c = constraintWorkflowTemplateKey then ErrDuplicateTemplateKey
          else if c = constraintWorkflowVersionDraft then ErrDraftAlreadyExists
          else if c = constraintWorkflowVersionPublished then ErrDraftConcurrency
          else if c = constraintModuleVersionDraft then ErrDraftAlreadyExists
          else if c = constraintModuleVersionPublished then ErrDraftConcurrency
          else if c = constraintModuleProcessIDTenant \<or> c = constraintModuleProcessIDGlobal then ErrModuleProcessIDTaken
          else ErrDatabase
      | OtherViolation \<Rightarrow> ErrDatabase)"

text \<open>The trigger \<open>update_meta_columns\<close>: it fires when the update changes the row.\<close>

definition touch_workflow :: "time \<Rightarrow> workflow_row \<Rightarrow> workflow_row \<Rightarrow> workflow_row" where
  "touch_workflow now old new =
     (if new = old then old else new\<lparr>wr_UpdatedAt := now, wr_RecordVersion := Suc (wr_RecordVersion old)\<rparr>)"

definition touch_version :: "time \<Rightarrow> version_row \<Rightarrow> version_row \<Rightarrow> version_row" where
  "touch_version now old new =
     (if new = old then old else new\<lparr>vr_UpdatedAt := now, vr_RecordVersion := Suc (vr_RecordVersion old)\<rparr>)"

text \<open>An \<open>UPDATE\<close> and the number of rows it matched.\<close>

definition update_workflows :: "time \<Rightarrow> (workflow_row \<Rightarrow> bool) \<Rightarrow> (workflow_row \<Rightarrow> workflow_row) \<Rightarrow> db \<Rightarrow> nat \<times> db" where
  "update_workflows now P f db =
     (length (filter P (db_workflows db)),
      db\<lparr>db_workflows := map (\<lambda>w. if P w then touch_workflow now w (f w) else w) (db_workflows db)\<rparr>)"

definition update_versions :: "time \<Rightarrow> (version_row \<Rightarrow> bool) \<Rightarrow> (version_row \<Rightarrow> version_row) \<Rightarrow> db \<Rightarrow> nat \<times> db" where
  "update_versions now P f db =
     (length (filter P (db_versions db)),
      db\<lparr>db_versions := map (\<lambda>v. if P v then touch_version now v (f v) else v) (db_versions db)\<rparr>)"

subsection \<open>workflow.sql\<close>

definition CreateWorkflow :: "time \<Rightarrow> workflow_row \<Rightarrow> db \<Rightarrow> sql_error + db" where
  "CreateWorkflow now w db =
     (if \<exists>x \<in> set (db_workflows db). wr_ID x = wr_ID w then Inl (UniqueViolation ''workflow_pkey'')
      else if \<exists>x \<in> set (db_workflows db). wr_TenantID x = wr_TenantID w \<and> wr_TemplateKey x = wr_TemplateKey w
      then Inl (UniqueViolation constraintWorkflowTemplateKey)
      else Inr (db\<lparr>db_workflows := db_workflows db @ [w\<lparr>wr_CreatedAt := now, wr_UpdatedAt := now, wr_RecordVersion := 1\<rparr>]\<rparr>))"

definition GetWorkflowByIDWithVersionNumber :: "uuid \<Rightarrow> uuid \<Rightarrow> db \<Rightarrow> sql_error + workflow_row \<times> nat option" where
  "GetWorkflowByIDWithVersionNumber tenantID wid db =
     (case find (\<lambda>w. wr_TenantID w = tenantID \<and> wr_ID w = wid) (db_workflows db) of
        None \<Rightarrow> Inl NoRows
      | Some w \<Rightarrow>
          Inr (w, Option.bind (find (\<lambda>v. Some (vr_ID v) = wr_ActiveVersionID w) (db_versions db)) vr_VersionNumber))"

definition CountWorkflowsByTenant :: "uuid \<Rightarrow> db \<Rightarrow> nat" where
  "CountWorkflowsByTenant tenantID db =
     length (filter (\<lambda>w. wr_TenantID w = tenantID \<and>
       (wr_ActiveVersionID w \<noteq> None \<or>
        (\<exists>v \<in> set (db_versions db). vr_WorkflowID v = wr_ID w \<and> vr_Status v = VersionStatusDraft))) (db_workflows db))"

definition may_activate :: "db \<Rightarrow> workflow_row \<Rightarrow> uuid option \<Rightarrow> bool" where
  "may_activate db w versionID \<longleftrightarrow>
     (case versionID of
        None \<Rightarrow> True
      | Some vid \<Rightarrow> \<exists>v \<in> set (db_versions db). vr_ID v = vid \<and> vr_WorkflowID v = wr_ID w \<and> vr_TenantID v = wr_TenantID w \<and>
          vr_Status v = VersionStatusPublished \<and> vr_IsValid v)"

definition UpdateActiveVersion :: "time \<Rightarrow> uuid \<Rightarrow> uuid \<Rightarrow> uuid option \<Rightarrow> db \<Rightarrow> nat \<times> db" where
  "UpdateActiveVersion now tenantID wid versionID db =
     update_workflows now (\<lambda>w. wr_TenantID w = tenantID \<and> wr_ID w = wid \<and> may_activate db w versionID)
       (\<lambda>w. w\<lparr>wr_ActiveVersionID := versionID, wr_UpdatedAt := now\<rparr>) db"

definition UpdateWorkflowMetadata :: "time \<Rightarrow> uuid \<Rightarrow> uuid \<Rightarrow> string \<Rightarrow> string option \<Rightarrow> db \<Rightarrow> nat \<times> db" where
  "UpdateWorkflowMetadata now tenantID wid name description db =
     update_workflows now (\<lambda>w. wr_TenantID w = tenantID \<and> wr_ID w = wid)
       (\<lambda>w. w\<lparr>wr_Name := name, wr_Description := description, wr_UpdatedAt := now\<rparr>) db"

subsection \<open>workflow_version.sql\<close>

text \<open>The defaults of the columns the insert leaves out: times, record version and no module references.\<close>

definition CreateWorkflowVersion :: "time \<Rightarrow> version_row \<Rightarrow> db \<Rightarrow> sql_error + db" where
  "CreateWorkflowVersion now v db =
     (if vr_Status v \<noteq> VersionStatusDraft \<and> vr_VersionNumber v = None then Inl OtherViolation
      else if \<exists>x \<in> set (db_versions db). vr_ID x = vr_ID v then Inl (UniqueViolation ''workflow_version_pkey'')
      else if vr_Status v = VersionStatusDraft \<and>
        (\<exists>x \<in> set (db_versions db). vr_WorkflowID x = vr_WorkflowID v \<and> vr_Status x = VersionStatusDraft)
      then Inl (UniqueViolation constraintWorkflowVersionDraft)
      else if vr_VersionNumber v \<noteq> None \<and>
        (\<exists>x \<in> set (db_versions db). vr_WorkflowID x = vr_WorkflowID v \<and> vr_VersionNumber x = vr_VersionNumber v)
      then Inl (UniqueViolation constraintWorkflowVersionPublished)
      else if \<not> (\<exists>w \<in> set (db_workflows db). wr_ID w = vr_WorkflowID v \<and> wr_TenantID w = vr_TenantID v) then Inl OtherViolation
      else Inr (db\<lparr>db_versions := db_versions db @
        [v\<lparr>vr_CreatedAt := now, vr_UpdatedAt := now, vr_RecordVersion := 1, vr_ModuleRefs := []\<rparr>]\<rparr>))"

definition GetWorkflowVersionByID :: "uuid \<Rightarrow> uuid \<Rightarrow> db \<Rightarrow> sql_error + version_row" where
  "GetWorkflowVersionByID tenantID vid db =
     (case find (\<lambda>v. vr_TenantID v = tenantID \<and> vr_ID v = vid) (db_versions db) of
        None \<Rightarrow> Inl NoRows | Some v \<Rightarrow> Inr v)"

definition GetDraftVersion :: "uuid \<Rightarrow> uuid \<Rightarrow> db \<Rightarrow> sql_error + version_row" where
  "GetDraftVersion tenantID wid db =
     (case find (\<lambda>v. vr_TenantID v = tenantID \<and> vr_WorkflowID v = wid \<and> vr_Status v = VersionStatusDraft) (db_versions db) of
        None \<Rightarrow> Inl NoRows | Some v \<Rightarrow> Inr v)"

definition UpdateDraftVersion :: "time \<Rightarrow> version_row \<Rightarrow> db \<Rightarrow> sql_error + nat \<times> db" where
  "UpdateDraftVersion now v db =
     (let P = (\<lambda>x. vr_TenantID x = vr_TenantID v \<and> vr_ID x = vr_ID v \<and> vr_Status x = VersionStatusDraft \<and>
                   vr_RecordVersion x = vr_RecordVersion v);
          (n, db') = update_versions now P (\<lambda>x. x\<lparr>vr_BpmnXml := vr_BpmnXml v, vr_CompiledPlanJson := vr_CompiledPlanJson v,
            vr_ArtifactHash := vr_ArtifactHash v, vr_IsValid := vr_IsValid v,
            vr_ValidationErrorsJson := vr_ValidationErrorsJson v\<rparr>) db
      in case find (\<lambda>x. vr_ID x = vr_ID v) (db_versions db') of
           Some x \<Rightarrow> if n = 0 then Inl NoRows else Inr (vr_RecordVersion x, db')
         | None \<Rightarrow> Inl NoRows)"

text \<open>
  The column of the plan is \<open>JSONB\<close>: the database keeps the value and writes it in its own form; here it is the text that was
  written.
\<close>

definition PublishVersion :: "time \<Rightarrow> uuid \<Rightarrow> uuid \<Rightarrow> nat \<Rightarrow> string \<Rightarrow> string option \<Rightarrow> ModuleRef list \<Rightarrow> nat \<Rightarrow> db \<Rightarrow> sql_error + nat \<times> db" where
  "PublishVersion now tenantID vid versionNumber plan hash refs recordVersion db =
     (let P = (\<lambda>x. vr_TenantID x = tenantID \<and> vr_ID x = vid \<and> vr_Status x = VersionStatusDraft \<and> vr_RecordVersion x = recordVersion)
      in if \<exists>x \<in> set (db_versions db). P x \<and>
            (\<exists>y \<in> set (db_versions db). vr_ID y \<noteq> vid \<and> vr_WorkflowID y = vr_WorkflowID x \<and> vr_VersionNumber y = Some versionNumber)
         then Inl (UniqueViolation constraintWorkflowVersionPublished)
         else Inr (update_versions now P (\<lambda>x. x\<lparr>vr_Status := VersionStatusPublished, vr_VersionNumber := Some versionNumber,
                vr_CompiledPlanJson := Some plan, vr_ArtifactHash := hash, vr_ModuleRefs := refs,
                vr_PublishedAt := Some now, vr_UpdatedAt := now\<rparr>) db))"

definition ArchiveVersion :: "time \<Rightarrow> uuid \<Rightarrow> uuid \<Rightarrow> db \<Rightarrow> nat \<times> db" where
  "ArchiveVersion now tenantID vid db =
     update_versions now (\<lambda>x. vr_TenantID x = tenantID \<and> vr_ID x = vid \<and> vr_Status x = VersionStatusPublished)
       (\<lambda>x. x\<lparr>vr_Status := VersionStatusArchived, vr_UpdatedAt := now\<rparr>) db"

text \<open>
  A delete takes the version's assignees with it (\<open>ON DELETE CASCADE\<close>) and clears the pointer of a
  workflow that names it (\<open>ON DELETE SET NULL\<close>, an update of that row).
\<close>

definition DeleteDraftVersion :: "time \<Rightarrow> uuid \<Rightarrow> uuid \<Rightarrow> db \<Rightarrow> nat \<times> db" where
  "DeleteDraftVersion now tenantID vid db =
     (let P = (\<lambda>x. vr_TenantID x = tenantID \<and> vr_ID x = vid \<and> vr_Status x = VersionStatusDraft);
          gone = filter P (db_versions db);
          db = db\<lparr>db_versions := filter (\<lambda>x. \<not> P x) (db_versions db),
                  db_assignees := filter (\<lambda>a. \<not> (\<exists>x \<in> set gone. na_WorkflowVersionID a = vr_ID x \<and> na_TenantID a = vr_TenantID x))
                    (db_assignees db)\<rparr>;
          (_, db) = update_workflows now (\<lambda>w. \<exists>x \<in> set gone. wr_ActiveVersionID w = Some (vr_ID x) \<and> wr_TenantID w = vr_TenantID x)
            (\<lambda>w. w\<lparr>wr_ActiveVersionID := None\<rparr>) db
      in (length gone, db))"

text \<open>
  The purge of a tenant's workflows, from \<open>tenant_retention.sql\<close>.  The subquery takes any rows up to its limit: \<open>order\<close> is
  the order in which the database finds them.  A deleted workflow takes its versions with it, and they their assignees and
  the pointers that name them.
\<close>

definition PurgeTenantWorkflows :: "time \<Rightarrow> (workflow_row \<Rightarrow> nat) \<Rightarrow> uuid \<Rightarrow> nat \<Rightarrow> db \<Rightarrow> nat \<times> db" where
  "PurgeTenantWorkflows now order tenantID limit db =
     (let ids = map wr_ID (take limit (sort_key order (filter (\<lambda>w. wr_TenantID w = tenantID) (db_workflows db))));
          gone = filter (\<lambda>w. wr_ID w \<in> set ids) (db_workflows db);
          P = (\<lambda>x. \<exists>w \<in> set gone. vr_WorkflowID x = wr_ID w \<and> vr_TenantID x = wr_TenantID w);
          lost = filter P (db_versions db);
          db = db\<lparr>db_workflows := filter (\<lambda>w. wr_ID w \<notin> set ids) (db_workflows db),
                  db_versions := filter (\<lambda>x. \<not> P x) (db_versions db),
                  db_assignees := filter (\<lambda>a. \<not> (\<exists>x \<in> set lost. na_WorkflowVersionID a = vr_ID x \<and> na_TenantID a = vr_TenantID x))
                    (db_assignees db)\<rparr>;
          (_, db) = update_workflows now (\<lambda>w. \<exists>x \<in> set lost. wr_ActiveVersionID w = Some (vr_ID x) \<and> wr_TenantID w = vr_TenantID x)
            (\<lambda>w. w\<lparr>wr_ActiveVersionID := None\<rparr>) db
      in (length gone, db))"

text \<open>The stored entries first, then the new ones, each entry once at its first place.\<close>

fun dedup_first :: "'a list \<Rightarrow> 'a set \<Rightarrow> 'a list" where
  "dedup_first [] old = []"
| "dedup_first (x # xs) old = (if x \<in> old then dedup_first xs old else x # dedup_first xs (insert x old))"

definition SetVersionInvalid :: "time \<Rightarrow> uuid \<Rightarrow> uuid \<Rightarrow> invalidationError list \<Rightarrow> db \<Rightarrow> nat \<times> db" where
  "SetVersionInvalid now tenantID vid errs db =
     update_versions now (\<lambda>x. vr_TenantID x = tenantID \<and> vr_ID x = vid)
       (\<lambda>x. x\<lparr>vr_IsValid := False,
             vr_ValidationErrorsJson := Some (dedup_first
               ((case vr_ValidationErrorsJson x of None \<Rightarrow> [] | Some es \<Rightarrow> es) @ errs) {}),
             vr_UpdatedAt := now\<rparr>) db"

text \<open>\<open>int4\<close>: the sum overflows at \<open>2 ^ 31 - 1\<close>, which is an error of the database.\<close>

definition max_number :: "uuid \<Rightarrow> uuid \<Rightarrow> db \<Rightarrow> nat" where
  "max_number tenantID wid db =
     foldr max (List.map_filter vr_VersionNumber
       (filter (\<lambda>v. vr_TenantID v = tenantID \<and> vr_WorkflowID v = wid \<and> vr_Status v \<noteq> VersionStatusDraft) (db_versions db))) 0"

definition NextVersionNumber :: "uuid \<Rightarrow> uuid \<Rightarrow> db \<Rightarrow> sql_error + nat" where
  "NextVersionNumber tenantID wid db =
     (let m = max_number tenantID wid db in if m + 1 < 2 ^ 31 then Inr (m + 1) else Inl OtherViolation)"

definition CountVersionsByWorkflow :: "uuid \<Rightarrow> uuid \<Rightarrow> db \<Rightarrow> nat" where
  "CountVersionsByWorkflow tenantID wid db =
     length (filter (\<lambda>v. vr_TenantID v = tenantID \<and> vr_WorkflowID v = wid) (db_versions db))"

text \<open>Rows of one creation time come in an order of the database's choosing: here, the later insert first.\<close>

definition ListVersionsByWorkflow :: "uuid \<Rightarrow> uuid \<Rightarrow> nat \<Rightarrow> nat \<Rightarrow> db \<Rightarrow> version_row list" where
  "ListVersionsByWorkflow tenantID wid limit offset db =
     take limit (drop offset (rev (sort_key vr_CreatedAt
       (filter (\<lambda>v. vr_TenantID v = tenantID \<and> vr_WorkflowID v = wid) (db_versions db)))))"

subsection \<open>workflow_node_assignee.sql\<close>

definition InsertAssignee :: "time \<Rightarrow> NodeAssignee \<Rightarrow> db \<Rightarrow> sql_error + db" where
  "InsertAssignee now a db =
     (if \<exists>x \<in> set (db_assignees db). na_ID x = na_ID a then Inl (UniqueViolation ''workflow_node_assignee_pkey'')
      else if \<not> (\<exists>v \<in> set (db_versions db). vr_ID v = na_WorkflowVersionID a \<and> vr_TenantID v = na_TenantID a) then Inl OtherViolation
      else Inr (db\<lparr>db_assignees := db_assignees db @ [a\<lparr>na_CreatedAt := now\<rparr>]\<rparr>))"

definition ListAssigneesByUser :: "uuid \<Rightarrow> uuid \<Rightarrow> db \<Rightarrow> NodeAssignee list" where
  "ListAssigneesByUser tenantID userID db =
     sort_key (\<lambda>a. na_WorkflowVersionID a) (sort_key (\<lambda>a. na_NodeKey a)
       (filter (\<lambda>a. na_TenantID a = tenantID \<and> na_UserID a = userID) (db_assignees db)))"

definition DeleteAssigneesByVersion :: "uuid \<Rightarrow> uuid \<Rightarrow> db \<Rightarrow> db" where
  "DeleteAssigneesByVersion tenantID vid db =
     db\<lparr>db_assignees := filter (\<lambda>a. \<not> (na_TenantID a = tenantID \<and> na_WorkflowVersionID a = vid)) (db_assignees db)\<rparr>"

end
