(* ===== verification/Workflow_Repo.thy ===== *)
theory Workflow_Repo
  imports Workflow_Store
begin

text \<open>
  The repositories \<open>workflow_repo.go\<close>, \<open>workflow_version_repo.go\<close> and \<open>assignee_repo.go\<close> with
  \<open>base.go\<close> and \<open>transactor.go\<close>: each method is an action on the tables.  A method whose statement
  matched no row looks at the tables again to tell why.  The model does so in the same step; a plain save of
  a draft runs its two statements outside a transaction, and another request may commit between them, so
  there the cause that is told may be that of the later tables.
\<close>

type_synonym 'a repo = "(db, 'a) action"

definition of_sql :: "(db \<Rightarrow> sql_error + db) \<Rightarrow> unit repo" where
  "of_sql q = (\<lambda>db. case q db of Inl e \<Rightarrow> Inl (mapErr e) | Inr db' \<Rightarrow> Inr ((), db'))"

text \<open>An \<open>execresult\<close>: no row matched means the error that the tables explain.\<close>

definition of_count :: "(db \<Rightarrow> nat \<times> db) \<Rightarrow> (db \<Rightarrow> error) \<Rightarrow> unit repo" where
  "of_count q explain = (\<lambda>db. let (n, db') = q db in if n = 0 then Inl (explain db) else Inr ((), db'))"

text \<open>A foreign key that is checked at the end of the transaction: \<open>fk_active_version\<close>.\<close>

definition active_fk :: "db \<Rightarrow> bool" where
  "active_fk db \<longleftrightarrow>
     (\<forall>w \<in> set (db_workflows db). case wr_ActiveVersionID w of
        None \<Rightarrow> True
      | Some vid \<Rightarrow> \<exists>v \<in> set (db_versions db). vr_ID v = vid \<and> vr_TenantID v = wr_TenantID w)"

text \<open>
  A transaction runs its body on the tables and commits.  \<open>RunInTxWithRetry\<close> runs at the serializable
  level and tries again after a serialization failure, so its committed run is a run alone; \<open>RunInTx\<close> and
  a single statement are modelled alike.
\<close>

definition RunInTx :: "'a repo \<Rightarrow> 'a repo" where
  "RunInTx body = (\<lambda>db. bindE (body db) (\<lambda>(a, db'). if active_fk db' then Inr (a, db') else Inl ErrDatabase))"

lemma RunInTx_Inr [res_simps]: "RunInTx body db = Inr (a, db') \<longleftrightarrow> body db = Inr (a, db') \<and> active_fk db'"
  by (auto simp: RunInTx_def bindE_eq_Inr split: if_splits)

subsection \<open>workflow_repo.go\<close>

definition WorkflowRepo_Create :: "time \<Rightarrow> Workflow \<Rightarrow> unit repo" where
  "WorkflowRepo_Create now w =
     of_sql (CreateWorkflow now \<lparr>wr_ID = wf_ID w, wr_TenantID = wf_TenantID w, wr_CreatedByUserID = wf_CreatedByUserID w,
       wr_TemplateKey = wf_TemplateKey w, wr_Name = wf_Name w, wr_Description = toNullableText (wf_Description w),
       wr_ActiveVersionID = wf_ActiveVersionID w, wr_CreatedAt = now, wr_UpdatedAt = now, wr_RecordVersion = 1\<rparr>)"

definition WorkflowRepo_GetByID :: "uuid \<Rightarrow> uuid \<Rightarrow> Workflow repo" where
  "WorkflowRepo_GetByID tenantID wid = (\<lambda>db.
     case GetWorkflowByIDWithVersionNumber tenantID wid db of
       Inl e \<Rightarrow> Inl (mapErr e)
     | Inr (row, number) \<Rightarrow> Inr ((workflowFromDB row)\<lparr>wf_ActiveVersionNumber := number\<rparr>, db))"

definition workflowOrVersionNotPublished :: "uuid \<Rightarrow> uuid \<Rightarrow> uuid option \<Rightarrow> db \<Rightarrow> error" where
  "workflowOrVersionNotPublished tenantID wid versionID db =
     (case GetWorkflowByIDWithVersionNumber tenantID wid db of
        Inl NoRows \<Rightarrow> ErrNotFound
      | Inl e \<Rightarrow> mapErr e
      | Inr _ \<Rightarrow>
          (case versionID of
             None \<Rightarrow> ErrVersionNotPublished
           | Some vid \<Rightarrow>
               (case GetWorkflowVersionByID tenantID vid db of
                  Inl _ \<Rightarrow> ErrVersionNotPublished
                | Inr v \<Rightarrow> if vr_Status v = VersionStatusPublished \<and> \<not> vr_IsValid v then ErrInvalidVersionStatus
                           else ErrVersionNotPublished)))"

definition WorkflowRepo_UpdateActiveVersion :: "time \<Rightarrow> uuid \<Rightarrow> uuid \<Rightarrow> uuid option \<Rightarrow> unit repo" where
  "WorkflowRepo_UpdateActiveVersion now tenantID wid versionID =
     of_count (UpdateActiveVersion now tenantID wid versionID) (workflowOrVersionNotPublished tenantID wid versionID)"

definition WorkflowRepo_UpdateMetadata :: "time \<Rightarrow> uuid \<Rightarrow> uuid \<Rightarrow> string \<Rightarrow> string \<Rightarrow> unit repo" where
  "WorkflowRepo_UpdateMetadata now tenantID wid name description =
     of_count (UpdateWorkflowMetadata now tenantID wid name (toNullableText description)) (\<lambda>_. ErrNotFound)"

definition WorkflowRepo_CountByTenant :: "uuid \<Rightarrow> nat repo" where
  "WorkflowRepo_CountByTenant tenantID = (\<lambda>db. Inr (CountWorkflowsByTenant tenantID db, db))"

subsection \<open>base.go\<close>

definition statusOrNotFound :: "uuid \<Rightarrow> uuid \<Rightarrow> error \<Rightarrow> db \<Rightarrow> error" where
  "statusOrNotFound tenantID vid wrongStatusErr db =
     (case GetWorkflowVersionByID tenantID vid db of Inl _ \<Rightarrow> ErrNotFound | Inr _ \<Rightarrow> wrongStatusErr)"

definition statusOrNotFoundOrConcurrency :: "uuid \<Rightarrow> uuid \<Rightarrow> db \<Rightarrow> error" where
  "statusOrNotFoundOrConcurrency tenantID vid db =
     (case GetWorkflowVersionByID tenantID vid db of
        Inl _ \<Rightarrow> ErrNotFound
      | Inr row \<Rightarrow> if vr_Status row \<noteq> VersionStatusDraft then ErrVersionNotDraft else ErrDraftConcurrency)"

subsection \<open>workflow_version_repo.go\<close>

definition version_params :: "WorkflowVersion \<Rightarrow> version_row" where
  "version_params v = \<lparr>vr_ID = wv_ID v, vr_WorkflowID = wv_WorkflowID v, vr_TenantID = wv_TenantID v,
     vr_Status = wv_Status v, vr_BpmnXml = wv_BPMNXML v,
     vr_CompiledPlanJson = toNullableJSONB (wv_CompiledPlanJSON v),
     vr_ArtifactHash = toNullableText (wv_ArtifactHash v), vr_VersionNumber = wv_VersionNumber v,
     vr_PublishedAt = wv_PublishedAt v, vr_CreatedByUserID = wv_CreatedByUserID v, vr_IsValid = wv_IsValid v,
     vr_ValidationErrorsJson = wv_ValidationErrorsJSON v, vr_CreatedAt = wv_CreatedAt v, vr_UpdatedAt = wv_UpdatedAt v,
     vr_RecordVersion = wv_RecordVersion v, vr_ModuleRefs = wv_ModuleRefs v\<rparr>"

definition VersionRepo_Create :: "time \<Rightarrow> WorkflowVersion \<Rightarrow> unit repo" where
  "VersionRepo_Create now v = of_sql (CreateWorkflowVersion now (version_params v))"

definition VersionRepo_GetByID :: "uuid \<Rightarrow> uuid \<Rightarrow> WorkflowVersion repo" where
  "VersionRepo_GetByID tenantID vid = (\<lambda>db.
     case GetWorkflowVersionByID tenantID vid db of
       Inl e \<Rightarrow> Inl (mapErr e) | Inr row \<Rightarrow> Inr (workflowVersionFromDB row, db))"

definition VersionRepo_GetDraft :: "uuid \<Rightarrow> uuid \<Rightarrow> WorkflowVersion repo" where
  "VersionRepo_GetDraft tenantID wid = (\<lambda>db.
     case GetDraftVersion tenantID wid db of
       Inl e \<Rightarrow> Inl (mapErr e) | Inr row \<Rightarrow> Inr (workflowVersionFromDB row, db))"

definition clampInt32 :: "int \<Rightarrow> int" where
  "clampInt32 n = (if 2 ^ 31 - 1 < n then 2 ^ 31 - 1 else if n < - (2 ^ 31) then - (2 ^ 31) else n)"

definition VersionRepo_ListByWorkflow :: "uuid \<Rightarrow> uuid \<Rightarrow> int \<Rightarrow> int \<Rightarrow> (WorkflowVersion list \<times> nat) repo" where
  "VersionRepo_ListByWorkflow tenantID wid page limit = (\<lambda>db.
     let page = (if page < 1 then 1 else page);
         limit = (if limit < 1 then 20 else limit);
         offset = clampInt32 ((page - 1) * limit);
         total = CountVersionsByWorkflow tenantID wid db;
         rows = ListVersionsByWorkflow tenantID wid (nat (clampInt32 limit)) (nat offset) db
     in Inr ((map workflowVersionSummaryFromDB rows, total), db))"

text \<open>The draft after the update, with the record version the statement returned.\<close>

definition VersionRepo_UpdateDraft :: "time \<Rightarrow> WorkflowVersion \<Rightarrow> WorkflowVersion repo" where
  "VersionRepo_UpdateDraft now v = (\<lambda>db.
     case UpdateDraftVersion now (version_params v) db of
       Inl NoRows \<Rightarrow> Inl (statusOrNotFoundOrConcurrency (wv_TenantID v) (wv_ID v) db)
     | Inl e \<Rightarrow> Inl (mapErr e)
     | Inr (recordVersion, db') \<Rightarrow> Inr (v\<lparr>wv_RecordVersion := recordVersion\<rparr>, db'))"

definition VersionRepo_Publish :: "time \<Rightarrow> uuid \<Rightarrow> uuid \<Rightarrow> nat \<Rightarrow> nat \<Rightarrow> string \<Rightarrow> string \<Rightarrow> ModuleRef list \<Rightarrow> unit repo" where
  "VersionRepo_Publish now tenantID vid recordVersion versionNumber compiledPlanJSON artifactHash moduleRefs = (\<lambda>db.
     case PublishVersion now tenantID vid versionNumber compiledPlanJSON (toNullableText artifactHash) moduleRefs recordVersion db of
       Inl e \<Rightarrow> Inl (mapErr e)
     | Inr (n, db') \<Rightarrow> if n = 0 then Inl (statusOrNotFoundOrConcurrency tenantID vid db) else Inr ((), db'))"

definition VersionRepo_Archive :: "time \<Rightarrow> uuid \<Rightarrow> uuid \<Rightarrow> unit repo" where
  "VersionRepo_Archive now tenantID vid =
     of_count (ArchiveVersion now tenantID vid) (statusOrNotFound tenantID vid ErrVersionNotPublished)"

definition VersionRepo_DeleteDraft :: "time \<Rightarrow> uuid \<Rightarrow> uuid \<Rightarrow> unit repo" where
  "VersionRepo_DeleteDraft now tenantID vid =
     of_count (DeleteDraftVersion now tenantID vid) (statusOrNotFound tenantID vid ErrVersionNotDraft)"

definition VersionRepo_SetInvalid :: "time \<Rightarrow> uuid \<Rightarrow> uuid \<Rightarrow> invalidationError list \<Rightarrow> unit repo" where
  "VersionRepo_SetInvalid now tenantID vid errs =
     of_count (SetVersionInvalid now tenantID vid errs) (\<lambda>_. ErrNotFound)"

definition VersionRepo_NextVersionNumber :: "uuid \<Rightarrow> uuid \<Rightarrow> nat repo" where
  "VersionRepo_NextVersionNumber tenantID wid = (\<lambda>db.
     case NextVersionNumber tenantID wid db of Inl e \<Rightarrow> Inl (mapErr e) | Inr n \<Rightarrow> Inr (n, db))"

subsection \<open>assignee_repo.go\<close>

text \<open>The batch stops at the first row that fails; the rows are written for the given tenant and version.\<close>

fun insert_batch :: "time \<Rightarrow> uuid \<Rightarrow> uuid \<Rightarrow> NodeAssignee list \<Rightarrow> unit repo" where
  "insert_batch now tenantID vid [] = return_act ()"
| "insert_batch now tenantID vid (a # as) =
     bind_act (of_sql (InsertAssignee now (a\<lparr>na_TenantID := tenantID, na_WorkflowVersionID := vid\<rparr>)))
       (\<lambda>_. insert_batch now tenantID vid as)"

definition AssigneeRepo_BulkInsert :: "time \<Rightarrow> uuid \<Rightarrow> uuid \<Rightarrow> NodeAssignee list \<Rightarrow> unit repo" where
  "AssigneeRepo_BulkInsert now tenantID vid assignees =
     (if assignees = [] then return_act () else insert_batch now tenantID vid assignees)"

definition AssigneeRepo_ListByUser :: "uuid \<Rightarrow> uuid \<Rightarrow> NodeAssignee list repo" where
  "AssigneeRepo_ListByUser tenantID userID = (\<lambda>db. Inr (ListAssigneesByUser tenantID userID db, db))"

definition AssigneeRepo_DeleteByVersion :: "uuid \<Rightarrow> uuid \<Rightarrow> unit repo" where
  "AssigneeRepo_DeleteByVersion tenantID vid = (\<lambda>db. Inr ((), DeleteAssigneesByVersion tenantID vid db))"

end
