(* ===== verification/Workflow_Services.thy ===== *)
theory Workflow_Services
  imports Workflow_Repo
begin

text \<open>
  The services on workflows and their versions: \<open>workflow_service.go\<close>, \<open>version_service.go\<close>,
  \<open>version_publish.go\<close>, \<open>version_types.go\<close>, \<open>draft_service.go\<close> and \<open>membership_event.go\<close> of
  \<open>internal/core/service\<close>.  A method is an action on the tables; where it runs a transaction, the
  transaction's body is a definition of its own, because other requests can run between the reads before
  it and the transaction.  The compiler, the membership and execution services and the generator of UUIDs
  are arguments.  Logging and metrics are left out.
\<close>

subsection \<open>Quota\<close>

text \<open>A limit is a pointer to an \<open>int64\<close>; nil is no limit.\<close>

definition enforceWorkflowQuota :: "uuid \<Rightarrow> int option \<Rightarrow> unit repo" where
  "enforceWorkflowQuota tenantID limit =
     (case limit of
        None \<Rightarrow> return_act ()
      | Some l \<Rightarrow> bind_act (WorkflowRepo_CountByTenant tenantID)
          (\<lambda>count. if l \<le> int count then fail_act ErrPlanQuotaExceeded else return_act ()))"

definition hasBlockingError :: "BPMNValidationError list \<Rightarrow> bool" where
  "hasBlockingError errs \<longleftrightarrow> (\<exists>e \<in> set errs. be_Severity e \<noteq> SeverityWarning)"

subsection \<open>WorkflowService\<close>

definition new_workflow :: "uuid \<Rightarrow> uuid \<Rightarrow> uuid \<Rightarrow> string \<Rightarrow> string \<Rightarrow> string \<Rightarrow> Workflow" where
  "new_workflow wid tenantID userID templateKey name description = \<lparr>wf_ID = wid, wf_TenantID = tenantID,
     wf_CreatedByUserID = userID, wf_TemplateKey = templateKey, wf_Name = name, wf_Description = description,
     wf_ActiveVersionID = None, wf_ActiveVersionNumber = None, wf_HasDraft = False, wf_CreatedAt = 0, wf_UpdatedAt = 0\<rparr>"

definition new_draft :: "uuid \<Rightarrow> uuid \<Rightarrow> uuid \<Rightarrow> uuid \<Rightarrow> string \<Rightarrow> WorkflowVersion" where
  "new_draft vid wid tenantID userID bpmnXML = \<lparr>wv_ID = vid, wv_WorkflowID = wid, wv_TenantID = tenantID,
     wv_Status = VersionStatusDraft, wv_BPMNXML = bpmnXML, wv_CompiledPlanJSON = None, wv_ArtifactHash = [],
     wv_VersionNumber = None, wv_PublishedAt = None, wv_CreatedByUserID = userID, wv_IsValid = True,
     wv_ValidationErrorsJSON = None, wv_CreatedAt = 0, wv_UpdatedAt = 0, wv_RecordVersion = 0, wv_ModuleRefs = []\<rparr>"

definition create_tx :: "time \<Rightarrow> uuid \<Rightarrow> int option \<Rightarrow> Workflow \<Rightarrow> WorkflowVersion \<Rightarrow> unit repo" where
  "create_tx now tenantID limit w v =
     bind_act (enforceWorkflowQuota tenantID limit) (\<lambda>_.
     bind_act (WorkflowRepo_Create now w) (\<lambda>_.
     VersionRepo_Create now v))"

text \<open>\<open>compiler\<close> is nil or validates a document; \<open>limits\<close> looks a plan code up.\<close>

definition WorkflowService_Create ::
  "(uuid \<Rightarrow> string \<Rightarrow> error + BPMNValidationError list) option \<Rightarrow> (string \<Rightarrow> error + int option) \<Rightarrow> time \<Rightarrow> uuid \<Rightarrow> uuid
   \<Rightarrow> uuid \<Rightarrow> uuid \<Rightarrow> string \<Rightarrow> string \<Rightarrow> string \<Rightarrow> string \<Rightarrow> string \<Rightarrow> (Workflow \<times> WorkflowVersion) repo" where
  "WorkflowService_Create compiler limits now wfID vID tenantID userID templateKey name description bpmnXML planCode =
     bind_act (case compiler of
        None \<Rightarrow> return_act ()
      | Some validate \<Rightarrow> bind_act (lift_act (validate tenantID bpmnXML))
          (\<lambda>errs. if hasBlockingError errs then fail_act (ValidationFailedError errs) else return_act ())) (\<lambda>_.
     let w = new_workflow wfID tenantID userID templateKey name description;
         v = new_draft vID (wf_ID w) tenantID userID bpmnXML
     in bind_act (lift_act (limits planCode)) (\<lambda>limit.
        bind_act (RunInTx (create_tx now tenantID limit w v)) (\<lambda>_.
        return_act (w, v))))"

definition WorkflowService_Get :: "uuid \<Rightarrow> uuid \<Rightarrow> int \<Rightarrow> (Workflow \<times> WorkflowVersion list) repo" where
  "WorkflowService_Get tenantID wid versionsLimit =
     bind_act (WorkflowRepo_GetByID tenantID wid) (\<lambda>w.
       let versionsLimit = (if versionsLimit < 1 \<or> 100 < versionsLimit then 20 else versionsLimit)
       in bind_act (VersionRepo_ListByWorkflow tenantID wid 1 versionsLimit) (\<lambda>(versions, _).
          return_act (w, versions)))"

definition archive_tx :: "time \<Rightarrow> uuid \<Rightarrow> uuid \<Rightarrow> uuid repo" where
  "archive_tx now tenantID wid =
     bind_act (WorkflowRepo_GetByID tenantID wid) (\<lambda>current.
       case wf_ActiveVersionID current of
         None \<Rightarrow> fail_act ErrNoActiveVersion
       | Some versionID \<Rightarrow>
           bind_act (VersionRepo_Archive now tenantID versionID) (\<lambda>_.
           bind_act (WorkflowRepo_UpdateActiveVersion now tenantID wid None) (\<lambda>_.
           return_act versionID)))"

text \<open>\<open>execution\<close> is nil or asks for running instances; the value is the archived version, whose plan is then evicted.\<close>

definition WorkflowService_Archive :: "(uuid \<Rightarrow> uuid \<Rightarrow> error + bool) option \<Rightarrow> time \<Rightarrow> uuid \<Rightarrow> uuid \<Rightarrow> uuid repo" where
  "WorkflowService_Archive execution now tenantID wid =
     bind_act (WorkflowRepo_GetByID tenantID wid) (\<lambda>w.
       if wf_ActiveVersionID w = None then fail_act ErrNoActiveVersion
       else bind_act (case execution of
              None \<Rightarrow> return_act ()
            | Some checkActiveInstances \<Rightarrow> bind_act (lift_act (checkActiveInstances tenantID wid))
                (\<lambda>hasActive. if hasActive then fail_act ErrActiveInstancesExist else return_act ())) (\<lambda>_.
            RunInTx (archive_tx now tenantID wid)))"

subsection \<open>VersionService: reads, clone and promote\<close>

definition VersionService_Get :: "uuid \<Rightarrow> uuid \<Rightarrow> uuid \<Rightarrow> WorkflowVersion repo" where
  "VersionService_Get tenantID wid vid =
     bind_act (VersionRepo_GetByID tenantID vid) (\<lambda>v.
       if wv_WorkflowID v \<noteq> wid then fail_act ErrNotFound else return_act v)"

definition VersionService_Clone ::
  "(string \<Rightarrow> error + int option) \<Rightarrow> time \<Rightarrow> uuid \<Rightarrow> uuid \<Rightarrow> uuid \<Rightarrow> uuid \<Rightarrow> uuid \<Rightarrow> uuid \<Rightarrow> string
   \<Rightarrow> string \<Rightarrow> string \<Rightarrow> string \<Rightarrow> (Workflow \<times> WorkflowVersion) repo" where
  "VersionService_Clone limits now newWFID newVersionID tenantID userID wid vid planCode newKey newName newDescription =
     bind_act (VersionRepo_GetByID tenantID vid) (\<lambda>source.
       if wv_WorkflowID source \<noteq> wid then fail_act ErrNotFound
       else if wv_Status source = VersionStatusDraft then fail_act ErrVersionNotPublished
       else
         let newWF = new_workflow newWFID tenantID userID newKey newName newDescription;
             newVersion = new_draft newVersionID (wf_ID newWF) tenantID userID (wv_BPMNXML source)
         in bind_act (lift_act (limits planCode)) (\<lambda>limit.
            bind_act (RunInTx (create_tx now tenantID limit newWF newVersion)) (\<lambda>_.
            return_act (newWF, newVersion))))"

definition enforceQuotaUnlessCounted :: "uuid \<Rightarrow> uuid \<Rightarrow> int option \<Rightarrow> unit repo" where
  "enforceQuotaUnlessCounted tenantID wid limit = (\<lambda>db.
     case VersionRepo_GetDraft tenantID wid db of
       Inr _ \<Rightarrow> Inr ((), db)
     | Inl e \<Rightarrow> if e \<noteq> ErrNotFound then Inl e else enforceWorkflowQuota tenantID limit db)"

text \<open>
  The limit is looked up before the transaction when the workflow has no active version then, and in the
  transaction when only the row read there has none: \<open>resolved\<close> is the limit if it is known.
\<close>

definition promote_tx :: "(string \<Rightarrow> error + int option) \<Rightarrow> time \<Rightarrow> uuid \<Rightarrow> uuid \<Rightarrow> uuid \<Rightarrow> string \<Rightarrow> int option option \<Rightarrow> unit repo" where
  "promote_tx limits now tenantID wid vid planCode resolved =
     bind_act (WorkflowRepo_GetByID tenantID wid) (\<lambda>current.
       if wf_ActiveVersionID current = Some vid then return_act ()
       else bind_act
         (if wf_ActiveVersionID current = None
          then bind_act (case resolved of Some limit \<Rightarrow> return_act limit | None \<Rightarrow> lift_act (limits planCode))
                 (enforceQuotaUnlessCounted tenantID wid)
          else return_act ()) (\<lambda>_.
         WorkflowRepo_UpdateActiveVersion now tenantID wid (Some vid)))"

definition VersionService_Promote :: "(string \<Rightarrow> error + int option) \<Rightarrow> time \<Rightarrow> uuid \<Rightarrow> uuid \<Rightarrow> uuid \<Rightarrow> string \<Rightarrow> WorkflowVersion repo" where
  "VersionService_Promote limits now tenantID wid vid planCode =
     bind_act (VersionRepo_GetByID tenantID vid) (\<lambda>v.
       if wv_WorkflowID v \<noteq> wid then fail_act ErrNotFound
       else if wv_Status v \<noteq> VersionStatusPublished then fail_act ErrVersionNotPublished
       else if \<not> wv_IsValid v then fail_act ErrInvalidVersionStatus
       else bind_act (WorkflowRepo_GetByID tenantID wid) (\<lambda>w.
         if wf_ActiveVersionID w = Some vid then return_act v
         else bind_act (if wf_ActiveVersionID w = None
                        then bind_act (lift_act (limits planCode)) (\<lambda>l. return_act (Some l))
                        else return_act None) (\<lambda>resolved.
              bind_act (RunInTx (promote_tx limits now tenantID wid vid planCode resolved)) (\<lambda>_.
              return_act v))))"

text \<open>\<open>versionLabel\<close> is the number in decimal, or \<open>draft\<close>; \<open>show\<close> prints a number.\<close>

definition versionLabel :: "(nat \<Rightarrow> string) \<Rightarrow> WorkflowVersion \<Rightarrow> string" where
  "versionLabel show v = (case wv_VersionNumber v of Some n \<Rightarrow> show n | None \<Rightarrow> ''draft'')"

definition VersionService_Export :: "(nat \<Rightarrow> string) \<Rightarrow> uuid \<Rightarrow> uuid \<Rightarrow> uuid \<Rightarrow> (string \<times> string) repo" where
  "VersionService_Export show tenantID wid vid =
     bind_act (VersionRepo_GetByID tenantID vid) (\<lambda>v.
       if wv_WorkflowID v \<noteq> wid then fail_act ErrNotFound
       else bind_act (WorkflowRepo_GetByID tenantID wid) (\<lambda>w.
         return_act (wv_BPMNXML v, wf_TemplateKey w @ ''-v'' @ versionLabel show v @ ''.bpmn'')))"

end
