(* ===== verification/Version_Publish.thy ===== *)
theory Version_Publish
  imports Workflow_Services
begin

text \<open>
  Publishing a version: \<open>version_publish.go\<close>, \<open>version_diff.go\<close> and \<open>Publish\<close> of \<open>version_service.go\<close>.
  A compiled plan is a type of workflow-models; what the code reads of it is the record \<open>compiled_plan\<close>,
  whose execution steps and boundary definitions are opaque.  \<open>dsl.NodeKey\<close>, the compiler, the module
  resolver and \<open>uuid.Parse\<close> are arguments.
\<close>

subsection \<open>Plans\<close>

record 'b plan_stage =
  ps_NodeID :: string
  ps_CreatesHumanTask :: bool
  ps_Role :: string
  ps_DefaultAssignees :: "string list"
  ps_BoundaryTimer :: 'b
  ps_BoundaryMessage :: 'b
  ps_ConnectorType :: string

record 'b plan_department =
  dp_ID :: string
  dp_IAMDepartmentID :: string
  dp_Stages :: "'b plan_stage list"

record ('b, 's) compiled_plan =
  cp_Departments :: "'b plan_department list"
  cp_Steps :: "'s list"

subsection \<open>version_diff.go\<close>

text \<open>Departments are ranged over as a map, so the added and removed ones come in no order: they are sets.\<close>

datatype StageChangeKind = TimerChanged | MessageChanged | ConnectorChanged

record 's step_change =
  sc_Index :: nat
  sc_Before :: "'s option"
  sc_After :: "'s option"

record 's DiffChanges =
  dc_Added :: "string set"
  dc_Removed :: "string set"
  dc_Steps :: "'s step_change list"
  dc_Stages :: "(string \<times> StageChangeKind) list"
  dc_MetadataOnly :: bool

definition deptSet :: "('b, 's) compiled_plan \<Rightarrow> string set" where
  "deptSet plan = set (map dp_ID (cp_Departments plan))"

definition nth_opt :: "'a list \<Rightarrow> nat \<Rightarrow> 'a option" where
  "nth_opt xs i = (if i < length xs then Some (xs ! i) else None)"

definition diffSteps :: "'s list \<Rightarrow> 's list \<Rightarrow> 's step_change list" where
  "diffSteps baseSteps targetSteps =
     concat (map (\<lambda>i. let b = nth_opt baseSteps i; t = nth_opt targetSteps i
       in if b \<noteq> t then [\<lparr>sc_Index = i + 1, sc_Before = b, sc_After = t\<rparr>] else [])
       [0..<max (length baseSteps) (length targetSteps)])"

text \<open>Every stage of a plan under its node key, in the order of the plan.\<close>

definition keyed_stages :: "(string \<Rightarrow> 'b plan_stage \<Rightarrow> string) \<Rightarrow> ('b, 's) compiled_plan \<Rightarrow> (string \<times> 'b plan_stage) list" where
  "keyed_stages nodeKey plan = concat (map (\<lambda>d. map (\<lambda>st. (nodeKey (dp_ID d) st, st)) (dp_Stages d)) (cp_Departments plan))"

definition stagesByNodeKey :: "(string \<Rightarrow> 'b plan_stage \<Rightarrow> string) \<Rightarrow> ('b, 's) compiled_plan \<Rightarrow> (string, 'b plan_stage) gomap" where
  "stagesByNodeKey nodeKey plan = fold (\<lambda>(k, st) m. mput k st m) (keyed_stages nodeKey plan) []"

definition stage_change :: "'b plan_stage \<Rightarrow> 'b plan_stage \<Rightarrow> StageChangeKind option" where
  "stage_change before after =
     (if ps_BoundaryTimer before \<noteq> ps_BoundaryTimer after then Some TimerChanged
      else if ps_BoundaryMessage before \<noteq> ps_BoundaryMessage after then Some MessageChanged
      else if ps_ConnectorType before \<noteq> ps_ConnectorType after then Some ConnectorChanged
      else None)"

definition diffStages :: "(string \<Rightarrow> 'b plan_stage \<Rightarrow> string) \<Rightarrow> ('b, 's) compiled_plan \<Rightarrow> ('b, 's) compiled_plan
    \<Rightarrow> (string \<times> StageChangeKind) list" where
  "diffStages nodeKey base target =
     concat (map (\<lambda>(k, after). case map_of (stagesByNodeKey nodeKey base) k of
         None \<Rightarrow> []
       | Some before \<Rightarrow> (case stage_change before after of None \<Rightarrow> [] | Some c \<Rightarrow> [(k, c)]))
       (keyed_stages nodeKey target))"

definition computeDiff :: "(string \<Rightarrow> 'b plan_stage \<Rightarrow> string) \<Rightarrow> ('b, 's) compiled_plan \<Rightarrow> ('b, 's) compiled_plan \<Rightarrow> 's DiffChanges" where
  "computeDiff nodeKey base target =
     (let added = deptSet target - deptSet base;
          removed = deptSet base - deptSet target;
          steps = diffSteps (cp_Steps base) (cp_Steps target);
          stages = diffStages nodeKey base target
      in \<lparr>dc_Added = added, dc_Removed = removed, dc_Steps = steps, dc_Stages = stages,
          dc_MetadataOnly = (added = {} \<and> removed = {} \<and> steps = [] \<and> stages = [])\<rparr>)"

lemma diffSteps_Nil_iff: "diffSteps xs ys = [] \<longleftrightarrow> xs = ys"
proof
  assume none: "diffSteps xs ys = []"
  have same: "nth_opt xs i = nth_opt ys i" for i
  proof (cases "i < max (length xs) (length ys)")
    case True
    with none show ?thesis by (auto simp: diffSteps_def Let_def simp del: if_image_distrib split: if_splits)
  qed (auto simp: nth_opt_def)
  have "i < length xs \<longleftrightarrow> i < length ys" for i
    using same [of i] by (auto simp: nth_opt_def split: if_splits)
  then have len: "length xs = length ys" by (metis linorder_neqE_nat order_less_irrefl)
  show "xs = ys"
  proof (rule nth_equalityI [OF len])
    fix i assume "i < length xs"
    with same [of i] len show "xs ! i = ys ! i" by (simp add: nth_opt_def)
  qed
qed (simp add: diffSteps_def)

lemma map_of_fold_mput: "map_of (fold (\<lambda>(k, v) m. mput k v m) xs m) = map_of m ++ map_of (rev xs)"
  by (induction xs arbitrary: m) (auto simp: update_conv' map_add_def fun_eq_iff split: option.splits)

lemma map_of_stagesByNodeKey: "map_of (stagesByNodeKey nodeKey plan) = map_of (rev (keyed_stages nodeKey plan))"
  by (simp add: stagesByNodeKey_def map_of_fold_mput del: fold_simps)

definition same_connections :: "'b plan_stage \<Rightarrow> 'b plan_stage \<Rightarrow> bool" where
  "same_connections a b \<longleftrightarrow> ps_BoundaryTimer a = ps_BoundaryTimer b \<and> ps_BoundaryMessage a = ps_BoundaryMessage b \<and>
     ps_ConnectorType a = ps_ConnectorType b"

lemma stage_change_None: "stage_change a b = None \<longleftrightarrow> same_connections a b"
  by (auto simp: stage_change_def same_connections_def)

lemma diffStages_Nil_iff:
  "diffStages nodeKey base target = [] \<longleftrightarrow>
     (\<forall>(k, after) \<in> set (keyed_stages nodeKey target).
        case map_of (rev (keyed_stages nodeKey base)) k of None \<Rightarrow> True | Some before \<Rightarrow> same_connections before after)"
  by (fastforce simp: diffStages_def map_of_stagesByNodeKey stage_change_None [symmetric] split: option.splits)

lemma computeDiff_metadata_only:
  "dc_MetadataOnly (computeDiff nodeKey base target) \<longleftrightarrow>
     deptSet base = deptSet target \<and> cp_Steps base = cp_Steps target \<and> diffStages nodeKey base target = []"
  by (auto simp: computeDiff_def Let_def diffSteps_Nil_iff)

text \<open>With distinct node keys a plan differs from itself in nothing.\<close>

lemma computeDiff_refl:
  assumes "distinct (map fst (keyed_stages nodeKey plan))"
  shows "dc_MetadataOnly (computeDiff nodeKey plan plan)"
proof -
  have "map_of (rev (keyed_stages nodeKey plan)) k = Some st" if "(k, st) \<in> set (keyed_stages nodeKey plan)" for k st
    using that assms by (simp add: map_of_eq_Some_iff rev_map [symmetric])
  then have "diffStages nodeKey plan plan = []"
    by (auto simp: diffStages_Nil_iff same_connections_def)
  then show ?thesis by (simp add: computeDiff_metadata_only)
qed

subsection \<open>Assignees\<close>

record eligibilityCheck =
  ec_assigneeID :: string
  ec_userID :: uuid
  ec_deptID :: string
  ec_role :: string

text \<open>The assignments of the human tasks of a plan: department, stage and assignee, in order.\<close>

definition human_assignments :: "('b, 's) compiled_plan \<Rightarrow> ('b plan_department \<times> 'b plan_stage \<times> string) list" where
  "human_assignments plan =
     concat (map (\<lambda>d. concat (map (\<lambda>st. map (\<lambda>a. (d, st, a)) (ps_DefaultAssignees st))
       (filter ps_CreatesHumanTask (dp_Stages d)))) (cp_Departments plan))"

text \<open>\<open>uuid_parse\<close> gives a UUID with its version.\<close>

fun eligibility_checks :: "(string \<Rightarrow> (uuid \<times> nat) option) \<Rightarrow> (string \<Rightarrow> bool) \<Rightarrow> ('b plan_department \<times> 'b plan_stage \<times> string) list
    \<Rightarrow> eligibilityCheck list \<Rightarrow> error + eligibilityCheck list" where
  "eligibility_checks uuid_parse validRole [] checks = Inr checks"
| "eligibility_checks uuid_parse validRole ((d, st, a) # rest) checks =
     (case uuid_parse a of
        None \<Rightarrow> Inl ErrAssigneeIneligible
      | Some (userID, version) \<Rightarrow>
          if version \<noteq> 7 then Inl ErrAssigneeIneligible
          else if \<not> validRole (ps_Role st) then Inl ErrAssigneeIneligible
          else
            let check = \<lparr>ec_assigneeID = a, ec_userID = userID, ec_deptID = dp_IAMDepartmentID d, ec_role = ps_Role st\<rparr>
            in eligibility_checks uuid_parse validRole rest (if check \<in> set checks then checks else checks @ [check]))"

definition distinctEligibilityChecks :: "(string \<Rightarrow> (uuid \<times> nat) option) \<Rightarrow> (string \<Rightarrow> bool) \<Rightarrow> ('b, 's) compiled_plan
    \<Rightarrow> error + eligibilityCheck list" where
  "distinctEligibilityChecks uuid_parse validRole plan = eligibility_checks uuid_parse validRole (human_assignments plan) []"

text \<open>
  The checks run concurrently, each writing its own slot; the error returned is that of the first check in
  order that failed.  \<open>membership\<close> asks the membership service: an error, or whether the user is eligible.
\<close>

definition checkEligibility :: "(uuid \<Rightarrow> uuid \<Rightarrow> string \<Rightarrow> string \<Rightarrow> error + bool) \<Rightarrow> uuid \<Rightarrow> eligibilityCheck \<Rightarrow> error option" where
  "checkEligibility membership tenantID check =
     (case membership tenantID (ec_userID check) (ec_deptID check) (ec_role check) of
        Inl e \<Rightarrow> Some e
      | Inr eligible \<Rightarrow> if \<not> eligible then Some ErrAssigneeIneligible else None)"

definition checkAssigneeEligibility :: "(string \<Rightarrow> (uuid \<times> nat) option) \<Rightarrow> (string \<Rightarrow> bool)
    \<Rightarrow> (uuid \<Rightarrow> uuid \<Rightarrow> string \<Rightarrow> string \<Rightarrow> error + bool) \<Rightarrow> uuid \<Rightarrow> ('b, 's) compiled_plan \<Rightarrow> error + unit" where
  "checkAssigneeEligibility uuid_parse validRole membership tenantID plan =
     bindE (distinctEligibilityChecks uuid_parse validRole plan) (\<lambda>checks.
       case List.map_filter (checkEligibility membership tenantID) checks of
         e # _ \<Rightarrow> Inl e | [] \<Rightarrow> Inr ())"

definition assignable :: "(string \<Rightarrow> (uuid \<times> nat) option) \<Rightarrow> (string \<Rightarrow> bool) \<Rightarrow> 'b plan_department \<times> 'b plan_stage \<times> string \<Rightarrow> bool" where
  "assignable uuid_parse validRole p =
     (case p of (d, st, a) \<Rightarrow> (case uuid_parse a of Some (_, version) \<Rightarrow> version = 7 \<and> validRole (ps_Role st) | None \<Rightarrow> False))"

definition check_of :: "(string \<Rightarrow> (uuid \<times> nat) option) \<Rightarrow> 'b plan_department \<times> 'b plan_stage \<times> string \<Rightarrow> eligibilityCheck" where
  "check_of uuid_parse p = (case p of (d, st, a) \<Rightarrow> \<lparr>ec_assigneeID = a, ec_userID = fst (the (uuid_parse a)),
     ec_deptID = dp_IAMDepartmentID d, ec_role = ps_Role st\<rparr>)"

lemma eligibility_checks_Inr:
  "eligibility_checks uuid_parse validRole xs cs = Inr cs' \<Longrightarrow>
     (\<forall>p \<in> set xs. assignable uuid_parse validRole p) \<and> set cs' = set cs \<union> check_of uuid_parse ` set xs"
proof (induction xs arbitrary: cs)
  case (Cons p rest)
  obtain d st a where p: "p = (d, st, a)" by (cases p)
  with Cons.prems obtain u where u: "uuid_parse a = Some (u, 7)" "validRole (ps_Role st)"
    by (auto split: option.splits if_splits)
  let ?c = "check_of uuid_parse p"
  have "eligibility_checks uuid_parse validRole rest (if ?c \<in> set cs then cs else cs @ [?c]) = Inr cs'"
    using Cons.prems u p by (simp add: check_of_def Let_def split: if_splits)
  from Cons.IH [OF this] have "(\<forall>p \<in> set rest. assignable uuid_parse validRole p) \<and>
      set cs' = set (if ?c \<in> set cs then cs else cs @ [?c]) \<union> check_of uuid_parse ` set rest" .
  moreover have "assignable uuid_parse validRole p" using u p by (simp add: assignable_def)
  ultimately show ?case by auto
qed simp

lemma eligibility_checks_ok:
  "\<forall>p \<in> set xs. assignable uuid_parse validRole p \<Longrightarrow> \<exists>cs'. eligibility_checks uuid_parse validRole xs cs = Inr cs'"
proof (induction xs arbitrary: cs)
  case (Cons p xs)
  then show ?case by (cases p) (auto simp: assignable_def Let_def split: option.splits)
qed simp

text \<open>Every assignment is checked: duplicates are asked about once, and one that is not eligible stops the publish.\<close>

lemma checkAssigneeEligibility_iff:
  "checkAssigneeEligibility uuid_parse validRole membership tenantID plan = Inr () \<longleftrightarrow>
     (\<forall>(d, st, a) \<in> set (human_assignments plan). \<exists>u. uuid_parse a = Some (u, 7) \<and> validRole (ps_Role st) \<and>
        membership tenantID u (dp_IAMDepartmentID d) (ps_Role st) = Inr True)"
  (is "_ \<longleftrightarrow> ?all")
proof -
  let ?elig = "\<lambda>c. membership tenantID (ec_userID c) (ec_deptID c) (ec_role c) = Inr True"
  have none: "checkEligibility membership tenantID c = None \<longleftrightarrow> ?elig c" for c
    by (auto simp: checkEligibility_def split: sum.splits)
  have Nil: "List.map_filter (checkEligibility membership tenantID) cs = [] \<longleftrightarrow> (\<forall>c \<in> set cs. ?elig c)" for cs
    by (induction cs) (auto simp: map_filter_simps none [symmetric] split: option.splits)
  have "checkAssigneeEligibility uuid_parse validRole membership tenantID plan = Inr () \<longleftrightarrow>
      (\<exists>cs. distinctEligibilityChecks uuid_parse validRole plan = Inr cs \<and> (\<forall>c \<in> set cs. ?elig c))"
  proof -
    have "(case List.map_filter (checkEligibility membership tenantID) cs of e # _ \<Rightarrow> Inl e | [] \<Rightarrow> Inr ()) = Inr () \<longleftrightarrow>
        (\<forall>c \<in> set cs. ?elig c)" for cs
      unfolding Nil [symmetric] by (simp split: list.split)
    then show ?thesis by (simp add: checkAssigneeEligibility_def bindE_eq_Inr)
  qed
  also have "\<dots> \<longleftrightarrow> (\<forall>p \<in> set (human_assignments plan). assignable uuid_parse validRole p) \<and>
      (\<forall>p \<in> set (human_assignments plan). ?elig (check_of uuid_parse p))"
    using eligibility_checks_Inr [of uuid_parse validRole "human_assignments plan" "[]"]
      eligibility_checks_ok [of "human_assignments plan" uuid_parse validRole "[]"]
    by (fastforce simp: distinctEligibilityChecks_def)
  also have "\<dots> \<longleftrightarrow> ?all"
    by (fastforce simp: assignable_def check_of_def split: option.splits prod.splits)
  finally show ?thesis .
qed

text \<open>\<open>newID n\<close> is the \<open>n\<close>-th identifier generated.\<close>

definition extractAssignees :: "(string \<Rightarrow> (uuid \<times> nat) option) \<Rightarrow> (string \<Rightarrow> 'b plan_stage \<Rightarrow> string) \<Rightarrow> (nat \<Rightarrow> uuid) \<Rightarrow> uuid \<Rightarrow> uuid
    \<Rightarrow> ('b, 's) compiled_plan \<Rightarrow> NodeAssignee list" where
  "extractAssignees uuid_parse nodeKey newID tenantID versionID plan =
     fold (\<lambda>(d, st, a) as.
       case (uuid_parse (dp_IAMDepartmentID d), uuid_parse a) of
         (Some (dept, _), Some (user, _)) \<Rightarrow>
           as @ [\<lparr>na_ID = newID (length as), na_TenantID = tenantID, na_WorkflowVersionID = versionID,
             na_NodeKey = nodeKey (dp_ID d) st, na_UserID = user, na_DepartmentID = dept, na_Role = ps_Role st, na_CreatedAt = 0\<rparr>]
       | _ \<Rightarrow> as) (human_assignments plan) []"

subsection \<open>Publish\<close>

record resolution =
  rs_bundled :: string
  rs_refs :: "ModuleRef list"
  rs_issues :: "BPMNValidationError list"

record publishPrep =
  pp_compiledJSON :: string
  pp_artifactHash :: string
  pp_assignees :: "NodeAssignee list"
  pp_moduleRefs :: "ModuleRef list"

record publishTxInput =
  pi_tenantID :: uuid
  pi_workflowID :: uuid
  pi_versionID :: uuid
  pi_recordVersion :: nat
  pi_compiledJSON :: string
  pi_artifactHash :: string
  pi_assignees :: "NodeAssignee list"
  pi_moduleRefs :: "ModuleRef list"

text \<open>
  What publishing calls outside the tables: the module resolver, the compiler and its hash, the stored or
  recompiled plan of a version, the membership service (which may be nil) and \<open>uuid\<close>.
\<close>

record ('b, 's, 'c) publish_env =
  pe_resolve :: "uuid \<Rightarrow> string \<Rightarrow> error + resolution"
  pe_compile :: "string \<Rightarrow> error + 'c"
  pe_mainPlan :: "'c \<Rightarrow> error + ('b, 's) compiled_plan"
  pe_hash :: "string \<Rightarrow> error + string"
  pe_marshal :: "'c \<Rightarrow> error + string"
  pe_resolvePlan :: "WorkflowVersion \<Rightarrow> error + ('b, 's) compiled_plan"
  pe_nodeKey :: "string \<Rightarrow> 'b plan_stage \<Rightarrow> string"
  pe_membership :: "(uuid \<Rightarrow> uuid \<Rightarrow> string \<Rightarrow> string \<Rightarrow> error + bool) option"
  pe_uuidParse :: "string \<Rightarrow> (uuid \<times> nat) option"
  pe_validRole :: "string \<Rightarrow> bool"
  pe_newID :: "nat \<Rightarrow> uuid"

definition compileForPublish :: "('b, 's, 'c) publish_env \<Rightarrow> string \<Rightarrow> error + 'c \<times> ('b, 's) compiled_plan" where
  "compileForPublish env bundledXML =
     bindE (pe_compile env bundledXML) (\<lambda>collab.
     bindE (pe_mainPlan env collab) (\<lambda>plan. Inr (collab, plan)))"

definition compile_invalid :: "error \<Rightarrow> bool" where
  "compile_invalid e \<longleftrightarrow> e = ErrMalformedBPMN \<or> (case e of ValidationFailedError _ \<Rightarrow> True | _ \<Rightarrow> False)"

definition checkStructuralDivergence :: "('b, 's, 'c) publish_env \<Rightarrow> uuid \<Rightarrow> Workflow \<Rightarrow> ('b, 's) compiled_plan \<Rightarrow> bool \<Rightarrow> unit repo" where
  "checkStructuralDivergence env tenantID w draftPlan force =
     (case wf_ActiveVersionID w of
        None \<Rightarrow> return_act ()
      | Some activeID \<Rightarrow>
          bind_act (VersionRepo_GetByID tenantID activeID) (\<lambda>active.
            case pe_resolvePlan env active of
              Inl e \<Rightarrow>
                if compile_invalid e then (if force then return_act () else fail_act ErrStructuralDivergence) else fail_act e
            | Inr activePlan \<Rightarrow>
                if \<not> dc_MetadataOnly (computeDiff (pe_nodeKey env) activePlan draftPlan) \<and> \<not> force
                then fail_act ErrStructuralDivergence else return_act ()))"

definition publishPreFlight :: "('b, 's, 'c) publish_env \<Rightarrow> uuid \<Rightarrow> uuid \<Rightarrow> uuid \<Rightarrow> bool \<Rightarrow> (WorkflowVersion \<times> publishPrep) repo" where
  "publishPreFlight env tenantID wid vid force =
     bind_act (VersionRepo_GetByID tenantID vid) (\<lambda>draft.
       if wv_Status draft \<noteq> VersionStatusDraft then fail_act ErrVersionNotDraft
       else if wv_WorkflowID draft \<noteq> wid then fail_act ErrNotFound
       else bind_act (lift_act (pe_resolve env tenantID (wv_BPMNXML draft))) (\<lambda>res.
         if rs_issues res \<noteq> [] then fail_act (ValidationFailedError (rs_issues res))
         else bind_act (lift_act (compileForPublish env (rs_bundled res))) (\<lambda>(collab, plan).
           bind_act (lift_act (pe_hash env (rs_bundled res))) (\<lambda>artifactHash.
           bind_act (WorkflowRepo_GetByID tenantID wid) (\<lambda>w.
           bind_act (checkStructuralDivergence env tenantID w plan force) (\<lambda>_.
           bind_act (case pe_membership env of
               None \<Rightarrow> return_act ()
             | Some membership \<Rightarrow>
                 lift_act (checkAssigneeEligibility (pe_uuidParse env) (pe_validRole env) membership tenantID plan)) (\<lambda>_.
           bind_act (lift_act (pe_marshal env collab)) (\<lambda>compiledJSON.
           return_act (draft, \<lparr>pp_compiledJSON = compiledJSON, pp_artifactHash = artifactHash,
             pp_assignees = extractAssignees (pe_uuidParse env) (pe_nodeKey env) (pe_newID env) tenantID vid plan,
             pp_moduleRefs = rs_refs res\<rparr>)))))))))"

definition runPublishTx :: "time \<Rightarrow> publishTxInput \<Rightarrow> nat \<Rightarrow> unit repo" where
  "runPublishTx now inp versionNumber =
     bind_act (VersionRepo_Publish now (pi_tenantID inp) (pi_versionID inp) (pi_recordVersion inp) versionNumber
       (pi_compiledJSON inp) (pi_artifactHash inp) (pi_moduleRefs inp)) (\<lambda>_.
     bind_act (AssigneeRepo_DeleteByVersion (pi_tenantID inp) (pi_versionID inp)) (\<lambda>_.
     bind_act (if pi_assignees inp \<noteq> []
               then AssigneeRepo_BulkInsert now (pi_tenantID inp) (pi_versionID inp) (pi_assignees inp)
               else return_act ()) (\<lambda>_.
     WorkflowRepo_UpdateActiveVersion now (pi_tenantID inp) (pi_workflowID inp) (Some (pi_versionID inp)))))"

definition publish_tx :: "time \<Rightarrow> publishTxInput \<Rightarrow> nat repo" where
  "publish_tx now inp =
     bind_act (VersionRepo_NextVersionNumber (pi_tenantID inp) (pi_workflowID inp)) (\<lambda>n.
     bind_act (runPublishTx now inp n) (\<lambda>_. return_act n))"

definition publish_input :: "uuid \<Rightarrow> uuid \<Rightarrow> uuid \<Rightarrow> WorkflowVersion \<Rightarrow> publishPrep \<Rightarrow> publishTxInput" where
  "publish_input tenantID wid vid draft prep = \<lparr>pi_tenantID = tenantID, pi_workflowID = wid, pi_versionID = vid,
     pi_recordVersion = wv_RecordVersion draft, pi_compiledJSON = pp_compiledJSON prep,
     pi_artifactHash = pp_artifactHash prep, pi_assignees = pp_assignees prep, pi_moduleRefs = pp_moduleRefs prep\<rparr>"

definition VersionService_Publish :: "('b, 's, 'c) publish_env \<Rightarrow> time \<Rightarrow> uuid \<Rightarrow> uuid \<Rightarrow> uuid \<Rightarrow> bool \<Rightarrow> WorkflowVersion repo" where
  "VersionService_Publish env now tenantID wid vid force =
     bind_act (publishPreFlight env tenantID wid vid force) (\<lambda>(draft, prep).
     bind_act (RunInTx (publish_tx now (publish_input tenantID wid vid draft prep))) (\<lambda>versionNumber.
     return_act (draft\<lparr>wv_Status := VersionStatusPublished, wv_VersionNumber := Some versionNumber,
       wv_CompiledPlanJSON := Some (pp_compiledJSON prep), wv_ArtifactHash := pp_artifactHash prep,
       wv_ModuleRefs := pp_moduleRefs prep\<rparr>)))"

end
