(* ===== verification/Draft_Services.thy ===== *)
theory Draft_Services
  imports Version_Publish
begin

text \<open>
  Drafts and revocations: \<open>draft_service.go\<close> and \<open>membership_event.go\<close>.  The draft lock is held in the
  cache; whether it is acquired is an argument, since the record version, not the lock, is what keeps two
  writers apart.
\<close>

subsection \<open>DraftService\<close>

record UpdateDraftReq =
  ur_Name :: "string option"
  ur_Description :: "string option"
  ur_BPMNXML :: "string option"
  ur_RecordVersion :: int

definition DraftService_Get :: "uuid \<Rightarrow> uuid \<Rightarrow> WorkflowVersion repo" where
  "DraftService_Get tenantID wid = VersionRepo_GetDraft tenantID wid"

definition DraftService_Init :: "time \<Rightarrow> uuid \<Rightarrow> uuid \<Rightarrow> uuid \<Rightarrow> uuid \<Rightarrow> WorkflowVersion repo" where
  "DraftService_Init now draftID tenantID userID wid =
     bind_act (WorkflowRepo_GetByID tenantID wid) (\<lambda>w.
       case wf_ActiveVersionID w of
         None \<Rightarrow> fail_act ErrNoActiveVersion
       | Some activeID \<Rightarrow>
           bind_act (VersionRepo_GetByID tenantID activeID) (\<lambda>active.
             let draft = new_draft draftID wid tenantID userID (wv_BPMNXML active)
             in bind_act (RunInTx (VersionRepo_Create now draft)) (\<lambda>_. return_act draft)))"

text \<open>\<open>None\<close>: there is no cache.  Otherwise \<open>SetNX\<close> fails, or says whether the lock was free.\<close>

definition acquireDraftLock :: "(error + bool) option \<Rightarrow> error + unit" where
  "acquireDraftLock setNX =
     (case setNX of
        None \<Rightarrow> Inr ()
      | Some (Inl _) \<Rightarrow> Inl ErrUpstreamUnavailable
      | Some (Inr acquired) \<Rightarrow> if \<not> acquired then Inl ErrDraftConcurrency else Inr ())"

definition failFastOnStaleRecordVersion :: "WorkflowVersion \<Rightarrow> int \<Rightarrow> error + WorkflowVersion" where
  "failFastOnStaleRecordVersion draft recordVersion =
     (if recordVersion \<le> 0 then Inl ErrRecordVersionRequired
      else if int (wv_RecordVersion draft) \<noteq> recordVersion then Inl (DraftConcurrencyError (wv_RecordVersion draft))
      else Inr (draft\<lparr>wv_RecordVersion := nat recordVersion\<rparr>))"

definition clearCompiledArtifacts :: "WorkflowVersion \<Rightarrow> WorkflowVersion" where
  "clearCompiledArtifacts draft = draft\<lparr>wv_CompiledPlanJSON := None, wv_ArtifactHash := []\<rparr>"

definition updateWorkflowMeta :: "time \<Rightarrow> uuid \<Rightarrow> uuid \<Rightarrow> UpdateDraftReq \<Rightarrow> unit repo" where
  "updateWorkflowMeta now tenantID wid req =
     bind_act (WorkflowRepo_GetByID tenantID wid) (\<lambda>w.
       let name = (case ur_Name req of Some n \<Rightarrow> n | None \<Rightarrow> wf_Name w);
           description = (case ur_Description req of Some d \<Rightarrow> d | None \<Rightarrow> wf_Description w)
       in WorkflowRepo_UpdateMetadata now tenantID wid name description)"

definition runUpdateTx :: "time \<Rightarrow> uuid \<Rightarrow> uuid \<Rightarrow> WorkflowVersion \<Rightarrow> UpdateDraftReq \<Rightarrow> WorkflowVersion repo" where
  "runUpdateTx now tenantID wid draft req =
     (let updatesWorkflowMetadata = (ur_Name req \<noteq> None \<or> ur_Description req \<noteq> None)
      in bind_act (if updatesWorkflowMetadata then updateWorkflowMeta now tenantID wid req else return_act ()) (\<lambda>_.
         VersionRepo_UpdateDraft now draft))"

definition edit_draft :: "UpdateDraftReq \<Rightarrow> WorkflowVersion \<Rightarrow> WorkflowVersion" where
  "edit_draft req draft =
     (case ur_BPMNXML req of
        None \<Rightarrow> draft
      | Some xml \<Rightarrow> (clearCompiledArtifacts (draft\<lparr>wv_BPMNXML := xml\<rparr>))\<lparr>wv_IsValid := True\<rparr>)"

text \<open>A concurrent write that slips in after the read makes the error carry the version stored now.\<close>

definition DraftService_Update :: "(error + bool) option \<Rightarrow> time \<Rightarrow> uuid \<Rightarrow> uuid \<Rightarrow> UpdateDraftReq \<Rightarrow> WorkflowVersion repo" where
  "DraftService_Update setNX now tenantID wid req =
     bind_act (lift_act (acquireDraftLock setNX)) (\<lambda>_.
     bind_act (VersionRepo_GetDraft tenantID wid) (\<lambda>draft.
     bind_act (lift_act (failFastOnStaleRecordVersion draft (ur_RecordVersion req))) (\<lambda>draft. \<lambda>db.
       case RunInTx (runUpdateTx now tenantID wid (edit_draft req draft) req) db of
         Inr r \<Rightarrow> Inr r
       | Inl e \<Rightarrow>
           if is_draft_concurrency e then
             (case VersionRepo_GetDraft tenantID wid db of
                Inr (current, _) \<Rightarrow> Inl (DraftConcurrencyError (wv_RecordVersion current))
              | Inl _ \<Rightarrow> Inl e)
           else Inl e)))"

definition DraftService_Discard :: "time \<Rightarrow> uuid \<Rightarrow> uuid \<Rightarrow> unit repo" where
  "DraftService_Discard now tenantID wid =
     bind_act (VersionRepo_GetDraft tenantID wid) (\<lambda>draft.
     RunInTx (VersionRepo_DeleteDraft now tenantID (wv_ID draft)))"

subsection \<open>Revocations\<close>

definition invalidationMsg :: string where
  "invalidationMsg = ''Default assignee is no longer eligible: Department membership revoked''"

definition marshalInvalidationErrors :: "string list \<Rightarrow> invalidationError list" where
  "marshalInvalidationErrors nodeKeys = map (\<lambda>key. \<lparr>ie_NodeID = key, ie_Error = invalidationMsg\<rparr>) nodeKeys"

text \<open>
  The handlers write version after version without a transaction, so what was written before an error
  stays: the result is the outcome together with the tables.  \<open>evict vid\<close> is whether the eviction of the
  version's plan from the cache succeeds; the outcome lists the versions whose eviction failed.
\<close>

definition invalidateVersion :: "time \<Rightarrow> uuid \<Rightarrow> uuid \<Rightarrow> string list \<Rightarrow> bool repo" where
  "invalidateVersion now tenantID vid nodeKeys = (\<lambda>db.
     case VersionRepo_GetByID tenantID vid db of
       Inl e \<Rightarrow> if e = ErrNotFound then Inr (False, db) else Inl e
     | Inr (v, _) \<Rightarrow>
         if wv_Status v = VersionStatusArchived then Inr (False, db)
         else bind_act (RunInTx (VersionRepo_SetInvalid now tenantID vid (marshalInvalidationErrors nodeKeys)))
           (\<lambda>_. return_act True) db)"

fun invalidate_loop :: "(uuid \<Rightarrow> bool) \<Rightarrow> time \<Rightarrow> uuid \<Rightarrow> (uuid \<times> string list) list \<Rightarrow> uuid list \<Rightarrow> db \<Rightarrow> (error + uuid list) \<times> db" where
  "invalidate_loop evict now tenantID [] failed db = (Inr failed, db)"
| "invalidate_loop evict now tenantID ((vid, nodeKeys) # rest) failed db =
     (case invalidateVersion now tenantID vid nodeKeys db of
        Inl e \<Rightarrow> (Inl e, db)
      | Inr (evicts, db') \<Rightarrow>
          invalidate_loop evict now tenantID rest (if evicts \<and> \<not> evict vid then failed @ [vid] else failed) db')"

definition revoked_nodes :: "NodeAssignee list \<Rightarrow> uuid option \<Rightarrow> time \<Rightarrow> (uuid, string list) gomap" where
  "revoked_nodes assignees departmentID occurredAt =
     fold (\<lambda>a m.
       if departmentID \<noteq> None \<and> Some (na_DepartmentID a) \<noteq> departmentID then m
       else if occurredAt \<noteq> 0 \<and> occurredAt < na_CreatedAt a then m
       else mappend (na_WorkflowVersionID a) (na_NodeKey a) m) assignees []"

text \<open>
  \<open>order\<close> is the order in which Go ranges over the map.  \<open>pause\<close> is nil or the call that pauses the user's
  tasks.  A failed eviction is an error at the end, so that the event is delivered again.
\<close>

definition invalidateAssigneeVersions ::
  "((uuid, string list) gomap \<Rightarrow> (uuid, string list) gomap) \<Rightarrow> (uuid \<Rightarrow> bool) \<Rightarrow> (error + unit) option \<Rightarrow> time \<Rightarrow> uuid
   \<Rightarrow> time \<Rightarrow> NodeAssignee list \<Rightarrow> uuid option \<Rightarrow> db \<Rightarrow> (error + uuid list) \<times> db" where
  "invalidateAssigneeVersions order evict pause now tenantID occurredAt assignees departmentID db =
     (case invalidate_loop evict now tenantID (order (revoked_nodes assignees departmentID occurredAt)) [] db of
        (Inl e, db') \<Rightarrow> (Inl e, db')
      | (Inr failed, db') \<Rightarrow>
          (case pause of
             Some (Inl e) \<Rightarrow> (Inl e, db')
           | _ \<Rightarrow> (Inr failed, db')))"

text \<open>
  The handler's run over the versions is modelled alone; each version is a transaction of its own, and the code lets other
  requests commit between two of them.
\<close>

definition HandleTenantMembershipRevoked ::
  "((uuid, string list) gomap \<Rightarrow> (uuid, string list) gomap) \<Rightarrow> (uuid \<Rightarrow> bool) \<Rightarrow> (error + unit) option \<Rightarrow> time \<Rightarrow> uuid
   \<Rightarrow> uuid \<Rightarrow> time \<Rightarrow> db \<Rightarrow> (error + uuid list) \<times> db" where
  "HandleTenantMembershipRevoked order evict pause now tenantID userID occurredAt db =
     invalidateAssigneeVersions order evict pause now tenantID occurredAt (ListAssigneesByUser tenantID userID db) None db"

definition HandleDepartmentMembershipRevoked ::
  "(string \<Rightarrow> uuid option) \<Rightarrow> ((uuid, string list) gomap \<Rightarrow> (uuid, string list) gomap) \<Rightarrow> (uuid \<Rightarrow> bool) \<Rightarrow> (error + unit) option
   \<Rightarrow> time \<Rightarrow> uuid \<Rightarrow> uuid \<Rightarrow> string \<Rightarrow> time \<Rightarrow> db \<Rightarrow> (error + uuid list) \<times> db" where
  "HandleDepartmentMembershipRevoked parse order evict pause now tenantID userID departmentID occurredAt db =
     (case parse departmentID of
        None \<Rightarrow> (Inl ErrInvalidDepartmentID, db)
      | Some dept \<Rightarrow>
          invalidateAssigneeVersions order evict pause now tenantID occurredAt (ListAssigneesByUser tenantID userID db) (Some dept) db)"

end
