(* ===== verification/Workflow_Steps.thy ===== *)
theory Workflow_Steps
  imports Draft_Services
begin

text \<open>
  The runs of the workflow store.  Requests run concurrently, but each changes the tables in one committed
  transaction; what a request read before its transaction is an argument of that transaction.  A step is
  one committed transaction with any arguments, so the runs of the step relation are all the interleavings
  of all the requests, the ones whose reads are stale included.

  The state is the tables with the version identifiers that the generator has given out, \<open>uuid.NewV7\<close> not giving the
  same identifier twice, and those of the versions that a purge of their tenant has deleted.
\<close>

record wstate =
  ws_db :: db
  ws_used :: "uuid set"
  ws_purged :: "uuid set"

definition ws_start :: wstate where
  "ws_start = \<lparr>ws_db = empty_db, ws_used = {}, ws_purged = {}\<rparr>"

text \<open>The transactions that give out no version identifier.\<close>

inductive wf_tx :: "db \<Rightarrow> db \<Rightarrow> bool" where
  update: "RunInTx (runUpdateTx now tenantID wid draft req) db = Inr (v, db') \<Longrightarrow> wf_tx db db'"
| discard: "RunInTx (VersionRepo_DeleteDraft now tenantID vid) db = Inr ((), db') \<Longrightarrow> wf_tx db db'"
| publish: "RunInTx (publish_tx now inp) db = Inr (n, db') \<Longrightarrow> wf_tx db db'"
| promote: "RunInTx (promote_tx limits now tenantID wid vid planCode resolved) db = Inr ((), db') \<Longrightarrow> wf_tx db db'"
| archive: "RunInTx (archive_tx now tenantID wid) db = Inr (vid, db') \<Longrightarrow> wf_tx db db'"
| invalidate: "RunInTx (VersionRepo_SetInvalid now tenantID vid errs) db = Inr ((), db') \<Longrightarrow> wf_tx db db'"

text \<open>The transactions that store a new draft: those of \<open>Create\<close> and \<open>Clone\<close>, and that of \<open>Init\<close>.\<close>

inductive wf_new :: "uuid \<Rightarrow> db \<Rightarrow> db \<Rightarrow> bool" where
  create: "RunInTx (create_tx now tenantID limit (new_workflow wid tenantID userID key name description)
      (new_draft vid wid tenantID userID xml)) db = Inr ((), db') \<Longrightarrow> wf_new vid db db'"
| init: "RunInTx (VersionRepo_Create now (new_draft vid wid tenantID userID xml)) db = Inr ((), db') \<Longrightarrow> wf_new vid db db'"

text \<open>
  A batch of the purge of a departed tenant, which the sweep of \<open>tenant_purger.go\<close> commits; here it may come at any time and
  for any tenant.
\<close>

inductive wf_purge :: "wstate \<Rightarrow> wstate \<Rightarrow> bool" where
  purge: "RunInTx (\<lambda>db. Inr (PurgeTenantWorkflows now order tenantID limit db)) (ws_db s) = Inr (n, db') \<Longrightarrow>
    wf_purge s (s\<lparr>ws_db := db', ws_purged := ws_purged s \<union> vr_ID ` (set (db_versions (ws_db s)) - set (db_versions db'))\<rparr>)"

inductive wf_step :: "wstate \<Rightarrow> wstate \<Rightarrow> bool" where
  tx: "wf_tx (ws_db s) db' \<Longrightarrow> wf_step s (s\<lparr>ws_db := db'\<rparr>)"
| new: "wf_new vid (ws_db s) db' \<Longrightarrow> vid \<notin> ws_used s \<Longrightarrow>
    wf_step s (s\<lparr>ws_db := db', ws_used := insert vid (ws_used s)\<rparr>)"
| purged: "wf_purge s s' \<Longrightarrow> wf_step s s'"

inductive_cases wf_step_cases: "wf_step s s'"

subsection \<open>The effect of each statement\<close>

lemma update_workflows_versions [simp]:
  "db_versions (snd (update_workflows now P f db)) = db_versions db"
  "db_assignees (snd (update_workflows now P f db)) = db_assignees db"
  "fst (update_workflows now P f db) = length (filter P (db_workflows db))"
  "db_workflows (snd (update_workflows now P f db)) =
     map (\<lambda>w. if P w then touch_workflow now w (f w) else w) (db_workflows db)"
  by (simp_all add: update_workflows_def)

lemma update_versions_simps [simp]:
  "db_workflows (snd (update_versions now P f db)) = db_workflows db"
  "db_assignees (snd (update_versions now P f db)) = db_assignees db"
  "fst (update_versions now P f db) = length (filter P (db_versions db))"
  "db_versions (snd (update_versions now P f db)) =
     map (\<lambda>v. if P v then touch_version now v (f v) else v) (db_versions db)"
  by (simp_all add: update_versions_def)

lemma of_count_Inr:
  "of_count q explain db = Inr (u, db') \<longleftrightarrow> fst (q db) \<noteq> 0 \<and> db' = snd (q db)"
  by (auto simp: of_count_def Let_def split: prod.splits if_splits)

lemma of_sql_Inr: "of_sql q db = Inr (u, db') \<longleftrightarrow> q db = Inr db'"
  by (auto simp: of_sql_def split: sum.splits)

lemma length_filter_pos: "length (filter P xs) \<noteq> 0 \<longleftrightarrow> (\<exists>x \<in> set xs. P x)"
  by (auto simp: filter_empty_conv)

lemma GetByID_Inr:
  "WorkflowRepo_GetByID tenantID wid db = Inr (w, db') \<longleftrightarrow> db' = db \<and>
     (\<exists>row. find (\<lambda>w. wr_TenantID w = tenantID \<and> wr_ID w = wid) (db_workflows db) = Some row \<and>
       w = (workflowFromDB row)\<lparr>wf_ActiveVersionNumber :=
         Option.bind (find (\<lambda>v. Some (vr_ID v) = wr_ActiveVersionID row) (db_versions db)) vr_VersionNumber\<rparr>)"
  by (auto simp: WorkflowRepo_GetByID_def GetWorkflowByIDWithVersionNumber_def split: sum.splits option.splits)

lemma UpdateActiveVersion_Inr:
  "WorkflowRepo_UpdateActiveVersion now tenantID wid versionID db = Inr (u, db') \<longleftrightarrow>
     (\<exists>w \<in> set (db_workflows db). wr_TenantID w = tenantID \<and> wr_ID w = wid \<and> may_activate db w versionID) \<and>
     db' = db\<lparr>db_workflows := map (\<lambda>w. if wr_TenantID w = tenantID \<and> wr_ID w = wid \<and> may_activate db w versionID
       then touch_workflow now w (w\<lparr>wr_ActiveVersionID := versionID, wr_UpdatedAt := now\<rparr>) else w) (db_workflows db)\<rparr>"
  unfolding WorkflowRepo_UpdateActiveVersion_def of_count_Inr UpdateActiveVersion_def update_workflows_versions length_filter_pos
  by (auto simp: update_workflows_def)

lemma insert_batch_Inr:
  assumes "insert_batch now tenantID vid as db = Inr (u, db')"
  shows "db_versions db' = db_versions db \<and> db_workflows db' = db_workflows db"
  using assms
proof (induction as arbitrary: db)
  case (Cons a as)
  then obtain db1 where "InsertAssignee now (a\<lparr>na_TenantID := tenantID, na_WorkflowVersionID := vid\<rparr>) db = Inr db1"
    "insert_batch now tenantID vid as db1 = Inr (u, db')" by (auto simp: res_simps of_sql_Inr)
  with Cons.IH show ?case by (auto simp: InsertAssignee_def split: if_splits)
qed (simp add: res_simps)

lemma BulkInsert_Inr:
  "AssigneeRepo_BulkInsert now tenantID vid as db = Inr (u, db') \<Longrightarrow>
     db_versions db' = db_versions db \<and> db_workflows db' = db_workflows db"
  by (auto simp: AssigneeRepo_BulkInsert_def res_simps split: if_splits dest: insert_batch_Inr)

text \<open>Reads and quota checks change nothing.\<close>

lemma enforceWorkflowQuota_Inr: "enforceWorkflowQuota tenantID limit db = Inr (u, db') \<Longrightarrow> db' = db"
  by (auto simp: enforceWorkflowQuota_def WorkflowRepo_CountByTenant_def res_simps split: option.splits if_splits)

lemma enforceQuotaUnlessCounted_Inr: "enforceQuotaUnlessCounted tenantID wid limit db = Inr (u, db') \<Longrightarrow> db' = db"
  by (auto simp: enforceQuotaUnlessCounted_def split: sum.splits if_splits dest: enforceWorkflowQuota_Inr)

subsection \<open>How a version row evolves\<close>

text \<open>
  One row before and after: its identity columns stay, its status only goes forward, a change of the row
  raises its record version, and a version that is no longer a draft keeps everything that was published.
\<close>

definition published_content :: "version_row \<Rightarrow> string \<times> string option \<times> string option \<times> nat option \<times> time option \<times> ModuleRef list" where
  "published_content v = (vr_BpmnXml v, vr_CompiledPlanJson v, vr_ArtifactHash v, vr_VersionNumber v, vr_PublishedAt v, vr_ModuleRefs v)"

definition evolves :: "version_row \<Rightarrow> version_row \<Rightarrow> bool" where
  "evolves v v' \<longleftrightarrow>
     vr_ID v' = vr_ID v \<and> vr_WorkflowID v' = vr_WorkflowID v \<and> vr_TenantID v' = vr_TenantID v \<and>
     vr_Status v \<le> vr_Status v' \<and> (v' = v \<or> vr_RecordVersion v < vr_RecordVersion v') \<and>
     (vr_Status v \<noteq> VersionStatusDraft \<longrightarrow> published_content v' = published_content v \<and> (vr_IsValid v' \<longrightarrow> vr_IsValid v))"

lemma evolves_refl [simp, intro]: "evolves v v"
  by (simp add: evolves_def)

lemma evolves_trans [trans]: "evolves u v \<Longrightarrow> evolves v w \<Longrightarrow> evolves u w"
  unfolding evolves_def
  by (cases "vr_Status u"; cases "vr_Status v") (auto simp: status_order)

lemma evolves_ids:
  assumes "evolves v v'"
  shows "vr_ID v' = vr_ID v" "vr_WorkflowID v' = vr_WorkflowID v" "vr_TenantID v' = vr_TenantID v"
  using assms by (simp_all add: evolves_def)

lemma evolves_touch:
  assumes "vr_ID (f v) = vr_ID v" "vr_WorkflowID (f v) = vr_WorkflowID v" "vr_TenantID (f v) = vr_TenantID v"
    and "vr_Status v \<le> vr_Status (f v)"
    and "vr_Status v \<noteq> VersionStatusDraft \<Longrightarrow> published_content (f v) = published_content v \<and> (vr_IsValid (f v) \<longrightarrow> vr_IsValid v)"
  shows "evolves v (touch_version now v (f v))"
  using assms by (auto simp: evolves_def touch_version_def published_content_def)

lemma touch_version_fields [simp]:
  "vr_ID (touch_version now v v') = vr_ID v'"
  "vr_WorkflowID (touch_version now v v') = vr_WorkflowID v'"
  "vr_TenantID (touch_version now v v') = vr_TenantID v'"
  "vr_Status (touch_version now v v') = vr_Status v'"
  "vr_VersionNumber (touch_version now v v') = vr_VersionNumber v'"
  "vr_BpmnXml (touch_version now v v') = vr_BpmnXml v'"
  "vr_CompiledPlanJson (touch_version now v v') = vr_CompiledPlanJson v'"
  "vr_ArtifactHash (touch_version now v v') = vr_ArtifactHash v'"
  "vr_ModuleRefs (touch_version now v v') = vr_ModuleRefs v'"
  "vr_IsValid (touch_version now v v') = vr_IsValid v'"
  by (simp_all add: touch_version_def)

lemma touch_workflow_fields [simp]:
  "wr_ID (touch_workflow now w w') = wr_ID w'"
  "wr_TenantID (touch_workflow now w w') = wr_TenantID w'"
  "wr_ActiveVersionID (touch_workflow now w w') = wr_ActiveVersionID w'"
  by (simp_all add: touch_workflow_def)

subsection \<open>The key columns\<close>

definition vkey_of :: "version_row \<Rightarrow> vkey" where
  "vkey_of v = \<lparr>k_ID = vr_ID v, k_Owner = vr_WorkflowID v, k_Status = vr_Status v, k_Number = vr_VersionNumber v\<rparr>"

definition wkeys :: "db \<Rightarrow> vkey list" where
  "wkeys db = map vkey_of (db_versions db)"

lemma vkey_of_simps [simp]:
  "k_ID (vkey_of v) = vr_ID v" "k_Owner (vkey_of v) = vr_WorkflowID v"
  "k_Status (vkey_of v) = vr_Status v" "k_Number (vkey_of v) = vr_VersionNumber v"
  by (simp_all add: vkey_of_def)

lemma vkey_of_touch [simp]: "vkey_of (touch_version now v v') = vkey_of v'"
  by (simp add: vkey_of_def)

lemma find_SomeD: "find P xs = Some x \<Longrightarrow> P x \<and> x \<in> set xs"
  by (auto simp: find_Some_iff)

lemma wkeys_ids: "map k_ID (wkeys db) = map vr_ID (db_versions db)"
  by (simp add: wkeys_def)

lemma version_unique:
  assumes "life_ok (wkeys db)" "v \<in> set (db_versions db)" "v' \<in> set (db_versions db)" "vr_ID v = vr_ID v'"
  shows "v = v'"
proof -
  from assms(1) have "distinct (map vr_ID (db_versions db))"
    using life_ok_facts(1) by (simp add: wkeys_ids [symmetric])
  with assms(2-4) show ?thesis by (auto simp: distinct_map dest: inj_onD)
qed

text \<open>An update that keeps the key columns, and one that changes those of a single row.\<close>

lemma wkeys_same:
  assumes "db_versions db' = map h (db_versions db)" and "\<And>v. v \<in> set (db_versions db) \<Longrightarrow> vkey_of (h v) = vkey_of v"
  shows "wkeys db' = wkeys db"
  using assms by (simp add: wkeys_def)

lemma wkeys_on_id:
  assumes "db_versions db' = map h (db_versions db)"
    and "\<And>x. x \<in> set (db_versions db) \<Longrightarrow> vkey_of (h x) = (if vr_ID x = i then f (vkey_of x) else vkey_of x)"
  shows "wkeys db' = on_id i f (wkeys db)"
  using assms by (simp add: wkeys_def on_id_def)

subsection \<open>The effect of each transaction\<close>

text \<open>What the invariants read of a workflow row.\<close>

definition wptr :: "workflow_row \<Rightarrow> uuid \<times> uuid \<times> uuid option" where
  "wptr w = (wr_ID w, wr_TenantID w, wr_ActiveVersionID w)"

definition wptrs :: "db \<Rightarrow> (uuid \<times> uuid \<times> uuid option) list" where
  "wptrs db = map wptr (db_workflows db)"

lemma wptr_touch [simp]: "wptr (touch_workflow now w w') = wptr w'"
  by (simp add: wptr_def)

lemma wptrs_map:
  "db_workflows db' = map h (db_workflows db) \<Longrightarrow> (\<And>w. w \<in> set (db_workflows db) \<Longrightarrow> wptr (h w) = wptr w) \<Longrightarrow> wptrs db' = wptrs db"
  by (simp add: wptrs_def)

text \<open>A transaction that changes version rows in place and keeps their key columns.\<close>

definition edits_rows :: "db \<Rightarrow> db \<Rightarrow> bool" where
  "edits_rows db db' \<longleftrightarrow>
     (\<exists>h. db_versions db' = map h (db_versions db) \<and> (\<forall>v. evolves v (h v) \<and> vkey_of (h v) = vkey_of v))"

lemma edits_rowsI:
  assumes "db_versions db' = map (\<lambda>v. if P v then touch_version now v (f v) else v) (db_versions db)"
    and "\<And>v. P v \<Longrightarrow> evolves v (touch_version now v (f v)) \<and> vkey_of (f v) = vkey_of v"
  shows "edits_rows db db'"
  unfolding edits_rows_def
  by (rule exI [of _ "\<lambda>v. if P v then touch_version now v (f v) else v"]) (use assms in simp)

lemma edits_rows_refl [simp]: "db_versions db' = db_versions db \<Longrightarrow> edits_rows db db'"
  unfolding edits_rows_def by (rule exI [of _ "\<lambda>v. v"]) simp

lemma UpdateMetadata_Inr:
  assumes "WorkflowRepo_UpdateMetadata now tenantID wid name description db = Inr (u, db')"
  shows "db_versions db' = db_versions db \<and> wptrs db' = wptrs db"
proof -
  from assms have db': "db' = snd (UpdateWorkflowMetadata now tenantID wid name (toNullableText description) db)"
    unfolding WorkflowRepo_UpdateMetadata_def of_count_Inr by simp
  have "wptrs db' = wptrs db"
    unfolding db' UpdateWorkflowMetadata_def
    by (rule wptrs_map, rule update_workflows_versions) (simp add: wptr_def)
  then show ?thesis by (simp add: db' UpdateWorkflowMetadata_def)
qed

lemma updateWorkflowMeta_Inr:
  "updateWorkflowMeta now tenantID wid req db = Inr (u, db') \<Longrightarrow> db_versions db' = db_versions db \<and> wptrs db' = wptrs db"
  by (auto simp: updateWorkflowMeta_def res_simps GetByID_Inr dest!: UpdateMetadata_Inr)

text \<open>What a draft update writes, and the row it writes it to.\<close>

definition draft_update :: "version_row \<Rightarrow> version_row \<Rightarrow> version_row" where
  "draft_update v x = x\<lparr>vr_BpmnXml := vr_BpmnXml v, vr_CompiledPlanJson := vr_CompiledPlanJson v,
     vr_ArtifactHash := vr_ArtifactHash v, vr_IsValid := vr_IsValid v, vr_ValidationErrorsJson := vr_ValidationErrorsJson v\<rparr>"

definition draft_guard :: "version_row \<Rightarrow> version_row \<Rightarrow> bool" where
  "draft_guard v x \<longleftrightarrow> vr_TenantID x = vr_TenantID v \<and> vr_ID x = vr_ID v \<and> vr_Status x = VersionStatusDraft \<and>
     vr_RecordVersion x = vr_RecordVersion v"

lemma UpdateDraftVersion_Inr:
  assumes "UpdateDraftVersion now v db = Inr (n, db')"
  shows "db_versions db' = map (\<lambda>x. if draft_guard v x then touch_version now x (draft_update v x) else x) (db_versions db)"
    and "db_workflows db' = db_workflows db" and "\<exists>x \<in> set (db_versions db). draft_guard v x"
    and "\<exists>x \<in> set (db_versions db'). vr_ID x = vr_ID v \<and> vr_RecordVersion x = n"
proof -
  let ?db = "db\<lparr>db_versions := map (\<lambda>x. if draft_guard v x then touch_version now x (draft_update v x) else x) (db_versions db)\<rparr>"
  have eq: "UpdateDraftVersion now v db =
      (case find (\<lambda>x. vr_ID x = vr_ID v) (db_versions ?db) of
         Some x \<Rightarrow> if filter (draft_guard v) (db_versions db) = [] then Inl NoRows else Inr (vr_RecordVersion x, ?db)
       | None \<Rightarrow> Inl NoRows)"
    unfolding UpdateDraftVersion_def update_versions_def Let_def draft_guard_def [symmetric] draft_update_def [symmetric]
    by (simp cong: option.case_cong)
  from assms obtain x where x: "find (\<lambda>x. vr_ID x = vr_ID v) (db_versions ?db) = Some x" "n = vr_RecordVersion x"
    and rest: "filter (draft_guard v) (db_versions db) \<noteq> []" "db' = ?db"
    unfolding eq by (auto split: option.splits if_splits)
  from find_SomeD [OF x(1)] x(2) rest(2)
  show "\<exists>x \<in> set (db_versions db'). vr_ID x = vr_ID v \<and> vr_RecordVersion x = n" by blast
  from rest show "\<exists>x \<in> set (db_versions db). draft_guard v x" by (simp add: filter_empty_conv)
  from rest(2) show "db_workflows db' = db_workflows db"
    and "db_versions db' = map (\<lambda>x. if draft_guard v x then touch_version now x (draft_update v x) else x) (db_versions db)"
    by simp_all
qed

lemma update_effect:
  assumes "runUpdateTx now tenantID wid draft req db = Inr (v, db')"
  shows "edits_rows db db'" and "wptrs db' = wptrs db"
proof -
  from assms obtain db1 where meta: "db_versions db1 = db_versions db \<and> wptrs db1 = wptrs db"
    and "VersionRepo_UpdateDraft now draft db1 = Inr (v, db')"
    by (auto simp: runUpdateTx_def Let_def res_simps split: if_splits dest: updateWorkflowMeta_Inr)
  then obtain n where upd: "UpdateDraftVersion now (version_params draft) db1 = Inr (n, db')"
    by (auto simp: VersionRepo_UpdateDraft_def split: sum.splits sql_error.splits)
  note eff = UpdateDraftVersion_Inr [OF upd]
  show "wptrs db' = wptrs db" using meta eff(2) by (simp add: wptrs_def)
  have "db_versions db' = map (\<lambda>x. if draft_guard (version_params draft) x
      then touch_version now x (draft_update (version_params draft) x) else x) (db_versions db)"
    using eff(1) meta by simp
  then show "edits_rows db db'"
  proof (rule edits_rowsI)
    fix x assume "draft_guard (version_params draft) x"
    then show "evolves x (touch_version now x (draft_update (version_params draft) x)) \<and>
        vkey_of (draft_update (version_params draft) x) = vkey_of x"
      by (intro conjI evolves_touch) (auto simp: draft_guard_def draft_update_def vkey_of_def)
  qed
qed

lemma invalidate_effect:
  assumes "VersionRepo_SetInvalid now tenantID vid errs db = Inr (u, db')"
  shows "edits_rows db db'" and "wptrs db' = wptrs db"
proof -
  from assms have db': "db' = snd (SetVersionInvalid now tenantID vid errs db)"
    by (simp add: VersionRepo_SetInvalid_def of_count_Inr)
  show "wptrs db' = wptrs db" by (simp add: db' SetVersionInvalid_def wptrs_def)
  show "edits_rows db db'" unfolding db' SetVersionInvalid_def
    by (rule edits_rowsI, rule update_versions_simps)
       (intro conjI evolves_touch; simp add: vkey_of_def published_content_def)
qed

text \<open>The pointer that a transaction sets on the workflow with an identifier and a tenant.\<close>

definition point :: "uuid \<times> uuid \<Rightarrow> uuid option \<Rightarrow> uuid \<times> uuid \<times> uuid option \<Rightarrow> uuid \<times> uuid \<times> uuid option" where
  "point key a p = (if (fst p, fst (snd p)) = key then (fst p, fst (snd p), a) else p)"

lemma point_simps [simp]: "fst (point key a p) = fst p" "fst (snd (point key a p)) = fst (snd p)"
  by (simp_all add: point_def)

text \<open>What an active pointer names: a published version of the same workflow and tenant.\<close>

definition active_target :: "db \<Rightarrow> uuid \<Rightarrow> uuid \<Rightarrow> uuid \<Rightarrow> bool" where
  "active_target db wid tenantID vid \<longleftrightarrow> (\<exists>v \<in> set (db_versions db). vr_ID v = vid \<and> vr_WorkflowID v = wid \<and>
     vr_TenantID v = tenantID \<and> vr_Status v = VersionStatusPublished)"

lemma activate_effect:
  assumes "WorkflowRepo_UpdateActiveVersion now tenantID wid versionID db = Inr (u, db')"
  shows "db_versions db' = db_versions db" and "wptrs db' = map (point (wid, tenantID) versionID) (wptrs db)"
    and "\<And>vid. versionID = Some vid \<Longrightarrow> active_target db wid tenantID vid"
    and "(wid, tenantID) \<in> (\<lambda>p. (fst p, fst (snd p))) ` set (wptrs db)"
proof -
  note eff = assms [unfolded UpdateActiveVersion_Inr]
  from eff obtain w where w: "w \<in> set (db_workflows db)" "wr_TenantID w = tenantID" "wr_ID w = wid"
    and may: "may_activate db w versionID" by blast
  have same: "may_activate db x versionID \<longleftrightarrow> may_activate db w versionID" if "wr_TenantID x = tenantID" "wr_ID x = wid" for x
    using that w by (simp add: may_activate_def split: option.splits)
  show "db_versions db' = db_versions db" using eff by simp
  show "wptrs db' = map (point (wid, tenantID) versionID) (wptrs db)"
    using eff same may by (auto simp: wptrs_def wptr_def point_def)
  show "active_target db wid tenantID vid" if "versionID = Some vid" for vid
    using may that w by (auto simp: may_activate_def active_target_def)
  show "(wid, tenantID) \<in> (\<lambda>p. (fst p, fst (snd p))) ` set (wptrs db)"
    using w by (force simp: wptrs_def wptr_def)
qed

lemma DeleteDraft_Inr:
  assumes "VersionRepo_DeleteDraft now tenantID vid db = Inr (u, db')"
  defines "gone \<equiv> \<lambda>x. vr_TenantID x = tenantID \<and> vr_ID x = vid \<and> vr_Status x = VersionStatusDraft"
  shows "db_versions db' = filter (\<lambda>x. \<not> gone x) (db_versions db)" and "\<exists>x \<in> set (db_versions db). gone x"
    and "wptrs db' = map (\<lambda>p. if snd (snd p) = Some vid \<and> fst (snd p) = tenantID then (fst p, fst (snd p), None) else p) (wptrs db)"
proof -
  from assms have some: "filter gone (db_versions db) \<noteq> []" and db': "db' = snd (DeleteDraftVersion now tenantID vid db)"
    by (auto simp: VersionRepo_DeleteDraft_def of_count_Inr DeleteDraftVersion_def Let_def split: prod.splits)
  then show "\<exists>x \<in> set (db_versions db). gone x" by (simp add: filter_empty_conv)
  then have ex: "(\<exists>x \<in> set (filter gone (db_versions db)). a = Some (vr_ID x) \<and> t = vr_TenantID x) \<longleftrightarrow> a = Some vid \<and> t = tenantID"
    for a t by (auto simp: gone_def)
  note eq = db' [unfolded DeleteDraftVersion_def Let_def case_prod_beta snd_conv, folded gone_def]
  show "db_versions db' = filter (\<lambda>x. \<not> gone x) (db_versions db)"
    by (auto simp: eq gone_def intro!: filter_cong)
  show "wptrs db' = map (\<lambda>p. if snd (snd p) = Some vid \<and> fst (snd p) = tenantID then (fst p, fst (snd p), None) else p) (wptrs db)"
    unfolding wptrs_def eq update_workflows_versions ex by (auto simp: wptr_def)
qed

text \<open>What publishing writes, and the row it writes it to.\<close>

definition publish_update :: "time \<Rightarrow> nat \<Rightarrow> string \<Rightarrow> string option \<Rightarrow> ModuleRef list \<Rightarrow> version_row \<Rightarrow> version_row" where
  "publish_update now n plan hash refs x = x\<lparr>vr_Status := VersionStatusPublished, vr_VersionNumber := Some n,
     vr_CompiledPlanJson := Some plan, vr_ArtifactHash := hash, vr_ModuleRefs := refs, vr_PublishedAt := Some now, vr_UpdatedAt := now\<rparr>"

definition publish_guard :: "uuid \<Rightarrow> uuid \<Rightarrow> nat \<Rightarrow> version_row \<Rightarrow> bool" where
  "publish_guard tenantID vid recordVersion x \<longleftrightarrow> vr_TenantID x = tenantID \<and> vr_ID x = vid \<and>
     vr_Status x = VersionStatusDraft \<and> vr_RecordVersion x = recordVersion"

lemma VersionRepo_Publish_Inr:
  assumes "VersionRepo_Publish now tenantID vid recordVersion n plan hash refs db = Inr (u, db')"
  shows "db_versions db' = map (\<lambda>x. if publish_guard tenantID vid recordVersion x
      then touch_version now x (publish_update now n plan (toNullableText hash) refs x) else x) (db_versions db)"
    and "db_workflows db' = db_workflows db" and "\<exists>x \<in> set (db_versions db). publish_guard tenantID vid recordVersion x"
proof -
  note d = VersionRepo_Publish_def PublishVersion_def Let_def publish_guard_def [symmetric] publish_update_def [symmetric]
  from assms have "db' = snd (update_versions now (publish_guard tenantID vid recordVersion)
      (publish_update now n plan (toNullableText hash) refs) db)"
    and "filter (publish_guard tenantID vid recordVersion) (db_versions db) \<noteq> []"
    unfolding d by (auto simp: update_versions_def filter_empty_conv split: if_splits)
  then show "db_versions db' = map (\<lambda>x. if publish_guard tenantID vid recordVersion x
      then touch_version now x (publish_update now n plan (toNullableText hash) refs x) else x) (db_versions db)"
    and "db_workflows db' = db_workflows db" and "\<exists>x \<in> set (db_versions db). publish_guard tenantID vid recordVersion x"
    by (simp_all add: filter_empty_conv)
qed

text \<open>
  A publish transaction that commits: the number is the next one, the row is the draft of the version and
  belongs to the workflow named, and the pointer is set to it.
\<close>

lemma publish_effect:
  assumes "publish_tx now inp db = Inr (n, db')"
  obtains v where
    "n = Suc (max_number (pi_tenantID inp) (pi_workflowID inp) db)"
    and "db_versions db' = map (\<lambda>x. if publish_guard (pi_tenantID inp) (pi_versionID inp) (pi_recordVersion inp) x
      then touch_version now x (publish_update now n (pi_compiledJSON inp) (toNullableText (pi_artifactHash inp)) (pi_moduleRefs inp) x)
      else x) (db_versions db)"
    and "v \<in> set (db_versions db)" and "publish_guard (pi_tenantID inp) (pi_versionID inp) (pi_recordVersion inp) v"
    and "wptrs db' = map (point (pi_workflowID inp, pi_tenantID inp) (Some (pi_versionID inp))) (wptrs db)"
    and "active_target db' (pi_workflowID inp) (pi_tenantID inp) (pi_versionID inp)"
proof -
  from assms obtain db1 db2 db3 u where
    n: "n = Suc (max_number (pi_tenantID inp) (pi_workflowID inp) db)"
    and pub: "VersionRepo_Publish now (pi_tenantID inp) (pi_versionID inp) (pi_recordVersion inp) n (pi_compiledJSON inp)
      (pi_artifactHash inp) (pi_moduleRefs inp) db = Inr ((), db1)"
    and del: "db2 = DeleteAssigneesByVersion (pi_tenantID inp) (pi_versionID inp) db1"
    and ins: "(if pi_assignees inp \<noteq> [] then AssigneeRepo_BulkInsert now (pi_tenantID inp) (pi_versionID inp) (pi_assignees inp)
      else return_act ()) db2 = Inr ((), db3)"
    and act: "WorkflowRepo_UpdateActiveVersion now (pi_tenantID inp) (pi_workflowID inp) (Some (pi_versionID inp)) db3 = Inr (u, db')"
    by (auto simp: publish_tx_def runPublishTx_def res_simps VersionRepo_NextVersionNumber_def NextVersionNumber_def Let_def
        AssigneeRepo_DeleteByVersion_def split: sum.splits if_splits)
  note pub = VersionRepo_Publish_Inr [OF pub]
  from ins have same: "db_versions db3 = db_versions db1 \<and> db_workflows db3 = db_workflows db1"
    by (auto simp: del DeleteAssigneesByVersion_def res_simps split: if_splits dest!: BulkInsert_Inr)
  then have ptr: "wptrs db3 = wptrs db" using pub by (simp add: wptrs_def)
  from pub(3) obtain v where v: "v \<in> set (db_versions db)" "publish_guard (pi_tenantID inp) (pi_versionID inp) (pi_recordVersion inp) v"
    by blast
  note act = activate_effect [OF act]
  show thesis
  proof (rule that [OF n _ v])
    show "active_target db' (pi_workflowID inp) (pi_tenantID inp) (pi_versionID inp)"
      using act(3) [OF refl] by (simp add: active_target_def act(1))
  qed (simp_all add: act(1,2) same pub(1) ptr)
qed

lemma promote_effect:
  assumes "promote_tx limits now tenantID wid vid planCode resolved db = Inr (u, db')"
  obtains "db' = db" | "WorkflowRepo_UpdateActiveVersion now tenantID wid (Some vid) db = Inr (u, db')"
  using assms
  by (auto simp: promote_tx_def res_simps GetByID_Inr split: if_splits option.splits dest!: enforceQuotaUnlessCounted_Inr)

text \<open>The row that archiving changes.\<close>

definition archive_guard :: "uuid \<Rightarrow> uuid \<Rightarrow> version_row \<Rightarrow> bool" where
  "archive_guard tenantID vid x \<longleftrightarrow> vr_TenantID x = tenantID \<and> vr_ID x = vid \<and> vr_Status x = VersionStatusPublished"

definition archive_update :: "time \<Rightarrow> version_row \<Rightarrow> version_row" where
  "archive_update now x = x\<lparr>vr_Status := VersionStatusArchived, vr_UpdatedAt := now\<rparr>"

lemma archive_effect:
  assumes "archive_tx now tenantID wid db = Inr (vid, db')"
  obtains v where "(wid, tenantID, Some vid) \<in> set (wptrs db)"
    and "v \<in> set (db_versions db)" and "archive_guard tenantID vid v"
    and "db_versions db' = map (\<lambda>x. if archive_guard tenantID vid x then touch_version now x (archive_update now x) else x) (db_versions db)"
    and "wptrs db' = map (point (wid, tenantID) None) (wptrs db)"
proof -
  from assms obtain row db1 u where row: "find (\<lambda>w. wr_TenantID w = tenantID \<and> wr_ID w = wid) (db_workflows db) = Some row"
    and active: "wr_ActiveVersionID row = Some vid"
    and arch: "VersionRepo_Archive now tenantID vid db = Inr ((), db1)"
    and act: "WorkflowRepo_UpdateActiveVersion now tenantID wid None db1 = Inr (u, db')"
    by (auto simp: archive_tx_def res_simps GetByID_Inr workflowFromDB_def split: option.splits)
  have db1: "db1 = snd (update_versions now (archive_guard tenantID vid) (archive_update now) db)"
    and "filter (archive_guard tenantID vid) (db_versions db) \<noteq> []"
    using arch unfolding VersionRepo_Archive_def of_count_Inr ArchiveVersion_def archive_guard_def [symmetric] archive_update_def [symmetric]
    by simp_all
  then obtain v where v: "v \<in> set (db_versions db)" "archive_guard tenantID vid v" by (auto simp: filter_empty_conv)
  have ptr: "wptrs db1 = wptrs db" by (simp add: db1 wptrs_def)
  have "(wid, tenantID, Some vid) \<in> set (wptrs db)"
    using find_SomeD [OF row] active by (force simp: wptrs_def wptr_def)
  from that [OF this v] activate_effect(1,2) [OF act] show thesis by (simp add: db1 wptrs_def)
qed

text \<open>A transaction that stores a new draft appends its row; the rows of workflows get at most a new one.\<close>

lemma CreateWorkflowVersion_Inr:
  assumes "VersionRepo_Create now (new_draft vid wid tenantID userID xml) db = Inr (u, db')"
  obtains v where "db_versions db' = db_versions db @ [v]" and "vkey_of v = \<lparr>k_ID = vid, k_Owner = wid, k_Status = VersionStatusDraft, k_Number = None\<rparr>"
    and "vr_TenantID v = tenantID" and "vr_RecordVersion v = 1" and "vr_BpmnXml v = xml"
    and "db_workflows db' = db_workflows db" and "\<forall>x \<in> set (db_versions db). vr_ID x \<noteq> vid"
    and "\<not> has_draft wid (wkeys db)"
    and "\<exists>w \<in> set (db_workflows db). wr_ID w = wid \<and> wr_TenantID w = tenantID"
  using assms
  by (auto simp: VersionRepo_Create_def of_sql_Inr CreateWorkflowVersion_def version_params_def new_draft_def vkey_of_def
      has_draft_def wkeys_def split: if_splits)

lemma new_effect:
  assumes "wf_new vid db db'"
  obtains v wid tenantID where "db_versions db' = db_versions db @ [v]"
    and "vkey_of v = \<lparr>k_ID = vid, k_Owner = wid, k_Status = VersionStatusDraft, k_Number = None\<rparr>" and "vr_TenantID v = tenantID"
    and "vr_RecordVersion v = 1" and "\<forall>x \<in> set (db_versions db). vr_ID x \<noteq> vid" and "\<not> has_draft wid (wkeys db)"
    and "(wid, tenantID) \<in> (\<lambda>p. (fst p, fst (snd p))) ` set (wptrs db')"
    and "wptrs db' = wptrs db \<or> (wid \<notin> fst ` set (wptrs db) \<and> wptrs db' = wptrs db @ [(wid, tenantID, None)])"
  using assms
proof cases
  case (create now tenantID limit wid userID key name description xml)
  then obtain db1 where w: "WorkflowRepo_Create now (new_workflow wid tenantID userID key name description) db = Inr ((), db1)"
    and v: "VersionRepo_Create now (new_draft vid wid tenantID userID xml) db1 = Inr ((), db')"
    by (auto simp: res_simps create_tx_def dest!: enforceWorkflowQuota_Inr)
  from w have db1: "db_versions db1 = db_versions db" "wptrs db1 = wptrs db @ [(wid, tenantID, None)]" "wid \<notin> fst ` set (wptrs db)"
    by (auto simp: WorkflowRepo_Create_def of_sql_Inr CreateWorkflow_def new_workflow_def wptrs_def wptr_def split: if_splits)
  show ?thesis
  proof (rule CreateWorkflowVersion_Inr [OF v])
    fix r assume r: "db_versions db' = db_versions db1 @ [r]"
      "vkey_of r = \<lparr>k_ID = vid, k_Owner = wid, k_Status = VersionStatusDraft, k_Number = None\<rparr>" "vr_TenantID r = tenantID"
      "vr_RecordVersion r = 1" "db_workflows db' = db_workflows db1" "\<forall>x \<in> set (db_versions db1). vr_ID x \<noteq> vid" "\<not> has_draft wid (wkeys db1)"
    then have "wptrs db' = wptrs db @ [(wid, tenantID, None)]" using db1 by (simp add: wptrs_def)
    then show ?thesis using r db1 by (intro that [of r wid tenantID]) (auto simp: wkeys_def)
  qed
next
  case (init now wid tenantID userID xml)
  then have v: "VersionRepo_Create now (new_draft vid wid tenantID userID xml) db = Inr ((), db')" by (simp add: res_simps)
  show ?thesis
  proof (rule CreateWorkflowVersion_Inr [OF v])
    fix r assume r: "db_versions db' = db_versions db @ [r]"
      "vkey_of r = \<lparr>k_ID = vid, k_Owner = wid, k_Status = VersionStatusDraft, k_Number = None\<rparr>" "vr_TenantID r = tenantID"
      "vr_RecordVersion r = 1" "db_workflows db' = db_workflows db" "\<forall>x \<in> set (db_versions db). vr_ID x \<noteq> vid" "\<not> has_draft wid (wkeys db)"
      "\<exists>w \<in> set (db_workflows db). wr_ID w = wid \<and> wr_TenantID w = tenantID"
    then have "wptrs db' = wptrs db" "(wid, tenantID) \<in> (\<lambda>p. (fst p, fst (snd p))) ` set (wptrs db')"
      by (force simp: wptrs_def wptr_def)+
    then show ?thesis using r by (intro that [of r wid tenantID]) auto
  qed
qed

text \<open>A purge takes whole workflows out, with their versions, and clears pointers.\<close>

definition owned_by :: "db \<Rightarrow> uuid set \<Rightarrow> version_row \<Rightarrow> bool" where
  "owned_by db ids v \<longleftrightarrow>
     (\<exists>w \<in> set (db_workflows db). wr_ID w \<in> ids \<and> vr_WorkflowID v = wr_ID w \<and> vr_TenantID v = wr_TenantID w)"

lemma purge_effect:
  assumes "PurgeTenantWorkflows now order tenantID limit db = (n, db')"
  obtains ids S where "db_versions db' = filter (\<lambda>v. \<not> owned_by db ids v) (db_versions db)"
    and "wptrs db' = map (\<lambda>p. if snd p \<in> S then (fst p, fst (snd p), None) else p) (filter (\<lambda>p. fst p \<notin> ids) (wptrs db))"
proof -
  define ids where "ids = set (map wr_ID (take limit (sort_key order (filter (\<lambda>w. wr_TenantID w = tenantID) (db_workflows db)))))"
  define lost where "lost = filter (owned_by db ids) (db_versions db)"
  have P: "(\<exists>w \<in> set (filter (\<lambda>w. wr_ID w \<in> ids) (db_workflows db)). vr_WorkflowID x = wr_ID w \<and> vr_TenantID x = wr_TenantID w) \<longleftrightarrow>
      owned_by db ids x" for x
    by (auto simp: owned_by_def)
  note eq = assms [symmetric, unfolded PurgeTenantWorkflows_def Let_def case_prod_beta prod.inject fst_conv snd_conv,
    folded ids_def, unfolded P, folded lost_def, THEN conjunct2]
  let ?S = "{a. \<exists>x \<in> set lost. snd a = Some (vr_ID x) \<and> fst a = vr_TenantID x}"
  show thesis
  proof (rule that [of ids ?S])
    show "db_versions db' = filter (\<lambda>v. \<not> owned_by db ids v) (db_versions db)" by (simp add: eq)
    show "wptrs db' = map (\<lambda>p. if snd p \<in> ?S then (fst p, fst (snd p), None) else p) (filter (\<lambda>p. fst p \<notin> ids) (wptrs db))"
      unfolding wptrs_def eq update_workflows_versions(4) filter_map by (auto simp: wptr_def comp_def)
  qed
qed

subsection \<open>The invariant of the tables\<close>

text \<open>
  Workflows have distinct identifiers, a version belongs to a workflow of its tenant, and an active pointer
  names a published version of its workflow.
\<close>

definition store_ok :: "db \<Rightarrow> bool" where
  "store_ok db \<longleftrightarrow> distinct (map fst (wptrs db)) \<and>
     (\<forall>v \<in> set (db_versions db). (vr_WorkflowID v, vr_TenantID v) \<in> (\<lambda>p. (fst p, fst (snd p))) ` set (wptrs db)) \<and>
     (\<forall>(wid, tenantID, a) \<in> set (wptrs db). \<forall>vid. a = Some vid \<longrightarrow> active_target db wid tenantID vid)"

lemma store_ok_facts:
  assumes "store_ok db"
  shows "distinct (map fst (wptrs db))"
    and "v \<in> set (db_versions db) \<Longrightarrow> (vr_WorkflowID v, vr_TenantID v) \<in> (\<lambda>p. (fst p, fst (snd p))) ` set (wptrs db)"
    and "(wid, tenantID, Some vid) \<in> set (wptrs db) \<Longrightarrow> active_target db wid tenantID vid"
  using assms by (auto simp: store_ok_def)

text \<open>Versions of one workflow have one tenant.\<close>

lemma same_tenant:
  assumes "store_ok db" "v \<in> set (db_versions db)" "v' \<in> set (db_versions db)" "vr_WorkflowID v = vr_WorkflowID v'"
  shows "vr_TenantID v = vr_TenantID v'"
proof -
  obtain p where p: "p \<in> set (wptrs db)" "fst p = vr_WorkflowID v" "fst (snd p) = vr_TenantID v"
    using store_ok_facts(2) [OF assms(1,2)] by auto
  obtain q where q: "q \<in> set (wptrs db)" "fst q = vr_WorkflowID v'" "fst (snd q) = vr_TenantID v'"
    using store_ok_facts(2) [OF assms(1,3)] by auto
  have "inj_on fst (set (wptrs db))" using store_ok_facts(1) [OF assms(1)] by (simp add: distinct_map)
  then have "p = q" by (rule inj_onD) (use p q assms(4) in simp_all)
  with p q show ?thesis by simp
qed

text \<open>A transaction that only moves pointers, and whose version rows stay in their place.\<close>

lemma store_ok_move:
  assumes ok: "store_ok db"
    and ptrs: "map (\<lambda>p. (fst p, fst (snd p))) (wptrs db') = map (\<lambda>p. (fst p, fst (snd p))) (wptrs db)"
    and rows: "\<And>v'. v' \<in> set (db_versions db') \<Longrightarrow>
      \<exists>v \<in> set (db_versions db). vr_WorkflowID v' = vr_WorkflowID v \<and> vr_TenantID v' = vr_TenantID v"
    and act: "\<And>wid tenantID vid. (wid, tenantID, Some vid) \<in> set (wptrs db') \<Longrightarrow> active_target db' wid tenantID vid"
  shows "store_ok db'"
proof -
  have "map fst (map (\<lambda>p. (fst p, fst (snd p))) (wptrs db')) = map fst (map (\<lambda>p. (fst p, fst (snd p))) (wptrs db))"
    by (simp only: ptrs)
  then have "distinct (map fst (wptrs db'))" using store_ok_facts(1) [OF ok] by (simp add: comp_def)
  moreover have "set (map (\<lambda>p. (fst p, fst (snd p))) (wptrs db')) = set (map (\<lambda>p. (fst p, fst (snd p))) (wptrs db))"
    by (simp only: ptrs)
  then have "(vr_WorkflowID v, vr_TenantID v) \<in> (\<lambda>p. (fst p, fst (snd p))) ` set (wptrs db')" if "v \<in> set (db_versions db')" for v
    using rows [OF that] store_ok_facts(2) [OF ok] by fastforce
  ultimately show ?thesis using act by (auto simp: store_ok_def)
qed

text \<open>Pointers keep their targets when a row change keeps a published version published.\<close>

lemma active_target_map:
  assumes "active_target db wid tenantID vid" and "db_versions db' = map h (db_versions db)"
    and "\<And>v. vr_ID v = vid \<Longrightarrow> vr_Status v = VersionStatusPublished \<Longrightarrow>
      vr_ID (h v) = vid \<and> vr_WorkflowID (h v) = vr_WorkflowID v \<and> vr_TenantID (h v) = vr_TenantID v \<and> vr_Status (h v) = VersionStatusPublished"
  shows "active_target db' wid tenantID vid"
proof -
  from assms(1) obtain v where "v \<in> set (db_versions db)" "vr_ID v = vid" "vr_WorkflowID v = wid" "vr_TenantID v = tenantID"
    "vr_Status v = VersionStatusPublished" by (auto simp: active_target_def)
  with assms(3) [of v] assms(2) show ?thesis unfolding active_target_def by (intro bexI [of _ "h v"]) auto
qed

lemma store_ok_edits:
  assumes "store_ok db" and "edits_rows db db'" and "wptrs db' = wptrs db"
  shows "store_ok db'"
proof -
  from assms(2) obtain h where h: "db_versions db' = map h (db_versions db)" "\<And>v. evolves v (h v)" "\<And>v. vkey_of (h v) = vkey_of v"
    by (auto simp: edits_rows_def)
  have st: "vr_Status (h v) = vr_Status v" for v using arg_cong [OF h(3), of k_Status] by simp
  show ?thesis
  proof (rule store_ok_move [OF assms(1)])
    show "\<exists>v \<in> set (db_versions db). vr_WorkflowID v' = vr_WorkflowID v \<and> vr_TenantID v' = vr_TenantID v"
      if "v' \<in> set (db_versions db')" for v'
      using that h(1) evolves_ids [OF h(2)] by auto
    show "active_target db' wid tenantID vid" if "(wid, tenantID, Some vid) \<in> set (wptrs db')" for wid tenantID vid
      using store_ok_facts(3) [OF assms(1)] that
      by (intro active_target_map [OF _ h(1)]) (auto simp: assms(3) st evolves_ids [OF h(2)])
  qed (simp add: assms(3))
qed

lemma point_pointer:
  "(wid, tenantID, Some vid) \<in> set (map (point key a) ps) \<Longrightarrow>
     ((wid, tenantID) = key \<and> a = Some vid) \<or> ((wid, tenantID) \<noteq> key \<and> (wid, tenantID, Some vid) \<in> set ps)"
  by (auto simp: point_def split: if_splits)

lemma store_ok_discard:
  assumes "store_ok db" and "VersionRepo_DeleteDraft now tenantID vid db = Inr (u, db')"
  shows "store_ok db'"
proof -
  note eff = DeleteDraft_Inr [OF assms(2)]
  show ?thesis
  proof (rule store_ok_move [OF assms(1)])
    show "map (\<lambda>p. (fst p, fst (snd p))) (wptrs db') = map (\<lambda>p. (fst p, fst (snd p))) (wptrs db)"
      by (auto simp: eff(3))
    show "\<exists>v \<in> set (db_versions db). vr_WorkflowID v' = vr_WorkflowID v \<and> vr_TenantID v' = vr_TenantID v"
      if "v' \<in> set (db_versions db')" for v' using that by (auto simp: eff(1))
    show "active_target db' w t i" if "(w, t, Some i) \<in> set (wptrs db')" for w t i
    proof -
      from that have "(w, t, Some i) \<in> set (wptrs db)" by (auto simp: eff(3) split: if_splits)
      from store_ok_facts(3) [OF assms(1) this] show ?thesis by (auto simp: active_target_def eff(1))
    qed
  qed
qed

lemma store_ok_activate:
  assumes "store_ok db" and "WorkflowRepo_UpdateActiveVersion now tenantID wid versionID db = Inr (u, db')"
  shows "store_ok db'"
proof -
  note eff = activate_effect [OF assms(2)]
  show ?thesis
  proof (rule store_ok_move [OF assms(1)])
    show "active_target db' w t i" if "(w, t, Some i) \<in> set (wptrs db')" for w t i
      using point_pointer [OF that [unfolded eff(2)]] eff(3) [of i] store_ok_facts(3) [OF assms(1), of w t i]
      by (auto simp: active_target_def eff(1))
  qed (auto simp: eff(1,2))
qed

lemma store_ok_publish:
  assumes "store_ok db" and "publish_tx now inp db = Inr (n, db')"
  shows "store_ok db'"
proof (rule publish_effect [OF assms(2)])
  fix v
  let ?g = "publish_guard (pi_tenantID inp) (pi_versionID inp) (pi_recordVersion inp)"
  let ?h = "\<lambda>x. if ?g x then touch_version now x (publish_update now n (pi_compiledJSON inp) (toNullableText (pi_artifactHash inp)) (pi_moduleRefs inp) x) else x"
  assume rows: "db_versions db' = map ?h (db_versions db)"
    and ptr: "wptrs db' = map (point (pi_workflowID inp, pi_tenantID inp) (Some (pi_versionID inp))) (wptrs db)"
    and tgt: "active_target db' (pi_workflowID inp) (pi_tenantID inp) (pi_versionID inp)"
  show ?thesis
  proof (rule store_ok_move [OF assms(1)])
    show "\<exists>x \<in> set (db_versions db). vr_WorkflowID v' = vr_WorkflowID x \<and> vr_TenantID v' = vr_TenantID x"
      if "v' \<in> set (db_versions db')" for v' using that by (auto simp: rows publish_update_def)
    show "active_target db' w t i" if "(w, t, Some i) \<in> set (wptrs db')" for w t i
    proof (cases "(w, t) = (pi_workflowID inp, pi_tenantID inp)")
      case True
      with point_pointer [OF that [unfolded ptr]] tgt show ?thesis by auto
    next
      case False
      with point_pointer [OF that [unfolded ptr]] have "active_target db w t i"
        by (auto intro: store_ok_facts(3) [OF assms(1)])
      then show ?thesis by (rule active_target_map [OF _ rows]) (simp add: publish_guard_def)
    qed
  qed (simp_all add: ptr)
qed

lemma store_ok_archive:
  assumes ok: "store_ok db" "life_ok (wkeys db)" and "archive_tx now tenantID wid db = Inr (vid, db')"
  shows "store_ok db'"
proof (rule archive_effect [OF assms(3)])
  fix v
  let ?h = "\<lambda>x. if archive_guard tenantID vid x then touch_version now x (archive_update now x) else x"
  assume old: "(wid, tenantID, Some vid) \<in> set (wptrs db)" and v: "v \<in> set (db_versions db)" "archive_guard tenantID vid v"
    and rows: "db_versions db' = map ?h (db_versions db)" and ptr: "wptrs db' = map (point (wid, tenantID) None) (wptrs db)"
  show ?thesis
  proof (rule store_ok_move [OF ok(1)])
    show "\<exists>x \<in> set (db_versions db). vr_WorkflowID v' = vr_WorkflowID x \<and> vr_TenantID v' = vr_TenantID x"
      if "v' \<in> set (db_versions db')" for v' using that by (auto simp: rows archive_update_def)
    show "active_target db' w t i" if "(w, t, Some i) \<in> set (wptrs db')" for w t i
    proof -
      from point_pointer [OF that [unfolded ptr]]
      have p: "(w, t) \<noteq> (wid, tenantID)" "(w, t, Some i) \<in> set (wptrs db)" by auto
      from store_ok_facts(3) [OF ok(1) p(2)] store_ok_facts(3) [OF ok(1) old]
      obtain x y where x: "x \<in> set (db_versions db)" "vr_ID x = i" "vr_WorkflowID x = w" "vr_TenantID x = t"
        and y: "y \<in> set (db_versions db)" "vr_ID y = vid" "vr_WorkflowID y = wid" "vr_TenantID y = tenantID"
        unfolding active_target_def by blast
      have "i \<noteq> vid" using version_unique [OF ok(2) x(1) y(1)] x y p(1) by auto
      then show ?thesis
        by (intro active_target_map [OF store_ok_facts(3) [OF ok(1) p(2)] rows]) (auto simp: archive_guard_def)
    qed
  qed (simp_all add: ptr)
qed

lemma store_ok_new:
  assumes ok: "store_ok db" and "wf_new vid db db'"
  shows "store_ok db'"
proof (rule new_effect [OF assms(2)])
  fix v wid tenantID
  assume rows: "db_versions db' = db_versions db @ [v]"
    and v: "vkey_of v = \<lparr>k_ID = vid, k_Owner = wid, k_Status = VersionStatusDraft, k_Number = None\<rparr>" "vr_TenantID v = tenantID"
    and owner: "(wid, tenantID) \<in> (\<lambda>p. (fst p, fst (snd p))) ` set (wptrs db')"
    and ptr: "wptrs db' = wptrs db \<or> (wid \<notin> fst ` set (wptrs db) \<and> wptrs db' = wptrs db @ [(wid, tenantID, None)])"
  have wid: "vr_WorkflowID v = wid" using arg_cong [OF v(1), of k_Owner] by simp
  have sub: "set (wptrs db) \<subseteq> set (wptrs db')" and new: "\<And>w t i. (w, t, Some i) \<in> set (wptrs db') \<Longrightarrow> (w, t, Some i) \<in> set (wptrs db)"
    and dist: "distinct (map fst (wptrs db'))"
    using ptr store_ok_facts(1) [OF ok] by auto
  have "active_target db' w t i" if "(w, t, Some i) \<in> set (wptrs db')" for w t i
    using store_ok_facts(3) [OF ok new [OF that]] by (auto simp: active_target_def rows)
  moreover have "(vr_WorkflowID x, vr_TenantID x) \<in> (\<lambda>p. (fst p, fst (snd p))) ` set (wptrs db')" if "x \<in> set (db_versions db')" for x
  proof (cases "x = v")
    case True
    with owner v wid show ?thesis by simp
  next
    case False
    with that rows have "x \<in> set (db_versions db)" by simp
    from subsetD [OF image_mono [OF sub] store_ok_facts(2) [OF ok this]] show ?thesis .
  qed
  ultimately show ?thesis using dist by (auto simp: store_ok_def)
qed

lemma store_ok_tx:
  assumes "wf_tx db db'" and "store_ok db" and "life_ok (wkeys db)"
  shows "store_ok db'"
  using assms(1)
proof cases
  case update
  then show ?thesis by (auto simp: res_simps intro!: store_ok_edits [OF assms(2)] update_effect)
next
  case discard
  then show ?thesis by (auto simp: res_simps intro: store_ok_discard [OF assms(2)])
next
  case publish
  then show ?thesis by (auto simp: res_simps intro: store_ok_publish [OF assms(2)])
next
  case (promote limits now tenantID wid vid planCode resolved)
  then have "promote_tx limits now tenantID wid vid planCode resolved db = Inr ((), db')" by (simp add: res_simps)
  then show ?thesis by (rule promote_effect) (use assms(2) store_ok_activate in blast)+
next
  case archive
  then show ?thesis by (auto simp: res_simps intro: store_ok_archive [OF assms(2,3)])
next
  case invalidate
  then show ?thesis by (auto simp: res_simps intro!: store_ok_edits [OF assms(2)] invalidate_effect)
qed

lemma owned_iff:
  assumes "store_ok db" and "v \<in> set (db_versions db)"
  shows "owned_by db ids v \<longleftrightarrow> vr_WorkflowID v \<in> ids"
  using store_ok_facts(2) [OF assms] by (auto simp: owned_by_def wptrs_def wptr_def)

lemma store_ok_purge:
  assumes ok: "store_ok db" and tx: "PurgeTenantWorkflows now order tenantID limit db = (n, db')"
  shows "store_ok db'"
proof (rule purge_effect [OF tx])
  fix ids S
  let ?h = "\<lambda>p :: uuid \<times> uuid \<times> uuid option. if snd p \<in> S then (fst p, fst (snd p), None) else p"
  assume rows: "db_versions db' = filter (\<lambda>v. \<not> owned_by db ids v) (db_versions db)"
    and ptr: "wptrs db' = map ?h (filter (\<lambda>p. fst p \<notin> ids) (wptrs db))"
  have fst_h: "fst (?h p) = fst p" "fst (snd (?h p)) = fst (snd p)" for p by simp_all
  have "map fst (wptrs db') = map fst (filter (\<lambda>p. fst p \<notin> ids) (wptrs db))" by (simp add: ptr comp_def)
  then have "distinct (map fst (wptrs db'))" using store_ok_facts(1) [OF ok] by (simp add: distinct_map_filter)
  moreover have "(vr_WorkflowID v, vr_TenantID v) \<in> (\<lambda>p. (fst p, fst (snd p))) ` set (wptrs db')" if "v \<in> set (db_versions db')" for v
  proof -
    from that rows have v: "v \<in> set (db_versions db)" "\<not> owned_by db ids v" by auto
    with owned_iff [OF ok v(1)] have "vr_WorkflowID v \<notin> ids" by simp
    moreover obtain p where p: "p \<in> set (wptrs db)" "fst p = vr_WorkflowID v" "fst (snd p) = vr_TenantID v"
      using store_ok_facts(2) [OF ok v(1)] by auto
    ultimately have "p \<in> set (filter (\<lambda>p. fst p \<notin> ids) (wptrs db))" by simp
    then have "?h p \<in> set (wptrs db')" unfolding ptr set_map by (rule imageI)
    then show ?thesis using p(2,3) by (intro image_eqI [of _ _ "?h p"]) simp_all
  qed
  moreover have "active_target db' w t i" if "(w, t, Some i) \<in> set (wptrs db')" for w t i
  proof -
    from that have p: "(w, t, Some i) \<in> set (wptrs db)" "w \<notin> ids" by (auto simp: ptr split: if_splits)
    from store_ok_facts(3) [OF ok p(1)] p(2) show ?thesis by (auto simp: active_target_def rows owned_by_def)
  qed
  ultimately show ?thesis by (auto simp: store_ok_def)
qed

subsection \<open>The keys follow the contract\<close>

lemma foldr_max_Max: "foldr max xs (0 :: nat) = Max (insert 0 (set xs))"
proof (induction xs)
  case (Cons x xs)
  have "Max (insert 0 (insert x (set xs))) = max x (Max (insert 0 (set xs)))"
    by (subst insert_commute) simp
  with Cons show ?case by simp
qed simp

lemma next_number:
  assumes ok: "store_ok db" "life_ok (wkeys db)" and v: "v \<in> set (db_versions db)"
  shows "max_number (vr_TenantID v) (vr_WorkflowID v) db = Max (insert 0 (numbers (vr_WorkflowID v) (wkeys db)))"
proof -
  have "set (List.map_filter vr_VersionNumber
      (filter (\<lambda>x. vr_TenantID x = vr_TenantID v \<and> vr_WorkflowID x = vr_WorkflowID v \<and> vr_Status x \<noteq> VersionStatusDraft) (db_versions db)))
    = numbers (vr_WorkflowID v) (wkeys db)" (is "?A = ?B")
  proof
    show "?A \<subseteq> ?B"
      by (force simp: numbers_def wkeys_def List.map_filter_def)
    show "?B \<subseteq> ?A"
    proof
      fix n assume "n \<in> ?B"
      then obtain x where x: "x \<in> set (db_versions db)" "vr_WorkflowID x = vr_WorkflowID v" "vr_VersionNumber x = Some n"
        by (auto simp: numbers_def wkeys_def)
      then have "vr_Status x \<noteq> VersionStatusDraft"
        using life_ok_facts(2) [OF ok(2), of "vkey_of x"] by (simp add: wkeys_def)
      with x same_tenant [OF ok(1) x(1) v x(2)] show "n \<in> ?A" by (force simp: List.map_filter_def)
    qed
  qed
  then show ?thesis by (simp add: max_number_def foldr_max_Max)
qed

lemma keys_discard:
  assumes ok: "life_ok (wkeys db)" and "VersionRepo_DeleteDraft now tenantID vid db = Inr (u, db')"
  shows "life_step (wkeys db) (wkeys db')"
proof -
  note eff = DeleteDraft_Inr [OF assms(2)]
  from eff(2) obtain v where v: "v \<in> set (db_versions db)" "vr_ID v = vid" "vr_TenantID v = tenantID" "vr_Status v = VersionStatusDraft"
    by blast
  have one: "vr_ID x = vid \<longleftrightarrow> x = v" if "x \<in> set (db_versions db)" for x
    using version_unique [OF ok that v(1)] v(2) by auto
  have "wkeys db' = filter (\<lambda>k. k_ID k \<noteq> k_ID (vkey_of v)) (wkeys db)"
    unfolding wkeys_def eff(1) filter_map
    by (intro arg_cong [of _ _ "map vkey_of"] filter_cong) (use one v in auto)
  with life_step.discard [of "vkey_of v" "wkeys db"] v show ?thesis by (simp add: wkeys_def)
qed

lemma keys_publish:
  assumes ok: "store_ok db" "life_ok (wkeys db)" and tx: "publish_tx now inp db = Inr (n, db')"
  shows "life_step (wkeys db) (wkeys db')"
proof (rule publish_effect [OF tx])
  fix v
  let ?g = "publish_guard (pi_tenantID inp) (pi_versionID inp) (pi_recordVersion inp)"
  let ?f = "publish_update now n (pi_compiledJSON inp) (toNullableText (pi_artifactHash inp)) (pi_moduleRefs inp)"
  let ?h = "\<lambda>x. if ?g x then touch_version now x (?f x) else x"
  assume n: "n = Suc (max_number (pi_tenantID inp) (pi_workflowID inp) db)"
    and rows: "db_versions db' = map ?h (db_versions db)" and v: "v \<in> set (db_versions db)" "?g v"
    and tgt: "active_target db' (pi_workflowID inp) (pi_tenantID inp) (pi_versionID inp)"
  from tgt obtain x where x: "x \<in> set (db_versions db)" "vr_ID (?h x) = pi_versionID inp" "vr_WorkflowID (?h x) = pi_workflowID inp"
    unfolding active_target_def rows by auto
  have "vr_ID x = vr_ID v" using x(2) v(2) by (auto simp: publish_guard_def publish_update_def split: if_splits)
  then have "x = v" by (rule version_unique [OF ok(2) x(1) v(1)])
  with x(3) v(2) have w: "vr_WorkflowID v = pi_workflowID inp" "vr_TenantID v = pi_tenantID inp"
    by (auto simp: publish_update_def publish_guard_def)
  have number: "n = Suc (Max (insert 0 (numbers (k_Owner (vkey_of v)) (wkeys db))))"
    using n next_number [OF ok v(1)] w by simp
  have g: "?g y \<longleftrightarrow> vr_ID y = vr_ID v" if "y \<in> set (db_versions db)" for y
    using version_unique [OF ok(2) that v(1)] v(2) by (auto simp: publish_guard_def)
  have "wkeys db' = on_id (k_ID (vkey_of v)) (publish_key n) (wkeys db)"
    by (rule wkeys_on_id [OF rows]) (simp add: g publish_update_def publish_key_def vkey_of_def)
  with life_step.publish [of "vkey_of v" "wkeys db", OF _ _ number] v show ?thesis
    by (simp add: wkeys_def publish_guard_def)
qed

lemma keys_archive:
  assumes ok: "life_ok (wkeys db)" and tx: "archive_tx now tenantID wid db = Inr (vid, db')"
  shows "life_step (wkeys db) (wkeys db')"
proof (rule archive_effect [OF tx])
  fix v
  let ?h = "\<lambda>x. if archive_guard tenantID vid x then touch_version now x (archive_update now x) else x"
  assume v: "v \<in> set (db_versions db)" "archive_guard tenantID vid v" and rows: "db_versions db' = map ?h (db_versions db)"
  have g: "archive_guard tenantID vid y \<longleftrightarrow> vr_ID y = vr_ID v" if "y \<in> set (db_versions db)" for y
    using version_unique [OF ok that v(1)] v(2) by (auto simp: archive_guard_def)
  have "wkeys db' = on_id (k_ID (vkey_of v)) archive_key (wkeys db)"
    by (rule wkeys_on_id [OF rows]) (simp add: g archive_update_def archive_key_def vkey_of_def)
  with life_step.archive [of "vkey_of v" "wkeys db"] v show ?thesis
    by (simp add: wkeys_def archive_guard_def)
qed

lemma keys_new:
  assumes "wf_new vid db db'"
  shows "life_step (wkeys db) (wkeys db')"
proof (rule new_effect [OF assms])
  fix v wid tenantID
  assume rows: "db_versions db' = db_versions db @ [v]"
    and v: "vkey_of v = \<lparr>k_ID = vid, k_Owner = wid, k_Status = VersionStatusDraft, k_Number = None\<rparr>"
    and fresh: "\<forall>x \<in> set (db_versions db). vr_ID x \<noteq> vid" and none: "\<not> has_draft wid (wkeys db)"
  from fresh have "vid \<notin> k_ID ` set (wkeys db)" by (auto simp: wkeys_def)
  from life_step.draft [OF this none] show ?thesis by (simp add: wkeys_def rows v)
qed

lemma keys_edits: "edits_rows db db' \<Longrightarrow> wkeys db' = wkeys db"
  by (auto simp: edits_rows_def wkeys_def)

lemma keys_tx:
  assumes "wf_tx db db'" and ok: "store_ok db" "life_ok (wkeys db)"
  shows "life_step\<^sup>*\<^sup>* (wkeys db) (wkeys db')"
  using assms(1)
proof cases
  case update
  then have "wkeys db' = wkeys db" by (auto simp: res_simps dest: update_effect(1) intro: keys_edits)
  then show ?thesis by simp
next
  case discard
  then show ?thesis by (auto simp: res_simps intro: keys_discard [OF ok(2)])
next
  case publish
  then show ?thesis by (auto simp: res_simps intro: keys_publish [OF ok])
next
  case (promote limits now tenantID wid vid planCode resolved)
  then have "promote_tx limits now tenantID wid vid planCode resolved db = Inr ((), db')" by (simp add: res_simps)
  then have "db_versions db' = db_versions db" by (rule promote_effect) (auto dest: activate_effect(1))
  then show ?thesis by (simp add: wkeys_def)
next
  case archive
  then show ?thesis by (auto simp: res_simps intro: keys_archive [OF ok(2)])
next
  case invalidate
  then have "wkeys db' = wkeys db" by (auto simp: res_simps dest: invalidate_effect(1) intro: keys_edits)
  then show ?thesis by simp
qed

lemma keys_purge:
  assumes ok: "store_ok db" and tx: "PurgeTenantWorkflows now order tenantID limit db = (n, db')"
    and D: "vr_ID ` (set (db_versions db) - set (db_versions db')) \<subseteq> D"
  shows "life_move D (wkeys db) (wkeys db')"
proof (rule purge_effect [OF tx])
  fix ids S
  assume rows: "db_versions db' = filter (\<lambda>v. \<not> owned_by db ids v) (db_versions db)"
  have "wkeys db' = drop_owners ids (wkeys db)"
    unfolding wkeys_def rows drop_owners_def filter_map
    by (intro arg_cong [of _ _ "map vkey_of"] filter_cong) (simp_all add: owned_iff [OF ok])
  moreover have "k_ID ` {k \<in> set (wkeys db). k_Owner k \<in> ids} \<subseteq> D"
  proof
    fix i assume "i \<in> k_ID ` {k \<in> set (wkeys db). k_Owner k \<in> ids}"
    then obtain v where v: "v \<in> set (db_versions db)" "vr_WorkflowID v \<in> ids" "i = vr_ID v" by (auto simp: wkeys_def)
    with owned_iff [OF ok v(1)] have "v \<in> set (db_versions db) - set (db_versions db')" by (simp add: rows)
    with v(3) D show "i \<in> D" by blast
  qed
  ultimately show ?thesis using life_move.drop by simp
qed

text \<open>The workflow store keeps the contract of versions.\<close>

definition ws_keys :: "wstate \<Rightarrow> vkey list" where
  "ws_keys s = wkeys (ws_db s)"

definition ws_ok :: "wstate \<Rightarrow> bool" where
  "ws_ok s \<longleftrightarrow> store_ok (ws_db s) \<and> vr_ID ` set (db_versions (ws_db s)) \<subseteq> ws_used s \<and> ws_purged s \<subseteq> ws_used s \<and>
     ws_purged s \<inter> vr_ID ` set (db_versions (ws_db s)) = {}"

lemma ws_ok_facts:
  assumes "ws_ok s"
  shows "store_ok (ws_db s)" and "v \<in> set (db_versions (ws_db s)) \<Longrightarrow> vr_ID v \<in> ws_used s"
    and "ws_purged s \<subseteq> ws_used s" and "v \<in> set (db_versions (ws_db s)) \<Longrightarrow> vr_ID v \<notin> ws_purged s"
  using assms unfolding ws_ok_def by blast+

lemma ws_okI:
  assumes "store_ok (ws_db s)" and "\<And>v. v \<in> set (db_versions (ws_db s)) \<Longrightarrow> vr_ID v \<in> ws_used s \<and> vr_ID v \<notin> ws_purged s"
    and "ws_purged s \<subseteq> ws_used s"
  shows "ws_ok s"
  using assms unfolding ws_ok_def by blast

text \<open>The rows that a purge leaves were there, and it records the others.\<close>

lemma purge_rows:
  assumes "wf_purge s s'"
  obtains now order tenantID limit n where "PurgeTenantWorkflows now order tenantID limit (ws_db s) = (n, ws_db s')"
    and "set (db_versions (ws_db s')) \<subseteq> set (db_versions (ws_db s))" and "ws_used s' = ws_used s"
    and "ws_purged s' = ws_purged s \<union> vr_ID ` (set (db_versions (ws_db s)) - set (db_versions (ws_db s')))"
  using assms
proof cases
  case (purge now order tenantID limit n db')
  then have tx: "PurgeTenantWorkflows now order tenantID limit (ws_db s) = (n, db')" by (simp add: res_simps)
  then have "set (db_versions db') \<subseteq> set (db_versions (ws_db s))" by (rule purge_effect) auto
  with that [OF _ _ _ _] tx purge(1) show thesis by simp
qed

subsection \<open>Rows along a run\<close>

lemma edits_evolve:
  assumes "edits_rows db db'" and "v' \<in> set (db_versions db')"
  shows "\<exists>v \<in> set (db_versions db). evolves v v'"
proof -
  from assms(1) obtain h where h: "db_versions db' = map h (db_versions db)" "\<And>v. evolves v (h v)"
    unfolding edits_rows_def by blast
  from assms(2) obtain v where "v \<in> set (db_versions db)" "v' = h v" unfolding h(1) by auto
  with h(2) [of v] show ?thesis by blast
qed

lemma map_evolve:
  assumes "db_versions db' = map (\<lambda>x. if P x then touch_version now x (f x) else x) (db_versions db)"
    and "\<And>x. P x \<Longrightarrow> evolves x (touch_version now x (f x))" and "v' \<in> set (db_versions db')"
  shows "\<exists>v \<in> set (db_versions db). evolves v v'"
proof -
  from assms(1,3) obtain x where x: "x \<in> set (db_versions db)" "v' = (if P x then touch_version now x (f x) else x)" by auto
  with assms(2) [of x] show ?thesis by (intro bexI [of _ x]) simp_all
qed

lemma evolves_publish: "publish_guard tenantID vid rv x \<Longrightarrow> evolves x (touch_version now x (publish_update now n plan hash refs x))"
  by (rule evolves_touch) (auto simp: publish_guard_def publish_update_def status_order)

lemma evolves_archive: "archive_guard tenantID vid x \<Longrightarrow> evolves x (touch_version now x (archive_update now x))"
  by (rule evolves_touch) (auto simp: archive_guard_def archive_update_def status_order published_content_def)

lemma tx_evolves:
  assumes "wf_tx db db'" and mem: "v' \<in> set (db_versions db')"
  shows "\<exists>v \<in> set (db_versions db). evolves v v'"
  using assms(1)
proof cases
  case update
  then show ?thesis using mem by (auto simp: res_simps dest!: update_effect(1) intro: edits_evolve)
next
  case invalidate
  then show ?thesis using mem by (auto simp: res_simps dest!: invalidate_effect(1) intro: edits_evolve)
next
  case discard
  then show ?thesis using mem by (auto simp: res_simps DeleteDraft_Inr(1))
next
  case (publish now inp n)
  then have "publish_tx now inp db = Inr (n, db')" by (simp add: res_simps)
  then show ?thesis by (rule publish_effect) (rule map_evolve [OF _ evolves_publish mem])
next
  case (promote limits now tenantID wid vid planCode resolved)
  then have "promote_tx limits now tenantID wid vid planCode resolved db = Inr ((), db')" by (simp add: res_simps)
  then have "db_versions db' = db_versions db" by (rule promote_effect) (auto dest: activate_effect(1))
  with mem show ?thesis by auto
next
  case (archive now tenantID wid vid)
  then have "archive_tx now tenantID wid db = Inr (vid, db')" by (simp add: res_simps)
  then show ?thesis by (rule archive_effect) (rule map_evolve [OF _ evolves_archive mem])
qed

definition ws_evolves :: "wstate \<Rightarrow> wstate \<Rightarrow> bool" where
  "ws_evolves s s' \<longleftrightarrow> ws_used s \<subseteq> ws_used s' \<and>
     (\<forall>v' \<in> set (db_versions (ws_db s')). vr_ID v' \<in> ws_used s \<longrightarrow> (\<exists>v \<in> set (db_versions (ws_db s)). evolves v v'))"

lemma ws_evolves_refl: "ws_evolves s s"
  unfolding ws_evolves_def by blast

lemma ws_evolves_trans:
  assumes "ws_evolves s s'" and "ws_evolves s' s''"
  shows "ws_evolves s s''"
  unfolding ws_evolves_def
proof (intro conjI ballI impI)
  show "ws_used s \<subseteq> ws_used s''" using assms by (auto simp: ws_evolves_def)
  fix v'' assume v'': "v'' \<in> set (db_versions (ws_db s''))" "vr_ID v'' \<in> ws_used s"
  with assms obtain v' where v': "v' \<in> set (db_versions (ws_db s'))" "evolves v' v''"
    unfolding ws_evolves_def by blast
  with v''(2) evolves_ids(1) [OF v'(2)] have "vr_ID v' \<in> ws_used s" by simp
  with v'(1) assms(1) obtain v where "v \<in> set (db_versions (ws_db s))" "evolves v v'"
    unfolding ws_evolves_def by blast
  with v'(2) show "\<exists>v \<in> set (db_versions (ws_db s)). evolves v v''" by (blast intro: evolves_trans)
qed

lemma step_evolves:
  assumes "wf_step s s'" and "ws_ok s"
  shows "ws_evolves s s'"
  using assms(1)
proof cases
  case (tx db')
  then show ?thesis using tx_evolves by (auto simp: ws_evolves_def)
next
  case (new vid db')
  from new(2) obtain v where rows: "db_versions db' = db_versions (ws_db s) @ [v]"
    and v: "\<exists>wid. vkey_of v = \<lparr>k_ID = vid, k_Owner = wid, k_Status = VersionStatusDraft, k_Number = None\<rparr>"
    by (rule new_effect) blast
  from v have "vr_ID v = vid" by (auto simp: vkey_of_def)
  with new rows show ?thesis unfolding ws_evolves_def by auto
next
  case purged
  then show ?thesis by (rule purge_rows) (auto simp: ws_evolves_def)
qed

lemma ws_ok_start: "ws_ok ws_start"
  by (simp add: ws_ok_def ws_start_def store_ok_def empty_db_def wptrs_def)

lemma ws_ok_purge:
  assumes "wf_purge s s'" and "ws_ok s" and "life_ok (ws_keys s)"
  shows "ws_ok s'"
  using assms(1)
proof (rule purge_rows)
  fix now order tenantID limit n
  note ok = ws_ok_facts [OF assms(2)]
  assume tx: "PurgeTenantWorkflows now order tenantID limit (ws_db s) = (n, ws_db s')"
    and sub: "set (db_versions (ws_db s')) \<subseteq> set (db_versions (ws_db s))" and used: "ws_used s' = ws_used s"
    and purged: "ws_purged s' = ws_purged s \<union> vr_ID ` (set (db_versions (ws_db s)) - set (db_versions (ws_db s')))"
  show ?thesis
  proof (rule ws_okI)
    show "store_ok (ws_db s')" by (rule store_ok_purge [OF ok(1) tx])
    show "ws_purged s' \<subseteq> ws_used s'" using ok(2,3) by (auto simp: purged used)
    fix v assume v: "v \<in> set (db_versions (ws_db s'))"
    with sub have old: "v \<in> set (db_versions (ws_db s))" by blast
    have "vr_ID v \<notin> vr_ID ` (set (db_versions (ws_db s)) - set (db_versions (ws_db s')))"
      using v version_unique [OF assms(3) [unfolded ws_keys_def] old] by auto
    with ok(2,4) [OF old] show "vr_ID v \<in> ws_used s' \<and> vr_ID v \<notin> ws_purged s'" by (simp add: purged used)
  qed
qed

lemma ws_ok_step:
  assumes "wf_step s s'" and "ws_ok s" and "life_ok (ws_keys s)"
  shows "ws_ok s'"
  using assms(1)
proof cases
  case (tx db')
  note ok = ws_ok_facts [OF assms(2)]
  show ?thesis
  proof (rule ws_okI)
    show "store_ok (ws_db s')" using store_ok_tx [OF tx(2) ok(1)] assms(3) tx(1) by (simp add: ws_keys_def)
    fix v' assume "v' \<in> set (db_versions (ws_db s'))"
    with tx tx_evolves [OF tx(2)] obtain v where "v \<in> set (db_versions (ws_db s))" "evolves v v'" by auto
    with ok(2,4) [of v] tx(1) evolves_ids(1) [of v v'] show "vr_ID v' \<in> ws_used s' \<and> vr_ID v' \<notin> ws_purged s'" by simp
  qed (use ok(3) tx(1) in simp)
next
  case (new vid db')
  note ok = ws_ok_facts [OF assms(2)]
  from new(2) obtain v where v: "db_versions db' = db_versions (ws_db s) @ [v]"
    and "\<exists>wid. vkey_of v = \<lparr>k_ID = vid, k_Owner = wid, k_Status = VersionStatusDraft, k_Number = None\<rparr>"
    by (rule new_effect) blast
  then have "vr_ID v = vid" by (auto simp: vkey_of_def)
  with new v ok store_ok_new [OF ok(1) new(2)] show ?thesis by (intro ws_okI) auto
next
  case purged
  then show ?thesis using assms(2,3) by (rule ws_ok_purge)
qed

lemma ws_purged_step: "wf_step s s' \<Longrightarrow> ws_purged s \<subseteq> ws_purged s'"
  by (erule wf_step_cases) (auto elim: purge_rows)

lemma ws_keys_step:
  assumes "wf_step s s'" and "ws_ok s" and "life_ok (ws_keys s)"
  shows "(life_move (ws_purged s'))\<^sup>*\<^sup>* (ws_keys s) (ws_keys s')"
  using assms(1)
proof cases
  case (tx db')
  then have "life_step\<^sup>*\<^sup>* (ws_keys s) (ws_keys s')" using keys_tx [OF tx(2)] assms by (simp add: ws_keys_def ws_ok_def)
  then show ?thesis by (rule life_steps_moves)
next
  case (new vid db')
  then have "life_step (ws_keys s) (ws_keys s')" using keys_new by (simp add: ws_keys_def)
  then show ?thesis by (intro r_into_rtranclp life_move.step)
next
  case purged
  then have "life_move (ws_purged s') (ws_keys s) (ws_keys s')"
    by (rule purge_rows) (auto simp: ws_keys_def intro: keys_purge [OF ws_ok_facts(1) [OF assms(2)]])
  then show ?thesis by (rule r_into_rtranclp)
qed

interpretation wfs: tracked_store ws_keys ws_ok ws_start wf_step ws_purged
proof
  show "ws_keys ws_start = []" by (simp add: ws_keys_def ws_start_def empty_db_def wkeys_def)
  show "wf_step s s' \<Longrightarrow> ws_ok s \<Longrightarrow> life_ok (ws_keys s) \<Longrightarrow> (life_move UNIV)\<^sup>*\<^sup>* (ws_keys s) (ws_keys s')" for s s'
    by (rule life_moves_mono [OF ws_keys_step]) simp_all
qed (simp_all add: ws_ok_start ws_ok_step ws_keys_step ws_purged_step)

text \<open>The transactions of the services alone, seen on the tables.\<close>

lemma txs_life:
  assumes "wf_tx\<^sup>*\<^sup>* db db'" and "store_ok db" and "life_ok (wkeys db)"
  shows "store_ok db' \<and> life_ok (wkeys db') \<and> life_step\<^sup>*\<^sup>* (wkeys db) (wkeys db')"
  using assms(1)
proof (induction rule: rtranclp_induct)
  case base
  show ?case using assms(2,3) by simp
next
  case (step x y)
  then have "life_step\<^sup>*\<^sup>* (wkeys x) (wkeys y)" "store_ok y"
    using keys_tx [OF step.hyps(2)] store_ok_tx [OF step.hyps(2)] by blast+
  with step.IH life_steps_ok show ?case by (blast intro: rtranclp_trans)
qed

lemma steps_evolve:
  assumes "wf_step\<^sup>*\<^sup>* s s'" and "ws_ok s" and "life_ok (ws_keys s)"
  shows "ws_evolves s s'"
  using assms(1)
proof (induction rule: rtranclp_induct)
  case (step x y)
  with wfs.steps_ok [OF step.hyps(1) assms(2,3)] show ?case using ws_evolves_trans step_evolves by blast
qed (simp add: ws_evolves_refl)

text \<open>A row of a reachable state, seen again later.\<close>

lemma row_again:
  assumes "wf_step\<^sup>*\<^sup>* ws_start s" and "wf_step\<^sup>*\<^sup>* s s'"
    and "v \<in> set (db_versions (ws_db s))" and "v' \<in> set (db_versions (ws_db s'))" and "vr_ID v = vr_ID v'"
  shows "evolves v v'"
proof -
  note ok = wfs.reach_inv [OF assms(1)] wfs.reach_ok [OF assms(1)]
  have "vr_ID v' \<in> ws_used s" using assms(3,5) ok(1) by (auto simp: ws_ok_def)
  with steps_evolve [OF assms(2) ok] assms(4) obtain x where x: "x \<in> set (db_versions (ws_db s))" "evolves x v'"
    unfolding ws_evolves_def by blast
  have "x = v" using version_unique [OF ok(2) [unfolded ws_keys_def] x(1) assms(3)] evolves_ids(1) [OF x(2)] assms(5) by simp
  with x(2) show ?thesis by simp
qed

lemma same_record_version:
  assumes "wf_step\<^sup>*\<^sup>* ws_start s" and "wf_step\<^sup>*\<^sup>* s s'"
    and "v \<in> set (db_versions (ws_db s))" and "v' \<in> set (db_versions (ws_db s'))" and "vr_ID v = vr_ID v'"
    and "vr_RecordVersion v = vr_RecordVersion v'"
  shows "v' = v"
  using row_again [OF assms(1-5)] assms(6) by (auto simp: evolves_def)

end
