(* ===== verification/Workflow_Safety.thy ===== *)
theory Workflow_Safety
  imports Workflow_Steps
begin

text \<open>
  What the runs of the workflow store guarantee: every service method changes the tables by steps of
  \<open>Workflow_Steps\<close>, so its invariants hold whatever the methods do; a draft is only overwritten, and only
  published, by someone who has seen its current row; the errors of a failed statement name its cause;
  the plan's limit on workflows is kept; and a revocation leaves no usable version of the user's.
\<close>

subsection \<open>The services take steps\<close>

lemma new_workflow_ID [simp]: "wf_ID (new_workflow wid tenantID userID key name description) = wid"
  by (simp add: new_workflow_def)

lemma read_Inr [res_simps]:
  "VersionRepo_GetByID tenantID vid db = Inr (v, db') \<longleftrightarrow> db' = db \<and>
     (\<exists>row. find (\<lambda>x. vr_TenantID x = tenantID \<and> vr_ID x = vid) (db_versions db) = Some row \<and> v = workflowVersionFromDB row)"
  "VersionRepo_GetDraft tenantID wid db = Inr (v, db') \<longleftrightarrow> db' = db \<and>
     (\<exists>row. find (\<lambda>x. vr_TenantID x = tenantID \<and> vr_WorkflowID x = wid \<and> vr_Status x = VersionStatusDraft) (db_versions db) = Some row \<and>
       v = workflowVersionFromDB row)"
  by (auto simp: VersionRepo_GetByID_def GetWorkflowVersionByID_def VersionRepo_GetDraft_def GetDraftVersion_def
      split: option.splits)

lemma case_Inr:
  "(case x of Inl e \<Rightarrow> f e | Inr a \<Rightarrow> g a) = Inr r \<longleftrightarrow> (\<exists>e. x = Inl e \<and> f e = Inr r) \<or> (\<exists>a. x = Inr a \<and> g a = Inr r)"
  by (simp split: sum.split)

lemma case_act_Inr:
  "(case x of Inl e \<Rightarrow> f e | Inr a \<Rightarrow> g a) s = Inr r \<longleftrightarrow> (\<exists>e. x = Inl e \<and> f e s = Inr r) \<or> (\<exists>a. x = Inr a \<and> g a s = Inr r)"
  "(if P then m else m') s = Inr r \<longleftrightarrow> (P \<and> m s = Inr r) \<or> (\<not> P \<and> m' s = Inr r)"
  by (simp_all split: sum.split)

lemma Create_step:
  "WorkflowService_Create compiler limits now wfID vID tenantID userID key name description xml planCode db = Inr (r, db') \<Longrightarrow>
     wf_new vID db db'"
  by (auto simp: WorkflowService_Create_def Let_def res_simps
      intro: wf_new.create [unfolded res_simps] split: option.splits if_splits)

lemma Clone_step:
  "VersionService_Clone limits now wfID vID tenantID userID wid vid planCode key name description db = Inr (r, db') \<Longrightarrow>
     wf_new vID db db'"
  by (auto simp: VersionService_Clone_def Let_def res_simps
      intro: wf_new.create [unfolded res_simps] split: option.splits if_splits)

lemma Init_step: "DraftService_Init now vID tenantID userID wid db = Inr (r, db') \<Longrightarrow> wf_new vID db db'"
  by (auto simp: DraftService_Init_def Let_def res_simps GetByID_Inr
      intro: wf_new.init [unfolded res_simps] split: option.splits if_splits)

lemma Archive_step: "WorkflowService_Archive execution now tenantID wid db = Inr (r, db') \<Longrightarrow> wf_tx db db'"
  by (auto simp: WorkflowService_Archive_def res_simps GetByID_Inr
      intro: wf_tx.archive [unfolded res_simps] split: option.splits if_splits)

lemma Promote_step:
  "VersionService_Promote limits now tenantID wid vid planCode db = Inr (r, db') \<Longrightarrow> db' = db \<or> wf_tx db db'"
  by (auto simp: VersionService_Promote_def res_simps GetByID_Inr
      intro: wf_tx.promote [unfolded res_simps] split: option.splits if_splits)

lemma Discard_step: "DraftService_Discard now tenantID wid db = Inr (r, db') \<Longrightarrow> wf_tx db db'"
  by (auto simp: DraftService_Discard_def res_simps intro: wf_tx.discard [unfolded res_simps])

lemma Update_step: "DraftService_Update setNX now tenantID wid req db = Inr (r, db') \<Longrightarrow> wf_tx db db'"
  by (auto simp: DraftService_Update_def res_simps case_Inr intro: wf_tx.update [unfolded res_simps]
      split: if_splits)

text \<open>The checks before a publish transaction read only.\<close>

lemma checkStructuralDivergence_reads: "checkStructuralDivergence env tenantID w plan force db = Inr (u, db') \<Longrightarrow> db' = db"
  by (auto simp: checkStructuralDivergence_def res_simps case_act_Inr split: option.splits)

lemma publishPreFlight_reads:
  assumes "publishPreFlight env tenantID wid vid force db = Inr ((draft, prep), db')"
  shows "db' = db"
    and "\<exists>row. find (\<lambda>x. vr_TenantID x = tenantID \<and> vr_ID x = vid) (db_versions db) = Some row \<and> draft = workflowVersionFromDB row \<and>
      vr_Status row = VersionStatusDraft \<and> vr_WorkflowID row = wid"
    and "\<exists>res collab plan. pe_resolve env tenantID (wv_BPMNXML draft) = Inr res \<and> rs_issues res = [] \<and>
      compileForPublish env (rs_bundled res) = Inr (collab, plan) \<and> pe_hash env (rs_bundled res) = Inr (pp_artifactHash prep) \<and>
      pe_marshal env collab = Inr (pp_compiledJSON prep) \<and> pp_moduleRefs prep = rs_refs res"
  using assms
  by (auto simp: publishPreFlight_def res_simps GetByID_Inr
      split: option.splits if_splits dest!: checkStructuralDivergence_reads)

lemma Publish_step: "VersionService_Publish env now tenantID wid vid force db = Inr (r, db') \<Longrightarrow> wf_tx db db'"
  by (auto simp: VersionService_Publish_def res_simps
      intro: wf_tx.publish [unfolded res_simps] dest!: publishPreFlight_reads(1))

lemma invalidateVersion_step:
  "invalidateVersion now tenantID vid nodeKeys db = Inr (evicts, db') \<Longrightarrow> db' = db \<or> wf_tx db db'"
  by (auto simp: invalidateVersion_def res_simps case_Inr intro: wf_tx.invalidate [unfolded res_simps]
      split: if_splits)

lemma invalidate_loop_steps:
  "invalidate_loop evict now tenantID vs failed db = (r, db') \<Longrightarrow> wf_tx\<^sup>*\<^sup>* db db'"
proof (induction evict now tenantID vs failed db rule: invalidate_loop.induct)
  case (2 evict now tenantID vid nodeKeys rest failed db)
  show ?case
  proof (cases "invalidateVersion now tenantID vid nodeKeys db")
    case (Inr p)
    obtain evicts db1 where p: "p = (evicts, db1)" by (cases p)
    with 2 Inr have "wf_tx\<^sup>*\<^sup>* db1 db'" by simp
    with invalidateVersion_step Inr p show ?thesis by (metis converse_rtranclp_into_rtranclp)
  qed (use "2.prems" in simp)
qed simp

lemma Revoked_steps:
  "HandleTenantMembershipRevoked order evict pause now tenantID userID occurredAt db = (r, db') \<Longrightarrow> wf_tx\<^sup>*\<^sup>* db db'"
  "HandleDepartmentMembershipRevoked parse order evict pause now tenantID userID dept occurredAt db = (r, db') \<Longrightarrow> wf_tx\<^sup>*\<^sup>* db db'"
  by (auto simp: HandleTenantMembershipRevoked_def HandleDepartmentMembershipRevoked_def invalidateAssigneeVersions_def
      split: prod.splits sum.splits option.splits dest: invalidate_loop_steps)

subsection \<open>Writers see what they replace\<close>

text \<open>The row a statement with a record version finds is the one that was read at that version.\<close>

lemma guarded_row_is_read:
  assumes "wf_step\<^sup>*\<^sup>* ws_start s" and "wf_step\<^sup>*\<^sup>* s s1" and "v \<in> set (db_versions (ws_db s))"
    and "x \<in> set (db_versions (ws_db s1))" and "vr_ID x = vr_ID v" and "vr_RecordVersion x = vr_RecordVersion v"
  shows "x = v"
  by (rule same_record_version [OF assms(1-4)]) (simp_all add: assms(5,6))

lemma publish_commits:
  assumes tx: "publish_tx now inp db = Inr (n, db')" and ok: "life_ok (wkeys db)"
    and v: "v \<in> set (db_versions db)" "publish_guard (pi_tenantID inp) (pi_versionID inp) (pi_recordVersion inp) v"
  shows "touch_version now v (publish_update now n (pi_compiledJSON inp) (toNullableText (pi_artifactHash inp)) (pi_moduleRefs inp) v)
     \<in> set (db_versions db')"
  using tx by (rule publish_effect) (use v in force)

lemma update_commits:
  assumes "runUpdateTx now tenantID wid draft req db = Inr (r, db')"
  shows "db_versions db' = map (\<lambda>x. if draft_guard (version_params draft) x
      then touch_version now x (draft_update (version_params draft) x) else x) (db_versions db)"
    and "\<exists>x \<in> set (db_versions db). draft_guard (version_params draft) x"
    and "\<exists>x \<in> set (db_versions db'). vr_ID x = wv_ID draft \<and> vr_RecordVersion x = wv_RecordVersion r"
proof -
  from assms obtain db1 where meta: "db_versions db1 = db_versions db"
    and upd: "VersionRepo_UpdateDraft now draft db1 = Inr (r, db')"
    by (auto simp: runUpdateTx_def Let_def res_simps split: if_splits dest: updateWorkflowMeta_Inr)
  then obtain n where u: "UpdateDraftVersion now (version_params draft) db1 = Inr (n, db')" and r: "r = draft\<lparr>wv_RecordVersion := n\<rparr>"
    by (auto simp: VersionRepo_UpdateDraft_def split: sum.splits sql_error.splits)
  note eff = UpdateDraftVersion_Inr [OF u]
  show "db_versions db' = map (\<lambda>x. if draft_guard (version_params draft) x
      then touch_version now x (draft_update (version_params draft) x) else x) (db_versions db)"
    and "\<exists>x \<in> set (db_versions db). draft_guard (version_params draft) x"
    using eff(1,3) meta by simp_all
  show "\<exists>x \<in> set (db_versions db'). vr_ID x = wv_ID draft \<and> vr_RecordVersion x = wv_RecordVersion r"
    using eff(4) by (auto simp: r version_params_def)
qed

subsection \<open>Why a statement failed\<close>

lemma unique_find:
  assumes ok: "life_ok (wkeys db)" and x: "x \<in> set (db_versions db)" "vr_TenantID x = t" "vr_ID x = i"
  shows "find (\<lambda>v. vr_TenantID v = t \<and> vr_ID v = i) (db_versions db) = Some x"
proof (cases "find (\<lambda>v. vr_TenantID v = t \<and> vr_ID v = i) (db_versions db)")
  case None
  with x show ?thesis by (auto simp: find_None_iff)
next
  case (Some y)
  from find_SomeD [OF Some] version_unique [OF ok, of y x] x have "y = x" by auto
  with Some show ?thesis by simp
qed

lemma draft_guard_row:
  assumes "life_ok (wkeys db)"
  shows "(\<exists>x \<in> set (db_versions db). draft_guard v x) \<longleftrightarrow>
    (\<exists>x. find (\<lambda>x. vr_TenantID x = vr_TenantID v \<and> vr_ID x = vr_ID v) (db_versions db) = Some x \<and>
      vr_Status x = VersionStatusDraft \<and> vr_RecordVersion x = vr_RecordVersion v)"
proof
  assume "\<exists>x \<in> set (db_versions db). draft_guard v x"
  then obtain x where "x \<in> set (db_versions db)" "draft_guard v x" by blast
  with unique_find [OF assms, of x] show "\<exists>x. find (\<lambda>x. vr_TenantID x = vr_TenantID v \<and> vr_ID x = vr_ID v) (db_versions db) = Some x \<and>
      vr_Status x = VersionStatusDraft \<and> vr_RecordVersion x = vr_RecordVersion v"
    by (auto simp: draft_guard_def)
qed (auto simp: draft_guard_def dest!: find_SomeD)

lemma UpdateDraftVersion_ok:
  assumes "x \<in> set (db_versions db)" and "draft_guard v x"
  shows "\<exists>n db'. UpdateDraftVersion now v db = Inr (n, db')"
proof -
  let ?rows = "map (\<lambda>x. if draft_guard v x then touch_version now x (draft_update v x) else x) (db_versions db)"
  have "\<exists>y \<in> set ?rows. vr_ID y = vr_ID v"
    by (rule bexI [of _ "touch_version now x (draft_update v x)"]) (use assms in \<open>auto simp: draft_guard_def draft_update_def\<close>)
  then obtain y where "find (\<lambda>y. vr_ID y = vr_ID v) ?rows = Some y"
    by (cases "find (\<lambda>y. vr_ID y = vr_ID v) ?rows") (auto simp: find_None_iff)
  moreover have "filter (draft_guard v) (db_versions db) \<noteq> []" using assms by (auto simp: filter_empty_conv)
  ultimately show ?thesis
    unfolding UpdateDraftVersion_def update_versions_def Let_def draft_guard_def [symmetric] draft_update_def [symmetric]
    by simp
qed

lemma UpdateDraft_outcome:
  assumes ok: "life_ok (wkeys db)"
  shows "VersionRepo_UpdateDraft now d db = Inl e \<longleftrightarrow>
    (case find (\<lambda>x. vr_TenantID x = wv_TenantID d \<and> vr_ID x = wv_ID d) (db_versions db) of
       None \<Rightarrow> e = ErrNotFound
     | Some row \<Rightarrow> if vr_Status row \<noteq> VersionStatusDraft then e = ErrVersionNotDraft
         else vr_RecordVersion row \<noteq> wv_RecordVersion d \<and> e = ErrDraftConcurrency)"
proof (cases "\<exists>x \<in> set (db_versions db). draft_guard (version_params d) x")
  case True
  then obtain n db' where "UpdateDraftVersion now (version_params d) db = Inr (n, db')" using UpdateDraftVersion_ok by blast
  then have "\<exists>r. VersionRepo_UpdateDraft now d db = Inr r" by (simp add: VersionRepo_UpdateDraft_def)
  with True [unfolded draft_guard_row [OF ok]] show ?thesis by (auto simp: version_params_def)
next
  case False
  have "UpdateDraftVersion now (version_params d) db = Inl NoRows"
  proof (cases "UpdateDraftVersion now (version_params d) db")
    case (Inr p)
    with UpdateDraftVersion_Inr(3) [of now "version_params d" db "fst p" "snd p"] False show ?thesis by simp
  qed (auto simp: UpdateDraftVersion_def Let_def split: prod.splits option.splits if_splits)
  with False [unfolded draft_guard_row [OF ok]] show ?thesis
    by (auto simp: VersionRepo_UpdateDraft_def statusOrNotFoundOrConcurrency_def GetWorkflowVersionByID_def version_params_def
        split: option.splits)
qed

lemma publish_guard_row:
  assumes "life_ok (wkeys db)"
  shows "(\<exists>x \<in> set (db_versions db). publish_guard tenantID vid rv x) \<longleftrightarrow>
    (\<exists>x. find (\<lambda>x. vr_TenantID x = tenantID \<and> vr_ID x = vid) (db_versions db) = Some x \<and>
      vr_Status x = VersionStatusDraft \<and> vr_RecordVersion x = rv)"
proof
  assume "\<exists>x \<in> set (db_versions db). publish_guard tenantID vid rv x"
  then obtain x where "x \<in> set (db_versions db)" "publish_guard tenantID vid rv x" by blast
  with unique_find [OF assms, of x] show "\<exists>x. find (\<lambda>x. vr_TenantID x = tenantID \<and> vr_ID x = vid) (db_versions db) = Some x \<and>
      vr_Status x = VersionStatusDraft \<and> vr_RecordVersion x = rv"
    by (auto simp: publish_guard_def)
qed (auto simp: publish_guard_def dest!: find_SomeD)

lemma next_number_free:
  assumes ok: "store_ok db" "life_ok (wkeys db)" and x: "x \<in> set (db_versions db)" and y: "y \<in> set (db_versions db)"
    and "vr_WorkflowID y = vr_WorkflowID x"
  shows "vr_VersionNumber y \<noteq> Some (Suc (max_number (vr_TenantID x) (vr_WorkflowID x) db))"
proof
  assume n: "vr_VersionNumber y = Some (Suc (max_number (vr_TenantID x) (vr_WorkflowID x) db))"
  then have "Suc (max_number (vr_TenantID x) (vr_WorkflowID x) db) \<in> insert 0 (numbers (vr_WorkflowID x) (wkeys db))"
    using y assms(5) by (auto simp: numbers_def wkeys_def)
  from Max_ge [OF _ this] have "Suc (max_number (vr_TenantID x) (vr_WorkflowID x) db) \<le> max_number (vr_TenantID x) (vr_WorkflowID x) db"
    unfolding next_number [OF ok x] by (simp add: finite_numbers)
  then show False by simp
qed

text \<open>The statement that publishes fails for one of three reasons, and says which.\<close>

lemma Publish_outcome:
  assumes ok: "store_ok db" "life_ok (wkeys db)"
    and n: "\<And>x. x \<in> set (db_versions db) \<Longrightarrow> vr_ID x = vid \<Longrightarrow> n = Suc (max_number (vr_TenantID x) (vr_WorkflowID x) db)"
  shows "VersionRepo_Publish now tenantID vid rv n plan hash refs db = Inl e \<longleftrightarrow>
    (case find (\<lambda>x. vr_TenantID x = tenantID \<and> vr_ID x = vid) (db_versions db) of
       None \<Rightarrow> e = ErrNotFound
     | Some row \<Rightarrow> if vr_Status row \<noteq> VersionStatusDraft then e = ErrVersionNotDraft
         else vr_RecordVersion row \<noteq> rv \<and> e = ErrDraftConcurrency)"
proof -
  have free: "\<not> (\<exists>x \<in> set (db_versions db). publish_guard tenantID vid rv x \<and>
      (\<exists>y \<in> set (db_versions db). vr_ID y \<noteq> vid \<and> vr_WorkflowID y = vr_WorkflowID x \<and> vr_VersionNumber y = Some n))"
  proof safe
    fix x y assume "x \<in> set (db_versions db)" "publish_guard tenantID vid rv x" "y \<in> set (db_versions db)"
      "vr_WorkflowID y = vr_WorkflowID x" "vr_VersionNumber y = Some n"
    with n [of x] next_number_free [OF ok, of x y] show False by (simp add: publish_guard_def)
  qed
  have "VersionRepo_Publish now tenantID vid rv n plan hash refs db = Inl e \<longleftrightarrow>
      \<not> (\<exists>x \<in> set (db_versions db). publish_guard tenantID vid rv x) \<and> e = statusOrNotFoundOrConcurrency tenantID vid db"
    unfolding VersionRepo_Publish_def PublishVersion_def Let_def publish_guard_def [symmetric]
    using free by (auto simp: update_versions_def filter_empty_conv)
  also have "\<dots> \<longleftrightarrow> (case find (\<lambda>x. vr_TenantID x = tenantID \<and> vr_ID x = vid) (db_versions db) of
       None \<Rightarrow> e = ErrNotFound
     | Some row \<Rightarrow> if vr_Status row \<noteq> VersionStatusDraft then e = ErrVersionNotDraft
         else vr_RecordVersion row \<noteq> rv \<and> e = ErrDraftConcurrency)"
    unfolding publish_guard_row [OF ok(2)]
    by (auto simp: statusOrNotFoundOrConcurrency_def GetWorkflowVersionByID_def split: option.splits)
  finally show ?thesis .
qed

subsection \<open>The limit on workflows\<close>

text \<open>A workflow counts when it has an active version or a draft.\<close>

definition counted :: "db \<Rightarrow> uuid \<Rightarrow> workflow_row \<Rightarrow> bool" where
  "counted db tenantID w \<longleftrightarrow> wr_TenantID w = tenantID \<and>
     (wr_ActiveVersionID w \<noteq> None \<or> (\<exists>v \<in> set (db_versions db). vr_WorkflowID v = wr_ID w \<and> vr_Status v = VersionStatusDraft))"

lemma Count_counted: "CountWorkflowsByTenant tenantID db = length (filter (counted db tenantID) (db_workflows db))"
  by (simp add: CountWorkflowsByTenant_def counted_def [abs_def])

lemma quota_Inr:
  "enforceWorkflowQuota tenantID limit db = Inr (u, db') \<longleftrightarrow>
     db' = db \<and> (\<forall>l. limit = Some l \<longrightarrow> int (CountWorkflowsByTenant tenantID db) < l)"
  by (auto simp: enforceWorkflowQuota_def WorkflowRepo_CountByTenant_def res_simps case_act_Inr split: option.splits)

lemma create_count:
  assumes "create_tx now tenantID limit (new_workflow wid tenantID userID key name description)
      (new_draft vid wid tenantID userID xml) db = Inr (u, db')"
  shows "CountWorkflowsByTenant tenantID db' = Suc (CountWorkflowsByTenant tenantID db)"
    and "\<forall>l. limit = Some l \<longrightarrow> int (CountWorkflowsByTenant tenantID db') \<le> l"
proof -
  from assms obtain db1 u where q: "\<forall>l. limit = Some l \<longrightarrow> int (CountWorkflowsByTenant tenantID db) < l"
    and w: "WorkflowRepo_Create now (new_workflow wid tenantID userID key name description) db = Inr ((), db1)"
    and v: "VersionRepo_Create now (new_draft vid wid tenantID userID xml) db1 = Inr (u, db')"
    by (auto simp: create_tx_def res_simps quota_Inr)
  from w obtain r where r: "db_workflows db1 = db_workflows db @ [r]" "wr_ID r = wid" "wr_TenantID r = tenantID"
      "\<forall>x \<in> set (db_workflows db). wr_ID x \<noteq> wid" and db1: "db_versions db1 = db_versions db"
    by (auto simp: WorkflowRepo_Create_def of_sql_Inr CreateWorkflow_def new_workflow_def split: if_splits)
  from v obtain x where x: "db_versions db' = db_versions db @ [x]" "vkey_of x = \<lparr>k_ID = vid, k_Owner = wid, k_Status = VersionStatusDraft, k_Number = None\<rparr>"
    and same: "db_workflows db' = db_workflows db1"
    by (rule CreateWorkflowVersion_Inr) (use db1 in auto)
  from x(2) have k: "vr_WorkflowID x = wid" "vr_Status x = VersionStatusDraft" by (auto simp: vkey_of_def)
  have "filter (counted db' tenantID) (db_workflows db) = filter (counted db tenantID) (db_workflows db)"
    by (rule filter_cong) (use r(4) k in \<open>auto simp: counted_def x(1)\<close>)
  moreover have "counted db' tenantID r" using r k by (simp add: counted_def x(1))
  ultimately show count: "CountWorkflowsByTenant tenantID db' = Suc (CountWorkflowsByTenant tenantID db)"
    by (simp add: Count_counted same r(1))
  show "\<forall>l. limit = Some l \<longrightarrow> int (CountWorkflowsByTenant tenantID db') \<le> l"
    using q by (auto simp: count)
qed

subsection \<open>Revocation\<close>

text \<open>A version is out of use when it is archived or marked invalid: it can be neither activated nor promoted.\<close>

definition out_of_use :: "uuid \<Rightarrow> uuid \<Rightarrow> db \<Rightarrow> bool" where
  "out_of_use tenantID vid db \<longleftrightarrow> (\<forall>v \<in> set (db_versions db). vr_ID v = vid \<longrightarrow> vr_TenantID v = tenantID \<longrightarrow>
     vr_Status v = VersionStatusArchived \<or> \<not> vr_IsValid v)"

lemma SetInvalid_rows:
  assumes "VersionRepo_SetInvalid now tenantID vid errs db = Inr (u, db')"
  shows "\<exists>h. db_versions db' = map h (db_versions db) \<and> (\<forall>v. vkey_of (h v) = vkey_of v \<and> vr_TenantID (h v) = vr_TenantID v \<and>
    (vr_IsValid (h v) \<longrightarrow> vr_IsValid v) \<and> (vr_ID v = vid \<longrightarrow> vr_TenantID v = tenantID \<longrightarrow> \<not> vr_IsValid (h v)))"
proof -
  from assms have db': "db' = snd (SetVersionInvalid now tenantID vid errs db)"
    by (simp add: VersionRepo_SetInvalid_def of_count_Inr)
  show ?thesis unfolding db' SetVersionInvalid_def update_versions_simps by (intro exI conjI) (rule refl, simp add: vkey_of_def)
qed

lemma out_of_use_map:
  assumes "out_of_use tenantID vid db" and "db_versions db' = map h (db_versions db)"
    and "\<And>v. vkey_of (h v) = vkey_of v \<and> vr_TenantID (h v) = vr_TenantID v \<and> (vr_IsValid (h v) \<longrightarrow> vr_IsValid v)"
  shows "out_of_use tenantID vid db'"
proof -
  have "vr_ID (h v) = vr_ID v \<and> vr_Status (h v) = vr_Status v" for v
    using assms(3) [of v] by (simp add: vkey_of_def)
  with assms show ?thesis by (auto simp: out_of_use_def)
qed

lemma invalidateVersion_out:
  assumes ok: "life_ok (wkeys db)" and inv: "invalidateVersion now tenantID vid nodeKeys db = Inr (evicts, db')"
  shows "out_of_use tenantID vid db'" and "life_ok (wkeys db')" and "out_of_use tenantID i db \<Longrightarrow> out_of_use tenantID i db'"
proof -
  consider (same) "db' = db" "\<And>v. find (\<lambda>x. vr_TenantID x = tenantID \<and> vr_ID x = vid) (db_versions db) = Some v \<Longrightarrow>
      vr_Status v = VersionStatusArchived"
    | (set) errs where "VersionRepo_SetInvalid now tenantID vid errs db = Inr ((), db')"
    using inv
    by (auto simp: invalidateVersion_def VersionRepo_GetByID_def GetWorkflowVersionByID_def res_simps split: option.splits if_splits)
  then have "out_of_use tenantID vid db' \<and> life_ok (wkeys db') \<and> (out_of_use tenantID i db \<longrightarrow> out_of_use tenantID i db')"
  proof cases
    case same
    then show ?thesis using ok unique_find [OF ok] by (auto simp: out_of_use_def)
  next
    case set
    then obtain h where rows: "db_versions db' = map h (db_versions db)"
      and h: "\<And>v. vkey_of (h v) = vkey_of v \<and> vr_TenantID (h v) = vr_TenantID v \<and> (vr_IsValid (h v) \<longrightarrow> vr_IsValid v)"
      and gone: "\<And>v. vr_ID v = vid \<Longrightarrow> vr_TenantID v = tenantID \<Longrightarrow> \<not> vr_IsValid (h v)"
      using SetInvalid_rows by blast
    have "wkeys db' = wkeys db" by (rule wkeys_same [OF rows]) (simp add: h)
    moreover have "vr_ID (h v) = vr_ID v" for v using h [of v] by (simp add: vkey_of_def)
    then have "out_of_use tenantID vid db'" using gone h by (auto simp: out_of_use_def rows)
    ultimately show ?thesis using ok out_of_use_map [OF _ rows h] by simp
  qed
  then show "out_of_use tenantID vid db'" and "life_ok (wkeys db')" and "out_of_use tenantID i db \<Longrightarrow> out_of_use tenantID i db'"
    by simp_all
qed

lemma invalidate_loop_out:
  assumes "invalidate_loop evict now tenantID vs failed db = (Inr failed', db')" and "life_ok (wkeys db)"
    and "i \<in> fst ` set vs \<or> out_of_use tenantID i db"
  shows "out_of_use tenantID i db'"
  using assms
proof (induction evict now tenantID vs failed db rule: invalidate_loop.induct)
  case (2 evict now tenantID vid nodeKeys rest failed db)
  from "2.prems"(1) obtain evicts db1 where inv: "invalidateVersion now tenantID vid nodeKeys db = Inr (evicts, db1)"
    and rest: "invalidate_loop evict now tenantID rest (if evicts \<and> \<not> evict vid then failed @ [vid] else failed) db1 = (Inr failed', db')"
    by (auto split: sum.splits)
  note out = invalidateVersion_out [OF "2.prems"(2) inv]
  show ?case by (rule "2.IH" [OF inv refl rest]) (use out "2.prems"(3) in auto)
qed simp

lemma mappend_keys_fold:
  "fst ` set (fold (\<lambda>a m. if P a then m else if Q a then m else mappend (f a) (g a) m) as m) =
     fst ` set m \<union> f ` {a \<in> set as. \<not> P a \<and> \<not> Q a}"
  by (induction as arbitrary: m) auto

lemma revoked_nodes_keys:
  "fst ` set (revoked_nodes as dept occurredAt) =
     na_WorkflowVersionID ` {a \<in> set as. (dept = None \<or> dept = Some (na_DepartmentID a)) \<and> (occurredAt = 0 \<or> na_CreatedAt a \<le> occurredAt)}"
  unfolding revoked_nodes_def mappend_keys_fold by auto

lemma revoked_out:
  assumes "invalidateAssigneeVersions order evict pause now tenantID occurredAt as dept db = (Inr failed, db')"
    and "life_ok (wkeys db)" and "\<And>m. set (order m) = set m"
    and "a \<in> set as" and "dept = None \<or> dept = Some (na_DepartmentID a)" and "occurredAt = 0 \<or> na_CreatedAt a \<le> occurredAt"
  shows "out_of_use tenantID (na_WorkflowVersionID a) db'"
proof -
  from assms(1) have loop: "invalidate_loop evict now tenantID (order (revoked_nodes as dept occurredAt)) [] db = (Inr failed, db')"
    by (auto simp: invalidateAssigneeVersions_def split: prod.splits sum.splits option.splits)
  have "na_WorkflowVersionID a \<in> fst ` set (order (revoked_nodes as dept occurredAt))"
    unfolding assms(3) revoked_nodes_keys using assms(4-6) by blast
  then show ?thesis using invalidate_loop_out [OF loop assms(2)] by blast
qed

text \<open>A version out of use stays so along a run once it is published.\<close>

lemma out_of_use_inactive:
  assumes "out_of_use tenantID vid db"
  shows "WorkflowRepo_UpdateActiveVersion now tenantID wid (Some vid) db \<noteq> Inr r"
proof
  assume eq: "WorkflowRepo_UpdateActiveVersion now tenantID wid (Some vid) db = Inr r"
  obtain u db' where r: "r = (u, db')" by (cases r)
  from eq [unfolded r UpdateActiveVersion_Inr] obtain w where "wr_TenantID w = tenantID" "may_activate db w (Some vid)" by blast
  with assms show False by (auto simp: may_activate_def out_of_use_def)
qed

end
