(* ===== verification/Module_Store.thy ===== *)
theory Module_Store
  imports Workflow_Repo
begin

text \<open>
  The module tables: the rows of \<open>workflow_module\<close> and \<open>workflow_module_version\<close>, the queries of
  \<open>db/queries/workflow_module.sql\<close> and \<open>workflow_module_version.sql\<close>, and the repositories
  \<open>module_repo.go\<close> and \<open>module_version_repo.go\<close>.  A module is global, with no tenant, or a tenant's own;
  a caller sees the global ones and its own.
\<close>

subsection \<open>Data\<close>

record module_row =
  mo_ID :: uuid
  mo_TenantID :: "uuid option"
  mo_Scope :: CatalogScope
  mo_Name :: string
  mo_Description :: "string option"
  mo_ProcessID :: string
  mo_ActiveVersionID :: "uuid option"
  mo_CreatedByUserID :: "uuid option"
  mo_RecordVersion :: nat
  mo_CreatedAt :: time
  mo_UpdatedAt :: time

record mversion_row =
  mv_ID :: uuid
  mv_ModuleID :: uuid
  mv_TenantID :: "uuid option"
  mv_Scope :: CatalogScope
  mv_Status :: VersionStatus
  mv_BpmnXml :: string
  mv_ProcessID :: string
  mv_VersionNumber :: "nat option"
  mv_IsValid :: bool
  mv_ValidationErrorsJson :: "string option"
  mv_PublishedAt :: "time option"
  mv_CreatedByUserID :: "uuid option"
  mv_RecordVersion :: nat
  mv_CreatedAt :: time
  mv_UpdatedAt :: time

record Module =
  md_ID :: uuid
  md_TenantID :: "uuid option"
  md_Scope :: CatalogScope
  md_Name :: string
  md_Description :: string
  md_ProcessID :: string
  md_ActiveVersionID :: "uuid option"
  md_CreatedByUserID :: "uuid option"
  md_RecordVersion :: nat
  md_CreatedAt :: time
  md_UpdatedAt :: time

record ModuleVersion =
  mdv_ID :: uuid
  mdv_ModuleID :: uuid
  mdv_TenantID :: "uuid option"
  mdv_Scope :: CatalogScope
  mdv_Status :: VersionStatus
  mdv_BPMNXML :: string
  mdv_ProcessID :: string
  mdv_VersionNumber :: "nat option"
  mdv_IsValid :: bool
  mdv_ValidationErrorsJSON :: "string option"
  mdv_PublishedAt :: "time option"
  mdv_CreatedByUserID :: "uuid option"
  mdv_RecordVersion :: nat
  mdv_CreatedAt :: time
  mdv_UpdatedAt :: time

definition moduleFromDB :: "module_row \<Rightarrow> Module" where
  "moduleFromDB row = \<lparr>md_ID = mo_ID row, md_TenantID = mo_TenantID row, md_Scope = mo_Scope row, md_Name = mo_Name row,
     md_Description = fromPgtypeText (mo_Description row), md_ProcessID = mo_ProcessID row,
     md_ActiveVersionID = mo_ActiveVersionID row, md_CreatedByUserID = mo_CreatedByUserID row,
     md_RecordVersion = mo_RecordVersion row, md_CreatedAt = mo_CreatedAt row, md_UpdatedAt = mo_UpdatedAt row\<rparr>"

definition moduleVersionFromDB :: "mversion_row \<Rightarrow> ModuleVersion" where
  "moduleVersionFromDB row = \<lparr>mdv_ID = mv_ID row, mdv_ModuleID = mv_ModuleID row, mdv_TenantID = mv_TenantID row,
     mdv_Scope = mv_Scope row, mdv_Status = mv_Status row, mdv_BPMNXML = mv_BpmnXml row, mdv_ProcessID = mv_ProcessID row,
     mdv_VersionNumber = mv_VersionNumber row, mdv_IsValid = mv_IsValid row,
     mdv_ValidationErrorsJSON = fromJSONB (mv_ValidationErrorsJson row), mdv_PublishedAt = mv_PublishedAt row,
     mdv_CreatedByUserID = mv_CreatedByUserID row, mdv_RecordVersion = mv_RecordVersion row,
     mdv_CreatedAt = mv_CreatedAt row, mdv_UpdatedAt = mv_UpdatedAt row\<rparr>"

lemma moduleFromDB_simps [simp]:
  "md_ID (moduleFromDB r) = mo_ID r" "md_TenantID (moduleFromDB r) = mo_TenantID r" "md_Scope (moduleFromDB r) = mo_Scope r"
  "md_ProcessID (moduleFromDB r) = mo_ProcessID r" "md_ActiveVersionID (moduleFromDB r) = mo_ActiveVersionID r"
  by (simp_all add: moduleFromDB_def)

lemma moduleVersionFromDB_simps [simp]:
  "mdv_ID (moduleVersionFromDB r) = mv_ID r" "mdv_ModuleID (moduleVersionFromDB r) = mv_ModuleID r"
  "mdv_Scope (moduleVersionFromDB r) = mv_Scope r" "mdv_Status (moduleVersionFromDB r) = mv_Status r"
  "mdv_BPMNXML (moduleVersionFromDB r) = mv_BpmnXml r" "mdv_ProcessID (moduleVersionFromDB r) = mv_ProcessID r"
  "mdv_VersionNumber (moduleVersionFromDB r) = mv_VersionNumber r"
  by (simp_all add: moduleVersionFromDB_def)

record mdb =
  mdb_modules :: "module_row list"
  mdb_versions :: "mversion_row list"

definition empty_mdb :: mdb where
  "empty_mdb = \<lparr>mdb_modules = [], mdb_versions = []\<rparr>"

type_synonym 'a mrepo = "(mdb, 'a) action"

definition touch_module :: "time \<Rightarrow> module_row \<Rightarrow> module_row \<Rightarrow> module_row" where
  "touch_module now old new =
     (if new = old then old else new\<lparr>mo_UpdatedAt := now, mo_RecordVersion := Suc (mo_RecordVersion old)\<rparr>)"

definition touch_mversion :: "time \<Rightarrow> mversion_row \<Rightarrow> mversion_row \<Rightarrow> mversion_row" where
  "touch_mversion now old new =
     (if new = old then old else new\<lparr>mv_UpdatedAt := now, mv_RecordVersion := Suc (mv_RecordVersion old)\<rparr>)"

definition update_mversions :: "time \<Rightarrow> (mversion_row \<Rightarrow> bool) \<Rightarrow> (mversion_row \<Rightarrow> mversion_row) \<Rightarrow> mdb \<Rightarrow> nat \<times> mdb" where
  "update_mversions now P f db =
     (length (filter P (mdb_versions db)),
      db\<lparr>mdb_versions := map (\<lambda>v. if P v then touch_mversion now v (f v) else v) (mdb_versions db)\<rparr>)"

subsection \<open>workflow_module.sql\<close>

text \<open>The check \<open>chk_module_scope_tenant\<close>.\<close>

definition scope_tenant_ok :: "CatalogScope \<Rightarrow> uuid option \<Rightarrow> bool" where
  "scope_tenant_ok scope tenantID \<longleftrightarrow> (scope = ScopeGlobal \<longleftrightarrow> tenantID = None)"

text \<open>A row is the caller's to see.\<close>

definition visible :: "uuid \<Rightarrow> CatalogScope \<Rightarrow> uuid option \<Rightarrow> bool" where
  "visible callerTenantID scope tenantID \<longleftrightarrow> scope = ScopeGlobal \<or> tenantID = Some callerTenantID"

definition CreateModule :: "time \<Rightarrow> module_row \<Rightarrow> mdb \<Rightarrow> sql_error + mdb" where
  "CreateModule now m db =
     (if \<not> scope_tenant_ok (mo_Scope m) (mo_TenantID m) then Inl OtherViolation
      else if \<exists>x \<in> set (mdb_modules db). mo_ID x = mo_ID m then Inl (UniqueViolation ''workflow_module_pkey'')
      else if mo_Scope m = ScopeGlobal \<and> (\<exists>x \<in> set (mdb_modules db). mo_Scope x = ScopeGlobal \<and> mo_ProcessID x = mo_ProcessID m)
      then Inl (UniqueViolation constraintModuleProcessIDGlobal)
      else if mo_Scope m = ScopeTenant \<and> (\<exists>x \<in> set (mdb_modules db). mo_Scope x = ScopeTenant \<and>
        mo_TenantID x = mo_TenantID m \<and> mo_ProcessID x = mo_ProcessID m)
      then Inl (UniqueViolation constraintModuleProcessIDTenant)
      else Inr (db\<lparr>mdb_modules := mdb_modules db @ [m\<lparr>mo_ActiveVersionID := None, mo_RecordVersion := 1,
        mo_CreatedAt := now, mo_UpdatedAt := now\<rparr>]\<rparr>))"

definition GetModuleByID :: "uuid \<Rightarrow> uuid \<Rightarrow> mdb \<Rightarrow> sql_error + module_row" where
  "GetModuleByID callerTenantID mid db =
     (case find (\<lambda>m. mo_ID m = mid \<and> visible callerTenantID (mo_Scope m) (mo_TenantID m)) (mdb_modules db) of
        None \<Rightarrow> Inl NoRows | Some m \<Rightarrow> Inr m)"

definition may_activate_module :: "mdb \<Rightarrow> uuid option \<Rightarrow> module_row \<Rightarrow> bool" where
  "may_activate_module db versionID m \<longleftrightarrow>
     (case versionID of
        None \<Rightarrow> True
      | Some vid \<Rightarrow> \<exists>v \<in> set (mdb_versions db). mv_ID v = vid \<and> mv_ModuleID v = mo_ID m \<and> mv_Status v = VersionStatusPublished)"

definition UpdateModuleActiveVersion :: "time \<Rightarrow> uuid \<Rightarrow> uuid option \<Rightarrow> mdb \<Rightarrow> nat \<times> mdb" where
  "UpdateModuleActiveVersion now mid versionID db =
     (let P = (\<lambda>m. mo_ID m = mid \<and> may_activate_module db versionID m)
      in (length (filter P (mdb_modules db)),
          db\<lparr>mdb_modules := map (\<lambda>m. if P m then touch_module now m (m\<lparr>mo_ActiveVersionID := versionID, mo_UpdatedAt := now\<rparr>) else m)
            (mdb_modules db)\<rparr>))"

definition ModuleProcessIDInUse :: "uuid option \<Rightarrow> string \<Rightarrow> mdb \<Rightarrow> bool" where
  "ModuleProcessIDInUse tenantID processID db \<longleftrightarrow> (\<exists>m \<in> set (mdb_modules db). mo_ProcessID m = processID \<and>
     (tenantID = None \<or> mo_Scope m = ScopeGlobal \<or> mo_TenantID m = tenantID))"

text \<open>
  The purge of a tenant's own modules, from \<open>tenant_retention.sql\<close>, in any order up to its limit.  The versions of a deleted
  module go with it, along either of their foreign keys, and the pointers that name one are cleared.
\<close>

definition PurgeTenantModules :: "time \<Rightarrow> (module_row \<Rightarrow> nat) \<Rightarrow> uuid \<Rightarrow> nat \<Rightarrow> mdb \<Rightarrow> nat \<times> mdb" where
  "PurgeTenantModules now order tenantID limit db =
     (let ids = map mo_ID (take limit (sort_key order
            (filter (\<lambda>m. mo_TenantID m = Some tenantID \<and> mo_Scope m = ScopeTenant) (mdb_modules db))));
          gone = filter (\<lambda>m. mo_ID m \<in> set ids) (mdb_modules db);
          P = (\<lambda>x. \<exists>m \<in> set gone. mv_ModuleID x = mo_ID m \<and>
            (mv_TenantID x \<noteq> None \<and> mv_TenantID x = mo_TenantID m \<or> mv_Scope x = mo_Scope m));
          lost = filter P (mdb_versions db);
          Q = (\<lambda>m. \<exists>x \<in> set lost. mo_ActiveVersionID m = Some (mv_ID x))
      in (length gone,
          db\<lparr>mdb_modules := map (\<lambda>m. if Q m then touch_module now m (m\<lparr>mo_ActiveVersionID := None\<rparr>) else m)
               (filter (\<lambda>m. mo_ID m \<notin> set ids) (mdb_modules db)),
             mdb_versions := filter (\<lambda>x. \<not> P x) (mdb_versions db)\<rparr>))"

subsection \<open>workflow_module_version.sql\<close>

definition CreateModuleVersion :: "time \<Rightarrow> mversion_row \<Rightarrow> mdb \<Rightarrow> sql_error + mdb" where
  "CreateModuleVersion now v db =
     (if mv_Status v \<noteq> VersionStatusDraft \<and> mv_VersionNumber v = None then Inl OtherViolation
      else if \<not> scope_tenant_ok (mv_Scope v) (mv_TenantID v) then Inl OtherViolation
      else if \<exists>x \<in> set (mdb_versions db). mv_ID x = mv_ID v then Inl (UniqueViolation ''workflow_module_version_pkey'')
      else if mv_Status v = VersionStatusDraft \<and>
        (\<exists>x \<in> set (mdb_versions db). mv_ModuleID x = mv_ModuleID v \<and> mv_Status x = VersionStatusDraft)
      then Inl (UniqueViolation constraintModuleVersionDraft)
      else if mv_VersionNumber v \<noteq> None \<and>
        (\<exists>x \<in> set (mdb_versions db). mv_ModuleID x = mv_ModuleID v \<and> mv_VersionNumber x = mv_VersionNumber v)
      then Inl (UniqueViolation constraintModuleVersionPublished)
      else if \<not> (\<exists>m \<in> set (mdb_modules db). mo_ID m = mv_ModuleID v \<and> mo_Scope m = mv_Scope v \<and>
        (mv_TenantID v = None \<or> mo_TenantID m = mv_TenantID v)) then Inl OtherViolation
      else Inr (db\<lparr>mdb_versions := mdb_versions db @
        [v\<lparr>mv_PublishedAt := None, mv_RecordVersion := 1, mv_CreatedAt := now, mv_UpdatedAt := now\<rparr>]\<rparr>))"

definition GetModuleVersionByID :: "uuid \<Rightarrow> uuid \<Rightarrow> mdb \<Rightarrow> sql_error + mversion_row" where
  "GetModuleVersionByID callerTenantID vid db =
     (case find (\<lambda>v. mv_ID v = vid \<and> visible callerTenantID (mv_Scope v) (mv_TenantID v)) (mdb_versions db) of
        None \<Rightarrow> Inl NoRows | Some v \<Rightarrow> Inr v)"

definition module_versions :: "uuid \<Rightarrow> uuid \<Rightarrow> mdb \<Rightarrow> mversion_row list" where
  "module_versions callerTenantID mid db =
     filter (\<lambda>v. mv_ModuleID v = mid \<and> visible callerTenantID (mv_Scope v) (mv_TenantID v)) (mdb_versions db)"

definition CountModuleVersionsByModule :: "uuid \<Rightarrow> uuid \<Rightarrow> mdb \<Rightarrow> nat" where
  "CountModuleVersionsByModule callerTenantID mid db = length (module_versions callerTenantID mid db)"

text \<open>Rows of one creation time come in an order of the database's choosing: here, the later insert first.\<close>

definition ListModuleVersionsByModule :: "uuid \<Rightarrow> uuid \<Rightarrow> nat \<Rightarrow> nat \<Rightarrow> mdb \<Rightarrow> mversion_row list" where
  "ListModuleVersionsByModule callerTenantID mid limit offset db =
     take limit (drop offset (rev (sort_key mv_CreatedAt (module_versions callerTenantID mid db))))"

definition PublishModuleVersion :: "time \<Rightarrow> uuid \<Rightarrow> uuid \<Rightarrow> nat \<Rightarrow> mdb \<Rightarrow> sql_error + nat \<times> mdb" where
  "PublishModuleVersion now callerTenantID vid versionNumber db =
     (let P = (\<lambda>x. mv_ID x = vid \<and> mv_Status x = VersionStatusDraft \<and> visible callerTenantID (mv_Scope x) (mv_TenantID x))
      in if \<exists>x \<in> set (mdb_versions db). P x \<and>
            (\<exists>y \<in> set (mdb_versions db). mv_ID y \<noteq> vid \<and> mv_ModuleID y = mv_ModuleID x \<and> mv_VersionNumber y = Some versionNumber)
         then Inl (UniqueViolation constraintModuleVersionPublished)
         else Inr (update_mversions now P (\<lambda>x. x\<lparr>mv_Status := VersionStatusPublished, mv_VersionNumber := Some versionNumber,
                mv_PublishedAt := Some now\<rparr>) db))"

definition ArchiveModuleVersion :: "time \<Rightarrow> uuid \<Rightarrow> uuid \<Rightarrow> mdb \<Rightarrow> nat \<times> mdb" where
  "ArchiveModuleVersion now callerTenantID vid db =
     update_mversions now (\<lambda>x. mv_ID x = vid \<and> mv_Status x = VersionStatusPublished \<and> visible callerTenantID (mv_Scope x) (mv_TenantID x))
       (\<lambda>x. x\<lparr>mv_Status := VersionStatusArchived\<rparr>) db"

definition max_module_number :: "uuid \<Rightarrow> mdb \<Rightarrow> nat" where
  "max_module_number mid db =
     foldr max (List.map_filter mv_VersionNumber
       (filter (\<lambda>v. mv_ModuleID v = mid \<and> mv_Status v \<noteq> VersionStatusDraft) (mdb_versions db))) 0"

definition NextModuleVersionNumber :: "uuid \<Rightarrow> mdb \<Rightarrow> sql_error + nat" where
  "NextModuleVersionNumber mid db =
     (let m = max_module_number mid db in if m + 1 < 2 ^ 31 then Inr (m + 1) else Inl OtherViolation)"

text \<open>
  The candidates of a call, the tenant's own before the global ones.  Among candidates of one scope the
  database picks any; the module keeps its process id and its numbers are distinct, so there is one.
\<close>

definition resolve_candidates :: "uuid \<Rightarrow> string \<Rightarrow> nat option \<Rightarrow> mdb \<Rightarrow> (module_row \<times> mversion_row) list" where
  "resolve_candidates tenantID processID versionNumber db =
     filter (\<lambda>(m, v). mv_ModuleID v = mo_ID m \<and> mo_ProcessID m = processID \<and> visible tenantID (mo_Scope m) (mo_TenantID m) \<and>
         mo_ActiveVersionID m \<noteq> None \<and> mv_VersionNumber v \<noteq> None \<and>
         (versionNumber = None \<and> Some (mv_ID v) = mo_ActiveVersionID m \<or>
          versionNumber \<noteq> None \<and> mv_VersionNumber v = versionNumber))
       (List.product (mdb_modules db) (mdb_versions db))"

definition ResolveModuleVersion :: "uuid \<Rightarrow> string \<Rightarrow> nat option \<Rightarrow> mdb \<Rightarrow> sql_error + mversion_row" where
  "ResolveModuleVersion tenantID processID versionNumber db =
     (let cands = resolve_candidates tenantID processID versionNumber db;
          own = filter (\<lambda>(m, _). mo_Scope m = ScopeTenant) cands
      in case own @ cands of [] \<Rightarrow> Inl NoRows | (_, v) # _ \<Rightarrow> Inr v)"

subsection \<open>module_repo.go\<close>

definition ModuleRepo_Create :: "time \<Rightarrow> Module \<Rightarrow> unit mrepo" where
  "ModuleRepo_Create now m = (\<lambda>db.
     case CreateModule now \<lparr>mo_ID = md_ID m, mo_TenantID = md_TenantID m, mo_Scope = md_Scope m, mo_Name = md_Name m,
       mo_Description = toNullableText (md_Description m), mo_ProcessID = md_ProcessID m, mo_ActiveVersionID = None,
       mo_CreatedByUserID = md_CreatedByUserID m, mo_RecordVersion = 1, mo_CreatedAt = now, mo_UpdatedAt = now\<rparr> db of
       Inl e \<Rightarrow> Inl (mapErr e) | Inr db' \<Rightarrow> Inr ((), db'))"

definition ModuleRepo_GetByID :: "uuid \<Rightarrow> uuid \<Rightarrow> Module mrepo" where
  "ModuleRepo_GetByID callerTenantID mid = (\<lambda>db.
     case GetModuleByID callerTenantID mid db of Inl e \<Rightarrow> Inl (mapErr e) | Inr row \<Rightarrow> Inr (moduleFromDB row, db))"

definition moduleOrVersionNotPublished :: "uuid \<Rightarrow> mdb \<Rightarrow> error" where
  "moduleOrVersionNotPublished mid db =
     (if \<exists>m \<in> set (mdb_modules db). mo_ID m = mid then ErrVersionNotPublished else ErrNotFound)"

definition ModuleRepo_UpdateActiveVersion :: "time \<Rightarrow> uuid \<Rightarrow> uuid option \<Rightarrow> unit mrepo" where
  "ModuleRepo_UpdateActiveVersion now mid versionID = (\<lambda>db.
     let (n, db') = UpdateModuleActiveVersion now mid versionID db
     in if n = 0 then Inl (moduleOrVersionNotPublished mid db) else Inr ((), db'))"

definition ModuleRepo_ProcessIDInUse :: "uuid option \<Rightarrow> string \<Rightarrow> bool mrepo" where
  "ModuleRepo_ProcessIDInUse tenantID processID = (\<lambda>db. Inr (ModuleProcessIDInUse tenantID processID db, db))"

text \<open>\<open>ilike\<close> is the database's pattern match on the name.\<close>

definition listModules :: "(string \<Rightarrow> string \<Rightarrow> bool) \<Rightarrow> uuid \<Rightarrow> CatalogScope option \<Rightarrow> string option \<Rightarrow> int \<Rightarrow> int
    \<Rightarrow> mdb \<Rightarrow> Module list \<times> nat" where
  "listModules ilike callerTenantID scope search page limit db =
     (let matching = filter (\<lambda>m. visible callerTenantID (mo_Scope m) (mo_TenantID m) \<and>
          (scope = None \<or> scope = Some (mo_Scope m)) \<and>
          (case search of None \<Rightarrow> True | Some s \<Rightarrow> ilike (mo_Name m) (''%'' @ s @ ''%''))) (mdb_modules db);
          page = (if page < 1 then 1 else page);
          limit = (if limit < 1 then 20 else limit);
          offset = (page - 1) * limit
      in (map moduleFromDB (take (nat (clampInt32 limit)) (drop (nat (clampInt32 offset)) (rev (sort_key mo_CreatedAt matching)))),
          length matching))"

subsection \<open>module_version_repo.go\<close>

definition ModuleVersionRepo_Create :: "time \<Rightarrow> ModuleVersion \<Rightarrow> unit mrepo" where
  "ModuleVersionRepo_Create now v = (\<lambda>db.
     case CreateModuleVersion now \<lparr>mv_ID = mdv_ID v, mv_ModuleID = mdv_ModuleID v, mv_TenantID = mdv_TenantID v,
       mv_Scope = mdv_Scope v, mv_Status = mdv_Status v, mv_BpmnXml = mdv_BPMNXML v, mv_ProcessID = mdv_ProcessID v,
       mv_VersionNumber = mdv_VersionNumber v, mv_IsValid = mdv_IsValid v,
       mv_ValidationErrorsJson = toNullableJSONB (mdv_ValidationErrorsJSON v), mv_PublishedAt = None,
       mv_CreatedByUserID = mdv_CreatedByUserID v, mv_RecordVersion = 1, mv_CreatedAt = now, mv_UpdatedAt = now\<rparr> db of
       Inl e \<Rightarrow> Inl (mapErr e) | Inr db' \<Rightarrow> Inr ((), db'))"

definition ModuleVersionRepo_GetByID :: "uuid \<Rightarrow> uuid \<Rightarrow> ModuleVersion mrepo" where
  "ModuleVersionRepo_GetByID callerTenantID vid = (\<lambda>db.
     case GetModuleVersionByID callerTenantID vid db of Inl e \<Rightarrow> Inl (mapErr e) | Inr row \<Rightarrow> Inr (moduleVersionFromDB row, db))"

definition ModuleVersionRepo_ListByModule :: "uuid \<Rightarrow> uuid \<Rightarrow> int \<Rightarrow> int \<Rightarrow> (ModuleVersion list \<times> nat) mrepo" where
  "ModuleVersionRepo_ListByModule callerTenantID mid page limit = (\<lambda>db.
     let page = (if page < 1 then 1 else page);
         limit = (if limit < 1 then 20 else limit);
         offset = clampInt32 ((page - 1) * limit)
     in Inr ((map moduleVersionFromDB (ListModuleVersionsByModule callerTenantID mid (nat (clampInt32 limit)) (nat offset) db),
              CountModuleVersionsByModule callerTenantID mid db), db))"

definition moduleVersionStatusOrNotFound :: "uuid \<Rightarrow> uuid \<Rightarrow> error \<Rightarrow> mdb \<Rightarrow> error" where
  "moduleVersionStatusOrNotFound callerTenantID vid wrongStatusErr db =
     (case GetModuleVersionByID callerTenantID vid db of Inl _ \<Rightarrow> ErrNotFound | Inr _ \<Rightarrow> wrongStatusErr)"

definition ModuleVersionRepo_Publish :: "time \<Rightarrow> uuid \<Rightarrow> uuid \<Rightarrow> nat \<Rightarrow> unit mrepo" where
  "ModuleVersionRepo_Publish now callerTenantID vid versionNumber = (\<lambda>db.
     case PublishModuleVersion now callerTenantID vid versionNumber db of
       Inl e \<Rightarrow> Inl (mapErr e)
     | Inr (n, db') \<Rightarrow> if n = 0 then Inl (moduleVersionStatusOrNotFound callerTenantID vid ErrVersionNotDraft db) else Inr ((), db'))"

definition ModuleVersionRepo_Archive :: "time \<Rightarrow> uuid \<Rightarrow> uuid \<Rightarrow> unit mrepo" where
  "ModuleVersionRepo_Archive now callerTenantID vid = (\<lambda>db.
     let (n, db') = ArchiveModuleVersion now callerTenantID vid db
     in if n = 0 then Inl (moduleVersionStatusOrNotFound callerTenantID vid ErrVersionNotPublished db) else Inr ((), db'))"

definition ModuleVersionRepo_NextVersionNumber :: "uuid \<Rightarrow> nat mrepo" where
  "ModuleVersionRepo_NextVersionNumber mid = (\<lambda>db.
     case NextModuleVersionNumber mid db of Inl e \<Rightarrow> Inl (mapErr e) | Inr n \<Rightarrow> Inr (n, db))"

text \<open>A version number of 0 or less asks for the active version.\<close>

definition ModuleVersionRepo_Resolve :: "uuid \<Rightarrow> string \<Rightarrow> int \<Rightarrow> ModuleVersion mrepo" where
  "ModuleVersionRepo_Resolve callerTenantID processID versionNumber = (\<lambda>db.
     case ResolveModuleVersion callerTenantID processID (if 0 < versionNumber then Some (nat versionNumber) else None) db of
       Inl e \<Rightarrow> Inl (mapErr e) | Inr row \<Rightarrow> Inr (moduleVersionFromDB row, db))"

end
