(* ===== verification/Module_Resolution.thy ===== *)
theory Module_Resolution
  imports Module_Store Version_Publish
begin

text \<open>
  \<open>module_resolution.go\<close>: from a main document the resolver follows the calls to library modules, document
  after document, each version once.  It collects the versions to bundle and the issues found on the way; an
  issue inside a module is reported at every call of the main document that leads to it.

  The lookup of a version and the compiler's list of a document's calls are arguments.  The loop over the
  queue ends only if the lookup can give finitely many versions, so it is a partial function, and that it
  returns is a theorem.  A version without a number makes the code dereference nil, which is \<open>ErrPanic\<close>.
  The texts of issues and edges are left out.
\<close>

subsection \<open>Data\<close>

record ModuleCall =
  mc_CallID :: string
  mc_ProcessID :: string
  mc_VersionNumber :: nat

record ResolvedModule =
  rm_ProcessID :: string
  rm_VersionNumber :: nat
  rm_PlanName :: string
  rm_BPMNXML :: string

type_synonym moduleLookup = "string \<Rightarrow> nat \<Rightarrow> error + ModuleVersion"
type_synonym moduleKey = "string \<times> nat"

text \<open>\<open>versionID\<close> is \<open>uuid.Nil\<close> for the main document.\<close>

record pendingDoc =
  pd_xml :: string
  pd_versionID :: uuid

record moduleEdge =
  me_from :: uuid
  me_call :: string

record moduleWalk =
  mw_modules :: "ResolvedModule list"
  mw_issues :: "BPMNValidationError list"
  mw_refs :: "(uuid, ModuleRef) gomap"
  mw_resolvedTo :: "(moduleKey, ModuleVersion) gomap"
  mw_failed :: "moduleKey set"
  mw_queue :: "pendingDoc list"
  mw_reachedBy :: "(uuid, moduleEdge list) gomap"
  mw_docIssues :: "(uuid, BPMNValidationError list) gomap"
  mw_issueOrder :: "uuid list"

subsection \<open>Lookups\<close>

definition live :: "uuid \<Rightarrow> mdb \<Rightarrow> moduleLookup" where
  "live tenantID db = (\<lambda>processID version.
     bindE (ModuleVersionRepo_Resolve tenantID processID (int version) db) (\<lambda>(v, _). Inr v))"

text \<open>Among the pinned references: the version asked for, or the highest number.\<close>

definition snapshot_pick :: "string \<Rightarrow> nat \<Rightarrow> ModuleRef list \<Rightarrow> ModuleRef option" where
  "snapshot_pick processID version refs =
     fold (\<lambda>ref pick.
       if mr_ProcessID ref \<noteq> processID then pick
       else if version = mr_VersionNumber ref \<or>
         version = 0 \<and> (case pick of None \<Rightarrow> True | Some p \<Rightarrow> mr_VersionNumber p < mr_VersionNumber ref)
       then Some ref else pick) refs None"

definition snapshot :: "uuid \<Rightarrow> ModuleRef list \<Rightarrow> mdb \<Rightarrow> moduleLookup" where
  "snapshot tenantID refs db = (\<lambda>processID version.
     case snapshot_pick processID version refs of
       None \<Rightarrow> Inl ErrNotFound
     | Some pick \<Rightarrow> bindE (ModuleVersionRepo_GetByID tenantID (mr_VersionID pick) db) (\<lambda>(v, _). Inr v))"

subsection \<open>The walk\<close>

definition unresolvedCall :: "ModuleCall \<Rightarrow> BPMNValidationError" where
  "unresolvedCall call = \<lparr>be_Code = BPMNErrUnresolvedCalledElement, be_NodeID = mc_CallID call, be_Severity = SeverityError\<rparr>"

definition selfCall :: "ModuleCall \<Rightarrow> BPMNValidationError" where
  "selfCall call = \<lparr>be_Code = BPMNErrCalledElementCycle, be_NodeID = mc_CallID call, be_Severity = SeverityError\<rparr>"

definition reach :: "pendingDoc \<Rightarrow> ModuleCall \<Rightarrow> ModuleVersion \<Rightarrow> moduleWalk \<Rightarrow> moduleWalk" where
  "reach doc call v w =
     (let edge = \<lparr>me_from = pd_versionID doc, me_call = mc_CallID call\<rparr>
      in if edge \<in> set (mget_or [] (mw_reachedBy w) (mdv_ID v)) then w
         else w\<lparr>mw_reachedBy := mappend (mdv_ID v) edge (mw_reachedBy w)\<rparr>)"

definition report :: "pendingDoc \<Rightarrow> BPMNValidationError \<Rightarrow> moduleWalk \<Rightarrow> moduleWalk" where
  "report doc e w =
     (if pd_versionID doc = uuid_Nil then w\<lparr>mw_issues := mw_issues w @ [e]\<rparr>
      else w\<lparr>mw_issueOrder := (if pd_versionID doc \<in> set (mkeys (mw_docIssues w)) then mw_issueOrder w
                               else mw_issueOrder w @ [pd_versionID doc]),
             mw_docIssues := mappend (pd_versionID doc) e (mw_docIssues w)\<rparr>)"

definition add_module :: "ModuleCall \<Rightarrow> ModuleVersion \<Rightarrow> nat \<Rightarrow> moduleWalk \<Rightarrow> moduleWalk" where
  "add_module call v number w =
     (let w = w\<lparr>mw_modules := mw_modules w @ [\<lparr>rm_ProcessID = mc_ProcessID call, rm_VersionNumber = mc_VersionNumber call,
            rm_PlanName = mdv_ProcessID v @ ''@v'' @ itoa number, rm_BPMNXML = mdv_BPMNXML v\<rparr>]\<rparr>
      in if mdv_ID v \<in> set (mkeys (mw_refs w)) then w
         else w\<lparr>mw_refs := mput (mdv_ID v) \<lparr>mr_ModuleID = mdv_ModuleID v, mr_VersionID = mdv_ID v,
                  mr_ProcessID = mdv_ProcessID v, mr_VersionNumber = number\<rparr> (mw_refs w),
                mw_queue := mw_queue w @ [\<lparr>pd_xml = mdv_BPMNXML v, pd_versionID = mdv_ID v\<rparr>]\<rparr>)"

definition is_self :: "string \<Rightarrow> ModuleCall \<Rightarrow> bool" where
  "is_self self call \<longleftrightarrow> self \<noteq> [] \<and> mc_ProcessID call = self \<and> mc_VersionNumber call = 0"

definition visit_call :: "moduleLookup \<Rightarrow> string \<Rightarrow> pendingDoc \<Rightarrow> ModuleCall \<Rightarrow> moduleWalk \<Rightarrow> error + moduleWalk" where
  "visit_call lookup self doc call w =
     (let key = (mc_ProcessID call, mc_VersionNumber call)
      in if is_self self call then Inr (report doc (selfCall call) w)
         else if key \<in> mw_failed w then Inr (report doc (unresolvedCall call) w)
         else case map_of (mw_resolvedTo w) key of
           Some v \<Rightarrow> (case mdv_VersionNumber v of None \<Rightarrow> Inl ErrPanic | Some _ \<Rightarrow> Inr (reach doc call v w))
         | None \<Rightarrow>
             (case lookup (mc_ProcessID call) (mc_VersionNumber call) of
                Inl e \<Rightarrow>
                  if e = ErrNotFound then Inr (report doc (unresolvedCall call) (w\<lparr>mw_failed := insert key (mw_failed w)\<rparr>))
                  else Inl e
              | Inr v \<Rightarrow>
                  (case mdv_VersionNumber v of
                     None \<Rightarrow> Inl ErrPanic
                   | Some number \<Rightarrow>
                       Inr (add_module call v number (reach doc call v (w\<lparr>mw_resolvedTo := mput key v (mw_resolvedTo w)\<rparr>))))))"

fun visit_calls :: "moduleLookup \<Rightarrow> string \<Rightarrow> pendingDoc \<Rightarrow> ModuleCall list \<Rightarrow> moduleWalk \<Rightarrow> error + moduleWalk" where
  "visit_calls lookup self doc [] w = Inr w"
| "visit_calls lookup self doc (c # cs) w = bindE (visit_call lookup self doc c w) (visit_calls lookup self doc cs)"

definition visit_doc :: "(string \<Rightarrow> error + ModuleCall list \<times> BPMNValidationError list) \<Rightarrow> moduleLookup \<Rightarrow> string
    \<Rightarrow> pendingDoc \<Rightarrow> moduleWalk \<Rightarrow> error + moduleWalk" where
  "visit_doc moduleCalls lookup self doc w =
     bindE (moduleCalls (pd_xml doc)) (\<lambda>(calls, callIssues).
       visit_calls lookup self doc calls (fold (report doc) callIssues w))"

partial_function (option) walk_queue :: "(string \<Rightarrow> error + ModuleCall list \<times> BPMNValidationError list) \<Rightarrow> moduleLookup
    \<Rightarrow> string \<Rightarrow> moduleWalk \<Rightarrow> (error + moduleWalk) option" where
  "walk_queue moduleCalls lookup self w =
     (case mw_queue w of
        [] \<Rightarrow> Some (Inr w)
      | doc # rest \<Rightarrow>
          (case visit_doc moduleCalls lookup self doc (w\<lparr>mw_queue := rest\<rparr>) of
             Inl e \<Rightarrow> Some (Inl e)
           | Inr w' \<Rightarrow> walk_queue moduleCalls lookup self w'))"

definition start_walk :: "string \<Rightarrow> moduleWalk" where
  "start_walk mainXML = \<lparr>mw_modules = [], mw_issues = [], mw_refs = [], mw_resolvedTo = [], mw_failed = {},
     mw_queue = [\<lparr>pd_xml = mainXML, pd_versionID = uuid_Nil\<rparr>], mw_reachedBy = [], mw_docIssues = [], mw_issueOrder = []\<rparr>"

subsection \<open>Routes\<close>

text \<open>
  The calls of the main document that lead to a version, searched backwards.  \<open>visiting\<close> holds the versions
  on the current path; a result that was cut there is not complete and is not kept in \<open>memo\<close>.
\<close>

definition add_root :: "string \<Rightarrow> string list \<Rightarrow> string list" where
  "add_root c out = (if c \<in> set out then out else out @ [c])"

text \<open>A version that is entered and has edges is a key of the finite map that was not visited before.\<close>

definition unvisited :: "(uuid, moduleEdge list) gomap \<Rightarrow> uuid set \<Rightarrow> nat" where
  "unvisited reachedBy visiting = card (set (mkeys reachedBy) - visiting)"

lemma unvisited_less:
  assumes "vid \<notin> visiting" and "mget_or [] reachedBy vid \<noteq> []"
  shows "unvisited reachedBy (insert vid visiting) < unvisited reachedBy visiting"
proof -
  from assms(2) have "vid \<in> set (mkeys reachedBy)" using mget_or_absent by fastforce
  with assms(1) show ?thesis unfolding unvisited_def by (intro psubset_card_mono) auto
qed

function (sequential) routes :: "(uuid, moduleEdge list) gomap \<Rightarrow> uuid \<Rightarrow> (uuid, string list) gomap \<Rightarrow> uuid set
    \<Rightarrow> string list \<times> bool \<times> (uuid, string list) gomap"
  and route_edges :: "(uuid, moduleEdge list) gomap \<Rightarrow> moduleEdge list \<Rightarrow> (uuid, string list) gomap \<Rightarrow> uuid set
    \<Rightarrow> string list \<Rightarrow> bool \<Rightarrow> string list \<times> bool \<times> (uuid, string list) gomap" where
  "routes reachedBy vid memo visiting =
     (case map_of memo vid of
        Some known \<Rightarrow> (known, True, memo)
      | None \<Rightarrow>
          if vid \<in> visiting then ([], False, memo)
          else
            (case route_edges reachedBy (mget_or [] reachedBy vid) memo (insert vid visiting) [] True of
               (out, complete, memo) \<Rightarrow> (out, complete, if complete then mput vid out memo else memo)))"
| "route_edges reachedBy [] memo visiting out complete = (out, complete, memo)"
| "route_edges reachedBy (edge # es) memo visiting out complete =
     (if me_from edge = uuid_Nil then route_edges reachedBy es memo visiting (add_root (me_call edge) out) complete
      else
        (case routes reachedBy (me_from edge) memo visiting of
           (parents, whole, memo) \<Rightarrow>
             route_edges reachedBy es memo visiting (fold add_root parents out) (complete \<and> whole)))"
  by pat_completeness auto

termination
proof (relation "measures [
    \<lambda>x. case x of Inl (rb, _, _, visiting) \<Rightarrow> unvisited rb visiting | Inr (rb, _, _, visiting, _, _) \<Rightarrow> unvisited rb visiting,
    \<lambda>x. case x of Inl _ \<Rightarrow> 1 | Inr (_, es, _) \<Rightarrow> 2 * length es]", goal_cases)
  case (2 rb vid memo visiting)
  then show ?case
  proof (cases "mget_or [] rb vid = []")
    case True
    have "unvisited rb (insert vid visiting) \<le> unvisited rb visiting"
      unfolding unvisited_def by (intro card_mono) auto
    with True show ?thesis by (auto simp: le_less)
  qed (use 2 unvisited_less in simp)
qed simp_all

subsection \<open>Issues\<close>

definition attribute_version :: "moduleWalk \<Rightarrow> uuid \<Rightarrow> BPMNValidationError list \<times> (uuid, string list) gomap
    \<Rightarrow> BPMNValidationError list \<times> (uuid, string list) gomap" where
  "attribute_version w vid acc =
     (case acc of (issues, memo) \<Rightarrow>
        (case routes (mw_reachedBy w) vid memo {} of
           (found, _, memo) \<Rightarrow>
             (issues @ concat (map (\<lambda>rootCall. map (\<lambda>e. e\<lparr>be_NodeID := rootCall\<rparr>) (mget_or [] (mw_docIssues w) vid)) found), memo)))"

definition attributeModuleIssues :: "moduleWalk \<Rightarrow> BPMNValidationError list" where
  "attributeModuleIssues w = fst (fold (attribute_version w) (mw_issueOrder w) (mw_issues w, []))"

subsection \<open>Resolve\<close>

text \<open>Go ranges over the references as a map and sorts by process id and number.\<close>

definition sort_refs :: "ModuleRef list \<Rightarrow> ModuleRef list" where
  "sort_refs refs = sort_key mr_ProcessID (sort_key mr_VersionNumber refs)"

definition finish_walk :: "(string \<Rightarrow> ResolvedModule list \<Rightarrow> error + string) \<Rightarrow> string \<Rightarrow> moduleWalk \<Rightarrow> error + resolution" where
  "finish_walk bundleModules mainXML w =
     (let issues = attributeModuleIssues w
      in if issues \<noteq> [] then Inr \<lparr>rs_bundled = [], rs_refs = [], rs_issues = issues\<rparr>
         else bindE (bundleModules mainXML (mw_modules w)) (\<lambda>bundled.
           Inr \<lparr>rs_bundled = bundled, rs_refs = sort_refs (map snd (mw_refs w)), rs_issues = []\<rparr>))"

definition resolve_modules :: "(string \<Rightarrow> error + ModuleCall list \<times> BPMNValidationError list)
    \<Rightarrow> (string \<Rightarrow> ResolvedModule list \<Rightarrow> error + string) \<Rightarrow> moduleLookup \<Rightarrow> string \<Rightarrow> string \<Rightarrow> (error + resolution) option" where
  "resolve_modules moduleCalls bundleModules lookup mainXML self =
     map_option (\<lambda>r. bindE r (finish_walk bundleModules mainXML))
       (walk_queue moduleCalls lookup self (start_walk mainXML))"

text \<open>\<open>validateWith\<close>: the issues of the resolution, or what \<open>check\<close> finds in the bundle.\<close>

definition validateWith :: "(string \<Rightarrow> error + ModuleCall list \<times> BPMNValidationError list)
    \<Rightarrow> (string \<Rightarrow> ResolvedModule list \<Rightarrow> error + string) \<Rightarrow> moduleLookup \<Rightarrow> string
    \<Rightarrow> (string \<Rightarrow> error + BPMNValidationError list) \<Rightarrow> (error + BPMNValidationError list) option" where
  "validateWith moduleCalls bundleModules lookup bpmnXML check =
     map_option (\<lambda>r. bindE r (\<lambda>res. if rs_issues res \<noteq> [] then Inr (rs_issues res) else check (rs_bundled res)))
       (resolve_modules moduleCalls bundleModules lookup bpmnXML [])"

end
