(* ===== verification/Module_Resolution_Correct.thy ===== *)
theory Module_Resolution_Correct
  imports Module_Resolution
begin

text \<open>
  The resolver is right: it returns when finitely many versions can be looked up; its references are the
  versions that calls lead to; it reports no issue exactly when every call of every document reached can be
  resolved; and the route search gives, for a version, the calls of the main document that lead to it.
\<close>

subsection \<open>Termination\<close>

definition walk_measure :: "uuid set \<Rightarrow> moduleWalk \<Rightarrow> nat" where
  "walk_measure V w = card (V - set (mkeys (mw_refs w))) + length (mw_queue w)"

lemma reach_fields [simp]:
  "mw_refs (reach doc c v w) = mw_refs w" "mw_queue (reach doc c v w) = mw_queue w" "mw_modules (reach doc c v w) = mw_modules w"
  "mw_resolvedTo (reach doc c v w) = mw_resolvedTo w" "mw_failed (reach doc c v w) = mw_failed w"
  "mw_issues (reach doc c v w) = mw_issues w" "mw_docIssues (reach doc c v w) = mw_docIssues w"
  "mw_issueOrder (reach doc c v w) = mw_issueOrder w"
  by (simp_all add: reach_def Let_def)

lemma report_fields [simp]:
  "mw_refs (report doc e w) = mw_refs w" "mw_queue (report doc e w) = mw_queue w" "mw_modules (report doc e w) = mw_modules w"
  "mw_resolvedTo (report doc e w) = mw_resolvedTo w" "mw_failed (report doc e w) = mw_failed w"
  "mw_reachedBy (report doc e w) = mw_reachedBy w"
  by (simp_all add: report_def)

lemma reports_fields [simp]:
  "mw_refs (fold (report doc) es w) = mw_refs w" "mw_queue (fold (report doc) es w) = mw_queue w"
  "mw_resolvedTo (fold (report doc) es w) = mw_resolvedTo w" "mw_failed (fold (report doc) es w) = mw_failed w"
  "mw_reachedBy (fold (report doc) es w) = mw_reachedBy w"
  by (induction es arbitrary: w) simp_all

lemma walk_measure_add:
  assumes "finite V" and "mdv_ID v \<in> V"
  shows "walk_measure V (add_module c v n w) \<le> walk_measure V w"
proof (cases "mdv_ID v \<in> set (mkeys (mw_refs w))")
  case False
  have "V - insert (mdv_ID v) (set (mkeys (mw_refs w))) = (V - set (mkeys (mw_refs w))) - {mdv_ID v}" by auto
  with False assms have "Suc (card (V - insert (mdv_ID v) (set (mkeys (mw_refs w))))) = card (V - set (mkeys (mw_refs w)))"
    using card_Suc_Diff1 [of "V - set (mkeys (mw_refs w))" "mdv_ID v"] by simp
  with False show ?thesis by (simp add: walk_measure_def add_module_def Let_def)
qed (simp add: walk_measure_def add_module_def Let_def)

lemma visit_call_measure:
  assumes "visit_call lookup self doc c w = Inr w'" and "finite V" and "\<And>p n v. lookup p n = Inr v \<Longrightarrow> mdv_ID v \<in> V"
  shows "walk_measure V w' \<le> walk_measure V w"
proof -
  have same: "walk_measure V (reach doc c v w) = walk_measure V w" "walk_measure V (report doc e w) = walk_measure V w"
    "walk_measure V (w\<lparr>mw_resolvedTo := m\<rparr>) = walk_measure V w" "walk_measure V (w\<lparr>mw_failed := F\<rparr>) = walk_measure V w" for v w e m F
    by (simp_all add: walk_measure_def)
  have add: "walk_measure V (add_module c v n u) \<le> walk_measure V u"
    if "lookup (mc_ProcessID c) (mc_VersionNumber c) = Inr v" for v n u
    by (rule walk_measure_add [OF assms(2) assms(3) [OF that]])
  from assms(1) show ?thesis
    by (auto simp: visit_call_def Let_def same split: if_splits option.splits sum.splits
        intro: order_trans [OF add])
qed

lemma visit_calls_measure:
  assumes "visit_calls lookup self doc cs w = Inr w'" and "finite V" and "\<And>p n v. lookup p n = Inr v \<Longrightarrow> mdv_ID v \<in> V"
  shows "walk_measure V w' \<le> walk_measure V w"
  using assms(1)
proof (induction cs arbitrary: w)
  case (Cons c cs)
  then obtain w1 where "visit_call lookup self doc c w = Inr w1" "visit_calls lookup self doc cs w1 = Inr w'"
    by (auto simp: bindE_eq_Inr)
  with Cons.IH visit_call_measure [OF _ assms(2,3)] show ?case by (meson order_trans)
qed simp

lemma walk_queue_returns:
  assumes "finite V" and "\<And>p n v. lookup p n = Inr v \<Longrightarrow> mdv_ID v \<in> V"
  shows "\<exists>r. walk_queue moduleCalls lookup self w = Some r"
proof (induction w rule: measure_induct_rule [of "walk_measure V"])
  case (less w)
  show ?case
  proof (cases "mw_queue w")
    case Nil
    then show ?thesis by (subst walk_queue.simps) simp
  next
    case (Cons doc rest)
    show ?thesis
    proof (cases "visit_doc moduleCalls lookup self doc (w\<lparr>mw_queue := rest\<rparr>)")
      case (Inl e)
      with Cons show ?thesis by (subst walk_queue.simps) simp
    next
      case (Inr w')
      then have "walk_measure V w' \<le> walk_measure V (w\<lparr>mw_queue := rest\<rparr>)"
        by (auto simp: visit_doc_def bindE_eq_Inr walk_measure_def
            dest!: visit_calls_measure [OF _ assms])
      also have "\<dots> < walk_measure V w" using Cons by (simp add: walk_measure_def)
      finally show ?thesis using less.IH Cons Inr by (subst walk_queue.simps) simp
    qed
  qed
qed

lemma resolve_modules_returns:
  assumes "finite V" and "\<And>p n v. lookup p n = Inr v \<Longrightarrow> mdv_ID v \<in> V"
  shows "\<exists>r. resolve_modules moduleCalls bundleModules lookup mainXML self = Some r"
  using walk_queue_returns [OF assms, where moduleCalls = moduleCalls and self = self and w = "start_walk mainXML"] by (auto simp: resolve_modules_def)

subsection \<open>Routes\<close>

text \<open>The calls of the main document that lead to a version, and those that lead there past a set of versions.\<close>

inductive leads :: "(uuid, moduleEdge list) gomap \<Rightarrow> uuid set \<Rightarrow> uuid \<Rightarrow> string \<Rightarrow> bool"
  for rb :: "(uuid, moduleEdge list) gomap" and S :: "uuid set" where
  root: "leads rb S vid (me_call e)" if "vid \<notin> S" and "e \<in> set (mget_or [] rb vid)" and "me_from e = uuid_Nil"
| edge: "leads rb S vid c" if "vid \<notin> S" and "e \<in> set (mget_or [] rb vid)" and "me_from e \<noteq> uuid_Nil" and "leads rb S (me_from e) c"

lemma leads_mono: "leads rb S vid c \<Longrightarrow> S' \<subseteq> S \<Longrightarrow> leads rb S' vid c"
  by (induction rule: leads.induct) (auto intro: leads.intros)

text \<open>A route can be cut where it passes its start again.\<close>

definition from_edges :: "(uuid, moduleEdge list) gomap \<Rightarrow> uuid set \<Rightarrow> moduleEdge list \<Rightarrow> string set" where
  "from_edges rb S es = {me_call e | e. e \<in> set es \<and> me_from e = uuid_Nil} \<union>
     {c. \<exists>e \<in> set es. me_from e \<noteq> uuid_Nil \<and> leads rb S (me_from e) c}"

lemma leads_cut:
  assumes "leads rb S x c"
  shows "leads rb (insert vid S) x c \<or> c \<in> from_edges rb (insert vid S) (mget_or [] rb vid)"
  using assms
proof (induction rule: leads.induct)
  case (root x e)
  then show ?case by (cases "x = vid") (auto simp: from_edges_def intro: leads.root)
next
  case (edge x e c)
  then show ?case by (cases "x = vid") (auto simp: from_edges_def intro: leads.edge)
qed

lemma leads_from_edges:
  "leads rb S vid c \<Longrightarrow> c \<in> from_edges rb (insert vid S) (mget_or [] rb vid)"
  using leads_cut [of rb S vid c vid] by (auto elim: leads.cases)

lemma from_edges_leads:
  "vid \<notin> S \<Longrightarrow> c \<in> from_edges rb S (mget_or [] rb vid) \<Longrightarrow> leads rb S vid c"
  by (auto simp: from_edges_def intro: leads.intros)

lemma from_edges_mono: "S' \<subseteq> S \<Longrightarrow> from_edges rb S es \<subseteq> from_edges rb S' es"
  by (auto simp: from_edges_def intro: leads_mono)

definition memo_ok :: "(uuid, moduleEdge list) gomap \<Rightarrow> (uuid, string list) gomap \<Rightarrow> bool" where
  "memo_ok rb memo \<longleftrightarrow> (\<forall>k r. map_of memo k = Some r \<longrightarrow> set r = {c. leads rb {} k c})"

lemma set_add_root [simp]: "set (add_root c out) = insert c (set out)"
  by (auto simp: add_root_def)

lemma set_add_roots [simp]: "set (fold add_root cs out) = set cs \<union> set out"
  by (induction cs arbitrary: out) auto

lemma distinct_add_roots: "distinct out \<Longrightarrow> distinct (fold add_root cs out)"
  by (induction cs arbitrary: out) (auto simp: add_root_def)

text \<open>
  What a search finds lies between the calls that lead past the visited versions and all that lead, and it
  is all of them when it is complete.
\<close>

lemma routes_between:
  "memo_ok rb memo \<Longrightarrow> routes rb vid memo visiting = (found, complete, memo') \<Longrightarrow>
     memo_ok rb memo' \<and> {c. leads rb visiting vid c} \<subseteq> set found \<and> set found \<subseteq> {c. leads rb {} vid c} \<and>
     (complete \<longrightarrow> set found = {c. leads rb {} vid c})"
  "memo_ok rb memo \<Longrightarrow> route_edges rb es memo visiting out ok = (found, complete, memo') \<Longrightarrow>
     memo_ok rb memo' \<and> set out \<union> from_edges rb visiting es \<subseteq> set found \<and> set found \<subseteq> set out \<union> from_edges rb {} es \<and>
     (complete \<longrightarrow> ok \<and> set found = set out \<union> from_edges rb {} es)"
proof (induction rb vid memo visiting and rb es memo visiting out ok
    arbitrary: found complete memo' and found complete memo' rule: routes_route_edges.induct)
  case (1 rb vid memo visiting)
  show ?case
  proof (cases "map_of memo vid")
    case (Some known)
    with "1.prems" have "set known = {c. leads rb {} vid c}" by (auto simp: memo_ok_def)
    with Some "1.prems" show ?thesis by (auto intro: leads_mono)
  next
    case None
    show ?thesis
    proof (cases "vid \<in> visiting")
      case True
      with None "1.prems" show ?thesis by (auto elim: leads.cases)
    next
      case False
      obtain out ok memo1 where r: "route_edges rb (mget_or [] rb vid) memo (insert vid visiting) [] True = (out, ok, memo1)"
        by (metis prod_cases3)
      with None False "1.prems" have res: "found = out" "complete = ok" "memo' = (if ok then mput vid out memo1 else memo1)"
        by auto
      note IH = "1.IH" [OF None False "1.prems"(1) r]
      have sub: "{c. leads rb visiting vid c} \<subseteq> set found" using IH leads_from_edges by (auto simp: res)
      have "set found \<subseteq> {c. leads rb {} vid c}" using IH from_edges_leads [of vid "{}"] by (auto simp: res)
      moreover have "{c. leads rb {} vid c} \<subseteq> set found" if complete
        using IH that leads_from_edges [of rb "{}" vid] from_edges_mono [of "{}" "{vid}"] by (fastforce simp: res)
      ultimately show ?thesis using IH sub by (auto simp: res memo_ok_def update_conv')
    qed
  qed
next
  case (2 rb memo visiting out ok)
  then show ?case by (auto simp: from_edges_def)
next
  case (3 rb e es memo visiting out ok)
  show ?case
  proof (cases "me_from e = uuid_Nil")
    case True
    have "from_edges rb S (e # es) = insert (me_call e) (from_edges rb S es)" for S
      using True by (auto simp: from_edges_def)
    with "3.IH"(1) [OF True "3.prems"(1)] "3.prems"(2) True show ?thesis by auto
  next
    case False
    obtain parents whole memo1 where r: "routes rb (me_from e) memo visiting = (parents, whole, memo1)" by (metis prod_cases3)
    note IH1 = "3.IH"(2) [OF False "3.prems"(1) r]
    have ok1: "memo_ok rb memo1" using IH1 by blast
    from "3.prems"(2) False r have "route_edges rb es memo1 visiting (fold add_root parents out) (ok \<and> whole) = (found, complete, memo')"
      by simp
    note IH2 = "3.IH"(3) [OF False r [symmetric] refl ok1 this]
    have "from_edges rb S (e # es) = {c. leads rb S (me_from e) c} \<union> from_edges rb S es" for S
      using False by (auto simp: from_edges_def)
    with IH1 IH2 show ?thesis by auto
  qed
qed

lemma routes_exact:
  assumes "memo_ok rb memo" and "routes rb vid memo {} = (found, complete, memo')"
  shows "set found = {c. leads rb {} vid c}" and "memo_ok rb memo'"
  using routes_between(1) [OF assms] by auto

declare routes.simps [simp del] route_edges.simps [simp del]

subsection \<open>What the walk reaches\<close>

definition ref_of :: "ModuleVersion \<Rightarrow> ModuleRef" where
  "ref_of v = \<lparr>mr_ModuleID = mdv_ModuleID v, mr_VersionID = mdv_ID v, mr_ProcessID = mdv_ProcessID v,
     mr_VersionNumber = the (mdv_VersionNumber v)\<rparr>"

definition doc_of :: "ModuleVersion \<Rightarrow> pendingDoc" where
  "doc_of v = \<lparr>pd_xml = mdv_BPMNXML v, pd_versionID = mdv_ID v\<rparr>"

text \<open>The calls of a document that the walk follows.\<close>

definition calls_of :: "(string \<Rightarrow> error + ModuleCall list \<times> BPMNValidationError list) \<Rightarrow> string \<Rightarrow> ModuleCall list" where
  "calls_of moduleCalls xml = (case moduleCalls xml of Inl _ \<Rightarrow> [] | Inr (calls, _) \<Rightarrow> calls)"

definition issues_of :: "(string \<Rightarrow> error + ModuleCall list \<times> BPMNValidationError list) \<Rightarrow> string \<Rightarrow> BPMNValidationError list" where
  "issues_of moduleCalls xml = (case moduleCalls xml of Inl _ \<Rightarrow> [] | Inr (_, issues) \<Rightarrow> issues)"

text \<open>The versions that calls lead to, from the main document.\<close>

inductive reached :: "(string \<Rightarrow> error + ModuleCall list \<times> BPMNValidationError list) \<Rightarrow> moduleLookup \<Rightarrow> string \<Rightarrow> string \<Rightarrow> ModuleVersion \<Rightarrow> bool"
  for moduleCalls :: "string \<Rightarrow> error + ModuleCall list \<times> BPMNValidationError list" and lookup :: moduleLookup
    and self :: string and mainXML :: string where
  main: "reached moduleCalls lookup self mainXML v"
    if "c \<in> set (calls_of moduleCalls mainXML)" and "\<not> is_self self c" and "lookup (mc_ProcessID c) (mc_VersionNumber c) = Inr v"
| step: "reached moduleCalls lookup self mainXML v"
    if "reached moduleCalls lookup self mainXML u" and "c \<in> set (calls_of moduleCalls (mdv_BPMNXML u))" and "\<not> is_self self c"
      and "lookup (mc_ProcessID c) (mc_VersionNumber c) = Inr v"

text \<open>A call is answered when it is reported or the version it names is among the references; it is good when it names one.\<close>

definition good_call :: "moduleLookup \<Rightarrow> string \<Rightarrow> ModuleCall \<Rightarrow> bool" where
  "good_call lookup self c \<longleftrightarrow> \<not> is_self self c \<and> (\<exists>v. lookup (mc_ProcessID c) (mc_VersionNumber c) = Inr v)"

definition answered :: "moduleLookup \<Rightarrow> string \<Rightarrow> moduleWalk \<Rightarrow> ModuleCall \<Rightarrow> bool" where
  "answered lookup self w c \<longleftrightarrow> (\<forall>v. \<not> is_self self c \<longrightarrow> lookup (mc_ProcessID c) (mc_VersionNumber c) = Inr v \<longrightarrow>
     mdv_ID v \<in> fst ` set (mw_refs w))"

definition no_issues :: "moduleWalk \<Rightarrow> bool" where
  "no_issues w \<longleftrightarrow> mw_issues w = [] \<and> mw_issueOrder w = []"

text \<open>The state of the walk between two calls; \<open>D\<close> are the documents taken from the queue.\<close>

abbreviation main_doc :: "string \<Rightarrow> pendingDoc" where
  "main_doc mainXML \<equiv> \<lparr>pd_xml = mainXML, pd_versionID = uuid_Nil\<rparr>"

definition keys_ok :: "moduleLookup \<Rightarrow> moduleWalk \<Rightarrow> bool" where
  "keys_ok lookup w \<longleftrightarrow>
     (\<forall>p n v. map_of (mw_resolvedTo w) (p, n) = Some v \<longrightarrow> lookup p n = Inr v \<and> mdv_ID v \<in> fst ` set (mw_refs w)) \<and>
     (\<forall>p n. (p, n) \<in> mw_failed w \<longrightarrow> lookup p n = Inl ErrNotFound)"

definition refs_ok :: "(ModuleVersion \<Rightarrow> bool) \<Rightarrow> pendingDoc set \<Rightarrow> moduleWalk \<Rightarrow> bool" where
  "refs_ok R D w \<longleftrightarrow> (\<forall>p \<in> set (mw_refs w). \<exists>v. R v \<and> p = (mdv_ID v, ref_of v) \<and> doc_of v \<in> D \<union> set (mw_queue w))"

definition docs_ok :: "(ModuleVersion \<Rightarrow> bool) \<Rightarrow> string \<Rightarrow> pendingDoc set \<Rightarrow> moduleWalk \<Rightarrow> bool" where
  "docs_ok R mainXML D w \<longleftrightarrow> main_doc mainXML \<in> D \<union> set (mw_queue w) \<and>
     (\<forall>doc \<in> D \<union> set (mw_queue w). doc = main_doc mainXML \<or> (\<exists>v. R v \<and> doc = doc_of v \<and> mdv_ID v \<in> fst ` set (mw_refs w)))"

definition leads_ok :: "moduleWalk \<Rightarrow> bool" where
  "leads_ok w \<longleftrightarrow> (\<forall>i \<in> fst ` set (mw_refs w). \<exists>c. leads (mw_reachedBy w) {} i c)"

definition issues_ok :: "moduleWalk \<Rightarrow> bool" where
  "issues_ok w \<longleftrightarrow> set (mw_issueOrder w) \<subseteq> fst ` set (mw_refs w) \<and> fst ` set (mw_docIssues w) = set (mw_issueOrder w) \<and>
     (\<forall>i \<in> set (mw_issueOrder w). mget_or [] (mw_docIssues w) i \<noteq> [])"

text \<open>Reports touch the issues only, and leave some.\<close>

lemma report_ok [simp]:
  "keys_ok lookup (report doc e w) = keys_ok lookup w" "refs_ok R D (report doc e w) = refs_ok R D w"
  "docs_ok R mainXML D (report doc e w) = docs_ok R mainXML D w" "leads_ok (report doc e w) = leads_ok w"
  by (simp_all add: keys_ok_def refs_ok_def docs_ok_def leads_ok_def)

lemma reports_ok [simp]:
  "keys_ok lookup (fold (report doc) es w) = keys_ok lookup w" "refs_ok R D (fold (report doc) es w) = refs_ok R D w"
  "docs_ok R mainXML D (fold (report doc) es w) = docs_ok R mainXML D w" "leads_ok (fold (report doc) es w) = leads_ok w"
  by (simp_all add: keys_ok_def refs_ok_def docs_ok_def leads_ok_def)

lemma issues_ok_report:
  assumes "issues_ok w" and "pd_versionID doc = uuid_Nil \<or> pd_versionID doc \<in> fst ` set (mw_refs w)"
  shows "issues_ok (report doc e w)" and "\<not> no_issues (report doc e w)"
  using assms by (auto simp: issues_ok_def report_def no_issues_def)

lemma no_issues_report: "no_issues (report doc e w) \<Longrightarrow> no_issues w"
  by (auto simp: no_issues_def report_def split: if_splits)

lemma issues_ok_reports:
  assumes "issues_ok w" and "pd_versionID doc = uuid_Nil \<or> pd_versionID doc \<in> fst ` set (mw_refs w)"
  shows "issues_ok (fold (report doc) es w)" and "no_issues (fold (report doc) es w) \<longleftrightarrow> no_issues w \<and> es = []"
proof -
  show "issues_ok (fold (report doc) es w)"
    using assms
  proof (induction es arbitrary: w)
    case (Cons e es)
    then show ?case using Cons.IH [of "report doc e w"] issues_ok_report(1) [OF Cons.prems] by simp
  qed simp
  have grow: "no_issues (fold (report doc) es w) \<Longrightarrow> no_issues w" for w es
    by (induction es arbitrary: w) (auto dest: no_issues_report)
  show "no_issues (fold (report doc) es w) \<longleftrightarrow> no_issues w \<and> es = []"
  proof (cases es)
    case (Cons e es')
    then show ?thesis using grow [of es' "report doc e w"] issues_ok_report(2) [OF assms, of e] by auto
  qed simp
qed

text \<open>A version found by a call.\<close>

lemma leads_reach:
  assumes "pd_versionID doc = uuid_Nil \<or> (\<exists>c. leads (mw_reachedBy w) {} (pd_versionID doc) c)"
  shows "\<exists>c'. leads (mw_reachedBy (reach doc c v w)) {} (mdv_ID v) c'"
    and "leads (mw_reachedBy w) {} i c' \<Longrightarrow> leads (mw_reachedBy (reach doc c v w)) {} i c'"
proof -
  let ?e = "\<lparr>me_from = pd_versionID doc, me_call = mc_CallID c\<rparr>"
  have sub: "set (mget_or [] (mw_reachedBy w) j) \<subseteq> set (mget_or [] (mw_reachedBy (reach doc c v w)) j)" for j
    by (auto simp: reach_def Let_def)
  show up: "leads (mw_reachedBy (reach doc c v w)) {} i c'" if "leads (mw_reachedBy w) {} i c'" for i c'
    using that by (induction rule: leads.induct) (use sub in \<open>blast intro: leads.intros\<close>)+
  have mem: "?e \<in> set (mget_or [] (mw_reachedBy (reach doc c v w)) (mdv_ID v))"
    by (auto simp: reach_def Let_def)
  show "\<exists>c'. leads (mw_reachedBy (reach doc c v w)) {} (mdv_ID v) c'"
  proof (cases "pd_versionID doc = uuid_Nil")
    case True
    with leads.root [OF _ mem] show ?thesis by auto
  next
    case False
    with assms obtain c' where "leads (mw_reachedBy w) {} (pd_versionID doc) c'" by blast
    from up [OF this] leads.edge [OF _ mem] False show ?thesis by auto
  qed
qed

lemma add_module_fields [simp]:
  "mw_resolvedTo (add_module c v n w) = mw_resolvedTo w" "mw_failed (add_module c v n w) = mw_failed w"
  "mw_reachedBy (add_module c v n w) = mw_reachedBy w" "mw_issues (add_module c v n w) = mw_issues w"
  "mw_docIssues (add_module c v n w) = mw_docIssues w" "mw_issueOrder (add_module c v n w) = mw_issueOrder w"
  "fst ` set (mw_refs (add_module c v n w)) = insert (mdv_ID v) (fst ` set (mw_refs w))"
  "set (mw_queue w) \<subseteq> set (mw_queue (add_module c v n w))"
  by (auto simp: add_module_def Let_def)

definition walk_ok :: "moduleLookup \<Rightarrow> (ModuleVersion \<Rightarrow> bool) \<Rightarrow> string \<Rightarrow> pendingDoc set \<Rightarrow> moduleWalk \<Rightarrow> bool" where
  "walk_ok lookup R mainXML D w \<longleftrightarrow> keys_ok lookup w \<and> refs_ok R D w \<and> docs_ok R mainXML D w \<and> leads_ok w \<and> issues_ok w"

lemma doc_source:
  assumes "docs_ok R mainXML D w" and "leads_ok w" and "doc \<in> D"
  shows "pd_versionID doc = uuid_Nil \<or> pd_versionID doc \<in> fst ` set (mw_refs w)"
    and "pd_versionID doc = uuid_Nil \<or> (\<exists>c. leads (mw_reachedBy w) {} (pd_versionID doc) c)"
proof -
  from assms(1,3) have "doc = main_doc mainXML \<or> (\<exists>v. R v \<and> doc = doc_of v \<and> mdv_ID v \<in> fst ` set (mw_refs w))"
    unfolding docs_ok_def by blast
  then show src: "pd_versionID doc = uuid_Nil \<or> pd_versionID doc \<in> fst ` set (mw_refs w)"
    by (elim disjE exE conjE) (simp_all add: doc_of_def)
  with assms(2) show "pd_versionID doc = uuid_Nil \<or> (\<exists>c. leads (mw_reachedBy w) {} (pd_versionID doc) c)"
    unfolding leads_ok_def by blast
qed

lemma mput_absent: "k \<notin> set (mkeys m) \<Longrightarrow> mput k v m = m @ [(k, v)]"
  by (induction m) auto

lemma refs_ok_add:
  assumes "refs_ok R D w" and "R v" and "mdv_VersionNumber v = Some n"
  shows "refs_ok R D (add_module c v n w)"
proof (cases "mdv_ID v \<in> set (mkeys (mw_refs w))")
  case True
  with assms(1) show ?thesis by (simp add: refs_ok_def add_module_def Let_def)
next
  case False
  then have set: "set (mw_refs (add_module c v n w)) = insert (mdv_ID v, ref_of v) (set (mw_refs w))"
    using assms(3) by (simp add: add_module_def Let_def ref_of_def mput_absent)
  have queue: "set (mw_queue (add_module c v n w)) = insert (doc_of v) (set (mw_queue w))"
    using False by (simp add: add_module_def Let_def doc_of_def)
  from assms(1,2) show ?thesis unfolding refs_ok_def set queue by blast
qed

lemma docs_ok_add:
  assumes "docs_ok R mainXML D w" and "R v"
  shows "docs_ok R mainXML D (add_module c v n w)"
proof -
  have "set (mw_queue (add_module c v n w)) \<subseteq> insert (doc_of v) (set (mw_queue w))"
    by (auto simp: add_module_def Let_def doc_of_def)
  moreover have "main_doc mainXML \<in> D \<union> set (mw_queue (add_module c v n w))"
    using assms(1) add_module_fields(8) [of w c v n] unfolding docs_ok_def by blast
  ultimately show ?thesis using assms unfolding docs_ok_def add_module_fields(7) by blast
qed

lemma visit_call_ok:
  assumes ok: "walk_ok lookup R mainXML D w" and doc: "doc \<in> D" and visit: "visit_call lookup self doc c w = Inr w'"
    and R: "\<And>v. \<not> is_self self c \<Longrightarrow> lookup (mc_ProcessID c) (mc_VersionNumber c) = Inr v \<Longrightarrow> R v"
  shows "walk_ok lookup R mainXML D w' \<and> answered lookup self w' c \<and> fst ` set (mw_refs w) \<subseteq> fst ` set (mw_refs w') \<and>
    (no_issues w' \<longleftrightarrow> no_issues w \<and> good_call lookup self c)"
proof -
  let ?key = "(mc_ProcessID c, mc_VersionNumber c)"
  from ok have k: "keys_ok lookup w" and r: "refs_ok R D w" and d: "docs_ok R mainXML D w" and l: "leads_ok w" and i: "issues_ok w"
    by (simp_all add: walk_ok_def)
  note src = doc_source [OF d l doc]
  have reported: ?thesis if w': "w' = report doc e u" and u: "keys_ok lookup u" "mw_refs u = mw_refs w" "mw_queue u = mw_queue w"
      "mw_reachedBy u = mw_reachedBy w" "mw_issues u = mw_issues w" "mw_docIssues u = mw_docIssues w" "mw_issueOrder u = mw_issueOrder w"
    and bad: "is_self self c \<or> lookup (mc_ProcessID c) (mc_VersionNumber c) = Inl ErrNotFound" for e u
  proof -
    have "refs_ok R D u" "docs_ok R mainXML D u" "leads_ok u" "issues_ok u" "no_issues u = no_issues w"
      using r d l i u by (simp_all add: refs_ok_def docs_ok_def leads_ok_def issues_ok_def no_issues_def)
    moreover from this issues_ok_report [of u doc e] src(1) u(2)
    have "issues_ok (report doc e u)" "\<not> no_issues (report doc e u)" by simp_all
    moreover have "\<not> good_call lookup self c" "answered lookup self w' c" using bad by (auto simp: good_call_def answered_def)
    ultimately show ?thesis using w' u by (simp add: walk_ok_def)
  qed
  consider (self) "is_self self c"
    | (failed) "\<not> is_self self c" "?key \<in> mw_failed w"
    | (known) v where "\<not> is_self self c" "?key \<notin> mw_failed w" "map_of (mw_resolvedTo w) ?key = Some v"
    | (fresh) "\<not> is_self self c" "?key \<notin> mw_failed w" "map_of (mw_resolvedTo w) ?key = None"
    by (cases "map_of (mw_resolvedTo w) ?key") auto
  then show ?thesis
  proof cases
    case self
    with visit have "w' = report doc (selfCall c) w" by (simp add: visit_call_def Let_def)
    then show ?thesis by (rule reported) (use k self in simp_all)
  next
    case failed
    with visit have "w' = report doc (unresolvedCall c) w" by (simp add: visit_call_def Let_def)
    moreover have "lookup (mc_ProcessID c) (mc_VersionNumber c) = Inl ErrNotFound"
      using failed(2) k by (simp add: keys_ok_def)
    ultimately show ?thesis using reported k by blast
  next
    case (known v)
    with visit have w': "w' = reach doc c v w" by (auto simp: visit_call_def Let_def split: option.splits)
    from known(3) k have v: "lookup (mc_ProcessID c) (mc_VersionNumber c) = Inr v" "mdv_ID v \<in> fst ` set (mw_refs w)"
      by (auto simp: keys_ok_def)
    have "leads_ok w'" using l leads_reach(2) [OF src(2)] unfolding leads_ok_def w' reach_fields by blast
    with k r d i v known(1) show ?thesis
      by (auto simp: w' walk_ok_def keys_ok_def refs_ok_def docs_ok_def issues_ok_def no_issues_def answered_def good_call_def)
  next
    case fresh
    show ?thesis
    proof (cases "lookup (mc_ProcessID c) (mc_VersionNumber c)")
      case (Inl e)
      with fresh visit have e: "e = ErrNotFound" and w': "w' = report doc (unresolvedCall c) (w\<lparr>mw_failed := insert ?key (mw_failed w)\<rparr>)"
        by (auto simp: visit_call_def Let_def split: if_splits)
      from w' show ?thesis by (rule reported) (use k Inl e in \<open>auto simp: keys_ok_def\<close>)
    next
      case (Inr v)
      then have Rv: "R v" using R fresh(1) by blast
      let ?u = "reach doc c v (w\<lparr>mw_resolvedTo := mput ?key v (mw_resolvedTo w)\<rparr>)"
      from fresh visit Inr obtain n where n: "mdv_VersionNumber v = Some n" and w': "w' = add_module c v n ?u"
        by (auto simp: visit_call_def Let_def split: option.splits)
      have "refs_ok R D ?u" "docs_ok R mainXML D ?u" using r d by (simp_all add: refs_ok_def docs_ok_def)
      then have "refs_ok R D w'" "docs_ok R mainXML D w'" unfolding w' using refs_ok_add docs_ok_add Rv n by blast+
      moreover have "keys_ok lookup w'" using k Inr by (auto simp: keys_ok_def w' update_conv')
      moreover have "issues_ok w'" "no_issues w' = no_issues w" using i by (auto simp: issues_ok_def no_issues_def w')
      moreover have "leads_ok w'"
      proof -
        have s: "pd_versionID doc = uuid_Nil \<or> (\<exists>c. leads (mw_reachedBy (w\<lparr>mw_resolvedTo := mput ?key v (mw_resolvedTo w)\<rparr>)) {} (pd_versionID doc) c)"
          using src(2) by simp
        from leads_reach [OF s, where c = c and v = v] l show ?thesis unfolding leads_ok_def w' by simp blast
      qed
      ultimately show ?thesis using fresh(1) Inr by (auto simp: walk_ok_def w' answered_def good_call_def)
    qed
  qed
qed

lemma answered_mono: "answered lookup self w c \<Longrightarrow> fst ` set (mw_refs w) \<subseteq> fst ` set (mw_refs w') \<Longrightarrow> answered lookup self w' c"
  by (auto simp: answered_def)

lemma visit_calls_ok:
  assumes "walk_ok lookup R mainXML D w" and "doc \<in> D" and "visit_calls lookup self doc cs w = Inr w'"
    and R: "\<And>c v. c \<in> set cs \<Longrightarrow> \<not> is_self self c \<Longrightarrow> lookup (mc_ProcessID c) (mc_VersionNumber c) = Inr v \<Longrightarrow> R v"
  shows "walk_ok lookup R mainXML D w' \<and> (\<forall>c \<in> set cs. answered lookup self w' c) \<and>
    fst ` set (mw_refs w) \<subseteq> fst ` set (mw_refs w') \<and> (no_issues w' \<longleftrightarrow> no_issues w \<and> (\<forall>c \<in> set cs. good_call lookup self c))"
  using assms(1,3) R
proof (induction cs arbitrary: w)
  case (Cons c cs)
  from Cons.prems(2) obtain w1 where v1: "visit_call lookup self doc c w = Inr w1" and v2: "visit_calls lookup self doc cs w1 = Inr w'"
    by (auto simp: bindE_eq_Inr)
  have one: "walk_ok lookup R mainXML D w1 \<and> answered lookup self w1 c \<and> fst ` set (mw_refs w) \<subseteq> fst ` set (mw_refs w1) \<and>
      (no_issues w1 \<longleftrightarrow> no_issues w \<and> good_call lookup self c)"
    by (rule visit_call_ok [OF Cons.prems(1) assms(2) v1]) (rule Cons.prems(3) [OF list.set_intros(1)])
  have rest: "walk_ok lookup R mainXML D w' \<and> (\<forall>c \<in> set cs. answered lookup self w' c) \<and>
      fst ` set (mw_refs w1) \<subseteq> fst ` set (mw_refs w') \<and> (no_issues w' \<longleftrightarrow> no_issues w1 \<and> (\<forall>c \<in> set cs. good_call lookup self c))"
  proof (rule Cons.IH [OF conjunct1 [OF one] v2])
    fix c' v assume "c' \<in> set cs" "\<not> is_self self c'" "lookup (mc_ProcessID c') (mc_VersionNumber c') = Inr v"
    then show "R v" by (intro Cons.prems(3) [of c' v]) simp_all
  qed
  note one1 = one [THEN conjunct2, THEN conjunct1] and one2 = one [THEN conjunct2, THEN conjunct2, THEN conjunct1]
    and one3 = one [THEN conjunct2, THEN conjunct2, THEN conjunct2]
  note rest2 = rest [THEN conjunct2, THEN conjunct2, THEN conjunct1] and rest3 = rest [THEN conjunct2, THEN conjunct2, THEN conjunct2]
  have ans: "answered lookup self w' c" by (rule answered_mono [OF one1 rest2])
  have sub: "fst ` set (mw_refs w) \<subseteq> fst ` set (mw_refs w')" by (rule subset_trans [OF one2 rest2])
  have "no_issues w' \<longleftrightarrow> no_issues w \<and> (\<forall>c \<in> set (c # cs). good_call lookup self c)"
    unfolding rest3 one3 by simp
  then show ?case using rest [THEN conjunct1] ans sub rest [THEN conjunct2, THEN conjunct1] by simp
qed simp

definition good_doc :: "(string \<Rightarrow> error + ModuleCall list \<times> BPMNValidationError list) \<Rightarrow> moduleLookup \<Rightarrow> string \<Rightarrow> string \<Rightarrow> bool" where
  "good_doc moduleCalls lookup self xml \<longleftrightarrow>
     issues_of moduleCalls xml = [] \<and> (\<forall>c \<in> set (calls_of moduleCalls xml). good_call lookup self c)"

text \<open>What is known of the documents that were walked.\<close>

definition walked_docs :: "(string \<Rightarrow> error + ModuleCall list \<times> BPMNValidationError list) \<Rightarrow> moduleLookup \<Rightarrow> string
    \<Rightarrow> pendingDoc set \<Rightarrow> moduleWalk \<Rightarrow> bool" where
  "walked_docs moduleCalls lookup self D w \<longleftrightarrow>
     (\<forall>doc \<in> D. \<forall>c \<in> set (calls_of moduleCalls (pd_xml doc)). answered lookup self w c) \<and>
     (no_issues w \<longleftrightarrow> (\<forall>doc \<in> D. good_doc moduleCalls lookup self (pd_xml doc)))"

lemma reached_call:
  assumes "docs_ok (reached moduleCalls lookup self mainXML) mainXML D w" and "doc \<in> D \<union> set (mw_queue w)"
    and "c \<in> set (calls_of moduleCalls (pd_xml doc))" and "\<not> is_self self c"
    and "lookup (mc_ProcessID c) (mc_VersionNumber c) = Inr v"
  shows "reached moduleCalls lookup self mainXML v"
proof -
  from assms(1,2) consider "doc = main_doc mainXML" | u where "reached moduleCalls lookup self mainXML u" "doc = doc_of u"
    unfolding docs_ok_def by blast
  then show ?thesis using assms(3-5) by cases (auto simp: doc_of_def intro: reached.intros)
qed

lemma visit_doc_ok:
  assumes ok: "walk_ok lookup (reached moduleCalls lookup self mainXML) mainXML D w" and queue: "mw_queue w = doc # rest"
    and visit: "visit_doc moduleCalls lookup self doc (w\<lparr>mw_queue := rest\<rparr>) = Inr w'" and docs: "walked_docs moduleCalls lookup self D w"
  shows "walk_ok lookup (reached moduleCalls lookup self mainXML) mainXML (insert doc D) w' \<and>
    walked_docs moduleCalls lookup self (insert doc D) w'"
proof -
  let ?R = "reached moduleCalls lookup self mainXML"
  let ?w = "w\<lparr>mw_queue := rest\<rparr>"
  from visit obtain calls callIssues where mc: "moduleCalls (pd_xml doc) = Inr (calls, callIssues)"
    and vc: "visit_calls lookup self doc calls (fold (report doc) callIssues ?w) = Inr w'"
    by (auto simp: visit_doc_def bindE_eq_Inr)
  have of: "calls_of moduleCalls (pd_xml doc) = calls" "issues_of moduleCalls (pd_xml doc) = callIssues"
    using mc by (simp_all add: calls_of_def issues_of_def)
  from ok have d: "docs_ok ?R mainXML D w" and l: "leads_ok ?w" and i: "issues_ok ?w"
    by (simp_all add: walk_ok_def leads_ok_def issues_ok_def)
  have same: "insert doc D \<union> set rest = D \<union> set (mw_queue w)" using queue by auto
  have ok1: "walk_ok lookup ?R mainXML (insert doc D) ?w"
    using ok l i same by (simp add: walk_ok_def keys_ok_def refs_ok_def docs_ok_def)
  then have d1: "docs_ok ?R mainXML (insert doc D) ?w" by (simp add: walk_ok_def)
  note src = doc_source(1) [OF d1 l insertI1]
  note rep = issues_ok_reports [OF i src, of callIssues]
  have ok2: "walk_ok lookup ?R mainXML (insert doc D) (fold (report doc) callIssues ?w)"
    using ok1 rep(1) by (simp add: walk_ok_def)
  have step: "walk_ok lookup ?R mainXML (insert doc D) w' \<and> (\<forall>c \<in> set calls. answered lookup self w' c) \<and>
      fst ` set (mw_refs (fold (report doc) callIssues ?w)) \<subseteq> fst ` set (mw_refs w') \<and>
      (no_issues w' \<longleftrightarrow> no_issues (fold (report doc) callIssues ?w) \<and> (\<forall>c \<in> set calls. good_call lookup self c))"
    by (rule visit_calls_ok [OF ok2 insertI1 vc]) (rule reached_call [OF d, of doc], use queue of in simp_all)
  moreover have "no_issues ?w = no_issues w" by (simp add: no_issues_def)
  ultimately have "no_issues w' \<longleftrightarrow> no_issues w \<and> good_doc moduleCalls lookup self (pd_xml doc)"
    using rep(2) by (auto simp: good_doc_def of)
  moreover have "answered lookup self w' c" if "doc' \<in> D" "c \<in> set (calls_of moduleCalls (pd_xml doc'))" for doc' c
    using docs that step answered_mono [of lookup self w c w'] by (simp add: walked_docs_def)
  ultimately show ?thesis using step docs by (auto simp: walked_docs_def of)
qed

lemma walk_queue_induct [consumes 1, case_names finished failed visited]:
  assumes "walk_queue moduleCalls lookup self w = Some r"
    and fin: "\<And>w. mw_queue w = [] \<Longrightarrow> P w (Inr w)"
    and fail: "\<And>w doc rest e. mw_queue w = doc # rest \<Longrightarrow>
      visit_doc moduleCalls lookup self doc (w\<lparr>mw_queue := rest\<rparr>) = Inl e \<Longrightarrow> P w (Inl e)"
    and visit: "\<And>w doc rest w' r. mw_queue w = doc # rest \<Longrightarrow>
      visit_doc moduleCalls lookup self doc (w\<lparr>mw_queue := rest\<rparr>) = Inr w' \<Longrightarrow> P w' r \<Longrightarrow> P w r"
  shows "P w r"
proof -
  have "m = moduleCalls \<longrightarrow> l = lookup \<longrightarrow> s = self \<longrightarrow> P w r" if "walk_queue m l s w = Some r" for m l s
    using _ that
  proof (rule walk_queue.raw_induct, intro impI)
    fix f m l s w r
    assume IH: "\<And>m l s w r. f m l s w = Some r \<Longrightarrow> m = moduleCalls \<longrightarrow> l = lookup \<longrightarrow> s = self \<longrightarrow> P w r"
      and body: "(case mw_queue w of [] \<Rightarrow> Some (Inr w)
        | doc # rest \<Rightarrow> (case visit_doc m l s doc (w\<lparr>mw_queue := rest\<rparr>) of Inl e \<Rightarrow> Some (Inl e) | Inr w' \<Rightarrow> f m l s w')) = Some r"
      and eq: "m = moduleCalls" "l = lookup" "s = self"
    show "P w r"
    proof (cases "mw_queue w")
      case Nil
      with body fin show ?thesis by auto
    next
      case (Cons doc rest)
      show ?thesis
      proof (cases "visit_doc m l s doc (w\<lparr>mw_queue := rest\<rparr>)")
        case (Inl e)
        with body Cons eq fail show ?thesis by auto
      next
        case (Inr w')
        with body Cons have "f m l s w' = Some r" by simp
        with IH eq have "P w' r" by blast
        with visit Cons Inr eq show ?thesis by blast
      qed
    qed
  qed
  with assms(1) show ?thesis by blast
qed

lemma walk_queue_ok:
  assumes "walk_queue moduleCalls lookup self w = Some r" and "r = Inr w'"
    and "walk_ok lookup (reached moduleCalls lookup self mainXML) mainXML D w" and "walked_docs moduleCalls lookup self D w"
  shows "\<exists>D'. walk_ok lookup (reached moduleCalls lookup self mainXML) mainXML D' w' \<and>
    walked_docs moduleCalls lookup self D' w' \<and> mw_queue w' = []"
  using assms
proof (induction arbitrary: D rule: walk_queue_induct)
  case (visited w doc rest w1 r)
  from visit_doc_ok [OF visited.prems(2) visited.hyps(1,2) visited.prems(3)] visited.IH [OF visited.prems(1)]
  show ?case by blast
qed auto

lemma start_walk_ok:
  "walk_ok lookup R mainXML {} (start_walk mainXML)" "walked_docs moduleCalls lookup self {} (start_walk mainXML)"
  by (simp_all add: walk_ok_def start_walk_def keys_ok_def refs_ok_def docs_ok_def leads_ok_def issues_ok_def walked_docs_def no_issues_def)

text \<open>The end of the walk.\<close>

lemma walk_end:
  assumes walk: "walk_queue moduleCalls lookup self (start_walk mainXML) = Some (Inr w)"
    and inj: "\<And>p n q m u v. lookup p n = Inr u \<Longrightarrow> lookup q m = Inr v \<Longrightarrow> mdv_ID u = mdv_ID v \<Longrightarrow> u = v"
  shows "set (mw_refs w) = {(mdv_ID v, ref_of v) | v. reached moduleCalls lookup self mainXML v}"
    and "leads_ok w" and "issues_ok w"
    and "no_issues w \<longleftrightarrow> good_doc moduleCalls lookup self mainXML \<and>
      (\<forall>v. reached moduleCalls lookup self mainXML v \<longrightarrow> good_doc moduleCalls lookup self (mdv_BPMNXML v))"
proof -
  let ?R = "reached moduleCalls lookup self mainXML"
  from walk_queue_ok [OF walk refl start_walk_ok] obtain D where ok: "walk_ok lookup ?R mainXML D w"
    and docs: "walked_docs moduleCalls lookup self D w" and queue: "mw_queue w = []" by blast
  from ok have r: "refs_ok ?R D w" and d: "docs_ok ?R mainXML D w" and l: "leads_ok w" and i: "issues_ok w" by (simp_all add: walk_ok_def)
  show "leads_ok w" and "issues_ok w" by fact+
  have looked: "\<exists>p n. lookup p n = Inr v" if "?R v" for v using that by cases blast+
  have found: "(mdv_ID v, ref_of v) \<in> set (mw_refs w) \<and> doc_of v \<in> D" if "?R v" "mdv_ID v \<in> fst ` set (mw_refs w)" for v
  proof -
    from that(2) r queue obtain u where u: "?R u" "(mdv_ID u, ref_of u) \<in> set (mw_refs w)" "mdv_ID u = mdv_ID v" "doc_of u \<in> D"
      unfolding refs_ok_def by fastforce
    with inj looked that(1) have "u = v" by blast
    with u show ?thesis by simp
  qed
  have all: "(mdv_ID v, ref_of v) \<in> set (mw_refs w) \<and> doc_of v \<in> D" if "?R v" for v
    using that
  proof (induction rule: reached.induct)
    case (main c v)
    have "main_doc mainXML \<in> D" using d queue by (simp add: docs_ok_def)
    with docs main have "mdv_ID v \<in> fst ` set (mw_refs w)" by (fastforce simp: walked_docs_def answered_def)
    with main show ?case by (intro found) (auto intro: reached.main)
  next
    case (step u c v)
    from step.IH have "doc_of u \<in> D" by blast
    with docs step have "mdv_ID v \<in> fst ` set (mw_refs w)" by (fastforce simp: walked_docs_def answered_def doc_of_def)
    with step show ?case by (intro found) (auto intro: reached.step)
  qed
  show "set (mw_refs w) = {(mdv_ID v, ref_of v) | v. ?R v}"
  proof
    show "set (mw_refs w) \<subseteq> {(mdv_ID v, ref_of v) | v. ?R v}" using r unfolding refs_ok_def by blast
    show "{(mdv_ID v, ref_of v) | v. ?R v} \<subseteq> set (mw_refs w)" using all by blast
  qed
  have "D = insert (main_doc mainXML) (doc_of ` {v. ?R v})"
  proof
    show "D \<subseteq> insert (main_doc mainXML) (doc_of ` {v. ?R v})" using d unfolding docs_ok_def by blast
    show "insert (main_doc mainXML) (doc_of ` {v. ?R v}) \<subseteq> D" using all d queue by (auto simp: docs_ok_def)
  qed
  with docs show "no_issues w \<longleftrightarrow> good_doc moduleCalls lookup self mainXML \<and>
      (\<forall>v. ?R v \<longrightarrow> good_doc moduleCalls lookup self (mdv_BPMNXML v))"
    by (auto simp: walked_docs_def doc_of_def)
qed

text \<open>Every issue inside a module is attributed, so none is lost.\<close>

definition routed :: "moduleWalk \<Rightarrow> uuid \<Rightarrow> BPMNValidationError set" where
  "routed w v = {e\<lparr>be_NodeID := c\<rparr> | e c. e \<in> set (mget_or [] (mw_docIssues w) v) \<and> leads (mw_reachedBy w) {} v c}"

lemma attribute_versions:
  assumes "memo_ok (mw_reachedBy w) (snd acc)"
  shows "set (fst (fold (attribute_version w) vs acc)) = set (fst acc) \<union> (\<Union>v \<in> set vs. routed w v)"
  using assms
proof (induction vs arbitrary: acc)
  case (Cons v vs)
  obtain issues memo where acc: "acc = (issues, memo)" by (cases acc)
  obtain found ok memo1 where r: "routes (mw_reachedBy w) v memo {} = (found, ok, memo1)" by (metis prod_cases3)
  from routes_exact [OF _ r] Cons.prems acc
  have set: "set found = {c. leads (mw_reachedBy w) {} v c}" and memo: "memo_ok (mw_reachedBy w) memo1" by simp_all
  let ?acc = "attribute_version w v acc"
  have "set (concat (map (\<lambda>c. map (\<lambda>e. e\<lparr>be_NodeID := c\<rparr>) (mget_or [] (mw_docIssues w) v)) found)) = routed w v"
    using set by (auto simp: routed_def)
  then have "snd ?acc = memo1" and "set (fst ?acc) = set issues \<union> routed w v"
    by (simp_all add: attribute_version_def acc r)
  with Cons.IH [of ?acc] memo show ?case by (auto simp: acc)
qed simp

lemma attributed: "set (attributeModuleIssues w) = set (mw_issues w) \<union> (\<Union>v \<in> set (mw_issueOrder w). routed w v)"
  using attribute_versions [of w "(mw_issues w, [])" "mw_issueOrder w"] by (simp add: attributeModuleIssues_def memo_ok_def)

lemma attributed_Nil:
  assumes "leads_ok w" and "issues_ok w"
  shows "attributeModuleIssues w = [] \<longleftrightarrow> no_issues w"
proof
  assume none: "attributeModuleIssues w = []"
  have "mw_issueOrder w = []"
  proof (rule ccontr)
    assume "mw_issueOrder w \<noteq> []"
    then obtain v where v: "v \<in> set (mw_issueOrder w)" by (cases "mw_issueOrder w") auto
    with assms(2) obtain e where "e \<in> set (mget_or [] (mw_docIssues w) v)"
      by (fastforce simp: issues_ok_def neq_Nil_conv)
    moreover have "v \<in> fst ` set (mw_refs w)" using v assms(2) unfolding issues_ok_def by blast
    then obtain c where "leads (mw_reachedBy w) {} v c" using assms(1) unfolding leads_ok_def by blast
    ultimately show False using attributed [of w] none v by (auto simp: routed_def)
  qed
  with attributed [of w] none show "no_issues w" by (simp add: no_issues_def)
qed (use attributed [of w] in \<open>simp add: no_issues_def\<close>)

lemma set_sort_refs [simp]: "set (sort_refs refs) = set refs"
  by (simp add: sort_refs_def)

lemma resolve_modules_correct:
  assumes res: "resolve_modules moduleCalls bundleModules lookup mainXML self = Some (Inr res)"
    and inj: "\<And>p n q m u v. lookup p n = Inr u \<Longrightarrow> lookup q m = Inr v \<Longrightarrow> mdv_ID u = mdv_ID v \<Longrightarrow> u = v"
  shows "rs_issues res = [] \<longleftrightarrow> good_doc moduleCalls lookup self mainXML \<and>
      (\<forall>v. reached moduleCalls lookup self mainXML v \<longrightarrow> good_doc moduleCalls lookup self (mdv_BPMNXML v))"
    and "rs_issues res = [] \<Longrightarrow> set (rs_refs res) = ref_of ` {v. reached moduleCalls lookup self mainXML v}"
proof -
  from res obtain w where walk: "walk_queue moduleCalls lookup self (start_walk mainXML) = Some (Inr w)"
    and fin: "finish_walk bundleModules mainXML w = Inr res"
    by (auto simp: resolve_modules_def bindE_eq_Inr)
  note end' = walk_end [OF walk inj]
  have iff: "rs_issues res = [] \<longleftrightarrow> no_issues w"
    using fin attributed_Nil [OF end'(2,3)] by (auto simp: finish_walk_def Let_def bindE_eq_Inr split: if_splits)
  with end'(4) show "rs_issues res = [] \<longleftrightarrow> good_doc moduleCalls lookup self mainXML \<and>
      (\<forall>v. reached moduleCalls lookup self mainXML v \<longrightarrow> good_doc moduleCalls lookup self (mdv_BPMNXML v))" by simp
  assume "rs_issues res = []"
  with fin have "rs_refs res = sort_refs (map snd (mw_refs w))"
    by (auto simp: finish_walk_def Let_def bindE_eq_Inr split: if_splits)
  then show "set (rs_refs res) = ref_of ` {v. reached moduleCalls lookup self mainXML v}"
    using end'(1) by force
qed

end
