(* ===== verification/Module_Services.thy ===== *)
theory Module_Services
  imports Module_Resolution_Correct
begin

text \<open>
  \<open>module_service.go\<close>: the library of modules.  The compiler is an argument; the resolver is the one of
  \<open>Module_Resolution\<close> over the live tables, so a method that validates content is a partial function, whose
  value \<open>None\<close> would mean that the resolver does not return.  The repositories of the tenant pool and of the
  system pool work on the same tables.
\<close>

record module_compiler =
  mcp_ProcessID :: "string \<Rightarrow> error + string"
  mcp_ModuleCalls :: "string \<Rightarrow> error + ModuleCall list \<times> BPMNValidationError list"
  mcp_BundleModules :: "string \<Rightarrow> ResolvedModule list \<Rightarrow> error + string"
  mcp_ValidateModule :: "string \<Rightarrow> string \<Rightarrow> bool \<Rightarrow> error + BPMNValidationError list"

text \<open>\<open>fk_module_active_version\<close>, checked at the end of the transaction.\<close>

definition module_fk :: "mdb \<Rightarrow> bool" where
  "module_fk db \<longleftrightarrow> (\<forall>m \<in> set (mdb_modules db). case mo_ActiveVersionID m of
     None \<Rightarrow> True | Some vid \<Rightarrow> \<exists>v \<in> set (mdb_versions db). mv_ID v = vid)"

definition RunInModuleTx :: "'a mrepo \<Rightarrow> 'a mrepo" where
  "RunInModuleTx body = (\<lambda>db. bindE (body db) (\<lambda>(a, db'). if module_fk db' then Inr (a, db') else Inl ErrDatabase))"

lemma RunInModuleTx_Inr [res_simps]: "RunInModuleTx body db = Inr (a, db') \<longleftrightarrow> body db = Inr (a, db') \<and> module_fk db'"
  by (auto simp: RunInModuleTx_def bindE_eq_Inr split: if_splits)

subsection \<open>Content\<close>

definition blockingErrors :: "BPMNValidationError list \<Rightarrow> BPMNValidationError list" where
  "blockingErrors errs = filter (\<lambda>e. be_Severity e \<noteq> SeverityWarning) errs"

definition module_bundle :: "module_compiler \<Rightarrow> mdb \<Rightarrow> uuid \<Rightarrow> CatalogScope \<Rightarrow> string \<Rightarrow> string \<Rightarrow> (error + string) option" where
  "module_bundle pc db callerTenantID scope bpmnXML processID =
     (let resolveAs = (if scope = ScopeGlobal then uuid_Nil else callerTenantID)
      in map_option (\<lambda>r. bindE r (\<lambda>res.
           if rs_issues res \<noteq> [] then Inl (ValidationFailedError (rs_issues res)) else Inr (rs_bundled res)))
         (resolve_modules (mcp_ModuleCalls pc) (mcp_BundleModules pc) (live resolveAs db) bpmnXML processID))"

definition validateContent :: "module_compiler \<Rightarrow> mdb \<Rightarrow> uuid \<Rightarrow> CatalogScope \<Rightarrow> string \<Rightarrow> string \<Rightarrow> (error + unit) option" where
  "validateContent pc db callerTenantID scope bpmnXML processID =
     map_option (\<lambda>r. bindE r (\<lambda>bundled.
         bindE (mcp_ValidateModule pc bundled processID (scope = ScopeGlobal)) (\<lambda>errs.
           if blockingErrors errs \<noteq> [] then Inl (ValidationFailedError (blockingErrors errs)) else Inr ())))
       (module_bundle pc db callerTenantID scope bpmnXML processID)"

text \<open>Goes on with an action when the content is valid.\<close>

definition when_valid :: "(error + unit) option \<Rightarrow> 'a mrepo \<Rightarrow> mdb \<Rightarrow> (error + 'a \<times> mdb) option" where
  "when_valid r act db = map_option (\<lambda>r. bindE r (\<lambda>_. act db)) r"

subsection \<open>Create\<close>

definition new_module :: "uuid \<Rightarrow> uuid option \<Rightarrow> CatalogScope \<Rightarrow> string \<Rightarrow> string \<Rightarrow> string \<Rightarrow> uuid \<Rightarrow> Module" where
  "new_module mid tenantID scope name description processID userID = \<lparr>md_ID = mid, md_TenantID = tenantID, md_Scope = scope,
     md_Name = name, md_Description = description, md_ProcessID = processID, md_ActiveVersionID = None,
     md_CreatedByUserID = Some userID, md_RecordVersion = 0, md_CreatedAt = 0, md_UpdatedAt = 0\<rparr>"

definition new_module_version :: "uuid \<Rightarrow> uuid \<Rightarrow> uuid option \<Rightarrow> CatalogScope \<Rightarrow> string \<Rightarrow> string \<Rightarrow> uuid \<Rightarrow> ModuleVersion" where
  "new_module_version vid mid tenantID scope bpmnXML processID userID = \<lparr>mdv_ID = vid, mdv_ModuleID = mid,
     mdv_TenantID = tenantID, mdv_Scope = scope, mdv_Status = VersionStatusDraft, mdv_BPMNXML = bpmnXML,
     mdv_ProcessID = processID, mdv_VersionNumber = None, mdv_IsValid = True, mdv_ValidationErrorsJSON = None,
     mdv_PublishedAt = None, mdv_CreatedByUserID = Some userID, mdv_RecordVersion = 0, mdv_CreatedAt = 0, mdv_UpdatedAt = 0\<rparr>"

definition create_module_tx :: "time \<Rightarrow> uuid option \<Rightarrow> string \<Rightarrow> Module \<Rightarrow> ModuleVersion \<Rightarrow> unit mrepo" where
  "create_module_tx now tenantID processID m v =
     bind_act (ModuleRepo_ProcessIDInUse tenantID processID) (\<lambda>inUse.
       if inUse then fail_act ErrModuleProcessIDTaken
       else bind_act (ModuleRepo_Create now m) (\<lambda>_. ModuleVersionRepo_Create now v))"

text \<open>\<open>scope\<close> is \<open>None\<close> when the request leaves it empty.\<close>

definition ModuleService_Create :: "module_compiler \<Rightarrow> time \<Rightarrow> uuid \<Rightarrow> uuid \<Rightarrow> uuid \<Rightarrow> uuid \<Rightarrow> string \<Rightarrow> string \<Rightarrow> string
    \<Rightarrow> CatalogScope option \<Rightarrow> mdb \<Rightarrow> (error + (Module \<times> ModuleVersion) \<times> mdb) option" where
  "ModuleService_Create pc now moduleID versionID callerTenantID userID name description bpmnXML scope db =
     (let scope = (case scope of None \<Rightarrow> ScopeTenant | Some s \<Rightarrow> s)
      in case mcp_ProcessID pc bpmnXML of
           Inl e \<Rightarrow> Some (Inl e)
         | Inr processID \<Rightarrow>
             (let tenantID = (if scope \<noteq> ScopeGlobal then Some callerTenantID else None);
                  m = new_module moduleID tenantID scope name description processID userID;
                  v = new_module_version versionID moduleID tenantID scope bpmnXML processID userID
              in when_valid (validateContent pc db callerTenantID scope bpmnXML processID)
                   (bind_act (RunInModuleTx (create_module_tx now tenantID processID m v)) (\<lambda>_. return_act (m, v))) db))"

subsection \<open>Reads\<close>

definition ModuleService_Get :: "uuid \<Rightarrow> uuid \<Rightarrow> (Module \<times> ModuleVersion option) mrepo" where
  "ModuleService_Get callerTenantID moduleID =
     bind_act (ModuleRepo_GetByID callerTenantID moduleID) (\<lambda>m.
       case md_ActiveVersionID m of
         None \<Rightarrow> return_act (m, None)
       | Some active \<Rightarrow> bind_act (ModuleVersionRepo_GetByID callerTenantID active) (\<lambda>v. return_act (m, Some v)))"

definition ModuleService_GetVersion :: "uuid \<Rightarrow> uuid \<Rightarrow> uuid \<Rightarrow> ModuleVersion mrepo" where
  "ModuleService_GetVersion callerTenantID moduleID versionID =
     bind_act (ModuleVersionRepo_GetByID callerTenantID versionID) (\<lambda>v.
       if mdv_ModuleID v \<noteq> moduleID then fail_act ErrNotFound else return_act v)"

text \<open>A usage row: a workflow version with one of its references to the module.\<close>

record ModuleUsage =
  mu_WorkflowID :: uuid
  mu_WorkflowKey :: string
  mu_WorkflowName :: string
  mu_VersionID :: uuid
  mu_VersionNumber :: "nat option"
  mu_Status :: VersionStatus
  mu_ModuleVersionNumber :: nat
  mu_Behind :: bool

text \<open>Rows of one workflow name and version number come in the order of the module version number.\<close>

definition ListModuleUsages :: "uuid \<Rightarrow> uuid \<Rightarrow> db \<Rightarrow> ModuleUsage list" where
  "ListModuleUsages tenantID moduleID db =
     sort_key mu_WorkflowName (sort_key (\<lambda>u. case mu_VersionNumber u of None \<Rightarrow> 0 | Some n \<Rightarrow> - int n - 1)
       (sort_key mu_ModuleVersionNumber
         (concat (map (\<lambda>v. concat (map (\<lambda>w. map (\<lambda>r. \<lparr>mu_WorkflowID = vr_WorkflowID v, mu_WorkflowKey = wr_TemplateKey w,
               mu_WorkflowName = wr_Name w, mu_VersionID = vr_ID v, mu_VersionNumber = vr_VersionNumber v, mu_Status = vr_Status v,
               mu_ModuleVersionNumber = mr_VersionNumber r, mu_Behind = False\<rparr>)
             (filter (\<lambda>r. mr_ModuleID r = moduleID) (vr_ModuleRefs v)))
           (filter (\<lambda>w. wr_ID w = vr_WorkflowID v) (db_workflows db))))
         (filter (\<lambda>v. vr_TenantID v = tenantID) (db_versions db))))))"

definition ModuleService_Usages :: "db \<Rightarrow> uuid \<Rightarrow> uuid \<Rightarrow> ModuleUsage list mrepo" where
  "ModuleService_Usages wdb callerTenantID moduleID =
     bind_act (ModuleRepo_GetByID callerTenantID moduleID) (\<lambda>m.
     bind_act (case md_ActiveVersionID m of
         None \<Rightarrow> return_act 0
       | Some active \<Rightarrow> bind_act (ModuleVersionRepo_GetByID callerTenantID active)
           (\<lambda>v. return_act (case mdv_VersionNumber v of None \<Rightarrow> 0 | Some n \<Rightarrow> n))) (\<lambda>active.
     return_act (map (\<lambda>u. u\<lparr>mu_Behind := mu_ModuleVersionNumber u < active\<rparr>) (ListModuleUsages callerTenantID moduleID wdb))))"

subsection \<open>Versions\<close>

definition resolveVersionXML :: "uuid \<Rightarrow> Module \<Rightarrow> string option \<Rightarrow> string mrepo" where
  "resolveVersionXML callerTenantID m bpmnXML =
     (case bpmnXML of
        Some xml \<Rightarrow> return_act xml
      | None \<Rightarrow>
          (case md_ActiveVersionID m of
             None \<Rightarrow> fail_act ErrNoActiveVersion
           | Some active \<Rightarrow> bind_act (ModuleVersionRepo_GetByID callerTenantID active) (\<lambda>v. return_act (mdv_BPMNXML v))))"

definition ModuleService_AddVersion :: "module_compiler \<Rightarrow> time \<Rightarrow> uuid \<Rightarrow> uuid \<Rightarrow> uuid \<Rightarrow> uuid \<Rightarrow> string option
    \<Rightarrow> mdb \<Rightarrow> (error + ModuleVersion \<times> mdb) option" where
  "ModuleService_AddVersion pc now versionID callerTenantID userID moduleID bpmnXML db =
     (case bind_act (ModuleRepo_GetByID callerTenantID moduleID) (\<lambda>m.
           bind_act (resolveVersionXML callerTenantID m bpmnXML) (\<lambda>xml.
           bind_act (lift_act (mcp_ProcessID pc xml)) (\<lambda>processID.
             if processID \<noteq> md_ProcessID m then fail_act ErrModuleProcessIDChanged else return_act (m, xml)))) db of
        Inl e \<Rightarrow> Some (Inl e)
      | Inr ((m, xml), _) \<Rightarrow>
          (let v = new_module_version versionID moduleID (md_TenantID m) (md_Scope m) xml (md_ProcessID m) userID
           in when_valid (validateContent pc db callerTenantID (md_Scope m) xml (md_ProcessID m))
                (bind_act (ModuleVersionRepo_Create now v) (\<lambda>_. return_act v)) db))"

definition publish_module_tx :: "time \<Rightarrow> uuid \<Rightarrow> uuid \<Rightarrow> uuid \<Rightarrow> nat mrepo" where
  "publish_module_tx now callerTenantID moduleID versionID =
     bind_act (ModuleVersionRepo_NextVersionNumber moduleID) (\<lambda>n.
     bind_act (ModuleVersionRepo_Publish now callerTenantID versionID n) (\<lambda>_.
     bind_act (ModuleRepo_UpdateActiveVersion now moduleID (Some versionID)) (\<lambda>_. return_act n)))"

definition ModuleService_Publish :: "module_compiler \<Rightarrow> time \<Rightarrow> uuid \<Rightarrow> uuid \<Rightarrow> uuid \<Rightarrow> mdb \<Rightarrow> (error + ModuleVersion \<times> mdb) option" where
  "ModuleService_Publish pc now callerTenantID moduleID versionID db =
     (case bind_act (ModuleVersionRepo_GetByID callerTenantID versionID) (\<lambda>draft.
             if mdv_ModuleID draft \<noteq> moduleID then fail_act ErrNotFound
             else if mdv_Status draft \<noteq> VersionStatusDraft then fail_act ErrInvalidVersionStatus
             else return_act draft) db of
        Inl e \<Rightarrow> Some (Inl e)
      | Inr (draft, _) \<Rightarrow>
          when_valid (validateContent pc db callerTenantID (mdv_Scope draft) (mdv_BPMNXML draft) (mdv_ProcessID draft))
            (bind_act (RunInModuleTx (publish_module_tx now callerTenantID moduleID versionID)) (\<lambda>n.
               return_act (draft\<lparr>mdv_Status := VersionStatusPublished, mdv_VersionNumber := Some n\<rparr>))) db)"

definition archive_module_tx :: "time \<Rightarrow> uuid \<Rightarrow> uuid \<Rightarrow> uuid mrepo" where
  "archive_module_tx now callerTenantID moduleID =
     bind_act (ModuleRepo_GetByID callerTenantID moduleID) (\<lambda>current.
       case md_ActiveVersionID current of
         None \<Rightarrow> fail_act ErrNoActiveVersion
       | Some active \<Rightarrow>
           bind_act (ModuleVersionRepo_Archive now callerTenantID active) (\<lambda>_.
           bind_act (ModuleRepo_UpdateActiveVersion now moduleID None) (\<lambda>_. return_act active)))"

definition ModuleService_Archive :: "time \<Rightarrow> uuid \<Rightarrow> uuid \<Rightarrow> uuid mrepo" where
  "ModuleService_Archive now callerTenantID moduleID =
     bind_act (ModuleRepo_GetByID callerTenantID moduleID) (\<lambda>m.
       if md_ActiveVersionID m = None then fail_act ErrNoActiveVersion
       else RunInModuleTx (archive_module_tx now callerTenantID moduleID))"

end
