(* ===== verification/Module_Steps.thy ===== *)
theory Module_Steps
  imports Module_Services Workflow_Steps
begin

text \<open>
  The runs of the module store, as in \<open>Workflow_Steps\<close>: a step is one committed transaction with any
  arguments.  The step of \<open>AddVersion\<close> takes the identity columns of the module row it read before, which
  never change.  A batch of the purge of a departed tenant may come at any time.  The store keeps the contract of versions, process identifiers name at most one of the
  modules a tenant sees, and a call is resolved to a published version of the module it names.
\<close>

inductive mod_step :: "mdb \<Rightarrow> mdb \<Rightarrow> bool" where
  create: "RunInModuleTx (create_module_tx now tenantID processID (new_module mid tenantID scope name description processID userID)
      (new_module_version vid mid tenantID scope xml processID userID)) db = Inr ((), db') \<Longrightarrow>
    tenantID = (if scope \<noteq> ScopeGlobal then Some callerTenantID else None) \<Longrightarrow> mod_step db db'"
| add: "ModuleVersionRepo_Create now (new_module_version vid (mo_ID m) (mo_TenantID m) (mo_Scope m) xml (mo_ProcessID m) userID) db
      = Inr ((), db') \<Longrightarrow> m \<in> set (mdb_modules db) \<Longrightarrow> mod_step db db'"
| publish: "RunInModuleTx (publish_module_tx now callerTenantID moduleID versionID) db = Inr (n, db') \<Longrightarrow> mod_step db db'"
| archive: "RunInModuleTx (archive_module_tx now callerTenantID moduleID) db = Inr (vid, db') \<Longrightarrow> mod_step db db'"
| purge: "RunInModuleTx (\<lambda>db. Inr (PurgeTenantModules now order tenantID limit db)) db = Inr (n, db') \<Longrightarrow> mod_step db db'"

inductive_cases mod_step_cases: "mod_step db db'"

subsection \<open>Keys and fixed columns\<close>

definition mkey_of :: "mversion_row \<Rightarrow> vkey" where
  "mkey_of v = \<lparr>k_ID = mv_ID v, k_Owner = mv_ModuleID v, k_Status = mv_Status v, k_Number = mv_VersionNumber v\<rparr>"

definition vmkeys :: "mdb \<Rightarrow> vkey list" where
  "vmkeys db = map mkey_of (mdb_versions db)"

lemma mkey_of_simps [simp]:
  "k_ID (mkey_of v) = mv_ID v" "k_Owner (mkey_of v) = mv_ModuleID v"
  "k_Status (mkey_of v) = mv_Status v" "k_Number (mkey_of v) = mv_VersionNumber v"
  by (simp_all add: mkey_of_def)

lemma touch_mversion_fields [simp]:
  "mv_ID (touch_mversion now v v') = mv_ID v'" "mv_ModuleID (touch_mversion now v v') = mv_ModuleID v'"
  "mv_TenantID (touch_mversion now v v') = mv_TenantID v'" "mv_Scope (touch_mversion now v v') = mv_Scope v'"
  "mv_Status (touch_mversion now v v') = mv_Status v'" "mv_VersionNumber (touch_mversion now v v') = mv_VersionNumber v'"
  "mv_ProcessID (touch_mversion now v v') = mv_ProcessID v'" "mv_BpmnXml (touch_mversion now v v') = mv_BpmnXml v'"
  by (simp_all add: touch_mversion_def)

lemma touch_module_fields [simp]:
  "mo_ID (touch_module now m m') = mo_ID m'" "mo_TenantID (touch_module now m m') = mo_TenantID m'"
  "mo_Scope (touch_module now m m') = mo_Scope m'" "mo_ProcessID (touch_module now m m') = mo_ProcessID m'"
  "mo_ActiveVersionID (touch_module now m m') = mo_ActiveVersionID m'"
  by (simp_all add: touch_module_def)

text \<open>The columns of a module and of a version that no statement changes.\<close>

definition module_cols :: "module_row \<Rightarrow> uuid \<times> CatalogScope \<times> uuid option \<times> string" where
  "module_cols m = (mo_ID m, mo_Scope m, mo_TenantID m, mo_ProcessID m)"

definition mversion_cols :: "mversion_row \<Rightarrow> uuid \<times> CatalogScope \<times> uuid option \<times> string" where
  "mversion_cols v = (mv_ModuleID v, mv_Scope v, mv_TenantID v, mv_ProcessID v)"

definition cols :: "mdb \<Rightarrow> (uuid \<times> CatalogScope \<times> uuid option \<times> string) list" where
  "cols db = map module_cols (mdb_modules db)"

lemma mversion_unique:
  assumes "life_ok (vmkeys db)" "v \<in> set (mdb_versions db)" "v' \<in> set (mdb_versions db)" "mv_ID v = mv_ID v'"
  shows "v = v'"
proof -
  from assms(1) have "distinct (map mv_ID (mdb_versions db))"
    using life_ok_facts(1) [OF assms(1)] by (simp add: vmkeys_def comp_def)
  with assms(2-4) show ?thesis by (auto simp: distinct_map dest: inj_onD)
qed

lemma vmkeys_on_id:
  assumes "mdb_versions db' = map h (mdb_versions db)"
    and "\<And>x. x \<in> set (mdb_versions db) \<Longrightarrow> mkey_of (h x) = (if mv_ID x = i then f (mkey_of x) else mkey_of x)"
  shows "vmkeys db' = on_id i f (vmkeys db)"
  using assms by (simp add: vmkeys_def on_id_def)

subsection \<open>Effects\<close>

lemma ModuleRepo_GetByID_Inr:
  "ModuleRepo_GetByID callerTenantID mid db = Inr (m, db') \<longleftrightarrow> db' = db \<and>
     (\<exists>row. find (\<lambda>m. mo_ID m = mid \<and> visible callerTenantID (mo_Scope m) (mo_TenantID m)) (mdb_modules db) = Some row \<and> m = moduleFromDB row)"
  by (auto simp: ModuleRepo_GetByID_def GetModuleByID_def split: option.splits)

lemma ModuleVersionRepo_GetByID_Inr:
  "ModuleVersionRepo_GetByID callerTenantID vid db = Inr (v, db') \<longleftrightarrow> db' = db \<and>
     (\<exists>row. find (\<lambda>v. mv_ID v = vid \<and> visible callerTenantID (mv_Scope v) (mv_TenantID v)) (mdb_versions db) = Some row \<and>
       v = moduleVersionFromDB row)"
  by (auto simp: ModuleVersionRepo_GetByID_def GetModuleVersionByID_def split: option.splits)

definition mactive_target :: "mdb \<Rightarrow> uuid \<Rightarrow> uuid \<Rightarrow> bool" where
  "mactive_target db mid vid \<longleftrightarrow> (\<exists>v \<in> set (mdb_versions db). mv_ID v = vid \<and> mv_ModuleID v = mid \<and> mv_Status v = VersionStatusPublished)"

lemma module_activate_effect:
  assumes "ModuleRepo_UpdateActiveVersion now mid versionID db = Inr (u, db')"
  shows "mdb_versions db' = mdb_versions db" and "cols db' = cols db"
    and "m \<in> set (mdb_modules db') \<Longrightarrow> mo_ID m \<noteq> mid \<Longrightarrow> m \<in> set (mdb_modules db)"
    and "m \<in> set (mdb_modules db') \<Longrightarrow> mo_ID m = mid \<Longrightarrow> mo_ActiveVersionID m = versionID"
    and "versionID = Some vid \<Longrightarrow> mactive_target db mid vid"
proof -
  let ?P = "\<lambda>m. mo_ID m = mid \<and> may_activate_module db versionID m"
  from assms have some: "\<exists>m \<in> set (mdb_modules db). ?P m" and db': "db' = db\<lparr>mdb_modules := map (\<lambda>m. if ?P m
      then touch_module now m (m\<lparr>mo_ActiveVersionID := versionID, mo_UpdatedAt := now\<rparr>) else m) (mdb_modules db)\<rparr>"
    by (auto simp: ModuleRepo_UpdateActiveVersion_def UpdateModuleActiveVersion_def Let_def filter_empty_conv split: if_splits)
  have all: "may_activate_module db versionID m \<longleftrightarrow> may_activate_module db versionID m'" if "mo_ID m = mo_ID m'" for m m'
    using that by (simp add: may_activate_module_def split: option.splits)
  show "mdb_versions db' = mdb_versions db" by (simp add: db')
  show "cols db' = cols db" by (simp add: db' cols_def module_cols_def)
  show "m \<in> set (mdb_modules db') \<Longrightarrow> mo_ID m \<noteq> mid \<Longrightarrow> m \<in> set (mdb_modules db)"
    by (auto simp: db' split: if_splits)
  show "mo_ActiveVersionID m = versionID" if m: "m \<in> set (mdb_modules db')" "mo_ID m = mid"
  proof -
    from m(1) obtain m1 where m1: "m1 \<in> set (mdb_modules db)"
      "m = (if ?P m1 then touch_module now m1 (m1\<lparr>mo_ActiveVersionID := versionID, mo_UpdatedAt := now\<rparr>) else m1)"
      by (auto simp: db')
    have "?P m1"
    proof (rule ccontr)
      assume no: "\<not> ?P m1"
      with m1 m(2) have "mo_ID m1 = mid" by simp
      with some all [of m1] no show False by auto
    qed
    with m1(2) show ?thesis by simp
  qed
  show "versionID = Some vid \<Longrightarrow> mactive_target db mid vid"
    using some by (auto simp: may_activate_module_def mactive_target_def)
qed

definition mpublish_guard :: "uuid \<Rightarrow> uuid \<Rightarrow> mversion_row \<Rightarrow> bool" where
  "mpublish_guard callerTenantID vid x \<longleftrightarrow> mv_ID x = vid \<and> mv_Status x = VersionStatusDraft \<and> visible callerTenantID (mv_Scope x) (mv_TenantID x)"

definition mpublish_update :: "time \<Rightarrow> nat \<Rightarrow> mversion_row \<Rightarrow> mversion_row" where
  "mpublish_update now n x = x\<lparr>mv_Status := VersionStatusPublished, mv_VersionNumber := Some n, mv_PublishedAt := Some now\<rparr>"

definition marchive_guard :: "uuid \<Rightarrow> uuid \<Rightarrow> mversion_row \<Rightarrow> bool" where
  "marchive_guard callerTenantID vid x \<longleftrightarrow> mv_ID x = vid \<and> mv_Status x = VersionStatusPublished \<and> visible callerTenantID (mv_Scope x) (mv_TenantID x)"

lemma module_publish_effect:
  assumes "publish_module_tx now callerTenantID mid vid db = Inr (n, db')"
  obtains v db1 where "n = Suc (max_module_number mid db)" and "v \<in> set (mdb_versions db)" and "mpublish_guard callerTenantID vid v"
    and "mdb_versions db' = map (\<lambda>x. if mpublish_guard callerTenantID vid x then touch_mversion now x (mpublish_update now n x) else x) (mdb_versions db)"
    and "mdb_versions db1 = mdb_versions db'" and "cols db1 = cols db" and "mdb_modules db1 = mdb_modules db"
    and "ModuleRepo_UpdateActiveVersion now mid (Some vid) db1 = Inr ((), db')"
proof -
  from assms obtain db1 where n: "n = Suc (max_module_number mid db)"
    and pub: "ModuleVersionRepo_Publish now callerTenantID vid n db = Inr ((), db1)"
    and act: "ModuleRepo_UpdateActiveVersion now mid (Some vid) db1 = Inr ((), db')"
    by (auto simp: publish_module_tx_def res_simps ModuleVersionRepo_NextVersionNumber_def NextModuleVersionNumber_def Let_def
        split: sum.splits if_splits)
  have "db1 = snd (update_mversions now (mpublish_guard callerTenantID vid) (mpublish_update now n) db)"
    and "filter (mpublish_guard callerTenantID vid) (mdb_versions db) \<noteq> []"
    using pub unfolding ModuleVersionRepo_Publish_def PublishModuleVersion_def Let_def mpublish_guard_def [symmetric] mpublish_update_def [symmetric]
    by (auto simp: update_mversions_def filter_empty_conv split: if_splits)
  moreover then obtain v where "v \<in> set (mdb_versions db)" "mpublish_guard callerTenantID vid v" by (auto simp: filter_empty_conv)
  ultimately show thesis
    using module_activate_effect(1) [OF act] n act by (intro that [of v db1]) (simp_all add: update_mversions_def cols_def)
qed

lemma module_archive_effect:
  assumes "archive_module_tx now callerTenantID mid db = Inr (vid, db')"
  obtains v db1 m where "m \<in> set (mdb_modules db)" and "mo_ID m = mid" and "mo_ActiveVersionID m = Some vid"
    and "v \<in> set (mdb_versions db)" and "marchive_guard callerTenantID vid v"
    and "mdb_versions db' = map (\<lambda>x. if marchive_guard callerTenantID vid x then touch_mversion now x (x\<lparr>mv_Status := VersionStatusArchived\<rparr>) else x) (mdb_versions db)"
    and "mdb_versions db1 = mdb_versions db'" and "cols db1 = cols db" and "mdb_modules db1 = mdb_modules db"
    and "ModuleRepo_UpdateActiveVersion now mid None db1 = Inr ((), db')"
proof -
  from assms obtain row db1 where row: "find (\<lambda>m. mo_ID m = mid \<and> visible callerTenantID (mo_Scope m) (mo_TenantID m)) (mdb_modules db) = Some row"
    and active: "mo_ActiveVersionID row = Some vid"
    and arch: "ModuleVersionRepo_Archive now callerTenantID vid db = Inr ((), db1)"
    and act: "ModuleRepo_UpdateActiveVersion now mid None db1 = Inr ((), db')"
    by (auto simp: archive_module_tx_def res_simps ModuleRepo_GetByID_Inr split: option.splits)
  have "db1 = snd (update_mversions now (marchive_guard callerTenantID vid) (\<lambda>x. x\<lparr>mv_Status := VersionStatusArchived\<rparr>) db)"
    and "filter (marchive_guard callerTenantID vid) (mdb_versions db) \<noteq> []"
    using arch unfolding ModuleVersionRepo_Archive_def ArchiveModuleVersion_def Let_def marchive_guard_def [symmetric]
    by (auto simp: update_mversions_def filter_empty_conv split: if_splits)
  moreover then obtain v where "v \<in> set (mdb_versions db)" "marchive_guard callerTenantID vid v" by (auto simp: filter_empty_conv)
  ultimately show thesis
    using module_activate_effect(1) [OF act] act find_SomeD [OF row] active
    by (intro that [of row v db1]) (simp_all add: update_mversions_def cols_def)
qed

lemma module_draft_effect:
  assumes "ModuleVersionRepo_Create now (new_module_version vid mid tenantID scope xml processID userID) db = Inr (u, db')"
  obtains v where "mdb_versions db' = mdb_versions db @ [v]"
    and "mkey_of v = \<lparr>k_ID = vid, k_Owner = mid, k_Status = VersionStatusDraft, k_Number = None\<rparr>"
    and "mversion_cols v = (mid, scope, tenantID, processID)"
    and "mdb_modules db' = mdb_modules db" and "\<forall>x \<in> set (mdb_versions db). mv_ID x \<noteq> vid" and "\<not> has_draft mid (vmkeys db)"
    and "scope_tenant_ok scope tenantID"
proof -
  from assms show thesis
    by (auto simp: ModuleVersionRepo_Create_def CreateModuleVersion_def new_module_version_def has_draft_def vmkeys_def
        split: if_splits intro!: that) (simp_all add: mkey_of_def mversion_cols_def)
qed

text \<open>A purge takes whole modules out, with their versions, and clears pointers.\<close>

definition mowned_by :: "mdb \<Rightarrow> uuid set \<Rightarrow> mversion_row \<Rightarrow> bool" where
  "mowned_by db ids v \<longleftrightarrow> (\<exists>m \<in> set (mdb_modules db). mo_ID m \<in> ids \<and> mv_ModuleID v = mo_ID m \<and>
     (mv_TenantID v \<noteq> None \<and> mv_TenantID v = mo_TenantID m \<or> mv_Scope v = mo_Scope m))"

lemma module_purge_effect:
  assumes "PurgeTenantModules now order tenantID limit db = (n, db')"
  obtains ids where "mdb_versions db' = filter (\<lambda>v. \<not> mowned_by db ids v) (mdb_versions db)"
    and "cols db' = filter (\<lambda>c. fst c \<notin> ids) (cols db)"
    and "\<And>x vid. x \<in> set (mdb_modules db') \<Longrightarrow> mo_ActiveVersionID x = Some vid \<Longrightarrow> x \<in> set (mdb_modules db) \<and> mo_ID x \<notin> ids"
proof -
  define ids where "ids = set (map mo_ID (take limit (sort_key order
    (filter (\<lambda>m. mo_TenantID m = Some tenantID \<and> mo_Scope m = ScopeTenant) (mdb_modules db)))))"
  have P: "(\<exists>m \<in> set (filter (\<lambda>m. mo_ID m \<in> ids) (mdb_modules db)). mv_ModuleID x = mo_ID m \<and>
      (mv_TenantID x \<noteq> None \<and> mv_TenantID x = mo_TenantID m \<or> mv_Scope x = mo_Scope m)) \<longleftrightarrow> mowned_by db ids x" for x
    by (auto simp: mowned_by_def)
  define lost where "lost = filter (mowned_by db ids) (mdb_versions db)"
  note eq = assms [symmetric, unfolded PurgeTenantModules_def Let_def prod.inject, folded ids_def, unfolded P, folded lost_def,
    THEN conjunct2]
  have cols_touch: "module_cols (touch_module now m (m\<lparr>mo_ActiveVersionID := None\<rparr>)) = module_cols m" for m
    by (simp add: module_cols_def)
  show thesis
  proof (rule that [of ids])
    show "mdb_versions db' = filter (\<lambda>v. \<not> mowned_by db ids v) (mdb_versions db)" by (simp add: eq)
    show "cols db' = filter (\<lambda>c. fst c \<notin> ids) (cols db)"
      unfolding cols_def eq filter_map by (auto simp: comp_def cols_touch) (simp add: module_cols_def)
    show "x \<in> set (mdb_modules db) \<and> mo_ID x \<notin> ids" if "x \<in> set (mdb_modules db')" "mo_ActiveVersionID x = Some vid" for x vid
      using that by (auto simp: eq split: if_splits)
  qed
qed

subsection \<open>The invariant\<close>

text \<open>
  Modules have distinct identifiers and scopes that fit their tenants; modules that one tenant can see have
  distinct process identifiers; a version carries its module's columns; and an active pointer names a
  published version of its module.
\<close>

definition sees_both :: "uuid \<times> CatalogScope \<times> uuid option \<times> string \<Rightarrow> uuid \<times> CatalogScope \<times> uuid option \<times> string \<Rightarrow> bool" where
  "sees_both m m' \<longleftrightarrow> fst (snd m) = ScopeGlobal \<or> fst (snd m') = ScopeGlobal \<or> fst (snd (snd m)) = fst (snd (snd m'))"

definition mod_ok :: "mdb \<Rightarrow> bool" where
  "mod_ok db \<longleftrightarrow> distinct (map fst (cols db)) \<and>
     (\<forall>m \<in> set (cols db). scope_tenant_ok (fst (snd m)) (fst (snd (snd m)))) \<and>
     (\<forall>m \<in> set (cols db). \<forall>m' \<in> set (cols db). snd (snd (snd m)) = snd (snd (snd m')) \<longrightarrow> sees_both m m' \<longrightarrow> m = m') \<and>
     mversion_cols ` set (mdb_versions db) \<subseteq> set (cols db) \<and>
     (\<forall>m \<in> set (mdb_modules db). \<forall>vid. mo_ActiveVersionID m = Some vid \<longrightarrow> mactive_target db (mo_ID m) vid)"

lemma mod_ok_facts:
  assumes "mod_ok db"
  shows "distinct (map fst (cols db))"
    and "m \<in> set (cols db) \<Longrightarrow> scope_tenant_ok (fst (snd m)) (fst (snd (snd m)))"
    and "m \<in> set (cols db) \<Longrightarrow> m' \<in> set (cols db) \<Longrightarrow> snd (snd (snd m)) = snd (snd (snd m')) \<Longrightarrow> sees_both m m' \<Longrightarrow> m = m'"
    and "mversion_cols ` set (mdb_versions db) \<subseteq> set (cols db)"
    and "x \<in> set (mdb_modules db) \<Longrightarrow> mo_ActiveVersionID x = Some vid \<Longrightarrow> mactive_target db (mo_ID x) vid"
proof -
  note d = assms [unfolded mod_ok_def]
  show "distinct (map fst (cols db))" by (rule d [THEN conjunct1])
  show "m \<in> set (cols db) \<Longrightarrow> scope_tenant_ok (fst (snd m)) (fst (snd (snd m)))"
    by (rule d [THEN conjunct2, THEN conjunct1, rule_format])
  show "m \<in> set (cols db) \<Longrightarrow> m' \<in> set (cols db) \<Longrightarrow> snd (snd (snd m)) = snd (snd (snd m')) \<Longrightarrow> sees_both m m' \<Longrightarrow> m = m'"
    by (rule d [THEN conjunct2, THEN conjunct2, THEN conjunct1, rule_format])
  show "mversion_cols ` set (mdb_versions db) \<subseteq> set (cols db)"
    by (rule d [THEN conjunct2, THEN conjunct2, THEN conjunct2, THEN conjunct1])
  show "x \<in> set (mdb_modules db) \<Longrightarrow> mo_ActiveVersionID x = Some vid \<Longrightarrow> mactive_target db (mo_ID x) vid"
    by (rule d [THEN conjunct2, THEN conjunct2, THEN conjunct2, THEN conjunct2, rule_format])
qed

lemma mod_ok_move:
  assumes ok: "mod_ok db" and c: "cols db' = cols db" and v: "mversion_cols ` set (mdb_versions db') \<subseteq> mversion_cols ` set (mdb_versions db)"
    and act: "\<And>x vid. x \<in> set (mdb_modules db') \<Longrightarrow> mo_ActiveVersionID x = Some vid \<Longrightarrow> mactive_target db' (mo_ID x) vid"
  shows "mod_ok db'"
  unfolding mod_ok_def c
proof (intro conjI ballI impI allI)
  show "mversion_cols ` set (mdb_versions db') \<subseteq> set (cols db)" using mod_ok_facts(4) [OF ok] v by (rule subset_trans [rotated])
  show "m = m'" if "m \<in> set (cols db)" "m' \<in> set (cols db)" "snd (snd (snd m)) = snd (snd (snd m'))" "sees_both m m'" for m m'
    by (rule mod_ok_facts(3) [OF ok that])
  show "mactive_target db' (mo_ID x) vid" if "x \<in> set (mdb_modules db')" "mo_ActiveVersionID x = Some vid" for x vid
    by (rule act [OF that])
qed (use mod_ok_facts(1,2) [OF ok] in simp_all)

lemma mactive_target_map:
  assumes "mactive_target db mid vid" and "mdb_versions db' = map h (mdb_versions db)"
    and "\<And>v. mv_ID v = vid \<Longrightarrow> mv_Status v = VersionStatusPublished \<Longrightarrow>
      mv_ID (h v) = vid \<and> mv_ModuleID (h v) = mv_ModuleID v \<and> mv_Status (h v) = VersionStatusPublished"
  shows "mactive_target db' mid vid"
proof -
  from assms(1) obtain v where "v \<in> set (mdb_versions db)" "mv_ID v = vid" "mv_ModuleID v = mid" "mv_Status v = VersionStatusPublished"
    by (auto simp: mactive_target_def)
  with assms(3) [of v] assms(2) show ?thesis unfolding mactive_target_def by (intro bexI [of _ "h v"]) auto
qed

lemma mod_ok_publish:
  assumes ok: "mod_ok db" and "publish_module_tx now callerTenantID mid vid db = Inr (n, db')"
  shows "mod_ok db'"
proof (rule module_publish_effect [OF assms(2)])
  fix v db1
  let ?h = "\<lambda>x. if mpublish_guard callerTenantID vid x then touch_mversion now x (mpublish_update now n x) else x"
  assume rows: "mdb_versions db' = map ?h (mdb_versions db)" and db1: "mdb_versions db1 = mdb_versions db'" "cols db1 = cols db"
      "mdb_modules db1 = mdb_modules db"
    and act: "ModuleRepo_UpdateActiveVersion now mid (Some vid) db1 = Inr ((), db')"
  note eff = module_activate_effect [OF act]
  show ?thesis
  proof (rule mod_ok_move [OF ok])
    show "cols db' = cols db" using eff(2) db1 by simp
    show "mversion_cols ` set (mdb_versions db') \<subseteq> mversion_cols ` set (mdb_versions db)"
      by (auto simp: rows mversion_cols_def mpublish_update_def)
    fix x i assume x: "x \<in> set (mdb_modules db')" "mo_ActiveVersionID x = Some i"
    show "mactive_target db' (mo_ID x) i"
    proof (cases "mo_ID x = mid")
      case True
      with eff(4) [OF x(1)] x(2) have "i = vid" by simp
      with eff(5) [OF refl] True show ?thesis by (simp add: mactive_target_def db1(1))
    next
      case False
      with eff(3) [OF x(1)] db1(3) have "x \<in> set (mdb_modules db)" by simp
      from mod_ok_facts(5) [OF ok this x(2)] show ?thesis
        by (rule mactive_target_map [OF _ rows]) (simp add: mpublish_guard_def)
    qed
  qed
qed

lemma mod_ok_archive:
  assumes ok: "mod_ok db" and life: "life_ok (vmkeys db)" and "archive_module_tx now callerTenantID mid db = Inr (vid, db')"
  shows "mod_ok db'"
proof (rule module_archive_effect [OF assms(3)])
  fix v db1 m
  let ?h = "\<lambda>x. if marchive_guard callerTenantID vid x then touch_mversion now x (x\<lparr>mv_Status := VersionStatusArchived\<rparr>) else x"
  assume m: "m \<in> set (mdb_modules db)" "mo_ID m = mid" "mo_ActiveVersionID m = Some vid"
    and rows: "mdb_versions db' = map ?h (mdb_versions db)" and db1: "mdb_versions db1 = mdb_versions db'" "cols db1 = cols db"
      "mdb_modules db1 = mdb_modules db"
    and act: "ModuleRepo_UpdateActiveVersion now mid None db1 = Inr ((), db')"
  note eff = module_activate_effect [OF act]
  show ?thesis
  proof (rule mod_ok_move [OF ok])
    show "cols db' = cols db" using eff(2) db1 by simp
    show "mversion_cols ` set (mdb_versions db') \<subseteq> mversion_cols ` set (mdb_versions db)"
      by (auto simp: rows mversion_cols_def)
    fix x i assume x: "x \<in> set (mdb_modules db')" "mo_ActiveVersionID x = Some i"
    have other: "mo_ID x \<noteq> mid" using eff(4) [OF x(1)] x(2) by auto
    with eff(3) [OF x(1)] db1(3) have old: "x \<in> set (mdb_modules db)" by simp
    from mod_ok_facts(5) [OF ok old x(2)] mod_ok_facts(5) [OF ok m(1,3)]
    obtain u w where u: "u \<in> set (mdb_versions db)" "mv_ID u = i" "mv_ModuleID u = mo_ID x"
      and w: "w \<in> set (mdb_versions db)" "mv_ID w = vid" "mv_ModuleID w = mid"
      unfolding mactive_target_def m(2) by blast
    have "i \<noteq> vid" using mversion_unique [OF life u(1) w(1)] u w other by auto
    then show "mactive_target db' (mo_ID x) i"
      by (intro mactive_target_map [OF mod_ok_facts(5) [OF ok old x(2)] rows]) (auto simp: marchive_guard_def)
  qed
qed

lemma mod_ok_draft:
  assumes ok: "mod_ok db" and "ModuleVersionRepo_Create now (new_module_version vid mid tenantID scope xml processID userID) db = Inr (u, db')"
    and "(mid, scope, tenantID, processID) \<in> set (cols db)"
  shows "mod_ok db'"
proof (rule module_draft_effect [OF assms(2)])
  fix v assume rows: "mdb_versions db' = mdb_versions db @ [v]" and v: "mversion_cols v = (mid, scope, tenantID, processID)"
    and same: "mdb_modules db' = mdb_modules db"
  have "mactive_target db' i j" if "mactive_target db i j" for i j using that by (auto simp: mactive_target_def rows)
  moreover have "cols db' = cols db" by (simp add: cols_def same)
  ultimately show ?thesis
    unfolding mod_ok_def same using mod_ok_facts [OF ok] assms(3) v by (simp add: rows)
qed

lemma module_insert_ok:
  assumes ok: "mod_ok db" and tenant: "tenantID = (if scope \<noteq> ScopeGlobal then Some callerTenantID else None)"
    and free: "\<not> ModuleProcessIDInUse tenantID processID db"
    and ins: "ModuleRepo_Create now (new_module mid tenantID scope name description processID userID) db = Inr (u, db')"
  shows "mod_ok db'" and "(mid, scope, tenantID, processID) \<in> set (cols db')" and "mdb_versions db' = mdb_versions db"
proof -
  from ins obtain r where rows: "mdb_modules db' = mdb_modules db @ [r]" "module_cols r = (mid, scope, tenantID, processID)"
      "mo_ActiveVersionID r = None" "mdb_versions db' = mdb_versions db" "\<forall>x \<in> set (mdb_modules db). mo_ID x \<noteq> mid"
    by (auto simp: ModuleRepo_Create_def CreateModule_def new_module_def module_cols_def split: if_splits)
  have cols': "cols db' = cols db @ [(mid, scope, tenantID, processID)]" by (simp add: cols_def rows)
  have clash: False if m: "m \<in> set (cols db)" and eq: "snd (snd (snd m)) = processID" "sees_both m (mid, scope, tenantID, processID)" for m
  proof -
    obtain x where x: "x \<in> set (mdb_modules db)" "m = module_cols x" using m by (auto simp: cols_def)
    have pid: "mo_ProcessID x = processID" using eq(1) by (simp add: x(2) module_cols_def)
    have "scope = ScopeGlobal \<or> mo_Scope x = ScopeGlobal \<or> mo_TenantID x = tenantID"
      using eq(2) by (auto simp: sees_both_def x(2) module_cols_def)
    with free tenant x(1) pid show False by (auto simp: ModuleProcessIDInUse_def split: if_splits)
  qed
  have sym: "sees_both m m' = sees_both m' m" for m m' by (auto simp: sees_both_def)
  have ids: "mid \<notin> fst ` set (cols db)" using rows(5) by (auto simp: cols_def module_cols_def)
  show "mdb_versions db' = mdb_versions db" and "(mid, scope, tenantID, processID) \<in> set (cols db')" by (simp_all add: rows cols')
  show "mod_ok db'"
    unfolding mod_ok_def
  proof (intro conjI ballI impI allI)
    show "distinct (map fst (cols db'))" using mod_ok_facts(1) [OF ok] ids by (simp add: cols')
    show "mversion_cols ` set (mdb_versions db') \<subseteq> set (cols db')" using mod_ok_facts(4) [OF ok] by (auto simp: rows cols')
    show "scope_tenant_ok (fst (snd m)) (fst (snd (snd m)))" if "m \<in> set (cols db')" for m
      using that mod_ok_facts(2) [OF ok, of m] tenant by (auto simp: cols' scope_tenant_ok_def split: if_splits)
    show "m = m'" if "m \<in> set (cols db')" "m' \<in> set (cols db')" "snd (snd (snd m)) = snd (snd (snd m'))" "sees_both m m'" for m m'
    proof -
      let ?new = "(mid, scope, tenantID, processID)"
      from that(1,2) consider "m = ?new" "m' = ?new" | "m = ?new" "m' \<in> set (cols db)" | "m \<in> set (cols db)" "m' = ?new"
        | "m \<in> set (cols db)" "m' \<in> set (cols db)" unfolding cols' by auto
      then show ?thesis
      proof cases
        case 2
        with clash [of m'] that(3) that(4) [unfolded sym [of m m']] show ?thesis by simp
      next
        case 3
        with clash [of m] that(3,4) show ?thesis by simp
      next
        case 4
        then show ?thesis using that(3,4) by (rule mod_ok_facts(3) [OF ok])
      qed simp
    qed
    show "mactive_target db' (mo_ID x) vid" if "x \<in> set (mdb_modules db')" "mo_ActiveVersionID x = Some vid" for x vid
    proof -
      from that rows(1,3) have "x \<in> set (mdb_modules db)" by auto
      from mod_ok_facts(5) [OF ok this that(2)] show ?thesis by (simp add: mactive_target_def rows(4))
    qed
  qed
qed

lemma create_module_tx_split:
  assumes "create_module_tx now tenantID processID m v db = Inr ((), db')"
  obtains db1 where "\<not> ModuleProcessIDInUse tenantID processID db" and "ModuleRepo_Create now m db = Inr ((), db1)"
    and "ModuleVersionRepo_Create now v db1 = Inr ((), db')"
  using assms by (auto simp: create_module_tx_def res_simps ModuleRepo_ProcessIDInUse_def split: if_splits)

lemma mowned_iff:
  assumes ok: "mod_ok db" and v: "v \<in> set (mdb_versions db)"
  shows "mowned_by db ids v \<longleftrightarrow> mv_ModuleID v \<in> ids"
proof -
  have "mversion_cols v \<in> set (cols db)" using mod_ok_facts(4) [OF ok] v by blast
  then obtain m where "m \<in> set (mdb_modules db)" "mversion_cols v = module_cols m" by (auto simp: cols_def)
  then show ?thesis unfolding mowned_by_def by (auto simp: mversion_cols_def module_cols_def)
qed

lemma mod_ok_purge:
  assumes ok: "mod_ok db" and tx: "PurgeTenantModules now order tenantID limit db = (n, db')"
  shows "mod_ok db'"
proof (rule module_purge_effect [OF tx])
  fix ids
  assume rows: "mdb_versions db' = filter (\<lambda>v. \<not> mowned_by db ids v) (mdb_versions db)"
    and c: "cols db' = filter (\<lambda>c. fst c \<notin> ids) (cols db)"
    and act: "\<And>x vid. x \<in> set (mdb_modules db') \<Longrightarrow> mo_ActiveVersionID x = Some vid \<Longrightarrow> x \<in> set (mdb_modules db) \<and> mo_ID x \<notin> ids"
  have sub: "set (cols db') \<subseteq> set (cols db)" by (auto simp: c)
  show ?thesis
    unfolding mod_ok_def
  proof (intro conjI ballI impI allI)
    show "distinct (map fst (cols db'))" using mod_ok_facts(1) [OF ok] by (simp add: c distinct_map_filter)
    show "scope_tenant_ok (fst (snd m)) (fst (snd (snd m)))" if "m \<in> set (cols db')" for m
      using mod_ok_facts(2) [OF ok] sub that by blast
    show "m = m'" if "m \<in> set (cols db')" "m' \<in> set (cols db')" "snd (snd (snd m)) = snd (snd (snd m'))" "sees_both m m'" for m m'
      using mod_ok_facts(3) [OF ok _ _ that(3,4)] sub that(1,2) by blast
    show "mversion_cols ` set (mdb_versions db') \<subseteq> set (cols db')"
    proof
      fix x assume "x \<in> mversion_cols ` set (mdb_versions db')"
      then obtain v where v: "v \<in> set (mdb_versions db)" "\<not> mowned_by db ids v" "x = mversion_cols v" by (auto simp: rows)
      then have "x \<in> set (cols db)" "fst x \<notin> ids"
        using mod_ok_facts(4) [OF ok] mowned_iff [OF ok v(1)] by (auto simp: mversion_cols_def)
      then show "x \<in> set (cols db')" by (simp add: c)
    qed
    show "mactive_target db' (mo_ID x) vid" if "x \<in> set (mdb_modules db')" "mo_ActiveVersionID x = Some vid" for x vid
      using mod_ok_facts(5) [OF ok _ that(2)] act [OF that] by (auto simp: mactive_target_def rows mowned_by_def)
  qed
qed

lemma mod_ok_step:
  assumes "mod_step db db'" and ok: "mod_ok db" and life: "life_ok (vmkeys db)"
  shows "mod_ok db'"
  using assms(1)
proof cases
  case (create now tenantID processID mid scope name description userID vid xml callerTenantID)
  from create(1) have "create_module_tx now tenantID processID (new_module mid tenantID scope name description processID userID)
      (new_module_version vid mid tenantID scope xml processID userID) db = Inr ((), db')" by (simp add: res_simps)
  then obtain db1 where free: "\<not> ModuleProcessIDInUse tenantID processID db"
    and m: "ModuleRepo_Create now (new_module mid tenantID scope name description processID userID) db = Inr ((), db1)"
    and v: "ModuleVersionRepo_Create now (new_module_version vid mid tenantID scope xml processID userID) db1 = Inr ((), db')"
    by (rule create_module_tx_split)
  from module_insert_ok [OF ok create(2) free m] mod_ok_draft [OF _ v] show ?thesis by blast
next
  case (add now vid m xml userID)
  have "module_cols m \<in> set (cols db)" using add(2) by (simp add: cols_def)
  then show ?thesis by (intro mod_ok_draft [OF ok add(1)]) (simp add: module_cols_def)
next
  case publish
  then show ?thesis by (auto simp: res_simps intro: mod_ok_publish [OF ok])
next
  case archive
  then show ?thesis by (auto simp: res_simps intro: mod_ok_archive [OF ok life])
next
  case purge
  then show ?thesis by (auto simp: res_simps intro: mod_ok_purge [OF ok])
qed

subsection \<open>The keys follow the contract\<close>

lemma next_module_number:
  assumes life: "life_ok (vmkeys db)"
  shows "max_module_number mid db = Max (insert 0 (numbers mid (vmkeys db)))"
proof -
  have "set (List.map_filter mv_VersionNumber (filter (\<lambda>x. mv_ModuleID x = mid \<and> mv_Status x \<noteq> VersionStatusDraft) (mdb_versions db)))
    = numbers mid (vmkeys db)" (is "?A = ?B")
  proof
    show "?A \<subseteq> ?B" by (force simp: numbers_def vmkeys_def List.map_filter_def)
    show "?B \<subseteq> ?A"
    proof
      fix n assume "n \<in> ?B"
      then obtain x where x: "x \<in> set (mdb_versions db)" "mv_ModuleID x = mid" "mv_VersionNumber x = Some n"
        by (auto simp: numbers_def vmkeys_def)
      then have "mv_Status x \<noteq> VersionStatusDraft"
        using life_ok_facts(2) [OF life, of "mkey_of x"] by (simp add: vmkeys_def)
      with x show "n \<in> ?A" by (force simp: List.map_filter_def)
    qed
  qed
  then show ?thesis by (simp add: max_module_number_def foldr_max_Max)
qed

lemma vmkeys_publish:
  assumes life: "life_ok (vmkeys db)" and tx: "publish_module_tx now callerTenantID mid vid db = Inr (n, db')"
  shows "life_step (vmkeys db) (vmkeys db')"
proof (rule module_publish_effect [OF tx])
  fix v db1
  let ?g = "mpublish_guard callerTenantID vid"
  let ?h = "\<lambda>x. if ?g x then touch_mversion now x (mpublish_update now n x) else x"
  assume n: "n = Suc (max_module_number mid db)" and v: "v \<in> set (mdb_versions db)" "?g v"
    and rows: "mdb_versions db' = map ?h (mdb_versions db)" and db1: "mdb_versions db1 = mdb_versions db'"
    and act: "ModuleRepo_UpdateActiveVersion now mid (Some vid) db1 = Inr ((), db')"
  from module_activate_effect(5) [OF act refl] db1 obtain x where x: "x \<in> set (mdb_versions db)" "mv_ID (?h x) = vid" "mv_ModuleID (?h x) = mid"
    unfolding mactive_target_def rows by auto
  have "mv_ID x = mv_ID v" using x(2) v(2) by (auto simp: mpublish_guard_def mpublish_update_def split: if_splits)
  then have "x = v" by (rule mversion_unique [OF life x(1) v(1)])
  with x(3) v(2) have owner: "mv_ModuleID v = mid" by (simp add: mpublish_update_def)
  have number: "n = Suc (Max (insert 0 (numbers (k_Owner (mkey_of v)) (vmkeys db))))"
    using n next_module_number [OF life] owner by simp
  have g: "?g y \<longleftrightarrow> mv_ID y = mv_ID v" if "y \<in> set (mdb_versions db)" for y
    using mversion_unique [OF life that v(1)] v(2) by (auto simp: mpublish_guard_def)
  have "vmkeys db' = on_id (k_ID (mkey_of v)) (publish_key n) (vmkeys db)"
    by (rule vmkeys_on_id [OF rows]) (simp add: g mpublish_update_def publish_key_def mkey_of_def)
  with life_step.publish [of "mkey_of v" "vmkeys db", OF _ _ number] v show ?thesis
    by (simp add: vmkeys_def mpublish_guard_def)
qed

lemma vmkeys_archive:
  assumes life: "life_ok (vmkeys db)" and tx: "archive_module_tx now callerTenantID mid db = Inr (vid, db')"
  shows "life_step (vmkeys db) (vmkeys db')"
proof (rule module_archive_effect [OF tx])
  fix v db1
  let ?h = "\<lambda>x. if marchive_guard callerTenantID vid x then touch_mversion now x (x\<lparr>mv_Status := VersionStatusArchived\<rparr>) else x"
  assume v: "v \<in> set (mdb_versions db)" "marchive_guard callerTenantID vid v" and rows: "mdb_versions db' = map ?h (mdb_versions db)"
  have g: "marchive_guard callerTenantID vid y \<longleftrightarrow> mv_ID y = mv_ID v" if "y \<in> set (mdb_versions db)" for y
    using mversion_unique [OF life that v(1)] v(2) by (auto simp: marchive_guard_def)
  have "vmkeys db' = on_id (k_ID (mkey_of v)) archive_key (vmkeys db)"
    by (rule vmkeys_on_id [OF rows]) (simp add: g archive_key_def mkey_of_def)
  with life_step.archive [of "mkey_of v" "vmkeys db"] v show ?thesis
    by (simp add: vmkeys_def marchive_guard_def)
qed

lemma vmkeys_draft:
  assumes "ModuleVersionRepo_Create now (new_module_version vid mid tenantID scope xml processID userID) db = Inr (u, db')"
  shows "life_step (vmkeys db) (vmkeys db')"
proof (rule module_draft_effect [OF assms])
  fix v assume rows: "mdb_versions db' = mdb_versions db @ [v]"
    and v: "mkey_of v = \<lparr>k_ID = vid, k_Owner = mid, k_Status = VersionStatusDraft, k_Number = None\<rparr>"
    and fresh: "\<forall>x \<in> set (mdb_versions db). mv_ID x \<noteq> vid" and none: "\<not> has_draft mid (vmkeys db)"
  from fresh have "vid \<notin> k_ID ` set (vmkeys db)" by (auto simp: vmkeys_def)
  from life_step.draft [OF this none] show ?thesis by (simp add: vmkeys_def rows v)
qed

lemma vmkeys_purge:
  assumes ok: "mod_ok db" and tx: "PurgeTenantModules now order tenantID limit db = (n, db')"
  shows "life_move UNIV (vmkeys db) (vmkeys db')"
proof (rule module_purge_effect [OF tx])
  fix ids
  assume rows: "mdb_versions db' = filter (\<lambda>v. \<not> mowned_by db ids v) (mdb_versions db)"
  have "vmkeys db' = drop_owners ids (vmkeys db)"
    unfolding vmkeys_def rows drop_owners_def filter_map
    by (intro arg_cong [of _ _ "map mkey_of"] filter_cong) (simp_all add: mowned_iff [OF ok])
  then show ?thesis using life_move.drop by simp
qed

lemma vmkeys_step:
  assumes "mod_step db db'" and ok: "mod_ok db" and life: "life_ok (vmkeys db)"
  shows "(life_move UNIV)\<^sup>*\<^sup>* (vmkeys db) (vmkeys db')"
  using assms(1)
proof cases
  case (create now tenantID processID mid scope name description userID vid xml callerTenantID)
  from create(1) have "create_module_tx now tenantID processID (new_module mid tenantID scope name description processID userID)
      (new_module_version vid mid tenantID scope xml processID userID) db = Inr ((), db')" by (simp add: res_simps)
  then obtain db1 where m: "ModuleRepo_Create now (new_module mid tenantID scope name description processID userID) db = Inr ((), db1)"
    and v: "ModuleVersionRepo_Create now (new_module_version vid mid tenantID scope xml processID userID) db1 = Inr ((), db')"
    by (rule create_module_tx_split)
  have "vmkeys db1 = vmkeys db"
    using m by (auto simp: ModuleRepo_Create_def CreateModule_def vmkeys_def split: if_splits)
  with vmkeys_draft [OF v] show ?thesis by (auto intro: life_move.step)
next
  case add
  then show ?thesis by (auto intro: vmkeys_draft life_move.step)
next
  case publish
  then show ?thesis by (auto simp: res_simps intro: vmkeys_publish [OF life] life_move.step)
next
  case archive
  then show ?thesis by (auto simp: res_simps intro: vmkeys_archive [OF life] life_move.step)
next
  case purge
  then show ?thesis by (auto simp: res_simps intro: vmkeys_purge [OF ok])
qed

text \<open>The module store keeps the contract of versions.\<close>

interpretation mods: version_store vmkeys mod_ok empty_mdb mod_step
proof
  show "vmkeys empty_mdb = []" by (simp add: vmkeys_def empty_mdb_def)
  show "mod_ok empty_mdb" by (simp add: mod_ok_def empty_mdb_def cols_def)
qed (simp_all add: mod_ok_step vmkeys_step)

subsection \<open>Resolution on the live tables\<close>

text \<open>What a call can name: a version of the visible module with its process identifier.\<close>

lemma resolve_candidate:
  assumes ok: "mod_ok db" and life: "life_ok (vmkeys db)" and "(m, v) \<in> set (resolve_candidates tenantID processID versionNumber db)"
  shows "m \<in> set (mdb_modules db)" "v \<in> set (mdb_versions db)" "mv_ModuleID v = mo_ID m" "mo_ProcessID m = processID" "mv_ProcessID v = processID"
    and "visible tenantID (mo_Scope m) (mo_TenantID m)" and "mv_Status v \<noteq> VersionStatusDraft"
    and "versionNumber = None \<Longrightarrow> mo_ActiveVersionID m = Some (mv_ID v) \<and> mv_Status v = VersionStatusPublished"
    and "versionNumber = Some n \<Longrightarrow> mv_VersionNumber v = Some n"
proof -
  from assms(3) have c: "m \<in> set (mdb_modules db)" "v \<in> set (mdb_versions db)" "mv_ModuleID v = mo_ID m" "mo_ProcessID m = processID"
    "visible tenantID (mo_Scope m) (mo_TenantID m)" "mv_VersionNumber v \<noteq> None"
    "versionNumber = None \<Longrightarrow> mo_ActiveVersionID m = Some (mv_ID v)" "versionNumber = Some n \<Longrightarrow> mv_VersionNumber v = Some n"
    by (auto simp: resolve_candidates_def)
  then show "m \<in> set (mdb_modules db)" "v \<in> set (mdb_versions db)" "mv_ModuleID v = mo_ID m" "mo_ProcessID m = processID"
    "visible tenantID (mo_Scope m) (mo_TenantID m)" "versionNumber = Some n \<Longrightarrow> mv_VersionNumber v = Some n" by simp_all
  show "mv_Status v \<noteq> VersionStatusDraft" using life_ok_facts(2) [OF life, of "mkey_of v"] c(2,6) by (simp add: vmkeys_def)
  show "mv_ProcessID v = processID"
  proof -
    have "mversion_cols v \<in> set (cols db)" using mod_ok_facts(4) [OF ok] c(2) by blast
    moreover have "module_cols m \<in> set (cols db)" using c(1) by (simp add: cols_def)
    moreover have "fst (mversion_cols v) = fst (module_cols m)" using c(3) by (simp add: mversion_cols_def module_cols_def)
    moreover have "inj_on fst (set (cols db))" using mod_ok_facts(1) [OF ok] by (simp add: distinct_map)
    ultimately have "mversion_cols v = module_cols m" by (auto dest: inj_onD)
    with c(4) show ?thesis by (simp add: mversion_cols_def module_cols_def)
  qed
  assume none: "versionNumber = None"
  from c(7) [OF this] mod_ok_facts(5) [OF ok c(1)] obtain u where "u \<in> set (mdb_versions db)" "mv_ID u = mv_ID v" "mv_Status u = VersionStatusPublished"
    unfolding mactive_target_def by blast
  with mversion_unique [OF life, of u v] c(2) c(7) [OF none]
  show "mo_ActiveVersionID m = Some (mv_ID v) \<and> mv_Status v = VersionStatusPublished" by auto
qed

text \<open>There is only one, so the order of the query does not matter.\<close>

lemma resolve_unique:
  assumes ok: "mod_ok db" and life: "life_ok (vmkeys db)"
    and c: "(m, v) \<in> set (resolve_candidates tenantID processID versionNumber db)" "(m', v') \<in> set (resolve_candidates tenantID processID versionNumber db)"
  shows "v' = v"
proof -
  note r = resolve_candidate [OF ok life c(1)] and r' = resolve_candidate [OF ok life c(2)]
  have "sees_both (module_cols m) (module_cols m')"
    using r(6) r'(6) by (auto simp: sees_both_def module_cols_def visible_def)
  moreover have "module_cols m \<in> set (cols db)" "module_cols m' \<in> set (cols db)" using r(1) r'(1) by (simp_all add: cols_def)
  moreover have "snd (snd (snd (module_cols m))) = snd (snd (snd (module_cols m')))" using r(4) r'(4) by (simp add: module_cols_def)
  ultimately have eq: "module_cols m = module_cols m'" using mod_ok_facts(3) [OF ok] by blast
  then have owner: "mo_ID m = mo_ID m'" by (simp add: module_cols_def)
  show ?thesis
  proof (cases versionNumber)
    case None
    have "m = m'"
    proof -
      have "distinct (map mo_ID (mdb_modules db))" using mod_ok_facts(1) [OF ok] by (simp add: cols_def comp_def module_cols_def)
      with owner r(1) r'(1) show ?thesis by (auto simp: distinct_map dest: inj_onD)
    qed
    with r(8) r'(8) None have "mv_ID v = mv_ID v'" by auto
    with mversion_unique [OF life r(2) r'(2)] show ?thesis by simp
  next
    case (Some n)
    with r(9) r'(9) have "mv_VersionNumber v = Some n" "mv_VersionNumber v' = Some n" by blast+
    with life_ok_facts(3) [OF life, of "mkey_of v" "mkey_of v'"] r(2,3) r'(2,3) owner
    have "mkey_of v = mkey_of v'" by (simp add: vmkeys_def)
    then have "mv_ID v = mv_ID v'" by (simp add: mkey_of_def)
    with mversion_unique [OF life r(2) r'(2)] show ?thesis by simp
  qed
qed

lemma ResolveModuleVersion_iff:
  assumes "mod_ok db" and "life_ok (vmkeys db)"
  shows "ResolveModuleVersion tenantID processID versionNumber db = Inr v \<longleftrightarrow>
    (\<exists>m. (m, v) \<in> set (resolve_candidates tenantID processID versionNumber db))"
proof -
  let ?c = "resolve_candidates tenantID processID versionNumber db"
  have sub: "set (filter (\<lambda>(m, _). mo_Scope m = ScopeTenant) ?c @ ?c) = set ?c" by auto
  show ?thesis
  proof (cases "filter (\<lambda>(m, _). mo_Scope m = ScopeTenant) ?c @ ?c")
    case Nil
    then show ?thesis by (auto simp: ResolveModuleVersion_def Let_def)
  next
    case (Cons p ps)
    obtain m u where p: "p = (m, u)" by (cases p)
    with Cons sub have mem: "(m, u) \<in> set ?c" by (metis list.set_intros(1))
    from Cons p have res: "ResolveModuleVersion tenantID processID versionNumber db = Inr u"
      by (simp add: ResolveModuleVersion_def Let_def)
    show ?thesis
    proof
      assume "ResolveModuleVersion tenantID processID versionNumber db = Inr v"
      with res have "u = v" by simp
      with mem show "\<exists>m. (m, v) \<in> set ?c" by blast
    next
      assume "\<exists>m. (m, v) \<in> set ?c"
      then obtain m' where "(m', v) \<in> set ?c" ..
      from resolve_unique [OF assms mem this] res show "ResolveModuleVersion tenantID processID versionNumber db = Inr v" by simp
    qed
  qed
qed

text \<open>Lookups on the live tables give finitely many versions, each under one identifier, and all numbered.\<close>

lemma live_Inr:
  assumes "mod_ok db" and "life_ok (vmkeys db)" and "live tenantID db p n = Inr v"
  obtains m row where "(m, row) \<in> set (resolve_candidates tenantID p (if 0 < n then Some n else None) db)" and "v = moduleVersionFromDB row"
  using assms(3) ResolveModuleVersion_iff [OF assms(1,2)]
  by (auto simp: live_def ModuleVersionRepo_Resolve_def bindE_eq_Inr split: sum.splits if_splits)

lemma live_inj:
  assumes ok: "mod_ok db" "life_ok (vmkeys db)" and "live tenantID db p n = Inr u" "live tenantID db q m = Inr v" "mdv_ID u = mdv_ID v"
  shows "u = v"
proof (rule live_Inr [OF ok assms(3)], rule live_Inr [OF ok assms(4)])
  fix x r y t
  assume r: "(x, r) \<in> set (resolve_candidates tenantID p (if 0 < n then Some n else None) db)" "u = moduleVersionFromDB r"
    and t: "(y, t) \<in> set (resolve_candidates tenantID q (if 0 < m then Some m else None) db)" "v = moduleVersionFromDB t"
  from assms(5) r(2) t(2) have "mv_ID r = mv_ID t" by simp
  with mversion_unique [OF ok(2)] resolve_candidate(2) [OF ok r(1)] resolve_candidate(2) [OF ok t(1)] have "r = t" by blast
  with r(2) t(2) show ?thesis by simp
qed

lemma live_finite:
  assumes ok: "mod_ok db" "life_ok (vmkeys db)" and "live tenantID db p n = Inr v"
  shows "mdv_ID v \<in> mv_ID ` set (mdb_versions db)"
  using live_Inr [OF assms] resolve_candidate(2) [OF ok] by (metis imageI moduleVersionFromDB_simps(1))

lemma module_bundle_returns:
  assumes "mod_ok db" "life_ok (vmkeys db)"
  shows "\<exists>r. module_bundle pc db callerTenantID scope bpmnXML processID = Some r"
  using resolve_modules_returns [OF finite_imageI [OF finite_set] live_finite [OF assms]]
  by (auto simp: module_bundle_def Let_def)

subsection \<open>The services take steps\<close>

lemma when_valid_Inr: "when_valid r act db = Some (Inr p) \<longleftrightarrow> r = Some (Inr ()) \<and> act db = Inr p"
  by (auto simp: when_valid_def bindE_eq_Inr)

lemma Create_module_step:
  "ModuleService_Create pc now moduleID versionID callerTenantID userID name description bpmnXML scope db = Some (Inr (r, db')) \<Longrightarrow> mod_step db db'"
  by (auto simp: ModuleService_Create_def Let_def when_valid_Inr res_simps
      intro: mod_step.create [unfolded res_simps] split: sum.splits)

lemma AddVersion_step:
  assumes "ModuleService_AddVersion pc now versionID callerTenantID userID moduleID bpmnXML db = Some (Inr (r, db'))"
  shows "mod_step db db'"
proof -
  from assms obtain m xml db1 where read: "bind_act (ModuleRepo_GetByID callerTenantID moduleID) (\<lambda>m.
           bind_act (resolveVersionXML callerTenantID m bpmnXML) (\<lambda>xml.
           bind_act (lift_act (mcp_ProcessID pc xml)) (\<lambda>processID.
             if processID \<noteq> md_ProcessID m then fail_act ErrModuleProcessIDChanged else return_act (m, xml)))) db = Inr ((m, xml), db1)"
    and ins: "ModuleVersionRepo_Create now (new_module_version versionID moduleID (md_TenantID m) (md_Scope m) xml (md_ProcessID m) userID) db = Inr ((), db')"
    by (auto simp: ModuleService_AddVersion_def Let_def when_valid_Inr act_Inr(1,3) split: sum.splits)
  from read obtain row where "find (\<lambda>m. mo_ID m = moduleID \<and> visible callerTenantID (mo_Scope m) (mo_TenantID m)) (mdb_modules db) = Some row"
    and "m = moduleFromDB row"
    by (auto simp: res_simps ModuleRepo_GetByID_Inr split: if_splits)
  with find_SomeD ins mod_step.add [of now versionID row xml userID db db'] show ?thesis by fastforce
qed

lemma Publish_module_step:
  "ModuleService_Publish pc now callerTenantID moduleID versionID db = Some (Inr (r, db')) \<Longrightarrow> mod_step db db'"
  by (auto simp: ModuleService_Publish_def when_valid_Inr res_simps ModuleVersionRepo_GetByID_Inr
      intro: mod_step.publish [unfolded res_simps] split: sum.splits if_splits)

lemma Archive_module_step: "ModuleService_Archive now callerTenantID moduleID db = Inr (r, db') \<Longrightarrow> mod_step db db'"
  by (auto simp: ModuleService_Archive_def res_simps ModuleRepo_GetByID_Inr
      intro: mod_step.archive [unfolded res_simps] split: if_splits)

end
