(* ===== verification/Service_Examples.thy ===== *)
theory Service_Examples
  imports Workflow_Safety Module_Steps
begin

text \<open>
  A short run of the workflow store and one of the module store: tenant 3 creates workflow 1 with version 2
  and publishes it; a global module 1 with version 2 is created and published.
\<close>

definition ex_draft_row :: version_row where
  "ex_draft_row = \<lparr>vr_ID = 2, vr_WorkflowID = 1, vr_TenantID = 3, vr_Status = VersionStatusDraft, vr_BpmnXml = ''x'',
     vr_CompiledPlanJson = None, vr_ArtifactHash = None, vr_VersionNumber = None, vr_PublishedAt = None,
     vr_CreatedByUserID = 4, vr_IsValid = True, vr_ValidationErrorsJson = None, vr_CreatedAt = 10, vr_UpdatedAt = 10,
     vr_RecordVersion = 1, vr_ModuleRefs = []\<rparr>"

definition ex_published_row :: version_row where
  "ex_published_row = ex_draft_row\<lparr>vr_Status := VersionStatusPublished, vr_CompiledPlanJson := Some ''p'',
     vr_ArtifactHash := Some ''h'', vr_VersionNumber := Some 1, vr_PublishedAt := Some 11, vr_UpdatedAt := 11, vr_RecordVersion := 2\<rparr>"

definition ex_workflow_row :: workflow_row where
  "ex_workflow_row = \<lparr>wr_ID = 1, wr_TenantID = 3, wr_CreatedByUserID = 4, wr_TemplateKey = ''k'', wr_Name = ''n'',
     wr_Description = None, wr_ActiveVersionID = None, wr_CreatedAt = 10, wr_UpdatedAt = 10, wr_RecordVersion = 1\<rparr>"

definition ex_created :: db where
  "ex_created = \<lparr>db_workflows = [ex_workflow_row], db_versions = [ex_draft_row], db_assignees = []\<rparr>"

definition ex_input :: publishTxInput where
  "ex_input = \<lparr>pi_tenantID = 3, pi_workflowID = 1, pi_versionID = 2, pi_recordVersion = 1, pi_compiledJSON = ''p'',
     pi_artifactHash = ''h'', pi_assignees = [], pi_moduleRefs = []\<rparr>"

definition ex_published :: db where
  "ex_published = \<lparr>db_workflows = [ex_workflow_row\<lparr>wr_ActiveVersionID := Some 2, wr_UpdatedAt := 11, wr_RecordVersion := 2\<rparr>],
     db_versions = [ex_published_row], db_assignees = []\<rparr>"

lemmas ex_defs = ex_created_def ex_published_def ex_draft_row_def ex_published_row_def ex_workflow_row_def ex_input_def

lemmas store_defs = return_act_def fail_act_def bind_act_def lift_act_def bindE_def of_sql_def of_count_def Let_def
  toNullableText_def toNullableJSONB_def touch_version_def touch_workflow_def update_versions_def update_workflows_def

lemma ex_create_tx:
  "RunInTx (create_tx 10 3 None (new_workflow 1 3 4 ''k'' ''n'' []) (new_draft 2 1 3 4 ''x'')) empty_db = Inr ((), ex_created)"
  by (simp add: RunInTx_def create_tx_def new_workflow_def new_draft_def enforceWorkflowQuota_def WorkflowRepo_Create_def
    CreateWorkflow_def VersionRepo_Create_def CreateWorkflowVersion_def version_params_def active_fk_def empty_db_def ex_defs store_defs)

lemma ex_publish_tx: "RunInTx (publish_tx 11 ex_input) ex_created = Inr (1, ex_published)"
  by (simp add: RunInTx_def publish_tx_def VersionRepo_NextVersionNumber_def NextVersionNumber_def max_number_def runPublishTx_def
    VersionRepo_Publish_def PublishVersion_def AssigneeRepo_DeleteByVersion_def DeleteAssigneesByVersion_def map_filter_simps
    WorkflowRepo_UpdateActiveVersion_def UpdateActiveVersion_def may_activate_def active_fk_def ex_defs store_defs)

subsection \<open>Runs\<close>

definition ex_s1 :: wstate where
  "ex_s1 = \<lparr>ws_db = ex_created, ws_used = {2}, ws_purged = {}\<rparr>"

definition ex_s2 :: wstate where
  "ex_s2 = \<lparr>ws_db = ex_published, ws_used = {2}, ws_purged = {}\<rparr>"

lemma ex_new: "wf_new 2 empty_db ex_created"
  by (rule wf_new.create [OF ex_create_tx])

lemma ex_tx: "wf_tx ex_created ex_published"
  by (rule wf_tx.publish [OF ex_publish_tx])

lemma ex_step1: "wf_step ws_start ex_s1"
  using wf_step.new [of 2 ws_start ex_created] ex_new by (simp add: ws_start_def ex_s1_def)

lemma ex_step2: "wf_step ex_s1 ex_s2"
  using wf_step.tx [of ex_s1 ex_published] ex_tx by (simp add: ex_s1_def ex_s2_def)

lemma ex_reach1: "wf_step\<^sup>*\<^sup>* ws_start ex_s1"
  using ex_step1 by blast

lemma ex_reach2: "wf_step\<^sup>*\<^sup>* ws_start ex_s2"
  using ex_reach1 ex_step2 by (rule rtranclp.rtrancl_into_rtrancl)

lemma ex_versions [simp]:
  "db_versions (ws_db ex_s1) = [ex_draft_row]" "db_versions (ws_db ex_s2) = [ex_published_row]"
  by (simp_all add: ex_s1_def ex_s2_def ex_created_def ex_published_def)

text \<open>The checks of that publish: a compiler that compiles everything to one empty plan, and no membership service.\<close>

definition ex_env :: "(unit, unit, string) publish_env" where
  "ex_env = \<lparr>pe_resolve = (\<lambda>_ xml. Inr \<lparr>rs_bundled = xml, rs_refs = [], rs_issues = []\<rparr>), pe_compile = (\<lambda>xml. Inr ''p''),
     pe_mainPlan = (\<lambda>_. Inr \<lparr>cp_Departments = [], cp_Steps = []\<rparr>), pe_hash = (\<lambda>_. Inr ''h''), pe_marshal = (\<lambda>c. Inr c),
     pe_resolvePlan = (\<lambda>_. Inl ErrNotFound), pe_nodeKey = (\<lambda>s _. s), pe_membership = None, pe_uuidParse = (\<lambda>_. None),
     pe_validRole = (\<lambda>_. True), pe_newID = (\<lambda>n. n)\<rparr>"

definition ex_prep :: publishPrep where
  "ex_prep = \<lparr>pp_compiledJSON = ''p'', pp_artifactHash = ''h'', pp_assignees = [], pp_moduleRefs = []\<rparr>"

lemma ex_preflight: "publishPreFlight ex_env 3 1 2 False ex_created = Inr ((workflowVersionFromDB ex_draft_row, ex_prep), ex_created)"
  by (simp add: publishPreFlight_def VersionRepo_GetByID_def GetWorkflowVersionByID_def WorkflowRepo_GetByID_def
    GetWorkflowByIDWithVersionNumber_def compileForPublish_def checkStructuralDivergence_def extractAssignees_def
    human_assignments_def workflowFromDB_def workflowVersionFromDB_def ex_env_def ex_prep_def ex_defs store_defs)

lemma ex_publish_input: "publish_input 3 1 2 (workflowVersionFromDB ex_draft_row) ex_prep = ex_input"
  by (simp add: publish_input_def ex_prep_def ex_defs)

text \<open>An edit of the draft's document, and a second one that has read the same row.\<close>

definition ex_request :: UpdateDraftReq where
  "ex_request = \<lparr>ur_Name = None, ur_Description = None, ur_BPMNXML = Some ''y'', ur_RecordVersion = 1\<rparr>"

definition ex_edited :: WorkflowVersion where
  "ex_edited = edit_draft ex_request (workflowVersionFromDB ex_draft_row)"

definition ex_updated :: db where
  "ex_updated = \<lparr>db_workflows = [ex_workflow_row],
     db_versions = [ex_draft_row\<lparr>vr_BpmnXml := ''y'', vr_UpdatedAt := 12, vr_RecordVersion := 2\<rparr>], db_assignees = []\<rparr>"

lemma ex_update_tx: "RunInTx (runUpdateTx 12 3 1 ex_edited ex_request) ex_created = Inr (ex_edited\<lparr>wv_RecordVersion := 2\<rparr>, ex_updated)"
  by (simp add: RunInTx_def runUpdateTx_def VersionRepo_UpdateDraft_def UpdateDraftVersion_def version_params_def active_fk_def
    ex_updated_def ex_edited_def edit_draft_def clearCompiledArtifacts_def ex_request_def workflowVersionFromDB_def
    fromPgtypeText_def fromJSONB_def ex_defs store_defs)

text \<open>The publish with an assignee, user 5 of department 6, and the revocation of the user's membership.\<close>

definition ex_assignee :: NodeAssignee where
  "ex_assignee = \<lparr>na_ID = 7, na_TenantID = 3, na_WorkflowVersionID = 2, na_NodeKey = ''t'', na_UserID = 5,
     na_DepartmentID = 6, na_Role = ''r'', na_CreatedAt = 11\<rparr>"

definition ex_assigned :: db where
  "ex_assigned = ex_published\<lparr>db_assignees := [ex_assignee]\<rparr>"

definition ex_revoked :: db where
  "ex_revoked = ex_assigned\<lparr>db_versions := [ex_published_row\<lparr>vr_IsValid := False,
     vr_ValidationErrorsJson := Some (marshalInvalidationErrors [''t'']), vr_UpdatedAt := 12, vr_RecordVersion := 3\<rparr>]\<rparr>"

definition ex_s3 :: wstate where
  "ex_s3 = \<lparr>ws_db = ex_assigned, ws_used = {2}, ws_purged = {}\<rparr>"

lemma ex_assign_tx: "RunInTx (publish_tx 11 (ex_input\<lparr>pi_assignees := [ex_assignee]\<rparr>)) ex_created = Inr (1, ex_assigned)"
  by (simp add: RunInTx_def publish_tx_def VersionRepo_NextVersionNumber_def NextVersionNumber_def max_number_def runPublishTx_def
    VersionRepo_Publish_def PublishVersion_def AssigneeRepo_DeleteByVersion_def DeleteAssigneesByVersion_def map_filter_simps
    AssigneeRepo_BulkInsert_def InsertAssignee_def ex_assignee_def ex_assigned_def
    WorkflowRepo_UpdateActiveVersion_def UpdateActiveVersion_def may_activate_def active_fk_def ex_defs store_defs)

lemma ex_reach3: "wf_step\<^sup>*\<^sup>* ws_start ex_s3"
proof -
  have "wf_step ex_s1 ex_s3"
    using wf_step.tx [of ex_s1 ex_assigned] wf_tx.publish [OF ex_assign_tx] by (simp add: ex_s1_def ex_s3_def)
  with ex_reach1 show ?thesis by (rule rtranclp.rtrancl_into_rtrancl)
qed

lemma ex_revoked_nodes: "revoked_nodes (ListAssigneesByUser 3 5 ex_assigned) None 0 = [(2, [''t''])]"
  by (simp add: revoked_nodes_def ListAssigneesByUser_def mappend_def ex_assignee_def ex_assigned_def ex_published_def)

lemma ex_invalidate: "invalidateVersion 12 3 2 [''t''] ex_assigned = Inr (True, ex_revoked)"
  by (simp add: invalidateVersion_def VersionRepo_GetByID_def GetWorkflowVersionByID_def RunInTx_def VersionRepo_SetInvalid_def
    SetVersionInvalid_def active_fk_def ex_assigned_def ex_revoked_def marshalInvalidationErrors_def
    workflowVersionFromDB_def ex_defs store_defs)

lemma ex_revocation:
  "HandleTenantMembershipRevoked (\<lambda>m. m) (\<lambda>_. True) None 12 3 5 0 ex_assigned = (Inr [], ex_revoked)"
  by (simp add: HandleTenantMembershipRevoked_def invalidateAssigneeVersions_def ex_revoked_nodes ex_invalidate)

subsection \<open>Modules\<close>

definition ex_module_row :: module_row where
  "ex_module_row = \<lparr>mo_ID = 1, mo_TenantID = None, mo_Scope = ScopeGlobal, mo_Name = ''n'', mo_Description = None,
     mo_ProcessID = ''p'', mo_ActiveVersionID = None, mo_CreatedByUserID = Some 4, mo_RecordVersion = 1, mo_CreatedAt = 10, mo_UpdatedAt = 10\<rparr>"

definition ex_mdraft_row :: mversion_row where
  "ex_mdraft_row = \<lparr>mv_ID = 2, mv_ModuleID = 1, mv_TenantID = None, mv_Scope = ScopeGlobal, mv_Status = VersionStatusDraft,
     mv_BpmnXml = ''x'', mv_ProcessID = ''p'', mv_VersionNumber = None, mv_IsValid = True, mv_ValidationErrorsJson = None,
     mv_PublishedAt = None, mv_CreatedByUserID = Some 4, mv_RecordVersion = 1, mv_CreatedAt = 10, mv_UpdatedAt = 10\<rparr>"

definition ex_mcreated :: mdb where
  "ex_mcreated = \<lparr>mdb_modules = [ex_module_row], mdb_versions = [ex_mdraft_row]\<rparr>"

definition ex_mpublished_row :: mversion_row where
  "ex_mpublished_row = ex_mdraft_row\<lparr>mv_Status := VersionStatusPublished, mv_VersionNumber := Some 1, mv_PublishedAt := Some 11,
     mv_UpdatedAt := 11, mv_RecordVersion := 2\<rparr>"

definition ex_mpublished :: mdb where
  "ex_mpublished = \<lparr>mdb_modules = [ex_module_row\<lparr>mo_ActiveVersionID := Some 2, mo_UpdatedAt := 11, mo_RecordVersion := 2\<rparr>],
     mdb_versions = [ex_mpublished_row]\<rparr>"

lemmas ex_mdefs = ex_mcreated_def ex_mpublished_def ex_module_row_def ex_mdraft_row_def ex_mpublished_row_def

lemma ex_create_module:
  "RunInModuleTx (create_module_tx 10 None ''p'' (new_module 1 None ScopeGlobal ''n'' [] ''p'' 4)
     (new_module_version 2 1 None ScopeGlobal ''x'' ''p'' 4)) empty_mdb = Inr ((), ex_mcreated)"
  by (simp add: RunInModuleTx_def create_module_tx_def ModuleRepo_ProcessIDInUse_def ModuleProcessIDInUse_def
    ModuleRepo_Create_def CreateModule_def ModuleVersionRepo_Create_def CreateModuleVersion_def new_module_def
    new_module_version_def module_fk_def scope_tenant_ok_def empty_mdb_def ex_mdefs store_defs)

lemma ex_publish_module: "RunInModuleTx (publish_module_tx 11 3 1 2) ex_mcreated = Inr (1, ex_mpublished)"
  by (simp add: RunInModuleTx_def publish_module_tx_def ModuleVersionRepo_NextVersionNumber_def NextModuleVersionNumber_def
    max_module_number_def ModuleVersionRepo_Publish_def PublishModuleVersion_def ModuleRepo_UpdateActiveVersion_def
    UpdateModuleActiveVersion_def may_activate_module_def module_fk_def visible_def update_mversions_def touch_mversion_def
    touch_module_def map_filter_simps ex_mdefs store_defs)

lemma ex_module_reach: "mod_step\<^sup>*\<^sup>* empty_mdb ex_mpublished"
proof -
  have "mod_step empty_mdb ex_mcreated" by (rule mod_step.create [OF ex_create_module]) simp
  moreover have "mod_step ex_mcreated ex_mpublished" by (rule mod_step.publish [OF ex_publish_module])
  ultimately show ?thesis by (meson r_into_rtranclp rtranclp.rtrancl_into_rtrancl)
qed

end
