(* ===== verification/Bpmn_Graph.thy ===== *)
theory Bpmn_Graph
  imports Bpmn_Types
begin

text \<open>
  The process graph of \<open>bpmncore/graph.go\<close>: \<open>BuildGraph\<close> and the lookups over a process, a lane set
  and a document.  \<open>Outgoing\<close> and \<open>Incoming\<close> map a node to the targets or sources of its sequence
  flows in document order, \<open>NodeType\<close> a node to its kind; \<open>NodeIDs\<close> is the set of registered nodes,
  kept as a map to \<open>unit\<close> as in the source, because it is ranged over.
\<close>

subsection \<open>Building the graph\<close>

record Graph =
  g_Outgoing :: "(string, string list) gomap"
  g_Incoming :: "(string, string list) gomap"
  g_NodeType :: "(string, FlowNodeType) gomap"
  g_NodeIDs :: "(string, unit) gomap"

abbreviation out :: "Graph \<Rightarrow> string \<Rightarrow> string list" where
  "out g n \<equiv> mget_or [] (g_Outgoing g) n"

abbreviation inc :: "Graph \<Rightarrow> string \<Rightarrow> string list" where
  "inc g n \<equiv> mget_or [] (g_Incoming g) n"

text \<open>A read of an unregistered node gives Go's empty string, which is no kind: \<open>None\<close>.\<close>

abbreviation node_type :: "Graph \<Rightarrow> string \<Rightarrow> FlowNodeType option" where
  "node_type g n \<equiv> map_of (g_NodeType g) n"

abbreviation node_ids :: "Graph \<Rightarrow> string set" where
  "node_ids g \<equiv> set (mkeys (g_NodeIDs g))"

definition register :: "FlowNodeType \<Rightarrow> string \<Rightarrow> Graph \<Rightarrow> Graph" where
  "register kind nid g =
     g\<lparr>g_NodeType := mput nid kind (g_NodeType g), g_NodeIDs := mput nid () (g_NodeIDs g)\<rparr>"

definition boundary_kind :: "BPMNBoundaryEvent \<Rightarrow> FlowNodeType" where
  "boundary_kind be =
     (if bnd_Timer be \<noteq> None then NodeTypeTimerBoundaryEvent
      else if bnd_Error be \<noteq> None then NodeTypeErrorBoundaryEvent
      else if bnd_Message be \<noteq> None then NodeTypeMessageBoundaryEvent
      else NodeTypeBoundaryEvent)"

definition add_flow :: "BPMNSequenceFlow \<Rightarrow> Graph \<Rightarrow> Graph" where
  "add_flow sf g =
     g\<lparr>g_Outgoing := mappend (sf_SourceRef sf) (sf_TargetRef sf) (g_Outgoing g),
       g_Incoming := mappend (sf_TargetRef sf) (sf_SourceRef sf) (g_Incoming g)\<rparr>"

definition BuildGraph :: "BPMNProcess \<Rightarrow> Graph" where
  "BuildGraph proc =
     (let g = \<lparr>g_Outgoing = [], g_Incoming = [], g_NodeType = [], g_NodeIDs = []\<rparr>;
          g = fold (\<lambda>e. register NodeTypeStartEvent (ev_ID e)) (proc_StartEvents proc) g;
          g = fold (\<lambda>e. register NodeTypeEndEvent (ev_ID e)) (proc_EndEvents proc) g;
          g = fold (\<lambda>t. register NodeTypeUserTask (ut_ID t)) (proc_UserTasks proc) g;
          g = fold (\<lambda>t. register NodeTypeSendTask (st_ID t)) (proc_SendTasks proc) g;
          g = fold (\<lambda>t. register NodeTypeReceiveTask (rt_ID t)) (proc_ReceiveTasks proc) g;
          g = fold (\<lambda>gw. register NodeTypeParallelGateway (gw_ID gw)) (proc_ParallelGateways proc) g;
          g = fold (\<lambda>gw. register NodeTypeExclusiveGateway (gw_ID gw)) (proc_ExclusiveGateways proc) g;
          g = fold (\<lambda>gw. register NodeTypeInclusiveGateway (gw_ID gw)) (proc_InclusiveGateways proc) g;
          g = fold (\<lambda>sp. register NodeTypeSubProcess (sp_ID sp)) (proc_SubProcesses proc) g;
          g = fold (\<lambda>ca. register NodeTypeCallActivity (ca_ID ca)) (proc_CallActivities proc) g;
          g = fold (\<lambda>be. register (boundary_kind be) (bnd_ID be)) (proc_BoundaryEvents proc) g
      in fold add_flow (proc_SequenceFlows proc) g)"

subsection \<open>Lookups\<close>

definition BuildLaneLabels :: "BPMNProcess \<Rightarrow> (string, string) gomap" where
  "BuildLaneLabels proc = fold (\<lambda>lane m. mput (lane_Name lane) (lane_Name lane) m) (proc_LaneSet proc) []"

definition BuildCondExprs :: "BPMNProcess \<Rightarrow> (string \<times> string, string) gomap" where
  "BuildCondExprs proc =
     fold (\<lambda>sf m. if sf_ConditionExpression sf \<noteq> []
                  then mput (sf_SourceRef sf, sf_TargetRef sf) (sf_ConditionExpression sf) m else m)
       (proc_SequenceFlows proc) []"

text \<open>A \<open>map[[2]string]bool\<close> of back edges is the set of the edges it marks.\<close>

type_synonym edges = "(string \<times> string) set"

definition forwardCount :: "string \<Rightarrow> Graph \<Rightarrow> edges \<Rightarrow> nat" where
  "forwardCount node g backEdges = length (filter (\<lambda>n. (node, n) \<notin> backEdges) (out g node))"

definition FirstForward :: "string \<Rightarrow> Graph \<Rightarrow> edges \<Rightarrow> string \<times> bool" where
  "FirstForward node g backEdges =
     (case find (\<lambda>n. (node, n) \<notin> backEdges) (out g node) of
        Some n \<Rightarrow> (n, True) | None \<Rightarrow> ([], False))"

definition BuildLaneRefSet :: "BPMNProcess \<Rightarrow> string set" where
  "BuildLaneRefSet proc = set (concat (map lane_FlowNodeRefs (proc_LaneSet proc)))"

definition FindTask :: "BPMNProcess \<Rightarrow> string \<Rightarrow> BPMNUserTask option" where
  "FindTask proc nid = find (\<lambda>t. ut_ID t = nid) (proc_UserTasks proc)"

definition FindSendTask :: "BPMNProcess \<Rightarrow> string \<Rightarrow> BPMNSendTask option" where
  "FindSendTask proc nid = find (\<lambda>t. st_ID t = nid) (proc_SendTasks proc)"

definition FindReceiveTask :: "BPMNProcess \<Rightarrow> string \<Rightarrow> BPMNReceiveTask option" where
  "FindReceiveTask proc nid = find (\<lambda>t. rt_ID t = nid) (proc_ReceiveTasks proc)"

definition FindSubProcess :: "BPMNProcess \<Rightarrow> string \<Rightarrow> BPMNSubProcess option" where
  "FindSubProcess proc nid = find (\<lambda>s. sp_ID s = nid) (proc_SubProcesses proc)"

definition FindCallActivity :: "BPMNProcess \<Rightarrow> string \<Rightarrow> BPMNCallActivity option" where
  "FindCallActivity proc nid = find (\<lambda>c. ca_ID c = nid) (proc_CallActivities proc)"

fun processOfParticipant :: "BPMNProcess list \<Rightarrow> string \<Rightarrow> BPMNParticipant list \<Rightarrow> BPMNProcess option" where
  "processOfParticipant procs participantID [] = None"
| "processOfParticipant procs participantID (p # ps) =
     (if pt_ID p \<noteq> participantID then processOfParticipant procs participantID ps
      else case find (\<lambda>q. proc_ID q = pt_ProcessRef p) procs of
        Some q \<Rightarrow> Some q
      | None \<Rightarrow> processOfParticipant procs participantID ps)"

definition findProcessByParticipantID :: "BPMNDefinitions \<Rightarrow> string \<Rightarrow> BPMNProcess option" where
  "findProcessByParticipantID defs participantID =
     (case defs_Collaboration defs of
        None \<Rightarrow> None
      | Some c \<Rightarrow> processOfParticipant (defs_Processes defs) participantID (collab_Participants c))"

definition FindProcessByID :: "BPMNDefinitions \<Rightarrow> string \<Rightarrow> BPMNProcess option" where
  "FindProcessByID defs nid =
     (case find (\<lambda>p. proc_ID p = nid) (defs_Processes defs) of
        Some p \<Rightarrow> Some p | None \<Rightarrow> findProcessByParticipantID defs nid)"

definition LaneFor :: "string \<Rightarrow> BPMNProcess \<Rightarrow> BPMNLane option" where
  "LaneFor taskID proc = find (\<lambda>lane. taskID \<in> set (lane_FlowNodeRefs lane)) (proc_LaneSet proc)"

definition first_prop :: "string \<Rightarrow> ZeebeProperty list \<Rightarrow> string" where
  "first_prop name ps = (case find (\<lambda>p. zp_Name p = name) ps of Some p \<Rightarrow> zp_Value p | None \<Rightarrow> [])"

definition DeptIDFor :: "string \<Rightarrow> BPMNProcess \<Rightarrow> string" where
  "DeptIDFor taskID proc =
     (case LaneFor taskID proc of
        None \<Rightarrow> []
      | Some lane \<Rightarrow> first_prop ''dept_id'' (ext_ZeebeProps (lane_ExtensionElements lane)))"

definition implicit_start_candidates :: "Graph \<Rightarrow> string list" where
  "implicit_start_candidates g =
     map fst (filter (\<lambda>(nid, kind). \<not> (IsBoundaryEventType kind \<or> kind = NodeTypeEndEvent)
                         \<and> inc g nid = [] \<and> out g nid \<noteq> []) (g_NodeType g))"

definition FindImplicitStart :: "BPMNProcess \<Rightarrow> Graph \<Rightarrow> string" where
  "FindImplicitStart proc g =
     (if proc_StartEvents proc \<noteq> [] then []
      else case implicit_start_candidates g of [c] \<Rightarrow> c | _ \<Rightarrow> [])"

definition OutgoingTargetOf :: "string \<Rightarrow> BPMNProcess \<Rightarrow> string" where
  "OutgoingTargetOf nodeID proc =
     (case find (\<lambda>sf. sf_SourceRef sf = nodeID) (proc_SequenceFlows proc) of
        Some sf \<Rightarrow> sf_TargetRef sf | None \<Rightarrow> [])"

definition TimerBoundaryFor :: "string \<Rightarrow> BPMNProcess \<Rightarrow> BPMNBoundaryEvent option" where
  "TimerBoundaryFor taskID proc =
     find (\<lambda>be. bnd_AttachedToRef be = taskID \<and> bnd_Timer be \<noteq> None) (proc_BoundaryEvents proc)"

definition MessageBoundaryFor :: "string \<Rightarrow> BPMNProcess \<Rightarrow> BPMNBoundaryEvent option" where
  "MessageBoundaryFor taskID proc =
     find (\<lambda>be. bnd_AttachedToRef be = taskID \<and> bnd_Message be \<noteq> None) (proc_BoundaryEvents proc)"

subsection \<open>What BuildGraph builds\<close>

text \<open>The nodes in the order in which \<open>BuildGraph\<close> registers them.\<close>

definition registrations :: "BPMNProcess \<Rightarrow> (string \<times> FlowNodeType) list" where
  "registrations proc =
     map (\<lambda>e. (ev_ID e, NodeTypeStartEvent)) (proc_StartEvents proc) @
     map (\<lambda>e. (ev_ID e, NodeTypeEndEvent)) (proc_EndEvents proc) @
     map (\<lambda>t. (ut_ID t, NodeTypeUserTask)) (proc_UserTasks proc) @
     map (\<lambda>t. (st_ID t, NodeTypeSendTask)) (proc_SendTasks proc) @
     map (\<lambda>t. (rt_ID t, NodeTypeReceiveTask)) (proc_ReceiveTasks proc) @
     map (\<lambda>gw. (gw_ID gw, NodeTypeParallelGateway)) (proc_ParallelGateways proc) @
     map (\<lambda>gw. (gw_ID gw, NodeTypeExclusiveGateway)) (proc_ExclusiveGateways proc) @
     map (\<lambda>gw. (gw_ID gw, NodeTypeInclusiveGateway)) (proc_InclusiveGateways proc) @
     map (\<lambda>sp. (sp_ID sp, NodeTypeSubProcess)) (proc_SubProcesses proc) @
     map (\<lambda>ca. (ca_ID ca, NodeTypeCallActivity)) (proc_CallActivities proc) @
     map (\<lambda>be. (bnd_ID be, boundary_kind be)) (proc_BoundaryEvents proc)"

lemma fold_register_pairs:
  "fold (\<lambda>x. register (k x) (i x)) xs = fold (\<lambda>(n, t). register t n) (map (\<lambda>x. (i x, k x)) xs)"
  by (simp add: fold_map comp_def)

lemma BuildGraph_alt:
  "BuildGraph proc =
     fold add_flow (proc_SequenceFlows proc)
       (fold (\<lambda>(n, t). register t n) (registrations proc)
         \<lparr>g_Outgoing = [], g_Incoming = [], g_NodeType = [], g_NodeIDs = []\<rparr>)"
  by (simp add: BuildGraph_def Let_def registrations_def fold_append fold_map comp_def)

lemma fold_add_flow_nodes [simp]:
  "g_NodeType (fold add_flow sfs g) = g_NodeType g"
  "g_NodeIDs (fold add_flow sfs g) = g_NodeIDs g"
  by (induction sfs arbitrary: g) (simp_all add: add_flow_def)

lemma fold_register_edges [simp]:
  "g_Outgoing (fold (\<lambda>(n, t). register t n) rs g) = g_Outgoing g"
  "g_Incoming (fold (\<lambda>(n, t). register t n) rs g) = g_Incoming g"
  by (induction rs arbitrary: g) (simp_all add: register_def split_beta)

lemma out_fold_add_flow:
  "out (fold add_flow sfs g) n = out g n @ map sf_TargetRef (filter (\<lambda>sf. sf_SourceRef sf = n) sfs)"
  by (induction sfs arbitrary: g) (simp_all add: add_flow_def)

lemma inc_fold_add_flow:
  "inc (fold add_flow sfs g) n = inc g n @ map sf_SourceRef (filter (\<lambda>sf. sf_TargetRef sf = n) sfs)"
  by (induction sfs arbitrary: g) (simp_all add: add_flow_def)

lemma out_BuildGraph:
  "out (BuildGraph proc) n =
     map sf_TargetRef (filter (\<lambda>sf. sf_SourceRef sf = n) (proc_SequenceFlows proc))"
  by (simp add: BuildGraph_alt out_fold_add_flow)

lemma inc_BuildGraph:
  "inc (BuildGraph proc) n =
     map sf_SourceRef (filter (\<lambda>sf. sf_TargetRef sf = n) (proc_SequenceFlows proc))"
  by (simp add: BuildGraph_alt inc_fold_add_flow)

lemma node_type_fold_register:
  "node_type (fold (\<lambda>(n, t). register t n) rs g) nid =
     (case map_of (rev rs) nid of None \<Rightarrow> node_type g nid | Some t \<Rightarrow> Some t)"
  by (induction rs arbitrary: g)
     (auto simp: register_def update_conv map_add_def split: option.splits)

lemma node_type_BuildGraph: "node_type (BuildGraph proc) nid = map_of (rev (registrations proc)) nid"
  by (simp add: BuildGraph_alt node_type_fold_register split: option.splits)

lemma keys_fold_register:
  "set (mkeys (g_NodeType (fold (\<lambda>(n, t). register t n) rs g))) = fst ` set rs \<union> set (mkeys (g_NodeType g))"
  "node_ids (fold (\<lambda>(n, t). register t n) rs g) = fst ` set rs \<union> node_ids g"
  by (induction rs arbitrary: g) (simp_all add: register_def split_beta)

lemma node_ids_BuildGraph: "node_ids (BuildGraph proc) = fst ` set (registrations proc)"
  using keys_fold_register(2) [of "registrations proc"] by (simp add: BuildGraph_alt)

lemma node_ids_iff_typed:
  "n \<in> node_ids (BuildGraph proc) \<longleftrightarrow> node_type (BuildGraph proc) n \<noteq> None"
  unfolding node_ids_BuildGraph node_type_BuildGraph by (simp add: map_of_eq_None_iff)

text \<open>
  A registered identifier that no later registration repeats has the kind of its element; so in a
  process without duplicate identifiers (checked by \<open>ValidateDuplicateIDs\<close>) every node has its own.
\<close>

lemma node_type_unique:
  assumes "distinct (map fst (registrations proc))"
  shows "node_type (BuildGraph proc) n = Some t \<longleftrightarrow> (n, t) \<in> set (registrations proc)"
  using assms by (simp add: node_type_BuildGraph map_of_eq_Some_iff distinct_rev rev_map [symmetric])

subsection \<open>Edges\<close>

definition edge_rel :: "Graph \<Rightarrow> edges" where
  "edge_rel g = {(u, v). v \<in> set (out g u)}"

definition fwd :: "Graph \<Rightarrow> edges \<Rightarrow> edges" where
  "fwd g backEdges = edge_rel g - backEdges"

lemma edge_rel_iff [simp]: "(u, v) \<in> edge_rel g \<longleftrightarrow> v \<in> set (out g u)"
  by (simp add: edge_rel_def)

lemma fwd_iff: "(u, v) \<in> fwd g B \<longleftrightarrow> v \<in> set (out g u) \<and> (u, v) \<notin> B"
  by (simp add: fwd_def)

text \<open>Edges and their endpoints are finite: they come from the entries of one association list.\<close>

definition targets :: "Graph \<Rightarrow> string set" where
  "targets g = set (concat (map snd (g_Outgoing g)))"

lemma finite_targets [simp]: "finite (targets g)"
  by (simp add: targets_def)

lemma out_targets: "v \<in> set (out g u) \<Longrightarrow> v \<in> targets g"
  unfolding targets_def by (rule mget_or_elem)

lemma out_source: "v \<in> set (out g u) \<Longrightarrow> u \<in> set (mkeys (g_Outgoing g))"
  by (metis empty_iff list.set(1) mget_or_absent)

lemma finite_edge_rel [simp]: "finite (edge_rel g)"
proof (rule finite_subset)
  show "edge_rel g \<subseteq> set (mkeys (g_Outgoing g)) \<times> targets g"
    using out_source out_targets by fastforce
qed simp

lemma edge_rel_BuildGraph:
  "(u, v) \<in> edge_rel (BuildGraph proc) \<longleftrightarrow>
     (\<exists>sf \<in> set (proc_SequenceFlows proc). sf_SourceRef sf = u \<and> sf_TargetRef sf = v)"
  by (auto simp: out_BuildGraph)

text \<open>The incoming lists are the converse of the outgoing ones.\<close>

lemma inc_iff_out_BuildGraph:
  "u \<in> set (inc (BuildGraph proc) v) \<longleftrightarrow> v \<in> set (out (BuildGraph proc) u)"
  by (auto simp: out_BuildGraph inc_BuildGraph)

lemma FirstForward_Some:
  "FirstForward n g B = (m, True) \<Longrightarrow> (n, m) \<in> fwd g B"
  by (auto simp: FirstForward_def fwd_iff find_Some_iff split: option.splits)

lemma FirstForward_None:
  "\<not> snd (FirstForward n g B) \<longleftrightarrow> (\<forall>m. (n, m) \<notin> fwd g B)"
  by (auto simp: FirstForward_def fwd_iff find_None_iff find_Some_iff split: option.splits)
     (metis nth_mem)

lemma forwardCount_0_iff: "forwardCount n g B = 0 \<longleftrightarrow> (\<forall>m. (n, m) \<notin> fwd g B)"
  by (auto simp: forwardCount_def fwd_iff filter_empty_conv)

end
