(* ===== verification/Bpmn_Call.thy ===== *)
theory Bpmn_Call
  imports Bpmn_Graph
begin

text \<open>
  The helpers of \<open>bpmncore/call.go\<close> on lanes, ignored work and called processes, and the message and
  boundary helpers of \<open>bpmncore/compile.go\<close>.
\<close>

subsection \<open>Lanes and ignored work\<close>

definition LaneDeptID :: "BPMNLane \<Rightarrow> string" where
  "LaneDeptID lane = first_prop ''dept_id'' (ext_ZeebeProps (lane_ExtensionElements lane))"

definition IsIgnored :: "BPMNProcess \<Rightarrow> bool" where
  "IsIgnored proc \<longleftrightarrow>
     (\<exists>p \<in> set (ext_ZeebeProps (proc_ExtensionElements proc)). zp_Name p = ''ignore'' \<and> zp_Value p = ''true'')"

definition IsIgnoredLane :: "BPMNLane \<Rightarrow> bool" where
  "IsIgnoredLane lane \<longleftrightarrow> mget_or [] (PropsMap (lane_ExtensionElements lane)) ''ignore'' = ''true''"

definition work_ids :: "BPMNProcess \<Rightarrow> string set" where
  "work_ids proc =
     set (map ut_ID (proc_UserTasks proc) @ map st_ID (proc_SendTasks proc) @ map rt_ID (proc_ReceiveTasks proc) @
          map ca_ID (proc_CallActivities proc) @ map sp_ID (proc_SubProcesses proc))"

definition WorkLanes :: "BPMNProcess \<Rightarrow> BPMNLane list" where
  "WorkLanes proc =
     filter (\<lambda>lane. \<not> IsIgnoredLane lane \<and> (\<exists>nid \<in> set (lane_FlowNodeRefs lane). nid \<in> work_ids proc))
       (proc_LaneSet proc)"

definition ImplicitSlot :: "BPMNProcess \<Rightarrow> string" where
  "ImplicitSlot proc = fst (Cut (proc_ID proc) ''@'')"

definition OpenSlots :: "BPMNProcess \<Rightarrow> string list" where
  "OpenSlots proc =
     (if proc_LaneSet proc = [] then [ImplicitSlot proc]
      else map lane_Name (filter (\<lambda>lane. LaneDeptID lane = []) (WorkLanes proc)))"

definition is_task_type :: "FlowNodeType option \<Rightarrow> bool" where
  "is_task_type t \<longleftrightarrow> t \<in> {Some NodeTypeUserTask, Some NodeTypeSendTask, Some NodeTypeReceiveTask}"

definition SkippedTasks :: "BPMNProcess \<Rightarrow> Graph \<Rightarrow> string set" where
  "SkippedTasks proc g =
     set (concat (map (\<lambda>lane. if IsIgnoredLane lane
                          then filter (\<lambda>nid. is_task_type (node_type g nid)) (lane_FlowNodeRefs lane) else [])
       (proc_LaneSet proc)))"

lemma SkippedTasks_iff:
  "n \<in> SkippedTasks proc g \<longleftrightarrow>
     is_task_type (node_type g n) \<and> (\<exists>lane \<in> set (proc_LaneSet proc). IsIgnoredLane lane \<and> n \<in> set (lane_FlowNodeRefs lane))"
  by (auto simp: SkippedTasks_def split: if_splits)

subsection \<open>The processes that run\<close>

text \<open>
  \<open>byID\<close> maps an identifier to the last process that has it.  The slice \<open>running\<close> grows while the loop
  walks it by index: \<open>seen\<close> is the set of the identifiers in it, \<open>rest\<close> its part still to be walked.
\<close>

definition process_by_id :: "BPMNDefinitions \<Rightarrow> (string, BPMNProcess) gomap" where
  "process_by_id defs = fold (\<lambda>p m. mput (proc_ID p) p m) (defs_Processes defs) []"

definition called_id :: "BPMNCallActivity \<Rightarrow> string option" where
  "called_id ca = map_option ce_ProcessID (ext_ZeebeCalledElement (ca_ExtensionElements ca))"

fun add_callees :: "(string, BPMNProcess) gomap \<Rightarrow> BPMNCallActivity list \<Rightarrow> string set \<Rightarrow> BPMNProcess list
    \<Rightarrow> string set \<times> BPMNProcess list" where
  "add_callees byID [] seen new = (seen, new)"
| "add_callees byID (ca # cas) seen new =
     (case called_id ca of
        None \<Rightarrow> add_callees byID cas seen new
      | Some pid \<Rightarrow>
          (case map_of byID pid of
             None \<Rightarrow> add_callees byID cas seen new
           | Some p \<Rightarrow> if pid \<in> seen then add_callees byID cas seen new
                       else add_callees byID cas (insert pid seen) (new @ [p])))"

lemma add_callees_seen:
  "add_callees byID cas seen new = (seen', new') \<Longrightarrow>
     seen \<subseteq> seen' \<and> seen' \<subseteq> seen \<union> set (mkeys byID) \<and> length new' = length new + card (seen' - seen)"
proof (induction byID cas seen new rule: add_callees.induct)
  case (2 byID ca cas seen new)
  show ?case
  proof (cases "called_id ca")
    case (Some pid)
    show ?thesis
    proof (cases "map_of byID pid")
      case (Some p)
      then have key: "pid \<in> set (mkeys byID)" by (force dest: map_of_SomeD)
      show ?thesis
      proof (cases "pid \<in> seen")
        case False
        with 2 \<open>called_id ca = Some pid\<close> Some
        have rest: "insert pid seen \<subseteq> seen'" "seen' \<subseteq> insert pid seen \<union> set (mkeys byID)"
          "length new' = length (new @ [p]) + card (seen' - insert pid seen)" by auto
        have "finite (seen' - seen)"
          using rest(2) by (rule_tac finite_subset [of _ "insert pid (set (mkeys byID))"]) auto
        moreover have "seen' - seen = insert pid (seen' - insert pid seen)" using rest(1) False by auto
        ultimately have "card (seen' - seen) = Suc (card (seen' - insert pid seen))"
          by (metis Diff_iff card_insert_disjoint finite_insert insertI1)
        with rest key show ?thesis by auto
      qed (use 2 \<open>called_id ca = Some pid\<close> Some in auto)
    qed (use 2 Some in auto)
  qed (use 2 in auto)
qed simp

function running_loop :: "(string, BPMNProcess) gomap \<Rightarrow> string set \<Rightarrow> BPMNProcess list \<Rightarrow> BPMNProcess list" where
  "running_loop byID seen [] = []"
| "running_loop byID seen (p # rest) =
     (let (seen', new) = add_callees byID (proc_CallActivities p) seen []
      in p # running_loop byID seen' (rest @ new))"
  by pat_completeness auto

termination
proof (relation "measure (\<lambda>(byID, seen, rest). length rest + card (set (mkeys byID) - seen))", goal_cases)
  case (2 byID seen p rest x seen' new)
  then have "add_callees byID (proc_CallActivities p) seen [] = (seen', new)" by simp
  from add_callees_seen [OF this] have sub: "seen \<subseteq> seen'" "seen' - seen \<subseteq> set (mkeys byID) - seen"
    and len: "length new = card (seen' - seen)" by auto
  have "set (mkeys byID) - seen' = (set (mkeys byID) - seen) - (seen' - seen)" using sub(1) by auto
  then have "card (set (mkeys byID) - seen') + card (seen' - seen) = card (set (mkeys byID) - seen)"
    using sub(2) by (metis card_Diff_subset card_mono finite_Diff finite_set finite_subset le_add_diff_inverse2)
  with len show ?case by auto
qed simp

definition RunningProcesses :: "BPMNDefinitions \<Rightarrow> BPMNProcess \<Rightarrow> BPMNProcess list" where
  "RunningProcesses defs root = running_loop (process_by_id defs) {proc_ID root} [root]"

subsection \<open>Messages\<close>

text \<open>In these functions \<open>defs\<close> may be nil.\<close>

definition ResolveMessageName :: "string \<Rightarrow> BPMNDefinitions option \<Rightarrow> string" where
  "ResolveMessageName messageRef defs =
     (case defs of
        None \<Rightarrow> []
      | Some d \<Rightarrow>
          if messageRef = [] then []
          else case find (\<lambda>m. msg_ID m = messageRef) (defs_Messages d) of Some m \<Rightarrow> msg_Name m | None \<Rightarrow> [])"

fun process_message_ref :: "string \<Rightarrow> BPMNProcess \<Rightarrow> string option" where
  "process_message_ref nodeID p =
     (case find (\<lambda>t. st_ID t = nodeID) (proc_SendTasks p) of
        Some t \<Rightarrow> Some (st_MessageRef t)
      | None \<Rightarrow>
          (case find (\<lambda>t. rt_ID t = nodeID) (proc_ReceiveTasks p) of
             Some t \<Rightarrow> Some (rt_MessageRef t)
           | None \<Rightarrow>
               (case find (\<lambda>be. bnd_ID be = nodeID \<and> bnd_Message be \<noteq> None) (proc_BoundaryEvents p) of
                  Some be \<Rightarrow> map_option md_MessageRef (bnd_Message be)
                | None \<Rightarrow> None)))"

fun first_message_ref :: "string \<Rightarrow> BPMNProcess list \<Rightarrow> string" where
  "first_message_ref nodeID [] = []"
| "first_message_ref nodeID (p # ps) =
     (case process_message_ref nodeID p of Some r \<Rightarrow> r | None \<Rightarrow> first_message_ref nodeID ps)"

definition nodeMessageRef :: "string \<Rightarrow> BPMNDefinitions option \<Rightarrow> string" where
  "nodeMessageRef nodeID defs =
     (case defs of None \<Rightarrow> [] | Some d \<Rightarrow> if nodeID = [] then [] else first_message_ref nodeID (defs_Processes d))"

definition ResolveMessageFlowName :: "BPMNMessageFlow \<Rightarrow> BPMNDefinitions option \<Rightarrow> string" where
  "ResolveMessageFlowName mf defs =
     (if mf_Name mf \<noteq> [] then mf_Name mf
      else let name = ResolveMessageName (mf_MessageRef mf) defs in
        if name \<noteq> [] then name
        else let name = ResolveMessageName (nodeMessageRef (mf_TargetRef mf) defs) defs in
          if name \<noteq> [] then name
          else ResolveMessageName (nodeMessageRef (mf_SourceRef mf) defs) defs)"

definition ResolveMessageFlowTarget :: "string \<Rightarrow> BPMNDefinitions option \<Rightarrow> string" where
  "ResolveMessageFlowTarget nodeID defs =
     (case defs of
        None \<Rightarrow> []
      | Some d \<Rightarrow>
          (case defs_Collaboration d of
             None \<Rightarrow> []
           | Some c \<Rightarrow>
               (case find (\<lambda>mf. mf_TargetRef mf = nodeID) (collab_MessageFlows c) of
                  Some mf \<Rightarrow> ResolveMessageFlowName mf defs
                | None \<Rightarrow> [])))"

definition IsInterrupting :: "string \<Rightarrow> bool" where
  "IsInterrupting cancelActivity \<longleftrightarrow> cancelActivity \<noteq> ''false'' \<and> cancelActivity \<noteq> ''0''"

definition ValidCancelActivity :: "string \<Rightarrow> bool" where
  "ValidCancelActivity cancelActivity \<longleftrightarrow> cancelActivity \<in> {'''', ''true'', ''false'', ''1'', ''0''}"

end
