(* ===== verification/Plan_Types.thy ===== *)
theory Plan_Types
  imports Bpmn_Call
begin

text \<open>
  The types of a compiled plan.  They come from the package \<open>dsl\<close> of workflow-models; the fields here are the
  ones that the compiler writes or reads.  A plan's departments are its lane segments with their stages; its
  execution is a tree of steps.  The types that the tree goes through are polymorphic in the step type.
\<close>

datatype IOMapping = IOMapping (iom_Inputs: "(string \<times> string) list") (iom_Outputs: "(string \<times> string) list")

text \<open>An input or output is its source with its target.\<close>

subsection \<open>Boundary paths\<close>

datatype 's ErrorPath = ErrorPath
  (ep_BoundaryID: string) (ep_ErrorCode: string) (ep_TargetDept: string) (ep_Terminates: bool) (ep_Steps: "'s list")

datatype 's TimerPath = TimerPath
  (tp_BoundaryID: string) (tp_Duration: string) (tp_Interrupting: bool) (tp_TargetDept: string) (tp_Terminates: bool)
  (tp_Steps: "'s list")

datatype 's MessagePath = MessagePath
  (mp_MessageName: string) (mp_BoundaryID: string) (mp_Interrupting: bool) (mp_TargetDept: string) (mp_Terminates: bool)
  (mp_Steps: "'s list")

subsection \<open>Steps\<close>

datatype 's ParallelBranch = ParallelBranch (pb_DeptID: string) (pb_Steps: "'s list")

datatype 's ExclusiveBranch = ExclusiveBranch
  (xb_ConditionExpression: string) (xb_Target: string) (xb_TargetStage: string) (xb_TargetNodeID: string) (xb_TargetName: string)
  (xb_Terminates: bool) (xb_RevertToDept: string) (xb_RevertToStage: string) (xb_RevertToNodeID: string) (xb_RevertToName: string)
  (xb_Steps: "'s list")

datatype 's SubWorkflowStep = SubWorkflowStep
  (sw_NodeID: string) (sw_Name: string) (sw_Plan: "'s list")
  (sw_ErrorPaths: "'s ErrorPath list") (sw_TimerPaths: "'s TimerPath list") (sw_MessagePaths: "'s MessagePath list")

datatype 's CallPlanStep = CallPlanStep
  (cs_NodeID: string) (cs_Name: string) (cs_Plan: string)
  (cs_Departments: "(string, string) gomap") (cs_Assignees: "(string, string) gomap")
  (cs_ErrorPaths: "'s ErrorPath list") (cs_TimerPaths: "'s TimerPath list") (cs_MessagePaths: "'s MessagePath list")

datatype ExecutionStep = ExecutionStep
  (es_Sequential: "string list")
  (es_Parallel: "ExecutionStep ParallelBranch list")
  (es_Exclusive: "ExecutionStep ExclusiveBranch list")
  (es_SubWorkflow: "ExecutionStep SubWorkflowStep option")
  (es_CallPlan: "ExecutionStep CallPlanStep option")
  (es_MessagePaths: "ExecutionStep MessagePath list")
  (es_IOMapping: "IOMapping option")
  (es_Extras: "(string, string) gomap")

text \<open>The steps that the compiler builds, each with the fields that its composite literal names.\<close>

definition sequential_step :: "string list \<Rightarrow> ExecutionStep" where
  "sequential_step depts = ExecutionStep depts [] [] None None [] None []"

definition branch_step :: "ExecutionStep ParallelBranch list \<Rightarrow> ExecutionStep ExclusiveBranch list \<Rightarrow> ExecutionStep" where
  "branch_step par excl = ExecutionStep [] par excl None None [] None []"

definition sub_step :: "ExecutionStep SubWorkflowStep \<Rightarrow> ExecutionStep" where
  "sub_step sw = ExecutionStep [] [] [] (Some sw) None [] None []"

definition call_step :: "ExecutionStep CallPlanStep \<Rightarrow> IOMapping option \<Rightarrow> (string, string) gomap \<Rightarrow> ExecutionStep" where
  "call_step cp io extras = ExecutionStep [] [] [] None (Some cp) [] io extras"

definition zero_branch :: "string \<Rightarrow> 's ExclusiveBranch" where
  "zero_branch condition = ExclusiveBranch condition [] [] [] [] False [] [] [] [] []"

subsection \<open>Departments\<close>

record BoundaryTimer =
  bt_BoundaryID :: string
  bt_Duration :: string
  bt_Interrupting :: bool
  bt_TargetDept :: string
  bt_Terminates :: bool
  bt_Steps :: "ExecutionStep list"

record StageDef =
  sg_Type :: string
  sg_Activity :: string
  sg_NodeID :: string
  sg_Name :: string
  sg_Role :: string
  sg_DefaultAssignees :: "string list"
  sg_HasEngineNote :: bool
  sg_Extras :: "(string, string) gomap"
  sg_IsZeebeUserTask :: bool
  sg_ConnectorType :: string
  sg_IOMapping :: "IOMapping option"
  sg_BoundaryTimer :: "BoundaryTimer option"
  sg_BoundaryMessage :: "ExecutionStep MessagePath option"
  sg_DueDate :: string
  sg_FollowUpDate :: string

text \<open>The text of the engine note is not modelled; \<open>sg_HasEngineNote\<close> says whether there is one.\<close>

record DepartmentDef =
  dd_ID :: string
  dd_Label :: string
  dd_IAMDepartmentID :: string
  dd_Stages :: "StageDef list"

record VisualElementDef =
  ve_Kind :: string
  ve_ID :: string
  ve_Name :: string

record CompiledPlan =
  pl_Name :: string
  pl_TaskQueue :: string
  pl_Departments :: "DepartmentDef list"
  pl_Steps :: "ExecutionStep list"
  pl_VisualElements :: "VisualElementDef list"

subsection \<open>FirstDepartment\<close>

text \<open>The first department that a list of steps runs in: the first step decides, its branches in order.\<close>

fun first_nonempty :: "string list \<Rightarrow> string" where
  "first_nonempty [] = []"
| "first_nonempty (s # ss) = (if s \<noteq> [] then s else first_nonempty ss)"

primrec first_of_step :: "ExecutionStep \<Rightarrow> string" where
  "first_of_step (ExecutionStep sequential par excl sub call msgs io extras) =
     (if sequential \<noteq> [] then hd sequential
      else case map_option (map_SubWorkflowStep first_of_step) sub of
        Some sw \<Rightarrow> (case sw_Plan sw of [] \<Rightarrow> [] | d # _ \<Rightarrow> d)
      | None \<Rightarrow>
          first_nonempty
            (map (\<lambda>b. case pb_Steps b of [] \<Rightarrow> [] | d # _ \<Rightarrow> d) (map (map_ParallelBranch first_of_step) par) @
             map (\<lambda>b. case xb_Steps b of [] \<Rightarrow> [] | d # _ \<Rightarrow> d) (map (map_ExclusiveBranch first_of_step) excl)))"

definition FirstDepartment :: "ExecutionStep list \<Rightarrow> string" where
  "FirstDepartment steps = (case steps of [] \<Rightarrow> [] | st # _ \<Rightarrow> first_of_step st)"

lemma FirstDepartment_simps [simp]:
  "FirstDepartment [] = []"
  "FirstDepartment (ExecutionStep sequential par excl sub call msgs io extras # rest) =
     (if sequential \<noteq> [] then hd sequential
      else case sub of
        Some sw \<Rightarrow> FirstDepartment (sw_Plan sw)
      | None \<Rightarrow> first_nonempty (map (\<lambda>b. FirstDepartment (pb_Steps b)) par @ map (\<lambda>b. FirstDepartment (xb_Steps b)) excl))"
  by (auto simp: FirstDepartment_def ParallelBranch.map_sel ExclusiveBranch.map_sel SubWorkflowStep.map_sel comp_def
      split: option.split list.split intro!: arg_cong [where f = first_nonempty] arg_cong2 [where f = append])

end
