(* ===== verification/Plan_Stages.thy ===== *)
theory Plan_Stages
  imports Plan_Types
begin

text \<open>
  The stages of a plan: \<open>BuildStageDef\<close>, \<open>buildConnectorStageDef\<close>, \<open>BuildMessageStageDef\<close> and the mappings of
  \<open>bpmncore/compile.go\<close>; the stage types of \<open>stage_types.go\<close>; the call inputs, the open slots and the called plans of
  \<open>bpmncore/call.go\<close>.  \<open>stageTypes\<close> maps the identifier of a stage type to its activity.
\<close>

definition defaultStageTypes :: "(string, string) gomap" where
  "defaultStageTypes = [(''prep'', ''PrepActivity''), (''review'', ''ReviewActivity''), (''approve'', ''ApproveActivity'')]"

definition toConnectorIOMapping :: "ZeebeIOMapping option \<Rightarrow> IOMapping option" where
  "toConnectorIOMapping m =
     map_option (\<lambda>m. IOMapping (map (\<lambda>v. (iv_Source v, iv_Target v)) (io_Inputs m)) (map (\<lambda>v. (iv_Source v, iv_Target v)) (io_Outputs m))) m"

definition boundary_timer :: "string \<Rightarrow> BPMNProcess \<Rightarrow> BoundaryTimer option" where
  "boundary_timer taskID proc =
     (case TimerBoundaryFor taskID proc of
        None \<Rightarrow> None
      | Some be \<Rightarrow> Some \<lparr>bt_BoundaryID = [], bt_Duration = tm_Duration (the (bnd_Timer be)),
          bt_Interrupting = IsInterrupting (bnd_CancelActivity be), bt_TargetDept = [], bt_Terminates = False, bt_Steps = []\<rparr>)"

text \<open>The message name of an event: that of its message, or else that of a message flow to it.\<close>

definition event_message :: "BPMNBoundaryEvent \<Rightarrow> BPMNMessageEventDef \<Rightarrow> BPMNDefinitions \<Rightarrow> string" where
  "event_message be md defs =
     (let name = ResolveMessageName (md_MessageRef md) (Some defs)
      in if name = [] then ResolveMessageFlowTarget (bnd_ID be) (Some defs) else name)"

definition boundary_message :: "string \<Rightarrow> BPMNProcess \<Rightarrow> BPMNDefinitions \<Rightarrow> ExecutionStep MessagePath option" where
  "boundary_message taskID proc defs =
     (case MessageBoundaryFor taskID proc of
        None \<Rightarrow> None
      | Some be \<Rightarrow> Some (MessagePath (event_message be (the (bnd_Message be)) defs) (bnd_ID be)
          (IsInterrupting (bnd_CancelActivity be)) [] False []))"

definition due_date :: "BPMNExtensionElements \<Rightarrow> string" where
  "due_date ext = (case ext_TaskSchedule ext of None \<Rightarrow> [] | Some ts \<Rightarrow> ts_DueDate ts)"

definition follow_up_date :: "BPMNExtensionElements \<Rightarrow> string" where
  "follow_up_date ext = (case ext_TaskSchedule ext of None \<Rightarrow> [] | Some ts \<Rightarrow> ts_FollowUpDate ts)"

definition assigned_role :: "BPMNExtensionElements \<Rightarrow> string" where
  "assigned_role ext = (case ext_AssignmentDefinition ext of None \<Rightarrow> [] | Some ad \<Rightarrow> ad_CandidateGroups ad)"

definition assigned_users :: "BPMNExtensionElements \<Rightarrow> string list" where
  "assigned_users ext =
     (case ext_AssignmentDefinition ext of
        None \<Rightarrow> []
      | Some ad \<Rightarrow> (let cu = TrimSpace (ad_CandidateUsers ad) in if cu \<noteq> [] then [cu] else []))"

definition buildConnectorStageDef :: "BPMNUserTask \<Rightarrow> string \<Rightarrow> BPMNProcess \<Rightarrow> BPMNDefinitions \<Rightarrow> StageDef" where
  "buildConnectorStageDef task connectorType proc defs =
     (let ext = ut_ExtensionElements task
      in \<lparr>sg_Type = ''connector'', sg_Activity = (if ut_Name task = [] then connectorType else ut_Name task),
          sg_NodeID = ut_ID task, sg_Name = ut_Name task, sg_Role = [], sg_DefaultAssignees = [], sg_HasEngineNote = False,
          sg_Extras = PropsMap ext, sg_IsZeebeUserTask = False, sg_ConnectorType = connectorType,
          sg_IOMapping = toConnectorIOMapping (ext_IOMapping ext),
          sg_BoundaryTimer = boundary_timer (ut_ID task) proc, sg_BoundaryMessage = boundary_message (ut_ID task) proc defs,
          sg_DueDate = due_date ext, sg_FollowUpDate = follow_up_date ext\<rparr>)"

text \<open>The error of \<open>BuildStageDef\<close> is always nil, so it is left out.\<close>

definition BuildStageDef :: "BPMNUserTask \<Rightarrow> (string, string) gomap \<Rightarrow> BPMNProcess \<Rightarrow> BPMNDefinitions \<Rightarrow> StageDef" where
  "BuildStageDef task stageTypes proc defs =
     (let ext = ut_ExtensionElements task
      in case ConnectorType ext of
           (connectorType, True) \<Rightarrow> buildConnectorStageDef task connectorType proc defs
         | _ \<Rightarrow>
             let stageType = (case ext_TaskDefinition ext of None \<Rightarrow> [] | Some td \<Rightarrow> td_Type td);
                 known = map_of stageTypes stageType
             in \<lparr>sg_Type = stageType, sg_Activity = (case known of Some activity \<Rightarrow> activity | None \<Rightarrow> stageType),
                 sg_NodeID = ut_ID task, sg_Name = ut_Name task, sg_Role = assigned_role ext, sg_DefaultAssignees = assigned_users ext,
                 sg_HasEngineNote = (known = None), sg_Extras = PropsMap ext, sg_IsZeebeUserTask = ext_ZeebeUserTask ext,
                 sg_ConnectorType = [], sg_IOMapping = None,
                 sg_BoundaryTimer = boundary_timer (ut_ID task) proc, sg_BoundaryMessage = boundary_message (ut_ID task) proc defs,
                 sg_DueDate = due_date ext, sg_FollowUpDate = follow_up_date ext\<rparr>)"

definition BuildMessageStageDef :: "string \<Rightarrow> string \<Rightarrow> string \<Rightarrow> string \<Rightarrow> BPMNExtensionElements \<Rightarrow> StageDef" where
  "BuildMessageStageDef taskID taskName stageType messageName ext =
     (let extras = PropsMap ext;
          extras = (if messageName \<noteq> [] then mput ''message'' messageName extras else extras)
      in \<lparr>sg_Type = stageType, sg_Activity = taskName, sg_NodeID = taskID, sg_Name = taskName, sg_Role = assigned_role ext,
          sg_DefaultAssignees = assigned_users ext, sg_HasEngineNote = False, sg_Extras = extras, sg_IsZeebeUserTask = False,
          sg_ConnectorType = [], sg_IOMapping = None, sg_BoundaryTimer = None, sg_BoundaryMessage = None,
          sg_DueDate = [], sg_FollowUpDate = []\<rparr>)"

lemma stage_NodeID [simp]:
  "sg_NodeID (BuildStageDef task stageTypes proc defs) = ut_ID task"
  "sg_NodeID (BuildMessageStageDef taskID taskName stageType messageName ext) = taskID"
  by (simp_all add: BuildStageDef_def buildConnectorStageDef_def BuildMessageStageDef_def Let_def split: prod.split bool.split)

subsection \<open>Call inputs\<close>

definition CallInputDepts :: string where "CallInputDepts = ''Depts''"
definition CallInputAssignees :: string where "CallInputAssignees = ''Assignees''"
definition CallInputDeptID :: string where "CallInputDeptID = ''dept_id''"

text \<open>
  \<open>in_DeptsErr\<close> and \<open>in_AssigneesErr\<close> say whether the field was not a JSON object of strings.  \<open>json\<close> decodes such an
  object (\<open>json.Unmarshal\<close> into a map of strings).
\<close>

record CallInputs =
  in_Depts :: "(string, string) gomap"
  in_DeptsErr :: bool
  in_Assignees :: "(string, string) gomap"
  in_AssigneesErr :: bool
  in_HasDeptID :: bool

definition parseStringObject :: "(string \<Rightarrow> (string, string) gomap option) \<Rightarrow> string \<Rightarrow> (string, string) gomap \<times> bool" where
  "parseStringObject json source =
     (case json (fst (CutPrefix (TrimSpace source) ''='')) of None \<Rightarrow> ([], True) | Some m \<Rightarrow> (m, False))"

definition note_input :: "(string \<Rightarrow> (string, string) gomap option) \<Rightarrow> ZeebeIOVar \<Rightarrow> CallInputs \<Rightarrow> CallInputs" where
  "note_input json v inp =
     (if iv_Target v = CallInputDepts then
        (case parseStringObject json (iv_Source v) of (m, e) \<Rightarrow> inp\<lparr>in_Depts := m, in_DeptsErr := e\<rparr>)
      else if iv_Target v = CallInputAssignees then
        (case parseStringObject json (iv_Source v) of (m, e) \<Rightarrow> inp\<lparr>in_Assignees := m, in_AssigneesErr := e\<rparr>)
      else if iv_Target v = CallInputDeptID then inp\<lparr>in_HasDeptID := True\<rparr>
      else inp)"

definition ParseCallInputs :: "(string \<Rightarrow> (string, string) gomap option) \<Rightarrow> BPMNCallActivity \<Rightarrow> CallInputs" where
  "ParseCallInputs json ca =
     (let none = \<lparr>in_Depts = [], in_DeptsErr = False, in_Assignees = [], in_AssigneesErr = False, in_HasDeptID = False\<rparr>
      in case ext_IOMapping (ca_ExtensionElements ca) of
           None \<Rightarrow> none | Some m \<Rightarrow> fold (note_input json) (io_Inputs m) none)"

definition IsCallInput :: "string \<Rightarrow> bool" where
  "IsCallInput target \<longleftrightarrow> target = CallInputDepts \<or> target = CallInputAssignees \<or> target = CallInputDeptID"

text \<open>\<open>equalFold\<close> is \<open>strings.EqualFold\<close>, Unicode case folding.\<close>

definition LaneNamed :: "(string \<Rightarrow> string \<Rightarrow> bool) \<Rightarrow> BPMNProcess \<Rightarrow> string \<Rightarrow> BPMNLane option" where
  "LaneNamed equalFold proc name = find (\<lambda>lane. equalFold (lane_Name lane) name) (proc_LaneSet proc)"

lemma FindProcessByID_mem: "FindProcessByID defs nid = Some p \<Longrightarrow> p \<in> set (defs_Processes defs)"
proof -
  have "processOfParticipant procs part ps = Some q \<Longrightarrow> q \<in> set procs" for procs part ps q
    by (induction procs part ps rule: processOfParticipant.induct) (auto simp: find_Some_iff split: if_splits option.splits)
  then show "FindProcessByID defs nid = Some p \<Longrightarrow> p \<in> set (defs_Processes defs)"
    by (auto simp: FindProcessByID_def findProcessByParticipantID_def find_Some_iff split: option.splits)
qed

subsection \<open>Called plans\<close>

text \<open>A claimed identifier whose plan is not yet put maps to nil.\<close>

type_synonym CalledPlans = "(string, CompiledPlan option) gomap"

definition Claim :: "string \<Rightarrow> CalledPlans \<Rightarrow> bool \<times> CalledPlans" where
  "Claim nid c = (if map_of c nid \<noteq> None then (False, c) else (True, mput nid None c))"

definition Put :: "CompiledPlan \<Rightarrow> CalledPlans \<Rightarrow> CalledPlans" where
  "Put plan c = mput (pl_Name plan) (Some plan) c"

definition Get :: "string \<Rightarrow> CalledPlans \<Rightarrow> CompiledPlan option" where
  "Get nid c = mget_or None c nid"

definition All_plans :: "CalledPlans \<Rightarrow> CompiledPlan list" where
  "All_plans c = List.map_filter (\<lambda>name. mget_or None c name) (sort (mkeys c))"

definition withOpenSlots :: "DepartmentDef list \<Rightarrow> BPMNProcess \<Rightarrow> DepartmentDef list" where
  "withOpenSlots depts calledProc =
     fold (\<lambda>slot ds. if \<exists>d \<in> set ds. dd_ID d = slot then ds
                     else ds @ [\<lparr>dd_ID = slot, dd_Label = slot, dd_IAMDepartmentID = [], dd_Stages = []\<rparr>])
       (OpenSlots calledProc) depts"

definition laneSegments :: "CompiledPlan option \<Rightarrow> string \<Rightarrow> string list" where
  "laneSegments plan lane =
     (case plan of None \<Rightarrow> [lane] | Some p \<Rightarrow> map dd_ID (filter (\<lambda>d. dd_Label d = lane) (pl_Departments p)))"

definition toIOMapping :: "ZeebeIOMapping option \<Rightarrow> IOMapping option" where
  "toIOMapping m =
     (case m of
        None \<Rightarrow> None
      | Some m \<Rightarrow>
          let inputs = map (\<lambda>v. (iv_Source v, iv_Target v)) (filter (\<lambda>v. \<not> IsCallInput (iv_Target v)) (io_Inputs m));
              outputs = map (\<lambda>v. (iv_Source v, iv_Target v)) (io_Outputs m)
          in if inputs = [] \<and> outputs = [] then None else Some (IOMapping inputs outputs))"

end
