(* ===== verification/Bpmn_Dfs.thy ===== *)
theory Bpmn_Dfs
  imports Bpmn_Graph
begin

text \<open>
  \<open>bpmncore/dfs.go\<close> and \<open>bpmncore/graph_algorithms.go\<close>: the iterative depth-first search with its
  visitor callbacks, the classification of back edges built on it, and \<open>MarkReachable\<close>.  The
  variables that a visitor's closures share are the state \<open>'s\<close> threaded through the callbacks; the
  search's own \<open>visited\<close> map and frame stack are a configuration, the top frame first.  The locale
  \<open>dfs_client\<close> is the contract between the search and a visitor: laws for each callback give the
  invariant at the end of the search.
\<close>

subsection \<open>IterativeDFS\<close>

record frame =
  fr_id :: string
  fr_entered :: bool
  fr_next :: nat

record 's DFSVisitor =
  OnEnter :: "string \<Rightarrow> 's \<Rightarrow> bool \<times> 's"
  OnEdge :: "string \<Rightarrow> string \<Rightarrow> bool \<Rightarrow> 's \<Rightarrow> bool \<times> 's"
  OnExit :: "string \<Rightarrow> 's \<Rightarrow> 's"

text \<open>The visitor with all callbacks nil: it enters every node and descends into the unseen ones.\<close>

definition nil_visitor :: "'s DFSVisitor" where
  "nil_visitor = \<lparr>OnEnter = (\<lambda>_ s. (True, s)), OnEdge = (\<lambda>_ _ seen s. (\<not> seen, s)), OnExit = (\<lambda>_ s. s)\<rparr>"

record 's dfs_config =
  dc_visited :: "string set"
  dc_stack :: "frame list"
  dc_state :: 's

abbreviation new_frame :: "string \<Rightarrow> frame" where
  "new_frame n \<equiv> \<lparr>fr_id = n, fr_entered = False, fr_next = 0\<rparr>"

text \<open>The two halves of an iteration: entering the top frame, and following its next edge or leaving it.\<close>

definition dfs_enter :: "'s DFSVisitor \<Rightarrow> frame \<Rightarrow> 's \<Rightarrow> bool \<times> 's" where
  "dfs_enter v fr s = (if fr_entered fr then (True, s) else OnEnter v (fr_id fr) s)"

definition dfs_advance :: "Graph \<Rightarrow> 's DFSVisitor \<Rightarrow> string set \<Rightarrow> frame \<Rightarrow> frame list \<Rightarrow> 's \<Rightarrow> 's dfs_config" where
  "dfs_advance g v visited fr rest s =
     (let children = out g (fr_id fr) in
      if length children \<le> fr_next fr
      then \<lparr>dc_visited = visited, dc_stack = rest, dc_state = OnExit v (fr_id fr) s\<rparr>
      else
        let nx = children ! fr_next fr;
            fr' = fr\<lparr>fr_next := Suc (fr_next fr)\<rparr>;
            alreadySeen = nx \<in> visited;
            (descend, s') = OnEdge v (fr_id fr) nx alreadySeen s
        in if descend \<and> \<not> alreadySeen
           then \<lparr>dc_visited = insert nx visited, dc_stack = new_frame nx # fr' # rest, dc_state = s'\<rparr>
           else \<lparr>dc_visited = visited, dc_stack = fr' # rest, dc_state = s'\<rparr>)"

definition dfs_step :: "Graph \<Rightarrow> 's DFSVisitor \<Rightarrow> 's dfs_config \<Rightarrow> 's dfs_config" where
  "dfs_step g v c =
     (case dc_stack c of
        [] \<Rightarrow> c
      | fr # rest \<Rightarrow>
          let (go, s) = dfs_enter v fr (dc_state c) in
          if \<not> go then \<lparr>dc_visited = dc_visited c, dc_stack = rest, dc_state = s\<rparr>
          else dfs_advance g v (dc_visited c) (fr\<lparr>fr_entered := True\<rparr>) rest s)"

definition frame_work :: "Graph \<Rightarrow> frame \<Rightarrow> nat" where
  "frame_work g f = Suc (length (out g (fr_id f)) - fr_next f)"

definition unvisited :: "Graph \<Rightarrow> 's dfs_config \<Rightarrow> nat" where
  "unvisited g c = card (targets g - dc_visited c)"

definition stack_work :: "Graph \<Rightarrow> 's dfs_config \<Rightarrow> nat" where
  "stack_work g c = sum_list (map (frame_work g) (dc_stack c))"

text \<open>An iteration visits a new node, or it uses up an edge or a frame.\<close>

lemma dfs_advance_decreases:
  "(dfs_advance g v V fr rest s, \<lparr>dc_visited = V, dc_stack = fr # rest, dc_state = s0\<rparr>)
     \<in> measures [unvisited g, stack_work g]"
proof (cases "length (out g (fr_id fr)) \<le> fr_next fr")
  case True
  then show ?thesis
    by (simp add: dfs_advance_def unvisited_def stack_work_def frame_work_def)
next
  case False
  define nx where "nx = out g (fr_id fr) ! fr_next fr"
  with False have target: "nx \<in> targets g"
    by (metis linorder_not_le nth_mem out_targets)
  obtain descend s' where edge: "OnEdge v (fr_id fr) nx (nx \<in> V) s = (descend, s')" by force
  show ?thesis
  proof (cases "descend \<and> nx \<notin> V")
    case True
    with target have "card (targets g - insert nx V) < card (targets g - V)"
      by (intro psubset_card_mono) auto
    with False edge True show ?thesis
      by (simp add: dfs_advance_def Let_def unvisited_def flip: nx_def)
  next
    case skip: False
    with False edge show ?thesis
      by (auto simp: dfs_advance_def Let_def unvisited_def stack_work_def frame_work_def simp flip: nx_def)
  qed
qed

lemma dfs_step_decreases:
  assumes "dc_stack c \<noteq> []"
  shows "(dfs_step g v c, c) \<in> measures [unvisited g, stack_work g]"
proof -
  from assms obtain fr rest where stack: "dc_stack c = fr # rest" by (cases "dc_stack c") auto
  obtain go s where enter: "dfs_enter v fr (dc_state c) = (go, s)" by force
  have work: "stack_work g \<lparr>dc_visited = dc_visited c, dc_stack = fr\<lparr>fr_entered := True\<rparr> # rest, dc_state = s\<rparr>
      = stack_work g c"
    by (simp add: stack_work_def frame_work_def stack)
  show ?thesis
  proof (cases go)
    case True
    with stack enter work dfs_advance_decreases
      [of g v "dc_visited c" "fr\<lparr>fr_entered := True\<rparr>" rest s s] show ?thesis
      by (simp add: dfs_step_def unvisited_def)
  next
    case False
    with stack enter show ?thesis
      by (simp add: dfs_step_def unvisited_def stack_work_def frame_work_def)
  qed
qed

function dfs_run :: "Graph \<Rightarrow> 's DFSVisitor \<Rightarrow> 's dfs_config \<Rightarrow> 's dfs_config" where
  "dfs_run g v c = (if dc_stack c = [] then c else dfs_run g v (dfs_step g v c))"
  by pat_completeness auto
termination
  by (relation "inv_image (measures [\<lambda>(g, c). unvisited g c, \<lambda>(g, c). stack_work g c]) (\<lambda>(g, v, c). (g, c))")
     (use dfs_step_decreases in auto)

declare dfs_run.simps [simp del]

definition IterativeDFS :: "Graph \<Rightarrow> string \<Rightarrow> 's DFSVisitor \<Rightarrow> 's \<Rightarrow> 's" where
  "IterativeDFS g start v s =
     dc_state (dfs_run g v \<lparr>dc_visited = {start}, dc_stack = [new_frame start], dc_state = s\<rparr>)"

lemma dfs_run_rule:
  assumes "\<And>c. P c \<Longrightarrow> P (dfs_step g v c)"
  shows "P c \<Longrightarrow> P (dfs_run g v c) \<and> dc_stack (dfs_run g v c) = []"
  using assms
proof (induction g v c rule: dfs_run.induct)
  case (1 g v c)
  then show ?case by (cases "dc_stack c = []") (simp_all add: dfs_run.simps [of g v c])
qed

lemma entered_frame: "fr_entered f \<Longrightarrow> f\<lparr>fr_entered := True\<rparr> = f"
  by (cases f) simp

subsection \<open>The contract of a visitor\<close>

locale dfs_client =
  fixes g :: Graph
    and v :: "'s DFSVisitor"
    and I :: "string set \<Rightarrow> frame list \<Rightarrow> 's \<Rightarrow> bool"
  assumes reject: "\<And>V f st s s'. I V (f # st) s \<Longrightarrow> \<not> fr_entered f \<Longrightarrow> OnEnter v (fr_id f) s = (False, s') \<Longrightarrow> I V st s'"
    and accept: "\<And>V f st s s'. I V (f # st) s \<Longrightarrow> \<not> fr_entered f \<Longrightarrow> OnEnter v (fr_id f) s = (True, s')
      \<Longrightarrow> I V (f\<lparr>fr_entered := True\<rparr> # st) s'"
    and exits: "\<And>V f st s. I V (f # st) s \<Longrightarrow> fr_entered f \<Longrightarrow> length (out g (fr_id f)) \<le> fr_next f
      \<Longrightarrow> I V st (OnExit v (fr_id f) s)"
    and skips: "\<And>V f st s s' d nx. I V (f # st) s \<Longrightarrow> fr_entered f \<Longrightarrow> fr_next f < length (out g (fr_id f))
      \<Longrightarrow> nx = out g (fr_id f) ! fr_next f \<Longrightarrow> OnEdge v (fr_id f) nx (nx \<in> V) s = (d, s')
      \<Longrightarrow> \<not> d \<or> nx \<in> V \<Longrightarrow> I V (f\<lparr>fr_next := Suc (fr_next f)\<rparr> # st) s'"
    and descends: "\<And>V f st s s' nx. I V (f # st) s \<Longrightarrow> fr_entered f \<Longrightarrow> fr_next f < length (out g (fr_id f))
      \<Longrightarrow> nx = out g (fr_id f) ! fr_next f \<Longrightarrow> OnEdge v (fr_id f) nx False s = (True, s')
      \<Longrightarrow> nx \<notin> V \<Longrightarrow> I (insert nx V) (new_frame nx # f\<lparr>fr_next := Suc (fr_next f)\<rparr> # st) s'"
begin

lemma advance_keeps:
  assumes "I V (f # st) s" and "fr_entered f" and "c = dfs_advance g v V f st s"
  shows "I (dc_visited c) (dc_stack c) (dc_state c)"
proof (cases "length (out g (fr_id f)) \<le> fr_next f")
  case True
  with assms exits show ?thesis by (simp add: dfs_advance_def)
next
  case False
  define nx where "nx = out g (fr_id f) ! fr_next f"
  obtain d s' where edge: "OnEdge v (fr_id f) nx (nx \<in> V) s = (d, s')" by force
  show ?thesis
  proof (cases "d \<and> nx \<notin> V")
    case True
    with edge have "OnEdge v (fr_id f) nx False s = (True, s')" by simp
    from descends [OF assms(1,2) _ nx_def this] True False edge assms(3) show ?thesis
      by (simp add: dfs_advance_def Let_def flip: nx_def)
  next
    case skip: False
    with skips [OF assms(1,2) _ nx_def edge] False edge assms(3) show ?thesis
      by (auto simp: dfs_advance_def Let_def simp flip: nx_def)
  qed
qed

lemma step_keeps:
  assumes "I (dc_visited c) (dc_stack c) (dc_state c)"
  shows "I (dc_visited (dfs_step g v c)) (dc_stack (dfs_step g v c)) (dc_state (dfs_step g v c))"
proof (cases "dc_stack c")
  case Nil
  with assms show ?thesis by (simp add: dfs_step_def)
next
  case (Cons f st)
  obtain go s where enter: "dfs_enter v f (dc_state c) = (go, s)" by force
  show ?thesis
  proof (cases go)
    case False
    with enter have "\<not> fr_entered f" and "OnEnter v (fr_id f) (dc_state c) = (False, s)"
      by (auto simp: dfs_enter_def split: if_splits)
    with reject assms Cons enter False show ?thesis by (simp add: dfs_step_def)
  next
    case True
    have "I (dc_visited c) (f\<lparr>fr_entered := True\<rparr> # st) s"
    proof (cases "fr_entered f")
      case entered: True
      with enter assms Cons True show ?thesis by (simp add: dfs_enter_def entered_frame)
    next
      case False
      with accept assms Cons enter True show ?thesis by (simp add: dfs_enter_def)
    qed
    from advance_keeps [OF this _ refl] Cons enter True show ?thesis
      by (simp add: dfs_step_def)
  qed
qed

lemma run_keeps:
  "I (dc_visited c) (dc_stack c) (dc_state c) \<Longrightarrow>
     dc_stack (dfs_run g v c) = [] \<and> I (dc_visited (dfs_run g v c)) [] (dc_state (dfs_run g v c))"
  using dfs_run_rule [where P = "\<lambda>c. I (dc_visited c) (dc_stack c) (dc_state c)" and g = g and v = v and c = c]
    step_keeps by auto

theorem search_keeps:
  assumes "I {start} [new_frame start] s"
  shows "\<exists>V. I V [] (IterativeDFS g start v s)"
  using run_keeps [of "\<lparr>dc_visited = {start}, dc_stack = [new_frame start], dc_state = s\<rparr>"] assms
  by (auto simp: IterativeDFS_def)

end

end
