(* ===== verification/Bpmn_Classify.thy ===== *)
theory Bpmn_Classify
  imports Bpmn_Dfs
begin

text \<open>
  \<open>ClassifyBackEdges\<close> and \<open>ProcessBackEdges\<close> of \<open>bpmncore/graph_algorithms.go\<close>: the depth-first
  search that decides which sequence flows are loops.  The visitor's closures share three maps,
  the fields of \<open>class_state\<close>.  Its invariant makes it a \<open>dfs_client\<close>; at the end of the search the
  forward graph below the roots is acyclic, and the back edges are exactly closing edges of cycles
  that take no node out of reach.
\<close>

subsection \<open>The code\<close>

record class_state =
  cs_backEdges :: edges
  cs_onStack :: "string set"
  cs_done :: "string set"

definition classify_OnEnter :: "string \<Rightarrow> class_state \<Rightarrow> bool \<times> class_state" where
  "classify_OnEnter n s =
     (if n \<in> cs_done s then (False, s)
      else (True, s\<lparr>cs_done := insert n (cs_done s), cs_onStack := insert n (cs_onStack s)\<rparr>))"

definition classify_OnEdge :: "string \<Rightarrow> string \<Rightarrow> bool \<Rightarrow> class_state \<Rightarrow> bool \<times> class_state" where
  "classify_OnEdge n m alreadySeen s =
     (if m \<in> cs_onStack s then (False, s\<lparr>cs_backEdges := insert (n, m) (cs_backEdges s)\<rparr>)
      else (\<not> alreadySeen, s))"

definition classify_OnExit :: "string \<Rightarrow> class_state \<Rightarrow> class_state" where
  "classify_OnExit n s = s\<lparr>cs_onStack := cs_onStack s - {n}\<rparr>"

definition classify_visitor :: "class_state DFSVisitor" where
  "classify_visitor = \<lparr>OnEnter = classify_OnEnter, OnEdge = classify_OnEdge, OnExit = classify_OnExit\<rparr>"

definition classify_init :: class_state where
  "classify_init = \<lparr>cs_backEdges = {}, cs_onStack = {}, cs_done = {}\<rparr>"

definition ClassifyBackEdges :: "Graph \<Rightarrow> string list \<Rightarrow> edges" where
  "ClassifyBackEdges g roots =
     cs_backEdges (fold (\<lambda>root s. IterativeDFS g root classify_visitor s) roots classify_init)"

definition ProcessBackEdges :: "BPMNProcess \<Rightarrow> Graph \<Rightarrow> string \<Rightarrow> edges" where
  "ProcessBackEdges proc g start = ClassifyBackEdges g (start # map bnd_ID (proc_BoundaryEvents proc))"

lemma classify_visitor_simps [simp]:
  "OnEnter classify_visitor = classify_OnEnter"
  "OnEdge classify_visitor = classify_OnEdge"
  "OnExit classify_visitor = classify_OnExit"
  by (simp_all add: classify_visitor_def)

subsection \<open>Its invariant\<close>

text \<open>
  A node is finished when it is done and off the stack.  The children that a frame has processed
  are behind a back edge, finished, or the frame above it (\<open>X\<close>); the back edges of a frame lead to
  frames at or below it; the frames form a path of tree edges \<open>T\<close>.
\<close>

abbreviation ids :: "frame list \<Rightarrow> string set" where
  "ids st \<equiv> fr_id ` set st"

definition finished :: "class_state \<Rightarrow> string set" where
  "finished s = cs_done s - cs_onStack s"

fun covered :: "Graph \<Rightarrow> edges \<Rightarrow> string set \<Rightarrow> string set \<Rightarrow> frame list \<Rightarrow> bool" where
  "covered g B F X [] = True"
| "covered g B F X (f # st) =
     ((\<forall>w \<in> set (take (fr_next f) (out g (fr_id f))). (fr_id f, w) \<in> B \<or> w \<in> F \<union> X) \<and>
      covered g B F {fr_id f} st)"

fun backs_below :: "edges \<Rightarrow> frame list \<Rightarrow> bool" where
  "backs_below B [] = True"
| "backs_below B (f # st) = ((fr_entered f \<longrightarrow> B `` {fr_id f} \<subseteq> ids (f # st)) \<and> backs_below B st)"

fun tree_path :: "edges \<Rightarrow> string list \<Rightarrow> bool" where
  "tree_path T (n # m # ns) = ((m, n) \<in> T \<and> tree_path T (m # ns))"
| "tree_path T _ = True"

text \<open>A tree edge leads to a finished node or to the next frame up.\<close>

fun adjacent :: "string list \<Rightarrow> edges" where
  "adjacent (n # m # ns) = insert (m, n) (adjacent (m # ns))"
| "adjacent _ = {}"

definition stack_ok :: "frame list \<Rightarrow> class_state \<Rightarrow> bool" where
  "stack_ok st s \<longleftrightarrow>
     cs_onStack s = (case st of [] \<Rightarrow> {} | f # fs \<Rightarrow> (if fr_entered f then {fr_id f} else {}) \<union> ids fs) \<and>
     cs_onStack s \<subseteq> cs_done s \<and>
     distinct (map fr_id st) \<and> (\<forall>f \<in> set (tl st). fr_entered f) \<and>
     (\<forall>f \<in> set st. \<not> fr_entered f \<longrightarrow> fr_next f = 0)"

definition finished_ok :: "Graph \<Rightarrow> class_state \<Rightarrow> bool" where
  "finished_ok g s \<longleftrightarrow>
     cs_backEdges s \<subseteq> edge_rel g \<inter> cs_done s \<times> cs_done s \<and>
     fwd g (cs_backEdges s) `` finished s \<subseteq> finished s \<and>
     acyclic (fwd g (cs_backEdges s) \<inter> finished s \<times> UNIV)"

definition tree_ok :: "Graph \<Rightarrow> string set \<Rightarrow> edges \<Rightarrow> string set \<Rightarrow> frame list \<Rightarrow> class_state \<Rightarrow> bool" where
  "tree_ok g R T V st s \<longleftrightarrow>
     T \<subseteq> fwd g (cs_backEdges s) \<and> tree_path T (map fr_id st) \<and>
     (\<forall>(u, w) \<in> T. w \<in> finished s \<or> (u, w) \<in> adjacent (map fr_id st)) \<and>
     V \<union> cs_done s \<subseteq> T\<^sup>* `` R \<and> (\<forall>(u, w) \<in> cs_backEdges s. (w, u) \<in> T\<^sup>*)"

definition classify_inv :: "Graph \<Rightarrow> string set \<Rightarrow> string set \<Rightarrow> string set \<Rightarrow> frame list \<Rightarrow> class_state \<Rightarrow> bool" where
  "classify_inv g R K V st s \<longleftrightarrow>
     stack_ok st s \<and> finished_ok g s \<and> covered g (cs_backEdges s) (finished s) {} st \<and>
     backs_below (cs_backEdges s) st \<and> ids st \<subseteq> V \<and> K \<subseteq> V \<union> cs_done s \<and>
     V \<subseteq> cs_done s \<union> ids st \<and> (\<exists>T. tree_ok g R T V st s)"

lemma covered_mono:
  "covered g B F X st \<Longrightarrow> B \<subseteq> B' \<Longrightarrow> F \<subseteq> F' \<Longrightarrow> X \<subseteq> F' \<union> X' \<Longrightarrow> covered g B' F' X' st"
proof (induction st arbitrary: X X')
  case (Cons f st)
  from Cons.prems have "covered g B' F' {fr_id f} st"
    by (intro Cons.IH [of "{fr_id f}"]) auto
  with Cons.prems show ?case by auto
qed simp

lemma backs_below_insert:
  "backs_below B st \<Longrightarrow> u \<notin> ids st \<Longrightarrow> backs_below (insert (u, w) B) st"
  by (induction st) auto

lemma adjacent_elem: "(u, w) \<in> adjacent ns \<Longrightarrow> u \<in> set (tl ns) \<and> w \<in> set ns"
  by (induction ns rule: adjacent.induct) auto

lemma tree_path_mono: "tree_path T ns \<Longrightarrow> T \<subseteq> T' \<Longrightarrow> tree_path T' ns"
  by (induction T ns rule: tree_path.induct) auto

lemma tree_path_reaches: "tree_path T (n # ns) \<Longrightarrow> w \<in> set (n # ns) \<Longrightarrow> (w, n) \<in> T\<^sup>*"
proof (induction ns arbitrary: n)
  case (Cons m ns)
  show ?case
  proof (cases "w = n")
    case False
    with Cons have "(w, m) \<in> T\<^sup>*" by auto
    moreover from Cons.prems have "(m, n) \<in> T" by simp
    ultimately show ?thesis by (rule rtrancl_into_rtrancl)
  qed simp
qed simp

lemma tree_path_tl: "tree_path T (n # ns) \<Longrightarrow> tree_path T ns"
  by (cases ns) auto

lemma adjacent_tl: "adjacent (n # ns) \<subseteq> adjacent ns \<union> UNIV \<times> {n}"
  by (cases ns) auto

text \<open>Adding a node whose edges all lead into an acyclic closed set keeps it acyclic.\<close>

lemma acyclic_add_source:
  assumes acyc: "acyclic (E \<inter> F \<times> UNIV)" and closed: "E `` F \<subseteq> F"
    and new: "u \<notin> F" and into: "E `` {u} \<subseteq> F"
  shows "acyclic (E \<inter> insert u F \<times> UNIV)"
proof -
  have stays: "x \<in> F \<Longrightarrow> (x, y) \<in> (E \<inter> insert u F \<times> UNIV)\<^sup>+ \<Longrightarrow> y \<in> F \<and> (x, y) \<in> (E \<inter> F \<times> UNIV)\<^sup>+" for x y
    by (rotate_tac 1, induction rule: trancl_induct)
       (use closed in \<open>auto intro: trancl_into_trancl\<close>)
  have "(x, x) \<notin> (E \<inter> insert u F \<times> UNIV)\<^sup>+" for x
  proof
    assume cycle: "(x, x) \<in> (E \<inter> insert u F \<times> UNIV)\<^sup>+"
    then obtain y where xy: "(x, y) \<in> E \<inter> insert u F \<times> UNIV"
      and yx: "(y, x) \<in> (E \<inter> insert u F \<times> UNIV)\<^sup>*" by (meson tranclD)
    from xy into closed have "y \<in> F" by auto
    with yx stays have "x \<in> F" by (auto simp: rtrancl_eq_or_trancl)
    with cycle stays acyc show False by (auto simp: acyclic_def)
  qed
  then show ?thesis by (simp add: acyclic_def)
qed

subsection \<open>Each callback keeps it\<close>

lemma classify_reject:
  assumes inv: "classify_inv g R K V (f # st) s" and new: "\<not> fr_entered f"
    and enter: "classify_OnEnter (fr_id f) s = (False, s')"
  shows "classify_inv g R K V st s'"
proof -
  from enter have s': "s' = s" and done_f: "fr_id f \<in> cs_done s"
    by (auto simp: classify_OnEnter_def split: if_splits)
  from inv new have stack: "stack_ok st s" and off: "fr_id f \<notin> cs_onStack s"
    by (auto simp: classify_inv_def stack_ok_def split: list.splits)
  with done_f have fin: "fr_id f \<in> finished s" by (simp add: finished_def)
  from inv obtain T where "tree_ok g R T V (f # st) s" by (auto simp: classify_inv_def)
  with fin have "tree_ok g R T V st s"
    using tree_path_tl adjacent_tl [of "fr_id f" "map fr_id st"] by (fastforce simp: tree_ok_def)
  moreover from inv fin have "covered g (cs_backEdges s) (finished s) {} st"
    by (auto simp: classify_inv_def intro: covered_mono)
  ultimately show ?thesis
    using inv stack done_f by (auto simp: classify_inv_def s')
qed

lemma classify_accept:
  assumes inv: "classify_inv g R K V (f # st) s" and new: "\<not> fr_entered f"
    and enter: "classify_OnEnter (fr_id f) s = (True, s')"
  shows "classify_inv g R K V (f\<lparr>fr_entered := True\<rparr> # st) s'"
proof -
  from enter have fresh: "fr_id f \<notin> cs_done s"
    and s': "s' = s\<lparr>cs_done := insert (fr_id f) (cs_done s), cs_onStack := insert (fr_id f) (cs_onStack s)\<rparr>"
    by (auto simp: classify_OnEnter_def split: if_splits)
  then have fin: "finished s' = finished s" and B: "cs_backEdges s' = cs_backEdges s"
    and D: "cs_done s' = insert (fr_id f) (cs_done s)"
    by (auto simp: finished_def)
  from inv new have stack: "stack_ok (f\<lparr>fr_entered := True\<rparr> # st) s'"
    by (auto simp: classify_inv_def stack_ok_def s')
  from inv have "finished_ok g s'"
    by (auto simp: classify_inv_def finished_ok_def fin B D)
  moreover from inv obtain T where "tree_ok g R T V (f # st) s" by (auto simp: classify_inv_def)
  with inv have "tree_ok g R T V (f\<lparr>fr_entered := True\<rparr> # st) s'"
    by (auto simp: classify_inv_def tree_ok_def fin B D)
  ultimately show ?thesis
    using inv new stack fresh by (auto simp: classify_inv_def finished_ok_def fin B D stack_ok_def)
qed


lemma classify_exit:
  assumes inv: "classify_inv g R K V (f # st) s" and entered: "fr_entered f"
    and last: "length (out g (fr_id f)) \<le> fr_next f"
  shows "classify_inv g R K V st (classify_OnExit (fr_id f) s)"
proof -
  let ?s = "classify_OnExit (fr_id f) s" and ?n = "fr_id f" and ?E = "fwd g (cs_backEdges s)"
  from inv entered have n: "?n \<in> cs_onStack s" "?n \<in> cs_done s" "?n \<notin> ids st"
    and stack: "stack_ok st ?s"
    by (auto simp: classify_inv_def stack_ok_def classify_OnExit_def split: list.splits)
  then have fin: "finished ?s = insert ?n (finished s)" and B: "cs_backEdges ?s = cs_backEdges s"
    and done_eq: "cs_done ?s = cs_done s"
    by (auto simp: finished_def classify_OnExit_def)
  from inv last have edges_f: "?E `` {?n} \<subseteq> finished s"
    by (auto simp: classify_inv_def fwd_iff)
  from n have "?n \<notin> finished s" by (simp add: finished_def)
  with inv edges_f have "finished_ok g ?s"
    unfolding classify_inv_def finished_ok_def fin B done_eq
    by (auto intro: acyclic_add_source)
  moreover from inv have "covered g (cs_backEdges s) (insert ?n (finished s)) {} st"
    by (auto simp: classify_inv_def intro: covered_mono)
  moreover from inv obtain T where "tree_ok g R T V (f # st) s" by (auto simp: classify_inv_def)
  then have "tree_ok g R T V st ?s"
    unfolding tree_ok_def fin B done_eq
    using tree_path_tl adjacent_tl [of ?n "map fr_id st"] by fastforce
  ultimately show ?thesis
    using inv stack n by (auto simp: classify_inv_def fin B done_eq)
qed


lemma take_next:
  "k < length xs \<Longrightarrow> set (take (Suc k) xs) = insert (xs ! k) (set (take k xs))"
  by (simp add: take_Suc_conv_app_nth)

lemma classify_back_edge:
  assumes inv: "classify_inv g R K V (f # st) s" and entered: "fr_entered f"
    and more: "fr_next f < length (out g (fr_id f))" and m: "m = out g (fr_id f) ! fr_next f"
    and on: "m \<in> cs_onStack s"
  shows "classify_inv g R K V (f\<lparr>fr_next := Suc (fr_next f)\<rparr> # st)
    (s\<lparr>cs_backEdges := insert (fr_id f, m) (cs_backEdges s)\<rparr>)"
    (is "classify_inv g R K V (?f # st) ?s")
proof -
  let ?n = "fr_id f" and ?B = "insert (fr_id f, m) (cs_backEdges s)"
  have fin: "finished ?s = finished s" by (simp add: finished_def)
  from inv entered have n: "?n \<in> cs_done s" "?n \<notin> ids st" "?n \<notin> finished s" and m_st: "m \<in> ids (f # st)"
    and m_done: "m \<in> cs_done s" and m_fin: "m \<notin> finished s" and stack: "stack_ok (?f # st) ?s"
    using on by (auto simp: classify_inv_def stack_ok_def finished_def)
  from more m have edge: "m \<in> set (out g ?n)" by simp
  have less: "fwd g ?B \<subseteq> fwd g (cs_backEdges s)" by (auto simp: fwd_def)
  from inv have "fwd g (cs_backEdges s) `` finished s \<subseteq> finished s"
    and "acyclic (fwd g (cs_backEdges s) \<inter> finished s \<times> UNIV)"
    by (simp_all add: classify_inv_def finished_ok_def)
  with less have "fwd g ?B `` finished s \<subseteq> finished s" and "acyclic (fwd g ?B \<inter> finished s \<times> UNIV)"
    by (blast, elim acyclic_subset, blast)
  with inv n m_done edge have "finished_ok g ?s"
    by (simp add: classify_inv_def finished_ok_def fin)
  moreover from inv obtain T where T: "tree_ok g R T V (f # st) s" by (auto simp: classify_inv_def)
  have "(?n, m) \<notin> T"
    using T n m_fin adjacent_elem [of ?n m "?n # map fr_id st"] by (auto simp: tree_ok_def)
  moreover have "(m, ?n) \<in> T\<^sup>*"
    using T m_st tree_path_reaches [of T ?n "map fr_id st" m] by (auto simp: tree_ok_def)
  ultimately have "tree_ok g R T V (?f # st) ?s"
    using T by (auto simp: tree_ok_def fin fwd_def)
  moreover from inv more m have "covered g ?B (finished s) {} (?f # st)"
    by (auto simp: classify_inv_def take_next intro: covered_mono)
  moreover from inv n m_st have "backs_below ?B (?f # st)"
    by (auto simp: classify_inv_def backs_below_insert)
  ultimately show ?thesis
    using inv stack \<open>finished_ok g ?s\<close> by (auto simp: classify_inv_def fin)
qed

lemma classify_seen:
  assumes inv: "classify_inv g R K V (f # st) s" and entered: "fr_entered f"
    and more: "fr_next f < length (out g (fr_id f))" and m: "m = out g (fr_id f) ! fr_next f"
    and off: "m \<notin> cs_onStack s" and seen: "m \<in> V"
  shows "classify_inv g R K V (f\<lparr>fr_next := Suc (fr_next f)\<rparr> # st) s"
proof -
  from inv entered off seen have "m \<in> finished s"
    by (auto simp: classify_inv_def stack_ok_def finished_def)
  with assms show ?thesis
    by (auto simp: classify_inv_def stack_ok_def tree_ok_def take_next)
qed

lemma classify_descend:
  assumes inv: "classify_inv g R K V (f # st) s" and entered: "fr_entered f"
    and more: "fr_next f < length (out g (fr_id f))" and m: "m = out g (fr_id f) ! fr_next f"
    and off: "m \<notin> cs_onStack s" and new: "m \<notin> V"
  shows "classify_inv g R K (insert m V) (new_frame m # f\<lparr>fr_next := Suc (fr_next f)\<rparr> # st) s"
proof -
  from inv obtain T where T: "tree_ok g R T V (f # st) s" by (auto simp: classify_inv_def)
  from inv new have m_st: "m \<notin> ids (f # st)" by (auto simp: classify_inv_def)
  with inv entered have "(fr_id f, m) \<notin> cs_backEdges s" by (auto simp: classify_inv_def)
  moreover from more m have "m \<in> set (out g (fr_id f))" by simp
  ultimately have edge: "(fr_id f, m) \<in> fwd g (cs_backEdges s)" by (simp add: fwd_iff)
  have more_T: "T\<^sup>* \<subseteq> (insert (fr_id f, m) T)\<^sup>*" by (rule rtrancl_mono) auto
  moreover from T inv have "(fr_id f) \<in> T\<^sup>* `` R" by (auto simp: tree_ok_def classify_inv_def)
  ultimately have "m \<in> (insert (fr_id f, m) T)\<^sup>* `` R" by (auto intro: rtrancl_into_rtrancl)
  moreover from T Image_mono [OF more_T order_refl, of R]
  have "V \<union> cs_done s \<subseteq> (insert (fr_id f, m) T)\<^sup>* `` R" by (auto simp: tree_ok_def)
  ultimately have "tree_ok g R (insert (fr_id f, m) T) (insert m V)
      (new_frame m # f\<lparr>fr_next := Suc (fr_next f)\<rparr> # st) s"
    using T edge more_T by (auto simp: tree_ok_def intro: tree_path_mono)
  with inv entered more m m_st off new show ?thesis
    by (auto simp: classify_inv_def stack_ok_def take_next intro: covered_mono)
qed

interpretation classify: dfs_client g classify_visitor "classify_inv g R K" for g R K
proof (unfold_locales, goal_cases)
  case (1 V f st s s')
  then show ?case by (auto intro: classify_reject)
next
  case (2 V f st s s')
  then show ?case by (auto intro: classify_accept)
next
  case (3 V f st s)
  then show ?case by (auto intro: classify_exit)
next
  case (4 V f st s s' d m)
  then show ?case
    by (auto simp: classify_OnEdge_def intro: classify_back_edge classify_seen split: if_splits)
next
  case (5 V f st s s' m)
  then show ?case
    by (auto simp: classify_OnEdge_def intro: classify_descend split: if_splits)
qed


subsection \<open>What the classification gives\<close>

text \<open>Between two searches nothing is on the stack.\<close>

definition classified :: "Graph \<Rightarrow> string set \<Rightarrow> class_state \<Rightarrow> bool" where
  "classified g R s \<longleftrightarrow> cs_onStack s = {} \<and> finished_ok g s \<and>
     (\<exists>T. T \<subseteq> fwd g (cs_backEdges s) \<and> (\<forall>(u, w) \<in> T. w \<in> cs_done s) \<and>
        cs_done s \<subseteq> T\<^sup>* `` R \<and> (\<forall>(u, w) \<in> cs_backEdges s. (w, u) \<in> T\<^sup>*))"

lemma classified_finished: "classified g R s \<Longrightarrow> finished s = cs_done s"
  by (simp add: classified_def finished_def)

lemma classified_closed:
  assumes "classified g R s"
  shows "cs_backEdges s \<subseteq> UNIV \<times> cs_done s" and "fwd g (cs_backEdges s) `` cs_done s \<subseteq> cs_done s"
    and "acyclic (fwd g (cs_backEdges s) \<inter> cs_done s \<times> UNIV)"
  using assms classified_finished [OF assms] by (auto simp: classified_def finished_ok_def)

lemma classified_init: "classified g R classify_init"
  by (auto simp: classified_def classify_init_def finished_ok_def finished_def acyclic_def)

lemma classified_search:
  assumes s: "classified g R s" and "r \<in> R"
  defines "s' \<equiv> IterativeDFS g r classify_visitor s"
  shows "classified g R s'" and "insert r (cs_done s) \<subseteq> cs_done s'"
proof -
  from s obtain T where T: "T \<subseteq> fwd g (cs_backEdges s)" "\<forall>(u, w) \<in> T. w \<in> cs_done s"
    "cs_done s \<subseteq> T\<^sup>* `` R" "\<forall>(u, w) \<in> cs_backEdges s. (w, u) \<in> T\<^sup>*" and fin: "finished s = cs_done s"
    by (auto simp: classified_def finished_def)
  with \<open>r \<in> R\<close> have "tree_ok g R T {r} [new_frame r] s" by (auto simp: tree_ok_def)
  with s have "classify_inv g R (insert r (cs_done s)) {r} [new_frame r] s"
    by (auto simp: classified_def classify_inv_def stack_ok_def)
  then obtain V where "classify_inv g R (insert r (cs_done s)) V [] s'"
    using classify.search_keeps s'_def by blast
  then obtain T' where "tree_ok g R T' V [] s'" and rest: "stack_ok [] s'" "finished_ok g s'"
    "insert r (cs_done s) \<subseteq> V \<union> cs_done s'" "V \<subseteq> cs_done s'"
    by (auto simp: classify_inv_def)
  then show "classified g R s'" and "insert r (cs_done s) \<subseteq> cs_done s'"
    unfolding classified_def by (auto simp: stack_ok_def tree_ok_def finished_def)
qed

lemma classified_fold:
  assumes "classified g R s" and "set roots \<subseteq> R"
  defines "s' \<equiv> fold (\<lambda>root s. IterativeDFS g root classify_visitor s) roots s"
  shows "classified g R s' \<and> set roots \<union> cs_done s \<subseteq> cs_done s'"
  using assms
proof (induction roots arbitrary: s s')
  case (Cons r roots)
  then show ?case using classified_search [of g R s r] by fastforce
qed simp

lemma ClassifyBackEdges_state:
  obtains s where "ClassifyBackEdges g roots = cs_backEdges s" and "classified g (set roots) s"
    and "set roots \<subseteq> cs_done s"
  using classified_fold [OF classified_init order_refl, of g roots]
  by (auto simp: ClassifyBackEdges_def)

text \<open>Every node that the roots reach is done.\<close>

lemma classified_reachable:
  assumes s: "classified g R s" and roots: "R \<subseteq> cs_done s"
  shows "(edge_rel g)\<^sup>* `` R \<subseteq> cs_done s"
proof
  fix v
  assume "v \<in> (edge_rel g)\<^sup>* `` R"
  then obtain r where "(r, v) \<in> (edge_rel g)\<^sup>*" and "r \<in> R" by blast
  then show "v \<in> cs_done s"
  proof (induction rule: rtrancl_induct)
    case base
    with roots show ?case by blast
  next
    case (step v w)
    show ?case
    proof (cases "(v, w) \<in> cs_backEdges s")
      case True
      with classified_closed(1) [OF s] show ?thesis by blast
    next
      case False
      with step.hyps have "(v, w) \<in> fwd g (cs_backEdges s)" by (simp add: fwd_iff)
      with classified_closed(2) [OF s] step.IH step.prems show ?thesis by blast
    qed
  qed
qed

lemma classify_subset: "ClassifyBackEdges g roots \<subseteq> edge_rel g"
  by (rule ClassifyBackEdges_state [of g roots]) (auto simp: classified_def finished_ok_def)

lemma classify_acyclic:
  assumes u: "u \<in> (edge_rel g)\<^sup>* `` set roots"
  shows "(u, u) \<notin> (fwd g (ClassifyBackEdges g roots))\<^sup>+"
proof -
  obtain s where B: "ClassifyBackEdges g roots = cs_backEdges s" and s: "classified g (set roots) s"
    and roots: "set roots \<subseteq> cs_done s" by (rule ClassifyBackEdges_state)
  note closed = classified_closed(2) [OF s] and acyc = classified_closed(3) [OF s]
  from classified_reachable [OF s roots] u have u_done: "u \<in> cs_done s" by blast
  have "(u, w) \<in> (fwd g (cs_backEdges s))\<^sup>+ \<Longrightarrow>
      w \<in> cs_done s \<and> (u, w) \<in> (fwd g (cs_backEdges s) \<inter> cs_done s \<times> UNIV)\<^sup>+" for w
    by (induction rule: trancl_induct) (use closed u_done in \<open>auto intro: trancl_into_trancl\<close>)
  with acyc show ?thesis by (auto simp: B acyclic_def)
qed

lemma classify_closes_cycle:
  assumes "(u, w) \<in> ClassifyBackEdges g roots"
  shows "(w, u) \<in> (fwd g (ClassifyBackEdges g roots))\<^sup>*"
proof -
  obtain s where B: "ClassifyBackEdges g roots = cs_backEdges s" and s: "classified g (set roots) s"
    by (rule ClassifyBackEdges_state)
  then obtain T where T: "T \<subseteq> fwd g (cs_backEdges s)" "\<forall>(u, w) \<in> cs_backEdges s. (w, u) \<in> T\<^sup>*"
    by (auto simp: classified_def)
  then show ?thesis using assms rtrancl_mono [OF T(1)] by (auto simp: B)
qed

lemma classify_reach:
  "(fwd g (ClassifyBackEdges g roots))\<^sup>* `` set roots = (edge_rel g)\<^sup>* `` set roots" (is "?F = ?E")
proof
  show "?F \<subseteq> ?E" by (intro Image_mono rtrancl_mono) (auto simp: fwd_def)
  obtain s where B: "ClassifyBackEdges g roots = cs_backEdges s" and s: "classified g (set roots) s"
    and roots: "set roots \<subseteq> cs_done s" by (rule ClassifyBackEdges_state)
  from s obtain T where T: "T \<subseteq> fwd g (cs_backEdges s)" "cs_done s \<subseteq> T\<^sup>* `` set roots"
    by (auto simp: classified_def)
  with classified_reachable [OF s roots] Image_mono [OF rtrancl_mono [OF T(1)] order_refl, of "set roots"]
  show "?E \<subseteq> ?F" by (auto simp: B)
qed

end
