(* ===== verification/Bpmn_Reach.thy ===== *)
theory Bpmn_Reach
  imports Bpmn_Classify
begin

text \<open>
  \<open>MarkReachable\<close> of \<open>bpmncore/graph_algorithms.go\<close>, the error constructors of
  \<open>validator/validator.go\<close>, and the two validators that walk the graph from its start:
  \<open>validator/reachability.go\<close> and \<open>validator/depth.go\<close>.
\<close>

subsection \<open>MarkReachable\<close>

text \<open>The stack's top is the head of the list; the targets are pushed in order, so the last one is on top.\<close>

function mark_loop :: "Graph \<Rightarrow> string list \<Rightarrow> string set \<Rightarrow> string set" where
  "mark_loop g [] visited = visited"
| "mark_loop g (v # stack) visited =
     (if v \<in> visited then mark_loop g stack visited
      else mark_loop g (rev (out g v) @ stack) (insert v visited))"
  by pat_completeness auto

termination
proof (relation "measures [\<lambda>(g, st, V). card ((set st \<union> targets g) - V), \<lambda>(g, st, V). length st]", goal_cases)
  case (2 g v st V)
  have "card (set st \<union> targets g - V) \<le> card (set (v # st) \<union> targets g - V)"
    by (rule card_mono) auto
  then show ?case by auto
next
  case (3 g v st V)
  then have "card (set (rev (out g v) @ st) \<union> targets g - insert v V) < card (set (v # st) \<union> targets g - V)"
    by (intro psubset_card_mono) (auto dest: out_targets)
  then show ?case by simp
qed simp

definition MarkReachable :: "string \<Rightarrow> Graph \<Rightarrow> string set \<Rightarrow> string set" where
  "MarkReachable start g visited = mark_loop g [start] visited"

lemma mark_loop_reach:
  "edge_rel g `` V \<subseteq> V \<union> set st \<Longrightarrow> mark_loop g st V = V \<union> (edge_rel g)\<^sup>* `` set st"
proof (induction g st V rule: mark_loop.induct)
  case (2 g v st V)
  show ?case
  proof (cases "v \<in> V")
    case True
    with 2 have "mark_loop g (v # st) V = V \<union> (edge_rel g)\<^sup>* `` set st" by auto
    moreover have "x \<in> V \<union> (edge_rel g)\<^sup>* `` set st" if "(v, x) \<in> (edge_rel g)\<^sup>*" for x
      using that
    proof (induction rule: rtrancl_induct)
      case (step y z)
      show ?case
      proof (cases "y \<in> V")
        case y: True
        with step.hyps(2) "2.prems" True have "z \<in> V \<union> set st" by (auto simp del: edge_rel_iff)
        then show ?thesis by auto
      next
        case False
        with step.IH obtain x where "x \<in> set st" and "(x, y) \<in> (edge_rel g)\<^sup>*" by auto
        with step.hyps(2) show ?thesis by (meson ImageI UnI2 rtrancl_into_rtrancl)
      qed
    qed (use True in simp)
    ultimately show ?thesis by auto
  next
    case False
    have "edge_rel g `` insert v V \<subseteq> insert v V \<union> set (rev (out g v) @ st)"
      using "2.prems" by auto
    with 2 False have "mark_loop g (v # st) V = insert v V \<union> (edge_rel g)\<^sup>* `` (set (out g v) \<union> set st)"
      by simp
    moreover have "set (out g v) = edge_rel g `` {v}" by auto
    moreover have "(edge_rel g)\<^sup>* `` {v} = insert v ((edge_rel g)\<^sup>* `` (edge_rel g `` {v}))"
      by (auto elim: converse_rtranclE intro: converse_rtrancl_into_rtrancl)
    ultimately show ?thesis by auto
  qed
qed simp

lemma MarkReachable_closed:
  assumes "edge_rel g `` V \<subseteq> V"
  shows "MarkReachable start g V = V \<union> (edge_rel g)\<^sup>* `` {start}"
    and "edge_rel g `` MarkReachable start g V \<subseteq> MarkReachable start g V"
proof -
  show eq: "MarkReachable start g V = V \<union> (edge_rel g)\<^sup>* `` {start}"
    unfolding MarkReachable_def by (subst mark_loop_reach) (use assms in auto)
  show "edge_rel g `` MarkReachable start g V \<subseteq> MarkReachable start g V"
    unfolding eq using assms by (auto simp del: edge_rel_iff intro: rtrancl_into_rtrancl)
qed

subsection \<open>Validation errors\<close>

definition AppendErr :: "BPMNValidationError list \<Rightarrow> BPMNErrorCode \<Rightarrow> string \<Rightarrow> BPMNValidationError list" where
  "AppendErr errs code nodeID = errs @ [\<lparr>be_Code = code, be_NodeID = nodeID, be_Severity = SeverityError\<rparr>]"

definition AppendWarn :: "BPMNValidationError list \<Rightarrow> BPMNErrorCode \<Rightarrow> string \<Rightarrow> BPMNValidationError list" where
  "AppendWarn errs code nodeID = errs @ [\<lparr>be_Code = code, be_NodeID = nodeID, be_Severity = SeverityWarning\<rparr>]"

lemma AppendErr_Nil [simp]: "AppendErr [] c n = [\<lparr>be_Code = c, be_NodeID = n, be_Severity = SeverityError\<rparr>]"
  and AppendWarn_Nil [simp]: "AppendWarn [] c n = [\<lparr>be_Code = c, be_NodeID = n, be_Severity = SeverityWarning\<rparr>]"
  by (simp_all add: AppendErr_def AppendWarn_def)

text \<open>The node at which a process starts, as the validators choose it.\<close>

definition startOf :: "BPMNProcess \<Rightarrow> string \<Rightarrow> string" where
  "startOf proc implicitStart =
     (case proc_StartEvents proc of e # _ \<Rightarrow> ev_ID e | [] \<Rightarrow> implicitStart)"

definition ValidateReachability :: "BPMNProcess \<Rightarrow> Graph \<Rightarrow> string \<Rightarrow> BPMNValidationError list" where
  "ValidateReachability proc g implicitStart =
     (let startID = startOf proc implicitStart in
      if startID = [] then []
      else
        let visited = MarkReachable startID g {};
            visited = fold (\<lambda>be. MarkReachable (bnd_ID be) g) (proc_BoundaryEvents proc) visited
        in fold (\<lambda>nid errs.
             if (case node_type g nid of Some k \<Rightarrow> IsBoundaryEventType k | None \<Rightarrow> False) then errs
             else if nid \<notin> visited then AppendErr errs BPMNErrUnreachableNode nid else errs)
           (mkeys (g_NodeIDs g)) [])"

lemma fold_MarkReachable:
  assumes "edge_rel g `` V \<subseteq> V"
  shows "fold (\<lambda>x. MarkReachable (f x) g) xs V = V \<union> (edge_rel g)\<^sup>* `` (f ` set xs)"
  using assms
proof (induction xs arbitrary: V)
  case (Cons x xs)
  then show ?case using MarkReachable_closed [OF Cons.prems, of "f x"] by auto
qed simp

text \<open>A loop that only appends is the concatenation of what each round appends.\<close>

lemma fold_append_errs:
  assumes "\<And>x errs. step x errs = errs @ f x"
  shows "fold step xs errs = errs @ concat (map f xs)"
  by (induction xs arbitrary: errs) (simp_all add: assms)

lemma unreachable_reported:
  assumes "startOf proc implicitStart \<noteq> []"
  shows "set (ValidateReachability proc g implicitStart) =
    {\<lparr>be_Code = BPMNErrUnreachableNode, be_NodeID = n, be_Severity = SeverityError\<rparr> | n.
       n \<in> node_ids g \<and> \<not> (\<exists>k. node_type g n = Some k \<and> IsBoundaryEventType k) \<and>
       n \<notin> (edge_rel g)\<^sup>* `` insert (startOf proc implicitStart) (bnd_ID ` set (proc_BoundaryEvents proc))}"
proof -
  let ?s = "startOf proc implicitStart" and ?b = "\<lambda>n. case node_type g n of Some k \<Rightarrow> IsBoundaryEventType k | None \<Rightarrow> False"
  let ?V = "(edge_rel g)\<^sup>* `` insert ?s (bnd_ID ` set (proc_BoundaryEvents proc))"
  from MarkReachable_closed [of g "{}" ?s]
  have "fold (\<lambda>be. MarkReachable (bnd_ID be) g) (proc_BoundaryEvents proc) (MarkReachable ?s g {}) = ?V"
    by (subst fold_MarkReachable) auto
  then have "ValidateReachability proc g implicitStart =
      concat (map (\<lambda>n. if ?b n then [] else if n \<notin> ?V then AppendErr [] BPMNErrUnreachableNode n else [])
        (mkeys (g_NodeIDs g)))"
    unfolding ValidateReachability_def Let_def using assms
    by (subst fold_append_errs [where f = "\<lambda>n. if ?b n then [] else if n \<notin> ?V then AppendErr [] BPMNErrUnreachableNode n else []"])
       (simp_all add: AppendErr_def)
  then show ?thesis
    by (auto split: option.splits if_splits)
qed

end
