(* ===== verification/Bpmn_Depth.thy ===== *)
theory Bpmn_Depth
  imports Bpmn_Reach
begin

text \<open>
  \<open>validator/depth.go\<close>: the longest path of a process, computed in one depth-first search with a
  memo of the depth below each node.  Because the search leaves out the back edges, its forward
  graph is acyclic, a node is never met while its own depth is pending, and the memo of the start is
  the length of the longest forward path.
\<close>

definition maxPathDepth :: nat where
  "maxPathDepth = 2000"

type_synonym depth_memo = "(string, nat) gomap"

definition deepest_child :: "edges \<Rightarrow> depth_memo \<Rightarrow> string \<Rightarrow> string list \<Rightarrow> nat \<Rightarrow> nat" where
  "deepest_child backEdges memo v =
     fold (\<lambda>next best.
       if (v, next) \<in> backEdges then best
       else let d = 1 + mget_or 0 memo next in if best < d then d else best)"

definition depth_visitor :: "Graph \<Rightarrow> edges \<Rightarrow> depth_memo DFSVisitor" where
  "depth_visitor g backEdges =
     \<lparr>OnEnter = (\<lambda>_ memo. (True, memo)),
      OnEdge = (\<lambda>n m _ memo. ((n, m) \<notin> backEdges, memo)),
      OnExit = (\<lambda>v memo. mput v (deepest_child backEdges memo v (out g v) 1) memo)\<rparr>"

definition validateMaxDepthFrom :: "BPMNProcess \<Rightarrow> Graph \<Rightarrow> edges \<Rightarrow> string \<Rightarrow> BPMNValidationError list" where
  "validateMaxDepthFrom proc g backEdges implicitStart =
     (let start = startOf proc implicitStart in
      if start = [] then []
      else
        let memo = IterativeDFS g start (depth_visitor g backEdges) []
        in if maxPathDepth < mget_or 0 memo start
           then AppendErr [] BPMNErrMaxDepthExceeded start else [])"

definition ValidateMaxDepth :: "BPMNProcess \<Rightarrow> Graph \<Rightarrow> edges \<Rightarrow> BPMNValidationError list" where
  "ValidateMaxDepth proc g backEdges = validateMaxDepthFrom proc g backEdges []"

subsection \<open>The depth of a node\<close>

fun path_in :: "edges \<Rightarrow> string list \<Rightarrow> bool" where
  "path_in E (x # y # zs) = ((x, y) \<in> E \<and> path_in E (y # zs))"
| "path_in E _ = True"

definition is_depth :: "edges \<Rightarrow> string \<Rightarrow> nat \<Rightarrow> bool" where
  "is_depth E n d \<longleftrightarrow>
     (\<forall>p. path_in E (n # p) \<longrightarrow> length (n # p) \<le> d) \<and> (\<exists>p. path_in E (n # p) \<and> length (n # p) = d)"

definition acyclic_from :: "edges \<Rightarrow> string set \<Rightarrow> bool" where
  "acyclic_from E R \<longleftrightarrow> (\<forall>u \<in> E\<^sup>* `` R. (u, u) \<notin> E\<^sup>+)"

lemma classify_acyclic_from: "acyclic_from (fwd g (ClassifyBackEdges g roots)) (set roots)"
  unfolding acyclic_from_def using classify_acyclic [of _ g roots] by (simp add: classify_reach)

lemma acyclic_from_subset: "acyclic_from E R \<Longrightarrow> S \<subseteq> R \<Longrightarrow> acyclic_from E S"
  by (auto simp: acyclic_from_def)

lemma deepest_child_Nil [simp]: "deepest_child B memo v [] b = b"
  by (simp add: deepest_child_def)

lemma deepest_child_Cons [simp]:
  "deepest_child B memo v (w # ws) b =
     deepest_child B memo v ws (if (v, w) \<in> B then b else max b (1 + mget_or 0 memo w))"
  by (simp add: deepest_child_def Let_def max_def)

lemma deepest_child_ge_base: "b \<le> deepest_child B memo v ws b"
  by (induction ws arbitrary: b) (auto intro: order_trans [OF max.cobounded1])

lemma deepest_child_ge:
  "w \<in> set ws \<Longrightarrow> (v, w) \<notin> B \<Longrightarrow> 1 + mget_or 0 memo w \<le> deepest_child B memo v ws b"
proof (induction ws arbitrary: b)
  case (Cons a ws)
  show ?case
  proof (cases "w = a")
    case True
    with Cons.prems show ?thesis
      using deepest_child_ge_base [of "max b (1 + mget_or 0 memo a)" B memo v ws] by simp
  next
    case False
    with Cons show ?thesis by simp
  qed
qed simp

lemma deepest_child_attained:
  "deepest_child B memo v ws b = b \<or>
     (\<exists>w \<in> set ws. (v, w) \<notin> B \<and> deepest_child B memo v ws b = 1 + mget_or 0 memo w)"
proof (induction ws arbitrary: b)
  case (Cons a ws)
  from Cons.IH [of "if (v, a) \<in> B then b else max b (1 + mget_or 0 memo a)"] show ?case
    by (auto simp: max_def split: if_splits)
qed simp

lemma is_depth_step:
  assumes children: "\<And>w. (n, w) \<in> fwd g B \<Longrightarrow> is_depth (fwd g B) w (mget_or 0 memo w)"
  shows "is_depth (fwd g B) n (deepest_child B memo n (out g n) 1)" (is "is_depth ?E n ?d")
  unfolding is_depth_def
proof (intro conjI allI impI)
  fix p
  assume p: "path_in ?E (n # p)"
  show "length (n # p) \<le> ?d"
  proof (cases p)
    case Nil
    then show ?thesis using deepest_child_ge_base [of 1 B memo n "out g n"] by simp
  next
    case (Cons w q)
    with p have edge: "(n, w) \<in> ?E" and "path_in ?E (w # q)" by auto
    with children [of w] have "length (w # q) \<le> mget_or 0 memo w" by (auto simp: is_depth_def)
    with deepest_child_ge [of w "out g n" n B memo 1] edge Cons show ?thesis by (simp add: fwd_iff)
  qed
next
  show "\<exists>p. path_in ?E (n # p) \<and> length (n # p) = ?d"
  proof (cases "?d = 1")
    case True
    then show ?thesis by (intro exI [of _ "[]"]) simp
  next
    case False
    with deepest_child_attained [of B memo n "out g n" 1] obtain w where edge: "(n, w) \<in> ?E"
      and d: "?d = 1 + mget_or 0 memo w" by (auto simp: fwd_iff)
    with children [of w] obtain q where "path_in ?E (w # q)" "length (w # q) = mget_or 0 memo w"
      by (auto simp: is_depth_def)
    with edge d show ?thesis by (intro exI [of _ "w # q"]) simp
  qed
qed

subsection \<open>The invariant of the search\<close>

definition depth_inv :: "Graph \<Rightarrow> edges \<Rightarrow> string \<Rightarrow> string set \<Rightarrow> frame list \<Rightarrow> depth_memo \<Rightarrow> bool" where
  "depth_inv g B start V st memo \<longleftrightarrow>
     acyclic_from (fwd g B) {start} \<and> start \<in> V \<and> V = set (mkeys memo) \<union> ids st \<and>
     (\<forall>n \<in> set (mkeys memo). is_depth (fwd g B) n (mget_or 0 memo n)) \<and>
     tree_path (fwd g B) (map fr_id st) \<and> ids st \<subseteq> (fwd g B)\<^sup>* `` {start} \<and>
     covered g B (set (mkeys memo)) {} st"

lemma depth_exit:
  assumes inv: "depth_inv g B start V (f # st) memo" and last: "length (out g (fr_id f)) \<le> fr_next f"
  shows "depth_inv g B start V st (mput (fr_id f) (deepest_child B memo (fr_id f) (out g (fr_id f)) 1) memo)"
proof -
  from inv last have "is_depth (fwd g B) (fr_id f) (deepest_child B memo (fr_id f) (out g (fr_id f)) 1)"
    by (intro is_depth_step) (auto simp: depth_inv_def fwd_iff)
  moreover from inv have "covered g B (insert (fr_id f) (fst ` set memo)) {} st"
    by (auto simp: depth_inv_def intro: covered_mono)
  ultimately show ?thesis
    using inv tree_path_tl by (auto simp: depth_inv_def)
qed

lemma depth_not_on_stack:
  assumes inv: "depth_inv g B start V (f # st) memo" and edge: "(fr_id f, m) \<in> fwd g B" and "m \<in> V"
  shows "m \<in> set (mkeys memo)"
proof (rule ccontr)
  assume "m \<notin> set (mkeys memo)"
  with inv \<open>m \<in> V\<close> have "m \<in> ids (f # st)" by (auto simp: depth_inv_def)
  with inv tree_path_reaches [of "fwd g B" "fr_id f" "map fr_id st" m] have "(m, fr_id f) \<in> (fwd g B)\<^sup>*"
    by (auto simp: depth_inv_def)
  with edge have "(fr_id f, fr_id f) \<in> (fwd g B)\<^sup>+" by (rule rtrancl_into_trancl2)
  moreover from inv have "fr_id f \<in> (fwd g B)\<^sup>* `` {start}" by (auto simp: depth_inv_def)
  ultimately show False using inv by (auto simp: depth_inv_def acyclic_from_def)
qed

interpretation depth: dfs_client g "depth_visitor g B" "depth_inv g B start" for g B start
proof (unfold_locales, goal_cases)
  case (1 V f st s s')
  then show ?case by (simp add: depth_visitor_def)
next
  case (2 V f st s s')
  then show ?case by (auto simp: depth_visitor_def depth_inv_def)
next
  case (3 V f st s)
  then show ?case using depth_exit [of g B start V f st s] by (simp add: depth_visitor_def)
next
  case (4 V f st s s' d m)
  then have "(fr_id f, m) \<in> B \<or> m \<in> set (mkeys s)"
    using depth_not_on_stack [of g B start V f st s m] by (auto simp: depth_visitor_def fwd_iff)
  with 4 show ?case by (auto simp: depth_visitor_def depth_inv_def take_next)
next
  case (5 V f st s s' m)
  then have "(fr_id f, m) \<in> fwd g B" by (simp add: depth_visitor_def fwd_iff)
  moreover from 5 have "(start, fr_id f) \<in> (fwd g B)\<^sup>*" by (auto simp: depth_inv_def)
  ultimately have "(start, m) \<in> (fwd g B)\<^sup>*" by (rule rtrancl_into_rtrancl [rotated])
  moreover from 5 have "covered g B (set (mkeys s)) {m} (f\<lparr>fr_next := Suc (fr_next f)\<rparr> # st)"
    by (auto simp: depth_inv_def take_next)
  ultimately show ?case
    using 5 \<open>(fr_id f, m) \<in> fwd g B\<close> by (auto simp: depth_visitor_def depth_inv_def)
qed

lemma depth_memo_start:
  assumes "acyclic_from (fwd g B) {start}"
  shows "is_depth (fwd g B) start (mget_or 0 (IterativeDFS g start (depth_visitor g B) []) start)"
proof -
  have "depth_inv g B start {start} [new_frame start] []"
    using assms by (simp add: depth_inv_def)
  from depth.search_keeps [OF this] obtain V where
    "depth_inv g B start V [] (IterativeDFS g start (depth_visitor g B) [])" ..
  then show ?thesis unfolding depth_inv_def by auto
qed

lemma depth_reported_iff:
  assumes "startOf proc implicitStart = start" and "start \<noteq> []" and "acyclic_from (fwd g B) {start}"
  shows "validateMaxDepthFrom proc g B implicitStart = [] \<longleftrightarrow>
    (\<forall>p. path_in (fwd g B) (start # p) \<longrightarrow> length (start # p) \<le> maxPathDepth)"
proof -
  define d where "d = mget_or 0 (IterativeDFS g start (depth_visitor g B) []) start"
  have "is_depth (fwd g B) start d" unfolding d_def by (rule depth_memo_start [OF assms(3)])
  then have "d \<le> maxPathDepth \<longleftrightarrow>
      (\<forall>p. path_in (fwd g B) (start # p) \<longrightarrow> length (start # p) \<le> maxPathDepth)"
    unfolding is_depth_def by (meson order_trans)
  moreover have "validateMaxDepthFrom proc g B implicitStart = [] \<longleftrightarrow> d \<le> maxPathDepth"
    using assms(1,2) by (auto simp: validateMaxDepthFrom_def Let_def d_def)
  ultimately show ?thesis by simp
qed

end
