(* ===== verification/Bpmn_Joins.thy ===== *)
theory Bpmn_Joins
  imports Bpmn_Depth
begin

text \<open>
  The joins of split gateways: \<open>FindJoin\<close> and \<open>immediatePostDominator\<close> of \<open>bpmncore/graph.go\<close>, and the
  memoised \<open>Joins\<close> of \<open>bpmncore/joins.go\<close>, one walk for all nodes.  A frame's \<open>next\<close> never exceeds the
  number of its edges, so the code's test \<open>top.next == len(out)\<close> is written \<open>length (out g n) \<le> next\<close>.
  \<open>commonAncestor\<close> climbs two parent chains until they meet and has no bound of its own: it is a
  partial function into \<open>option\<close>, \<open>None\<close> when the loop does not end, and what calls it is
  option-valued in turn.
\<close>

subsection \<open>The forward walk\<close>

definition walkOnStack :: nat where "walkOnStack = 1"
definition walkDone :: nat where "walkDone = 2"

record walk_frame =
  wf_node :: string
  wf_next :: nat

record forwardWalk =
  fw_state :: "(string, nat) gomap"
  fw_successors :: "(string, string list) gomap"
  fw_order :: "string list"
  fw_cyclic :: "string set"

definition newForwardWalk :: forwardWalk where
  "newForwardWalk = \<lparr>fw_state = [], fw_successors = [], fw_order = [], fw_cyclic = {}\<rparr>"

abbreviation walk_state :: "forwardWalk \<Rightarrow> string \<Rightarrow> nat" where
  "walk_state w n \<equiv> mget_or 0 (fw_state w) n"

abbreviation succs :: "forwardWalk \<Rightarrow> string \<Rightarrow> string list" where
  "succs w n \<equiv> mget_or [] (fw_successors w) n"

definition walk_finish :: "string \<Rightarrow> forwardWalk \<Rightarrow> forwardWalk" where
  "walk_finish node w =
     (let w = w\<lparr>fw_state := mput node walkDone (fw_state w), fw_order := fw_order w @ [node]\<rparr>
      in if \<exists>succ \<in> set (succs w node). succ \<in> fw_cyclic w
         then w\<lparr>fw_cyclic := insert node (fw_cyclic w)\<rparr> else w)"

abbreviation walk_frame_of :: "string \<Rightarrow> walk_frame" where
  "walk_frame_of n \<equiv> \<lparr>wf_node = n, wf_next = 0\<rparr>"

definition walk_edge :: "Graph \<Rightarrow> edges \<Rightarrow> string \<Rightarrow> string \<Rightarrow> forwardWalk \<Rightarrow> forwardWalk \<times> walk_frame list" where
  "walk_edge g B node nx w =
     (if (node, nx) \<in> B then (w, [])
      else if walk_state w nx = walkOnStack then (w\<lparr>fw_cyclic := insert node (fw_cyclic w)\<rparr>, [])
      else
        let w' = w\<lparr>fw_successors := mappend node nx (fw_successors w)\<rparr>
        in if walk_state w nx = 0
           then (w'\<lparr>fw_state := mput nx walkOnStack (fw_state w')\<rparr>, [walk_frame_of nx])
           else (w', []))"

fun walk_step :: "Graph \<Rightarrow> edges \<Rightarrow> forwardWalk \<times> walk_frame list \<Rightarrow> forwardWalk \<times> walk_frame list" where
  "walk_step g B (w, []) = (w, [])"
| "walk_step g B (w, fr # rest) =
     (if length (out g (wf_node fr)) \<le> wf_next fr then (walk_finish (wf_node fr) w, rest)
      else
        let nx = out g (wf_node fr) ! wf_next fr;
            (w', pushed) = walk_edge g B (wf_node fr) nx w
        in (w', pushed @ fr\<lparr>wf_next := Suc (wf_next fr)\<rparr> # rest))"

definition unseen :: "Graph \<Rightarrow> (string, nat) gomap \<Rightarrow> nat" where
  "unseen g st = card {n \<in> targets g. mget_or 0 st n = 0}"

definition walk_work :: "Graph \<Rightarrow> walk_frame list \<Rightarrow> nat" where
  "walk_work g stack = sum_list (map (\<lambda>fr. Suc (length (out g (wf_node fr)) - wf_next fr)) stack)"

lemma unseen_mput_le: "k \<noteq> 0 \<Longrightarrow> unseen g (mput n k st) \<le> unseen g st"
  unfolding unseen_def by (rule card_mono) auto

lemma unseen_mput_less: "k \<noteq> 0 \<Longrightarrow> n \<in> targets g \<Longrightarrow> mget_or 0 st n = 0 \<Longrightarrow> unseen g (mput n k st) < unseen g st"
  unfolding unseen_def by (rule psubset_card_mono) auto

lemma walk_step_decreases:
  assumes "stack \<noteq> []"
  shows "(walk_step g B (w, stack), (w, stack))
    \<in> measures [\<lambda>(w, st). unseen g (fw_state w), \<lambda>(w, st). walk_work g st]"
proof -
  from assms obtain fr rest where stack: "stack = fr # rest" by (cases stack) auto
  show ?thesis
  proof (cases "length (out g (wf_node fr)) \<le> wf_next fr")
    case True
    then show ?thesis
      using unseen_mput_le [of walkDone g "wf_node fr" "fw_state w"]
      by (auto simp: stack walk_finish_def Let_def walk_work_def walkDone_def)
  next
    case False
    define nx where "nx = out g (wf_node fr) ! wf_next fr"
    from False have target: "nx \<in> targets g" unfolding nx_def by (metis linorder_not_le nth_mem out_targets)
    show ?thesis
      using False unseen_mput_less [OF _ target, of walkOnStack "fw_state w"]
      by (auto simp: stack walk_edge_def Let_def walk_work_def walkOnStack_def simp flip: nx_def)
  qed
qed

function walk_run :: "Graph \<Rightarrow> edges \<Rightarrow> forwardWalk \<times> walk_frame list \<Rightarrow> forwardWalk" where
  "walk_run g B (w, stack) = (if stack = [] then w else walk_run g B (walk_step g B (w, stack)))"
  by pat_completeness auto
termination
  by (relation "inv_image (measures [\<lambda>(g, w, st). unseen g (fw_state w), \<lambda>(g, w, st). walk_work g st])
       (\<lambda>(g, B, c). (g, c))")
     (simp, use walk_step_decreases in \<open>force split: prod.splits\<close>)

declare walk_run.simps [simp del]

definition walk_from :: "Graph \<Rightarrow> edges \<Rightarrow> string \<Rightarrow> forwardWalk \<Rightarrow> forwardWalk" where
  "walk_from g B root w =
     walk_run g B (w\<lparr>fw_state := mput root walkOnStack (fw_state w)\<rparr>, [walk_frame_of root])"

definition walk_all :: "Graph \<Rightarrow> edges \<Rightarrow> forwardWalk \<Rightarrow> forwardWalk" where
  "walk_all g B w =
     fold (\<lambda>root w. if walk_state w root = 0 then walk_from g B root w else w) (sort (mkeys (g_Outgoing g))) w"

subsection \<open>Common ancestors\<close>

partial_function (option) commonAncestor ::
  "string \<Rightarrow> string \<Rightarrow> (string, string) gomap \<Rightarrow> (string, nat) gomap \<Rightarrow> string option" where
  "commonAncestor a b parent depth =
     (if a = b then Some a
      else if mget_or 0 depth b \<le> mget_or 0 depth a then commonAncestor (mget_or [] parent a) b parent depth
      else commonAncestor a (mget_or [] parent b) parent depth)"

declare commonAncestor.simps [code]

fun meet_rest :: "(string, string) gomap \<Rightarrow> (string, nat) gomap \<Rightarrow> string \<Rightarrow> string list \<Rightarrow> string option" where
  "meet_rest parent depth meet [] = Some meet"
| "meet_rest parent depth meet (succ # ss) =
     Option.bind (commonAncestor meet succ parent depth) (\<lambda>m. meet_rest parent depth m ss)"

fun meet_of :: "(string, string) gomap \<Rightarrow> (string, nat) gomap \<Rightarrow> string list \<Rightarrow> string option" where
  "meet_of parent depth [] = Some []"
| "meet_of parent depth (succ # ss) = meet_rest parent depth succ ss"

subsection \<open>FindJoin\<close>

record pd_walk =
  pd_state :: "(string, nat) gomap"
  pd_successors :: "(string, string list) gomap"
  pd_order :: "string list"

fun pd_step :: "Graph \<Rightarrow> edges \<Rightarrow> pd_walk \<times> walk_frame list \<Rightarrow> pd_walk \<times> walk_frame list" where
  "pd_step g B (w, []) = (w, [])"
| "pd_step g B (w, fr # rest) =
     (if length (out g (wf_node fr)) \<le> wf_next fr
      then (w\<lparr>pd_state := mput (wf_node fr) walkDone (pd_state w), pd_order := pd_order w @ [wf_node fr]\<rparr>, rest)
      else
        let nx = out g (wf_node fr) ! wf_next fr;
            rest' = fr\<lparr>wf_next := Suc (wf_next fr)\<rparr> # rest
        in if (wf_node fr, nx) \<in> B \<or> mget_or 0 (pd_state w) nx = walkOnStack then (w, rest')
           else
             let w' = w\<lparr>pd_successors := mappend (wf_node fr) nx (pd_successors w)\<rparr>
             in if mget_or 0 (pd_state w) nx = 0
                then (w'\<lparr>pd_state := mput nx walkOnStack (pd_state w')\<rparr>, walk_frame_of nx # rest')
                else (w', rest'))"

text \<open>The search of \<open>immediatePostDominator\<close> is the walk without the marks of \<open>cyclic\<close>.\<close>

definition pd_of :: "forwardWalk \<Rightarrow> pd_walk" where
  "pd_of w = \<lparr>pd_state = fw_state w, pd_successors = fw_successors w, pd_order = fw_order w\<rparr>"

lemma pd_step_walk_step: "pd_step g B (pd_of w, st) = map_prod pd_of (\<lambda>st. st) (walk_step g B (w, st))"
  by (cases st) (auto simp: pd_of_def walk_finish_def walk_edge_def Let_def split: prod.splits)

lemma pd_step_decreases:
  assumes "stack \<noteq> []"
  shows "(pd_step g B (w, stack), (w, stack))
    \<in> measures [\<lambda>(w, st). unseen g (pd_state w), \<lambda>(w, st). walk_work g st]"
proof -
  define fw where "fw = \<lparr>fw_state = pd_state w, fw_successors = pd_successors w, fw_order = pd_order w, fw_cyclic = {}\<rparr>"
  have "w = pd_of fw" by (simp add: fw_def pd_of_def)
  then show ?thesis
    using walk_step_decreases [OF assms, of g B fw] pd_step_walk_step [of g B fw stack]
    by (auto simp: pd_of_def split: prod.splits)
qed

function pd_run :: "Graph \<Rightarrow> edges \<Rightarrow> pd_walk \<times> walk_frame list \<Rightarrow> pd_walk" where
  "pd_run g B (w, stack) = (if stack = [] then w else pd_run g B (pd_step g B (w, stack)))"
  by pat_completeness auto
termination
  by (relation "inv_image (measures [\<lambda>(g, w, st). unseen g (pd_state w), \<lambda>(g, w, st). walk_work g st])
       (\<lambda>(g, B, c). (g, c))")
     (simp, use pd_step_decreases in \<open>force split: prod.splits\<close>)

declare pd_run.simps [simp del]

fun pd_index :: "(string, string list) gomap \<Rightarrow> string list \<Rightarrow> (string, string) gomap \<Rightarrow> (string, nat) gomap
    \<Rightarrow> (string, string) gomap option" where
  "pd_index successors [] parent depth = Some parent"
| "pd_index successors (n # order) parent depth =
     Option.bind (meet_of parent depth (mget_or [] successors n)) (\<lambda>meet.
       pd_index successors order (mput n meet parent) (mput n (mget_or 0 depth meet + 1) depth))"

definition immediatePostDominator :: "string \<Rightarrow> Graph \<Rightarrow> edges \<Rightarrow> string option" where
  "immediatePostDominator root g B =
     (let w = pd_run g B (\<lparr>pd_state = [(root, walkOnStack)], pd_successors = [], pd_order = []\<rparr>, [walk_frame_of root])
      in map_option (\<lambda>parent. mget_or [] parent root) (pd_index (pd_successors w) (pd_order w) [] [([], 0)]))"

definition FindJoin :: "string \<Rightarrow> Graph \<Rightarrow> edges \<Rightarrow> (string \<times> bool) option" where
  "FindJoin splitID g B =
     (if forwardCount splitID g B < 2 then Some ([], False)
      else map_option (\<lambda>join. (join, join \<noteq> [])) (immediatePostDominator splitID g B))"

subsection \<open>Joins\<close>

record Joins =
  j_g :: Graph
  j_backEdges :: edges
  j_cyclic :: "string set"
  j_ipdom :: "(string, string) gomap"
  j_reachesEnd :: "(string, bool) gomap"

fun joins_index :: "(string, string list) gomap \<Rightarrow> string list \<Rightarrow> (string, nat) gomap \<Rightarrow> Joins \<Rightarrow> Joins option" where
  "joins_index successors [] depth j = Some j"
| "joins_index successors (n # order) depth j =
     (if n \<in> j_cyclic j then joins_index successors order depth j
      else
        let ss = mget_or [] successors n;
            reaches = (node_type (j_g j) n = Some NodeTypeEndEvent \<or> (\<exists>s \<in> set ss. mget_or False (j_reachesEnd j) s))
        in Option.bind (meet_of (j_ipdom j) depth ss) (\<lambda>meet.
             joins_index successors order (mput n (mget_or 0 depth meet + 1) depth)
               (j\<lparr>j_ipdom := mput n meet (j_ipdom j), j_reachesEnd := mput n reaches (j_reachesEnd j)\<rparr>)))"

definition NewJoins :: "Graph \<Rightarrow> edges \<Rightarrow> Joins option" where
  "NewJoins g B =
     (let w = walk_all g B newForwardWalk
      in joins_index (fw_successors w) (fw_order w) [([], 0)]
           \<lparr>j_g = g, j_backEdges = B, j_cyclic = fw_cyclic w, j_ipdom = [], j_reachesEnd = []\<rparr>)"

definition ReachesUnbrokenCycle :: "Joins \<Rightarrow> string \<Rightarrow> bool" where
  "ReachesUnbrokenCycle j node = (node \<in> j_cyclic j)"

definition Joins_Find :: "Joins \<Rightarrow> string \<Rightarrow> (string \<times> bool) option" where
  "Joins_Find j splitID =
     (if splitID \<in> j_cyclic j then FindJoin splitID (j_g j) (j_backEdges j)
      else if forwardCount splitID (j_g j) (j_backEdges j) < 2 then Some ([], False)
      else let join = mget_or [] (j_ipdom j) splitID in Some (join, join \<noteq> []))"

definition end_visitor :: "Graph \<Rightarrow> edges \<Rightarrow> bool DFSVisitor" where
  "end_visitor g B =
     \<lparr>OnEnter = (\<lambda>v found. let found = (found \<or> node_type g v = Some NodeTypeEndEvent) in (\<not> found, found)),
      OnEdge = (\<lambda>n m _ found. ((n, m) \<notin> B \<and> \<not> found, found)),
      OnExit = (\<lambda>_ found. found)\<rparr>"

definition reachesEndEvent :: "string \<Rightarrow> Graph \<Rightarrow> edges \<Rightarrow> bool" where
  "reachesEndEvent start g B = IterativeDFS g start (end_visitor g B) False"

definition ReachesEndEvent :: "Joins \<Rightarrow> string \<Rightarrow> bool" where
  "ReachesEndEvent j node =
     (if node \<in> j_cyclic j then reachesEndEvent node (j_g j) (j_backEdges j)
      else mget_or False (j_reachesEnd j) node)"

end
