(* ===== verification/Bpmn_Join_Chains.thy ===== *)
theory Bpmn_Join_Chains
  imports Bpmn_Joins
begin

text \<open>
  What \<open>commonAncestor\<close> and the indexing loops compute.  A parent map whose depths grow by one along
  each chain is a forest above the empty string; the common ancestor of two nodes is the node whose
  chain is the intersection of theirs, and the indexing loop gives every node the chain of its
  post-dominators.
\<close>

subsection \<open>Parent chains\<close>

definition parent_rel :: "(string, string) gomap \<Rightarrow> edges" where
  "parent_rel P = {(n, mget_or [] P n) | n. n \<noteq> []}"

definition chain :: "(string, string) gomap \<Rightarrow> string \<Rightarrow> string set" where
  "chain P n = {m. m \<noteq> [] \<and> (n, m) \<in> (parent_rel P)\<^sup>*}"

definition forest :: "string set \<Rightarrow> (string, string) gomap \<Rightarrow> (string, nat) gomap \<Rightarrow> bool" where
  "forest S P D \<longleftrightarrow>
     [] \<notin> S \<and> mget_or 0 D [] = 0 \<and>
     (\<forall>n \<in> S. mget_or [] P n \<in> insert [] S \<and> mget_or 0 D n = Suc (mget_or 0 D (mget_or [] P n)))"

lemma chain_Nil [simp]: "chain P [] = {}"
  by (auto simp: chain_def parent_rel_def elim: converse_rtranclE)

lemma chain_step: "n \<noteq> [] \<Longrightarrow> chain P n = insert n (chain P (mget_or [] P n))"
  by (auto simp: chain_def parent_rel_def elim: converse_rtranclE intro: converse_rtrancl_into_rtrancl)

lemma chain_self: "n \<noteq> [] \<Longrightarrow> n \<in> chain P n"
  by (simp add: chain_def)

lemma chain_depth:
  assumes "forest S P D"
  shows "n \<in> insert [] S \<Longrightarrow> m \<in> chain P n \<Longrightarrow> m \<in> S \<and> (m = n \<or> mget_or 0 D m < mget_or 0 D n)"
proof (induction "mget_or 0 D n" arbitrary: n rule: less_induct)
  case less
  show ?case
  proof (cases "n = []")
    case False
    let ?p = "mget_or [] P n"
    from False less.prems assms have n: "n \<in> S" and p: "?p \<in> insert [] S"
      and d: "mget_or 0 D n = Suc (mget_or 0 D ?p)" by (auto simp: forest_def)
    from less.prems(2) chain_step [OF False, of P] consider "m = n" | "m \<in> chain P ?p" by auto
    then show ?thesis
    proof cases
      case 2
      with less.hyps [of ?p] p d show ?thesis by auto
    qed (use n in simp)
  qed (use less.prems in simp)
qed

lemma chain_strict:
  assumes "forest S P D" and "n \<in> S"
  shows "n \<notin> chain P (mget_or [] P n)"
proof
  assume "n \<in> chain P (mget_or [] P n)"
  moreover from assms have "mget_or [] P n \<in> insert [] S"
    and "mget_or 0 D n = Suc (mget_or 0 D (mget_or [] P n))" by (auto simp: forest_def)
  ultimately show False using chain_depth [OF assms(1), of "mget_or [] P n" n] by auto
qed

text \<open>The two chains are climbed from the deeper end, so a node left behind is on neither rest.\<close>

lemma commonAncestor_chain:
  assumes forest: "forest S P D"
  shows "a \<in> insert [] S \<Longrightarrow> b \<in> insert [] S \<Longrightarrow>
    \<exists>c \<in> insert [] S. commonAncestor a b P D = Some c \<and> chain P c = chain P a \<inter> chain P b"
proof (induction "mget_or 0 D a + mget_or 0 D b" arbitrary: a b rule: less_induct)
  case less
  have node: "n \<in> S \<and> n \<noteq> [] \<and> mget_or [] P n \<in> insert [] S \<and> mget_or 0 D n = Suc (mget_or 0 D (mget_or [] P n))"
    if "n \<in> insert [] S" and "n \<noteq> []" for n
    using that forest by (auto simp: forest_def)
  have root: "mget_or 0 D [] = 0" using forest by (simp add: forest_def)
  show ?case
  proof (cases "a = b")
    case True
    then have "commonAncestor a b P D = Some a" by (subst commonAncestor.simps) simp
    with less.prems True show ?thesis by blast
  next
    case False
    show ?thesis
    proof (cases "mget_or 0 D b \<le> mget_or 0 D a")
      case True
      then have "a \<noteq> []" using False less.prems node [of b] root by auto
      note a = node [OF less.prems(1) this]
      have "a \<notin> chain P b"
        using chain_depth [OF forest less.prems(2), of a] False True by auto
      with chain_step [of a P] a have "chain P a \<inter> chain P b = chain P (mget_or [] P a) \<inter> chain P b" by auto
      with less.hyps [of "mget_or [] P a" b] a less.prems False True show ?thesis
        by (simp add: commonAncestor.simps [of a b])
    next
      case deeper: False
      then have "b \<noteq> []" using root by auto
      note b = node [OF less.prems(2) this]
      have "b \<notin> chain P a"
        using chain_depth [OF forest less.prems(1), of b] False deeper by auto
      with chain_step [of b P] b have "chain P a \<inter> chain P b = chain P a \<inter> chain P (mget_or [] P b)" by auto
      with less.hyps [of a "mget_or [] P b"] b less.prems False deeper show ?thesis
        by (simp add: commonAncestor.simps [of a b])
    qed
  qed
qed

lemma meet_rest_chain:
  assumes forest: "forest S P D"
  shows "m \<in> insert [] S \<Longrightarrow> set ss \<subseteq> insert [] S \<Longrightarrow>
    \<exists>c \<in> insert [] S. meet_rest P D m ss = Some c \<and> chain P c = chain P m \<inter> (\<Inter>s \<in> set ss. chain P s)"
proof (induction ss arbitrary: m)
  case (Cons s ss)
  then have "s \<in> insert [] S" and ss: "set ss \<subseteq> insert [] S" by auto
  from commonAncestor_chain [OF forest Cons.prems(1) this(1)] obtain c where c: "c \<in> insert [] S"
    "commonAncestor m s P D = Some c" "chain P c = chain P m \<inter> chain P s" by blast
  from Cons.IH [OF c(1) ss] obtain c' where "c' \<in> insert [] S" "meet_rest P D c ss = Some c'"
    "chain P c' = chain P c \<inter> (\<Inter>s \<in> set ss. chain P s)" by blast
  with c show ?case by (intro bexI [of _ c']) (simp_all add: Int_assoc)
qed auto

lemma meet_of_chain:
  assumes "forest S P D" and "set ss \<subseteq> S"
  shows "\<exists>c \<in> insert [] S. meet_of P D ss = Some c \<and>
    chain P c = (if ss = [] then {} else \<Inter>s \<in> set ss. chain P s)"
proof (cases ss)
  case (Cons s ss')
  with assms show ?thesis using meet_rest_chain [OF assms(1), of s ss'] by auto
qed simp

subsection \<open>Post-dominators\<close>

text \<open>A node post-dominates \<open>n\<close> when every path from \<open>n\<close> that ends where no edge leaves passes it.\<close>

definition pdom :: "edges \<Rightarrow> string \<Rightarrow> string set" where
  "pdom E n = {m. \<forall>p. path_in E (n # p) \<and> E `` {last (n # p)} = {} \<longrightarrow> m \<in> set (n # p)}"

lemma pdom_sink: "E `` {n} = {} \<Longrightarrow> pdom E n = {n}"
proof -
  assume sink: "E `` {n} = {}"
  then have "path_in E (n # p) \<Longrightarrow> p = []" for p by (cases p) auto
  with sink show ?thesis by (force simp: pdom_def)
qed

lemma pdom_step:
  assumes "E `` {n} \<noteq> {}"
  shows "pdom E n = insert n (\<Inter>w \<in> E `` {n}. pdom E w)"
proof (intro equalityI subsetI)
  fix m
  assume m: "m \<in> pdom E n"
  { fix w p
    assume "m \<noteq> n" "(n, w) \<in> E" "path_in E (w # p)" "E `` {last (w # p)} = {}"
    then have "path_in E (n # w # p) \<and> E `` {last (n # w # p)} = {}" by simp
    with m have "m \<in> set (n # w # p)" unfolding pdom_def by blast
    with \<open>m \<noteq> n\<close> have "m \<in> set (w # p)" by simp }
  then show "m \<in> insert n (\<Inter>w \<in> E `` {n}. pdom E w)" unfolding pdom_def by blast
next
  fix m
  assume m: "m \<in> insert n (\<Inter>w \<in> E `` {n}. pdom E w)"
  show "m \<in> pdom E n"
    unfolding pdom_def
  proof (intro CollectI allI impI)
    fix p
    assume p: "path_in E (n # p) \<and> E `` {last (n # p)} = {}"
    with assms obtain w q where "p = w # q" by (cases p) auto
    with p m show "m \<in> set (n # p)" by (auto simp: pdom_def)
  qed
qed

lemma pdom_self: "n \<in> pdom E n"
  by (simp add: pdom_def)

subsection \<open>The indexing loop\<close>

fun topo :: "(string, string list) gomap \<Rightarrow> string set \<Rightarrow> string list \<Rightarrow> bool" where
  "topo M S [] = True"
| "topo M S (n # ns) = (set (mget_or [] M n) \<subseteq> S \<and> n \<notin> S \<and> topo M (insert n S) ns)"

lemma topo_append: "topo M S (ns @ ms) \<longleftrightarrow> topo M S ns \<and> topo M (S \<union> set ns) ms"
  by (induction ns arbitrary: S) auto

lemma topo_closed: "topo M S ns \<Longrightarrow> n \<in> set ns \<Longrightarrow> set (mget_or [] M n) \<subseteq> S \<union> set ns"
  by (induction ns arbitrary: S) force+

lemma topo_fresh: "topo M S ns \<Longrightarrow> S \<inter> set ns = {} \<and> distinct ns"
  by (induction ns arbitrary: S) force+

lemma topo_cong: "(\<And>n. n \<in> set ns \<Longrightarrow> mget_or [] M n = mget_or [] M' n) \<Longrightarrow> topo M S ns = topo M' S ns"
  by (induction ns arbitrary: S) auto

lemma topo_acyclic:
  assumes "topo M S ns" and "\<And>n. n \<in> set ns \<Longrightarrow> E `` {n} \<subseteq> set (mget_or [] M n)"
    and "acyclic (E \<inter> S \<times> UNIV)" and "E `` S \<subseteq> S"
  shows "acyclic (E \<inter> (S \<union> set ns) \<times> UNIV)"
  using assms
proof (induction ns arbitrary: S)
  case (Cons n ns)
  from Cons.prems(1) have "set (mget_or [] M n) \<subseteq> S" and n: "n \<notin> S" by auto
  with Cons.prems(2) [of n] have sub: "E `` {n} \<subseteq> S" by (meson list.set_intros(1) order_trans)
  with Cons.prems n have "acyclic (E \<inter> insert n S \<times> UNIV)" by (intro acyclic_add_source)
  moreover from sub Cons.prems(4) have "E `` insert n S \<subseteq> insert n S" by blast
  ultimately have "acyclic (E \<inter> (insert n S \<union> set ns) \<times> UNIV)"
    using Cons.prems by (intro Cons.IH) auto
  then show ?case by simp
qed simp

lemma forest_extend:
  assumes forest: "forest S P D" and n: "n \<notin> S" "n \<noteq> []" and c: "c \<in> insert [] S"
  defines "P' \<equiv> mput n c P" and "D' \<equiv> mput n (mget_or 0 D c + 1) D"
  shows "forest (insert n S) P' D'" and "m \<in> insert [] S \<Longrightarrow> chain P' m = chain P m"
    and "chain P' n = insert n (chain P c)"
proof -
  show "forest (insert n S) P' D'" using assms by (auto simp: forest_def)
  show same: "chain P' m = chain P m" if "m \<in> insert [] S" for m
    using that
  proof (induction "mget_or 0 D m" arbitrary: m rule: less_induct)
    case less
    show ?case
    proof (cases "m = []")
      case False
      with less.prems forest n have "mget_or [] P' m = mget_or [] P m" "mget_or [] P m \<in> insert [] S"
        "mget_or 0 D (mget_or [] P m) < mget_or 0 D m" by (auto simp: P'_def forest_def)
      with less.hyps False show ?thesis by (simp add: chain_step)
    qed simp
  qed
  show "chain P' n = insert n (chain P c)"
    using chain_step [OF n(2), of P'] same [OF c] by (simp add: P'_def)
qed

lemma pd_index_chain:
  assumes "topo M S ns" and "forest S P D" and "[] \<notin> set ns"
    and "\<And>n. n \<in> set ns \<Longrightarrow> E `` {n} = set (mget_or [] M n)"
    and "\<And>n. n \<in> S \<Longrightarrow> chain P n = pdom E n"
  shows "\<exists>P' D'. pd_index M ns P D = Some P' \<and> forest (S \<union> set ns) P' D' \<and>
    (\<forall>n \<in> S \<union> set ns. chain P' n = pdom E n)"
  using assms
proof (induction ns arbitrary: S P D)
  case (Cons n ns)
  from Cons.prems have succ: "set (mget_or [] M n) \<subseteq> S" and n: "n \<notin> S" "n \<noteq> []"
    and E: "E `` {n} = set (mget_or [] M n)" by auto
  from meet_of_chain [OF Cons.prems(2) succ] obtain c where c: "c \<in> insert [] S"
    "meet_of P D (mget_or [] M n) = Some c"
    "chain P c = (if mget_or [] M n = [] then {} else \<Inter>s \<in> set (mget_or [] M n). chain P s)" by blast
  have "insert n (chain P c) = pdom E n"
  proof (cases "mget_or [] M n = []")
    case True
    with c E show ?thesis by (simp add: pdom_sink)
  next
    case False
    with succ Cons.prems(5) c(3) have "chain P c = (\<Inter>s \<in> set (mget_or [] M n). pdom E s)"
      by (metis (no_types, lifting) INF_cong subsetD)
    with False E show ?thesis by (simp add: pdom_step)
  qed
  with forest_extend [OF Cons.prems(2) n c(1)] Cons.prems(5)
  have "forest (insert n S) (mput n c P) (mput n (mget_or 0 D c + 1) D)"
    and "\<And>m. m \<in> insert n S \<Longrightarrow> chain (mput n c P) m = pdom E m" by auto
  from Cons.IH [OF _ this(1) _ _ this(2)] Cons.prems c(2) show ?case by auto
qed auto

end
