(* ===== verification/Bpmn_Join_Walk.thy ===== *)
theory Bpmn_Join_Walk
  imports Bpmn_Join_Chains
begin

text \<open>
  The invariant of the forward walk: finished nodes are listed after their successors, the
  successors of a finished node that is not marked cyclic are all its forward edges, and a marked
  node reaches a cycle of forward edges.
\<close>

abbreviation nodes :: "walk_frame list \<Rightarrow> string set" where
  "nodes st \<equiv> wf_node ` set st"

definition state_ok :: "forwardWalk \<Rightarrow> walk_frame list \<Rightarrow> bool" where
  "state_ok w st \<longleftrightarrow>
     (\<forall>n. walk_state w n = (if n \<in> set (fw_order w) then walkDone else if n \<in> nodes st then walkOnStack else 0)) \<and>
     set (fw_order w) \<inter> nodes st = {} \<and> distinct (map wf_node st)"

definition order_ok :: "edges \<Rightarrow> forwardWalk \<Rightarrow> bool" where
  "order_ok E w \<longleftrightarrow>
     topo (fw_successors w) {} (fw_order w) \<and>
     (\<forall>n \<in> set (fw_order w). set (succs w n) \<subseteq> E `` {n} \<and> E `` {n} \<subseteq> set (succs w n) \<union> Domain E \<and>
        (n \<notin> fw_cyclic w \<longrightarrow> E `` {n} \<subseteq> set (succs w n) \<and> set (succs w n) \<inter> fw_cyclic w = {})) \<and>
     (\<forall>n \<in> fw_cyclic w. \<exists>u. (n, u) \<in> E\<^sup>* \<and> (u, u) \<in> E\<^sup>+)"

fun frames_ok :: "Graph \<Rightarrow> edges \<Rightarrow> forwardWalk \<Rightarrow> string set \<Rightarrow> walk_frame list \<Rightarrow> bool" where
  "frames_ok g B w X [] = True"
| "frames_ok g B w X (f # st) =
     ((\<forall>m \<in> set (take (wf_next f) (out g (wf_node f))).
         (wf_node f, m) \<in> B \<or> wf_node f \<in> fw_cyclic w \<and> m \<in> Domain (fwd g B) \<or> m \<in> set (succs w (wf_node f))) \<and>
      set (succs w (wf_node f)) \<subseteq> fwd g B `` {wf_node f} \<inter> (set (fw_order w) \<union> X) \<and>
      frames_ok g B w {wf_node f} st)"

definition seen :: "forwardWalk \<Rightarrow> walk_frame list \<Rightarrow> string set" where
  "seen w st = set (fw_order w) \<union> nodes st"

definition walk_inv :: "Graph \<Rightarrow> edges \<Rightarrow> string set \<Rightarrow> string set \<Rightarrow> forwardWalk \<Rightarrow> walk_frame list \<Rightarrow> bool" where
  "walk_inv g B R K w st \<longleftrightarrow>
     state_ok w st \<and> order_ok (fwd g B) w \<and> frames_ok g B w {} st \<and> tree_path (fwd g B) (map wf_node st) \<and>
     fw_cyclic w \<subseteq> seen w st \<and> (\<forall>n. n \<notin> seen w st \<longrightarrow> succs w n = []) \<and>
     seen w st \<subseteq> (fwd g B)\<^sup>* `` R \<and> K \<subseteq> seen w st"

lemma frames_ok_mono:
  assumes "frames_ok g B w X st" and "\<And>n. n \<in> nodes st \<Longrightarrow> succs w' n = succs w n"
    and "set (fw_order w) \<union> X \<subseteq> set (fw_order w') \<union> X'" and "fw_cyclic w \<subseteq> fw_cyclic w'"
    and "set (fw_order w) \<subseteq> set (fw_order w')"
  shows "frames_ok g B w' X' st"
  using assms
proof (induction st arbitrary: X X')
  case (Cons f st)
  from Cons.prems have "frames_ok g B w' {wf_node f} st"
    by (intro Cons.IH [of "{wf_node f}"]) auto
  with Cons.prems show ?case by auto
qed simp

lemma order_closed: "order_ok E w \<Longrightarrow> n \<in> set (fw_order w) \<Longrightarrow> set (succs w n) \<subseteq> set (fw_order w)"
  unfolding order_ok_def using topo_closed by fastforce

lemma walk_finish_simps:
  "fw_state (walk_finish n w) = mput n walkDone (fw_state w)"
  "fw_successors (walk_finish n w) = fw_successors w"
  "fw_order (walk_finish n w) = fw_order w @ [n]"
  "fw_cyclic (walk_finish n w) =
     (if set (succs w n) \<inter> fw_cyclic w = {} then fw_cyclic w else insert n (fw_cyclic w))"
  by (auto simp: walk_finish_def Let_def)

lemma walk_inv_finish:
  assumes inv: "walk_inv g B R K w (f # st)" and last: "length (out g (wf_node f)) \<le> wf_next f"
  shows "walk_inv g B R K (walk_finish (wf_node f) w) st"
proof -
  let ?n = "wf_node f" and ?w = "walk_finish (wf_node f) w" and ?E = "fwd g B"
  note simps = walk_finish_simps [of ?n w]
  from inv have n: "?n \<notin> set (fw_order w)" "?n \<notin> nodes st"
    and succ: "set (succs w ?n) \<subseteq> ?E `` {?n}" "set (succs w ?n) \<subseteq> set (fw_order w)"
    and order: "order_ok ?E w"
    by (auto simp: walk_inv_def state_ok_def)
  from inv last have all: "?n \<notin> fw_cyclic w \<Longrightarrow> ?E `` {?n} \<subseteq> set (succs w ?n)"
    "?E `` {?n} \<subseteq> set (succs w ?n) \<union> Domain ?E"
    by (auto simp: walk_inv_def fwd_iff)
  have "state_ok ?w st"
    using inv by (auto simp: walk_inv_def state_ok_def simps walkDone_def walkOnStack_def)
  moreover have "order_ok ?E ?w"
    unfolding order_ok_def simps(2,3)
  proof (intro conjI ballI)
    show "topo (fw_successors w) {} (fw_order w @ [?n])"
      using order succ n by (auto simp: order_ok_def topo_append)
  next
    fix m
    assume m: "m \<in> set (fw_order w @ [?n])"
    with order succ show "set (succs w m) \<subseteq> ?E `` {m}" by (auto simp: order_ok_def)
    from m order all(2) show "?E `` {m} \<subseteq> set (succs w m) \<union> Domain ?E" unfolding order_ok_def by auto
    show "m \<notin> fw_cyclic ?w \<longrightarrow> ?E `` {m} \<subseteq> set (succs w m) \<and> set (succs w m) \<inter> fw_cyclic ?w = {}"
    proof (cases "m = ?n")
      case True
      with all(1) succ(2) n show ?thesis by (auto simp: simps)
    next
      case False
      with m have "m \<in> set (fw_order w)" by simp
      with order_closed [OF order this] order n show ?thesis
        unfolding order_ok_def simps by (auto split: if_splits)
    qed
  next
    fix m
    assume "m \<in> fw_cyclic ?w"
    then consider "m \<in> fw_cyclic w" | s where "m = ?n" "s \<in> set (succs w ?n)" "s \<in> fw_cyclic w"
      by (auto simp: simps split: if_splits)
    then show "\<exists>u. (m, u) \<in> ?E\<^sup>* \<and> (u, u) \<in> ?E\<^sup>+"
    proof cases
      case 2
      with succ order obtain u where "(s, u) \<in> ?E\<^sup>*" "(u, u) \<in> ?E\<^sup>+" "(?n, s) \<in> ?E"
        by (force simp: order_ok_def)
      with 2 show ?thesis by (meson converse_rtrancl_into_rtrancl)
    qed (use order in \<open>simp add: order_ok_def\<close>)
  qed
  moreover have "frames_ok g B ?w {} st"
    by (rule frames_ok_mono [of g B w "{?n}"]) (use inv in \<open>auto simp: walk_inv_def simps\<close>)
  moreover have "seen ?w st = seen w (f # st)" by (auto simp: seen_def simps)
  moreover have "?n \<in> seen w (f # st)" by (simp add: seen_def)
  ultimately show ?thesis
    using inv tree_path_tl [of ?E ?n "map wf_node st"] by (simp add: walk_inv_def simps)
qed


text \<open>Following an edge changes the successors or the mark of the top node only.\<close>

lemma order_ok_edge:
  assumes order: "order_ok E w" and n: "n \<notin> set (fw_order w)"
    and same: "\<And>m. m \<noteq> n \<Longrightarrow> succs w' m = succs w m" "fw_order w' = fw_order w"
    and cyc: "fw_cyclic w' = fw_cyclic w \<or> fw_cyclic w' = insert n (fw_cyclic w) \<and> (n, n) \<in> E\<^sup>+"
  shows "order_ok E w'"
proof -
  have eq: "m \<in> set (fw_order w) \<Longrightarrow> succs w' m = succs w m" for m using n same by metis
  with order have "topo (fw_successors w') {} (fw_order w')"
    using topo_cong [of "fw_order w" "fw_successors w" "fw_successors w'"] by (simp add: order_ok_def same)
  moreover have "set (succs w m) \<inter> fw_cyclic w' = {}" if "m \<in> set (fw_order w)" "m \<notin> fw_cyclic w'" for m
  proof -
    from that(2) cyc have "m \<notin> fw_cyclic w" by auto
    with order that(1) have "set (succs w m) \<inter> fw_cyclic w = {}" unfolding order_ok_def by blast
    moreover from order_closed [OF order that(1)] n have "n \<notin> set (succs w m)" by blast
    ultimately show ?thesis using cyc by auto
  qed
  ultimately show ?thesis
    using order cyc eq unfolding order_ok_def same by (auto intro: rtrancl_refl)
qed

lemma frames_ok_below:
  assumes "frames_ok g B w {n} st" and "n \<notin> nodes st" and "\<And>k. k \<noteq> n \<Longrightarrow> succs w' k = succs w k"
    and "fw_order w' = fw_order w" and "fw_cyclic w \<subseteq> fw_cyclic w'"
  shows "frames_ok g B w' {n} st"
proof (rule frames_ok_mono [OF assms(1)])
  fix k
  assume "k \<in> nodes st"
  with assms(2) have "k \<noteq> n" by blast
  then show "succs w' k = succs w k" by (rule assms(3))
qed (use assms in simp_all)

lemma state_ok_next:
  "state_ok w (f # st) \<Longrightarrow> fw_state w' = fw_state w \<Longrightarrow> fw_order w' = fw_order w \<Longrightarrow>
     state_ok w' (f\<lparr>wf_next := k\<rparr> # st)"
  by (simp add: state_ok_def)

lemma state_at:
  assumes "state_ok w st"
  shows "walk_state w m = walkOnStack \<longleftrightarrow> m \<in> nodes st"
    and "walk_state w m = 0 \<longleftrightarrow> m \<notin> set (fw_order w) \<union> nodes st"
proof -
  from assms have "walk_state w m =
      (if m \<in> set (fw_order w) then walkDone else if m \<in> nodes st then walkOnStack else 0)"
    and "set (fw_order w) \<inter> nodes st = {}" by (simp_all add: state_ok_def)
  then show "walk_state w m = walkOnStack \<longleftrightarrow> m \<in> nodes st"
    and "walk_state w m = 0 \<longleftrightarrow> m \<notin> set (fw_order w) \<union> nodes st"
    by (auto simp: walkOnStack_def walkDone_def)
qed

lemma walk_inv_next:
  assumes inv: "walk_inv g B R K w (f # st)" and order: "order_ok (fwd g B) w'"
    and same: "fw_state w' = fw_state w" "fw_order w' = fw_order w" "\<And>k. k \<noteq> wf_node f \<Longrightarrow> succs w' k = succs w k"
    and cyc: "fw_cyclic w \<subseteq> fw_cyclic w'" "fw_cyclic w' \<subseteq> insert (wf_node f) (fw_cyclic w)"
    and more: "wf_next f < length (out g (wf_node f))"
    and m: "(wf_node f, m) \<in> B \<or> wf_node f \<in> fw_cyclic w' \<and> m \<in> Domain (fwd g B) \<or> m \<in> set (succs w' (wf_node f))"
      "m = out g (wf_node f) ! wf_next f"
    and succ: "set (succs w (wf_node f)) \<subseteq> set (succs w' (wf_node f))"
      "set (succs w' (wf_node f)) \<subseteq> fwd g B `` {wf_node f} \<inter> set (fw_order w)"
  shows "walk_inv g B R K w' (f\<lparr>wf_next := Suc (wf_next f)\<rparr> # st)" (is "walk_inv g B R K w' (?f # st)")
proof -
  have seen: "seen w' (?f # st) = seen w (f # st)" and n: "wf_node f \<in> seen w (f # st)"
    by (auto simp: seen_def same)
  from inv have st: "wf_node f \<notin> nodes st" and old: "frames_ok g B w {} (f # st)"
    and state: "state_ok w (f # st)"
    by (auto simp: walk_inv_def state_ok_def)
  from old have "frames_ok g B w' {wf_node f} st"
    by (intro frames_ok_below [OF _ st same(3,2) cyc(1)]) simp_all
  moreover from old m succ cyc(1) more
  have "\<forall>k \<in> set (take (Suc (wf_next f)) (out g (wf_node f))).
      (wf_node f, k) \<in> B \<or> wf_node f \<in> fw_cyclic w' \<and> k \<in> Domain (fwd g B) \<or> k \<in> set (succs w' (wf_node f))"
    by (simp add: take_next) blast
  ultimately have "frames_ok g B w' {} (?f # st)" using succ(2) same(2) by simp
  moreover from inv seen n cyc(2) have "fw_cyclic w' \<subseteq> seen w' (?f # st)" by (auto simp: walk_inv_def)
  moreover from inv seen n same(3) have "\<forall>k. k \<notin> seen w' (?f # st) \<longrightarrow> succs w' k = []"
    by (auto simp: walk_inv_def) (metis list.distinct(1))
  ultimately show ?thesis
    using inv order state_ok_next [OF state same(1,2)] by (simp add: walk_inv_def seen)
qed

lemma walk_inv_edge:
  assumes inv: "walk_inv g B R K w (f # st)" and more: "wf_next f < length (out g (wf_node f))"
    and m: "m = out g (wf_node f) ! wf_next f"
    and edge: "walk_edge g B (wf_node f) m w = (w', pushed)"
  shows "walk_inv g B R K w' (pushed @ f\<lparr>wf_next := Suc (wf_next f)\<rparr> # st)"
proof -
  let ?n = "wf_node f" and ?E = "fwd g B" and ?f = "f\<lparr>wf_next := Suc (wf_next f)\<rparr>"
  from inv have n: "?n \<notin> set (fw_order w)" "?n \<notin> nodes st" and order: "order_ok ?E w"
    and state: "state_ok w (f # st)" by (auto simp: walk_inv_def state_ok_def)
  from more m have out: "m \<in> set (out g ?n)" by simp
  from inv have frames: "frames_ok g B w {?n} st" and succ: "set (succs w ?n) \<subseteq> ?E `` {?n} \<inter> set (fw_order w)"
    and path: "tree_path ?E (?n # map wf_node st)" by (simp_all add: walk_inv_def)
  consider (loop) "(?n, m) \<in> B" "w' = w" "pushed = []"
    | (cycle) "(?n, m) \<notin> B" "walk_state w m = walkOnStack" "pushed = []"
        "w' = w\<lparr>fw_cyclic := insert ?n (fw_cyclic w)\<rparr>"
    | (old) "(?n, m) \<notin> B" "walk_state w m \<notin> {walkOnStack, 0}" "pushed = []"
        "w' = w\<lparr>fw_successors := mappend ?n m (fw_successors w)\<rparr>"
    | (new) "(?n, m) \<notin> B" "walk_state w m = 0" "pushed = [walk_frame_of m]"
        "w' = w\<lparr>fw_successors := mappend ?n m (fw_successors w), fw_state := mput m walkOnStack (fw_state w)\<rparr>"
    using edge by (auto simp: walk_edge_def Let_def split: if_splits)
  then show ?thesis
  proof cases
    case loop
    with walk_inv_next [OF inv order refl refl refl order_refl _ more _ m order_refl succ] show ?thesis by auto
  next
    case cycle
    with out have nm: "(?n, m) \<in> ?E" by (simp add: fwd_iff)
    from cycle(2) have "m \<in> nodes (f # st)" using state_at(1) [OF state] by blast
    with path have "(m, ?n) \<in> ?E\<^sup>*" using tree_path_reaches [of ?E ?n "map wf_node st" m] by simp
    moreover from this nm have "m \<in> Domain ?E" by (auto elim: converse_rtranclE)
    ultimately have "(?n, ?n) \<in> ?E\<^sup>+" and dom: "m \<in> Domain ?E" using nm by (auto intro: rtrancl_into_trancl2)
    from this(1) have "order_ok ?E w'" by (intro order_ok_edge [OF order n(1)]) (simp_all add: cycle)
    from walk_inv_next [OF inv this _ _ _ _ _ more _ m] succ cycle dom show ?thesis by auto
  next
    case old
    with out have nm: "(?n, m) \<in> ?E" by (simp add: fwd_iff)
    from old(2) have "m \<in> set (fw_order w)" using state_at [OF state, of m] by blast
    moreover have "order_ok ?E w'" by (intro order_ok_edge [OF order n(1)]) (simp_all add: old)
    from walk_inv_next [OF inv this _ _ _ _ _ more _ m] succ nm calculation old show ?thesis by auto
  next
    case new
    with out have nm: "(?n, m) \<in> ?E" by (simp add: fwd_iff)
    from new(2) have fresh: "m \<notin> set (fw_order w)" "m \<noteq> ?n" "m \<notin> nodes st"
      using state_at(2) [OF state, of m] by auto
    with inv have none: "succs w m = []" by (auto simp: walk_inv_def seen_def)
    from state fresh have "state_ok w' (walk_frame_of m # ?f # st)"
      by (auto simp: state_ok_def new)
    moreover have "order_ok ?E w'" by (intro order_ok_edge [OF order n(1)]) (simp_all add: new)
    moreover have "frames_ok g B w' {?n} st" by (rule frames_ok_below [OF frames n(2)]) (auto simp: new)
    moreover from inv nm have "m \<in> ?E\<^sup>* `` R"
      by (auto simp: walk_inv_def seen_def intro: rtrancl_into_rtrancl)
    ultimately show ?thesis
      using inv more m nm fresh none by (auto simp: walk_inv_def seen_def take_next new)
  qed
qed

lemma walk_inv_step:
  assumes "walk_inv g B R K w st" and "walk_step g B (w, st) = (w', st')"
  shows "walk_inv g B R K w' st'"
proof (cases st)
  case (Cons f rest)
  with assms walk_inv_finish [of g B R K w f rest] walk_inv_edge [of g B R K w f rest] show ?thesis
    by (auto simp: Let_def split: if_splits prod.splits)
qed (use assms in simp)

lemma walk_inv_run: "walk_inv g B R K w st \<Longrightarrow> walk_inv g B R K (walk_run g B (w, st)) []"
proof (induction g B "(w, st)" arbitrary: w st rule: walk_run.induct)
  case (1 g B w st)
  show ?case
  proof (cases "st = []")
    case False
    obtain w' st' where step: "walk_step g B (w, st) = (w', st')" by force
    from "1.hyps" [OF False step] walk_inv_step [OF "1.prems" step] False step show ?thesis
      by (simp add: walk_run.simps [of g B w st])
  qed (use "1.prems" in \<open>simp add: walk_run.simps [of g B w "[]"]\<close>)
qed

end
