(* ===== verification/Bpmn_Join_Correct.thy ===== *)
theory Bpmn_Join_Correct
  imports Bpmn_Join_Walk
begin

text \<open>
  The two ways of finding a join agree and are right: \<open>FindJoin\<close> always returns, it gives the nearest
  node that every forward path from the split passes, and \<open>Joins\<close> answers the same from one walk.
\<close>

subsection \<open>From walks to forward paths\<close>

text \<open>Between walks nothing is on the stack.\<close>

definition walked :: "Graph \<Rightarrow> edges \<Rightarrow> string set \<Rightarrow> forwardWalk \<Rightarrow> bool" where
  "walked g B R w \<longleftrightarrow> walk_inv g B R {} w []"

lemma walk_inv_weaken: "walk_inv g B R K w st \<Longrightarrow> R \<subseteq> R' \<Longrightarrow> K' \<subseteq> seen w st \<Longrightarrow> walk_inv g B R' K' w st"
  unfolding walk_inv_def by (meson Image_mono order_refl order_trans)

lemma walked_new: "walked g B R newForwardWalk"
  by (simp add: walked_def walk_inv_def state_ok_def order_ok_def seen_def newForwardWalk_def)

lemma walk_from_inv:
  assumes w: "walked g B R w" and root: "walk_state w root = 0" "root \<in> R"
  shows "walked g B R (walk_from g B root w)"
    and "insert root (set (fw_order w)) \<subseteq> set (fw_order (walk_from g B root w))"
proof -
  let ?w = "w\<lparr>fw_state := mput root walkOnStack (fw_state w)\<rparr>" and ?K = "insert root (set (fw_order w))"
  from w have inv: "walk_inv g B R {} w []" by (simp add: walked_def)
  then have state: "state_ok w []" by (simp add: walk_inv_def)
  with root(1) have "root \<notin> set (fw_order w)" using state_at(2) [of w "[]" root] by simp
  moreover from this inv have "succs w root = []" by (simp add: walk_inv_def seen_def)
  moreover from root(2) have "root \<in> (fwd g B)\<^sup>* `` R" by blast
  ultimately have "walk_inv g B R ?K ?w [walk_frame_of root]"
    using inv by (auto simp: walk_inv_def state_ok_def order_ok_def seen_def)
  from walk_inv_run [OF this] have "walk_inv g B R ?K (walk_from g B root w) []"
    by (simp add: walk_from_def)
  then show "walked g B R (walk_from g B root w)"
    and "?K \<subseteq> set (fw_order (walk_from g B root w))"
    by (auto simp: walked_def walk_inv_def seen_def)
qed

definition walk_roots :: "Graph \<Rightarrow> edges \<Rightarrow> string list \<Rightarrow> forwardWalk \<Rightarrow> forwardWalk" where
  "walk_roots g B roots w = fold (\<lambda>root w. if walk_state w root = 0 then walk_from g B root w else w) roots w"

lemma walk_roots_inv:
  "walked g B R w \<Longrightarrow> set roots \<subseteq> R \<Longrightarrow>
     walked g B R (walk_roots g B roots w) \<and>
     set roots \<union> set (fw_order w) \<subseteq> set (fw_order (walk_roots g B roots w))"
proof (induction roots arbitrary: w)
  case (Cons r roots)
  let ?w = "if walk_state w r = 0 then walk_from g B r w else w"
  from Cons.prems have r: "r \<in> R" and w: "walked g B R w" by auto
  have "walk_state w r \<noteq> 0 \<Longrightarrow> r \<in> set (fw_order w)"
    using w state_at(2) [of w "[]" r] by (auto simp: walked_def walk_inv_def)
  with walk_from_inv [OF w _ r] w have "walked g B R ?w" "insert r (set (fw_order w)) \<subseteq> set (fw_order ?w)"
    by auto
  with Cons.IH [of ?w] Cons.prems show ?case by (auto simp: walk_roots_def)
qed (simp add: walk_roots_def)

lemma acyclic_from_reach:
  assumes "acyclic_from E R" and "n \<in> E\<^sup>* `` R"
  shows "acyclic_from E {n}"
proof -
  from assms(2) have "E\<^sup>* `` {n} \<subseteq> E\<^sup>* `` R" by (auto intro: rtrancl_trans)
  with assms(1) show ?thesis by (auto simp: acyclic_from_def)
qed

text \<open>A finished node is marked exactly when an unbroken cycle lies ahead of it.\<close>

lemma walked_cyclic_iff:
  assumes w: "walked g B R w" and n: "n \<in> set (fw_order w)"
  shows "n \<in> fw_cyclic w \<longleftrightarrow> \<not> acyclic_from (fwd g B) {n}"
proof
  let ?E = "fwd g B"
  assume "n \<in> fw_cyclic w"
  with w show "\<not> acyclic_from ?E {n}"
    by (auto simp: walked_def walk_inv_def order_ok_def acyclic_from_def)
next
  let ?E = "fwd g B" and ?N = "set (fw_order w) - fw_cyclic w"
  assume cycle: "\<not> acyclic_from ?E {n}"
  from w have order: "order_ok ?E w" by (simp add: walked_def walk_inv_def)
  have closed: "?E `` ?N \<subseteq> ?N"
    using order order_closed [OF order] unfolding order_ok_def by blast
  have "topo (fw_successors w) {} (fw_order w)" using order by (simp add: order_ok_def)
  then have "acyclic ((?E \<inter> ?N \<times> UNIV) \<inter> ({} \<union> set (fw_order w)) \<times> UNIV)"
    by (rule topo_acyclic) (use order in \<open>auto simp: order_ok_def acyclic_def\<close>)
  then have acyc: "acyclic (?E \<inter> ?N \<times> UNIV)" by (rule acyclic_subset) auto
  show "n \<in> fw_cyclic w"
  proof (rule ccontr)
    assume "n \<notin> fw_cyclic w"
    with n have "n \<in> ?N" by simp
    moreover from cycle obtain u where u: "(n, u) \<in> ?E\<^sup>*" "(u, u) \<in> ?E\<^sup>+" by (auto simp: acyclic_from_def)
    ultimately have uN: "u \<in> ?N" using closed by (metis Image_closed_trancl ImageI rev_ImageI)
    have "(u, v) \<in> ?E\<^sup>+ \<Longrightarrow> v \<in> ?N \<and> (u, v) \<in> (?E \<inter> ?N \<times> UNIV)\<^sup>+" for v
      by (induction rule: trancl_induct) (use closed uN in \<open>auto intro: trancl_into_trancl\<close>)
    with u(2) acyc show False by (auto simp: acyclic_def)
  qed
qed

text \<open>The order without the marked nodes, over which both indexing loops run.\<close>

lemma walked_topo:
  assumes w: "walked g B R w"
  defines "ns \<equiv> filter (\<lambda>n. n \<notin> fw_cyclic w) (fw_order w)"
  shows "topo (fw_successors w) {} ns"
    and "n \<in> set ns \<Longrightarrow> fwd g B `` {n} = set (succs w n)"
proof -
  from w have order: "order_ok (fwd g B) w" by (simp add: walked_def walk_inv_def)
  have "topo M S os \<Longrightarrow> (\<forall>n \<in> set os - C. set (mget_or [] M n) \<inter> C = {}) \<Longrightarrow> topo M (S - C) (filter (\<lambda>n. n \<notin> C) os)"
    for M S os C
  proof (induction os arbitrary: S)
    case (Cons a os)
    then have "topo M (insert a S - C) (filter (\<lambda>n. n \<notin> C) os)" by auto
    with Cons.prems show ?case by (cases "a \<in> C") (auto simp: insert_Diff_if)
  qed simp
  from this [of "fw_successors w" "{}" "fw_order w" "fw_cyclic w"] order
  show "topo (fw_successors w) {} ns" by (auto simp: order_ok_def ns_def)
  show "n \<in> set ns \<Longrightarrow> fwd g B `` {n} = set (succs w n)"
    using order by (auto simp: order_ok_def ns_def)
qed

text \<open>Nodes have names: no flow leads to the empty string.\<close>

definition named :: "Graph \<Rightarrow> bool" where
  "named g \<longleftrightarrow> [] \<notin> targets g"

lemma fwd_targets: "(u, v) \<in> (fwd g B)\<^sup>* \<Longrightarrow> v = u \<or> v \<in> targets g"
  by (induction rule: rtrancl_induct) (auto simp: fwd_def dest: out_targets)

lemma walked_named:
  assumes "walked g B R w" and "named g" and "[] \<notin> R"
  shows "[] \<notin> set (fw_order w)"
  using assms fwd_targets [of _ "[]" g B] by (fastforce simp: walked_def walk_inv_def seen_def named_def)

subsection \<open>FindJoin\<close>

lemma pd_run_walk_run: "pd_run g B (pd_of w, st) = pd_of (walk_run g B (w, st))"
proof (induction g B "(w, st)" arbitrary: w st rule: walk_run.induct)
  case (1 g B w st)
  show ?case
  proof (cases "st = []")
    case False
    obtain w' st' where step: "walk_step g B (w, st) = (w', st')" by force
    with pd_step_walk_step [of g B w st] have "pd_step g B (pd_of w, st) = (pd_of w', st')" by simp
    with "1.hyps" [OF False step] False step show ?thesis
      by (simp add: walk_run.simps [of g B w st] pd_run.simps [of g B "pd_of w" st])
  qed (simp add: walk_run.simps [of g B w "[]"] pd_run.simps [of g B "pd_of w" "[]"])
qed

lemma immediatePostDominator_walk:
  "immediatePostDominator root g B =
     (let w = walk_from g B root newForwardWalk
      in map_option (\<lambda>parent. mget_or [] parent root) (pd_index (fw_successors w) (fw_order w) [] [([], 0)]))"
proof -
  let ?w = "newForwardWalk\<lparr>fw_state := mput root walkOnStack (fw_state newForwardWalk)\<rparr>"
  have init: "\<lparr>pd_state = [(root, walkOnStack)], pd_successors = [], pd_order = []\<rparr> = pd_of ?w"
    by (simp add: newForwardWalk_def pd_of_def)
  show ?thesis
    unfolding immediatePostDominator_def init pd_run_walk_run walk_from_def
    by (simp add: pd_of_def Let_def)
qed

lemma forest_empty: "forest {} [] [([], 0)]"
  by (simp add: forest_def mget_or_def)

text \<open>The nearest strict post-dominator, or none.\<close>

definition ipdom_of :: "edges \<Rightarrow> string \<Rightarrow> string \<Rightarrow> bool" where
  "ipdom_of E n j \<longleftrightarrow> [] \<notin> pdom E n \<and> pdom E n - {n} = (if j = [] then {} else pdom E j) \<and>
     (\<forall>k. k \<in> pdom E j \<and> j \<in> pdom E k \<and> k \<in> pdom E n \<longrightarrow> k = j)"

lemma forest_ipdom:
  assumes forest: "forest S P D" and n: "n \<in> S" and chains: "\<And>m. m \<in> S \<Longrightarrow> chain P m = pdom E m"
  shows "ipdom_of E n (mget_or [] P n)"
proof -
  let ?j = "mget_or [] P n"
  from forest n have "n \<noteq> []" and j: "?j \<in> insert [] S" by (auto simp: forest_def)
  with chain_step [of n P] chain_strict [OF forest n] chains [OF n]
  have rest: "pdom E n - {n} = chain P ?j" by auto
  moreover from chains j have "chain P ?j = (if ?j = [] then {} else pdom E ?j)" by auto
  moreover have "[] \<notin> pdom E n" using chains [OF n] by (auto simp: chain_def)
  moreover have "k = ?j" if k: "k \<in> pdom E ?j" "?j \<in> pdom E k" "k \<in> pdom E n" for k
  proof (cases "?j = []")
    case True
    from k(3) chains [OF n] have "k \<in> chain P n" by blast
    with n chain_depth [OF forest, of n k] have kS: "k \<in> S" by blast
    with k(2) chains have "?j \<in> chain P k" by blast
    with True show ?thesis by (simp add: chain_def)
  next
    case False
    with j have "?j \<in> S" by blast
    from chains [OF this] k(1) have "k \<in> chain P ?j" by blast
    from chain_depth [OF forest j this] have kS: "k \<in> S" and "k = ?j \<or> mget_or 0 D k < mget_or 0 D ?j" by auto
    moreover from chains [OF kS] k(2) have "?j \<in> chain P k" by blast
    from chain_depth [OF forest _ this] kS have "?j = k \<or> mget_or 0 D ?j < mget_or 0 D k" by auto
    ultimately show ?thesis by auto
  qed
  ultimately show ?thesis by (auto simp: ipdom_of_def)
qed

lemma immediatePostDominator_returns:
  assumes "named g" and "root \<noteq> []"
  obtains j where "immediatePostDominator root g B = Some j"
    and "acyclic_from (fwd g B) {root} \<Longrightarrow> ipdom_of (fwd g B) root j"
proof -
  define w where "w = walk_from g B root newForwardWalk"
  have "walk_state newForwardWalk root = 0" by (simp add: newForwardWalk_def)
  from walk_from_inv [OF walked_new [of g B "{root}"] this]
  have w: "walked g B {root} w" and root: "root \<in> set (fw_order w)" by (simp_all add: w_def)
  have names: "[] \<notin> set (fw_order w)" using walked_named [OF w] assms by auto
  from w have topo: "topo (fw_successors w) {} (fw_order w)" by (simp add: walked_def walk_inv_def order_ok_def)
  obtain P where P: "pd_index (fw_successors w) (fw_order w) [] [([], 0)] = Some P"
    using pd_index_chain [OF topo forest_empty names, of "{(u, v). v \<in> set (succs w u)}"] by auto
  show ?thesis
  proof (rule that)
    show "immediatePostDominator root g B = Some (mget_or [] P root)"
      using P by (simp add: immediatePostDominator_walk w_def)
  next
    assume acyc: "acyclic_from (fwd g B) {root}"
    have "fw_cyclic w = {}"
    proof (rule ccontr)
      assume "fw_cyclic w \<noteq> {}"
      then obtain n where n: "n \<in> fw_cyclic w" by blast
      with w have order: "n \<in> set (fw_order w)" and "n \<in> (fwd g B)\<^sup>* `` {root}"
        by (auto simp: walked_def walk_inv_def seen_def)
      from acyclic_from_reach [OF acyc this(2)] walked_cyclic_iff [OF w order] n show False by simp
    qed
    with walked_topo [OF w] have "n \<in> set (fw_order w) \<Longrightarrow> fwd g B `` {n} = set (succs w n)" for n by simp
    with pd_index_chain [OF topo forest_empty names, of "fwd g B"] P obtain D
      where "forest (set (fw_order w)) P D" and "\<And>n. n \<in> set (fw_order w) \<Longrightarrow> chain P n = pdom (fwd g B) n"
      by auto
    with root show "ipdom_of (fwd g B) root (mget_or [] P root)" by (rule_tac forest_ipdom)
  qed
qed

lemma FindJoin_returns:
  assumes "named g" and "n \<noteq> []"
  shows "\<exists>r. FindJoin n g B = Some r"
  using immediatePostDominator_returns [OF assms] by (auto simp: FindJoin_def)

text \<open>The join of a split: a post-dominator of it that every other one post-dominates.\<close>

definition is_join :: "edges \<Rightarrow> string \<Rightarrow> string \<Rightarrow> bool" where
  "is_join E n j \<longleftrightarrow> j \<in> pdom E n - {n} \<and> (\<forall>m \<in> pdom E n - {n}. m \<in> pdom E j)"

lemma ipdom_of_join:
  assumes "ipdom_of E n k"
  shows "is_join E n j \<longleftrightarrow> k = j \<and> j \<noteq> []"
proof
  assume join: "is_join E n j"
  then have j: "j \<in> pdom E n - {n}" by (simp add: is_join_def)
  with assms have k: "k \<noteq> []" "pdom E n - {n} = pdom E k" by (auto simp: ipdom_of_def split: if_splits)
  with j have "j \<in> pdom E k" and "k \<in> pdom E n - {n}" using pdom_self [of k E] by auto
  with join have "k \<in> pdom E j" by (auto simp: is_join_def)
  with \<open>j \<in> pdom E k\<close> j assms have "j = k" by (auto simp: ipdom_of_def)
  with k show "k = j \<and> j \<noteq> []" by simp
next
  assume "k = j \<and> j \<noteq> []"
  with assms show "is_join E n j"
    using pdom_self [of j E] by (auto simp: ipdom_of_def is_join_def)
qed

theorem FindJoin_join:
  assumes "named g" and "n \<noteq> []" and "acyclic_from (fwd g B) {n}"
  shows "FindJoin n g B = Some (j, True) \<longleftrightarrow> 2 \<le> forwardCount n g B \<and> is_join (fwd g B) n j"
proof -
  obtain k where "immediatePostDominator n g B = Some k" and "ipdom_of (fwd g B) n k"
    using immediatePostDominator_returns [OF assms(1,2)] assms(3) by metis
  with ipdom_of_join [of "fwd g B" n k j] show ?thesis by (auto simp: FindJoin_def)
qed

subsection \<open>Joins\<close>

text \<open>The loop of \<open>index\<close> is the other one on the nodes that are not marked.\<close>

lemma joins_index_pd_index:
  "map_option j_ipdom (joins_index M ns D j) = pd_index M (filter (\<lambda>n. n \<notin> j_cyclic j) ns) (j_ipdom j) D"
proof (induction M ns D j rule: joins_index.induct)
  case (2 M n ns D j)
  show ?case
  proof (cases "n \<in> j_cyclic j")
    case False
    with 2 show ?thesis
      by (cases "meet_of (j_ipdom j) D (mget_or [] M n)") (simp_all add: Let_def)
  qed (use 2 in simp)
qed simp

lemma joins_index_fixed:
  "joins_index M ns D j = Some j' \<Longrightarrow> j_g j' = j_g j \<and> j_backEdges j' = j_backEdges j \<and> j_cyclic j' = j_cyclic j"
  by (induction M ns D j rule: joins_index.induct)
     (auto simp: Let_def bind_eq_Some_conv split: if_splits)

definition ends_ahead :: "Graph \<Rightarrow> edges \<Rightarrow> string \<Rightarrow> bool" where
  "ends_ahead g E n \<longleftrightarrow> (\<exists>e. (n, e) \<in> E\<^sup>* \<and> node_type g e = Some NodeTypeEndEvent)"

lemma ends_ahead_step:
  "ends_ahead g E n \<longleftrightarrow> node_type g n = Some NodeTypeEndEvent \<or> (\<exists>s \<in> E `` {n}. ends_ahead g E s)"
  unfolding ends_ahead_def by (auto elim: converse_rtranclE intro: converse_rtrancl_into_rtrancl)

lemma joins_index_ends:
  assumes "joins_index M ns D j = Some j'"
    and "topo M S (filter (\<lambda>n. n \<notin> j_cyclic j) ns)"
    and "\<And>n. n \<in> set ns - j_cyclic j \<Longrightarrow> E `` {n} = set (mget_or [] M n)"
    and "\<And>n. n \<in> S \<Longrightarrow> mget_or False (j_reachesEnd j) n = ends_ahead (j_g j) E n"
    and "n \<in> S \<union> (set ns - j_cyclic j)"
  shows "mget_or False (j_reachesEnd j') n = ends_ahead (j_g j) E n"
  using assms
proof (induction ns arbitrary: S D j)
  case (Cons a ns)
  show ?case
  proof (cases "a \<in> j_cyclic j")
    case True
    with Cons.prems show ?thesis by (intro Cons.IH [of D j S]) auto
  next
    case False
    let ?ss = "mget_or [] M a"
    let ?reach = "node_type (j_g j) a = Some NodeTypeEndEvent \<or> (\<exists>s \<in> set ?ss. mget_or False (j_reachesEnd j) s)"
    from False Cons.prems(2) have succ: "set ?ss \<subseteq> S" by simp
    with Cons.prems(3) [of a] Cons.prems(4) False have reach: "?reach = ends_ahead (j_g j) E a"
      by (subst ends_ahead_step) auto
    from False Cons.prems(1) obtain m where m: "meet_of (j_ipdom j) D ?ss = Some m"
      and rest: "joins_index M ns (mput a (mget_or 0 D m + 1) D)
        (j\<lparr>j_ipdom := mput a m (j_ipdom j), j_reachesEnd := mput a ?reach (j_reachesEnd j)\<rparr>) = Some j'"
      by (auto simp: Let_def bind_eq_Some_conv)
    have "mget_or False (j_reachesEnd j') n =
        ends_ahead (j_g (j\<lparr>j_ipdom := mput a m (j_ipdom j), j_reachesEnd := mput a ?reach (j_reachesEnd j)\<rparr>)) E n"
      using False Cons.prems(2-5) reach by (intro Cons.IH [OF rest, of "insert a S"]) (auto split: if_splits)
    then show ?thesis by simp
  qed
qed simp

text \<open>\<open>reachesEndEvent\<close>: until an end event is found, what was visited has its edges inside.\<close>

definition edges_in :: "Graph \<Rightarrow> edges \<Rightarrow> string set \<Rightarrow> string \<Rightarrow> bool" where
  "edges_in g B V n \<longleftrightarrow> fwd g B `` {n} \<subseteq> V"

lemma edges_in_insert: "edges_in g B V n \<Longrightarrow> edges_in g B (insert m V) n"
  by (auto simp: edges_in_def)

definition end_pending :: "Graph \<Rightarrow> edges \<Rightarrow> string set \<Rightarrow> frame list \<Rightarrow> bool" where
  "end_pending g B V st \<longleftrightarrow>
     (\<forall>n \<in> V. node_type g n = Some NodeTypeEndEvent \<longrightarrow> (\<exists>f fs. st = f # fs \<and> fr_id f = n \<and> \<not> fr_entered f)) \<and>
     (\<forall>n \<in> V - ids st. edges_in g B V n) \<and>
     (\<forall>f \<in> set st. \<forall>w \<in> set (take (fr_next f) (out g (fr_id f))). (fr_id f, w) \<in> B \<or> w \<in> V)"

definition end_inv :: "Graph \<Rightarrow> edges \<Rightarrow> string \<Rightarrow> string set \<Rightarrow> frame list \<Rightarrow> bool \<Rightarrow> bool" where
  "end_inv g B start V st found \<longleftrightarrow>
     start \<in> V \<and> ids st \<subseteq> V \<and> V \<subseteq> (fwd g B)\<^sup>* `` {start} \<and>
     (if found then ends_ahead g (fwd g B) start else end_pending g B V st)"

lemma end_inv_found:
  "end_inv g B start V (f # st) found \<Longrightarrow> node_type g (fr_id f) = Some NodeTypeEndEvent \<or> found \<Longrightarrow>
     end_inv g B start V st True"
  by (auto simp: end_inv_def ends_ahead_def split: if_splits)

lemma end_pending_enter:
  "end_pending g B V (f # st) \<Longrightarrow> node_type g (fr_id f) \<noteq> Some NodeTypeEndEvent \<Longrightarrow>
     end_pending g B V (f\<lparr>fr_entered := True\<rparr> # st)"
  by (auto simp: end_pending_def)

lemma end_pending_exit:
  assumes "end_pending g B V (f # st)" and "fr_entered f" and "length (out g (fr_id f)) \<le> fr_next f"
  shows "end_pending g B V st"
proof -
  have "edges_in g B V (fr_id f)"
    using assms(1,3) by (auto simp: end_pending_def edges_in_def fwd_iff)
  with assms(1,2) show ?thesis unfolding end_pending_def by auto
qed

lemma end_pending_skip:
  assumes "end_pending g B V (f # st)" and "fr_entered f" and "fr_next f < length (out g (fr_id f))"
    and "(fr_id f, out g (fr_id f) ! fr_next f) \<in> B \<or> out g (fr_id f) ! fr_next f \<in> V"
  shows "end_pending g B V (f\<lparr>fr_next := Suc (fr_next f)\<rparr> # st)"
  using assms by (auto simp: end_pending_def take_next)

lemma end_pending_descend:
  assumes "end_pending g B V (f # st)" and "fr_entered f" and "fr_next f < length (out g (fr_id f))"
    and "m = out g (fr_id f) ! fr_next f"
  shows "end_pending g B (insert m V) (new_frame m # f\<lparr>fr_next := Suc (fr_next f)\<rparr> # st)"
  using assms by (auto simp: end_pending_def take_next edges_in_insert)

interpretation end_search: dfs_client g "end_visitor g B" "end_inv g B start" for g B start
proof (unfold_locales, goal_cases)
  case (1 V f st s s')
  then show ?case using end_inv_found [of g B start V f st s] by (auto simp: end_visitor_def Let_def)
next
  case (2 V f st s s')
  then show ?case
    using end_pending_enter [of g B V f st] by (auto simp: end_visitor_def Let_def end_inv_def)
next
  case (3 V f st s)
  then show ?case using end_pending_exit [of g B V f st] by (auto simp: end_visitor_def end_inv_def)
next
  case (4 V f st s s' d m)
  then have "s' = s" and m: "\<not> s \<Longrightarrow> (fr_id f, m) \<in> B \<or> m \<in> V" by (auto simp: end_visitor_def)
  with 4 end_pending_skip [of g B V f st] show ?case by (auto simp: end_inv_def)
next
  case (5 V f st s s' m)
  then have s: "\<not> s" "s' = s" and "(fr_id f, m) \<in> fwd g B" by (auto simp: end_visitor_def fwd_iff)
  moreover from 5 have "(start, fr_id f) \<in> (fwd g B)\<^sup>*" by (auto simp: end_inv_def)
  ultimately have "(start, m) \<in> (fwd g B)\<^sup>*" by (meson rtrancl_into_rtrancl)
  with 5 s end_pending_descend [of g B V f st m] show ?case by (auto simp: end_inv_def)
qed

lemma reachesEndEvent_iff: "reachesEndEvent start g B \<longleftrightarrow> ends_ahead g (fwd g B) start"
proof -
  have "end_inv g B start {start} [new_frame start] False" by (auto simp: end_inv_def end_pending_def)
  from end_search.search_keeps [OF this] obtain V
    where V: "end_inv g B start V [] (reachesEndEvent start g B)" by (auto simp: reachesEndEvent_def)
  show ?thesis
  proof
    assume "ends_ahead g (fwd g B) start"
    then obtain e where e: "(start, e) \<in> (fwd g B)\<^sup>*" "node_type g e = Some NodeTypeEndEvent"
      by (auto simp: ends_ahead_def)
    show "reachesEndEvent start g B"
    proof (rule ccontr)
      assume "\<not> reachesEndEvent start g B"
      with V have "start \<in> V" and closed: "fwd g B `` V \<subseteq> V"
        and none: "e \<in> V \<Longrightarrow> node_type g e \<noteq> Some NodeTypeEndEvent"
        by (auto simp: end_inv_def end_pending_def edges_in_def)
      from e(1) have "e \<in> V"
        by (induction rule: rtrancl_induct) (use \<open>start \<in> V\<close> closed in blast)+
      with none e(2) show False by simp
    qed
  qed (use V in \<open>simp add: end_inv_def\<close>)
qed

text \<open>The nodes that the walk of \<open>NewJoins\<close> meets: those with outgoing flows and what they lead to.\<close>

definition flow_nodes :: "Graph \<Rightarrow> edges \<Rightarrow> string set" where
  "flow_nodes g B = (fwd g B)\<^sup>* `` set (mkeys (g_Outgoing g))"

definition joins_spec :: "Graph \<Rightarrow> edges \<Rightarrow> Joins \<Rightarrow> forwardWalk \<Rightarrow> (string, nat) gomap \<Rightarrow> bool" where
  "joins_spec g B j w D \<longleftrightarrow>
     walked g B (set (mkeys (g_Outgoing g))) w \<and> set (fw_order w) = flow_nodes g B \<and>
     j_g j = g \<and> j_backEdges j = B \<and> j_cyclic j = fw_cyclic w \<and>
     forest (flow_nodes g B - fw_cyclic w) (j_ipdom j) D \<and>
     (\<forall>n \<in> flow_nodes g B - fw_cyclic w.
        chain (j_ipdom j) n = pdom (fwd g B) n \<and>
        mget_or False (j_reachesEnd j) n = ends_ahead g (fwd g B) n)"

lemma NewJoins_walk:
  assumes "named g" and "[] \<notin> set (mkeys (g_Outgoing g))"
  shows "\<exists>j w D. NewJoins g B = Some j \<and> joins_spec g B j w D"
proof -
  let ?keys = "mkeys (g_Outgoing g)" and ?E = "fwd g B"
  define w where "w = walk_all g B newForwardWalk"
  let ?ns = "filter (\<lambda>n. n \<notin> fw_cyclic w) (fw_order w)"
  have "w = walk_roots g B (sort ?keys) newForwardWalk" by (simp add: w_def walk_all_def walk_roots_def)
  with walk_roots_inv [OF walked_new [of g B "set ?keys"], of "sort ?keys"]
  have w: "walked g B (set ?keys) w" and keys: "set ?keys \<subseteq> set (fw_order w)" by auto
  have order: "set (fw_order w) = flow_nodes g B"
  proof
    show "set (fw_order w) \<subseteq> flow_nodes g B"
      using w by (simp add: walked_def walk_inv_def seen_def flow_nodes_def)
    have ok: "order_ok ?E w" using w by (simp add: walked_def walk_inv_def)
    have "Domain ?E \<subseteq> set (fw_order w)"
    proof
      fix n
      assume "n \<in> Domain ?E"
      then have "n \<in> set ?keys" by (auto simp only: fwd_iff Domain_iff out_source)
      with keys show "n \<in> set (fw_order w)" by blast
    qed
    with ok order_closed [OF ok] have "?E `` set (fw_order w) \<subseteq> set (fw_order w)"
      unfolding order_ok_def by blast
    then have "?E\<^sup>* `` set (fw_order w) = set (fw_order w)" by (rule Image_closed_trancl)
    then show "flow_nodes g B \<subseteq> set (fw_order w)"
      unfolding flow_nodes_def using Image_mono [OF order_refl keys, of "?E\<^sup>*"] by simp
  qed
  have names: "[] \<notin> set ?ns" using walked_named [OF w] assms by auto
  define j0 where "j0 = \<lparr>j_g = g, j_backEdges = B, j_cyclic = fw_cyclic w, j_ipdom = [], j_reachesEnd = []\<rparr>"
  from pd_index_chain [OF walked_topo(1) [OF w] forest_empty names walked_topo(2) [OF w]]
  obtain P D where P: "pd_index (fw_successors w) ?ns [] [([], 0)] = Some P"
    and PD: "forest (set ?ns) P D" "\<And>n. n \<in> set ?ns \<Longrightarrow> chain P n = pdom ?E n" by auto
  with joins_index_pd_index [of "fw_successors w" "fw_order w" "[([], 0)]" j0] obtain j
    where j: "joins_index (fw_successors w) (fw_order w) [([], 0)] j0 = Some j" and ip: "j_ipdom j = P"
    by (auto simp: j0_def)
  from joins_index_fixed [OF j] have fixed: "j_g j = g" "j_backEdges j = B" "j_cyclic j = fw_cyclic w"
    by (simp_all add: j0_def)
  have ends: "mget_or False (j_reachesEnd j) n = ends_ahead g ?E n" if "n \<in> flow_nodes g B - fw_cyclic w" for n
    using joins_index_ends [OF j, of "{}" ?E n] walked_topo [OF w] that by (auto simp: j0_def order)
  have ns: "set ?ns = flow_nodes g B - fw_cyclic w" by (auto simp: order)
  have "NewJoins g B = Some j" using j by (simp add: NewJoins_def Let_def j0_def w_def)
  moreover have "joins_spec g B j w D"
    unfolding joins_spec_def using w order fixed PD ip ends ns by simp
  ultimately show ?thesis by blast
qed

lemma flow_nodes_source:
  assumes "(n, m) \<in> fwd g B"
  shows "n \<in> flow_nodes g B"
proof -
  from assms have "n \<in> set (mkeys (g_Outgoing g))" by (auto simp only: fwd_iff out_source)
  then show ?thesis unfolding flow_nodes_def by blast
qed

lemma NewJoins_returns:
  "named g \<Longrightarrow> [] \<notin> set (mkeys (g_Outgoing g)) \<Longrightarrow> \<exists>j. NewJoins g B = Some j"
  using NewJoins_walk [of g B] by blast

lemma NewJoins_Some:
  "named g \<Longrightarrow> [] \<notin> set (mkeys (g_Outgoing g)) \<Longrightarrow> NewJoins g B = Some j \<Longrightarrow> \<exists>w D. joins_spec g B j w D"
  using NewJoins_walk [of g B] by auto

lemma ReachesUnbrokenCycle_iff:
  assumes "named g" and "[] \<notin> set (mkeys (g_Outgoing g))" and "NewJoins g B = Some j"
  shows "ReachesUnbrokenCycle j n \<longleftrightarrow> \<not> acyclic_from (fwd g B) {n}"
proof -
  obtain w where w: "walked g B (set (mkeys (g_Outgoing g))) w"
    and order: "set (fw_order w) = flow_nodes g B" and cyc: "j_cyclic j = fw_cyclic w"
    using NewJoins_Some [OF assms(1-3)] unfolding joins_spec_def by blast
  show ?thesis
  proof (cases "n \<in> flow_nodes g B")
    case True
    with walked_cyclic_iff [OF w] order cyc show ?thesis by (simp add: ReachesUnbrokenCycle_def)
  next
    case False
    then have none: "(n, m) \<notin> fwd g B" for m using flow_nodes_source by blast
    then have "acyclic_from (fwd g B) {n}"
      unfolding acyclic_from_def by (metis Image_singleton_iff converse_rtranclE tranclD)
    moreover from w order False have "n \<notin> fw_cyclic w" by (auto simp: walked_def walk_inv_def seen_def)
    ultimately show ?thesis by (simp add: ReachesUnbrokenCycle_def cyc)
  qed
qed

lemma Joins_Find_eq:
  assumes "named g" and "[] \<notin> set (mkeys (g_Outgoing g))" and "NewJoins g B = Some j"
  shows "Joins_Find j n = FindJoin n g B"
proof -
  from NewJoins_Some [OF assms(1-3)] obtain w D where "joins_spec g B j w D" by blast
  then have order: "set (fw_order w) = flow_nodes g B"
    and fixed: "j_g j = g" "j_backEdges j = B" "j_cyclic j = fw_cyclic w"
    and forest: "forest (flow_nodes g B - fw_cyclic w) (j_ipdom j) D"
    and chains: "\<And>m. m \<in> flow_nodes g B - fw_cyclic w \<Longrightarrow> chain (j_ipdom j) m = pdom (fwd g B) m"
    by (simp_all add: joins_spec_def)
  show ?thesis
  proof (cases "n \<in> fw_cyclic w \<or> forwardCount n g B < 2")
    case True
    then show ?thesis by (auto simp: Joins_Find_def fixed FindJoin_def)
  next
    case False
    then obtain m where "(n, m) \<in> fwd g B" using forwardCount_0_iff [of n g B] by auto
    from flow_nodes_source [OF this] False have n: "n \<in> flow_nodes g B - fw_cyclic w" by simp
    with forest have "n \<noteq> []" by (auto simp: forest_def)
    moreover from False ReachesUnbrokenCycle_iff [OF assms, of n] have acyc: "acyclic_from (fwd g B) {n}"
      by (simp add: ReachesUnbrokenCycle_def fixed)
    ultimately obtain k where k: "immediatePostDominator n g B = Some k" "ipdom_of (fwd g B) n k"
      using immediatePostDominator_returns [OF assms(1)] by metis
    have "ipdom_of (fwd g B) n (mget_or [] (j_ipdom j) n)" by (rule forest_ipdom [OF forest n chains])
    with k(2) have "k = mget_or [] (j_ipdom j) n" by (metis ipdom_of_join)
    with k(1) False show ?thesis by (simp add: Joins_Find_def FindJoin_def fixed Let_def)
  qed
qed

lemma ReachesEndEvent_iff:
  assumes "named g" and "[] \<notin> set (mkeys (g_Outgoing g))" and "NewJoins g B = Some j"
    and "n \<in> flow_nodes g B"
  shows "ReachesEndEvent j n \<longleftrightarrow> ends_ahead g (fwd g B) n"
proof -
  from NewJoins_Some [OF assms(1-3)] obtain w D where "joins_spec g B j w D" by blast
  then have "j_g j = g" "j_backEdges j = B" "j_cyclic j = fw_cyclic w"
    and "m \<in> flow_nodes g B - fw_cyclic w \<Longrightarrow> mget_or False (j_reachesEnd j) m = ends_ahead g (fwd g B) m"
    for m by (simp_all add: joins_spec_def)
  with assms(4) show ?thesis by (simp add: ReachesEndEvent_def reachesEndEvent_iff)
qed

end
