(* ===== verification/Validate_Structure.thy ===== *)
theory Validate_Structure
  imports Bpmn_Join_Correct Bpmn_Call
begin

text \<open>
  The structural validators of \<open>internal/bpmn_compiler/validator\<close>: \<open>process.go\<close>, \<open>duplicate_ids.go\<close>,
  \<open>single_outgoing.go\<close>, \<open>gateway_matching.go\<close> and the revert targets of \<open>loops.go\<close>.  A loop whose body
  only appends errors is a \<open>concat\<close> of its rounds.  \<open>strings.ToLower\<close> needs Unicode's case tables and
  \<open>dsl.CallScopeSeparator\<close> is a constant of another module: both are parameters.
\<close>

abbreviation err_of :: "BPMNErrorCode \<Rightarrow> string \<Rightarrow> BPMNValidationError" where
  "err_of c n \<equiv> \<lparr>be_Code = c, be_NodeID = n, be_Severity = SeverityError\<rparr>"

definition maxUserTasks :: nat where "maxUserTasks = 1000"
definition maxLanes :: nat where "maxLanes = 100"
definition maxCondExpr :: nat where "maxCondExpr = 4096"

subsection \<open>process.go\<close>

definition ValidateCounts :: "BPMNProcess \<Rightarrow> string \<Rightarrow> BPMNValidationError list" where
  "ValidateCounts proc implicitStart =
     (let errs = [];
          errs = (if proc_StartEvents proc = []
                  then (if implicitStart = [] then AppendErr errs BPMNErrNoStartEvent [] else errs)
                  else fold (\<lambda>e errs. AppendErr errs BPMNErrMultipleStartEvents (ev_ID e)) (tl (proc_StartEvents proc)) errs);
          errs = (if proc_EndEvents proc = [] \<and> implicitStart = [] then AppendErr errs BPMNErrNoEndEvent [] else errs);
          errs = (if maxUserTasks < length (proc_UserTasks proc) then AppendErr errs BPMNErrTaskLimitExceeded [] else errs)
      in if maxLanes < length (proc_LaneSet proc) then AppendErr errs BPMNErrLaneLimitExceeded [] else errs)"

definition SegmentSeparator :: string where "SegmentSeparator = ''~''"

fun lane_name_errs :: "string \<Rightarrow> (string \<Rightarrow> string) \<Rightarrow> BPMNLane list \<Rightarrow> string set \<Rightarrow> BPMNValidationError list" where
  "lane_name_errs callSep ToLower [] used = []"
| "lane_name_errs callSep ToLower (lane # lanes) used =
     (let name = lane_Name lane;
          reserved = (if Contains name ''/'' \<or> Contains name callSep \<or> Contains name SegmentSeparator
                      then [err_of BPMNErrInvalidLaneName (lane_ID lane)] else []);
          key = ToLower (TrimSpace name)
      in reserved @
         (if key = [] then
            (if lane_FlowNodeRefs lane \<noteq> [] then [err_of BPMNErrInvalidLaneName (lane_ID lane)] else []) @
            lane_name_errs callSep ToLower lanes used
          else if key \<in> used then
            err_of BPMNErrInvalidLaneName (lane_ID lane) # lane_name_errs callSep ToLower lanes used
          else lane_name_errs callSep ToLower lanes (insert key used)))"

definition ValidateLaneNames :: "string \<Rightarrow> (string \<Rightarrow> string) \<Rightarrow> BPMNProcess \<Rightarrow> BPMNValidationError list" where
  "ValidateLaneNames callSep ToLower proc = lane_name_errs callSep ToLower (proc_LaneSet proc) {}"

definition ValidateNoNestedSubProcess :: "BPMNProcess \<Rightarrow> BPMNValidationError list" where
  "ValidateNoNestedSubProcess proc =
     concat (map (\<lambda>sp.
       map (\<lambda>nested. err_of BPMNErrNestedSubProcessNotSupported (sp_ID nested)) (sp_SubProcesses sp) @
       map (\<lambda>call. err_of BPMNErrUnsupportedElement (ca_ID call)) (sp_CallActivities sp))
       (proc_SubProcesses proc))"

definition ValidateSeqFlowRefs :: "BPMNProcess \<Rightarrow> Graph \<Rightarrow> BPMNValidationError list" where
  "ValidateSeqFlowRefs proc g =
     concat (map (\<lambda>sf.
       (if sf_SourceRef sf \<notin> node_ids g then [err_of BPMNErrInvalidSequenceFlowRef (sf_ID sf)] else []) @
       (if sf_TargetRef sf \<notin> node_ids g then [err_of BPMNErrInvalidSequenceFlowRef (sf_ID sf)] else []))
       (proc_SequenceFlows proc))"

definition checkDanglingWithImplicit :: "string \<Rightarrow> Graph \<Rightarrow> string \<Rightarrow> BPMNValidationError list" where
  "checkDanglingWithImplicit nid g implicitStart =
     (if nid \<noteq> implicitStart \<and> inc g nid = [] then [err_of BPMNErrDanglingNode nid] else []) @
     (if out g nid = [] then [err_of BPMNErrDanglingNode nid] else [])"

definition CheckDangling :: "string \<Rightarrow> Graph \<Rightarrow> BPMNValidationError list" where
  "CheckDangling nid g = checkDanglingWithImplicit nid g []"

definition checkEventDangling :: "BPMNProcess \<Rightarrow> Graph \<Rightarrow> BPMNValidationError list" where
  "checkEventDangling proc g =
     concat (map (\<lambda>e. if out g (ev_ID e) = [] then [err_of BPMNErrDanglingNode (ev_ID e)] else []) (proc_StartEvents proc)) @
     concat (map (\<lambda>e. if inc g (ev_ID e) = [] then [err_of BPMNErrDanglingNode (ev_ID e)] else []) (proc_EndEvents proc)) @
     concat (map (\<lambda>be. if out g (bnd_ID be) = [] \<and> bnd_Message be = None
                        then [err_of BPMNErrDanglingNode (bnd_ID be)] else []) (proc_BoundaryEvents proc))"

definition ValidateDanglingNodes :: "BPMNProcess \<Rightarrow> Graph \<Rightarrow> string \<Rightarrow> BPMNValidationError list" where
  "ValidateDanglingNodes proc g implicitStart =
     concat (map (\<lambda>t. checkDanglingWithImplicit (ut_ID t) g implicitStart) (proc_UserTasks proc)) @
     concat (map (\<lambda>t. checkDanglingWithImplicit (st_ID t) g implicitStart) (proc_SendTasks proc)) @
     concat (map (\<lambda>t. checkDanglingWithImplicit (rt_ID t) g implicitStart) (proc_ReceiveTasks proc)) @
     concat (map (\<lambda>gw. CheckDangling (gw_ID gw) g) (proc_ParallelGateways proc)) @
     concat (map (\<lambda>gw. CheckDangling (gw_ID gw) g) (proc_ExclusiveGateways proc)) @
     concat (map (\<lambda>gw. CheckDangling (gw_ID gw) g) (proc_InclusiveGateways proc)) @
     concat (map (\<lambda>sp. checkDanglingWithImplicit (sp_ID sp) g implicitStart) (proc_SubProcesses proc)) @
     concat (map (\<lambda>ca. checkDanglingWithImplicit (ca_ID ca) g implicitStart) (proc_CallActivities proc)) @
     checkEventDangling proc g"

subsection \<open>duplicate_ids.go\<close>

text \<open>\<open>noteScope\<close> calls \<open>note\<close> on the identifiers of a scope, one kind after the other, then on each
  sub-process and its scope: the sequence of identifiers noted.\<close>

primrec sub_ids :: "BPMNSubProcess \<Rightarrow> string list" where
  "sub_ids (BPMNSubProcess sid nm ext lanes uts gts svts sts rts starts ends pgs egs igs sfs bes subs cas) =
     sid # map ev_ID starts @ map ev_ID ends @ map ut_ID uts @ map ut_ID gts @ map ut_ID svts @
     map st_ID sts @ map rt_ID rts @ map gw_ID pgs @ map gw_ID egs @ map gw_ID igs @ map ca_ID cas @
     map bnd_ID bes @ map sf_ID sfs @ concat (map sub_ids subs)"

definition scope_ids :: "BPMNProcess \<Rightarrow> string list" where
  "scope_ids proc =
     map ev_ID (proc_StartEvents proc) @ map ev_ID (proc_EndEvents proc) @
     map ut_ID (proc_UserTasks proc) @ map ut_ID (proc_GenericTasks proc) @ map ut_ID (proc_ServiceTasks proc) @
     map st_ID (proc_SendTasks proc) @ map rt_ID (proc_ReceiveTasks proc) @
     map gw_ID (proc_ParallelGateways proc) @ map gw_ID (proc_ExclusiveGateways proc) @ map gw_ID (proc_InclusiveGateways proc) @
     map ca_ID (proc_CallActivities proc) @ map bnd_ID (proc_BoundaryEvents proc) @ map sf_ID (proc_SequenceFlows proc) @
     concat (map sub_ids (proc_SubProcesses proc))"

record note_state =
  ns_seen :: "string set"
  ns_reported :: "string set"
  ns_errs :: "BPMNValidationError list"

definition note_id :: "string \<Rightarrow> note_state \<Rightarrow> note_state" where
  "note_id nid s =
     (if nid = [] then s
      else
        let s = (if nid \<in> ns_seen s \<and> nid \<notin> ns_reported s
                 then s\<lparr>ns_reported := insert nid (ns_reported s), ns_errs := AppendErr (ns_errs s) BPMNErrDuplicateElementID nid\<rparr>
                 else s)
        in s\<lparr>ns_seen := insert nid (ns_seen s)\<rparr>)"

definition ValidateDuplicateIDs :: "BPMNProcess \<Rightarrow> BPMNValidationError list" where
  "ValidateDuplicateIDs proc =
     ns_errs (fold note_id (scope_ids proc) \<lparr>ns_seen = {}, ns_reported = {}, ns_errs = []\<rparr>)"

abbreviation note_start :: note_state where
  "note_start \<equiv> \<lparr>ns_seen = {}, ns_reported = {}, ns_errs = []\<rparr>"

lemma note_id_simps:
  "ns_seen (note_id x s) = (if x = [] then ns_seen s else insert x (ns_seen s))"
  "ns_reported (note_id x s) = (if x \<noteq> [] \<and> x \<in> ns_seen s then insert x (ns_reported s) else ns_reported s)"
  "ns_errs (note_id x s) =
     (if x \<noteq> [] \<and> x \<in> ns_seen s \<and> x \<notin> ns_reported s then ns_errs s @ [err_of BPMNErrDuplicateElementID x] else ns_errs s)"
  by (auto simp: note_id_def Let_def AppendErr_def)

lemma note_seen: "ns_seen (fold note_id ns note_start) = {x \<in> set ns. x \<noteq> []}"
  by (induction ns rule: rev_induct) (auto simp: note_id_simps)

lemma count_list_snoc: "count_list (xs @ [y]) x = (if x = y then Suc (count_list xs x) else count_list xs x)"
  by (induction xs) auto

lemma count_list_mem: "x \<in> set xs \<longleftrightarrow> 2 \<le> Suc (count_list xs x)"
  by (induction xs) auto

lemma note_reported: "ns_reported (fold note_id ns note_start) = {x. x \<noteq> [] \<and> 2 \<le> count_list ns x}"
proof (induction ns rule: rev_induct)
  case (snoc y ns)
  have mono: "2 \<le> count_list ns x \<Longrightarrow> 2 \<le> Suc (count_list ns x)" for x by simp
  have "ns_reported (fold note_id (ns @ [y]) note_start) =
      (if y \<noteq> [] \<and> y \<in> set ns then insert y {x. x \<noteq> [] \<and> 2 \<le> count_list ns x} else {x. x \<noteq> [] \<and> 2 \<le> count_list ns x})"
    using snoc.IH by (simp add: note_id_simps note_seen)
  also have "\<dots> = {x. x \<noteq> [] \<and> 2 \<le> count_list (ns @ [y]) x}"
    unfolding count_list_snoc count_list_mem [of y] using mono by (auto split: if_splits)
  finally show ?case .
qed simp

lemma note_errs:
  "be_NodeID ` set (ns_errs (fold note_id ns note_start)) = ns_reported (fold note_id ns note_start) \<and>
   distinct (map be_NodeID (ns_errs (fold note_id ns note_start)))"
  by (induction ns rule: rev_induct) (auto simp: note_id_simps)

text \<open>Each identifier that occurs twice is reported, once.\<close>

lemma ValidateDuplicateIDs_reported:
  "be_NodeID ` set (ValidateDuplicateIDs proc) = {x. x \<noteq> [] \<and> 2 \<le> count_list (scope_ids proc) x}"
  "distinct (map be_NodeID (ValidateDuplicateIDs proc))"
  using note_errs [of "scope_ids proc"] by (simp_all add: ValidateDuplicateIDs_def note_reported)

end
