(* ===== verification/Validate_Flow.thy ===== *)
theory Validate_Flow
  imports Validate_Structure
begin

text \<open>
  The validators on the shape of the flow: \<open>single_outgoing.go\<close>, \<open>gateway_matching.go\<close>, \<open>condition.go\<close> and
  \<open>loops.go\<close> of \<open>internal/bpmn_compiler/validator\<close>, with Tarjan's components of \<open>graph_algorithms.go\<close>.
  What calls \<open>NewJoins\<close> is option-valued like it.  The back edges are a Go map that \<open>loops.go\<close> ranges
  over: it takes them as a list in the order of the iteration.  \<open>dsl.ParseCondition\<close> is a parameter that
  says whether it accepts an expression.
\<close>

fun collect :: "('a \<Rightarrow> 'b list option) \<Rightarrow> 'a list \<Rightarrow> 'b list option" where
  "collect f [] = Some []"
| "collect f (x # xs) = Option.bind (f x) (\<lambda>a. map_option (\<lambda>b. a @ b) (collect f xs))"

lemma collect_Some: "(\<And>x. x \<in> set xs \<Longrightarrow> f x = Some (h x)) \<Longrightarrow> collect f xs = Some (concat (map h xs))"
  by (induction xs) simp_all

subsection \<open>single_outgoing.go\<close>

definition singleOutgoingKind :: "FlowNodeType \<Rightarrow> bool" where
  "singleOutgoingKind k \<longleftrightarrow>
     k \<in> {NodeTypeStartEvent, NodeTypeUserTask, NodeTypeSendTask, NodeTypeReceiveTask, NodeTypeSubProcess, NodeTypeCallActivity}"

text \<open>\<open>forwardOutCount\<close> of \<open>gateway_matching.go\<close> repeats \<open>forwardCount\<close> of \<open>graph.go\<close>.\<close>

definition forwardOutCount :: "string \<Rightarrow> Graph \<Rightarrow> edges \<Rightarrow> nat" where
  "forwardOutCount node g B = length (filter (\<lambda>next. (node, next) \<notin> B) (out g node))"

lemma forwardOutCount_eq: "forwardOutCount = forwardCount"
  by (simp add: fun_eq_iff forwardOutCount_def forwardCount_def)

definition singleOutgoingErrors :: "Graph \<Rightarrow> edges \<Rightarrow> BPMNValidationError list" where
  "singleOutgoingErrors g B =
     (let checked = sort (map fst (filter (\<lambda>(nid, kind). singleOutgoingKind kind \<or> kind = NodeTypeEndEvent) (g_NodeType g)))
      in concat (map (\<lambda>nid.
           if node_type g nid = Some NodeTypeEndEvent then
             (if 0 < forwardOutCount nid g B then [err_of BPMNErrEndEventWithOutgoingFlow nid] else [])
           else if 1 < forwardOutCount nid g B then [err_of BPMNErrSplitWithoutGateway nid] else [])
         checked))"

definition ValidateSingleOutgoing :: "BPMNProcess \<Rightarrow> Graph \<Rightarrow> edges \<Rightarrow> BPMNValidationError list" where
  "ValidateSingleOutgoing proc g B =
     singleOutgoingErrors g B @
     concat (map (\<lambda>sp.
       let body = SubProcToProcess sp;
           bodyGraph = BuildGraph body;
           bodyBackEdges = (case proc_StartEvents body of
                              [] \<Rightarrow> {} | e # _ \<Rightarrow> ProcessBackEdges body bodyGraph (ev_ID e))
       in singleOutgoingErrors bodyGraph bodyBackEdges) (proc_SubProcesses proc))"

subsection \<open>gateway_matching.go\<close>

definition allBranchesTerminate :: "string \<Rightarrow> Graph \<Rightarrow> edges \<Rightarrow> Joins \<Rightarrow> bool" where
  "allBranchesTerminate gwID g B joins \<longleftrightarrow>
     (\<forall>branch \<in> set (out g gwID). (gwID, branch) \<in> B \<or> ReachesEndEvent joins branch)"

definition checkSplitJoin :: "string \<Rightarrow> bool \<Rightarrow> Graph \<Rightarrow> edges \<Rightarrow> Joins \<Rightarrow> BPMNValidationError list option" where
  "checkSplitJoin gwID exclusive g B joins =
     (if forwardOutCount gwID g B \<le> 1 \<or> ReachesUnbrokenCycle joins gwID then Some []
      else Option.bind (Joins_Find joins gwID) (\<lambda>(_, ok).
        if ok then Some []
        else if exclusive \<and> allBranchesTerminate gwID g B joins then Some []
        else Some (AppendErr [] BPMNErrUnmatchedGateway gwID)))"

definition ValidateGatewayMatching :: "BPMNProcess \<Rightarrow> Graph \<Rightarrow> edges \<Rightarrow> BPMNValidationError list option" where
  "ValidateGatewayMatching proc g B =
     Option.bind (NewJoins g B) (\<lambda>joins.
       collect (\<lambda>(gwID, exclusive). checkSplitJoin gwID exclusive g B joins)
         (map (\<lambda>gw. (gw_ID gw, False)) (proc_ParallelGateways proc) @
          map (\<lambda>gw. (gw_ID gw, True)) (proc_ExclusiveGateways proc) @
          map (\<lambda>gw. (gw_ID gw, False)) (proc_InclusiveGateways proc)))"

subsection \<open>condition.go\<close>

definition conditional_edges :: "BPMNProcess \<Rightarrow> edges" where
  "conditional_edges proc =
     set (map (\<lambda>sf. (sf_SourceRef sf, sf_TargetRef sf))
       (filter (\<lambda>sf. sf_ConditionExpression sf \<noteq> []) (proc_SequenceFlows proc)))"

definition validateDefaultFlow :: "BPMNProcess \<Rightarrow> Graph \<Rightarrow> edges \<Rightarrow> BPMNValidationError list" where
  "validateDefaultFlow proc g B =
     (let conditional = conditional_edges proc in
      concat (map (\<lambda>gw.
        let forward = filter (\<lambda>next. (gw_ID gw, next) \<notin> B) (out g (gw_ID gw));
            unconditioned = filter (\<lambda>next. (gw_ID gw, next) \<notin> conditional) forward
        in if 1 < length forward \<and> 1 < length unconditioned
           then AppendWarn [] BPMNWarnGatewayBranchWithoutCondition (gw_ID gw) else [])
        (proc_ExclusiveGateways proc)))"

definition validateInclusiveGatewayConditions :: "BPMNProcess \<Rightarrow> Graph \<Rightarrow> edges \<Rightarrow> BPMNValidationError list" where
  "validateInclusiveGatewayConditions proc g B =
     (let conditional = conditional_edges proc in
      concat (map (\<lambda>gw.
        if forwardOutCount (gw_ID gw) g B < 2 then []
        else if \<exists>next \<in> set (out g (gw_ID gw)). (gw_ID gw, next) \<in> conditional
             then AppendErr [] BPMNErrUnsupportedElement (gw_ID gw) else [])
        (proc_InclusiveGateways proc)))"

definition ValidateConditionExprs :: "(string \<Rightarrow> bool) \<Rightarrow> BPMNProcess \<Rightarrow> Graph \<Rightarrow> edges \<Rightarrow> BPMNValidationError list" where
  "ValidateConditionExprs ParseCondition proc g B =
     validateDefaultFlow proc g B @ validateInclusiveGatewayConditions proc g B @
     concat (map (\<lambda>sf.
       let cond = sf_ConditionExpression sf in
       if length (out g (sf_SourceRef sf)) < 2 \<and> sf_SourceRef sf \<notin> set (map gw_ID (proc_ExclusiveGateways proc)) then []
       else if cond = [] then []
       else if maxCondExpr < length cond then AppendErr [] BPMNErrInvalidConditionExpression (sf_ID sf)
       else if \<not> ParseCondition cond then AppendErr [] BPMNErrInvalidConditionExpression (sf_ID sf) else [])
       (proc_SequenceFlows proc))"

subsection \<open>Strongly connected components\<close>

text \<open>
  \<open>strongconnect\<close> recurses over the graph; the model bounds its depth by fuel, one more than the nodes
  there are (\<open>TarjanSCC_returns\<close>).  The runner's stack has its top first.
\<close>

record sccState =
  scc_index :: nat
  scc_lowlink :: nat
  scc_onStack :: bool

record tarjanRunner =
  tr_nodeStates :: "(string, sccState) gomap"
  tr_stack :: "string list"
  tr_sccs :: "string list list"
  tr_nextIdx :: nat

definition set_lowlink :: "string \<Rightarrow> nat \<Rightarrow> tarjanRunner \<Rightarrow> tarjanRunner" where
  "set_lowlink v l r =
     (case map_of (tr_nodeStates r) v of
        None \<Rightarrow> r
      | Some s \<Rightarrow> r\<lparr>tr_nodeStates := mput v (s\<lparr>scc_lowlink := min l (scc_lowlink s)\<rparr>) (tr_nodeStates r)\<rparr>)"

definition off_stack :: "string list \<Rightarrow> (string, sccState) gomap \<Rightarrow> (string, sccState) gomap" where
  "off_stack ws m = map (\<lambda>(k, s). (k, if k \<in> set ws then s\<lparr>scc_onStack := False\<rparr> else s)) m"

definition pop_scc :: "string \<Rightarrow> tarjanRunner \<Rightarrow> tarjanRunner" where
  "pop_scc v r =
     (let popped = takeWhile (\<lambda>w. w \<noteq> v) (tr_stack r) @ [v]
      in r\<lparr>tr_stack := drop (length popped) (tr_stack r), tr_sccs := tr_sccs r @ [popped],
           tr_nodeStates := off_stack popped (tr_nodeStates r)\<rparr>)"

definition scc_visit :: "(string \<Rightarrow> tarjanRunner \<Rightarrow> tarjanRunner option) \<Rightarrow> string \<Rightarrow> string \<Rightarrow> tarjanRunner
    \<Rightarrow> tarjanRunner option" where
  "scc_visit connect v w r =
     (case map_of (tr_nodeStates r) w of
        None \<Rightarrow> map_option (\<lambda>r. case map_of (tr_nodeStates r) w of
                             None \<Rightarrow> r | Some sw \<Rightarrow> set_lowlink v (scc_lowlink sw) r) (connect w r)
      | Some sw \<Rightarrow> Some (if scc_onStack sw then set_lowlink v (scc_index sw) r else r))"

definition scc_root :: "string \<Rightarrow> tarjanRunner \<Rightarrow> tarjanRunner" where
  "scc_root v r =
     (case map_of (tr_nodeStates r) v of
        None \<Rightarrow> r
      | Some s \<Rightarrow> if scc_lowlink s = scc_index s then pop_scc v r else r)"

primrec strongconnect :: "nat \<Rightarrow> Graph \<Rightarrow> string \<Rightarrow> tarjanRunner \<Rightarrow> tarjanRunner option" where
  "strongconnect 0 g v r = None"
| "strongconnect (Suc n) g v r =
     (let r = r\<lparr>tr_nodeStates := mput v \<lparr>scc_index = tr_nextIdx r, scc_lowlink = tr_nextIdx r, scc_onStack = True\<rparr> (tr_nodeStates r),
                tr_nextIdx := Suc (tr_nextIdx r), tr_stack := v # tr_stack r\<rparr>
      in map_option (scc_root v)
           (foldl (\<lambda>acc w. Option.bind acc (scc_visit (strongconnect n g) v w)) (Some r) (out g v)))"

definition scc_fuel :: "Graph \<Rightarrow> nat" where
  "scc_fuel g = Suc (length (remdups (concat (map snd (g_Outgoing g)))))"

definition TarjanSCC :: "Graph \<Rightarrow> string list list option" where
  "TarjanSCC g =
     map_option tr_sccs
       (foldl (\<lambda>acc nid. Option.bind acc (\<lambda>r.
          if nid \<in> set (mkeys (tr_nodeStates r)) then Some r else strongconnect (scc_fuel g) g nid r))
        (Some \<lparr>tr_nodeStates = [], tr_stack = [], tr_sccs = [], tr_nextIdx = 0\<rparr>) (mkeys (g_NodeIDs g)))"

subsection \<open>loops.go\<close>

abbreviation known :: "tarjanRunner \<Rightarrow> string set" where
  "known r \<equiv> fst ` set (tr_nodeStates r)"

lemma known_set_lowlink [simp]: "known (set_lowlink v l r) = known r"
  by (force simp: set_lowlink_def split: option.splits dest: map_of_SomeD)

lemma known_pop [simp]: "known (pop_scc v r) = known r"
  by (force simp: pop_scc_def Let_def off_stack_def split_beta image_image)

lemma known_root [simp]: "known (scc_root v r) = known r"
  by (simp add: scc_root_def split: option.splits)

lemma strongconnect_returns:
  "card (targets g - insert v (known r)) < n \<Longrightarrow>
     \<exists>r'. strongconnect n g v r = Some r' \<and> insert v (known r) \<subseteq> known r'"
proof (induction n arbitrary: v r)
  case (Suc n)
  define visit where "visit acc w = Option.bind acc (scc_visit (strongconnect n g) v w)" for acc w
  have children: "\<exists>r'. foldl visit (Some r1) ws = Some r' \<and> known r1 \<subseteq> known r'"
    if "set ws \<subseteq> targets g" and "insert v (known r) \<subseteq> known r1" for ws r1
    using that
  proof (induction ws arbitrary: r1)
    case (Cons w ws)
    show ?case
    proof (cases "map_of (tr_nodeStates r1) w")
      case None
      then have new: "w \<notin> known r1" by (simp add: map_of_eq_None_iff)
      have "card (targets g - insert w (known r1)) < card (targets g - insert v (known r))"
      proof (rule psubset_card_mono)
        have "w \<in> targets g - insert v (known r)" using Cons.prems new by auto
        then show "targets g - insert w (known r1) \<subset> targets g - insert v (known r)"
          using Cons.prems(2) by blast
      qed simp
      with Suc.prems have "card (targets g - insert w (known r1)) < n" by simp
      from Suc.IH [OF this] obtain r2 where r2: "strongconnect n g w r1 = Some r2" "insert w (known r1) \<subseteq> known r2"
        by blast
      define r3 where "r3 = (case map_of (tr_nodeStates r2) w of
          None \<Rightarrow> r2 | Some sw \<Rightarrow> set_lowlink v (scc_lowlink sw) r2)"
      have known3: "known r3 = known r2" by (simp add: r3_def split: option.splits)
      have here: "visit (Some r1) w = Some r3" using None r2 by (simp add: visit_def scc_visit_def r3_def)
      have ws: "set ws \<subseteq> targets g" using Cons.prems(1) by simp
      have r13: "known r1 \<subseteq> known r3" using r2(2) known3 by simp
      from Cons.IH [OF ws order_trans [OF Cons.prems(2) r13]]
      obtain r' where r': "foldl visit (Some r3) ws = Some r'" "known r3 \<subseteq> known r'" by (elim exE conjE)
      from here r'(1) order_trans [OF r13 r'(2)] show ?thesis by (simp only: foldl.simps) simp
    next
      case (Some sw)
      define r3 where "r3 = (if scc_onStack sw then set_lowlink v (scc_index sw) r1 else r1)"
      have "visit (Some r1) w = Some r3" and known3: "known r3 = known r1"
        using Some by (simp_all add: visit_def scc_visit_def r3_def)
      with Cons.IH [of r3] Cons.prems show ?thesis by auto
    qed
  qed auto
  let ?r = "r\<lparr>tr_nodeStates := mput v \<lparr>scc_index = tr_nextIdx r, scc_lowlink = tr_nextIdx r, scc_onStack = True\<rparr> (tr_nodeStates r),
      tr_nextIdx := Suc (tr_nextIdx r), tr_stack := v # tr_stack r\<rparr>"
  have "set (out g v) \<subseteq> targets g" by (auto intro: out_targets)
  from children [OF this, of ?r] obtain r' where r': "foldl visit (Some ?r) (out g v) = Some r'" "known ?r \<subseteq> known r'"
    by auto
  from r'(1) have "strongconnect (Suc n) g v r = Some (scc_root v r')"
    unfolding strongconnect.simps Let_def visit_def by simp
  moreover have "insert v (known r) \<subseteq> known (scc_root v r')" using r'(2) by simp
  ultimately show ?case by blast
qed simp

lemma TarjanSCC_returns: "\<exists>sccs. TarjanSCC g = Some sccs"
proof -
  have "card (targets g - insert v K) < scc_fuel g" for v K
  proof -
    have "card (targets g - insert v K) \<le> card (targets g)" by (intro card_mono) auto
    also have "card (targets g) = length (remdups (concat (map snd (g_Outgoing g))))"
      by (simp add: targets_def length_remdups_card_conv)
    finally show ?thesis by (simp add: scc_fuel_def)
  qed
  then have some: "\<exists>r'. strongconnect (scc_fuel g) g v r = Some r'" for v r
    using strongconnect_returns by blast
  have "\<exists>r'. foldl (\<lambda>acc nid. Option.bind acc (\<lambda>r.
          if nid \<in> set (mkeys (tr_nodeStates r)) then Some r else strongconnect (scc_fuel g) g nid r)) (Some r) ns = Some r'"
    for r ns
  proof (induction ns arbitrary: r)
    case (Cons a ns)
    with some [of a r] show ?case by (cases "a \<in> known r") auto
  qed simp
  then show ?thesis by (auto simp: TarjanSCC_def)
qed

definition canExitSCCViaOutgoingEdge :: "FlowNodeType option \<Rightarrow> bool" where
  "canExitSCCViaOutgoingEdge t \<longleftrightarrow>
     t \<in> {Some NodeTypeExclusiveGateway, Some NodeTypeInclusiveGateway, Some NodeTypeParallelGateway, Some NodeTypeReceiveTask}"

definition sccHasGuardedExit :: "string list \<Rightarrow> Graph \<Rightarrow> bool" where
  "sccHasGuardedExit scc g \<longleftrightarrow>
     (\<exists>n \<in> set scc. canExitSCCViaOutgoingEdge (node_type g n) \<and> (\<exists>next \<in> set (out g n). next \<notin> set scc))"

fun Join_with :: "string \<Rightarrow> string list \<Rightarrow> string" where
  "Join_with sep [] = []"
| "Join_with sep [x] = x"
| "Join_with sep (x # y # xs) = x @ sep @ Join_with sep (y # xs)"

definition ValidateLoops :: "Graph \<Rightarrow> (string \<times> string) list \<Rightarrow> BPMNValidationError list option" where
  "ValidateLoops g backEdges =
     map_option (\<lambda>sccs.
       concat (map (\<lambda>(src, dst).
         if src = dst then AppendErr [] BPMNErrUnguardedLoop src
         else if node_type g src \<noteq> Some NodeTypeExclusiveGateway then AppendErr [] BPMNErrUnguardedLoop src
         else if \<not> snd (FirstForward src g (set backEdges)) then AppendErr [] BPMNErrUnguardedLoop src else []) backEdges) @
       concat (map (\<lambda>scc.
         if length scc \<le> 1 then []
         else if \<not> sccHasGuardedExit scc g then AppendErr [] BPMNErrCycleDetected (Join_with '','' scc) else []) sccs))
     (TarjanSCC g)"

text \<open>The nodes where a loop back ends up: the first one, going forward, that runs work.\<close>

lemma FirstForward_target: "FirstForward n g B = (m, True) \<Longrightarrow> m \<in> targets g"
  by (auto dest!: FirstForward_Some simp: fwd_iff intro: out_targets)

lemma visit_decreases:
  assumes "m \<in> targets g" and "c \<notin> V"
  shows "card (insert m (targets g) - insert c V) < card (insert c (targets g) - V)"
  using assms by (intro psubset_card_mono) auto

definition runs_work :: "FlowNodeType option \<Rightarrow> bool" where
  "runs_work t \<longleftrightarrow>
     t \<in> {Some NodeTypeUserTask, Some NodeTypeSendTask, Some NodeTypeReceiveTask, Some NodeTypeSubProcess, Some NodeTypeCallActivity}"

function revert_walk :: "Graph \<Rightarrow> edges \<Rightarrow> string set \<Rightarrow> string \<Rightarrow> string set \<Rightarrow> string" where
  "revert_walk g B skipped cur visited =
     (if cur = [] \<or> cur \<in> visited then []
      else if cur \<notin> skipped \<and> runs_work (node_type g cur) then cur
      else case FirstForward cur g B of
             (next, True) \<Rightarrow> revert_walk g B skipped next (insert cur visited)
           | (next, False) \<Rightarrow> [])"
  by pat_completeness auto
termination
  by (relation "measure (\<lambda>(g, B, skipped, cur, V). card (insert cur (targets g) - V))")
     (auto intro!: visit_decreases FirstForward_target)

declare revert_walk.simps [simp del]

definition revertTarget :: "string \<Rightarrow> Graph \<Rightarrow> edges \<Rightarrow> string set \<Rightarrow> string" where
  "revertTarget node g B skipped = revert_walk g B skipped node {}"

definition ValidateRevertTargets :: "BPMNProcess \<Rightarrow> Graph \<Rightarrow> (string \<times> string) list \<Rightarrow> BPMNValidationError list" where
  "ValidateRevertTargets proc g backEdges =
     (let skipped = SkippedTasks proc g in
      concat (map (\<lambda>(src, dst).
        if node_type g src \<noteq> Some NodeTypeExclusiveGateway then []
        else if node_type g (revertTarget dst g (set backEdges) skipped) \<in> {Some NodeTypeSubProcess, Some NodeTypeCallActivity}
             then AppendErr [] BPMNErrUnsupportedRevertTarget src else []) backEdges))"

subsection \<open>What gateway matching reports\<close>

text \<open>A split without a join: several branches, no cycle ahead, no common post-dominator, and, for an
  exclusive gateway, a branch that no end event ends.\<close>

definition unmatched_split :: "Graph \<Rightarrow> edges \<Rightarrow> string \<Rightarrow> bool \<Rightarrow> bool" where
  "unmatched_split g B gw exclusive \<longleftrightarrow>
     2 \<le> forwardCount gw g B \<and> acyclic_from (fwd g B) {gw} \<and> (\<nexists>j. is_join (fwd g B) gw j) \<and>
     \<not> (exclusive \<and> (\<forall>b. (gw, b) \<in> fwd g B \<longrightarrow> ends_ahead g (fwd g B) b))"

lemma checkSplitJoin_correct:
  assumes g: "named g" "[] \<notin> set (mkeys (g_Outgoing g))" "NewJoins g B = Some j"
  shows "checkSplitJoin gw ex g B j = Some (if unmatched_split g B gw ex then [err_of BPMNErrUnmatchedGateway gw] else [])"
proof (cases "2 \<le> forwardCount gw g B \<and> acyclic_from (fwd g B) {gw}")
  case True
  then obtain m where m: "(gw, m) \<in> fwd g B" using forwardCount_0_iff [of gw g B] by auto
  then have "gw \<in> set (mkeys (g_Outgoing g))" by (auto simp only: fwd_iff out_source)
  with g(2) have name: "gw \<noteq> []" by blast
  from FindJoin_returns [OF g(1) name] obtain r where "FindJoin gw g B = Some r" by blast
  then obtain k ok where k: "FindJoin gw g B = Some (k, ok)" by (cases r) auto
  have "ok \<longleftrightarrow> (\<exists>j. is_join (fwd g B) gw j)"
  proof -
    have "(k = j \<and> ok) \<longleftrightarrow> is_join (fwd g B) gw j" for j
      using FindJoin_join [OF g(1) name, of B j] True k by auto
    then show ?thesis by blast
  qed
  moreover have "b \<in> flow_nodes g B" if "(gw, b) \<in> fwd g B" for b
    using that \<open>gw \<in> set (mkeys (g_Outgoing g))\<close> unfolding flow_nodes_def by blast
  then have "allBranchesTerminate gw g B j \<longleftrightarrow> (\<forall>b. (gw, b) \<in> fwd g B \<longrightarrow> ends_ahead g (fwd g B) b)"
    using ReachesEndEvent_iff [OF g] by (auto simp: allBranchesTerminate_def fwd_iff)
  ultimately show ?thesis
    using True k Joins_Find_eq [OF g, of gw] ReachesUnbrokenCycle_iff [OF g, of gw]
    by (auto simp: checkSplitJoin_def unmatched_split_def forwardOutCount_eq)
next
  case False
  then show ?thesis
    using ReachesUnbrokenCycle_iff [OF g, of gw]
    by (auto simp: checkSplitJoin_def unmatched_split_def forwardOutCount_eq)
qed

lemma ValidateGatewayMatching_correct:
  assumes "named g" and "[] \<notin> set (mkeys (g_Outgoing g))"
  shows "\<exists>errs. ValidateGatewayMatching proc g B = Some errs \<and>
    be_NodeID ` set errs =
      {gw \<in> gw_ID ` set (proc_ExclusiveGateways proc). unmatched_split g B gw True} \<union>
      {gw \<in> gw_ID ` (set (proc_ParallelGateways proc) \<union> set (proc_InclusiveGateways proc)). unmatched_split g B gw False}"
proof -
  let ?gws = "map (\<lambda>gw. (gw_ID gw, False)) (proc_ParallelGateways proc) @
          map (\<lambda>gw. (gw_ID gw, True)) (proc_ExclusiveGateways proc) @
          map (\<lambda>gw. (gw_ID gw, False)) (proc_InclusiveGateways proc)"
  let ?h = "\<lambda>(gw, ex). if unmatched_split g B gw ex then [err_of BPMNErrUnmatchedGateway gw] else []"
  from NewJoins_returns [OF assms] obtain j where j: "NewJoins g B = Some j" by blast
  have "ValidateGatewayMatching proc g B = Some (concat (map ?h ?gws))"
    unfolding ValidateGatewayMatching_def j Option.bind.simps
    by (rule collect_Some) (use checkSplitJoin_correct [OF assms j] in auto)
  moreover have "be_NodeID ` set (concat (map ?h gws)) = {gw. \<exists>ex. (gw, ex) \<in> set gws \<and> unmatched_split g B gw ex}" for gws
    by (induction gws) (auto simp: image_Un split: if_splits)
  then have "be_NodeID ` set (concat (map ?h ?gws)) =
      {gw \<in> gw_ID ` set (proc_ExclusiveGateways proc). unmatched_split g B gw True} \<union>
      {gw \<in> gw_ID ` (set (proc_ParallelGateways proc) \<union> set (proc_InclusiveGateways proc)). unmatched_split g B gw False}"
    by (simp only: set_append set_map) auto
  ultimately show ?thesis by blast
qed

end
