(* ===== verification/Plan_State.thy ===== *)
theory Plan_State
  imports Plan_Stages Validate_Flow
begin

text \<open>
  The state of the plan compiler, \<open>bpmncore/state.go\<close>, and the operations of \<open>bpmncore/traverse.go\<close> that do not
  traverse.  A \<open>CompileState\<close> points to a store of departments, to the called plans and to a flag that other states
  share: the model copies them into a child state and copies them back from it (\<open>absorb\<close>).  What never changes during
  a compilation is the environment.  A compilation gives \<open>None\<close> when it does not return, \<open>Inl\<close> an error or \<open>Inr\<close> its result.
\<close>

subsection \<open>Compilations\<close>

text \<open>\<open>CompilePanic\<close> is the run-time panic of a slice index out of range.\<close>

datatype compile_error = ErrStageBudget | CompileFailed | CompilePanic

type_synonym 'a compiled = "(compile_error + 'a) option"

abbreviation retT :: "'a \<Rightarrow> 'a compiled" where "retT a \<equiv> Some (Inr a)"
abbreviation failT :: "compile_error \<Rightarrow> 'a compiled" where "failT e \<equiv> Some (Inl e)"

definition bindT :: "'a compiled \<Rightarrow> ('a \<Rightarrow> 'b compiled) \<Rightarrow> 'b compiled" where
  "bindT r f = (case r of None \<Rightarrow> None | Some (Inl e) \<Rightarrow> failT e | Some (Inr a) \<Rightarrow> f a)"

lemma bindT_simps [simp]:
  "bindT None f = None" "bindT (failT e) f = failT e" "bindT (retT a) f = f a"
  by (simp_all add: bindT_def)

lemma bindT_eq_ret: "bindT r f = retT b \<longleftrightarrow> (\<exists>a. r = retT a \<and> f a = retT b)"
  by (auto simp: bindT_def split: option.splits sum.splits)

lemma bindT_eq_None: "bindT r f = None \<longleftrightarrow> r = None \<or> (\<exists>a. r = retT a \<and> f a = None)"
  by (auto simp: bindT_def split: option.splits sum.splits)

lemma bindT_eq_fail: "bindT r f = failT e \<longleftrightarrow> r = failT e \<or> (\<exists>a. r = retT a \<and> f a = failT e)"
  by (auto simp: bindT_def split: option.splits sum.splits)

subsection \<open>The state\<close>

definition defaultTaskQueue :: string where "defaultTaskQueue = ''wf-queue-default''"
definition StageBudget :: nat where "StageBudget = 1000"
definition nodeBudget :: nat where "nodeBudget = 10 * StageBudget"
definition pendingTarget :: string where "pendingTarget = [CHR 0x00]"

record sharedDeptsStore =
  sd_depts :: "DepartmentDef list"
  sd_deptIdx :: "(string, nat) gomap"
  sd_segments :: "(string, nat) gomap"
  sd_nodeSegment :: "(string, string) gomap"
  sd_visited :: "string set"
  sd_boundarySteps :: "(string, ExecutionStep list) gomap"
  sd_stages :: nat
  sd_nodes :: nat

text \<open>
  The elements are \<open>DefaultElementHandlers\<close>, the dispatch of the traversal.  The lane labels are never read, and the
  joins are \<open>NewJoins\<close> of the graph and the back edges, so neither is a field.
\<close>

record CompileEnv =
  env_StageTypes :: "(string, string) gomap"
  env_Defs :: BPMNDefinitions
  env_json :: "string \<Rightarrow> (string, string) gomap option"
  env_equalFold :: "string \<Rightarrow> string \<Rightarrow> bool"

record CompileState =
  c_Proc :: BPMNProcess
  c_G :: Graph
  c_condExprs :: "(string \<times> string, string) gomap"
  c_backEdges :: edges
  c_skipped :: "string set"
  c_StopAt :: string
  c_Called :: CalledPlans
  c_sd :: sharedDeptsStore
  c_steps :: "ExecutionStep list"
  c_seqBuf :: "string list"
  c_visited :: "string set"
  c_defaultLane :: string
  c_defaultIAMDeptID :: string
  c_openLane :: string
  c_openSegment :: string
  c_segmentStarts :: "string set"
  c_pathSegment :: "(string, string) gomap"
  c_stopAtCompiled :: bool
  c_rejoined :: "bool option"

definition empty_store :: sharedDeptsStore where
  "empty_store = \<lparr>sd_depts = [], sd_deptIdx = [], sd_segments = [], sd_nodeSegment = [], sd_visited = {},
     sd_boundarySteps = [], sd_stages = 0, sd_nodes = 0\<rparr>"

subsection \<open>What lies ahead\<close>

definition ForwardNexts :: "CompileState \<Rightarrow> string \<Rightarrow> string list" where
  "ForwardNexts s node = filter (\<lambda>n. (node, n) \<notin> c_backEdges s) (out (c_G s) node)"

definition backNexts :: "CompileState \<Rightarrow> string \<Rightarrow> string list" where
  "backNexts s node = filter (\<lambda>n. (node, n) \<in> c_backEdges s) (out (c_G s) node)"

text \<open>The first node with the property on the walk along first forward flows; a walk that comes back finds none.\<close>

function ahead :: "(string \<Rightarrow> bool) \<Rightarrow> Graph \<Rightarrow> edges \<Rightarrow> string \<Rightarrow> string set \<Rightarrow> string option" where
  "ahead P g B cur V =
     (if cur \<in> V then None
      else if P cur then Some cur
      else case FirstForward cur g B of (next, True) \<Rightarrow> ahead P g B next (insert cur V) | (next, False) \<Rightarrow> None)"
  by pat_completeness auto
termination
  by (relation "measure (\<lambda>(P, g, B, cur, V). card (insert cur (targets g) - V))")
     (auto intro!: visit_decreases FirstForward_target)

declare ahead.simps [simp del]

definition taskAhead :: "CompileState \<Rightarrow> string \<Rightarrow> string" where
  "taskAhead s node =
     (case ahead (\<lambda>n. n \<notin> c_skipped s \<and> node_type (c_G s) n \<in> {Some NodeTypeUserTask, Some NodeTypeSubProcess})
        (c_G s) (c_backEdges s) node {[]} of Some n \<Rightarrow> n | None \<Rightarrow> [])"

definition work_ref :: "BPMNProcess \<Rightarrow> FlowNodeType option \<Rightarrow> string \<Rightarrow> (string \<times> string) option" where
  "work_ref proc kind n =
     (case kind of
        Some NodeTypeUserTask \<Rightarrow> map_option (\<lambda>t. (ut_ID t, ut_Name t)) (FindTask proc n)
      | Some NodeTypeSendTask \<Rightarrow> map_option (\<lambda>t. (st_ID t, st_Name t)) (FindSendTask proc n)
      | Some NodeTypeReceiveTask \<Rightarrow> map_option (\<lambda>t. (rt_ID t, rt_Name t)) (FindReceiveTask proc n)
      | Some NodeTypeSubProcess \<Rightarrow> map_option (\<lambda>t. (sp_ID t, sp_Name t)) (FindSubProcess proc n)
      | Some NodeTypeCallActivity \<Rightarrow> map_option (\<lambda>t. (ca_ID t, ca_Name t)) (FindCallActivity proc n)
      | _ \<Rightarrow> None)"

definition firstTaskNodeAhead :: "CompileState \<Rightarrow> string \<Rightarrow> string \<times> string" where
  "firstTaskNodeAhead s node =
     (case ahead (\<lambda>n. n \<notin> c_skipped s \<and> runs_work (node_type (c_G s) n)) (c_G s) (c_backEdges s) node {} of
        None \<Rightarrow> ([], [])
      | Some n \<Rightarrow> (case work_ref (c_Proc s) (node_type (c_G s) n) n of Some r \<Rightarrow> r | None \<Rightarrow> ([], [])))"

definition stageTypeOf :: "CompileState \<Rightarrow> string \<Rightarrow> string" where
  "stageTypeOf s nodeID =
     (case node_type (c_G s) nodeID of
        Some NodeTypeUserTask \<Rightarrow>
          (case FindTask (c_Proc s) nodeID of
             None \<Rightarrow> []
           | Some t \<Rightarrow> (case ext_TaskDefinition (ut_ExtensionElements t) of None \<Rightarrow> [] | Some td \<Rightarrow> td_Type td))
      | Some NodeTypeSendTask \<Rightarrow> ''send_task''
      | Some NodeTypeReceiveTask \<Rightarrow> ''receive_task''
      | Some NodeTypeSubProcess \<Rightarrow> ''sub_workflow''
      | Some NodeTypeCallActivity \<Rightarrow> ''sub_workflow''
      | _ \<Rightarrow> [])"

subsection \<open>New states\<close>

definition NewCompileState :: "BPMNProcess \<Rightarrow> Graph \<Rightarrow> (string \<times> string, string) gomap \<Rightarrow> edges \<Rightarrow> CompileState" where
  "NewCompileState proc g condExprs backEdges =
     (let s = \<lparr>c_Proc = proc, c_G = g, c_condExprs = condExprs, c_backEdges = backEdges, c_skipped = SkippedTasks proc g,
            c_StopAt = [], c_Called = [], c_sd = empty_store, c_steps = [], c_seqBuf = [], c_visited = {},
            c_defaultLane = (if proc_LaneSet proc = [] then ImplicitSlot proc else []), c_defaultIAMDeptID = [],
            c_openLane = [], c_openSegment = [], c_segmentStarts = {}, c_pathSegment = [], c_stopAtCompiled = False,
            c_rejoined = None\<rparr>
      in s\<lparr>c_segmentStarts :=
            {n \<in> set (map (\<lambda>be. taskAhead s (OutgoingTargetOf (bnd_ID be) proc)) (proc_BoundaryEvents proc)). n \<noteq> []}\<rparr>)"

definition NewBranchState :: "CompileState \<Rightarrow> string \<Rightarrow> CompileState" where
  "NewBranchState parent stopAt =
     parent\<lparr>c_StopAt := stopAt, c_steps := [], c_seqBuf := [], c_visited := {}, c_openLane := [], c_openSegment := []\<rparr>"

text \<open>What a state sees, after its child has run, through the pointers that they share.\<close>

definition absorb :: "CompileState \<Rightarrow> CompileState \<Rightarrow> CompileState" where
  "absorb parent child = parent\<lparr>c_sd := c_sd child, c_Called := c_Called child, c_rejoined := c_rejoined child\<rparr>"

subsection \<open>Lanes and segments\<close>

definition segmentID :: "string \<Rightarrow> nat \<Rightarrow> string" where
  "segmentID lane n = (if n = 1 then lane else lane @ SegmentSeparator @ itoa n)"

definition segmentOfPending :: "string \<Rightarrow> string" where "segmentOfPending nodeID = pendingTarget @ nodeID"

definition laneOf :: "CompileState \<Rightarrow> string \<Rightarrow> string \<times> string" where
  "laneOf s nodeID =
     (case LaneFor nodeID (c_Proc s) of
        Some lane \<Rightarrow> (lane_Name lane, LaneDeptID lane)
      | None \<Rightarrow> (c_defaultLane s, c_defaultIAMDeptID s))"

definition ShareSegmentsWith :: "CompileState \<Rightarrow> string \<Rightarrow> CompileState \<Rightarrow> CompileState" where
  "ShareSegmentsWith parent subProcessID s =
     s\<lparr>c_sd := c_sd parent, c_Called := c_Called parent, c_defaultLane := fst (laneOf parent subProcessID),
       c_defaultIAMDeptID := snd (laneOf parent subProcessID)\<rparr>"

definition EnsureDept :: "string \<Rightarrow> string \<Rightarrow> string \<Rightarrow> sharedDeptsStore \<Rightarrow> sharedDeptsStore" where
  "EnsureDept nid label iamDeptID sd =
     (if map_of (sd_deptIdx sd) nid \<noteq> None then sd
      else sd\<lparr>sd_deptIdx := mput nid (length (sd_depts sd)) (sd_deptIdx sd),
              sd_depts := sd_depts sd @ [\<lparr>dd_ID = nid, dd_Label = label, dd_IAMDepartmentID = iamDeptID, dd_Stages = []\<rparr>]\<rparr>)"

definition AppendStage :: "string \<Rightarrow> StageDef \<Rightarrow> CompileState \<Rightarrow> CompileState compiled" where
  "AppendStage deptID stage s =
     (let sd = c_sd s; i = mget_or 0 (sd_deptIdx sd) deptID
      in if i < length (sd_depts sd)
         then retT (s\<lparr>c_sd := sd\<lparr>sd_depts := (sd_depts sd)[i := (sd_depts sd ! i)\<lparr>dd_Stages := dd_Stages (sd_depts sd ! i) @ [stage]\<rparr>],
                                 sd_stages := Suc (sd_stages sd)\<rparr>\<rparr>)
         else failT CompilePanic)"

text \<open>Whether the latest segment of the lane is missing or already has stages.\<close>

definition needs_segment :: "string \<Rightarrow> sharedDeptsStore \<Rightarrow> bool compiled" where
  "needs_segment lane sd =
     (let n = mget_or 0 (sd_segments sd) lane
      in case map_of (sd_deptIdx sd) (segmentID lane n) of
           None \<Rightarrow> retT True
         | Some i \<Rightarrow> if n = 0 then retT True
                    else if i < length (sd_depts sd) then retT (dd_Stages (sd_depts sd ! i) \<noteq> [])
                    else failT CompilePanic)"

definition next_segment :: "string \<Rightarrow> string \<Rightarrow> sharedDeptsStore \<Rightarrow> (string \<times> sharedDeptsStore) compiled" where
  "next_segment lane iamDeptID sd =
     bindT (needs_segment lane sd) (\<lambda>fresh.
       let n = mget_or 0 (sd_segments sd) lane
       in retT (if fresh
           then (segmentID lane (Suc n), EnsureDept (segmentID lane (Suc n)) lane iamDeptID (sd\<lparr>sd_segments := mput lane (Suc n) (sd_segments sd)\<rparr>))
           else (segmentID lane n, sd)))"

definition place_node :: "string \<Rightarrow> string \<Rightarrow> CompileState \<Rightarrow> CompileState" where
  "place_node nodeID segment s =
     s\<lparr>c_sd := (if map_of (sd_nodeSegment (c_sd s)) nodeID = None
                then (c_sd s)\<lparr>sd_nodeSegment := mput nodeID segment (sd_nodeSegment (c_sd s))\<rparr> else c_sd s),
       c_pathSegment := mput nodeID segment (c_pathSegment s)\<rparr>"

definition SegmentOf :: "string \<Rightarrow> CompileState \<Rightarrow> (string \<times> CompileState) compiled" where
  "SegmentOf nodeID s =
     (let lane = fst (laneOf s nodeID); iamDeptID = snd (laneOf s nodeID)
      in bindT
          (if c_openSegment s = [] \<or> c_openLane s \<noteq> lane \<or> nodeID \<in> c_segmentStarts s
           then bindT (next_segment lane iamDeptID (c_sd s)) (\<lambda>(latest, sd).
                  retT (s\<lparr>c_sd := sd, c_openLane := lane, c_openSegment := latest\<rparr>))
           else retT s)
          (\<lambda>s. retT (c_openSegment s, place_node nodeID (c_openSegment s) s)))"

definition MarkNodeSegment :: "string \<Rightarrow> string \<Rightarrow> CompileState \<Rightarrow> CompileState" where
  "MarkNodeSegment nodeID deptID s = (if deptID = [] then s else place_node nodeID deptID s)"

definition NamedLaneDepartment :: "string \<Rightarrow> string \<Rightarrow> CompileState \<Rightarrow> string \<times> CompileState" where
  "NamedLaneDepartment lane iamDeptID s =
     (lane,
      if mget_or 0 (sd_segments (c_sd s)) lane = 0
      then s\<lparr>c_sd := EnsureDept lane lane iamDeptID ((c_sd s)\<lparr>sd_segments := mput lane 1 (sd_segments (c_sd s))\<rparr>)\<rparr>
      else s)"

definition LaneDepartment :: "string \<Rightarrow> CompileState \<Rightarrow> string \<times> CompileState" where
  "LaneDepartment nodeID s = NamedLaneDepartment (fst (laneOf s nodeID)) (snd (laneOf s nodeID)) s"

subsection \<open>Steps\<close>

definition AddToSeqBuf :: "string \<Rightarrow> CompileState \<Rightarrow> CompileState" where
  "AddToSeqBuf deptID s = (if deptID \<in> set (c_seqBuf s) then s else s\<lparr>c_seqBuf := c_seqBuf s @ [deptID]\<rparr>)"

definition AppendStep :: "ExecutionStep \<Rightarrow> CompileState \<Rightarrow> CompileState" where
  "AppendStep stp s = s\<lparr>c_steps := c_steps s @ [stp]\<rparr>"

definition FlushSeqBuf :: "CompileState \<Rightarrow> CompileState" where
  "FlushSeqBuf s =
     (let s = s\<lparr>c_openLane := [], c_openSegment := []\<rparr>
      in if c_seqBuf s = [] then s else (AppendStep (sequential_step (c_seqBuf s)) s)\<lparr>c_seqBuf := []\<rparr>)"

subsection \<open>Targets\<close>

definition BoundaryTarget :: "CompileState \<Rightarrow> string \<Rightarrow> string \<times> bool" where
  "BoundaryTarget s boundaryID =
     (let node = taskAhead s (OutgoingTargetOf boundaryID (c_Proc s))
      in if node = [] then ([], True) else (segmentOfPending node, False))"

definition FillBoundaryTimerTarget :: "CompileState \<Rightarrow> string \<Rightarrow> StageDef \<Rightarrow> StageDef" where
  "FillBoundaryTimerTarget s taskID stage =
     (case sg_BoundaryTimer stage of
        None \<Rightarrow> stage
      | Some bt \<Rightarrow>
          (case TimerBoundaryFor taskID (c_Proc s) of
             None \<Rightarrow> stage
           | Some be \<Rightarrow> stage\<lparr>sg_BoundaryTimer := Some (bt\<lparr>bt_BoundaryID := bnd_ID be,
               bt_TargetDept := fst (BoundaryTarget s (bnd_ID be)), bt_Terminates := snd (BoundaryTarget s (bnd_ID be))\<rparr>)\<rparr>))"

definition FillBoundaryMessageTarget :: "CompileState \<Rightarrow> string \<Rightarrow> StageDef \<Rightarrow> StageDef" where
  "FillBoundaryMessageTarget s taskID stage =
     (case sg_BoundaryMessage stage of
        None \<Rightarrow> stage
      | Some mp \<Rightarrow>
          (case MessageBoundaryFor taskID (c_Proc s) of
             None \<Rightarrow> stage
           | Some be \<Rightarrow> stage\<lparr>sg_BoundaryMessage := Some (MessagePath (mp_MessageName mp) (mp_BoundaryID mp) (mp_Interrupting mp)
               (fst (BoundaryTarget s (bnd_ID be))) (snd (BoundaryTarget s (bnd_ID be))) (mp_Steps mp))\<rparr>))"

definition ResolveErrorCode :: "BPMNDefinitions \<Rightarrow> string \<Rightarrow> string" where
  "ResolveErrorCode defs errorRef =
     (if errorRef = [] then []
      else case find (\<lambda>e. err_ID e = errorRef) (defs_Errors defs) of Some e \<Rightarrow> err_ErrorCode e | None \<Rightarrow> [])"

definition revertBranches :: "CompileState \<Rightarrow> string \<Rightarrow> string list \<Rightarrow> ExecutionStep ExclusiveBranch list" where
  "revertBranches s gatewayID backTargets =
     map (\<lambda>backTarget.
       let (nodeID, name) = firstTaskNodeAhead s backTarget;
           dept = (case map_of (c_pathSegment s) nodeID of Some dept \<Rightarrow> dept | None \<Rightarrow> segmentOfPending nodeID)
       in ExclusiveBranch (mget_or [] (c_condExprs s) (gatewayID, backTarget)) [] [] [] [] False
            dept (stageTypeOf s nodeID) nodeID name [])
       backTargets"

end
