(* ===== verification/Plan_Resolve.thy ===== *)
theory Plan_Resolve
  imports Plan_State
begin

text \<open>
  \<open>ResolveTargets\<close> of \<open>bpmncore/state.go\<close>: pending targets become segments, and every boundary path gets the steps
  compiled for it.  The steps of a path may hold paths in turn, so \<open>pathSteps\<close> recurses through \<open>boundarySteps\<close>
  besides its recursion on the steps; \<open>path_steps\<close> has fuel for the former, one unit per boundary path, and is \<open>None\<close>
  when it runs out.  The code resolves in place and may come to one slice twice; a resolved target is no longer
  pending, so the second pass changes nothing.
\<close>

definition resolve_ref :: "CompileState \<Rightarrow> string \<Rightarrow> string" where
  "resolve_ref s target =
     (case CutPrefix target pendingTarget of
        (node, True) \<Rightarrow> (case map_of (sd_nodeSegment (c_sd s)) node of Some seg \<Rightarrow> seg | None \<Rightarrow> fst (laneOf s node))
      | (_, False) \<Rightarrow> target)"

type_synonym path_lookup = "string \<Rightarrow> ExecutionStep list option"

definition resolve_error :: "(string \<Rightarrow> string) \<Rightarrow> path_lookup \<Rightarrow> 's ErrorPath \<Rightarrow> ExecutionStep ErrorPath option" where
  "resolve_error R J p =
     map_option (ErrorPath (ep_BoundaryID p) (ep_ErrorCode p) (R (ep_TargetDept p)) (ep_Terminates p)) (J (ep_BoundaryID p))"

definition resolve_timer :: "(string \<Rightarrow> string) \<Rightarrow> path_lookup \<Rightarrow> 's TimerPath \<Rightarrow> ExecutionStep TimerPath option" where
  "resolve_timer R J p =
     map_option (TimerPath (tp_BoundaryID p) (tp_Duration p) (tp_Interrupting p) (R (tp_TargetDept p)) (tp_Terminates p)) (J (tp_BoundaryID p))"

definition resolve_message :: "(string \<Rightarrow> string) \<Rightarrow> path_lookup \<Rightarrow> 's MessagePath \<Rightarrow> ExecutionStep MessagePath option" where
  "resolve_message R J p =
     map_option (MessagePath (mp_MessageName p) (mp_BoundaryID p) (mp_Interrupting p) (R (mp_TargetDept p)) (mp_Terminates p)) (J (mp_BoundaryID p))"

definition resolve_parallel :: "ExecutionStep option ParallelBranch \<Rightarrow> ExecutionStep ParallelBranch option" where
  "resolve_parallel b = map_option (ParallelBranch (pb_DeptID b)) (those (pb_Steps b))"

definition resolve_exclusive :: "(string \<Rightarrow> string) \<Rightarrow> ExecutionStep option ExclusiveBranch \<Rightarrow> ExecutionStep ExclusiveBranch option" where
  "resolve_exclusive R b =
     map_option (ExclusiveBranch (xb_ConditionExpression b) (xb_Target b) (xb_TargetStage b) (xb_TargetNodeID b) (xb_TargetName b)
       (xb_Terminates b) (R (xb_RevertToDept b)) (xb_RevertToStage b) (xb_RevertToNodeID b) (xb_RevertToName b)) (those (xb_Steps b))"

definition resolve_sub :: "(string \<Rightarrow> string) \<Rightarrow> path_lookup \<Rightarrow> ExecutionStep option SubWorkflowStep \<Rightarrow> ExecutionStep SubWorkflowStep option" where
  "resolve_sub R J sw =
     Option.bind (those (map (resolve_error R J) (sw_ErrorPaths sw))) (\<lambda>errs.
     Option.bind (those (map (resolve_timer R J) (sw_TimerPaths sw))) (\<lambda>timers.
     Option.bind (those (map (resolve_message R J) (sw_MessagePaths sw))) (\<lambda>msgs.
     map_option (\<lambda>plan. SubWorkflowStep (sw_NodeID sw) (sw_Name sw) plan errs timers msgs) (those (sw_Plan sw)))))"

definition resolve_call :: "(string \<Rightarrow> string) \<Rightarrow> path_lookup \<Rightarrow> ExecutionStep CallPlanStep \<Rightarrow> ExecutionStep CallPlanStep option" where
  "resolve_call R J cp =
     Option.bind (those (map (resolve_error R J) (cs_ErrorPaths cp))) (\<lambda>errs.
     Option.bind (those (map (resolve_timer R J) (cs_TimerPaths cp))) (\<lambda>timers.
     map_option (CallPlanStep (cs_NodeID cp) (cs_Name cp) (cs_Plan cp) (cs_Departments cp) (cs_Assignees cp) errs timers)
       (those (map (resolve_message R J) (cs_MessagePaths cp)))))"

definition map_pointer :: "('a \<Rightarrow> 'b option) \<Rightarrow> 'a option \<Rightarrow> 'b option option" where
  "map_pointer f p = (case p of None \<Rightarrow> Some None | Some a \<Rightarrow> map_option Some (f a))"

primrec resolve_step :: "(string \<Rightarrow> string) \<Rightarrow> path_lookup \<Rightarrow> ExecutionStep \<Rightarrow> ExecutionStep option" where
  "resolve_step R J (ExecutionStep sequential par excl sub call msgs io extras) =
     Option.bind (those (map (resolve_message R J) msgs)) (\<lambda>msgs.
     Option.bind (those (map resolve_parallel (map (map_ParallelBranch (resolve_step R J)) par))) (\<lambda>par.
     Option.bind (those (map (resolve_exclusive R) (map (map_ExclusiveBranch (resolve_step R J)) excl))) (\<lambda>excl.
     Option.bind (map_pointer (resolve_sub R J) (map_option (map_SubWorkflowStep (resolve_step R J)) sub)) (\<lambda>sub.
     map_option (\<lambda>call. ExecutionStep sequential par excl sub call msgs io extras) (map_pointer (resolve_call R J) call)))))"

fun path_steps :: "nat \<Rightarrow> CompileState \<Rightarrow> path_lookup" where
  "path_steps 0 s boundaryID = None"
| "path_steps (Suc fuel) s boundaryID =
     those (map (resolve_step (resolve_ref s) (path_steps fuel s)) (mget_or [] (sd_boundarySteps (c_sd s)) boundaryID))"

definition path_fuel :: "CompileState \<Rightarrow> nat" where
  "path_fuel s = Suc (length (sd_boundarySteps (c_sd s)))"

definition pathSteps :: "CompileState \<Rightarrow> path_lookup" where
  "pathSteps s = path_steps (path_fuel s) s"

definition resolve_stage :: "CompileState \<Rightarrow> StageDef \<Rightarrow> StageDef option" where
  "resolve_stage s stage =
     Option.bind (map_pointer (\<lambda>bt. map_option (\<lambda>steps. bt\<lparr>bt_TargetDept := resolve_ref s (bt_TargetDept bt), bt_Steps := steps\<rparr>)
         (pathSteps s (bt_BoundaryID bt))) (sg_BoundaryTimer stage)) (\<lambda>timer.
     map_option (\<lambda>msg. stage\<lparr>sg_BoundaryTimer := timer, sg_BoundaryMessage := msg\<rparr>)
       (map_pointer (resolve_message (resolve_ref s) (pathSteps s)) (sg_BoundaryMessage stage)))"

definition resolve_dept :: "CompileState \<Rightarrow> DepartmentDef \<Rightarrow> DepartmentDef option" where
  "resolve_dept s d = map_option (\<lambda>stages. d\<lparr>dd_Stages := stages\<rparr>) (those (map (resolve_stage s) (dd_Stages d)))"

definition ResolveTargets :: "CompileState \<Rightarrow> CompileState option" where
  "ResolveTargets s =
     Option.bind (those (map (resolve_dept s) (sd_depts (c_sd s)))) (\<lambda>depts.
     map_option (\<lambda>steps. s\<lparr>c_sd := (c_sd s)\<lparr>sd_depts := depts\<rparr>, c_steps := steps\<rparr>)
       (those (map (resolve_step (resolve_ref s) (pathSteps s)) (c_steps s))))"

end
