(* ===== verification/Plan_Traverse.thy ===== *)
theory Plan_Traverse
  imports Plan_Resolve
begin

text \<open>
  The traversal that compiles a process: \<open>TraverseNode\<close> and the gateways of \<open>bpmncore/traverse.go\<close>, the
  \<open>Compile\<close> methods of \<open>internal/bpmn_compiler/element\<close> and \<open>CompileWithImplicitStart\<close>.  A handler takes the
  traversal that it calls back as its argument \<open>trav\<close>; \<open>TraverseNode\<close> ties the knot with fuel, one unit per
  nested call, and is \<open>None\<close> when the fuel runs out.
\<close>

type_synonym traversal = "string \<Rightarrow> CompileState \<Rightarrow> CompileState compiled"

fun trav_all :: "traversal \<Rightarrow> string list \<Rightarrow> CompileState \<Rightarrow> CompileState compiled" where
  "trav_all trav [] s = retT s"
| "trav_all trav (n # ns) s = bindT (trav n s) (trav_all trav ns)"

definition traverseForwardNexts :: "traversal \<Rightarrow> string \<Rightarrow> CompileState \<Rightarrow> CompileState compiled" where
  "traverseForwardNexts trav nodeID s = trav_all trav (ForwardNexts s nodeID) s"

text \<open>The last statement of the handlers of work: go on along the first forward flow, if there is one.\<close>

definition trav_next :: "traversal \<Rightarrow> string \<Rightarrow> CompileState \<Rightarrow> CompileState compiled" where
  "trav_next trav nodeID s = (case ForwardNexts s nodeID of [] \<Rightarrow> retT s | n # _ \<Rightarrow> trav n s)"

subsection \<open>Branches\<close>

definition branchSteps :: "traversal \<Rightarrow> string \<Rightarrow> string \<Rightarrow> CompileState \<Rightarrow> (ExecutionStep list \<times> CompileState) compiled" where
  "branchSteps trav branchStart stopAt s =
     bindT (trav branchStart (NewBranchState s stopAt)) (\<lambda>bs.
       retT (c_steps (FlushSeqBuf bs), absorb s (FlushSeqBuf bs)))"

definition exclusiveBranch :: "traversal \<Rightarrow> string \<Rightarrow> string \<Rightarrow> string \<Rightarrow> CompileState
    \<Rightarrow> (ExecutionStep ExclusiveBranch \<times> CompileState) compiled" where
  "exclusiveBranch trav splitID branchStart stopAt s =
     (let condition = mget_or [] (c_condExprs s) (splitID, branchStart)
      in bindT (branchSteps trav branchStart stopAt s) (\<lambda>(steps, s).
           retT (if steps = [] then zero_branch condition
                 else let (nodeID, name) = firstTaskNodeAhead s branchStart
                      in ExclusiveBranch condition (FirstDepartment steps) (stageTypeOf s nodeID) nodeID name False [] [] [] [] steps, s)))"

fun parallel_branches :: "traversal \<Rightarrow> string \<Rightarrow> string list \<Rightarrow> CompileState \<Rightarrow> (ExecutionStep ParallelBranch list \<times> CompileState) compiled" where
  "parallel_branches trav joinID [] s = retT ([], s)"
| "parallel_branches trav joinID (branchStart # rest) s =
     bindT (branchSteps trav branchStart joinID s) (\<lambda>(steps, s).
     bindT (parallel_branches trav joinID rest s) (\<lambda>(branches, s).
       retT (ParallelBranch (FirstDepartment steps) steps # branches, s)))"

fun exclusive_branches :: "traversal \<Rightarrow> string \<Rightarrow> string \<Rightarrow> string list \<Rightarrow> CompileState \<Rightarrow> (ExecutionStep ExclusiveBranch list \<times> CompileState) compiled" where
  "exclusive_branches trav splitID joinID [] s = retT ([], s)"
| "exclusive_branches trav splitID joinID (branchStart # rest) s =
     bindT (exclusiveBranch trav splitID branchStart joinID s) (\<lambda>(b, s).
     bindT (exclusive_branches trav splitID joinID rest s) (\<lambda>(branches, s).
       retT (b # branches, s)))"

definition traverseBranches :: "traversal \<Rightarrow> string \<Rightarrow> string \<Rightarrow> CompileState \<Rightarrow> (ExecutionStep ParallelBranch list \<times> CompileState) compiled" where
  "traverseBranches trav splitID joinID s = parallel_branches trav joinID (ForwardNexts s splitID) s"

definition traverseExclusiveBranches :: "traversal \<Rightarrow> string \<Rightarrow> string \<Rightarrow> CompileState
    \<Rightarrow> (ExecutionStep ExclusiveBranch list \<times> CompileState) compiled" where
  "traverseExclusiveBranches trav splitID joinID s = exclusive_branches trav splitID joinID (ForwardNexts s splitID) s"

subsection \<open>Gateways\<close>

datatype GatewayKind = ParallelGateway | ExclusiveGateway

definition set_terminates :: "'s ExclusiveBranch \<Rightarrow> 's ExclusiveBranch" where
  "set_terminates b =
     ExclusiveBranch (xb_ConditionExpression b) (xb_Target b) (xb_TargetStage b) (xb_TargetNodeID b) (xb_TargetName b)
       True (xb_RevertToDept b) (xb_RevertToStage b) (xb_RevertToNodeID b) (xb_RevertToName b) (xb_Steps b)"

definition handleSingleForwardWithReverts :: "traversal \<Rightarrow> string \<Rightarrow> string list \<Rightarrow> string list \<Rightarrow> CompileState \<Rightarrow> CompileState compiled" where
  "handleSingleForwardWithReverts trav nodeID forwards backTargets s =
     (let ahead = (case forwards of
            [n] \<Rightarrow> [ExclusiveBranch (mget_or [] (c_condExprs s) (nodeID, n)) [] [] [] []
                     (node_type (c_G s) n = Some NodeTypeEndEvent) [] [] [] [] []]
          | _ \<Rightarrow> []);
          s = AppendStep (branch_step [] (ahead @ revertBranches s nodeID backTargets)) s
      in case forwards of [n] \<Rightarrow> trav n s | _ \<Rightarrow> retT s)"

definition handleSplitNoJoin :: "traversal \<Rightarrow> string \<Rightarrow> string list \<Rightarrow> string list \<Rightarrow> GatewayKind \<Rightarrow> CompileState \<Rightarrow> CompileState compiled" where
  "handleSplitNoJoin trav nodeID forwards backTargets kind s =
     (if kind \<noteq> ExclusiveGateway then failT CompileFailed
      else bindT (exclusive_branches trav nodeID [] forwards s) (\<lambda>(branches, s).
        retT (AppendStep (branch_step [] (map set_terminates branches @ revertBranches s nodeID backTargets)) s)))"

definition handleSplitWithJoin :: "traversal \<Rightarrow> string \<Rightarrow> string list \<Rightarrow> string \<Rightarrow> GatewayKind \<Rightarrow> CompileState \<Rightarrow> CompileState compiled" where
  "handleSplitWithJoin trav nodeID backTargets joinID kind s =
     bindT
       (if kind = ExclusiveGateway
        then bindT (traverseExclusiveBranches trav nodeID joinID s) (\<lambda>(excl, s). retT ([], excl, s))
        else bindT (traverseBranches trav nodeID joinID s) (\<lambda>(par, s). retT (par, [], s)))
       (\<lambda>(par, excl, s). trav joinID (AppendStep (branch_step par (excl @ revertBranches s nodeID backTargets)) s))"

definition find_join :: "CompileState \<Rightarrow> string \<Rightarrow> (string \<times> bool) option" where
  "find_join s nodeID = Option.bind (NewJoins (c_G s) (c_backEdges s)) (\<lambda>j. Joins_Find j nodeID)"

definition HandleGateway :: "traversal \<Rightarrow> string \<Rightarrow> GatewayKind \<Rightarrow> CompileState \<Rightarrow> CompileState compiled" where
  "HandleGateway trav nodeID kind s =
     (let forwards = ForwardNexts s nodeID; backTargets = backNexts s nodeID
      in if length forwards \<le> 1 \<and> backTargets = [] then trav_next trav nodeID s
         else
           let s = FlushSeqBuf s
           in if length forwards \<le> 1 then handleSingleForwardWithReverts trav nodeID forwards backTargets s
              else case find_join s nodeID of
                     None \<Rightarrow> None
                   | Some (joinID, True) \<Rightarrow> handleSplitWithJoin trav nodeID backTargets joinID kind s
                   | Some (_, False) \<Rightarrow> handleSplitNoJoin trav nodeID forwards backTargets kind s)"

subsection \<open>Tasks\<close>

definition place_stage :: "traversal \<Rightarrow> string \<Rightarrow> StageDef \<Rightarrow> CompileState \<Rightarrow> CompileState compiled" where
  "place_stage trav nodeID stage s =
     bindT (SegmentOf nodeID s) (\<lambda>(deptID, s).
     bindT (AppendStage deptID stage s) (\<lambda>s. trav_next trav nodeID (AddToSeqBuf deptID s)))"

definition UserTask_Compile :: "CompileEnv \<Rightarrow> traversal \<Rightarrow> string \<Rightarrow> CompileState \<Rightarrow> CompileState compiled" where
  "UserTask_Compile env trav nodeID s =
     (case FindTask (c_Proc s) nodeID of
        None \<Rightarrow> failT CompileFailed
      | Some task \<Rightarrow>
          let stage = BuildStageDef task (env_StageTypes env) (c_Proc s) (env_Defs env);
              stage = FillBoundaryTimerTarget s (ut_ID task) stage;
              stage = FillBoundaryMessageTarget s (ut_ID task) stage
          in place_stage trav nodeID stage s)"

definition SendTask_Compile :: "CompileEnv \<Rightarrow> traversal \<Rightarrow> string \<Rightarrow> CompileState \<Rightarrow> CompileState compiled" where
  "SendTask_Compile env trav nodeID s =
     (case FindSendTask (c_Proc s) nodeID of
        None \<Rightarrow> failT CompileFailed
      | Some task \<Rightarrow>
          let msgName = ResolveMessageName (st_MessageRef task) (Some (env_Defs env))
          in place_stage trav nodeID (BuildMessageStageDef (st_ID task) (st_Name task) ''send_task'' msgName (st_ExtensionElements task)) s)"

definition ReceiveTask_Compile :: "CompileEnv \<Rightarrow> traversal \<Rightarrow> string \<Rightarrow> CompileState \<Rightarrow> CompileState compiled" where
  "ReceiveTask_Compile env trav nodeID s =
     (case FindReceiveTask (c_Proc s) nodeID of
        None \<Rightarrow> failT CompileFailed
      | Some task \<Rightarrow>
          let msgName = ResolveMessageName (rt_MessageRef task) (Some (env_Defs env));
              msgName = (if msgName = [] then ResolveMessageFlowTarget (rt_ID task) (Some (env_Defs env)) else msgName);
              msgName = (if msgName = [] then rt_ID task else msgName)
          in place_stage trav nodeID (BuildMessageStageDef (rt_ID task) (rt_Name task) ''receive_task'' msgName (rt_ExtensionElements task)) s)"

subsection \<open>Bodies\<close>

definition CompileBoundaryPath :: "traversal \<Rightarrow> BPMNBoundaryEvent \<Rightarrow> CompileState \<Rightarrow> CompileState compiled" where
  "CompileBoundaryPath trav be s =
     (let target = OutgoingTargetOf (bnd_ID be) (c_Proc s); node = taskAhead s target
      in if node = [] \<or> map_of (sd_nodeSegment (c_sd s)) node \<noteq> None then retT s
         else bindT (trav target ((NewBranchState s [])\<lparr>c_stopAtCompiled := True, c_rejoined := Some False\<rparr>)) (\<lambda>path.
           let s' = s\<lparr>c_sd := c_sd path, c_Called := c_Called path\<rparr>
           in retT (if c_rejoined path = Some True then s'
                    else s'\<lparr>c_sd := (c_sd s')\<lparr>sd_boundarySteps :=
                           mput (bnd_ID be) (c_steps (FlushSeqBuf path)) (sd_boundarySteps (c_sd s'))\<rparr>\<rparr>)))"

fun compile_paths :: "traversal \<Rightarrow> BPMNBoundaryEvent list \<Rightarrow> CompileState \<Rightarrow> CompileState compiled" where
  "compile_paths trav [] s = retT s"
| "compile_paths trav (be # bes) s = bindT (CompileBoundaryPath trav be s) (compile_paths trav bes)"

definition CompileBoundaryPaths :: "traversal \<Rightarrow> CompileState \<Rightarrow> CompileState compiled" where
  "CompileBoundaryPaths trav s = compile_paths trav (proc_BoundaryEvents (c_Proc s)) s"

definition newInnerState :: "BPMNProcess \<Rightarrow> CompileState" where
  "newInnerState inner =
     (let g = BuildGraph inner
      in NewCompileState inner g (BuildCondExprs inner)
           (case proc_StartEvents inner of [] \<Rightarrow> {} | e # _ \<Rightarrow> ProcessBackEdges inner g (ev_ID e)))"

definition runInnerState :: "traversal \<Rightarrow> BPMNProcess \<Rightarrow> CompileState \<Rightarrow> CompileState compiled" where
  "runInnerState trav inner s =
     bindT (case proc_StartEvents inner of [] \<Rightarrow> retT s | e # _ \<Rightarrow> trav_next trav (ev_ID e) s) (CompileBoundaryPaths trav)"

definition compileSubProcessBody :: "traversal \<Rightarrow> BPMNProcess \<Rightarrow> string \<Rightarrow> CompileState \<Rightarrow> CompileState compiled" where
  "compileSubProcessBody trav body subProcessID s =
     runInnerState trav body (ShareSegmentsWith s subProcessID (newInnerState body))"

definition compileCalledState :: "traversal \<Rightarrow> BPMNProcess \<Rightarrow> CalledPlans \<Rightarrow> CompileState compiled" where
  "compileCalledState trav called plans =
     bindT (runInnerState trav called ((newInnerState called)\<lparr>c_Called := plans\<rparr>)) (\<lambda>inner. map_option Inr (ResolveTargets inner))"

definition boundaryPaths :: "CompileEnv \<Rightarrow> string \<Rightarrow> CompileState
    \<Rightarrow> ExecutionStep ErrorPath list \<times> ExecutionStep TimerPath list \<times> ExecutionStep MessagePath list" where
  "boundaryPaths env nodeID s =
     (let bes = filter (\<lambda>be. bnd_AttachedToRef be = nodeID) (proc_BoundaryEvents (c_Proc s));
          dept = (\<lambda>be. fst (BoundaryTarget s (bnd_ID be))); terminates = (\<lambda>be. snd (BoundaryTarget s (bnd_ID be)));
          interrupting = (\<lambda>be. bnd_CancelActivity be \<noteq> ''false'')
      in (List.map_filter (\<lambda>be. map_option (\<lambda>e.
              ErrorPath (bnd_ID be) (ResolveErrorCode (env_Defs env) (er_ErrorRef e)) (dept be) (terminates be) []) (bnd_Error be)) bes,
          List.map_filter (\<lambda>be. map_option (\<lambda>t.
              TimerPath (bnd_ID be) (tm_Duration t) (interrupting be) (dept be) (terminates be) []) (bnd_Timer be)) bes,
          List.map_filter (\<lambda>be. map_option (\<lambda>m.
              MessagePath (event_message be m (env_Defs env)) (bnd_ID be) (interrupting be) (dept be) (terminates be) []) (bnd_Message be)) bes))"

text \<open>What \<open>SubProcessHandler\<close> does with the compiled body.\<close>

definition add_body_step :: "CompileEnv \<Rightarrow> string \<Rightarrow> BPMNSubProcess \<Rightarrow> CompileState \<Rightarrow> CompileState \<Rightarrow> CompileState" where
  "add_body_step env nodeID sp body s =
     (let steps = c_steps body;
          s = MarkNodeSegment nodeID (FirstDepartment steps) (s\<lparr>c_sd := c_sd body, c_Called := c_Called body\<rparr>);
          (errs, timers, msgs) = boundaryPaths env nodeID s
      in AppendStep (sub_step (SubWorkflowStep (sp_ID sp) (sp_Name sp) steps errs timers msgs)) (FlushSeqBuf s))"

definition SubProcess_Compile :: "CompileEnv \<Rightarrow> traversal \<Rightarrow> string \<Rightarrow> CompileState \<Rightarrow> CompileState compiled" where
  "SubProcess_Compile env trav nodeID s =
     (case FindSubProcess (c_Proc s) nodeID of
        None \<Rightarrow> failT CompileFailed
      | Some sp \<Rightarrow>
          bindT (compileSubProcessBody trav (SubProcToProcess sp) nodeID s) (\<lambda>body.
            trav_next trav nodeID (add_body_step env nodeID sp body s)))"

subsection \<open>Calls\<close>

definition compileCalledPlan :: "traversal \<Rightarrow> BPMNProcess \<Rightarrow> CompileState \<Rightarrow> CompileState compiled" where
  "compileCalledPlan trav calledProc s =
     (case Claim (proc_ID calledProc) (c_Called s) of
        (False, _) \<Rightarrow> retT s
      | (True, plans) \<Rightarrow>
          bindT (compileCalledState trav calledProc plans) (\<lambda>inner.
            let plan = \<lparr>pl_Name = proc_ID calledProc, pl_TaskQueue = [], pl_Departments = withOpenSlots (sd_depts (c_sd inner)) calledProc,
                        pl_Steps = c_steps inner, pl_VisualElements = []\<rparr>
            in retT (s\<lparr>c_Called := Put plan (c_Called inner)\<rparr>)))"

text \<open>\<open>bind_inputs\<close> is the loop over the sorted keys of the \<open>Depts\<close> input, \<open>callerFor\<close> its accumulator.\<close>

fun bind_inputs :: "CompileEnv \<Rightarrow> BPMNProcess \<Rightarrow> (string, string) gomap \<Rightarrow> string list \<Rightarrow> (string, string) gomap \<Rightarrow> CompileState
    \<Rightarrow> (string, string) gomap \<times> CompileState" where
  "bind_inputs env calledProc depts [] callerFor s = (callerFor, s)"
| "bind_inputs env calledProc depts (key # keys) callerFor s =
     (case (LaneNamed (env_equalFold env) calledProc key, LaneNamed (env_equalFold env) (c_Proc s) (mget_or [] depts key)) of
        (Some calledLane, Some callerLane) \<Rightarrow>
          (let (dept, s) = NamedLaneDepartment (lane_Name callerLane) (LaneDeptID callerLane) s
           in bind_inputs env calledProc depts keys (mput (lane_Name calledLane) dept callerFor) s)
      | _ \<Rightarrow> bind_inputs env calledProc depts keys callerFor s)"

definition bindDepartments :: "CompileEnv \<Rightarrow> BPMNCallActivity \<Rightarrow> BPMNProcess \<Rightarrow> CompiledPlan option \<Rightarrow> (string, string) gomap \<Rightarrow> CompileState
    \<Rightarrow> (string, string) gomap \<times> CompileState" where
  "bindDepartments env ca calledProc called depts s =
     (let (callerFor, s) = bind_inputs env calledProc depts (sort (mkeys depts)) [] s;
          (callerFor, s) =
            (case OpenSlots calledProc of
               [slot] \<Rightarrow> if map_of callerFor slot \<noteq> None then (callerFor, s)
                         else let (dept, s) = LaneDepartment (ca_ID ca) s in (mput slot dept callerFor, s)
             | _ \<Rightarrow> (callerFor, s))
      in (fold (\<lambda>(lane, caller) bound. fold (\<lambda>segment. mput segment caller) (laneSegments called lane) bound) callerFor [], s))"

definition add_call_step :: "CompileEnv \<Rightarrow> string \<Rightarrow> BPMNCallActivity \<Rightarrow> BPMNProcess \<Rightarrow> CompileState \<Rightarrow> CompileState" where
  "add_call_step env nodeID ca calledProc s =
     (let inputs = ParseCallInputs (env_json env) ca;
          (errs, timers, msgs) = boundaryPaths env nodeID s;
          (bound, s) = bindDepartments env ca calledProc (Get (proc_ID calledProc) (c_Called s)) (in_Depts inputs) s;
          ext = ca_ExtensionElements ca
      in AppendStep
           (call_step (CallPlanStep (ca_ID ca) (ca_Name ca) (proc_ID calledProc) bound (in_Assignees inputs) errs timers msgs)
             (toIOMapping (ext_IOMapping ext)) (PropsMap ext))
           (FlushSeqBuf s))"

definition CallActivity_Compile :: "CompileEnv \<Rightarrow> traversal \<Rightarrow> string \<Rightarrow> CompileState \<Rightarrow> CompileState compiled" where
  "CallActivity_Compile env trav nodeID s =
     (case FindCallActivity (c_Proc s) nodeID of
        None \<Rightarrow> failT CompileFailed
      | Some ca \<Rightarrow>
          (case FindProcessByID (env_Defs env) (case called_id ca of Some pid \<Rightarrow> pid | None \<Rightarrow> []) of
             None \<Rightarrow> failT CompileFailed
           | Some calledProc \<Rightarrow>
               bindT (compileCalledPlan trav calledProc s) (\<lambda>s.
                 trav_next trav nodeID (add_call_step env nodeID ca calledProc s))))"

subsection \<open>TraverseNode\<close>

text \<open>The handlers of \<open>DefaultElementHandlers\<close>; a plain boundary event and an unknown node have none.\<close>

definition boundary_compile :: "traversal \<Rightarrow> string \<Rightarrow> CompileState \<Rightarrow> CompileState compiled" where
  "boundary_compile trav nodeID s =
     (let targetID = OutgoingTargetOf nodeID (c_Proc s) in if targetID = [] then retT s else trav targetID s)"

definition element_compile :: "CompileEnv \<Rightarrow> traversal \<Rightarrow> string \<Rightarrow> CompileState \<Rightarrow> CompileState compiled" where
  "element_compile env trav nodeID s =
     (case node_type (c_G s) nodeID of
        Some NodeTypeStartEvent \<Rightarrow> retT s
      | Some NodeTypeEndEvent \<Rightarrow> retT (FlushSeqBuf s)
      | Some NodeTypeUserTask \<Rightarrow> UserTask_Compile env trav nodeID s
      | Some NodeTypeSendTask \<Rightarrow> SendTask_Compile env trav nodeID s
      | Some NodeTypeReceiveTask \<Rightarrow> ReceiveTask_Compile env trav nodeID s
      | Some NodeTypeSubProcess \<Rightarrow> SubProcess_Compile env trav nodeID s
      | Some NodeTypeCallActivity \<Rightarrow> CallActivity_Compile env trav nodeID s
      | Some NodeTypeExclusiveGateway \<Rightarrow> HandleGateway trav nodeID ExclusiveGateway s
      | Some NodeTypeParallelGateway \<Rightarrow> HandleGateway trav nodeID ParallelGateway s
      | Some NodeTypeInclusiveGateway \<Rightarrow> HandleGateway trav nodeID ParallelGateway s
      | Some NodeTypeErrorBoundaryEvent \<Rightarrow> retT s
      | Some NodeTypeTimerBoundaryEvent \<Rightarrow> boundary_compile trav nodeID s
      | Some NodeTypeMessageBoundaryEvent \<Rightarrow> boundary_compile trav nodeID s
      | _ \<Rightarrow> traverseForwardNexts trav nodeID s)"

definition visit_node :: "string \<Rightarrow> CompileState \<Rightarrow> CompileState" where
  "visit_node nodeID s =
     s\<lparr>c_visited := insert nodeID (c_visited s), c_sd := (c_sd s)\<lparr>sd_visited := insert nodeID (sd_visited (c_sd s))\<rparr>\<rparr>"

definition count_node :: "CompileState \<Rightarrow> CompileState" where
  "count_node s = s\<lparr>c_sd := (c_sd s)\<lparr>sd_nodes := Suc (sd_nodes (c_sd s))\<rparr>\<rparr>"

definition over_budget :: "CompileState \<Rightarrow> bool" where
  "over_budget s \<longleftrightarrow> StageBudget < sd_stages (c_sd s) \<or> nodeBudget < sd_nodes (c_sd s)"

text \<open>The tests of \<open>TraverseNode\<close> that leave the node to another visit.\<close>

definition stops_at :: "string \<Rightarrow> CompileState \<Rightarrow> bool" where
  "stops_at nodeID s \<longleftrightarrow> c_StopAt s \<noteq> [] \<and> nodeID = c_StopAt s"

definition note_rejoin :: "string \<Rightarrow> CompileState \<Rightarrow> CompileState" where
  "note_rejoin nodeID s =
     (if c_rejoined s \<noteq> None \<and> node_type (c_G s) nodeID \<noteq> Some NodeTypeEndEvent then s\<lparr>c_rejoined := Some True\<rparr> else s)"

definition compile_node :: "CompileEnv \<Rightarrow> traversal \<Rightarrow> traversal" where
  "compile_node env trav nodeID s =
     (if stops_at nodeID s then retT s
      else if c_stopAtCompiled s \<and> nodeID \<in> sd_visited (c_sd s) then retT (note_rejoin nodeID s)
      else if nodeID \<in> c_visited s then retT s
      else if over_budget (count_node s) then failT ErrStageBudget
      else
        let s = visit_node nodeID (count_node s)
        in if nodeID \<in> c_skipped s then traverseForwardNexts trav nodeID s else element_compile env trav nodeID s)"

fun TraverseNode :: "nat \<Rightarrow> CompileEnv \<Rightarrow> traversal" where
  "TraverseNode 0 env nodeID s = None"
| "TraverseNode (Suc fuel) env nodeID s = compile_node env (TraverseNode fuel env) nodeID s"

subsection \<open>Compile\<close>

text \<open>
  Every visit counts a node against the budget of its store, and a called process opens a new store only the first
  time that it is called: so many nested calls are enough.
\<close>

definition traverse_fuel :: "BPMNDefinitions \<Rightarrow> nat" where
  "traverse_fuel defs = Suc (Suc (length (defs_Processes defs)) * (nodeBudget + 2))"

definition compile_from :: "CompileEnv \<Rightarrow> BPMNProcess \<Rightarrow> Graph \<Rightarrow> string \<Rightarrow> CompileState compiled" where
  "compile_from env proc g startID =
     (let trav = TraverseNode (traverse_fuel (env_Defs env)) env;
          s = NewCompileState proc g (BuildCondExprs proc) (ProcessBackEdges proc g startID)
      in bindT (if proc_StartEvents proc \<noteq> [] then trav_next trav startID s else trav startID s) (CompileBoundaryPaths trav))"

definition plan_of :: "BPMNProcess \<Rightarrow> CompileState \<Rightarrow> CompiledPlan" where
  "plan_of proc s =
     \<lparr>pl_Name = proc_Name proc, pl_TaskQueue = defaultTaskQueue, pl_Departments = sd_depts (c_sd s), pl_Steps = c_steps s,
      pl_VisualElements = map (\<lambda>ds. \<lparr>ve_Kind = ''dataStoreReference'', ve_ID = ds_ID ds, ve_Name = ds_Name ds\<rparr>) (proc_DataStoreRefs proc)\<rparr>"

definition CompileWithImplicitStart :: "CompileEnv \<Rightarrow> BPMNProcess \<Rightarrow> Graph \<Rightarrow> string \<Rightarrow> (CompiledPlan \<times> CompiledPlan list) compiled" where
  "CompileWithImplicitStart env proc g implicitStart =
     (let startID = (case proc_StartEvents proc of e # _ \<Rightarrow> ev_ID e | [] \<Rightarrow> implicitStart)
      in if startID = [] then failT CompileFailed
         else bindT (compile_from env proc g startID) (\<lambda>s.
           map_option (\<lambda>s. Inr (plan_of proc s, All_plans (c_Called s))) (ResolveTargets s)))"

definition Compile :: "CompileEnv \<Rightarrow> BPMNProcess \<Rightarrow> Graph \<Rightarrow> (CompiledPlan \<times> CompiledPlan list) compiled" where
  "Compile env proc g =
     CompileWithImplicitStart env proc g (if proc_StartEvents proc = [] then FindImplicitStart proc g else [])"

end
