(* ===== verification/Plan_Steps.thy ===== *)
theory Plan_Steps
  imports Plan_Traverse
begin

text \<open>
  The departments that a compiled step names: \<open>step_in D\<close> says that all of them, at any depth, are in \<open>D\<close>.  It is
  monotone in \<open>D\<close>, and the first department of such steps is in \<open>D\<close>.
\<close>

subsection \<open>Steps that run in given departments\<close>

definition branch_in :: "string set \<Rightarrow> bool ParallelBranch \<Rightarrow> bool" where
  "branch_in D b \<longleftrightarrow> pb_DeptID b \<in> insert [] D \<and> (\<forall>k \<in> set (pb_Steps b). k)"

definition choice_in :: "string set \<Rightarrow> bool ExclusiveBranch \<Rightarrow> bool" where
  "choice_in D b \<longleftrightarrow> xb_Target b \<in> insert [] D \<and> (\<forall>k \<in> set (xb_Steps b). k)"

definition sub_in :: "bool SubWorkflowStep \<Rightarrow> bool" where
  "sub_in sw \<longleftrightarrow> (\<forall>k \<in> set (sw_Plan sw). k) \<and>
     (\<forall>p \<in> set (sw_ErrorPaths sw). \<forall>k \<in> set (ep_Steps p). k) \<and>
     (\<forall>p \<in> set (sw_TimerPaths sw). \<forall>k \<in> set (tp_Steps p). k) \<and>
     (\<forall>p \<in> set (sw_MessagePaths sw). \<forall>k \<in> set (mp_Steps p). k)"

definition binds_in :: "string set \<Rightarrow> (string, string) gomap \<Rightarrow> bool" where
  "binds_in D m \<longleftrightarrow> snd ` set m \<subseteq> D"

definition call_in :: "string set \<Rightarrow> bool CallPlanStep \<Rightarrow> bool" where
  "call_in D cp \<longleftrightarrow> binds_in D (cs_Departments cp) \<and>
     (\<forall>p \<in> set (cs_ErrorPaths cp). \<forall>k \<in> set (ep_Steps p). k) \<and>
     (\<forall>p \<in> set (cs_TimerPaths cp). \<forall>k \<in> set (tp_Steps p). k) \<and>
     (\<forall>p \<in> set (cs_MessagePaths cp). \<forall>k \<in> set (mp_Steps p). k)"

text \<open>Every department that the step names, at any depth, is in \<open>D\<close>.\<close>

primrec step_in :: "string set \<Rightarrow> ExecutionStep \<Rightarrow> bool" where
  "step_in D (ExecutionStep sequential par excl sub call msgs io extras) =
     (set sequential \<subseteq> D \<and>
      (\<forall>b \<in> set (map (map_ParallelBranch (step_in D)) par). branch_in D b) \<and>
      (\<forall>b \<in> set (map (map_ExclusiveBranch (step_in D)) excl). choice_in D b) \<and>
      (\<forall>sw \<in> set_option (map_option (map_SubWorkflowStep (step_in D)) sub). sub_in sw) \<and>
      (\<forall>cp \<in> set_option (map_option (map_CallPlanStep (step_in D)) call). call_in D cp) \<and>
      (\<forall>p \<in> set (map (map_MessagePath (step_in D)) msgs). \<forall>k \<in> set (mp_Steps p). k))"

abbreviation steps_in :: "string set \<Rightarrow> ExecutionStep list \<Rightarrow> bool" where
  "steps_in D steps \<equiv> \<forall>st \<in> set steps. step_in D st"

lemma branch_in_map [simp]:
  "branch_in D (map_ParallelBranch (step_in D) b) \<longleftrightarrow> pb_DeptID b \<in> insert [] D \<and> steps_in D (pb_Steps b)"
  by (cases b) (simp add: branch_in_def)

lemma choice_in_map [simp]:
  "choice_in D (map_ExclusiveBranch (step_in D) b) \<longleftrightarrow> xb_Target b \<in> insert [] D \<and> steps_in D (xb_Steps b)"
  by (cases b) (simp add: choice_in_def)

definition paths_in :: "string set \<Rightarrow> ExecutionStep ErrorPath list \<Rightarrow> ExecutionStep TimerPath list \<Rightarrow> ExecutionStep MessagePath list \<Rightarrow> bool" where
  "paths_in D errs timers msgs \<longleftrightarrow>
     (\<forall>p \<in> set errs. steps_in D (ep_Steps p)) \<and> (\<forall>p \<in> set timers. steps_in D (tp_Steps p)) \<and> (\<forall>p \<in> set msgs. steps_in D (mp_Steps p))"

lemma path_map_steps [simp]:
  "ep_Steps (map_ErrorPath f p) = map f (ep_Steps p)"
  "tp_Steps (map_TimerPath f q) = map f (tp_Steps q)"
  "mp_Steps (map_MessagePath f r) = map f (mp_Steps r)"
  by (simp_all add: ErrorPath.map_sel TimerPath.map_sel MessagePath.map_sel)

lemma sub_in_map [simp]:
  "sub_in (map_SubWorkflowStep (step_in D) sw) \<longleftrightarrow>
     steps_in D (sw_Plan sw) \<and> paths_in D (sw_ErrorPaths sw) (sw_TimerPaths sw) (sw_MessagePaths sw)"
  by (cases sw) (simp add: sub_in_def paths_in_def)

lemma call_in_map [simp]:
  "call_in D (map_CallPlanStep (step_in D) cp) \<longleftrightarrow>
     binds_in D (cs_Departments cp) \<and> paths_in D (cs_ErrorPaths cp) (cs_TimerPaths cp) (cs_MessagePaths cp)"
  by (cases cp) (simp add: call_in_def paths_in_def)

lemma step_in_cons:
  "step_in D (ExecutionStep sequential par excl sub call msgs io extras) \<longleftrightarrow>
     set sequential \<subseteq> D \<and>
     (\<forall>b \<in> set par. pb_DeptID b \<in> insert [] D \<and> steps_in D (pb_Steps b)) \<and>
     (\<forall>b \<in> set excl. xb_Target b \<in> insert [] D \<and> steps_in D (xb_Steps b)) \<and>
     (\<forall>sw. sub = Some sw \<longrightarrow> steps_in D (sw_Plan sw) \<and> paths_in D (sw_ErrorPaths sw) (sw_TimerPaths sw) (sw_MessagePaths sw)) \<and>
     (\<forall>cp. call = Some cp \<longrightarrow>
        binds_in D (cs_Departments cp) \<and> paths_in D (cs_ErrorPaths cp) (cs_TimerPaths cp) (cs_MessagePaths cp)) \<and>
     paths_in D [] [] msgs"
  by (auto simp: paths_in_def)

declare step_in.simps [simp del]

text \<open>The steps that a step holds, for induction on steps.\<close>

lemma path_steps_set:
  "st \<in> set (ep_Steps p) \<Longrightarrow> st \<in> set_ErrorPath p"
  "st \<in> set (tp_Steps q) \<Longrightarrow> st \<in> set_TimerPath q"
  "st \<in> set (mp_Steps r) \<Longrightarrow> st \<in> set_MessagePath r"
  "st \<in> set (pb_Steps b) \<Longrightarrow> st \<in> set_ParallelBranch b"
  "st \<in> set (xb_Steps c) \<Longrightarrow> st \<in> set_ExclusiveBranch c"
  by (cases p, simp, cases q, simp, cases r, simp, cases b, simp, cases c, simp)

lemma held_steps_set:
  "st \<in> set (sw_Plan sw) \<Longrightarrow> st \<in> set_SubWorkflowStep sw"
  "p \<in> set (sw_ErrorPaths sw) \<Longrightarrow> st \<in> set (ep_Steps p) \<Longrightarrow> st \<in> set_SubWorkflowStep sw"
  "q \<in> set (sw_TimerPaths sw) \<Longrightarrow> st \<in> set (tp_Steps q) \<Longrightarrow> st \<in> set_SubWorkflowStep sw"
  "r \<in> set (sw_MessagePaths sw) \<Longrightarrow> st \<in> set (mp_Steps r) \<Longrightarrow> st \<in> set_SubWorkflowStep sw"
  "p \<in> set (cs_ErrorPaths cp) \<Longrightarrow> st \<in> set (ep_Steps p) \<Longrightarrow> st \<in> set_CallPlanStep cp"
  "q \<in> set (cs_TimerPaths cp) \<Longrightarrow> st \<in> set (tp_Steps q) \<Longrightarrow> st \<in> set_CallPlanStep cp"
  "r \<in> set (cs_MessagePaths cp) \<Longrightarrow> st \<in> set (mp_Steps r) \<Longrightarrow> st \<in> set_CallPlanStep cp"
  by (cases sw; auto dest: path_steps_set)+ (cases cp; auto dest: path_steps_set)+

lemma paths_in_mono:
  assumes "paths_in D errs timers msgs"
    and "\<And>p st. p \<in> set errs \<Longrightarrow> st \<in> set (ep_Steps p) \<Longrightarrow> step_in D st \<Longrightarrow> step_in D' st"
    and "\<And>p st. p \<in> set timers \<Longrightarrow> st \<in> set (tp_Steps p) \<Longrightarrow> step_in D st \<Longrightarrow> step_in D' st"
    and "\<And>p st. p \<in> set msgs \<Longrightarrow> st \<in> set (mp_Steps p) \<Longrightarrow> step_in D st \<Longrightarrow> step_in D' st"
  shows "paths_in D' errs timers msgs"
  using assms unfolding paths_in_def by blast

lemma step_in_mono: "step_in D st \<Longrightarrow> D \<subseteq> D' \<Longrightarrow> step_in D' st"
proof (induction st)
  case (ExecutionStep sequential par excl sub call msgs io extras)
  note D = ExecutionStep.prems(2)
  from ExecutionStep.prems(1) have prems:
    "set sequential \<subseteq> D" "\<forall>b \<in> set par. pb_DeptID b \<in> insert [] D \<and> steps_in D (pb_Steps b)"
    "\<forall>b \<in> set excl. xb_Target b \<in> insert [] D \<and> steps_in D (xb_Steps b)"
    "\<And>sw. sub = Some sw \<Longrightarrow> steps_in D (sw_Plan sw)"
    "\<And>sw. sub = Some sw \<Longrightarrow> paths_in D (sw_ErrorPaths sw) (sw_TimerPaths sw) (sw_MessagePaths sw)"
    "\<And>cp. call = Some cp \<Longrightarrow> binds_in D (cs_Departments cp)"
    "\<And>cp. call = Some cp \<Longrightarrow> paths_in D (cs_ErrorPaths cp) (cs_TimerPaths cp) (cs_MessagePaths cp)"
    "paths_in D [] [] msgs" unfolding step_in_cons by blast+
  show ?case
    unfolding step_in_cons
  proof (intro conjI ballI allI impI)
    show "set sequential \<subseteq> D'" using prems(1) D by (rule subset_trans)
  next
    fix b st assume b: "b \<in> set par"
    show "pb_DeptID b \<in> insert [] D'" using prems(2) b D by blast
    assume st: "st \<in> set (pb_Steps b)"
    with prems(2) b have "step_in D st" by blast
    with ExecutionStep.IH(1) [OF b path_steps_set(4) [OF st]] D show "step_in D' st" by blast
  next
    fix b st assume b: "b \<in> set excl"
    show "xb_Target b \<in> insert [] D'" using prems(3) b D by blast
    assume st: "st \<in> set (xb_Steps b)"
    with prems(3) b have "step_in D st" by blast
    with ExecutionStep.IH(2) [OF b path_steps_set(5) [OF st]] D show "step_in D' st" by blast
  next
    fix sw st assume sw: "sub = Some sw"
    then have sub: "sw \<in> set_option sub" by simp
    show "paths_in D' (sw_ErrorPaths sw) (sw_TimerPaths sw) (sw_MessagePaths sw)"
      by (rule paths_in_mono [OF prems(5) [OF sw]]; rule ExecutionStep.IH(3) [OF sub])
        (erule (1) held_steps_set, assumption, rule D)+
    assume st: "st \<in> set (sw_Plan sw)"
    with prems(4) [OF sw] have "step_in D st" by blast
    with ExecutionStep.IH(3) [OF sub held_steps_set(1) [OF st]] D show "step_in D' st" by blast
  next
    fix cp assume cp: "call = Some cp"
    then have call: "cp \<in> set_option call" by simp
    show "binds_in D' (cs_Departments cp)" using prems(6) [OF cp] D unfolding binds_in_def by blast
    show "paths_in D' (cs_ErrorPaths cp) (cs_TimerPaths cp) (cs_MessagePaths cp)"
      by (rule paths_in_mono [OF prems(7) [OF cp]]; rule ExecutionStep.IH(4) [OF call])
        (erule (1) held_steps_set, assumption, rule D)+
  next
    show "paths_in D' [] [] msgs"
      by (rule paths_in_mono [OF prems(8)]) (simp, simp, rule ExecutionStep.IH(5), assumption, erule path_steps_set, assumption, rule D)
  qed
qed

lemma first_nonempty_in: "(\<And>d. d \<in> set ds \<Longrightarrow> d \<in> insert [] D) \<Longrightarrow> first_nonempty ds \<in> insert [] D"
  by (induction ds) auto

lemma FirstDepartment_in: "steps_in D steps \<Longrightarrow> FirstDepartment steps \<in> insert [] D"
proof -
  have hd_in: "FirstDepartment steps \<in> insert [] D" if "\<And>st rest. st \<in> set steps \<Longrightarrow> FirstDepartment (st # rest) \<in> insert [] D"
    for steps using that by (cases steps) auto
  have "step_in D st \<Longrightarrow> FirstDepartment (st # rest) \<in> insert [] D" for st rest
  proof (induction st arbitrary: rest)
    case (ExecutionStep sequential par excl sub call msgs io extras)
    from ExecutionStep.prems have prems:
      "set sequential \<subseteq> D" "\<forall>b \<in> set par. steps_in D (pb_Steps b)" "\<forall>b \<in> set excl. steps_in D (xb_Steps b)"
      "\<And>sw. sub = Some sw \<Longrightarrow> steps_in D (sw_Plan sw)" unfolding step_in_cons by blast+
    have par: "FirstDepartment (pb_Steps b) \<in> insert [] D" if b: "b \<in> set par" for b
      using prems(2) b by - (rule hd_in, rule ExecutionStep.IH(1) [OF b path_steps_set(4)], blast+)
    have excl: "FirstDepartment (xb_Steps b) \<in> insert [] D" if b: "b \<in> set excl" for b
      using prems(3) b by - (rule hd_in, rule ExecutionStep.IH(2) [OF b path_steps_set(5)], blast+)
    have sub: "FirstDepartment (sw_Plan sw) \<in> insert [] D" if sw: "sub = Some sw" for sw
    proof (rule hd_in)
      fix st rest assume st: "st \<in> set (sw_Plan sw)"
      from sw have "sw \<in> set_option sub" by simp
      from ExecutionStep.IH(3) [OF this held_steps_set(1) [OF st]] prems(4) [OF sw] st
      show "FirstDepartment (st # rest) \<in> insert [] D" by blast
    qed
    have rest: "first_nonempty (map (\<lambda>b. FirstDepartment (pb_Steps b)) par @ map (\<lambda>b. FirstDepartment (xb_Steps b)) excl) \<in> insert [] D"
      using par excl by (intro first_nonempty_in) (auto simp only: set_append set_map)
    have "sequential \<noteq> [] \<Longrightarrow> hd sequential \<in> D" using prems(1) hd_in_set by blast
    with sub rest show ?case by (cases sub) simp_all
  qed
  moreover assume "steps_in D steps"
  ultimately show ?thesis by - (rule hd_in, blast)
qed

end
