(* ===== verification/Plan_Closed.thy ===== *)
theory Plan_Closed
  imports Plan_Steps
begin

text \<open>
  A plan is closed when its departments have different identifiers and every step, those below its stages included,
  runs in departments of the plan.  \<open>ResolveTargets\<close> closes what it resolves.
\<close>

definition stage_in :: "string set \<Rightarrow> StageDef \<Rightarrow> bool" where
  "stage_in D st \<longleftrightarrow> (\<forall>bt \<in> set_option (sg_BoundaryTimer st). steps_in D (bt_Steps bt)) \<and>
     (\<forall>mp \<in> set_option (sg_BoundaryMessage st). steps_in D (mp_Steps mp))"

definition plan_ids :: "DepartmentDef list \<Rightarrow> string set" where
  "plan_ids depts = dd_ID ` set depts"

definition plan_closed :: "CompiledPlan \<Rightarrow> bool" where
  "plan_closed pl \<longleftrightarrow> distinct (map dd_ID (pl_Departments pl)) \<and>
     steps_in (plan_ids (pl_Departments pl)) (pl_Steps pl) \<and>
     (\<forall>d \<in> set (pl_Departments pl). \<forall>st \<in> set (dd_Stages d). stage_in (plan_ids (pl_Departments pl)) st)"

lemma stage_in_mono: "stage_in D st \<Longrightarrow> D \<subseteq> D' \<Longrightarrow> stage_in D' st"
  unfolding stage_in_def using step_in_mono [of D _ D'] by blast

lemma those_map_Some: "those (map f xs) = Some ys \<Longrightarrow> y \<in> set ys \<Longrightarrow> \<exists>x \<in> set xs. f x = Some y"
  by (induction xs arbitrary: ys) (auto split: option.splits)

lemma those_map_length: "those (map f xs) = Some ys \<Longrightarrow> (\<And>x y. f x = Some y \<Longrightarrow> h y = k x) \<Longrightarrow> map h ys = map k xs"
  by (induction xs arbitrary: ys) (auto split: option.splits)

lemma resolved_paths:
  assumes "\<And>b steps. J b = Some steps \<Longrightarrow> steps_in D steps"
    and "those (map (resolve_error R J) errs) = Some errs'" "those (map (resolve_timer R J) timers) = Some timers'"
      "those (map (resolve_message R J) msgs) = Some msgs'"
  shows "paths_in D errs' timers' msgs'"
proof -
  have "steps_in D (ep_Steps p)" if "p \<in> set errs'" for p
    using those_map_Some [OF assms(2) that] assms(1) by (auto simp: resolve_error_def)
  moreover have "steps_in D (tp_Steps p)" if "p \<in> set timers'" for p
    using those_map_Some [OF assms(3) that] assms(1) by (auto simp: resolve_timer_def)
  moreover have "steps_in D (mp_Steps p)" if "p \<in> set msgs'" for p
    using those_map_Some [OF assms(4) that] assms(1) by (auto simp: resolve_message_def)
  ultimately show ?thesis by (simp add: paths_in_def)
qed

lemma resolve_step_in:
  assumes J: "\<And>b steps. J b = Some steps \<Longrightarrow> steps_in D steps"
  shows "step_in D st \<Longrightarrow> resolve_step R J st = Some st' \<Longrightarrow> step_in D st'"
proof (induction st arbitrary: st')
  case (ExecutionStep sequential par excl sub call msgs io extras)
  from ExecutionStep.prems(1) have prems: "set sequential \<subseteq> D"
    "\<forall>b \<in> set par. pb_DeptID b \<in> insert [] D \<and> steps_in D (pb_Steps b)"
    "\<forall>b \<in> set excl. xb_Target b \<in> insert [] D \<and> steps_in D (xb_Steps b)"
    "\<And>sw. sub = Some sw \<Longrightarrow> steps_in D (sw_Plan sw)"
    "\<And>cp. call = Some cp \<Longrightarrow> binds_in D (cs_Departments cp)" unfolding step_in_cons by blast+
  from ExecutionStep.prems(2) obtain msgs' par' excl' sub' call' where
    m: "those (map (resolve_message R J) msgs) = Some msgs'"
    and p: "those (map resolve_parallel (map (map_ParallelBranch (resolve_step R J)) par)) = Some par'"
    and e: "those (map (resolve_exclusive R) (map (map_ExclusiveBranch (resolve_step R J)) excl)) = Some excl'"
    and s: "map_pointer (resolve_sub R J) (map_option (map_SubWorkflowStep (resolve_step R J)) sub) = Some sub'"
    and c: "map_pointer (resolve_call R J) call = Some call'"
    and st': "st' = ExecutionStep sequential par' excl' sub' call' msgs' io extras"
    by (auto simp: bind_eq_Some_conv)
  have par: "pb_DeptID b' \<in> insert [] D \<and> steps_in D (pb_Steps b')" if b': "b' \<in> set par'" for b'
  proof -
    from those_map_Some [OF p b'] obtain b where b: "b \<in> set par" "resolve_parallel (map_ParallelBranch (resolve_step R J) b) = Some b'"
      by auto
    then obtain steps where steps: "those (map (resolve_step R J) (pb_Steps b)) = Some steps" "b' = ParallelBranch (pb_DeptID b) steps"
      by (auto simp: resolve_parallel_def ParallelBranch.map_sel)
    have "step_in D st'" if "st' \<in> set steps" for st'
    proof -
      from those_map_Some [OF steps(1) that] obtain st where st: "st \<in> set (pb_Steps b)" "resolve_step R J st = Some st'" by blast
      with ExecutionStep.IH(1) [OF b(1) path_steps_set(4) [OF st(1)] _ st(2)] prems(2) b(1) show ?thesis by blast
    qed
    with prems(2) b(1) steps(2) show ?thesis by simp
  qed
  have excl: "xb_Target b' \<in> insert [] D \<and> steps_in D (xb_Steps b')" if b': "b' \<in> set excl'" for b'
  proof -
    from those_map_Some [OF e b'] obtain b where b: "b \<in> set excl" "resolve_exclusive R (map_ExclusiveBranch (resolve_step R J) b) = Some b'"
      by auto
    then obtain steps where steps: "those (map (resolve_step R J) (xb_Steps b)) = Some steps" "xb_Target b' = xb_Target b" "xb_Steps b' = steps"
      by (auto simp: resolve_exclusive_def ExclusiveBranch.map_sel)
    have "step_in D st'" if "st' \<in> set steps" for st'
    proof -
      from those_map_Some [OF steps(1) that] obtain st where st: "st \<in> set (xb_Steps b)" "resolve_step R J st = Some st'" by blast
      with ExecutionStep.IH(2) [OF b(1) path_steps_set(5) [OF st(1)] _ st(2)] prems(3) b(1) show ?thesis by blast
    qed
    with prems(3) b(1) steps(2,3) show ?thesis by simp
  qed
  have sub: "steps_in D (sw_Plan sw') \<and> paths_in D (sw_ErrorPaths sw') (sw_TimerPaths sw') (sw_MessagePaths sw')" if "sub' = Some sw'" for sw'
  proof -
    from s that obtain sw where sw: "sub = Some sw" "resolve_sub R J (map_SubWorkflowStep (resolve_step R J) sw) = Some sw'"
      by (cases sub) (auto simp: map_pointer_def)
    then obtain errs timers msgs plan where r:
      "those (map (resolve_error R J) (sw_ErrorPaths (map_SubWorkflowStep (resolve_step R J) sw))) = Some errs"
      "those (map (resolve_timer R J) (sw_TimerPaths (map_SubWorkflowStep (resolve_step R J) sw))) = Some timers"
      "those (map (resolve_message R J) (sw_MessagePaths (map_SubWorkflowStep (resolve_step R J) sw))) = Some msgs"
      "those (map (resolve_step R J) (sw_Plan sw)) = Some plan" "sw_Plan sw' = plan"
      "sw_ErrorPaths sw' = errs" "sw_TimerPaths sw' = timers" "sw_MessagePaths sw' = msgs"
      by (auto simp: resolve_sub_def bind_eq_Some_conv SubWorkflowStep.map_sel)
    have "step_in D st'" if "st' \<in> set plan" for st'
    proof -
      from those_map_Some [OF r(4) that] obtain st where st: "st \<in> set (sw_Plan sw)" "resolve_step R J st = Some st'" by blast
      from sw(1) have "sw \<in> set_option sub" by simp
      from ExecutionStep.IH(3) [OF this held_steps_set(1) [OF st(1)] _ st(2)] prems(4) [OF sw(1)] st(1) show ?thesis by blast
    qed
    with resolved_paths [where J = J and D = D and R = R, OF J r(1-3)] r(5-8) show ?thesis by simp
  qed
  have call: "binds_in D (cs_Departments cp') \<and> paths_in D (cs_ErrorPaths cp') (cs_TimerPaths cp') (cs_MessagePaths cp')" if "call' = Some cp'" for cp'
  proof -
    from c that obtain cp where cp: "call = Some cp" "resolve_call R J cp = Some cp'"
      by (cases call) (auto simp: map_pointer_def)
    then obtain errs timers msgs where "those (map (resolve_error R J) (cs_ErrorPaths cp)) = Some errs"
      "those (map (resolve_timer R J) (cs_TimerPaths cp)) = Some timers" "those (map (resolve_message R J) (cs_MessagePaths cp)) = Some msgs"
      "cs_ErrorPaths cp' = errs" "cs_TimerPaths cp' = timers" "cs_MessagePaths cp' = msgs" "cs_Departments cp' = cs_Departments cp"
      by (auto simp: resolve_call_def bind_eq_Some_conv)
    with resolved_paths [where J = J and D = D and R = R, OF J] prems(5) [OF cp(1)] show ?thesis by simp
  qed
  have "paths_in D [] [] msgs'" by (rule resolved_paths [where errs = "[]" and timers = "[]", OF J _ _ m]) simp_all
  with prems(1) par excl sub call show ?case unfolding st' step_in_cons by blast
qed

lemma resolve_steps_in:
  assumes "\<And>b steps. J b = Some steps \<Longrightarrow> steps_in D steps" "steps_in D steps" "those (map (resolve_step R J) steps) = Some steps'"
  shows "steps_in D steps'"
proof
  fix st' assume "st' \<in> set steps'"
  from those_map_Some [OF assms(3) this] obtain st where st: "st \<in> set steps" "resolve_step R J st = Some st'" by blast
  show "step_in D st'" by (rule resolve_step_in [OF _ _ st(2)]) (use assms(1,2) st(1) in blast)+
qed

lemma path_steps_in:
  assumes "\<And>b. steps_in D (mget_or [] (sd_boundarySteps (c_sd s)) b)"
  shows "path_steps n s b = Some steps \<Longrightarrow> steps_in D steps"
proof (induction n arbitrary: b steps)
  case (Suc n)
  from Suc.IH assms Suc.prems [unfolded path_steps.simps] show ?case by (rule resolve_steps_in)
qed simp

lemma ResolveTargets_closed:
  assumes res: "ResolveTargets s = Some s'"
    and D: "D = plan_ids (sd_depts (c_sd s))"
    and steps: "steps_in D (c_steps s)"
    and paths: "\<And>b. steps_in D (mget_or [] (sd_boundarySteps (c_sd s)) b)"
  shows "map dd_ID (sd_depts (c_sd s')) = map dd_ID (sd_depts (c_sd s))" "plan_ids (sd_depts (c_sd s')) = D"
    "steps_in D (c_steps s')" "\<And>d st. d \<in> set (sd_depts (c_sd s')) \<Longrightarrow> st \<in> set (dd_Stages d) \<Longrightarrow> stage_in D st"
    "map dd_Label (sd_depts (c_sd s')) = map dd_Label (sd_depts (c_sd s))"
    "map (\<lambda>d. map sg_NodeID (dd_Stages d)) (sd_depts (c_sd s')) = map (\<lambda>d. map sg_NodeID (dd_Stages d)) (sd_depts (c_sd s))"
proof -
  from res obtain depts steps' where d: "those (map (resolve_dept s) (sd_depts (c_sd s))) = Some depts"
    and st: "those (map (resolve_step (resolve_ref s) (pathSteps s)) (c_steps s)) = Some steps'"
    and s': "s' = s\<lparr>c_sd := (c_sd s)\<lparr>sd_depts := depts\<rparr>, c_steps := steps'\<rparr>"
    by (auto simp: ResolveTargets_def bind_eq_Some_conv)
  have J: "steps_in D steps" if "pathSteps s b = Some steps" for b steps
    using path_steps_in [OF paths] that unfolding pathSteps_def .
  show ids: "map dd_ID (sd_depts (c_sd s')) = map dd_ID (sd_depts (c_sd s))"
    unfolding s' by simp (rule those_map_length [OF d], auto simp: resolve_dept_def)
  from arg_cong [OF this, of set] show "plan_ids (sd_depts (c_sd s')) = D" by (simp add: plan_ids_def D)
  show "map dd_Label (sd_depts (c_sd s')) = map dd_Label (sd_depts (c_sd s))"
    unfolding s' by simp (rule those_map_length [OF d], auto simp: resolve_dept_def)
  have stages: "sg_NodeID st' = sg_NodeID st \<and> stage_in D st'" if "resolve_stage s st = Some st'" for st st'
    using that J by (auto simp: resolve_stage_def stage_in_def map_pointer_def resolve_message_def bind_eq_Some_conv split: option.splits)
  have "map sg_NodeID (dd_Stages d') = map sg_NodeID (dd_Stages d)" if "resolve_dept s d = Some d'" for d d'
    using that stages those_map_length [of "resolve_stage s" "dd_Stages d" _ sg_NodeID sg_NodeID] by (auto simp: resolve_dept_def)
  from those_map_length [OF d this]
  show "map (\<lambda>d. map sg_NodeID (dd_Stages d)) (sd_depts (c_sd s')) = map (\<lambda>d. map sg_NodeID (dd_Stages d)) (sd_depts (c_sd s))"
    by (simp add: s')
  show "steps_in D (c_steps s')" using resolve_steps_in [OF J steps st] by (simp add: s')
  show "stage_in D st" if "d \<in> set (sd_depts (c_sd s'))" "st \<in> set (dd_Stages d)" for d st
  proof -
    from that(1) have "d \<in> set depts" by (simp add: s')
    from those_map_Some [OF d this] obtain d0 where "resolve_dept s d0 = Some d" by blast
    then obtain sts where "those (map (resolve_stage s) (dd_Stages d0)) = Some sts" "dd_Stages d = sts"
      by (auto simp: resolve_dept_def)
    with those_map_Some [of "resolve_stage s" "dd_Stages d0" sts st] that(2) stages show ?thesis by blast
  qed
qed

subsection \<open>Open slots\<close>

lemma withOpenSlots_extends:
  "set depts \<subseteq> set (withOpenSlots depts p)"
  "distinct (map dd_ID depts) \<Longrightarrow> distinct (map dd_ID (withOpenSlots depts p))"
  "d \<in> set (withOpenSlots depts p) \<Longrightarrow> d \<in> set depts \<or> dd_Stages d = []"
  "(\<Sum>d\<leftarrow>withOpenSlots depts p. length (dd_Stages d)) = (\<Sum>d\<leftarrow>depts. length (dd_Stages d))"
proof -
  let ?add = "\<lambda>slot ds. if \<exists>d \<in> set ds. dd_ID d = slot then ds
      else ds @ [\<lparr>dd_ID = slot, dd_Label = slot, dd_IAMDepartmentID = [], dd_Stages = []\<rparr>]"
  have "set depts \<subseteq> set (fold ?add slots depts) \<and> (distinct (map dd_ID depts) \<longrightarrow> distinct (map dd_ID (fold ?add slots depts))) \<and>
      (d \<in> set (fold ?add slots depts) \<longrightarrow> d \<in> set depts \<or> dd_Stages d = []) \<and>
      (\<Sum>d\<leftarrow>fold ?add slots depts. length (dd_Stages d)) = (\<Sum>d\<leftarrow>depts. length (dd_Stages d))" for slots d depts
  proof (induction slots arbitrary: depts)
    case (Cons slot slots)
    show ?case using Cons.IH [of "?add slot depts"] by (auto split: if_splits)
  qed simp
  from this [of depts "OpenSlots p" d] show "set depts \<subseteq> set (withOpenSlots depts p)"
    "distinct (map dd_ID depts) \<Longrightarrow> distinct (map dd_ID (withOpenSlots depts p))"
    "d \<in> set (withOpenSlots depts p) \<Longrightarrow> d \<in> set depts \<or> dd_Stages d = []"
    "(\<Sum>d\<leftarrow>withOpenSlots depts p. length (dd_Stages d)) = (\<Sum>d\<leftarrow>depts. length (dd_Stages d))"
    unfolding withOpenSlots_def by blast+
qed

subsection \<open>Called plans\<close>

definition plan_stages :: "CompiledPlan \<Rightarrow> nat" where
  "plan_stages pl = (\<Sum>d\<leftarrow>pl_Departments pl. length (dd_Stages d))"

definition plan_ok :: "CompiledPlan \<Rightarrow> bool" where
  "plan_ok pl \<longleftrightarrow> plan_closed pl \<and> plan_stages pl \<le> Suc StageBudget"

definition plans_ok :: "CalledPlans \<Rightarrow> bool" where
  "plans_ok c \<longleftrightarrow> (\<forall>pl. Some pl \<in> ran (map_of c) \<longrightarrow> plan_ok pl)"

definition plans_grow :: "CalledPlans \<Rightarrow> CalledPlans \<Rightarrow> bool" where
  "plans_grow c c' \<longleftrightarrow> dom (map_of c) \<subseteq> dom (map_of c') \<and> (plans_ok c \<longrightarrow> plans_ok c')"

lemma plans_grow_refl [simp]: "plans_grow c c"
  by (simp add: plans_grow_def)

lemma plans_grow_trans: "plans_grow a b \<Longrightarrow> plans_grow b c \<Longrightarrow> plans_grow a c"
  by (auto simp: plans_grow_def)

lemma plans_ok_mput: "plans_ok c \<Longrightarrow> (\<And>pl. v = Some pl \<Longrightarrow> plan_ok pl) \<Longrightarrow> plans_ok (mput k v c)"
  by (auto simp: plans_ok_def update_conv ran_def split: if_splits)

lemma All_plans_ok: "plans_ok c \<Longrightarrow> pl \<in> set (All_plans c) \<Longrightarrow> plan_ok pl"
  unfolding All_plans_def List.map_filter_def mget_or_def plans_ok_def ran_def by (auto split: option.splits) metis

end
