(* ===== verification/Plan_Safe.thy ===== *)
theory Plan_Safe
  imports Plan_Closed
begin

text \<open>
  What holds of the plan compiler's state at every moment: the store of departments is well formed and within the
  budget, every department that a step, a buffer or a placement names is in it, and it only grows.  The handlers keep
  the contract of the traversal that they call back (locale \<open>safe_traversal\<close>), so \<open>TraverseNode\<close> keeps it with any fuel.
\<close>

subsection \<open>Well-formed states\<close>

definition dept_ids :: "sharedDeptsStore \<Rightarrow> string set" where
  "dept_ids sd = dd_ID ` set (sd_depts sd)"

definition indexed :: "sharedDeptsStore \<Rightarrow> bool" where
  "indexed sd \<longleftrightarrow> distinct (map dd_ID (sd_depts sd)) \<and>
     (\<forall>k i. map_of (sd_deptIdx sd) k = Some i \<longleftrightarrow> i < length (sd_depts sd) \<and> dd_ID (sd_depts sd ! i) = k)"

definition segments_exist :: "sharedDeptsStore \<Rightarrow> bool" where
  "segments_exist sd \<longleftrightarrow>
     (\<forall>lane k. 1 \<le> k \<longrightarrow> k \<le> mget_or 0 (sd_segments sd) lane \<longrightarrow> segmentID lane k \<in> dept_ids sd)"

definition within_budget :: "sharedDeptsStore \<Rightarrow> bool" where
  "within_budget sd \<longleftrightarrow> sd_stages sd = (\<Sum>d\<leftarrow>sd_depts sd. length (dd_Stages d)) \<and>
     sd_stages sd \<le> Suc StageBudget \<and> sd_nodes sd \<le> nodeBudget"

definition plan_store_ok :: "sharedDeptsStore \<Rightarrow> bool" where
  "plan_store_ok sd \<longleftrightarrow> indexed sd \<and> segments_exist sd \<and> within_budget sd \<and>
     ran (map_of (sd_nodeSegment sd)) \<subseteq> dept_ids sd \<and>
     (\<forall>steps \<in> ran (map_of (sd_boundarySteps sd)). steps_in (dept_ids sd) steps)"

definition plan_state_ok :: "CompileState \<Rightarrow> bool" where
  "plan_state_ok s \<longleftrightarrow> plan_store_ok (c_sd s) \<and> c_openSegment s \<in> insert [] (dept_ids (c_sd s)) \<and>
     set (c_seqBuf s) \<subseteq> dept_ids (c_sd s) \<and> steps_in (dept_ids (c_sd s)) (c_steps s) \<and>
     ran (map_of (c_pathSegment s)) \<subseteq> dept_ids (c_sd s) \<and> c_visited s \<subseteq> sd_visited (c_sd s)"

subsection \<open>Growth\<close>

definition dept_le :: "DepartmentDef \<Rightarrow> DepartmentDef \<Rightarrow> bool" where
  "dept_le d d' \<longleftrightarrow> dd_ID d' = dd_ID d \<and> dd_Label d' = dd_Label d \<and> dd_IAMDepartmentID d' = dd_IAMDepartmentID d \<and>
     prefix (dd_Stages d) (dd_Stages d')"

definition store_grows :: "sharedDeptsStore \<Rightarrow> sharedDeptsStore \<Rightarrow> bool" where
  "store_grows sd sd' \<longleftrightarrow>
     length (sd_depts sd) \<le> length (sd_depts sd') \<and>
     (\<forall>i < length (sd_depts sd). dept_le (sd_depts sd ! i) (sd_depts sd' ! i)) \<and>
     sd_visited sd \<subseteq> sd_visited sd' \<and> sd_nodes sd \<le> sd_nodes sd' \<and> map_of (sd_nodeSegment sd) \<subseteq>\<^sub>m map_of (sd_nodeSegment sd')"

definition same_process :: "CompileState \<Rightarrow> CompileState \<Rightarrow> bool" where
  "same_process s s' \<longleftrightarrow>
     c_Proc s' = c_Proc s \<and> c_G s' = c_G s \<and> c_condExprs s' = c_condExprs s \<and> c_backEdges s' = c_backEdges s \<and>
     c_skipped s' = c_skipped s \<and> c_StopAt s' = c_StopAt s \<and> c_defaultLane s' = c_defaultLane s \<and>
     c_defaultIAMDeptID s' = c_defaultIAMDeptID s \<and> c_segmentStarts s' = c_segmentStarts s \<and>
     c_stopAtCompiled s' = c_stopAtCompiled s"

definition grows :: "CompileState \<Rightarrow> CompileState \<Rightarrow> bool" where
  "grows s s' \<longleftrightarrow> same_process s s' \<and> store_grows (c_sd s) (c_sd s') \<and>
     plans_grow (c_Called s) (c_Called s') \<and> c_visited s \<subseteq> c_visited s'"

definition evolved :: "CompileState \<Rightarrow> CompileState \<Rightarrow> bool" where
  "evolved s s' \<longleftrightarrow> plan_state_ok s' \<and> grows s s'"

lemma dept_le_refl [simp]: "dept_le d d"
  by (simp add: dept_le_def)

lemma dept_le_trans: "dept_le a b \<Longrightarrow> dept_le b c \<Longrightarrow> dept_le a c"
  by (auto simp: dept_le_def intro: prefix_order.trans)

lemma store_grows_refl [simp]: "store_grows sd sd"
  by (simp add: store_grows_def)

lemma store_grows_trans: "store_grows a b \<Longrightarrow> store_grows b c \<Longrightarrow> store_grows a c"
  unfolding store_grows_def by (auto intro: dept_le_trans map_le_trans)

lemma grows_trans: "grows a b \<Longrightarrow> grows b c \<Longrightarrow> grows a c"
  unfolding grows_def same_process_def by (simp, blast intro: store_grows_trans plans_grow_trans)

lemma evolved_refl: "plan_state_ok s \<Longrightarrow> evolved s s"
  by (simp add: evolved_def grows_def same_process_def)

lemma evolved_trans [trans]: "evolved a b \<Longrightarrow> evolved b c \<Longrightarrow> evolved a c"
  unfolding evolved_def by (blast intro: grows_trans)

lemma evolved_ok: "evolved a b \<Longrightarrow> plan_state_ok b"
  by (simp add: evolved_def)

lemma store_grows_ids: "store_grows sd sd' \<Longrightarrow> dept_ids sd \<subseteq> dept_ids sd'"
proof
  fix k assume "store_grows sd sd'" and "k \<in> dept_ids sd"
  then obtain i where "i < length (sd_depts sd)" "k = dd_ID (sd_depts sd ! i)" by (auto simp: dept_ids_def in_set_conv_nth)
  with \<open>store_grows sd sd'\<close> have "k = dd_ID (sd_depts sd' ! i)" "i < length (sd_depts sd')"
    by (auto simp: store_grows_def dept_le_def)
  then show "k \<in> dept_ids sd'" by (auto simp: dept_ids_def)
qed

text \<open>A state that takes over a store that has grown keeps its own part well formed.\<close>

lemma adopt:
  assumes "plan_state_ok s" "plan_store_ok sd'" "store_grows (c_sd s) sd'" "plans_grow (c_Called s) called"
  shows "evolved s (s\<lparr>c_sd := sd', c_Called := called, c_rejoined := r\<rparr>)"
proof -
  note D = store_grows_ids [OF assms(3)]
  have "sd_visited (c_sd s) \<subseteq> sd_visited sd'" using assms(3) by (simp add: store_grows_def)
  then have "plan_state_ok (s\<lparr>c_sd := sd', c_Called := called, c_rejoined := r\<rparr>)"
    using assms(1,2) D by (auto simp: plan_state_ok_def intro: step_in_mono)
  then show ?thesis using assms(3,4) by (simp add: evolved_def grows_def same_process_def)
qed

subsection \<open>The store\<close>

lemma indexed_known: "indexed sd \<Longrightarrow> map_of (sd_deptIdx sd) k \<noteq> None \<longleftrightarrow> k \<in> dept_ids sd"
proof -
  assume "indexed sd"
  then have "(\<exists>i. map_of (sd_deptIdx sd) k = Some i) \<longleftrightarrow> (\<exists>i < length (sd_depts sd). dd_ID (sd_depts sd ! i) = k)"
    by (simp add: indexed_def)
  moreover have "k \<in> dept_ids sd \<longleftrightarrow> (\<exists>i < length (sd_depts sd). dd_ID (sd_depts sd ! i) = k)"
    unfolding dept_ids_def set_map [symmetric] in_set_conv_nth by auto
  ultimately show ?thesis by (simp only: not_None_eq)
qed

lemma EnsureDept_fields [simp]:
  "sd_segments (EnsureDept k l i sd) = sd_segments sd" "sd_nodeSegment (EnsureDept k l i sd) = sd_nodeSegment sd"
  "sd_visited (EnsureDept k l i sd) = sd_visited sd" "sd_boundarySteps (EnsureDept k l i sd) = sd_boundarySteps sd"
  "sd_stages (EnsureDept k l i sd) = sd_stages sd" "sd_nodes (EnsureDept k l i sd) = sd_nodes sd"
  "(\<Sum>d\<leftarrow>sd_depts (EnsureDept k l i sd). length (dd_Stages d)) = (\<Sum>d\<leftarrow>sd_depts sd. length (dd_Stages d))"
  by (simp_all add: EnsureDept_def)

lemma dept_ids_EnsureDept: "indexed sd \<Longrightarrow> dept_ids (EnsureDept k l i sd) = insert k (dept_ids sd)"
  using indexed_known [of sd k] by (auto simp: EnsureDept_def dept_ids_def)

lemma EnsureDept_grows: "store_grows sd (EnsureDept k l i sd)"
  by (simp add: store_grows_def EnsureDept_def nth_append)

lemma indexed_EnsureDept: "indexed sd \<Longrightarrow> indexed (EnsureDept k l iam sd)"
proof (cases "map_of (sd_deptIdx sd) k = None")
  case True
  assume ix: "indexed sd"
  with True have new: "k \<notin> dept_ids sd" using indexed_known [of sd k] by blast
  then have "dd_ID (sd_depts sd ! i) \<noteq> k" if "i < length (sd_depts sd)" for i using that by (auto simp: dept_ids_def)
  note other = this
  have old: "map_of (sd_deptIdx sd) k' = Some i \<longleftrightarrow> i < length (sd_depts sd) \<and> dd_ID (sd_depts sd ! i) = k'" for k' i
    using ix by (simp add: indexed_def)
  have "map_of (sd_deptIdx (EnsureDept k l iam sd)) k' = Some i \<longleftrightarrow>
      i < length (sd_depts (EnsureDept k l iam sd)) \<and> dd_ID (sd_depts (EnsureDept k l iam sd) ! i) = k'" for k' i
    using True old [of k' i] other [of i] by (cases "k' = k") (auto simp: EnsureDept_def update_conv nth_append less_Suc_eq)
  moreover have "distinct (map dd_ID (sd_depts (EnsureDept k l iam sd)))"
    using ix True new by (auto simp: indexed_def EnsureDept_def dept_ids_def)
  ultimately show ?thesis by (simp add: indexed_def)
qed (simp add: EnsureDept_def)

lemma steps_in_mono: "steps_in D steps \<Longrightarrow> D \<subseteq> D' \<Longrightarrow> steps_in D' steps"
  by (blast intro: step_in_mono)

lemma plan_store_ok_cong:
  assumes "plan_store_ok sd" "indexed sd'" "segments_exist sd'" "dept_ids sd \<subseteq> dept_ids sd'"
    "sd_nodeSegment sd' = sd_nodeSegment sd" "sd_boundarySteps sd' = sd_boundarySteps sd"
    "sd_stages sd' = sd_stages sd" "sd_nodes sd' = sd_nodes sd"
    "(\<Sum>d\<leftarrow>sd_depts sd'. length (dd_Stages d)) = (\<Sum>d\<leftarrow>sd_depts sd. length (dd_Stages d))"
  shows "plan_store_ok sd'"
  using assms steps_in_mono [OF _ assms(4)] unfolding plan_store_ok_def within_budget_def by auto

lemma EnsureDept_segment:
  fixes sd lane iam n
  defines "sd' \<equiv> EnsureDept (segmentID lane (Suc n)) lane iam (sd\<lparr>sd_segments := mput lane (Suc n) (sd_segments sd)\<rparr>)"
  assumes ok: "plan_store_ok sd" and n: "n = mget_or 0 (sd_segments sd) lane"
  shows "plan_store_ok sd'" "store_grows sd sd'" "segmentID lane (Suc n) \<in> dept_ids sd'"
proof -
  let ?sd = "sd\<lparr>sd_segments := mput lane (Suc n) (sd_segments sd)\<rparr>"
  have ix: "indexed ?sd" using ok by (simp add: plan_store_ok_def indexed_def)
  have ids: "dept_ids ?sd = dept_ids sd" by (simp add: dept_ids_def)
  from dept_ids_EnsureDept [OF ix] have ids': "dept_ids sd' = insert (segmentID lane (Suc n)) (dept_ids sd)"
    unfolding sd'_def ids .
  then show "segmentID lane (Suc n) \<in> dept_ids sd'" by simp
  show "store_grows sd sd'" using EnsureDept_grows [of ?sd] unfolding sd'_def by (simp add: store_grows_def)
  have "indexed sd'" unfolding sd'_def by (rule indexed_EnsureDept [OF ix])
  moreover have "segments_exist sd'"
    using ok unfolding plan_store_ok_def segments_exist_def ids' unfolding sd'_def
    by (auto simp: n less_Suc_eq_le [symmetric] less_Suc_eq)
  moreover have "dept_ids sd \<subseteq> dept_ids sd'" using ids' by blast
  ultimately show "plan_store_ok sd'" by (rule plan_store_ok_cong [OF ok]) (simp_all add: sd'_def)
qed

lemma next_segment_ok:
  assumes "plan_store_ok sd"
  shows "\<exists>seg sd'. next_segment lane iam sd = retT (seg, sd') \<and> plan_store_ok sd' \<and> store_grows sd sd' \<and> seg \<in> dept_ids sd' \<and>
    sd_stages sd' = sd_stages sd"
proof -
  define n where "n = mget_or 0 (sd_segments sd) lane"
  have ix: "indexed sd" using assms by (simp add: plan_store_ok_def)
  note new = EnsureDept_segment [OF assms n_def, where iam = iam]
  show ?thesis
  proof (cases "map_of (sd_deptIdx sd) (segmentID lane n)")
    case None
    with new show ?thesis by (simp add: next_segment_def needs_segment_def Let_def flip: n_def)
  next
    case (Some i)
    with ix have "i < length (sd_depts sd)" and "segmentID lane n \<in> dept_ids sd"
      using indexed_known [of sd] by (auto simp: indexed_def)
    with Some new assms show ?thesis
      by (cases "n = 0") (simp_all add: next_segment_def needs_segment_def Let_def flip: n_def)
  qed
qed

lemma NamedLaneDepartment_ok:
  assumes ok: "plan_state_ok s" and r: "NamedLaneDepartment lane iam s = (d, s')"
  shows "evolved s s'" "d \<in> dept_ids (c_sd s')" "c_steps s' = c_steps s"
proof -
  have st: "plan_store_ok (c_sd s)" using ok by (simp add: plan_state_ok_def)
  have named: "segmentID lane (Suc 0) = lane" by (simp add: segmentID_def)
  have "evolved s s' \<and> d \<in> dept_ids (c_sd s')"
  proof (cases "mget_or 0 (sd_segments (c_sd s)) lane")
    case 0
    note new = EnsureDept_segment [OF st 0 [symmetric], where iam = iam, unfolded named]
    with adopt [OF ok new(1,2) plans_grow_refl, of "c_rejoined s"] r 0 show ?thesis
      by (auto simp: NamedLaneDepartment_def)
  next
    case (Suc n)
    then have "segmentID lane 1 \<in> dept_ids (c_sd s)" using st by (simp add: plan_store_ok_def segments_exist_def)
    with r Suc ok named show ?thesis by (auto simp: NamedLaneDepartment_def intro: evolved_refl)
  qed
  then show "evolved s s'" "d \<in> dept_ids (c_sd s')" by blast+
  show "c_steps s' = c_steps s" using r by (auto simp: NamedLaneDepartment_def split: if_splits)
qed

subsection \<open>The state\<close>

lemma step_in_simps [simp]:
  "step_in D (sequential_step depts) \<longleftrightarrow> set depts \<subseteq> D"
  "step_in D (branch_step par excl) \<longleftrightarrow>
     (\<forall>b \<in> set par. pb_DeptID b \<in> insert [] D \<and> steps_in D (pb_Steps b)) \<and>
     (\<forall>b \<in> set excl. xb_Target b \<in> insert [] D \<and> steps_in D (xb_Steps b))"
  "step_in D (sub_step sw) \<longleftrightarrow> steps_in D (sw_Plan sw) \<and> paths_in D (sw_ErrorPaths sw) (sw_TimerPaths sw) (sw_MessagePaths sw)"
  "step_in D (call_step cp io extras) \<longleftrightarrow>
     binds_in D (cs_Departments cp) \<and> paths_in D (cs_ErrorPaths cp) (cs_TimerPaths cp) (cs_MessagePaths cp)"
  by (simp_all add: sequential_step_def branch_step_def sub_step_def call_step_def step_in_cons paths_in_def)

lemma AppendStep_ok: "plan_state_ok s \<Longrightarrow> step_in (dept_ids (c_sd s)) st \<Longrightarrow> evolved s (AppendStep st s)"
  by (auto simp: AppendStep_def evolved_def grows_def same_process_def plan_state_ok_def)

lemma FlushSeqBuf_ok: "plan_state_ok s \<Longrightarrow> evolved s (FlushSeqBuf s)"
  by (auto simp: FlushSeqBuf_def AppendStep_def Let_def evolved_def grows_def same_process_def plan_state_ok_def)

lemma FlushSeqBuf_store [simp]:
  "c_sd (FlushSeqBuf s) = c_sd s" "c_Called (FlushSeqBuf s) = c_Called s" "c_rejoined (FlushSeqBuf s) = c_rejoined s"
  by (simp_all add: FlushSeqBuf_def AppendStep_def Let_def)

lemma AddToSeqBuf_ok: "plan_state_ok s \<Longrightarrow> d \<in> dept_ids (c_sd s) \<Longrightarrow> evolved s (AddToSeqBuf d s)"
  by (auto simp: AddToSeqBuf_def evolved_def grows_def same_process_def plan_state_ok_def)

lemma ran_mput_subset: "ran (map_of m) \<subseteq> D \<Longrightarrow> d \<in> D \<Longrightarrow> ran (map_of (mput k d m)) \<subseteq> D"
  by (auto simp: update_conv ran_def split: if_splits)

lemma place_node_ok:
  assumes "plan_state_ok s" "d \<in> dept_ids (c_sd s)"
  shows "evolved s (place_node nodeID d s)"
proof -
  let ?sd = "c_sd (place_node nodeID d s)"
  have ids: "dept_ids ?sd = dept_ids (c_sd s)" by (simp add: place_node_def dept_ids_def)
  have "plan_store_ok ?sd"
    using assms ran_mput_subset [of "sd_nodeSegment (c_sd s)" "dept_ids (c_sd s)" d nodeID] ids
    unfolding plan_store_ok_def plan_state_ok_def by (auto simp: place_node_def indexed_def segments_exist_def within_budget_def)
  then have "plan_state_ok (place_node nodeID d s)"
    using assms ran_mput_subset [of "c_pathSegment s" "dept_ids (c_sd s)" d nodeID] ids
    unfolding plan_state_ok_def by (simp add: place_node_def)
  moreover have "store_grows (c_sd s) ?sd"
    by (auto simp: store_grows_def place_node_def map_le_def update_conv)
  ultimately show ?thesis by (simp add: evolved_def grows_def same_process_def place_node_def)
qed

lemma place_node_fields [simp]: "dept_ids (c_sd (place_node nodeID d s)) = dept_ids (c_sd s)"
  "sd_stages (c_sd (place_node nodeID d s)) = sd_stages (c_sd s)"
  by (simp_all add: place_node_def dept_ids_def)

lemma MarkNodeSegment_ok: "plan_state_ok s \<Longrightarrow> d \<in> insert [] (dept_ids (c_sd s)) \<Longrightarrow> evolved s (MarkNodeSegment nodeID d s)"
  by (auto simp: MarkNodeSegment_def intro: place_node_ok evolved_refl)

lemma SegmentOf_ok:
  assumes ok: "plan_state_ok s"
  shows "\<exists>d s'. SegmentOf nodeID s = retT (d, s') \<and> evolved s s' \<and> d \<in> dept_ids (c_sd s') \<and>
    sd_stages (c_sd s') = sd_stages (c_sd s)"
proof (cases "c_openSegment s = [] \<or> c_openLane s \<noteq> fst (laneOf s nodeID) \<or> nodeID \<in> c_segmentStarts s")
  case True
  from ok have "plan_store_ok (c_sd s)" by (simp add: plan_state_ok_def)
  from next_segment_ok [OF this, of "fst (laneOf s nodeID)" "snd (laneOf s nodeID)"] obtain seg sd'
    where n: "next_segment (fst (laneOf s nodeID)) (snd (laneOf s nodeID)) (c_sd s) = retT (seg, sd')" "plan_store_ok sd'"
      "store_grows (c_sd s) sd'" "seg \<in> dept_ids sd'" "sd_stages sd' = sd_stages (c_sd s)" by blast
  let ?s = "s\<lparr>c_sd := sd', c_openLane := fst (laneOf s nodeID), c_openSegment := seg\<rparr>"
  from adopt [OF ok n(2,3) plans_grow_refl, of "c_rejoined s"] n(4) have "evolved s ?s"
    by (simp add: evolved_def plan_state_ok_def grows_def same_process_def)
  moreover from evolved_trans [OF this place_node_ok [OF evolved_ok [OF this]], of seg nodeID] n(4)
  have "evolved s (place_node nodeID seg ?s)" by simp
  ultimately show ?thesis using True n by (simp add: SegmentOf_def Let_def)
next
  case False
  then have "c_openSegment s \<in> dept_ids (c_sd s)" using ok by (auto simp: plan_state_ok_def)
  with place_node_ok [OF ok this] False show ?thesis by (simp add: SegmentOf_def Let_def)
qed

lemma AppendStage_ok:
  assumes ok: "plan_state_ok s" and d: "d \<in> dept_ids (c_sd s)" and budget: "sd_stages (c_sd s) \<le> StageBudget"
  shows "\<exists>s'. AppendStage d stage s = retT s' \<and> evolved s s' \<and> dept_ids (c_sd s') = dept_ids (c_sd s)"
proof -
  let ?sd = "c_sd s"
  have st: "plan_store_ok ?sd" using ok by (simp add: plan_state_ok_def)
  then have ix: "indexed ?sd" by (simp add: plan_store_ok_def)
  with indexed_known [OF ix, of d] d obtain i where i: "map_of (sd_deptIdx ?sd) d = Some i" by auto
  with ix have len: "i < length (sd_depts ?sd)" by (simp add: indexed_def)
  define ds where "ds = (sd_depts ?sd)[i := (sd_depts ?sd ! i)\<lparr>dd_Stages := dd_Stages (sd_depts ?sd ! i) @ [stage]\<rparr>]"
  define sd' where "sd' = ?sd\<lparr>sd_depts := ds, sd_stages := Suc (sd_stages ?sd)\<rparr>"
  have res: "AppendStage d stage s = retT (s\<lparr>c_sd := sd'\<rparr>)"
    using i len by (simp add: AppendStage_def Let_def mget_or_def sd'_def ds_def)
  have ids: "map dd_ID ds = map dd_ID (sd_depts ?sd)"
    unfolding ds_def map_update by (simp add: list_update_same_conv len)
  from arg_cong [OF ids, of set] have D: "dept_ids sd' = dept_ids ?sd" by (simp add: dept_ids_def sd'_def)
  have n: "length ds = length (sd_depts ?sd)" by (simp add: ds_def)
  have le: "dept_le (sd_depts ?sd ! j) (ds ! j)" if "j < length (sd_depts ?sd)" for j
    using that by (cases "j = i") (simp_all add: ds_def dept_le_def)
  have "indexed sd'"
    using ix le unfolding indexed_def sd'_def by (auto simp: ids n dept_le_def)
  moreover have "segments_exist sd'" using st D by (simp add: plan_store_ok_def segments_exist_def sd'_def)
  moreover have "within_budget sd'"
  proof -
    have "length (dd_Stages (sd_depts ?sd ! i)) \<le> (\<Sum>d\<leftarrow>sd_depts ?sd. length (dd_Stages d))"
      using len by (intro member_le_sum_list) auto
    then have "(\<Sum>d\<leftarrow>ds. length (dd_Stages d)) = Suc (\<Sum>d\<leftarrow>sd_depts ?sd. length (dd_Stages d))"
      unfolding ds_def map_update using len by (subst sum_list_update) simp_all
    then show ?thesis using st budget by (simp add: plan_store_ok_def within_budget_def sd'_def)
  qed
  ultimately have "plan_store_ok sd'" using st D by (simp add: plan_store_ok_def sd'_def)
  moreover have "store_grows ?sd sd'" using le n by (simp add: store_grows_def sd'_def)
  ultimately have "evolved s (s\<lparr>c_sd := sd', c_Called := c_Called s, c_rejoined := c_rejoined s\<rparr>)"
    by (intro adopt [OF ok]) simp_all
  with res D show ?thesis by simp
qed

lemma visit_ok:
  assumes "plan_state_ok s" "\<not> over_budget (count_node s)"
  shows "evolved s (visit_node nodeID (count_node s))"
proof -
  let ?s = "visit_node nodeID (count_node s)"
  have "dept_ids (c_sd ?s) = dept_ids (c_sd s)" by (simp add: visit_node_def count_node_def dept_ids_def)
  moreover have "plan_store_ok (c_sd ?s)"
    using assms calculation
    by (auto simp: plan_state_ok_def plan_store_ok_def indexed_def segments_exist_def within_budget_def over_budget_def visit_node_def count_node_def)
  ultimately have "plan_state_ok ?s" using assms(1) by (auto simp: plan_state_ok_def visit_node_def count_node_def)
  then show ?thesis
    by (auto simp: evolved_def grows_def same_process_def store_grows_def visit_node_def count_node_def)
qed

lemma visit_budget: "\<not> over_budget (count_node s) \<Longrightarrow> sd_stages (c_sd (visit_node nodeID (count_node s))) \<le> StageBudget"
  by (simp add: over_budget_def visit_node_def count_node_def)

lemma note_rejoin_ok: "plan_state_ok s \<Longrightarrow> evolved s (note_rejoin nodeID s)"
  by (auto simp: note_rejoin_def evolved_def grows_def same_process_def plan_state_ok_def)

subsection \<open>Parents and children\<close>

lemma branch_state_ok: "plan_state_ok s \<Longrightarrow> plan_state_ok (NewBranchState s stopAt)"
  by (auto simp: NewBranchState_def plan_state_ok_def)

lemma absorb_ok: "plan_state_ok s \<Longrightarrow> evolved (NewBranchState s stopAt) bs \<Longrightarrow> evolved s (absorb s bs)"
  unfolding absorb_def by (rule adopt) (auto simp: evolved_def plan_state_ok_def grows_def NewBranchState_def)

lemma plan_store_ok_empty: "plan_store_ok empty_store"
  by (simp add: plan_store_ok_def empty_store_def indexed_def segments_exist_def within_budget_def dept_ids_def)

lemma new_state_ok: "plan_state_ok (NewCompileState proc g conds B)"
  using plan_store_ok_empty by (simp add: NewCompileState_def Let_def plan_state_ok_def)

lemma new_state_fields [simp]:
  "c_Proc (NewCompileState proc g conds B) = proc" "c_G (NewCompileState proc g conds B) = g"
  "c_backEdges (NewCompileState proc g conds B) = B" "c_skipped (NewCompileState proc g conds B) = SkippedTasks proc g"
  "c_StopAt (NewCompileState proc g conds B) = []" "c_Called (NewCompileState proc g conds B) = []"
  "c_sd (NewCompileState proc g conds B) = empty_store" "c_visited (NewCompileState proc g conds B) = {}"
  "c_stopAtCompiled (NewCompileState proc g conds B) = False" "c_steps (NewCompileState proc g conds B) = []"
  by (simp_all add: NewCompileState_def Let_def)

lemma body_state_ok: "plan_state_ok s \<Longrightarrow> plan_state_ok (ShareSegmentsWith s sub (newInnerState body))"
  by (auto simp: ShareSegmentsWith_def newInnerState_def NewCompileState_def Let_def plan_state_ok_def)

lemma called_state_ok: "plan_state_ok ((newInnerState called)\<lparr>c_Called := plans\<rparr>)"
  using new_state_ok by (auto simp: newInnerState_def plan_state_ok_def Let_def)

end
