(* ===== verification/Plan_Contract.thy ===== *)
theory Plan_Contract
  imports Plan_Safe
begin

text \<open>
  The contract of a traversal: from a well-formed state it does not panic, and what it returns has evolved from that
  state.  Every handler keeps the contract of the traversal that it calls back; so \<open>TraverseNode\<close>, with any fuel,
  satisfies it.
\<close>

subsection \<open>Outcomes\<close>

definition outcome :: "('a \<Rightarrow> bool) \<Rightarrow> 'a compiled \<Rightarrow> bool" where
  "outcome P r \<longleftrightarrow> r \<noteq> failT CompilePanic \<and> (\<forall>a. r = retT a \<longrightarrow> P a)"

lemma outcome_simps [simp]:
  "outcome P None" "outcome P (retT a) \<longleftrightarrow> P a" "outcome P (failT e) \<longleftrightarrow> e \<noteq> CompilePanic"
  by (auto simp: outcome_def)

lemma outcome_bind: "outcome P r \<Longrightarrow> (\<And>a. P a \<Longrightarrow> outcome Q (f a)) \<Longrightarrow> outcome Q (bindT r f)"
  by (auto simp: bindT_def outcome_def split: option.split sum.split)

lemma outcome_bind_pair:
  "outcome (\<lambda>(a, s). P a s) r \<Longrightarrow> (\<And>a s. P a s \<Longrightarrow> outcome Q (f a s)) \<Longrightarrow> outcome Q (bindT r (\<lambda>(a, s). f a s))"
  by (erule outcome_bind) auto

lemma outcome_mono: "outcome P r \<Longrightarrow> (\<And>a. P a \<Longrightarrow> Q a) \<Longrightarrow> outcome Q r"
  by (auto simp: outcome_def)

lemma outcomeD: "outcome P r \<Longrightarrow> r = retT a \<Longrightarrow> P a"
  by (simp add: outcome_def)

lemma evolved_ids: "evolved s s' \<Longrightarrow> dept_ids (c_sd s) \<subseteq> dept_ids (c_sd s')"
  by (simp add: evolved_def grows_def store_grows_ids)

lemma evolved_steps: "evolved s s' \<Longrightarrow> steps_in (dept_ids (c_sd s)) steps \<Longrightarrow> steps_in (dept_ids (c_sd s')) steps"
  by (rule steps_in_mono [OF _ evolved_ids])

lemma outcome_evolved:
  assumes "outcome (evolved s) r" "\<And>s'. evolved s s' \<Longrightarrow> plan_state_ok s' \<Longrightarrow> outcome (evolved s') (f s')"
  shows "outcome (evolved s) (bindT r f)"
  using assms(1)
proof (rule outcome_bind)
  fix s' assume s': "evolved s s'"
  from assms(2) [OF s' evolved_ok [OF s']] show "outcome (evolved s) (f s')"
    by (rule outcome_mono) (rule evolved_trans [OF s'])
qed

abbreviation par_ok :: "string set \<Rightarrow> ExecutionStep ParallelBranch \<Rightarrow> bool" where
  "par_ok D b \<equiv> pb_DeptID b \<in> insert [] D \<and> steps_in D (pb_Steps b)"

abbreviation excl_ok :: "string set \<Rightarrow> ExecutionStep ExclusiveBranch \<Rightarrow> bool" where
  "excl_ok D b \<equiv> xb_Target b \<in> insert [] D \<and> steps_in D (xb_Steps b)"

lemma revertBranches_ok: "b \<in> set (revertBranches s gw backs) \<Longrightarrow> excl_ok D b"
  by (auto simp: revertBranches_def Let_def split: prod.splits)

lemma revertBranches_free: "b \<in> set (revertBranches s gw backs) \<Longrightarrow> xb_Target b = [] \<and> xb_Steps b = []"
  by (auto simp: revertBranches_def Let_def split: prod.splits)

lemma boundaryPaths_in: "boundaryPaths env n s = (errs, timers, msgs) \<Longrightarrow> paths_in D errs timers msgs"
  by (auto simp: boundaryPaths_def Let_def paths_in_def List.map_filter_def)

subsection \<open>Departments of a call\<close>

lemma snd_set_mput: "snd ` set (mput k v m) \<subseteq> insert v (snd ` set m)"
  by (induction m) auto

lemma binds_in_mput: "binds_in D m \<Longrightarrow> v \<in> D \<Longrightarrow> binds_in D (mput k v m)"
  unfolding binds_in_def by (rule subset_trans [OF snd_set_mput]) simp

lemma binds_in_list [simp]: "binds_in D []" "binds_in D ((k, v) # m) \<longleftrightarrow> v \<in> D \<and> binds_in D m"
  by (auto simp: binds_in_def)

lemma binds_in_fold: "binds_in D m \<Longrightarrow> v \<in> D \<Longrightarrow> binds_in D (fold (\<lambda>k. mput k v) ks m)"
  by (induction ks arbitrary: m) (simp_all add: binds_in_mput)

lemma binds_in_segments:
  "binds_in D callers \<Longrightarrow> binds_in D m \<Longrightarrow>
     binds_in D (fold (\<lambda>(lane, caller) bound. fold (\<lambda>segment. mput segment caller) (laneSegments called lane) bound) callers m)"
  by (induction callers arbitrary: m) (auto simp: binds_in_fold)

lemma binds_in_mono: "binds_in D m \<Longrightarrow> D \<subseteq> D' \<Longrightarrow> binds_in D' m"
  by (auto simp: binds_in_def)

lemma bind_inputs_ok:
  assumes "plan_state_ok s" "binds_in (dept_ids (c_sd s)) callers" "bind_inputs env cp depts keys callers s = (callers', s')"
  shows "evolved s s' \<and> binds_in (dept_ids (c_sd s')) callers'"
  using assms
proof (induction keys arbitrary: callers s)
  case Nil
  then show ?case by (simp add: evolved_refl)
next
  case (Cons key keys)
  show ?case
  proof (cases "\<exists>a b. LaneNamed (env_equalFold env) cp key = Some a \<and> LaneNamed (env_equalFold env) (c_Proc s) (mget_or [] depts key) = Some b")
    case True
    then obtain a b where ab: "LaneNamed (env_equalFold env) cp key = Some a"
      "LaneNamed (env_equalFold env) (c_Proc s) (mget_or [] depts key) = Some b" by blast
    obtain d s1 where d: "NamedLaneDepartment (lane_Name b) (LaneDeptID b) s = (d, s1)" by fastforce
    note named = NamedLaneDepartment_ok [OF Cons.prems(1) d]
    have "binds_in (dept_ids (c_sd s1)) (mput (lane_Name a) d callers)"
      using Cons.prems(2) named(2) evolved_ids [OF named(1)] by (blast intro: binds_in_mput binds_in_mono)
    from Cons.IH [OF evolved_ok [OF named(1)] this] Cons.prems(3) ab d named(1)
    show ?thesis by (auto intro: evolved_trans)
  next
    case False
    with Cons.prems(3) have "bind_inputs env cp depts keys callers s = (callers', s')" by (auto split: option.splits)
    with Cons.IH [OF Cons.prems(1,2)] show ?thesis .
  qed
qed

lemma bindDepartments_ok:
  assumes "plan_state_ok s" "bindDepartments env ca cp called depts s = (bound, s')"
  shows "evolved s s' \<and> binds_in (dept_ids (c_sd s')) bound"
proof -
  obtain callers s1 where b: "bind_inputs env cp depts (sort (mkeys depts)) [] s = (callers, s1)" by fastforce
  from bind_inputs_ok [OF assms(1) _ b] have s1: "evolved s s1" "binds_in (dept_ids (c_sd s1)) callers"
    by (auto simp: binds_in_def)
  have "\<exists>callers'. evolved s s' \<and> binds_in (dept_ids (c_sd s')) callers' \<and>
      bound = fold (\<lambda>(lane, caller) bound. fold (\<lambda>segment. mput segment caller) (laneSegments called lane) bound) callers' []"
  proof (cases "\<exists>slot. OpenSlots cp = [slot] \<and> map_of callers slot = None")
    case True
    then obtain slot where slot: "OpenSlots cp = [slot]" "map_of callers slot = None" by blast
    obtain d s2 where d: "LaneDepartment (ca_ID ca) s1 = (d, s2)" by fastforce
    note named = NamedLaneDepartment_ok [OF evolved_ok [OF s1(1)] d [unfolded LaneDepartment_def]]
    have "binds_in (dept_ids (c_sd s2)) (mput slot d callers)"
      using s1(2) named(2) evolved_ids [OF named(1)] by (blast intro: binds_in_mput binds_in_mono)
    with assms(2) b slot d evolved_trans [OF s1(1) named(1)] show ?thesis
      by (auto simp: bindDepartments_def)
  next
    case False
    with assms(2) b have "s' = s1" "bound = fold (\<lambda>(lane, caller) bound.
        fold (\<lambda>segment. mput segment caller) (laneSegments called lane) bound) callers []"
      by (auto simp: bindDepartments_def split: list.splits if_splits)
    with s1 show ?thesis by blast
  qed
  then show ?thesis using binds_in_segments [of "dept_ids (c_sd s')" _ "[]"] by auto
qed

lemma ResolveTargets_Called: "ResolveTargets s = Some s' \<Longrightarrow> c_Called s' = c_Called s"
  by (auto simp: ResolveTargets_def bind_eq_Some_conv)

lemma Claim_keys: "Claim k c = (ok, c') \<Longrightarrow> dom (map_of c') = insert k (dom (map_of c))"
  by (auto simp: Claim_def update_conv split: if_splits)

lemma Put_keys: "dom (map_of (Put plan c)) = insert (pl_Name plan) (dom (map_of c))"
  unfolding Put_def update_conv dom_fun_upd by simp

lemma Claim_grows: "Claim k c = (ok, c') \<Longrightarrow> plans_grow c c'"
  unfolding plans_grow_def using Claim_keys [of k c ok c']
  by (auto simp: Claim_def intro: plans_ok_mput split: if_splits)

lemma Put_grows: "plan_ok plan \<Longrightarrow> plans_grow c (Put plan c)"
  unfolding plans_grow_def Put_keys by (auto simp: Put_def intro: plans_ok_mput)

text \<open>The plan of a well-formed state, its departments with open slots or without.\<close>

lemma resolved_plan_ok:
  assumes ok: "plan_state_ok s" and res: "ResolveTargets s = Some s'"
    and depts: "set (sd_depts (c_sd s')) \<subseteq> set depts"
      "distinct (map dd_ID (sd_depts (c_sd s'))) \<Longrightarrow> distinct (map dd_ID depts)"
      "\<And>d. d \<in> set depts \<Longrightarrow> d \<in> set (sd_depts (c_sd s')) \<or> dd_Stages d = []"
      "(\<Sum>d\<leftarrow>depts. length (dd_Stages d)) = (\<Sum>d\<leftarrow>sd_depts (c_sd s'). length (dd_Stages d))"
  shows "plan_ok \<lparr>pl_Name = nm, pl_TaskQueue = q, pl_Departments = depts, pl_Steps = c_steps s', pl_VisualElements = vs\<rparr>"
proof -
  let ?D = "plan_ids (sd_depts (c_sd s))"
  have D: "dept_ids (c_sd s) = ?D" by (simp add: dept_ids_def plan_ids_def)
  have steps: "steps_in ?D (c_steps s)" using ok by (simp add: plan_state_ok_def D)
  have paths: "steps_in ?D (mget_or [] (sd_boundarySteps (c_sd s)) b)" for b
  proof (cases "map_of (sd_boundarySteps (c_sd s)) b")
    case (Some steps)
    with ok have "steps_in ?D steps" unfolding plan_state_ok_def plan_store_ok_def D by (meson ranI)
    with Some show ?thesis by (simp add: mget_or_def)
  qed (simp add: mget_or_def)
  note closed = ResolveTargets_closed [OF res refl steps paths]
  have ids: "?D \<subseteq> plan_ids depts" using image_mono [OF depts(1), of dd_ID] closed(2) by (simp add: plan_ids_def)
  have "distinct (map dd_ID depts)"
    using depts(2) closed(1) ok by (simp add: plan_state_ok_def plan_store_ok_def indexed_def)
  moreover have "steps_in (plan_ids depts) (c_steps s')" by (rule steps_in_mono [OF closed(3) ids])
  moreover have "stage_in (plan_ids depts) st" if "d \<in> set depts" "st \<in> set (dd_Stages d)" for d st
    using depts(3) [OF that(1)] closed(4) that stage_in_mono [OF _ ids] by auto
  moreover have "(\<Sum>d\<leftarrow>depts. length (dd_Stages d)) = (\<Sum>d\<leftarrow>sd_depts (c_sd s). length (dd_Stages d))"
    using arg_cong [OF closed(6), of "\<lambda>xs. \<Sum>x\<leftarrow>xs. length x"] by (simp add: depts(4) o_def)
  ultimately show ?thesis
    using ok by (simp add: plan_ok_def plan_closed_def plan_stages_def plan_state_ok_def plan_store_ok_def within_budget_def)
qed

text \<open>The steps of a sub-process and of a call.\<close>

lemma add_body_step_ok:
  assumes "plan_state_ok body" "evolved s (s\<lparr>c_sd := c_sd body, c_Called := c_Called body\<rparr>)"
  shows "evolved s (add_body_step env nodeID sp body s)"
proof -
  let ?s0 = "s\<lparr>c_sd := c_sd body, c_Called := c_Called body\<rparr>"
  let ?s1 = "MarkNodeSegment nodeID (FirstDepartment (c_steps body)) ?s0"
  from assms(1) have steps: "steps_in (dept_ids (c_sd ?s0)) (c_steps body)" by (simp add: plan_state_ok_def)
  from FirstDepartment_in [OF this] have m: "evolved ?s0 ?s1" by (rule MarkNodeSegment_ok [OF evolved_ok [OF assms(2)]])
  note f = FlushSeqBuf_ok [OF evolved_ok [OF m]]
  obtain errs timers msgs where paths: "boundaryPaths env nodeID ?s1 = (errs, timers, msgs)" by (cases "boundaryPaths env nodeID ?s1")
  let ?s2 = "AppendStep (sub_step (SubWorkflowStep (sp_ID sp) (sp_Name sp) (c_steps body) errs timers msgs)) (FlushSeqBuf ?s1)"
  have "evolved (FlushSeqBuf ?s1) ?s2"
    using evolved_steps [OF m steps] boundaryPaths_in [OF paths] by (intro AppendStep_ok [OF evolved_ok [OF f]]) simp
  from evolved_trans [OF evolved_trans [OF evolved_trans [OF assms(2) m] f] this] show ?thesis
    by (simp add: add_body_step_def paths Let_def)
qed

lemma add_call_step_ok:
  assumes "plan_state_ok s"
  shows "evolved s (add_call_step env nodeID ca called s)"
proof -
  obtain errs timers msgs where paths: "boundaryPaths env nodeID s = (errs, timers, msgs)" by (cases "boundaryPaths env nodeID s")
  obtain bound s1 where b: "bindDepartments env ca called (Get (proc_ID called) (c_Called s)) (in_Depts (ParseCallInputs (env_json env) ca)) s = (bound, s1)"
    by fastforce
  from bindDepartments_ok [OF assms b] have s1: "evolved s s1" "binds_in (dept_ids (c_sd s1)) bound" by auto
  note f = FlushSeqBuf_ok [OF evolved_ok [OF s1(1)]]
  have "evolved (FlushSeqBuf s1) (AppendStep (call_step (CallPlanStep i nm k bound asg errs timers msgs) io extras) (FlushSeqBuf s1))"
    for i nm k asg io extras
    using s1(2) boundaryPaths_in [OF paths] by (intro AppendStep_ok [OF evolved_ok [OF f]]) simp
  from evolved_trans [OF evolved_trans [OF s1(1) f] this] show ?thesis by (simp add: add_call_step_def paths b Let_def)
qed

subsection \<open>The contract\<close>

locale safe_traversal =
  fixes trav :: traversal
  assumes trav_ok: "plan_state_ok s \<Longrightarrow> outcome (evolved s) (trav nodeID s)"
begin

lemma trav_all_ok: "plan_state_ok s \<Longrightarrow> outcome (evolved s) (trav_all trav ns s)"
proof (induction ns arbitrary: s)
  case (Cons n ns)
  then show ?case by (auto intro: outcome_evolved trav_ok)
qed (simp add: evolved_refl)

lemma forward_nexts_ok: "plan_state_ok s \<Longrightarrow> outcome (evolved s) (traverseForwardNexts trav nodeID s)"
  by (simp add: traverseForwardNexts_def trav_all_ok)

lemma trav_next_ok: "plan_state_ok s \<Longrightarrow> outcome (evolved s) (trav_next trav nodeID s)"
  by (simp add: trav_next_def trav_ok evolved_refl split: list.split)

lemma trav_next_from: "evolved s0 s \<Longrightarrow> outcome (evolved s0) (trav_next trav nodeID s)"
  by (rule outcome_mono [OF trav_next_ok]) (auto intro: evolved_ok evolved_trans)

lemma branchSteps_ok:
  assumes "plan_state_ok s"
  shows "outcome (\<lambda>(steps, s'). evolved s s' \<and> steps_in (dept_ids (c_sd s')) steps) (branchSteps trav n stopAt s)"
  unfolding branchSteps_def
proof (rule outcome_bind [OF trav_ok [OF branch_state_ok [OF assms]]])
  fix bs assume bs: "evolved (NewBranchState s stopAt) bs"
  note flushed = FlushSeqBuf_ok [OF evolved_ok [OF bs]]
  have "evolved s (absorb s (FlushSeqBuf bs))" by (rule absorb_ok [OF assms evolved_trans [OF bs flushed]])
  moreover have "steps_in (dept_ids (c_sd bs)) (c_steps (FlushSeqBuf bs))"
    using evolved_ok [OF flushed] by (simp add: plan_state_ok_def)
  ultimately show "outcome (\<lambda>(steps, s'). evolved s s' \<and> steps_in (dept_ids (c_sd s')) steps)
      (retT (c_steps (FlushSeqBuf bs), absorb s (FlushSeqBuf bs)))" by (simp add: absorb_def)
qed

lemma exclusiveBranch_ok:
  assumes "plan_state_ok s"
  shows "outcome (\<lambda>(b, s'). evolved s s' \<and> excl_ok (dept_ids (c_sd s')) b) (exclusiveBranch trav split n stopAt s)"
  unfolding exclusiveBranch_def Let_def
  by (rule outcome_bind [OF branchSteps_ok [OF assms]])
    (auto simp: zero_branch_def split: prod.split dest: FirstDepartment_in)

lemma parallel_branches_ok:
  "plan_state_ok s \<Longrightarrow> outcome (\<lambda>(bs, s'). evolved s s' \<and> (\<forall>b \<in> set bs. par_ok (dept_ids (c_sd s')) b)) (parallel_branches trav join ns s)"
proof (induction ns arbitrary: s)
  case (Cons n ns)
  show ?case
    unfolding parallel_branches.simps
  proof (rule outcome_bind [OF branchSteps_ok [OF Cons.prems]], clarsimp)
    fix steps s1 assume s1: "evolved s s1" "steps_in (dept_ids (c_sd s1)) steps"
    show "outcome (\<lambda>(bs, s'). evolved s s' \<and> (\<forall>b \<in> set bs. (pb_DeptID b = [] \<or> pb_DeptID b \<in> dept_ids (c_sd s')) \<and> steps_in (dept_ids (c_sd s')) (pb_Steps b)))
      (bindT (parallel_branches trav join ns s1) (\<lambda>(branches, s). retT (ParallelBranch (FirstDepartment steps) steps # branches, s)))"
    proof (rule outcome_bind [OF Cons.IH [OF evolved_ok [OF s1(1)]]], clarsimp)
      fix bs s2 assume s2: "evolved s1 s2"
      from evolved_steps [OF this s1(2)] have "steps_in (dept_ids (c_sd s2)) steps" .
      with FirstDepartment_in [OF this] evolved_trans [OF s1(1) s2]
      show "evolved s s2 \<and> (FirstDepartment steps = [] \<or> FirstDepartment steps \<in> dept_ids (c_sd s2)) \<and> steps_in (dept_ids (c_sd s2)) steps"
        by simp
    qed
  qed
qed (simp add: evolved_refl)

lemma exclusive_branches_ok:
  "plan_state_ok s \<Longrightarrow> outcome (\<lambda>(bs, s'). evolved s s' \<and> (\<forall>b \<in> set bs. excl_ok (dept_ids (c_sd s')) b)) (exclusive_branches trav split join ns s)"
proof (induction ns arbitrary: s)
  case (Cons n ns)
  show ?case
    unfolding exclusive_branches.simps
  proof (rule outcome_bind [OF exclusiveBranch_ok [OF Cons.prems]], clarsimp)
    fix b s1 assume s1: "evolved s s1" "xb_Target b = [] \<or> xb_Target b \<in> dept_ids (c_sd s1)" "steps_in (dept_ids (c_sd s1)) (xb_Steps b)"
    show "outcome (\<lambda>(bs, s'). evolved s s' \<and> (\<forall>b \<in> set bs. (xb_Target b = [] \<or> xb_Target b \<in> dept_ids (c_sd s')) \<and> steps_in (dept_ids (c_sd s')) (xb_Steps b)))
      (bindT (exclusive_branches trav split join ns s1) (\<lambda>(branches, s). retT (b # branches, s)))"
    proof (rule outcome_bind [OF Cons.IH [OF evolved_ok [OF s1(1)]]], clarsimp)
      fix bs s2 assume s2: "evolved s1 s2"
      with s1(2) evolved_steps [OF s2 s1(3)] evolved_ids [OF s2] evolved_trans [OF s1(1) s2]
      show "evolved s s2 \<and> (xb_Target b = [] \<or> xb_Target b \<in> dept_ids (c_sd s2)) \<and> steps_in (dept_ids (c_sd s2)) (xb_Steps b)"
        by blast
    qed
  qed
qed (simp add: evolved_refl)

lemma place_stage_ok:
  assumes "plan_state_ok s" "sd_stages (c_sd s) \<le> StageBudget"
  shows "outcome (evolved s) (place_stage trav nodeID stage s)"
proof -
  from SegmentOf_ok [OF assms(1), of nodeID] obtain d s1 where s1: "SegmentOf nodeID s = retT (d, s1)" "evolved s s1"
    "d \<in> dept_ids (c_sd s1)" "sd_stages (c_sd s1) = sd_stages (c_sd s)" by blast
  from AppendStage_ok [OF evolved_ok [OF s1(2)] s1(3), of stage] s1(4) assms(2)
  obtain s2 where s2: "AppendStage d stage s1 = retT s2" "evolved s1 s2" "dept_ids (c_sd s2) = dept_ids (c_sd s1)" by auto
  have s3: "evolved s2 (AddToSeqBuf d s2)" by (rule AddToSeqBuf_ok) (use s1 s2 evolved_ok in auto)
  from trav_next_ok [OF evolved_ok [OF s3]] have "outcome (evolved s) (trav_next trav nodeID (AddToSeqBuf d s2))"
    by (rule outcome_mono) (use s1 s2 s3 in \<open>blast intro: evolved_trans\<close>)
  then show ?thesis by (simp add: place_stage_def s1 s2)
qed

lemma single_forward_ok:
  assumes "plan_state_ok s"
  shows "outcome (evolved s) (handleSingleForwardWithReverts trav nodeID forwards backs s)"
proof -
  have "evolved s (AppendStep (branch_step [] (bs @ revertBranches s nodeID backs)) s)" if "\<forall>b \<in> set bs. excl_ok {} b" for bs
    using that by (intro AppendStep_ok [OF assms]) (auto dest: revertBranches_ok intro: step_in_mono)
  note step = this
  show ?thesis
  proof (cases "\<exists>n. forwards = [n]")
    case True
    then obtain n where n: "forwards = [n]" by blast
    let ?b = "ExclusiveBranch (mget_or [] (c_condExprs s) (nodeID, n)) [] [] [] [] (node_type (c_G s) n = Some NodeTypeEndEvent) [] [] [] [] []"
    have ev: "evolved s (AppendStep (branch_step [] ([?b] @ revertBranches s nodeID backs)) s)" by (rule step) simp
    from outcome_mono [OF trav_ok [OF evolved_ok [OF ev]] evolved_trans [OF ev]] n show ?thesis
      by (simp add: handleSingleForwardWithReverts_def Let_def)
  next
    case False
    with step [of "[]"] show ?thesis by (auto simp: handleSingleForwardWithReverts_def Let_def split: list.split)
  qed
qed

lemma split_no_join_ok:
  assumes "plan_state_ok s"
  shows "outcome (evolved s) (handleSplitNoJoin trav nodeID forwards backs kind s)"
proof -
  have "evolved s (AppendStep (branch_step [] (map set_terminates bs @ revertBranches s' nodeID backs)) s')"
    if "evolved s s'" "\<forall>b \<in> set bs. excl_ok (dept_ids (c_sd s')) b" for bs s'
    using that by (intro evolved_trans [OF that(1) AppendStep_ok [OF evolved_ok]])
      (auto simp: set_terminates_def dest: revertBranches_ok)
  then show ?thesis
    unfolding handleSplitNoJoin_def by (auto intro!: outcome_bind_pair [OF exclusive_branches_ok [OF assms]])
qed

lemma branches_ok:
  assumes "plan_state_ok s"
  shows "outcome (\<lambda>(par, excl, s'). evolved s s' \<and> (\<forall>b \<in> set par. par_ok (dept_ids (c_sd s')) b) \<and> (\<forall>b \<in> set excl. excl_ok (dept_ids (c_sd s')) b))
      (if kind = ExclusiveGateway then bindT (traverseExclusiveBranches trav nodeID join s) (\<lambda>(excl, s). retT ([], excl, s))
       else bindT (traverseBranches trav nodeID join s) (\<lambda>(par, s). retT (par, [], s)))"
  unfolding traverseExclusiveBranches_def traverseBranches_def
  by (auto intro!: outcome_bind_pair [OF exclusive_branches_ok [OF assms]] outcome_bind_pair [OF parallel_branches_ok [OF assms]])

lemma split_with_join_ok:
  assumes "plan_state_ok s"
  shows "outcome (evolved s) (handleSplitWithJoin trav nodeID backs join kind s)"
  unfolding handleSplitWithJoin_def
proof (rule outcome_bind [OF branches_ok [OF assms]])
  fix a :: "ExecutionStep ParallelBranch list \<times> ExecutionStep ExclusiveBranch list \<times> CompileState"
  obtain par excl s' where a: "a = (par, excl, s')" by (cases a)
  assume "case a of (par, excl, s') \<Rightarrow> evolved s s' \<and> (\<forall>b \<in> set par. par_ok (dept_ids (c_sd s')) b) \<and> (\<forall>b \<in> set excl. excl_ok (dept_ids (c_sd s')) b)"
  with a have s': "evolved s s'" "\<forall>b \<in> set par. par_ok (dept_ids (c_sd s')) b" "\<forall>b \<in> set excl. excl_ok (dept_ids (c_sd s')) b" by auto
  let ?s = "AppendStep (branch_step par (excl @ revertBranches s' nodeID backs)) s'"
  have "evolved s' ?s" using s'(2,3) by (intro AppendStep_ok [OF evolved_ok [OF s'(1)]]) (auto dest: revertBranches_ok)
  with s'(1) have "evolved s ?s" by (rule evolved_trans)
  with trav_ok [OF evolved_ok [OF this], of join] show "outcome (evolved s)
      (case a of (par, excl, s) \<Rightarrow> trav join (AppendStep (branch_step par (excl @ revertBranches s nodeID backs)) s))"
    unfolding a by (auto intro: outcome_mono evolved_trans)
qed

lemma HandleGateway_ok:
  assumes "plan_state_ok s"
  shows "outcome (evolved s) (HandleGateway trav nodeID kind s)"
proof -
  note flushed = FlushSeqBuf_ok [OF assms]
  have later: "outcome (evolved s) r" if "outcome (evolved (FlushSeqBuf s)) r" for r
    using that by (rule outcome_mono) (rule evolved_trans [OF flushed])
  show ?thesis
    unfolding HandleGateway_def Let_def
    using trav_next_ok [OF assms] later [OF single_forward_ok] later [OF split_no_join_ok] later [OF split_with_join_ok]
      evolved_ok [OF flushed] by (auto split: option.split bool.split)
qed

lemma CompileBoundaryPath_ok:
  assumes "plan_state_ok s"
  shows "outcome (evolved s) (CompileBoundaryPath trav be s)"
proof -
  let ?p = "(NewBranchState s [])\<lparr>c_stopAtCompiled := True, c_rejoined := Some False\<rparr>"
  have p: "plan_state_ok ?p" using branch_state_ok [OF assms] by (simp add: plan_state_ok_def)
  have "evolved s (s\<lparr>c_sd := c_sd path, c_Called := c_Called path\<rparr>) \<and>
      evolved s (s\<lparr>c_Called := c_Called path,
        c_sd := (c_sd path)\<lparr>sd_boundarySteps := mput b (c_steps (FlushSeqBuf path)) (sd_boundarySteps (c_sd path))\<rparr>\<rparr>)" if path: "evolved ?p path" for path b
  proof
    from path have st: "plan_store_ok (c_sd path)" and gr: "store_grows (c_sd s) (c_sd path)"
      and called: "plans_grow (c_Called s) (c_Called path)"
      by (auto simp: evolved_def plan_state_ok_def grows_def NewBranchState_def)
    from adopt [OF assms st gr called, of "c_rejoined s"]
    show "evolved s (s\<lparr>c_sd := c_sd path, c_Called := c_Called path\<rparr>)" by simp
    let ?sd = "(c_sd path)\<lparr>sd_boundarySteps := mput b (c_steps (FlushSeqBuf path)) (sd_boundarySteps (c_sd path))\<rparr>"
    have steps: "steps_in (dept_ids (c_sd path)) (c_steps (FlushSeqBuf path))"
      using evolved_ok [OF FlushSeqBuf_ok [OF evolved_ok [OF path]]] by (simp add: plan_state_ok_def)
    have "dept_ids ?sd = dept_ids (c_sd path)" by (simp add: dept_ids_def)
    with st steps have "plan_store_ok ?sd"
      by (auto simp: plan_store_ok_def indexed_def segments_exist_def within_budget_def update_conv ran_def split: if_splits)
    moreover have "store_grows (c_sd s) ?sd" using gr by (simp add: store_grows_def)
    ultimately have "evolved s (s\<lparr>c_sd := ?sd, c_Called := c_Called path, c_rejoined := c_rejoined s\<rparr>)"
      by (rule adopt [OF assms _ _ called])
    then show "evolved s (s\<lparr>c_Called := c_Called path, c_sd := ?sd\<rparr>)" by (cases s) simp
  qed
  then show ?thesis
    unfolding CompileBoundaryPath_def Let_def
    by (auto simp: assms evolved_refl intro!: outcome_bind [OF trav_ok [OF p]])
qed

lemma CompileBoundaryPaths_ok: "plan_state_ok s \<Longrightarrow> outcome (evolved s) (CompileBoundaryPaths trav s)"
proof -
  have "plan_state_ok s \<Longrightarrow> outcome (evolved s) (compile_paths trav bes s)" for bes
    by (induction bes arbitrary: s) (auto intro: outcome_evolved CompileBoundaryPath_ok evolved_refl)
  then show "plan_state_ok s \<Longrightarrow> outcome (evolved s) (CompileBoundaryPaths trav s)" by (simp add: CompileBoundaryPaths_def)
qed

lemma runInnerState_ok: "plan_state_ok s \<Longrightarrow> outcome (evolved s) (runInnerState trav body s)"
  unfolding runInnerState_def
  by (rule outcome_evolved) (auto simp: evolved_refl trav_next_ok CompileBoundaryPaths_ok split: list.split)

lemma body_ok:
  assumes "plan_state_ok s"
  shows "outcome (\<lambda>body. plan_state_ok body \<and> evolved s (s\<lparr>c_sd := c_sd body, c_Called := c_Called body\<rparr>)) (compileSubProcessBody trav proc sub s)"
  unfolding compileSubProcessBody_def
proof (rule outcome_mono [OF runInnerState_ok [OF body_state_ok [OF assms]]])
  fix body assume "evolved (ShareSegmentsWith s sub (newInnerState proc)) body"
  then have b: "plan_state_ok body" "store_grows (c_sd s) (c_sd body)" "plans_grow (c_Called s) (c_Called body)"
    by (auto simp: evolved_def grows_def ShareSegmentsWith_def)
  then have "plan_store_ok (c_sd body)" by (simp add: plan_state_ok_def)
  from adopt [OF assms this b(2,3), of "c_rejoined s"] b(1)
  show "plan_state_ok body \<and> evolved s (s\<lparr>c_sd := c_sd body, c_Called := c_Called body\<rparr>)" by simp
qed

lemma SubProcess_ok: "plan_state_ok s \<Longrightarrow> outcome (evolved s) (SubProcess_Compile env trav nodeID s)"
  unfolding SubProcess_Compile_def
  by (auto intro!: outcome_bind [OF body_ok] trav_next_from add_body_step_ok split: option.split)

lemma compileCalledState_ok:
  "outcome (\<lambda>inner. plans_grow plans (c_Called inner) \<and>
      plan_ok \<lparr>pl_Name = nm, pl_TaskQueue = [], pl_Departments = withOpenSlots (sd_depts (c_sd inner)) p,
        pl_Steps = c_steps inner, pl_VisualElements = []\<rparr>) (compileCalledState trav called plans)"
  unfolding compileCalledState_def
proof (rule outcome_bind [OF runInnerState_ok [OF called_state_ok]])
  fix inner assume inner: "evolved ((newInnerState called)\<lparr>c_Called := plans\<rparr>) inner"
  then have "plans_grow plans (c_Called inner)" by (auto simp: evolved_def grows_def)
  then show "outcome (\<lambda>inner. plans_grow plans (c_Called inner) \<and>
      plan_ok \<lparr>pl_Name = nm, pl_TaskQueue = [], pl_Departments = withOpenSlots (sd_depts (c_sd inner)) p,
        pl_Steps = c_steps inner, pl_VisualElements = []\<rparr>) (map_option Inr (ResolveTargets inner))"
    using resolved_plan_ok [OF evolved_ok [OF inner]] ResolveTargets_Called [of inner]
    by (cases "ResolveTargets inner") (simp_all add: withOpenSlots_extends)
qed

lemma called_ok:
  "plan_state_ok s \<Longrightarrow> plans_grow (c_Called s) called \<Longrightarrow> evolved s (s\<lparr>c_Called := called\<rparr>)"
  by (simp add: evolved_def grows_def same_process_def plan_state_ok_def)

lemma compileCalledPlan_ok:
  assumes "plan_state_ok s"
  shows "outcome (\<lambda>s'. evolved s s' \<and> proc_ID called \<in> dom (map_of (c_Called s'))) (compileCalledPlan trav called s)"
proof (cases "Claim (proc_ID called) (c_Called s)")
  case (Pair claimed plans)
  show ?thesis
  proof (cases claimed)
    case True
    from Claim_grows [OF Pair] have plans: "plans_grow (c_Called s) plans" .
    let ?plan = "\<lambda>inner. \<lparr>pl_Name = proc_ID called, pl_TaskQueue = [], pl_Departments = withOpenSlots (sd_depts (c_sd inner)) called,
        pl_Steps = c_steps inner, pl_VisualElements = []\<rparr>"
    have "outcome (\<lambda>s'. evolved s s' \<and> proc_ID called \<in> dom (map_of (c_Called s')))
        (bindT (compileCalledState trav called plans) (\<lambda>inner. retT (s\<lparr>c_Called := Put (?plan inner) (c_Called inner)\<rparr>)))"
    proof (rule outcome_bind [OF compileCalledState_ok [where nm = "proc_ID called" and p = called]], elim conjE)
      fix inner assume inner: "plans_grow plans (c_Called inner)" "plan_ok (?plan inner)"
      have "plans_grow (c_Called s) (Put (?plan inner) (c_Called inner))"
        by (rule plans_grow_trans [OF plans plans_grow_trans [OF inner(1) Put_grows [OF inner(2)]]])
      from called_ok [OF assms this]
      show "outcome (\<lambda>s'. evolved s s' \<and> proc_ID called \<in> dom (map_of (c_Called s')))
          (retT (s\<lparr>c_Called := Put (?plan inner) (c_Called inner)\<rparr>))" by (simp add: Put_keys)
    qed
    then show ?thesis by (simp add: compileCalledPlan_def Pair True Let_def)
  next
    case False
    with Pair have "proc_ID called \<in> dom (map_of (c_Called s))" by (auto simp: Claim_def split: if_splits)
    with False show ?thesis by (simp add: compileCalledPlan_def Pair evolved_refl assms)
  qed
qed

lemma CallActivity_ok: "plan_state_ok s \<Longrightarrow> outcome (evolved s) (CallActivity_Compile env trav nodeID s)"
  unfolding CallActivity_Compile_def
  by (auto intro!: outcome_bind [OF compileCalledPlan_ok] trav_next_from add_call_step_ok intro: evolved_trans evolved_ok split: option.split)

lemma element_ok:
  assumes "plan_state_ok s" "sd_stages (c_sd s) \<le> StageBudget"
  shows "outcome (evolved s) (element_compile env trav nodeID s)"
  using assms
  by (auto simp: element_compile_def UserTask_Compile_def SendTask_Compile_def ReceiveTask_Compile_def boundary_compile_def Let_def
      evolved_refl FlushSeqBuf_ok place_stage_ok SubProcess_ok CallActivity_ok HandleGateway_ok forward_nexts_ok trav_ok
      split: option.split FlowNodeType.split)

lemma compile_node_ok:
  assumes "plan_state_ok s"
  shows "outcome (evolved s) (compile_node env trav nodeID s)"
proof (cases "over_budget (count_node s)")
  case False
  note v = visit_ok [OF assms False, of nodeID]
  note b = visit_budget [OF False, of nodeID]
  show ?thesis
    unfolding compile_node_def Let_def
    using outcome_mono [OF forward_nexts_ok [OF evolved_ok [OF v]] evolved_trans [OF v]]
      outcome_mono [OF element_ok [OF evolved_ok [OF v] b] evolved_trans [OF v]]
    by (simp add: assms evolved_refl note_rejoin_ok)
qed (simp add: compile_node_def assms evolved_refl note_rejoin_ok)

end

lemma TraverseNode_ok: "plan_state_ok s \<Longrightarrow> outcome (evolved s) (TraverseNode fuel env nodeID s)"
proof (induction fuel arbitrary: nodeID s)
  case (Suc fuel)
  have "safe_traversal (TraverseNode fuel env)" by unfold_locales (rule Suc.IH)
  from safe_traversal.compile_node_ok [OF this Suc.prems] show ?case by simp
qed simp

interpretation traverse: safe_traversal "TraverseNode fuel env" for fuel env
  by unfold_locales (rule TraverseNode_ok)

lemma compile_from_ok: "outcome (\<lambda>s. plan_state_ok s \<and> plans_ok (c_Called s)) (compile_from env proc g startID)"
proof -
  let ?s = "NewCompileState proc g (BuildCondExprs proc) (ProcessBackEdges proc g startID)"
  have "outcome (evolved ?s) (compile_from env proc g startID)"
    unfolding compile_from_def Let_def
    by (rule outcome_evolved)
      (auto simp: new_state_ok traverse.trav_next_ok TraverseNode_ok traverse.CompileBoundaryPaths_ok)
  then show ?thesis
    by (rule outcome_mono) (auto simp: evolved_def grows_def plans_grow_def plans_ok_def)
qed

text \<open>What \<open>Compile\<close> returns.\<close>

lemma Compile_ok: "outcome (\<lambda>(plan, called). plan_ok plan \<and> (\<forall>pl \<in> set called. plan_ok pl)) (Compile env proc g)"
proof -
  have "outcome (\<lambda>(plan, called). plan_ok plan \<and> (\<forall>pl \<in> set called. plan_ok pl))
      (bindT (compile_from env proc g startID) (\<lambda>s. map_option (\<lambda>s. Inr (plan_of proc s, All_plans (c_Called s))) (ResolveTargets s)))"
    for startID
  proof (rule outcome_bind [OF compile_from_ok], elim conjE)
    fix s assume s: "plan_state_ok s" "plans_ok (c_Called s)"
    show "outcome (\<lambda>(plan, called). plan_ok plan \<and> (\<forall>pl \<in> set called. plan_ok pl))
        (map_option (\<lambda>s. Inr (plan_of proc s, All_plans (c_Called s))) (ResolveTargets s))"
      using resolved_plan_ok [OF s(1)] All_plans_ok [OF s(2)]
      by (cases "ResolveTargets s") (simp_all add: plan_of_def ResolveTargets_Called)
  qed
  then show ?thesis by (simp add: Compile_def CompileWithImplicitStart_def Let_def)
qed

end
