(* ===== verification/Plan_Hosts.thy ===== *)
theory Plan_Hosts
  imports Plan_Contract
begin

text \<open>
  Where boundary paths hang: \<open>path_ids\<close> are the boundary events of the paths that a step holds.  A traversal only adds
  paths of hosts (sub-processes and calls) that it visits, a traversal that stops at compiled nodes only of hosts that
  nobody visited before; and a stage carries the boundary event of its task.  This is what keeps \<open>ResolveTargets\<close>
  from going round in circles.
\<close>

definition path_set :: "'s ErrorPath list \<Rightarrow> 's TimerPath list \<Rightarrow> 's MessagePath list \<Rightarrow> string set" where
  "path_set errs timers msgs = ep_BoundaryID ` set errs \<union> tp_BoundaryID ` set timers \<union> mp_BoundaryID ` set msgs"

primrec path_ids :: "ExecutionStep \<Rightarrow> string set" where
  "path_ids (ExecutionStep sequential par excl sub call msgs io extras) =
     (\<Union>b \<in> set (map (map_ParallelBranch path_ids) par). \<Union>(set (pb_Steps b))) \<union>
     (\<Union>b \<in> set (map (map_ExclusiveBranch path_ids) excl). \<Union>(set (xb_Steps b))) \<union>
     (\<Union>sw \<in> set_option (map_option (map_SubWorkflowStep path_ids) sub).
        \<Union>(set (sw_Plan sw)) \<union> path_set (sw_ErrorPaths sw) (sw_TimerPaths sw) (sw_MessagePaths sw)) \<union>
     (\<Union>cp \<in> set_option (map_option (map_CallPlanStep path_ids) call). path_set (cs_ErrorPaths cp) (cs_TimerPaths cp) (cs_MessagePaths cp)) \<union>
     (\<Union>p \<in> set (map (map_MessagePath path_ids) msgs). {mp_BoundaryID p})"

definition paths_of :: "ExecutionStep list \<Rightarrow> string set" where
  "paths_of steps = \<Union>(path_ids ` set steps)"

lemma paths_of_simps [simp]:
  "paths_of [] = {}" "paths_of (st # steps) = path_ids st \<union> paths_of steps" "paths_of (xs @ ys) = paths_of xs \<union> paths_of ys"
  by (auto simp: paths_of_def)

lemma path_set_map [simp]:
  "path_set (map (map_ErrorPath f) errs) (map (map_TimerPath f) timers) (map (map_MessagePath f) msgs) = path_set errs timers msgs"
  by (simp add: path_set_def image_image ErrorPath.map_sel TimerPath.map_sel MessagePath.map_sel)

lemma path_ids_cons:
  "path_ids (ExecutionStep sequential par excl sub call msgs io extras) =
     (\<Union>b \<in> set par. paths_of (pb_Steps b)) \<union> (\<Union>b \<in> set excl. paths_of (xb_Steps b)) \<union>
     (case sub of None \<Rightarrow> {} | Some sw \<Rightarrow> paths_of (sw_Plan sw) \<union> path_set (sw_ErrorPaths sw) (sw_TimerPaths sw) (sw_MessagePaths sw)) \<union>
     (case call of None \<Rightarrow> {} | Some cp \<Rightarrow> path_set (cs_ErrorPaths cp) (cs_TimerPaths cp) (cs_MessagePaths cp)) \<union>
     path_set [] [] msgs"
proof -
  have "(\<Union>b \<in> set (map (map_ParallelBranch path_ids) par). \<Union>(set (pb_Steps b))) = (\<Union>b \<in> set par. paths_of (pb_Steps b))"
    by (simp add: ParallelBranch.map_sel paths_of_def)
  moreover have "(\<Union>b \<in> set (map (map_ExclusiveBranch path_ids) excl). \<Union>(set (xb_Steps b))) = (\<Union>b \<in> set excl. paths_of (xb_Steps b))"
    by (simp add: ExclusiveBranch.map_sel paths_of_def)
  moreover have "(\<Union>p \<in> set (map (map_MessagePath path_ids) msgs). {mp_BoundaryID p}) = path_set [] [] msgs"
    by (auto simp: path_set_def MessagePath.map_sel)
  ultimately show ?thesis
    by (cases sub; cases call) (simp_all add: SubWorkflowStep.map_sel CallPlanStep.map_sel paths_of_def)
qed

declare path_ids.simps [simp del]

lemma path_ids_simps [simp]:
  "path_ids (sequential_step depts) = {}"
  "path_ids (branch_step par excl) = (\<Union>b \<in> set par. paths_of (pb_Steps b)) \<union> (\<Union>b \<in> set excl. paths_of (xb_Steps b))"
  "path_ids (sub_step sw) = paths_of (sw_Plan sw) \<union> path_set (sw_ErrorPaths sw) (sw_TimerPaths sw) (sw_MessagePaths sw)"
  "path_ids (call_step cp io extras) = path_set (cs_ErrorPaths cp) (cs_TimerPaths cp) (cs_MessagePaths cp)"
  by (simp_all add: sequential_step_def branch_step_def sub_step_def call_step_def path_ids_cons path_set_def)

subsection \<open>Hosts\<close>

definition hosted_ids :: "BPMNProcess \<Rightarrow> string set \<Rightarrow> string set" where
  "hosted_ids p H = {bnd_ID be | be. be \<in> set (proc_BoundaryEvents p) \<and> bnd_AttachedToRef be \<in> H \<and>
     (FindSubProcess p (bnd_AttachedToRef be) \<noteq> None \<or> FindCallActivity p (bnd_AttachedToRef be) \<noteq> None)}"

definition task_event_ids :: "BPMNProcess \<Rightarrow> string set" where
  "task_event_ids p = {bnd_ID be | be. be \<in> set (proc_BoundaryEvents p) \<and> FindTask p (bnd_AttachedToRef be) \<noteq> None} \<union>
     (\<Union>sp \<in> set (proc_SubProcesses p). bnd_ID ` set (sp_BoundaryEvents sp))"

definition stage_events :: "StageDef \<Rightarrow> string set" where
  "stage_events st = bt_BoundaryID ` set_option (sg_BoundaryTimer st) \<union> mp_BoundaryID ` set_option (sg_BoundaryMessage st)"

definition store_events :: "sharedDeptsStore \<Rightarrow> string set" where
  "store_events sd = (\<Union>d \<in> set (sd_depts sd). \<Union>st \<in> set (dd_Stages d). stage_events st)"

definition body_steps :: "sharedDeptsStore \<Rightarrow> string \<Rightarrow> ExecutionStep list" where
  "body_steps sd b = mget_or [] (sd_boundarySteps sd) b"

definition flat_bodies :: "BPMNProcess \<Rightarrow> bool" where
  "flat_bodies p \<longleftrightarrow> (\<forall>sp \<in> set (proc_SubProcesses p). sp_CallActivities sp = [])"

definition newly :: "CompileState \<Rightarrow> CompileState \<Rightarrow> string set" where
  "newly s s' = sd_visited (c_sd s') - (if c_stopAtCompiled s then sd_visited (c_sd s) else {})"

definition extends :: "CompileState \<Rightarrow> CompileState \<Rightarrow> bool" where
  "extends s s' \<longleftrightarrow> same_process s s' \<and> store_grows (c_sd s) (c_sd s') \<and> c_visited s \<subseteq> c_visited s'"

definition hosted :: "CompileState \<Rightarrow> CompileState \<Rightarrow> bool" where
  "hosted s s' \<longleftrightarrow> extends s s' \<and>
     paths_of (c_steps s') \<subseteq> paths_of (c_steps s) \<union> hosted_ids (c_Proc s) (newly s s') \<and>
     (\<forall>b. paths_of (body_steps (c_sd s') b) \<subseteq> paths_of (body_steps (c_sd s) b)) \<and>
     store_events (c_sd s') \<subseteq> store_events (c_sd s) \<union> task_event_ids (c_Proc s)"

lemma hosted_ids_mono: "H \<subseteq> H' \<Longrightarrow> hosted_ids p H \<subseteq> hosted_ids p H'"
  by (auto simp: hosted_ids_def)

lemma extends_refl [simp]: "extends s s"
  by (simp add: extends_def same_process_def)

lemma extends_trans: "extends a b \<Longrightarrow> extends b c \<Longrightarrow> extends a c"
  unfolding extends_def same_process_def by (simp, blast intro: store_grows_trans)

lemma extends_proc: "extends s s' \<Longrightarrow> c_Proc s' = c_Proc s"
  by (simp add: extends_def same_process_def)

lemma hosted_grows: "hosted s s' \<Longrightarrow> extends s s'"
  by (simp add: hosted_def)

lemma hosted_proc: "hosted s s' \<Longrightarrow> c_Proc s' = c_Proc s"
  by (simp add: hosted_def extends_proc)

lemma newly_trans: "extends s s1 \<Longrightarrow> extends s1 s2 \<Longrightarrow> newly s s1 \<union> newly s1 s2 \<subseteq> newly s s2"
  by (auto simp: newly_def extends_def same_process_def store_grows_def)

lemma newly_mono: "extends s s1 \<Longrightarrow> extends s1 s2 \<Longrightarrow> hosted_ids p (newly s s1) \<subseteq> hosted_ids p (newly s s2)"
  and newly_mono': "extends s s1 \<Longrightarrow> extends s1 s2 \<Longrightarrow> hosted_ids p (newly s1 s2) \<subseteq> hosted_ids p (newly s s2)"
  using newly_trans [of s s1 s2] by (auto intro!: hosted_ids_mono)

lemma hosted_refl [simp]: "hosted s s"
  by (simp add: hosted_def)

lemma hosted_trans [trans]:
  assumes "hosted a b" "hosted b c"
  shows "hosted a c"
proof -
  have ev: "extends a b" "extends b c" using assms by (simp_all add: hosted_def)
  have p: "c_Proc b = c_Proc a" by (rule extends_proc [OF ev(1)])
  have "paths_of (c_steps c) \<subseteq> paths_of (c_steps b) \<union> hosted_ids (c_Proc a) (newly b c)"
    using assms(2) p unfolding hosted_def by simp
  moreover have "paths_of (c_steps b) \<subseteq> paths_of (c_steps a) \<union> hosted_ids (c_Proc a) (newly a b)"
    using assms(1) unfolding hosted_def by simp
  ultimately have "paths_of (c_steps c) \<subseteq> paths_of (c_steps a) \<union> hosted_ids (c_Proc a) (newly a c)"
    using newly_mono [OF ev, of "c_Proc a"] newly_mono' [OF ev, of "c_Proc a"] by blast
  moreover have "\<forall>x. paths_of (body_steps (c_sd c) x) \<subseteq> paths_of (body_steps (c_sd a) x)"
    using assms unfolding hosted_def by (meson subset_trans)
  moreover have "store_events (c_sd c) \<subseteq> store_events (c_sd a) \<union> task_event_ids (c_Proc a)"
    using assms p unfolding hosted_def by auto
  ultimately show ?thesis using extends_trans [OF ev] by (simp add: hosted_def)
qed

text \<open>An operation that adds no path and no stage.\<close>

definition quiet :: "CompileState \<Rightarrow> CompileState \<Rightarrow> bool" where
  "quiet s s' \<longleftrightarrow> extends s s' \<and> paths_of (c_steps s') = paths_of (c_steps s) \<and>
     sd_boundarySteps (c_sd s') = sd_boundarySteps (c_sd s) \<and> store_events (c_sd s') = store_events (c_sd s)"

lemma quiet_hosted: "quiet s s' \<Longrightarrow> hosted s s'"
  by (auto simp: quiet_def hosted_def body_steps_def)

lemma quiet_trans: "quiet a b \<Longrightarrow> quiet b c \<Longrightarrow> quiet a c"
  unfolding quiet_def by (auto intro: extends_trans)

lemma store_events_EnsureDept [simp]: "store_events (EnsureDept k l i sd) = store_events sd"
  by (auto simp: store_events_def EnsureDept_def)

lemma store_events_segments [simp]: "store_events (sd\<lparr>sd_segments := x\<rparr>) = store_events sd"
  by (simp add: store_events_def)

lemma quiet_simps:
  "quiet s (FlushSeqBuf s)" "quiet s (note_rejoin n s)" "quiet s (visit_node n (count_node s))" "quiet s (AddToSeqBuf d s)"
  "quiet s (place_node n d s)" "quiet s (MarkNodeSegment n d s)"
  by (auto simp: quiet_def extends_def same_process_def store_grows_def store_events_def map_le_def update_conv
      FlushSeqBuf_def AppendStep_def note_rejoin_def visit_node_def count_node_def AddToSeqBuf_def place_node_def
      MarkNodeSegment_def Let_def)

lemma quiet_EnsureDept:
  "quiet s (s\<lparr>c_sd := EnsureDept k l i ((c_sd s)\<lparr>sd_segments := x\<rparr>)\<rparr>)"
  using EnsureDept_grows [of "(c_sd s)\<lparr>sd_segments := x\<rparr>" k l i]
  by (simp add: quiet_def extends_def same_process_def store_grows_def)

lemma quiet_NamedLane: "NamedLaneDepartment l i s = (d, s') \<Longrightarrow> quiet s s'"
  using quiet_EnsureDept [of s l l i] by (auto simp: NamedLaneDepartment_def quiet_def split: if_splits)

lemma quiet_SegmentOf:
  assumes "SegmentOf nodeID s = retT (d, s')"
  shows "quiet s s'"
proof -
  have "quiet s (s\<lparr>c_sd := sd', c_openLane := l, c_openSegment := seg\<rparr>)"
    if "next_segment lane iam (c_sd s) = retT (seg, sd')" for lane iam l seg sd'
  proof -
    have "sd' = c_sd s \<or> (\<exists>x. sd' = EnsureDept seg lane iam ((c_sd s)\<lparr>sd_segments := x\<rparr>))"
      using that by (auto simp: next_segment_def bindT_eq_ret Let_def split: if_splits)
    then have "quiet s (s\<lparr>c_sd := sd'\<rparr>)" using quiet_EnsureDept [of s seg lane iam] by (auto simp: quiet_def)
    then show ?thesis by (simp add: quiet_def extends_def same_process_def)
  qed
  moreover have "quiet s s" by (simp add: quiet_def)
  ultimately have "\<exists>s1. quiet s s1 \<and> s' = place_node nodeID d s1"
    using assms by (fastforce simp: SegmentOf_def bindT_eq_ret Let_def split: if_splits)
  then show ?thesis using quiet_simps(5) by (blast intro: quiet_trans)
qed

lemma AppendStage_hosted:
  assumes "AppendStage d stage s = retT s'" and "stage_events stage \<subseteq> task_event_ids (c_Proc s)"
  shows "hosted s s'"
proof -
  let ?ds = "sd_depts (c_sd s)" and ?i = "mget_or 0 (sd_deptIdx (c_sd s)) d"
  define ds where "ds = ?ds[?i := (?ds ! ?i)\<lparr>dd_Stages := dd_Stages (?ds ! ?i) @ [stage]\<rparr>]"
  from assms(1) have i: "?i < length ?ds" and s': "s' = s\<lparr>c_sd := (c_sd s)\<lparr>sd_depts := ds, sd_stages := Suc (sd_stages (c_sd s))\<rparr>\<rparr>"
    by (auto simp: AppendStage_def Let_def ds_def split: if_splits)
  have "dept_le (?ds ! j) (ds ! j)" if "j < length ?ds" for j
    using that by (cases "j = ?i") (simp_all add: ds_def dept_le_def)
  then have "extends s s'" by (simp add: s' extends_def same_process_def store_grows_def) (simp add: ds_def)
  moreover have "store_events (c_sd s') \<subseteq> store_events (c_sd s) \<union> stage_events stage"
  proof -
    have "d \<in> set ?ds \<or> d = (?ds ! ?i)\<lparr>dd_Stages := dd_Stages (?ds ! ?i) @ [stage]\<rparr>" if "d \<in> set ds" for d
      using that set_update_subset_insert [of ?ds ?i] unfolding ds_def by blast
    moreover have "?ds ! ?i \<in> set ?ds" using i by simp
    ultimately show ?thesis by (fastforce simp: s' store_events_def)
  qed
  ultimately show ?thesis using assms(2) by (auto simp: hosted_def s' body_steps_def)
qed

lemma stage_events_message [simp]: "stage_events (BuildMessageStageDef i nm ty msg ext) = {}"
  by (simp add: stage_events_def BuildMessageStageDef_def Let_def)

lemma stage_events_user:
  assumes "FindTask p nodeID = Some task" "c_Proc s = p"
  shows "stage_events (FillBoundaryMessageTarget s (ut_ID task) (FillBoundaryTimerTarget s (ut_ID task) (BuildStageDef task types p defs)))
    \<subseteq> task_event_ids p"
proof -
  let ?st = "BuildStageDef task types p defs"
  from assms(1) have "ut_ID task = nodeID" by (auto simp: FindTask_def find_Some_iff)
  with assms(1) have id: "FindTask p (ut_ID task) \<noteq> None" by simp
  have built: "sg_BoundaryTimer ?st = boundary_timer (ut_ID task) p" "sg_BoundaryMessage ?st = boundary_message (ut_ID task) p defs"
    by (auto simp: BuildStageDef_def buildConnectorStageDef_def Let_def split: prod.split bool.split)
  have "bnd_ID be \<in> task_event_ids p" if "TimerBoundaryFor (ut_ID task) p = Some be \<or> MessageBoundaryFor (ut_ID task) p = Some be" for be
    using that id by (auto simp: task_event_ids_def TimerBoundaryFor_def MessageBoundaryFor_def find_Some_iff)
  then show ?thesis
    by (auto simp: stage_events_def FillBoundaryMessageTarget_def FillBoundaryTimerTarget_def built boundary_timer_def boundary_message_def
        assms(2) split: option.splits)
qed

subsection \<open>The contract\<close>

definition returns :: "('a \<Rightarrow> bool) \<Rightarrow> 'a compiled \<Rightarrow> bool" where
  "returns P r \<longleftrightarrow> (\<forall>a. r = retT a \<longrightarrow> P a)"

lemma returns_simps [simp]: "returns P None" "returns P (retT a) \<longleftrightarrow> P a" "returns P (failT e)"
  by (simp_all add: returns_def)

lemma returns_bind: "returns P r \<Longrightarrow> (\<And>a. P a \<Longrightarrow> returns Q (f a)) \<Longrightarrow> returns Q (bindT r f)"
  by (auto simp: bindT_def returns_def split: option.split sum.split)

lemma returns_bind_pair:
  "returns (\<lambda>(a, s). P a s) r \<Longrightarrow> (\<And>a s. P a s \<Longrightarrow> returns Q (f a s)) \<Longrightarrow> returns Q (bindT r (\<lambda>(a, s). f a s))"
  by (erule returns_bind) auto

lemma returns_mono: "returns P r \<Longrightarrow> (\<And>a. P a \<Longrightarrow> Q a) \<Longrightarrow> returns Q r"
  by (auto simp: returns_def)

lemma returns_from: "hosted s0 s \<Longrightarrow> returns (hosted s) r \<Longrightarrow> returns (hosted s0) r"
  by (erule returns_mono) (rule hosted_trans)

lemma hosted_append:
  assumes "hosted s0 s" "path_ids st \<subseteq> hosted_ids (c_Proc s0) (newly s0 s)"
  shows "hosted s0 (AppendStep st s)"
proof -
  have "newly s0 (AppendStep st s) = newly s0 s" by (simp add: newly_def AppendStep_def)
  with assms show ?thesis
    by (auto simp: hosted_def AppendStep_def extends_def same_process_def body_steps_def)
qed

lemma hosted_branch: "hosted (NewBranchState s x) bs \<Longrightarrow> hosted s (absorb s bs) \<and>
    paths_of (c_steps bs) \<subseteq> hosted_ids (c_Proc s) (newly s (absorb s bs))"
  by (auto simp: hosted_def NewBranchState_def absorb_def extends_def same_process_def newly_def)

lemma revert_paths [simp]: "(\<Union>b \<in> set (revertBranches s n backs). paths_of (xb_Steps b)) = {}"
  by (auto simp: revertBranches_def Let_def split: prod.splits)

lemma boundaryPaths_ids:
  assumes "boundaryPaths env n s = (errs, timers, msgs)" "FindSubProcess (c_Proc s) n \<noteq> None \<or> FindCallActivity (c_Proc s) n \<noteq> None"
    and "n \<in> H"
  shows "path_set errs timers msgs \<subseteq> hosted_ids (c_Proc s) H"
proof -
  have "path_set errs timers msgs \<subseteq> bnd_ID ` {be \<in> set (proc_BoundaryEvents (c_Proc s)). bnd_AttachedToRef be = n}"
    using assms(1) by (auto simp: boundaryPaths_def Let_def path_set_def List.map_filter_def)
  also have "\<dots> \<subseteq> hosted_ids (c_Proc s) H" using assms(2,3) unfolding hosted_ids_def by blast
  finally show ?thesis .
qed

lemma hosted_bind_inputs: "bind_inputs env cp depts keys callers s = (callers', s') \<Longrightarrow> quiet s s'"
proof (induction keys arbitrary: callers s)
  case (Cons key keys)
  then show ?case by (auto split: option.splits prod.splits dest: quiet_NamedLane intro: quiet_trans)
qed (simp add: quiet_def)

lemma hosted_bindDepartments:
  assumes "bindDepartments env ca cp called depts s = (bound, s')"
  shows "quiet s s'"
proof -
  obtain callers s1 where b: "bind_inputs env cp depts (sort (mkeys depts)) [] s = (callers, s1)" by fastforce
  note q = hosted_bind_inputs [OF b]
  show ?thesis
    using assms q b quiet_NamedLane [of "fst (laneOf s1 (ca_ID ca))" "snd (laneOf s1 (ca_ID ca))" s1]
    by (auto simp: bindDepartments_def LaneDepartment_def split: list.splits if_splits prod.splits intro: quiet_trans)
qed

lemma later_host:
  assumes s: "hosted s0 s" "nodeID \<in> newly s0 s" and s': "hosted s s'"
  shows "hosted s0 s'" "nodeID \<in> newly s0 s'" "c_Proc s' = c_Proc s0" "c_Proc s = c_Proc s0"
  using newly_trans [OF hosted_grows [OF s(1)] hosted_grows [OF s']] s(2) hosted_trans [OF s(1) s'] hosted_proc [OF s(1)] hosted_proc [OF s']
  by auto

lemma add_body_step_hosted:
  assumes s: "hosted s0 s" "nodeID \<in> newly s0 s" and host: "FindSubProcess (c_Proc s) nodeID \<noteq> None"
    and body: "paths_of (c_steps body) = {} \<and> hosted s (s\<lparr>c_sd := c_sd body, c_Called := c_Called body\<rparr>)"
  shows "hosted s0 (add_body_step env nodeID sp body s)"
proof -
  let ?s1 = "MarkNodeSegment nodeID (FirstDepartment (c_steps body)) (s\<lparr>c_sd := c_sd body, c_Called := c_Called body\<rparr>)"
  from body have s1: "hosted s ?s1" by (blast intro: hosted_trans quiet_hosted quiet_simps(6))
  have q: "hosted s (FlushSeqBuf ?s1)" by (rule hosted_trans [OF s1 quiet_hosted [OF quiet_simps(1)]])
  note later = later_host [OF s q]
  obtain errs timers msgs where paths: "boundaryPaths env nodeID ?s1 = (errs, timers, msgs)" by (cases "boundaryPaths env nodeID ?s1")
  from boundaryPaths_ids [OF paths _ later(2)] host hosted_proc [OF s1] later(4)
  have "path_set errs timers msgs \<subseteq> hosted_ids (c_Proc s0) (newly s0 (FlushSeqBuf ?s1))" by simp
  with body show ?thesis by (auto simp: add_body_step_def paths Let_def intro!: hosted_append [OF later(1)])
qed

lemma add_call_step_hosted:
  assumes s: "hosted s0 s" "nodeID \<in> newly s0 s" and s': "quiet s s'" and host: "FindCallActivity (c_Proc s) nodeID \<noteq> None"
  shows "hosted s0 (add_call_step env nodeID ca called s')"
proof -
  obtain errs timers msgs where paths: "boundaryPaths env nodeID s' = (errs, timers, msgs)" by (cases "boundaryPaths env nodeID s'")
  obtain bound s1 where b: "bindDepartments env ca called (Get (proc_ID called) (c_Called s')) (in_Depts (ParseCallInputs (env_json env) ca)) s' = (bound, s1)"
    by fastforce
  have q: "hosted s (FlushSeqBuf s1)"
    using s' hosted_bindDepartments [OF b] quiet_simps(1) by (blast intro: quiet_hosted quiet_trans)
  note later = later_host [OF s q]
  from boundaryPaths_ids [OF paths _ later(2)] host hosted_proc [OF quiet_hosted [OF s']] later(4)
  have "path_set errs timers msgs \<subseteq> hosted_ids (c_Proc s0) (newly s0 (FlushSeqBuf s1))" by simp
  then show ?thesis by (auto simp: add_call_step_def paths b Let_def intro!: hosted_append [OF later(1)])
qed

text \<open>What compiling one boundary path does: its event gets the steps, and nothing else gets a path.\<close>

definition path_compiled :: "string \<Rightarrow> CompileState \<Rightarrow> CompileState \<Rightarrow> bool" where
  "path_compiled b s s' \<longleftrightarrow> extends s s' \<and> c_steps s' = c_steps s \<and>
     (\<forall>x. paths_of (body_steps (c_sd s') x) \<subseteq> paths_of (body_steps (c_sd s) x) \<union>
        (if x = b then hosted_ids (c_Proc s) (sd_visited (c_sd s') - sd_visited (c_sd s)) else {})) \<and>
     store_events (c_sd s') \<subseteq> store_events (c_sd s) \<union> task_event_ids (c_Proc s)"

lemma path_compiled_refl [simp]: "path_compiled b s s"
  by (simp add: path_compiled_def)

lemma flat_hosts: "flat_bodies p \<Longrightarrow> sp \<in> set (proc_SubProcesses p) \<Longrightarrow> hosted_ids (SubProcToProcess sp) H = {}"
  by (simp add: flat_bodies_def hosted_ids_def FindSubProcess_def FindCallActivity_def SubProcToProcess_def)

lemma flat_body [simp]: "flat_bodies (SubProcToProcess sp)"
  by (simp add: flat_bodies_def)

lemma body_events: "sp \<in> set (proc_SubProcesses p) \<Longrightarrow> task_event_ids (SubProcToProcess sp) \<subseteq> task_event_ids p"
  by (auto simp: task_event_ids_def)

lemma inner_state_fields [simp]:
  "c_Proc (newInnerState p) = p" "c_G (newInnerState p) = BuildGraph p" "c_steps (newInnerState p) = []" "c_sd (newInnerState p) = empty_store"
  "c_stopAtCompiled (newInnerState p) = False" "c_StopAt (newInnerState p) = []" "c_visited (newInnerState p) = {}"
  "c_skipped (newInnerState p) = SkippedTasks p (BuildGraph p)"
  by (simp_all add: newInnerState_def Let_def)

locale hosted_traversal =
  fixes trav :: traversal
  assumes trav_hosted: "flat_bodies (c_Proc s) \<Longrightarrow> returns (hosted s) (trav nodeID s)"
begin

lemma trav_all_hosted: "flat_bodies (c_Proc s) \<Longrightarrow> returns (hosted s) (trav_all trav ns s)"
proof (induction ns arbitrary: s)
  case (Cons n ns)
  show ?case
    unfolding trav_all.simps
    by (rule returns_bind [OF trav_hosted [OF Cons.prems]], rule returns_from, assumption)
      (use Cons.prems in \<open>auto simp: hosted_proc intro: Cons.IH\<close>)
qed simp

lemma trav_next_hosted: "flat_bodies (c_Proc s) \<Longrightarrow> returns (hosted s) (trav_next trav nodeID s)"
  by (simp add: trav_next_def trav_hosted split: list.split)

lemma trav_next_from: "hosted s0 s \<Longrightarrow> flat_bodies (c_Proc s0) \<Longrightarrow> returns (hosted s0) (trav_next trav nodeID s)"
  using returns_from [of s0 s "trav_next trav nodeID s"] trav_next_hosted [of s nodeID] hosted_proc [of s0 s] by simp

lemma trav_from: "hosted s0 s \<Longrightarrow> flat_bodies (c_Proc s0) \<Longrightarrow> returns (hosted s0) (trav nodeID s)"
  using returns_from [of s0 s "trav nodeID s"] trav_hosted [of s nodeID] hosted_proc [of s0 s] by simp

lemma branchSteps_hosted:
  assumes "flat_bodies (c_Proc s)"
  shows "returns (\<lambda>(steps, s'). hosted s s' \<and> paths_of steps \<subseteq> hosted_ids (c_Proc s) (newly s s')) (branchSteps trav n x s)"
proof -
  have flat: "flat_bodies (c_Proc (NewBranchState s x))" using assms by (simp add: NewBranchState_def)
  show ?thesis
    unfolding branchSteps_def
  proof (rule returns_bind [OF trav_hosted [OF flat]])
    fix bs assume "hosted (NewBranchState s x) bs"
    then have "hosted (NewBranchState s x) (FlushSeqBuf bs)" by (rule hosted_trans) (rule quiet_hosted [OF quiet_simps(1)])
    from hosted_branch [OF this]
    show "returns (\<lambda>(steps, s'). hosted s s' \<and> paths_of steps \<subseteq> hosted_ids (c_Proc s) (newly s s'))
        (retT (c_steps (FlushSeqBuf bs), absorb s (FlushSeqBuf bs)))" by simp
  qed
qed

lemma exclusiveBranch_hosted:
  assumes "flat_bodies (c_Proc s)"
  shows "returns (\<lambda>(b, s'). hosted s s' \<and> paths_of (xb_Steps b) \<subseteq> hosted_ids (c_Proc s) (newly s s')) (exclusiveBranch trav split n x s)"
  unfolding exclusiveBranch_def Let_def
  by (rule returns_bind [OF branchSteps_hosted [OF assms]]) (auto simp: zero_branch_def split: prod.split)

lemma later_paths:
  "hosted s s1 \<Longrightarrow> hosted s1 s2 \<Longrightarrow> H \<subseteq> hosted_ids (c_Proc s) (newly s s1) \<Longrightarrow> H \<subseteq> hosted_ids (c_Proc s) (newly s s2)"
  by (rule subset_trans [OF _ newly_mono]) (auto dest: hosted_grows)

lemma earlier_paths:
  "hosted s s1 \<Longrightarrow> hosted s1 s2 \<Longrightarrow> H \<subseteq> hosted_ids (c_Proc s1) (newly s1 s2) \<Longrightarrow> H \<subseteq> hosted_ids (c_Proc s) (newly s s2)"
  using newly_mono' [of s s1 s2 "c_Proc s"] by (auto simp: hosted_proc dest: hosted_grows)

lemma parallel_branches_hosted:
  "flat_bodies (c_Proc s) \<Longrightarrow>
     returns (\<lambda>(bs, s'). hosted s s' \<and> (\<Union>b \<in> set bs. paths_of (pb_Steps b)) \<subseteq> hosted_ids (c_Proc s) (newly s s')) (parallel_branches trav x ns s)"
proof (induction ns arbitrary: s)
  case (Cons n ns)
  show ?case
    unfolding parallel_branches.simps
  proof (rule returns_bind_pair [OF branchSteps_hosted [OF Cons.prems]], erule conjE)
    fix steps s1 assume s1: "hosted s s1" "paths_of steps \<subseteq> hosted_ids (c_Proc s) (newly s s1)"
    then have flat: "flat_bodies (c_Proc s1)" using Cons.prems by (simp add: hosted_proc)
    show "returns (\<lambda>(bs, s'). hosted s s' \<and> (\<Union>b \<in> set bs. paths_of (pb_Steps b)) \<subseteq> hosted_ids (c_Proc s) (newly s s'))
        (bindT (parallel_branches trav x ns s1) (\<lambda>(branches, s). retT (ParallelBranch (FirstDepartment steps) steps # branches, s)))"
    proof (rule returns_bind_pair [OF Cons.IH [OF flat]], erule conjE)
      fix bs s2 assume s2: "hosted s1 s2" "(\<Union>b \<in> set bs. paths_of (pb_Steps b)) \<subseteq> hosted_ids (c_Proc s1) (newly s1 s2)"
      from hosted_trans [OF s1(1) s2(1)] later_paths [OF s1(1) s2(1) s1(2)] earlier_paths [OF s1(1) s2]
      show "returns (\<lambda>(bs, s'). hosted s s' \<and> (\<Union>b \<in> set bs. paths_of (pb_Steps b)) \<subseteq> hosted_ids (c_Proc s) (newly s s'))
          (retT (ParallelBranch (FirstDepartment steps) steps # bs, s2))" by simp
    qed
  qed
qed simp

lemma exclusive_branches_hosted:
  "flat_bodies (c_Proc s) \<Longrightarrow>
     returns (\<lambda>(bs, s'). hosted s s' \<and> (\<Union>b \<in> set bs. paths_of (xb_Steps b)) \<subseteq> hosted_ids (c_Proc s) (newly s s')) (exclusive_branches trav split x ns s)"
proof (induction ns arbitrary: s)
  case (Cons n ns)
  show ?case
    unfolding exclusive_branches.simps
  proof (rule returns_bind_pair [OF exclusiveBranch_hosted [OF Cons.prems]], erule conjE)
    fix b s1 assume s1: "hosted s s1" "paths_of (xb_Steps b) \<subseteq> hosted_ids (c_Proc s) (newly s s1)"
    then have flat: "flat_bodies (c_Proc s1)" using Cons.prems by (simp add: hosted_proc)
    show "returns (\<lambda>(bs, s'). hosted s s' \<and> (\<Union>b \<in> set bs. paths_of (xb_Steps b)) \<subseteq> hosted_ids (c_Proc s) (newly s s'))
        (bindT (exclusive_branches trav split x ns s1) (\<lambda>(branches, s). retT (b # branches, s)))"
    proof (rule returns_bind_pair [OF Cons.IH [OF flat]], erule conjE)
      fix bs s2 assume s2: "hosted s1 s2" "(\<Union>b \<in> set bs. paths_of (xb_Steps b)) \<subseteq> hosted_ids (c_Proc s1) (newly s1 s2)"
      from hosted_trans [OF s1(1) s2(1)] later_paths [OF s1(1) s2(1) s1(2)] earlier_paths [OF s1(1) s2]
      show "returns (\<lambda>(bs, s'). hosted s s' \<and> (\<Union>b \<in> set bs. paths_of (xb_Steps b)) \<subseteq> hosted_ids (c_Proc s) (newly s s'))
          (retT (b # bs, s2))" by simp
    qed
  qed
qed simp

lemma single_forward_hosted:
  "flat_bodies (c_Proc s) \<Longrightarrow> returns (hosted s) (handleSingleForwardWithReverts trav nodeID forwards backs s)"
  unfolding handleSingleForwardWithReverts_def Let_def
  by (auto intro!: trav_from hosted_append split: list.split)

lemma split_no_join_hosted:
  assumes "flat_bodies (c_Proc s)"
  shows "returns (hosted s) (handleSplitNoJoin trav nodeID forwards backs kind s)"
proof -
  have "hosted s (AppendStep (branch_step [] (map set_terminates bs @ revertBranches s' nodeID backs)) s')"
    if "hosted s s'" "(\<Union>b \<in> set bs. paths_of (xb_Steps b)) \<subseteq> hosted_ids (c_Proc s) (newly s s')" for bs s'
    using that by (intro hosted_append) (simp_all add: set_terminates_def UN_Un)
  then show ?thesis
    unfolding handleSplitNoJoin_def by (auto intro!: returns_bind_pair [OF exclusive_branches_hosted [OF assms]])
qed

lemma split_with_join_hosted:
  assumes "flat_bodies (c_Proc s)"
  shows "returns (hosted s) (handleSplitWithJoin trav nodeID backs join kind s)"
  unfolding handleSplitWithJoin_def
proof (rule returns_bind)
  show "returns (\<lambda>(par, excl, s'). hosted s s' \<and>
        path_ids (branch_step par excl) \<subseteq> hosted_ids (c_Proc s) (newly s s'))
      (if kind = ExclusiveGateway then bindT (traverseExclusiveBranches trav nodeID join s) (\<lambda>(excl, s). retT ([], excl, s))
       else bindT (traverseBranches trav nodeID join s) (\<lambda>(par, s). retT (par, [], s)))"
    unfolding traverseExclusiveBranches_def traverseBranches_def
    by (auto intro!: returns_bind_pair [OF exclusive_branches_hosted [OF assms]] returns_bind_pair [OF parallel_branches_hosted [OF assms]])
next
  fix a :: "ExecutionStep ParallelBranch list \<times> ExecutionStep ExclusiveBranch list \<times> CompileState"
  obtain par excl s' where a: "a = (par, excl, s')" by (cases a)
  assume "case a of (par, excl, s') \<Rightarrow> hosted s s' \<and> path_ids (branch_step par excl) \<subseteq> hosted_ids (c_Proc s) (newly s s')"
  with a have s': "hosted s s'" "path_ids (branch_step par excl) \<subseteq> hosted_ids (c_Proc s) (newly s s')" by auto
  have "path_ids (branch_step par (excl @ revertBranches s' nodeID backs)) = path_ids (branch_step par excl)"
    by (simp add: UN_Un)
  with s' have "hosted s (AppendStep (branch_step par (excl @ revertBranches s' nodeID backs)) s')"
    by (intro hosted_append) simp_all
  from trav_from [OF this assms, of join] show "returns (hosted s)
      (case a of (par, excl, s) \<Rightarrow> trav join (AppendStep (branch_step par (excl @ revertBranches s nodeID backs)) s))"
    unfolding a by simp
qed

lemma HandleGateway_hosted:
  assumes "flat_bodies (c_Proc s)"
  shows "returns (hosted s) (HandleGateway trav nodeID kind s)"
proof -
  note flushed = quiet_hosted [OF quiet_simps(1) [of s]]
  have flat: "flat_bodies (c_Proc (FlushSeqBuf s))" using assms flushed by (simp add: hosted_proc)
  note later = returns_from [OF flushed]
  show ?thesis
    unfolding HandleGateway_def Let_def
    using trav_next_hosted [OF assms] later [OF single_forward_hosted [OF flat]] later [OF split_no_join_hosted [OF flat]]
      later [OF split_with_join_hosted [OF flat]] by (auto split: option.split bool.split)
qed

lemma place_stage_hosted:
  assumes "flat_bodies (c_Proc s)" "stage_events stage \<subseteq> task_event_ids (c_Proc s)"
  shows "returns (hosted s) (place_stage trav nodeID stage s)"
  unfolding place_stage_def
proof (rule returns_bind_pair [where P = "\<lambda>d s'. quiet s s'"])
  show "returns (\<lambda>(d, s'). quiet s s') (SegmentOf nodeID s)" by (auto simp: returns_def dest: quiet_SegmentOf)
next
  fix d s1 assume "quiet s s1"
  then have s1: "hosted s s1" by (rule quiet_hosted)
  show "returns (hosted s) (bindT (AppendStage d stage s1) (\<lambda>s. trav_next trav nodeID (AddToSeqBuf d s)))"
  proof (rule returns_bind [where P = "hosted s1"])
    show "returns (hosted s1) (AppendStage d stage s1)"
      using AppendStage_hosted [of d stage s1] assms(2) s1 by (auto simp: returns_def hosted_proc)
    fix s2 assume "hosted s1 s2"
    with s1 have "hosted s (AddToSeqBuf d s2)" by (blast intro: hosted_trans quiet_hosted quiet_simps)
    from trav_next_from [OF this assms(1)] show "returns (hosted s) (trav_next trav nodeID (AddToSeqBuf d s2))" .
  qed
qed

lemma CompileBoundaryPath_hosted:
  assumes "flat_bodies (c_Proc s)"
  shows "returns (path_compiled (bnd_ID be) s) (CompileBoundaryPath trav be s)"
proof -
  let ?p = "(NewBranchState s [])\<lparr>c_stopAtCompiled := True, c_rejoined := Some False\<rparr>"
  have flat: "flat_bodies (c_Proc ?p)" using assms by (simp add: NewBranchState_def)
  have "path_compiled (bnd_ID be) s
      (let s' = s\<lparr>c_sd := c_sd path, c_Called := c_Called path\<rparr>
       in if c_rejoined path = Some True then s'
          else s'\<lparr>c_sd := (c_sd s')\<lparr>sd_boundarySteps := mput (bnd_ID be) (c_steps (FlushSeqBuf path)) (sd_boundarySteps (c_sd s'))\<rparr>\<rparr>)"
    if "hosted ?p path" for path
  proof -
    from that have "hosted ?p (FlushSeqBuf path)" by (rule hosted_trans) (rule quiet_hosted [OF quiet_simps(1)])
    then have steps: "paths_of (c_steps (FlushSeqBuf path)) \<subseteq> hosted_ids (c_Proc s) (sd_visited (c_sd path) - sd_visited (c_sd s))"
      by (auto simp: hosted_def newly_def NewBranchState_def)
    moreover from that have "paths_of (body_steps (c_sd path) x) \<subseteq> paths_of (body_steps (c_sd s) x)" for x
      by (auto simp: hosted_def NewBranchState_def)
    moreover from that have "extends ?p path" "store_events (c_sd path) \<subseteq> store_events (c_sd s) \<union> task_event_ids (c_Proc s)"
      by (auto simp: hosted_def NewBranchState_def)
    ultimately show ?thesis
      by (auto simp: path_compiled_def Let_def body_steps_def store_events_def extends_def same_process_def store_grows_def NewBranchState_def)
  qed
  then show ?thesis
    unfolding CompileBoundaryPath_def Let_def by (auto intro!: returns_bind [OF trav_hosted [OF flat]])
qed

lemma compile_paths_unhosted:
  assumes "\<And>H. hosted_ids (c_Proc s) H = {}" "flat_bodies (c_Proc s)"
  shows "returns (hosted s) (compile_paths trav bes s)"
  using assms
proof (induction bes arbitrary: s)
  case (Cons be bes)
  show ?case
    unfolding compile_paths.simps
  proof (rule returns_bind [OF CompileBoundaryPath_hosted [OF Cons.prems(2)]])
    fix s1 assume "path_compiled (bnd_ID be) s s1"
    then have s1: "hosted s s1" unfolding path_compiled_def hosted_def Cons.prems(1) by simp
    from Cons.IH [of s1] Cons.prems hosted_proc [OF s1] have "returns (hosted s1) (compile_paths trav bes s1)" by simp
    with s1 show "returns (hosted s) (compile_paths trav bes s1)" by (rule returns_from)
  qed
qed simp

lemma body_hosted:
  assumes flat: "flat_bodies (c_Proc s)" and sp: "sp \<in> set (proc_SubProcesses (c_Proc s))"
  shows "returns (\<lambda>body. paths_of (c_steps body) = {} \<and> hosted s (s\<lparr>c_sd := c_sd body, c_Called := c_Called body\<rparr>))
      (compileSubProcessBody trav (SubProcToProcess sp) sub s)"
proof -
  let ?t = "ShareSegmentsWith s sub (newInnerState (SubProcToProcess sp))"
  have t: "c_Proc ?t = SubProcToProcess sp" "c_sd ?t = c_sd s" "c_Called ?t = c_Called s" "c_steps ?t = []"
    by (simp_all add: ShareSegmentsWith_def)
  note none = flat_hosts [OF flat sp]
  have "returns (hosted ?t) (runInnerState trav (SubProcToProcess sp) ?t)"
    unfolding runInnerState_def CompileBoundaryPaths_def
  proof (rule returns_bind [where P = "hosted ?t"])
    show "returns (hosted ?t) (case proc_StartEvents (SubProcToProcess sp) of [] \<Rightarrow> retT ?t | e # x \<Rightarrow> trav_next trav (ev_ID e) ?t)"
      by (simp add: t trav_next_hosted split: list.split)
    fix t1 assume t1: "hosted ?t t1"
    have "returns (hosted t1) (compile_paths trav (proc_BoundaryEvents (c_Proc t1)) t1)"
      by (rule compile_paths_unhosted) (simp_all add: hosted_proc [OF t1] t none)
    with t1 show "returns (hosted ?t) (compile_paths trav (proc_BoundaryEvents (c_Proc t1)) t1)" by (rule returns_from)
  qed
  then show ?thesis
    unfolding compileSubProcessBody_def
  proof (rule returns_mono)
    fix body assume b: "hosted ?t body"
    then have "paths_of (c_steps body) = {}" by (simp add: hosted_def t none)
    moreover have "hosted s (s\<lparr>c_sd := c_sd body, c_Called := c_Called body\<rparr>)"
      using b body_events [OF sp] by (auto simp: hosted_def t extends_def same_process_def)
    ultimately show "paths_of (c_steps body) = {} \<and> hosted s (s\<lparr>c_sd := c_sd body, c_Called := c_Called body\<rparr>)" by blast
  qed
qed

lemma SubProcess_hosted:
  assumes s: "hosted s0 s" "nodeID \<in> newly s0 s" and flat: "flat_bodies (c_Proc s0)"
  shows "returns (hosted s0) (SubProcess_Compile env trav nodeID s)"
proof (cases "FindSubProcess (c_Proc s) nodeID")
  case (Some sp)
  then have sp: "sp \<in> set (proc_SubProcesses (c_Proc s))" by (auto simp: FindSubProcess_def find_Some_iff)
  have flat': "flat_bodies (c_Proc s)" using flat hosted_proc [OF s(1)] by simp
  show ?thesis
    unfolding SubProcess_Compile_def Some option.case
    by (rule returns_bind [OF body_hosted [OF flat' sp]], rule trav_next_from [OF _ flat])
      (use add_body_step_hosted [OF s] Some in blast)
qed (simp add: SubProcess_Compile_def)

lemma called_plan_quiet: "returns (quiet s) (compileCalledPlan trav called s)"
  by (auto simp: returns_def compileCalledPlan_def bindT_eq_ret Let_def quiet_def extends_def same_process_def split: prod.splits bool.splits)

lemma CallActivity_hosted:
  assumes s: "hosted s0 s" "nodeID \<in> newly s0 s" and flat: "flat_bodies (c_Proc s0)"
  shows "returns (hosted s0) (CallActivity_Compile env trav nodeID s)"
proof (cases "FindCallActivity (c_Proc s) nodeID")
  case (Some ca)
  have "returns (hosted s0) (trav_next trav nodeID (add_call_step env nodeID ca called s'))" if "quiet s s'" for called s'
    by (rule trav_next_from [OF add_call_step_hosted [OF s that] flat]) (simp add: Some)
  then show ?thesis
    unfolding CallActivity_Compile_def Some option.case by (auto intro!: returns_bind [OF called_plan_quiet] split: option.split)
qed (simp add: CallActivity_Compile_def)

lemma UserTask_hosted: "flat_bodies (c_Proc s) \<Longrightarrow> returns (hosted s) (UserTask_Compile env trav nodeID s)"
  using stage_events_user [of "c_Proc s" nodeID _ s]
  by (auto simp: UserTask_Compile_def Let_def intro!: place_stage_hosted split: option.split)

lemma element_hosted:
  assumes s: "hosted s0 s" "nodeID \<in> newly s0 s" and flat: "flat_bodies (c_Proc s0)"
  shows "returns (hosted s0) (element_compile env trav nodeID s)"
proof -
  have flat': "flat_bodies (c_Proc s)" using hosted_proc [OF s(1)] flat by simp
  note later = returns_from [OF s(1)]
  have "returns (hosted s) (SendTask_Compile env trav nodeID s)" "returns (hosted s) (ReceiveTask_Compile env trav nodeID s)"
    by (auto simp: SendTask_Compile_def ReceiveTask_Compile_def Let_def flat' intro!: place_stage_hosted split: option.split)
  then show ?thesis
    unfolding element_compile_def
    using s(1) later [OF UserTask_hosted [OF flat']] SubProcess_hosted [OF s flat] CallActivity_hosted [OF s flat]
      later [OF HandleGateway_hosted [OF flat']] later [OF trav_all_hosted [OF flat']] trav_from [OF s(1) flat]
      hosted_trans [OF s(1) quiet_hosted [OF quiet_simps(1)]]
    by (auto simp: boundary_compile_def Let_def traverseForwardNexts_def intro!: later split: option.split FlowNodeType.split)
qed

lemma compile_node_hosted:
  assumes flat: "flat_bodies (c_Proc s)"
  shows "returns (hosted s) (compile_node env trav nodeID s)"
proof (cases "c_stopAtCompiled s \<and> nodeID \<in> sd_visited (c_sd s)")
  case False
  note v = quiet_hosted [OF quiet_simps(3) [of s nodeID]]
  have new: "nodeID \<in> newly s (visit_node nodeID (count_node s))"
    using False by (auto simp: newly_def visit_node_def count_node_def)
  from element_hosted [OF v new flat] returns_from [OF v trav_all_hosted] flat hosted_proc [OF v] show ?thesis
    unfolding compile_node_def by (auto simp: Let_def traverseForwardNexts_def quiet_hosted [OF quiet_simps(2)])
qed (auto simp: compile_node_def quiet_hosted [OF quiet_simps(2)])

end

lemma TraverseNode_hosted: "flat_bodies (c_Proc s) \<Longrightarrow> returns (hosted s) (TraverseNode fuel env nodeID s)"
proof (induction fuel arbitrary: nodeID s)
  case (Suc fuel)
  have "hosted_traversal (TraverseNode fuel env)" by unfold_locales (rule Suc.IH)
  from hosted_traversal.compile_node_hosted [OF this Suc.prems] show ?case by simp
qed simp

interpretation hosts: hosted_traversal "TraverseNode fuel env" for fuel env
  by unfold_locales (rule TraverseNode_hosted)

end
