(* ===== verification/Plan_Returns.thy ===== *)
theory Plan_Returns
  imports Plan_Hosts
begin

text \<open>
  The compilation returns.  Every visit spends a unit of the node budget of its store, and each called process opens a
  new store only once, so the fuel of \<open>compile_from\<close> is enough; and \<open>ResolveTargets\<close> does not go round in circles,
  because the paths that hang below the main steps and below the stages form a forest.
\<close>

subsection \<open>Chains of boundary paths\<close>

lemma those_None: "those xs = None \<longleftrightarrow> None \<in> set xs"
  by (induction xs) (auto split: option.splits)

lemma those_map_None: "those (map f xs) = None \<longleftrightarrow> (\<exists>x \<in> set xs. f x = None)"
  by (metis (no_types, lifting) those_None image_iff list.set_map)

lemma bind_None: "Option.bind r f = None \<longleftrightarrow> r = None \<or> (\<exists>a. r = Some a \<and> f a = None)"
  by (cases r) auto

text \<open>A chain of events, the latest first: each is a path of the one before, the first is a path of none.\<close>

fun linked :: "(string \<Rightarrow> string set) \<Rightarrow> string list \<Rightarrow> bool" where
  "linked P [] = True"
| "linked P [b] = (\<forall>x. b \<notin> P x)"
| "linked P (b # c # cs) = (b \<in> P c \<and> linked P (c # cs))"

lemma linked_split: "linked P (xs @ d # ys) \<Longrightarrow> case ys of [] \<Rightarrow> \<forall>x. d \<notin> P x | e # _ \<Rightarrow> d \<in> P e"
proof (induction xs)
  case Nil
  then show ?case by (cases ys) auto
next
  case (Cons x xs)
  then show ?case by (cases xs) (auto split: list.splits)
qed

lemma linked_distinct:
  assumes unique: "\<And>b c x. x \<in> P b \<Longrightarrow> x \<in> P c \<Longrightarrow> b = c"
  shows "linked P cs \<Longrightarrow> distinct cs"
proof (induction cs rule: induct_list012)
  case (3 b c cs)
  then have dist: "distinct (c # cs)" and b: "b \<in> P c" and tail: "linked P (c # cs)" by simp_all
  have "b \<notin> set (c # cs)"
  proof
    assume "b \<in> set (c # cs)"
    then obtain xs ys where split: "c # cs = xs @ b # ys" by (meson split_list)
    with tail have pred: "case ys of [] \<Rightarrow> \<forall>x. b \<notin> P x | e # _ \<Rightarrow> b \<in> P e" using linked_split by metis
    with b obtain e zs where e: "ys = e # zs" "b \<in> P e" by (cases ys) auto
    with unique [OF b] have "c = e" by blast
    with split e(1) dist show False by (cases xs) auto
  qed
  with dist show ?case by simp
qed auto

lemma linked_sources:
  "linked P (b # cs) \<Longrightarrow> c \<in> set cs \<Longrightarrow> P c \<noteq> {}"
proof (induction cs arbitrary: b)
  case (Cons d cs)
  then show ?case by (cases cs) auto
qed simp

subsection \<open>ResolveTargets\<close>

lemma paths_of_mem: "st \<in> set steps \<Longrightarrow> b \<in> path_ids st \<Longrightarrow> b \<in> paths_of steps"
  by (auto simp: paths_of_def)

lemma resolve_paths_Some:
  assumes "\<And>b. b \<in> path_set errs timers msgs \<Longrightarrow> J b \<noteq> None"
  shows "those (map (resolve_error R J) errs) \<noteq> None" "those (map (resolve_timer R J) timers) \<noteq> None"
    "those (map (resolve_message R J) msgs) \<noteq> None"
  using assms by (auto simp: those_map_None resolve_error_def resolve_timer_def resolve_message_def path_set_def)

lemma resolve_step_Some: "(\<And>b. b \<in> path_ids st \<Longrightarrow> J b \<noteq> None) \<Longrightarrow> resolve_step R J st \<noteq> None"
proof (induction st)
  case (ExecutionStep sequential par excl sub call msgs io extras)
  have held: "resolve_step R J st \<noteq> None" if "st \<in> set steps" "\<And>st. st \<in> set steps \<Longrightarrow> (\<And>b. b \<in> path_ids st \<Longrightarrow> J b \<noteq> None) \<Longrightarrow> resolve_step R J st \<noteq> None"
    "paths_of steps \<subseteq> path_ids (ExecutionStep sequential par excl sub call msgs io extras)" for st steps
    using that ExecutionStep.prems by (meson paths_of_mem subsetD)
  have lift: "those (map (resolve_step R J) steps) \<noteq> None" if "\<And>st. st \<in> set steps \<Longrightarrow> resolve_step R J st \<noteq> None" for steps
    using that by (simp add: those_map_None)
  have par: "resolve_parallel (map_ParallelBranch (resolve_step R J) b) \<noteq> None" if b: "b \<in> set par" for b
  proof -
    have "those (map (resolve_step R J) (pb_Steps b)) \<noteq> None"
      by (rule lift, erule held) (use b ExecutionStep.IH(1) [OF b path_steps_set(4)] in \<open>auto simp: path_ids_cons\<close>)
    then show ?thesis by (simp add: resolve_parallel_def ParallelBranch.map_sel)
  qed
  have excl: "resolve_exclusive R (map_ExclusiveBranch (resolve_step R J) b) \<noteq> None" if b: "b \<in> set excl" for b
  proof -
    have "those (map (resolve_step R J) (xb_Steps b)) \<noteq> None"
      by (rule lift, erule held) (use b ExecutionStep.IH(2) [OF b path_steps_set(5)] in \<open>auto simp: path_ids_cons\<close>)
    then show ?thesis by (simp add: resolve_exclusive_def ExclusiveBranch.map_sel)
  qed
  have sub: "map_pointer (resolve_sub R J) (map_option (map_SubWorkflowStep (resolve_step R J)) sub) \<noteq> None"
  proof (cases sub)
    case (Some sw)
    then have sw: "sw \<in> set_option sub" by simp
    have "those (map (resolve_step R J) (sw_Plan sw)) \<noteq> None"
      by (rule lift, erule held) (use Some ExecutionStep.IH(3) [OF sw held_steps_set(1)] in \<open>auto simp: path_ids_cons\<close>)
    moreover have "those (map (resolve_error R J) (map (map_ErrorPath (resolve_step R J)) (sw_ErrorPaths sw))) \<noteq> None"
      "those (map (resolve_timer R J) (map (map_TimerPath (resolve_step R J)) (sw_TimerPaths sw))) \<noteq> None"
      "those (map (resolve_message R J) (map (map_MessagePath (resolve_step R J)) (sw_MessagePaths sw))) \<noteq> None"
      by (rule resolve_paths_Some [where errs = "map (map_ErrorPath (resolve_step R J)) (sw_ErrorPaths sw)"
            and timers = "map (map_TimerPath (resolve_step R J)) (sw_TimerPaths sw)"
            and msgs = "map (map_MessagePath (resolve_step R J)) (sw_MessagePaths sw)"],
          rule ExecutionStep.prems, simp only: path_set_map path_ids_cons Some option.case, blast)+
    ultimately show ?thesis by (simp add: Some map_pointer_def resolve_sub_def bind_None SubWorkflowStep.map_sel)
  qed (simp add: map_pointer_def)
  have call: "map_pointer (resolve_call R J) call \<noteq> None"
  proof (cases call)
    case (Some cp)
    have "those (map (resolve_error R J) (cs_ErrorPaths cp)) \<noteq> None" "those (map (resolve_timer R J) (cs_TimerPaths cp)) \<noteq> None"
      "those (map (resolve_message R J) (cs_MessagePaths cp)) \<noteq> None"
      by (rule resolve_paths_Some [where errs = "cs_ErrorPaths cp" and timers = "cs_TimerPaths cp" and msgs = "cs_MessagePaths cp"],
          rule ExecutionStep.prems, simp only: path_ids_cons Some option.case, blast)+
    then show ?thesis by (simp add: Some map_pointer_def resolve_call_def bind_None)
  qed (simp add: map_pointer_def)
  have msgs: "those (map (resolve_message R J) msgs) \<noteq> None"
    by (rule resolve_paths_Some [where errs = "[]" and timers = "[]"], rule ExecutionStep.prems) (simp add: path_ids_cons)
  show ?case
    unfolding resolve_step.simps bind_None option.map_disc_iff
    using par excl sub call msgs by (auto simp: those_map_None)
qed

definition hung :: "CompileState \<Rightarrow> string \<Rightarrow> string set" where
  "hung s b = paths_of (body_steps (c_sd s) b)"

lemma hung_key: "hung s b \<noteq> {} \<Longrightarrow> b \<in> set (mkeys (sd_boundarySteps (c_sd s)))"
  using mget_or_absent [of b "sd_boundarySteps (c_sd s)" "[]"] by (auto simp: hung_def body_steps_def)

lemma path_steps_returns:
  assumes unique: "\<And>b c x. x \<in> hung s b \<Longrightarrow> x \<in> hung s c \<Longrightarrow> b = c"
  shows "linked (hung s) (b # cs) \<Longrightarrow> path_fuel s \<le> n + length cs \<Longrightarrow> path_steps n s b \<noteq> None"
proof (induction n arbitrary: b cs)
  case 0
  have "set cs \<subseteq> set (mkeys (sd_boundarySteps (c_sd s)))"
    using linked_sources [OF 0(1)] hung_key by blast
  moreover have "distinct cs" using linked_distinct [OF unique 0(1)] by simp
  ultimately have "length cs \<le> length (sd_boundarySteps (c_sd s))"
    by (metis card_length card_mono distinct_card finite_set length_map order_trans)
  with 0(2) show ?case by (simp add: path_fuel_def)
next
  case (Suc n)
  have "path_steps n s c \<noteq> None" if "c \<in> hung s b" for c
    using that Suc.prems by (intro Suc.IH [of c "b # cs"]) auto
  then have "resolve_step (resolve_ref s) (path_steps n s) st \<noteq> None" if "st \<in> set (body_steps (c_sd s) b)" for st
    using that by (intro resolve_step_Some) (auto simp: hung_def intro: paths_of_mem)
  then show ?case by (simp add: those_map_None body_steps_def)
qed

text \<open>The forest: below the main steps and the stages, no event hangs in two places.\<close>

definition forested :: "CompileState \<Rightarrow> bool" where
  "forested s \<longleftrightarrow> (\<forall>b c. b \<noteq> c \<longrightarrow> hung s b \<inter> hung s c = {}) \<and>
     (\<forall>b. (paths_of (c_steps s) \<union> store_events (c_sd s)) \<inter> hung s b = {})"

lemma ResolveTargets_returns:
  assumes "forested s"
  shows "ResolveTargets s \<noteq> None"
proof -
  have unique: "x \<in> hung s b \<Longrightarrow> x \<in> hung s c \<Longrightarrow> b = c" for x b c
    using assms by (auto simp: forested_def)
  have root: "pathSteps s b \<noteq> None" if "b \<in> paths_of (c_steps s) \<union> store_events (c_sd s)" for b
    unfolding pathSteps_def
  proof (rule path_steps_returns [where cs = "[]"])
    show "linked (hung s) [b]" using assms that by (auto simp: forested_def)
  qed (use unique in auto)
  have "resolve_step (resolve_ref s) (pathSteps s) st \<noteq> None" if "st \<in> set (c_steps s)" for st
    using that by (intro resolve_step_Some root) (auto intro: paths_of_mem)
  moreover have "resolve_dept s d \<noteq> None" if d: "d \<in> set (sd_depts (c_sd s))" for d
  proof -
    have "resolve_stage s st \<noteq> None" if "st \<in> set (dd_Stages d)" for st
    proof -
      have "pathSteps s b \<noteq> None" if "b \<in> stage_events st" for b
        using that d \<open>st \<in> set (dd_Stages d)\<close> by (intro root) (auto simp: store_events_def)
      then show ?thesis
        by (auto simp: resolve_stage_def bind_None map_pointer_def resolve_message_def stage_events_def split: option.splits)
    qed
    then show ?thesis by (simp add: resolve_dept_def those_map_None)
  qed
  ultimately show ?thesis by (auto simp: ResolveTargets_def bind_None those_map_None)
qed

subsection \<open>The forest is kept\<close>

definition events_apart :: "BPMNProcess \<Rightarrow> bool" where
  "events_apart p \<longleftrightarrow> inj_on bnd_ID (set (proc_BoundaryEvents p)) \<and> task_event_ids p \<inter> hosted_ids p UNIV = {}"

lemma hosted_ids_disjoint: "events_apart p \<Longrightarrow> H \<inter> H' = {} \<Longrightarrow> hosted_ids p H \<inter> hosted_ids p H' = {}"
  by (auto simp: events_apart_def hosted_ids_def dest: inj_onD)

definition owned :: "CompileState \<Rightarrow> bool" where
  "owned s \<longleftrightarrow> paths_of (c_steps s) \<subseteq> hosted_ids (c_Proc s) (sd_visited (c_sd s)) \<and>
     (\<forall>b. hung s b \<subseteq> hosted_ids (c_Proc s) (sd_visited (c_sd s))) \<and>
     (\<forall>b. paths_of (c_steps s) \<inter> hung s b = {}) \<and>
     (\<forall>b c. b \<noteq> c \<longrightarrow> hung s b \<inter> hung s c = {}) \<and>
     store_events (c_sd s) \<subseteq> task_event_ids (c_Proc s)"

lemma owned_forested:
  assumes "owned s" "events_apart (c_Proc s)"
  shows "forested s"
proof -
  have "hosted_ids (c_Proc s) (sd_visited (c_sd s)) \<subseteq> hosted_ids (c_Proc s) UNIV" by (rule hosted_ids_mono) simp
  with assms show ?thesis unfolding owned_def forested_def events_apart_def by blast
qed

lemma owned_start:
  assumes "c_sd s = empty_store" "c_steps s = []" "hosted s s'"
  shows "owned s'"
proof -
  have none: "hung s' b = {}" for b
    using assms by (auto simp: hosted_def hung_def body_steps_def empty_store_def)
  have "newly s s' \<subseteq> sd_visited (c_sd s')" by (auto simp: newly_def)
  from hosted_ids_mono [OF this] have "paths_of (c_steps s') \<subseteq> hosted_ids (c_Proc s') (sd_visited (c_sd s'))"
    using assms by (auto simp: hosted_def hosted_proc [OF assms(3)])
  moreover have "store_events (c_sd s') \<subseteq> task_event_ids (c_Proc s')"
    using assms by (simp add: hosted_def hosted_proc [OF assms(3)] store_events_def empty_store_def)
  ultimately show ?thesis by (simp add: owned_def none)
qed

lemma owned_path:
  assumes own: "owned s" and apart: "events_apart (c_Proc s)" and path: "path_compiled b s s'"
  shows "owned s'"
proof -
  let ?V = "sd_visited (c_sd s)" and ?V' = "sd_visited (c_sd s')" and ?p = "c_Proc s"
  have p: "c_Proc s' = ?p" and V: "?V \<subseteq> ?V'" and steps: "c_steps s' = c_steps s"
    using path by (auto simp: path_compiled_def extends_def same_process_def store_grows_def)
  have mono: "hosted_ids ?p ?V \<subseteq> hosted_ids ?p ?V'" "hosted_ids ?p (?V' - ?V) \<subseteq> hosted_ids ?p ?V'"
    using V by (auto intro!: hosted_ids_mono)
  have new: "hosted_ids ?p (?V' - ?V) \<inter> hosted_ids ?p ?V = {}" by (rule hosted_ids_disjoint [OF apart]) auto
  have hung: "hung s' x \<subseteq> hung s x \<union> (if x = b then hosted_ids ?p (?V' - ?V) else {})" for x
    using path by (simp add: path_compiled_def hung_def)
  have old: "hung s x \<subseteq> hosted_ids ?p ?V" "paths_of (c_steps s) \<inter> hung s x = {}" "x \<noteq> y \<Longrightarrow> hung s x \<inter> hung s y = {}" for x y
    using own by (auto simp: owned_def)
  have main: "paths_of (c_steps s) \<subseteq> hosted_ids ?p ?V" using own by (simp add: owned_def)
  have "hung s' x \<subseteq> hosted_ids ?p ?V'" for x using hung [of x] old(1) [of x] mono by (cases "x = b") auto
  moreover have "paths_of (c_steps s) \<inter> hung s' x = {}" for x
    using hung [of x] old(2) [of x] main new by (cases "x = b") auto
  moreover have "hung s' x \<inter> hung s' y = {}" if "x \<noteq> y" for x y
    using hung [of x] hung [of y] old(1) [of x] old(1) [of y] old(3) [OF that] that new
    by (cases "x = b"; cases "y = b"; simp; blast)
  moreover have "store_events (c_sd s') \<subseteq> task_event_ids ?p" using path own by (auto simp: path_compiled_def owned_def)
  ultimately show ?thesis using main mono by (auto simp: owned_def p steps)
qed

end
