(* ===== verification/Bpmn_Parser.thy ===== *)
theory Bpmn_Parser
  imports Validate_Structure
begin

text \<open>
  The parser of \<open>internal/bpmn_compiler/parser.go\<close> and the choice of the running process in
  \<open>internal/bpmn_compiler/compiler.go\<close>.  The XML decoder is outside the model: its token stream is an
  argument (the tokens, and whether the stream ends with \<open>io.EOF\<close> or with a syntax error), and so is
  the document it decodes.  Everything the parser does with the tokens and with the decoded document is
  modelled.  The element names of \<open>enums.AllowedBPMNElements\<close> (workflow-models) are a parameter.
\<close>

subsection \<open>Tokens\<close>

record xml_attr =
  at_Local :: string
  at_Value :: string

datatype xml_token =
    StartElement (tok_Space: string) (tok_Local: string) (tok_Attr: "xml_attr list")
  | EndElement (tok_Space: string) (tok_Local: string)
  | OtherToken

definition nsBPMN :: string where "nsBPMN = ''http://www.omg.org/spec/BPMN/20100524/MODEL''"
definition nsZeebe :: string where "nsZeebe = ''http://camunda.org/schema/zeebe/1.0''"
definition maxTokens :: nat where "maxTokens = 1000000"

definition tier3Elems :: "string list" where
  "tier3Elems =
     [''serviceTask'', ''scriptTask'', ''businessRuleTask'', ''transaction'', ''adHocSubProcess'',
      ''complexGateway'', ''terminateEventDefinition'', ''compensateEventDefinition'',
      ''cancelEventDefinition'', ''escalationEventDefinition'', ''conditionalEventDefinition'',
      ''linkEventDefinition'', ''signalEventDefinition'', ''standardLoopCharacteristics'',
      ''conversation'', ''choreography'', ''dataObject'', ''dataObjectReference'']"

definition tier2Elems :: "string list" where
  "tier2Elems = [''eventBasedGateway'', ''intermediateCatchEvent'']"

definition elementID :: "xml_token \<Rightarrow> string" where
  "elementID se = (case find (\<lambda>a. at_Local a = ''id'') (tok_Attr se) of Some a \<Rightarrow> at_Value a | None \<Rightarrow> tok_Local se)"

definition rejectedElementErr :: "xml_token \<Rightarrow> BPMNErrorCode \<Rightarrow> BPMNValidationError" where
  "rejectedElementErr se code = err_of code (elementID se)"

subsection \<open>Connector service tasks\<close>

text \<open>What the scan of a service task's subtree has found so far.\<close>

record service_scan =
  ss_connectorType :: string
  ss_isConnector :: bool
  ss_loopMarker :: string

definition isLoopMarker :: "xml_token \<Rightarrow> bool" where
  "isLoopMarker t \<longleftrightarrow> tok_Space t = nsBPMN \<and>
     (tok_Local t = ''standardLoopCharacteristics'' \<or> tok_Local t = ''multiInstanceLoopCharacteristics'')"

definition scan_type_attr :: "xml_attr \<Rightarrow> service_scan \<Rightarrow> service_scan" where
  "scan_type_attr a s =
     (if at_Local a \<noteq> ''type'' then s
      else let (name, hasConnectorPrefix) = CutPrefix (at_Value a) ConnectorTaskDefPrefix
           in if hasConnectorPrefix \<and> name \<noteq> [] then s\<lparr>ss_connectorType := name, ss_isConnector := True\<rparr> else s)"

definition scan_start :: "nat \<Rightarrow> xml_token \<Rightarrow> service_scan \<Rightarrow> service_scan" where
  "scan_start depth t s =
     (let s = (if ss_loopMarker s = [] \<and> depth = 1 \<and> isLoopMarker t then s\<lparr>ss_loopMarker := tok_Local t\<rparr> else s)
      in if \<not> ss_isConnector s \<and> depth = 1 \<and> tok_Space t = nsZeebe \<and> tok_Local t = ''taskDefinition''
         then fold scan_type_attr (tok_Attr t) s else s)"

definition is_service_task :: "xml_token \<Rightarrow> bool" where
  "is_service_task t \<longleftrightarrow> tok_Space t = nsBPMN \<and> tok_Local t = ''serviceTask''"

text \<open>\<open>None\<close> is the error of the token stream; the rest is what the decoder has still to read.\<close>

fun scan_service :: "nat \<Rightarrow> service_scan \<Rightarrow> xml_token list \<Rightarrow> (service_scan \<times> xml_token list) option" where
  "scan_service 0 s ts = Some (s, ts)"
| "scan_service (Suc d) s [] = None"
| "scan_service (Suc d) s (t # ts) =
     (case t of
        StartElement _ _ _ \<Rightarrow>
          let depth = (if is_service_task t then Suc (Suc d) else Suc d)
          in scan_service depth (scan_start depth t s) ts
      | EndElement _ _ \<Rightarrow> scan_service (if is_service_task t then d else Suc d) s ts
      | OtherToken \<Rightarrow> scan_service (Suc d) s ts)"

definition scanServiceTaskConnectorType :: "xml_token list \<Rightarrow> (service_scan \<times> xml_token list) option" where
  "scanServiceTaskConnectorType ts =
     scan_service 1 \<lparr>ss_connectorType = [], ss_isConnector = False, ss_loopMarker = []\<rparr> ts"

subsection \<open>Rejected elements\<close>

text \<open>The error of an element, if any, and the rest of the tokens; \<open>None\<close> is \<open>abort\<close>.\<close>

definition classifyServiceTask :: "xml_token \<Rightarrow> xml_token list
    \<Rightarrow> (BPMNValidationError option \<times> xml_token list) option" where
  "classifyServiceTask se ts =
     (case scanServiceTaskConnectorType ts of
        None \<Rightarrow> None
      | Some (s, rest) \<Rightarrow>
          if ss_isConnector s then
            (if ss_loopMarker s \<noteq> [] then Some (Some (rejectedElementErr se BPMNErrRejectedElement), rest)
             else Some (None, rest))
          else Some (Some (rejectedElementErr se BPMNErrRejectedElement), rest))"

definition plain_element_err :: "string list \<Rightarrow> xml_token \<Rightarrow> BPMNValidationError option" where
  "plain_element_err allowed se =
     (if tok_Local se \<in> set tier3Elems then Some (rejectedElementErr se BPMNErrRejectedElement)
      else if tok_Local se \<in> set tier2Elems then Some (rejectedElementErr se BPMNErrUnsupportedElement)
      else if tok_Local se \<notin> set allowed then Some (rejectedElementErr se BPMNErrRejectedElement)
      else None)"

definition classifyElement :: "string list \<Rightarrow> xml_token \<Rightarrow> xml_token list
    \<Rightarrow> (BPMNValidationError option \<times> xml_token list) option" where
  "classifyElement allowed se ts =
     (if tok_Local se = ''serviceTask'' then classifyServiceTask se ts
      else Some (plain_element_err allowed se, ts))"

lemma scan_service_shorter: "scan_service d s ts = Some (s', rest) \<Longrightarrow> length rest \<le> length ts"
proof (induction d s ts rule: scan_service.induct)
  case (3 d s t ts)
  show ?case
  proof (cases t)
    case (StartElement space local attrs)
    have "scan_service (if is_service_task t then Suc (Suc d) else Suc d)
        (scan_start (if is_service_task t then Suc (Suc d) else Suc d) t s) ts = Some (s', rest)"
      using "3.prems" StartElement by (simp add: Let_def)
    from "3.IH"(1) [OF StartElement refl this] show ?thesis by simp
  next
    case (EndElement space local)
    then show ?thesis using "3.IH"(2) [OF EndElement] "3.prems" by simp
  next
    case OtherToken
    then show ?thesis using "3.IH"(3) [OF OtherToken] "3.prems" by simp
  qed
qed simp_all

lemma classifyElement_shorter: "classifyElement allowed se ts = Some (e, rest) \<Longrightarrow> length rest \<le> length ts"
  by (auto simp: classifyElement_def classifyServiceTask_def scanServiceTaskConnectorType_def
        dest: scan_service_shorter split: if_splits option.splits prod.splits)

definition bpmn_start :: "xml_token \<Rightarrow> bool" where
  "bpmn_start t \<longleftrightarrow> (case t of StartElement space _ _ \<Rightarrow> space = nsBPMN | _ \<Rightarrow> False)"

function scanRejected :: "string list \<Rightarrow> xml_token list \<Rightarrow> BPMNValidationError list" where
  "scanRejected allowed [] = []"
| "scanRejected allowed (t # ts) =
     (if \<not> bpmn_start t then scanRejected allowed ts
      else case classifyElement allowed t ts of
        None \<Rightarrow> []
      | Some (e, rest) \<Rightarrow> (case e of Some err \<Rightarrow> [err] | None \<Rightarrow> []) @ scanRejected allowed rest)"
  by pat_completeness auto
termination
  by (relation "measure (\<lambda>(allowed, ts). length ts)") (auto simp: less_Suc_eq_le dest: classifyElement_shorter)

text \<open>
  In a document with no service task the scan reports exactly the BPMN elements outside the allowed
  vocabulary, in document order.
\<close>

lemma scanRejected_plain:
  assumes "\<forall>t \<in> set ts. bpmn_start t \<longrightarrow> tok_Local t \<noteq> ''serviceTask''"
  shows "scanRejected allowed ts = List.map_filter (plain_element_err allowed) (filter bpmn_start ts)"
  using assms
  by (induction ts) (simp_all add: classifyElement_def map_filter_simps split: option.splits)

subsection \<open>Security scan, token limit and name spaces\<close>

text \<open>
  \<open>strings.EqualFold\<close> is Unicode case folding; the two markers have only letters whose folds are ASCII
  (neither \<open>K\<close> nor \<open>S\<close>), and for those it is the ASCII folding.
\<close>

definition ascii_lower :: "char \<Rightarrow> char" where
  "ascii_lower c = (if of_char c \<in> {65..90::nat} then char_of (of_char c + 32 :: nat) else c)"

definition EqualFold :: "string \<Rightarrow> string \<Rightarrow> bool" where
  "EqualFold a b \<longleftrightarrow> map ascii_lower a = map ascii_lower b"

fun containsFold :: "string \<Rightarrow> string \<Rightarrow> bool" where
  "containsFold [] marker = False"
| "containsFold (c # cs) marker =
     ((length marker \<le> Suc (length cs) \<and> c = CHR ''<'' \<and> EqualFold (take (length marker) (c # cs)) marker)
      \<or> containsFold cs marker)"

datatype parse_error = ForbiddenXML | TokenScanError | Cancelled | MissingNamespace | DecodeError

definition securityScan :: "string \<Rightarrow> parse_error + unit" where
  "securityScan xmlData =
     (if containsFold xmlData ''<!DOCTYPE'' \<or> containsFold xmlData ''<!ENTITY'' then Inl ForbiddenXML else Inr ())"

text \<open>\<open>ctxErr n\<close> says whether the context is done at the loop's \<open>n\<close>-th round; \<open>eof\<close> how the stream ends.\<close>

fun count_tokens :: "(nat \<Rightarrow> bool) \<Rightarrow> bool \<Rightarrow> nat \<Rightarrow> xml_token list \<Rightarrow> parse_error + unit" where
  "count_tokens ctxErr eof n [] =
     (if ctxErr n then Inl Cancelled else if maxTokens < n then Inl ForbiddenXML
      else if eof then Inr () else Inl TokenScanError)"
| "count_tokens ctxErr eof n (t # ts) =
     (if ctxErr n then Inl Cancelled else if maxTokens < n then Inl ForbiddenXML
      else count_tokens ctxErr eof (Suc n) ts)"

definition countTokens :: "(nat \<Rightarrow> bool) \<Rightarrow> xml_token list \<times> bool \<Rightarrow> parse_error + unit" where
  "countTokens ctxErr stream = count_tokens ctxErr (snd stream) 0 (fst stream)"

definition requireNamespaces :: "string \<Rightarrow> parse_error + unit" where
  "requireNamespaces xmlData =
     (if \<not> Contains xmlData nsBPMN then Inl MissingNamespace
      else if \<not> Contains xmlData nsZeebe then Inl MissingNamespace else Inr ())"

lemma count_tokens_ok:
  "count_tokens ctxErr eof n ts = Inr () \<longleftrightarrow>
     eof \<and> n + length ts \<le> maxTokens \<and> (\<forall>k \<in> {n..n + length ts}. \<not> ctxErr k)"
proof (induction ts arbitrary: n)
  case (Cons t ts)
  have "{n..n + length (t # ts)} = insert n {Suc n..Suc n + length ts}" by auto
  then show ?case using Cons.IH [of "Suc n"] by auto
qed auto

lemma containsFold_iff:
  assumes "prefix ''<'' marker"
  shows "containsFold s marker \<longleftrightarrow> (\<exists>a b c. s = a @ b @ c \<and> prefix ''<'' b \<and> EqualFold b marker)"
proof (induction s)
  case Nil
  show ?case by auto
next
  case (Cons c cs)
  have here: "(\<exists>b d. c # cs = b @ d \<and> prefix ''<'' b \<and> EqualFold b marker) \<longleftrightarrow>
    length marker \<le> Suc (length cs) \<and> c = CHR ''<'' \<and> EqualFold (take (length marker) (c # cs)) marker"
    (is "?L \<longleftrightarrow> ?R")
  proof
    assume ?L
    then obtain b d where b: "c # cs = b @ d" "prefix ''<'' b" "EqualFold b marker" by blast
    then have len: "length b = length marker" unfolding EqualFold_def by (metis length_map)
    with b(1) have take: "take (length marker) (c # cs) = b" by simp
    from b(1) len have "length marker \<le> Suc (length cs)"
      by (metis length_Cons length_append le_add1)
    moreover from b(1,2) have "c = CHR ''<''" by (cases b) auto
    ultimately show ?R using take b(3) by simp
  next
    assume R: ?R
    with assms have "prefix ''<'' (take (length marker) (c # cs))" by (cases marker) auto
    with R show ?L by (metis append_take_drop_id)
  qed
  have "(\<exists>a b d. c # cs = a @ b @ d \<and> P b) \<longleftrightarrow> (\<exists>b d. c # cs = b @ d \<and> P b) \<or> (\<exists>a b d. cs = a @ b @ d \<and> P b)"
    for P :: "string \<Rightarrow> bool"
  proof
    assume "\<exists>a b d. c # cs = a @ b @ d \<and> P b"
    then obtain a b d where "c # cs = a @ b @ d" and "P b" by blast
    then show "(\<exists>b d. c # cs = b @ d \<and> P b) \<or> (\<exists>a b d. cs = a @ b @ d \<and> P b)" by (cases a) auto
  qed (metis append_Cons append_Nil)
  from this [of "\<lambda>b. prefix ''<'' b \<and> EqualFold b marker"] here Cons.IH show ?case by simp
qed

subsection \<open>Normalisation of the decoded document\<close>

definition connectorServiceTasks :: "BPMNUserTask list \<Rightarrow> BPMNUserTask list" where
  "connectorServiceTasks tasks = filter (\<lambda>t. snd (ConnectorType (ut_ExtensionElements t))) tasks"

definition promoteTasks :: "BPMNUserTask list \<Rightarrow> BPMNUserTask list \<Rightarrow> BPMNUserTask list \<Rightarrow> BPMNUserTask list" where
  "promoteTasks userTasks genericTasks serviceTasks =
     (let userTasks = userTasks @ genericTasks in userTasks @ connectorServiceTasks serviceTasks)"

definition stripEmptyRefFlows :: "BPMNSequenceFlow list \<Rightarrow> BPMNSequenceFlow list" where
  "stripEmptyRefFlows flows = filter (\<lambda>f. sf_SourceRef f \<noteq> [] \<and> sf_TargetRef f \<noteq> []) flows"

text \<open>The promotion empties the lists it takes the tasks from.\<close>

fun normalise_sub :: "BPMNSubProcess \<Rightarrow> BPMNSubProcess" where
  "normalise_sub (BPMNSubProcess nid name ext lanes user generic service send receive starts ends par excl incl flows
       bounds subs calls) =
     BPMNSubProcess nid name ext lanes (promoteTasks user generic service) [] [] send receive starts ends par excl incl
       (stripEmptyRefFlows flows) bounds subs calls"

definition normalise_process :: "BPMNProcess \<Rightarrow> BPMNProcess" where
  "normalise_process p =
     p\<lparr>proc_UserTasks := promoteTasks (proc_UserTasks p) (proc_GenericTasks p) (proc_ServiceTasks p),
       proc_GenericTasks := [], proc_ServiceTasks := [],
       proc_SequenceFlows := stripEmptyRefFlows (proc_SequenceFlows p),
       proc_SubProcesses := map normalise_sub (proc_SubProcesses p)\<rparr>"

definition mark_call :: "BPMNDefinitions \<Rightarrow> BPMNCallActivity \<Rightarrow> string set \<Rightarrow> string set" where
  "mark_call defs ca marked =
     (case ext_ZeebeCalledElement (ca_ExtensionElements ca) of
        None \<Rightarrow> marked
      | Some ext \<Rightarrow>
          (case FindProcessByID defs (ce_ProcessID ext) of
             None \<Rightarrow> marked | Some called \<Rightarrow> insert (proc_ID called) marked))"

definition markCalledProcesses :: "BPMNDefinitions \<Rightarrow> BPMNDefinitions" where
  "markCalledProcesses defs =
     defs\<lparr>defs_ModuleProcesses :=
       fold (\<lambda>p. fold (mark_call defs) (proc_CallActivities p)) (defs_Processes defs) {}\<rparr>"

definition unmarshal :: "BPMNDefinitions option \<Rightarrow> parse_error + BPMNDefinitions" where
  "unmarshal decoded =
     (case decoded of
        None \<Rightarrow> Inl DecodeError
      | Some defs \<Rightarrow> Inr (markCalledProcesses (defs\<lparr>defs_Processes := map normalise_process (defs_Processes defs)\<rparr>)))"

text \<open>The decoder: the tokens of a text and the document it decodes to.\<close>

definition parse :: "(string \<Rightarrow> xml_token list \<times> bool) \<Rightarrow> (string \<Rightarrow> BPMNDefinitions option) \<Rightarrow> (nat \<Rightarrow> bool)
    \<Rightarrow> string \<Rightarrow> parse_error + BPMNDefinitions" where
  "parse tokens decode ctxErr xmlData =
     bindE (securityScan xmlData) (\<lambda>_.
     bindE (countTokens ctxErr (tokens xmlData)) (\<lambda>_.
     bindE (requireNamespaces xmlData) (\<lambda>_.
     unmarshal (decode xmlData))))"

subsection \<open>What the parser promises\<close>

text \<open>No flow of a parsed process has an empty end, so its graph has no node without a name.\<close>

lemma flows_normalise_process:
  "sf \<in> set (proc_SequenceFlows (normalise_process p)) \<Longrightarrow> sf_SourceRef sf \<noteq> [] \<and> sf_TargetRef sf \<noteq> []"
  by (simp add: normalise_process_def stripEmptyRefFlows_def)

lemma flows_normalise_sub:
  "sf \<in> set (sp_SequenceFlows (normalise_sub sp)) \<Longrightarrow> sf_SourceRef sf \<noteq> [] \<and> sf_TargetRef sf \<noteq> []"
  by (cases sp) (simp add: stripEmptyRefFlows_def)

lemma mput_values: "snd ` set (mput k v m) \<subseteq> insert v (snd ` set m)"
  by (induction m) auto

lemma mappend_values:
  "set (concat (map snd (mappend k v m))) \<subseteq> insert v (set (concat (map snd m)))"
proof
  fix x assume "x \<in> set (concat (map snd (mappend k v m)))"
  then obtain l where "l \<in> snd ` set (mappend k v m)" and x: "x \<in> set l" by auto
  with mput_values [of k "mget_or [] m k @ [v]" m] have "l = mget_or [] m k @ [v] \<or> l \<in> snd ` set m"
    by (auto simp: mappend_def)
  with x mget_or_elem [of x m k] show "x \<in> insert v (set (concat (map snd m)))" by auto
qed

lemma targets_fold_add_flow:
  "targets (fold add_flow sfs g) \<subseteq> targets g \<union> sf_TargetRef ` set sfs"
proof (induction sfs arbitrary: g)
  case (Cons sf sfs)
  have "targets (add_flow sf g) \<subseteq> insert (sf_TargetRef sf) (targets g)"
    unfolding targets_def add_flow_def using mappend_values by simp
  with Cons.IH [of "add_flow sf g"] show ?case by auto
qed simp

lemma keys_fold_add_flow:
  "set (mkeys (g_Outgoing (fold add_flow sfs g))) = sf_SourceRef ` set sfs \<union> set (mkeys (g_Outgoing g))"
proof (induction sfs arbitrary: g)
  case (Cons sf sfs)
  show ?case by (simp only: fold_simps Cons.IH) (simp add: add_flow_def)
qed simp

lemma named_BuildGraph:
  assumes "\<And>sf. sf \<in> set (proc_SequenceFlows p) \<Longrightarrow> sf_SourceRef sf \<noteq> [] \<and> sf_TargetRef sf \<noteq> []"
  shows "named (BuildGraph p)" and "[] \<notin> set (mkeys (g_Outgoing (BuildGraph p)))"
proof -
  define g0 where "g0 = fold (\<lambda>(n, t). register t n) (registrations p)
    \<lparr>g_Outgoing = [], g_Incoming = [], g_NodeType = [], g_NodeIDs = []\<rparr>"
  have g: "BuildGraph p = fold add_flow (proc_SequenceFlows p) g0" by (simp only: BuildGraph_alt g0_def)
  have none: "g_Outgoing g0 = []" by (simp add: g0_def)
  then have "targets g0 = {}" by (simp add: targets_def)
  with targets_fold_add_flow [of "proc_SequenceFlows p" g0]
  have "targets (BuildGraph p) \<subseteq> sf_TargetRef ` set (proc_SequenceFlows p)" by (simp only: g Un_empty_left)
  with assms show "named (BuildGraph p)" unfolding named_def by (metis imageE subsetD)
  have "set (mkeys (g_Outgoing (BuildGraph p))) = sf_SourceRef ` set (proc_SequenceFlows p)"
    by (simp only: g keys_fold_add_flow none) simp
  with assms show "[] \<notin> set (mkeys (g_Outgoing (BuildGraph p)))" by (metis imageE)
qed

lemma named_normalised:
  "named (BuildGraph (normalise_process p))"
  "[] \<notin> set (mkeys (g_Outgoing (BuildGraph (normalise_process p))))"
  using named_BuildGraph [of "normalise_process p"] flows_normalise_process [of _ p] by blast+

lemma parse_Inr:
  "parse tokens decode ctxErr xml = Inr defs \<longleftrightarrow>
     securityScan xml = Inr () \<and> countTokens ctxErr (tokens xml) = Inr () \<and> requireNamespaces xml = Inr () \<and>
     unmarshal (decode xml) = Inr defs"
  by (auto simp: parse_def bindE_eq_Inr)

lemma unmarshal_processes:
  "unmarshal decoded = Inr defs \<Longrightarrow> p \<in> set (defs_Processes defs) \<Longrightarrow> \<exists>q. p = normalise_process q"
  by (auto simp: unmarshal_def markCalledProcesses_def split: option.splits)

subsection \<open>compiler.go: the process that runs\<close>

definition isBlocking :: "BPMNValidationError \<Rightarrow> bool" where
  "isBlocking e \<longleftrightarrow> be_Severity e \<noteq> SeverityWarning"

definition hasBlockingErrors :: "BPMNValidationError list \<Rightarrow> bool" where
  "hasBlockingErrors errs \<longleftrightarrow> (\<exists>e \<in> set errs. be_Severity e \<noteq> SeverityWarning)"

definition withoutCode :: "BPMNValidationError list \<Rightarrow> BPMNErrorCode \<Rightarrow> BPMNValidationError list" where
  "withoutCode errs code = filter (\<lambda>e. \<not> (be_Code e = code \<and> \<not> isBlocking e)) errs"

definition executableProcesses :: "BPMNDefinitions \<Rightarrow> BPMNProcess list" where
  "executableProcesses defs =
     (case defs_Processes defs of
        [p] \<Rightarrow> if IsIgnored p then [] else [p]
      | procs \<Rightarrow>
          let calledIDs = set (concat (map (\<lambda>p. if IsIgnored p then []
                else filter (\<lambda>pid. pid \<noteq> []) (List.map_filter called_id (proc_CallActivities p))) procs))
          in filter (\<lambda>p. proc_IsExecutable p \<and> proc_ID p \<notin> calledIDs \<and> \<not> IsIgnored p) procs)"

definition runnableRoot :: "BPMNDefinitions \<Rightarrow> BPMNValidationError + BPMNProcess" where
  "runnableRoot defs =
     (case executableProcesses defs of
        [p] \<Rightarrow> Inr p
      | [] \<Rightarrow> Inl (err_of BPMNErrNoRunnableProcess [])
      | _ \<Rightarrow> Inl (err_of BPMNErrMultipleProcesses []))"

definition lanelessWork :: "BPMNProcess \<Rightarrow> BPMNValidationError list" where
  "lanelessWork root =
     (if proc_LaneSet root \<noteq> [] then []
      else map (err_of BPMNErrMissingDeptID)
        (map ut_ID (proc_UserTasks root) @ map st_ID (proc_SendTasks root) @ map rt_ID (proc_ReceiveTasks root) @
         map ca_ID (proc_CallActivities root) @ map sp_ID (proc_SubProcesses root)))"

lemma executableProcesses_subset: "set (executableProcesses defs) \<subseteq> {p \<in> set (defs_Processes defs). \<not> IsIgnored p}"
  by (auto simp: executableProcesses_def Let_def split: list.splits if_splits)

lemma runnableRoot_Inr: "runnableRoot defs = Inr p \<longleftrightarrow> executableProcesses defs = [p]"
  by (auto simp: runnableRoot_def split: list.splits)

lemma hasBlockingErrors_iff: "hasBlockingErrors errs \<longleftrightarrow> (\<exists>e \<in> set errs. isBlocking e)"
  by (simp add: hasBlockingErrors_def isBlocking_def)

text \<open>Dropping a warning never hides a blocking error.\<close>

lemma hasBlockingErrors_withoutCode: "hasBlockingErrors (withoutCode errs code) \<longleftrightarrow> hasBlockingErrors errs"
  by (auto simp: hasBlockingErrors_iff withoutCode_def)

end
