(* ===== verification/Plan_Fuel.thy ===== *)
theory Plan_Fuel
  imports Plan_Returns Bpmn_Parser
begin

text \<open>
  The compilation returns with the fuel that \<open>compile_from\<close> gives it.  \<open>room\<close> is what is left: the node budget of the
  current store and, for every process of the document that nobody has called yet, the budget of its own store.
\<close>

definition flows_named :: "BPMNProcess \<Rightarrow> bool" where
  "flows_named p \<longleftrightarrow> (\<forall>sf \<in> set (proc_SequenceFlows p). sf_SourceRef sf \<noteq> [] \<and> sf_TargetRef sf \<noteq> [])"

text \<open>
  A process that the parser and the validators let through: every flow has its ends, sub-processes hold no calls, and
  the boundary events have identifiers of their own.
\<close>

definition sound_process :: "BPMNProcess \<Rightarrow> bool" where
  "sound_process p \<longleftrightarrow> flows_named p \<and> (\<forall>sp \<in> set (proc_SubProcesses p). flows_named (SubProcToProcess sp)) \<and>
     flat_bodies p \<and> events_apart p"

text \<open>A set of sound processes of the document that holds every process that they call.\<close>

definition callee :: "BPMNDefinitions \<Rightarrow> BPMNCallActivity \<Rightarrow> BPMNProcess option" where
  "callee defs ca = FindProcessByID defs (case called_id ca of Some pid \<Rightarrow> pid | None \<Rightarrow> [])"

definition calls_in :: "BPMNDefinitions \<Rightarrow> BPMNProcess set \<Rightarrow> BPMNProcess \<Rightarrow> bool" where
  "calls_in defs Ps p \<longleftrightarrow> (\<forall>ca \<in> set (proc_CallActivities p). set_option (callee defs ca) \<subseteq> Ps)"

definition sound_below :: "BPMNDefinitions \<Rightarrow> BPMNProcess set \<Rightarrow> bool" where
  "sound_below defs Ps \<longleftrightarrow> Ps \<subseteq> set (defs_Processes defs) \<and> (\<forall>p \<in> Ps. sound_process p \<and> calls_in defs Ps p)"

definition walkable :: "CompileState \<Rightarrow> bool" where
  "walkable s \<longleftrightarrow> named (c_G s) \<and> [] \<notin> set (mkeys (g_Outgoing (c_G s))) \<and>
     (\<forall>sp \<in> set (proc_SubProcesses (c_Proc s)). flows_named (SubProcToProcess sp)) \<and> flat_bodies (c_Proc s)"

definition known_ids :: "BPMNDefinitions \<Rightarrow> string set" where
  "known_ids defs = proc_ID ` set (defs_Processes defs)"

definition room :: "BPMNDefinitions \<Rightarrow> CompileState \<Rightarrow> nat" where
  "room defs s = card (known_ids defs - dom (map_of (c_Called s))) * (nodeBudget + 2) + (Suc nodeBudget - sd_nodes (c_sd s))"

lemma room_mono: "evolved s s' \<Longrightarrow> room defs s' \<le> room defs s"
  unfolding room_def
  by (intro add_mono mult_le_mono1 card_mono diff_le_mono2)
    (auto simp: evolved_def grows_def store_grows_def plans_grow_def known_ids_def)

lemma walkable_evolved: "walkable s \<Longrightarrow> evolved s s' \<Longrightarrow> walkable s'"
  by (simp add: walkable_def evolved_def grows_def same_process_def)

lemma same_proc: "evolved s s' \<Longrightarrow> c_Proc s' = c_Proc s"
  by (simp add: evolved_def grows_def same_process_def)

lemma walkable_branch: "walkable s \<Longrightarrow> walkable (NewBranchState s x)" "room defs (NewBranchState s x) = room defs s"
  by (simp_all add: walkable_def NewBranchState_def room_def)

lemma walkable_inner:
  assumes "flows_named p" "\<forall>sp \<in> set (proc_SubProcesses p). flows_named (SubProcToProcess sp)" "flat_bodies p"
  shows "walkable (newInnerState p)"
  using assms named_BuildGraph [of p] by (simp add: walkable_def flows_named_def)

lemma walkable_body:
  assumes "walkable s" "sp \<in> set (proc_SubProcesses (c_Proc s))"
  shows "walkable (ShareSegmentsWith s sub (newInnerState (SubProcToProcess sp)))"
  using walkable_inner [of "SubProcToProcess sp"] assms by (simp add: walkable_def ShareSegmentsWith_def)

lemma find_join_returns:
  assumes "walkable s"
  shows "find_join s n \<noteq> None"
proof -
  have g: "named (c_G s)" "[] \<notin> set (mkeys (g_Outgoing (c_G s)))" using assms by (simp_all add: walkable_def)
  from NewJoins_returns [OF g] obtain j where j: "NewJoins (c_G s) (c_backEdges s) = Some j" by blast
  have "FindJoin n (c_G s) (c_backEdges s) \<noteq> None"
  proof (cases "n = []")
    case True
    then have "out (c_G s) n = []" using g(2) by (simp add: mget_or_absent)
    then show ?thesis by (simp add: FindJoin_def forwardCount_def)
  next
    case False
    with FindJoin_returns [OF g(1)] show ?thesis by fastforce
  qed
  with Joins_Find_eq [OF g j] j show ?thesis by (simp add: find_join_def)
qed

definition halts :: "'a option \<Rightarrow> bool" where
  "halts r \<longleftrightarrow> r \<noteq> None"

lemma halts_simps [simp]: "halts None = False" "halts (Some a) = True" "halts (map_option f r) = halts r"
  by (simp_all add: halts_def)

lemma bind_returns: "outcome P r \<Longrightarrow> halts r \<Longrightarrow> (\<And>a. P a \<Longrightarrow> halts (f a)) \<Longrightarrow> halts (bindT r f)"
  by (auto simp: halts_def bindT_def outcome_def split: option.split sum.split)

lemma bind_total: "halts r \<Longrightarrow> (\<And>a. halts (f a)) \<Longrightarrow> halts (bindT r f)"
  by (auto simp: halts_def bindT_def split: option.split sum.split)

lemma bind_returns_pair:
  "outcome (\<lambda>(a, s). P a s) r \<Longrightarrow> halts r \<Longrightarrow> (\<And>a s. P a s \<Longrightarrow> halts (f a s)) \<Longrightarrow> halts (bindT r (\<lambda>(a, s). f a s))"
  by (erule bind_returns) auto

definition ready :: "BPMNDefinitions \<Rightarrow> BPMNProcess set \<Rightarrow> nat \<Rightarrow> CompileState \<Rightarrow> bool" where
  "ready defs Ps bound s \<longleftrightarrow> sound_below defs Ps \<and> calls_in defs Ps (c_Proc s) \<and> plan_state_ok s \<and> walkable s \<and> room defs s < bound"

lemma ready_ok: "ready defs Ps bound s \<Longrightarrow> plan_state_ok s"
  by (simp add: ready_def)

lemma ready_sound:
  assumes "ready defs Ps bound s" "p \<in> Ps"
  shows "sound_process p" "calls_in defs Ps p" "p \<in> set (defs_Processes defs)"
  using assms by (auto simp: ready_def sound_below_def)

lemma ready_flat: "ready defs Ps bound s \<Longrightarrow> flat_bodies (c_Proc s)"
  by (simp add: ready_def walkable_def)

lemma ready_evolved: "ready defs Ps bound s \<Longrightarrow> evolved s s' \<Longrightarrow> ready defs Ps bound s'"
  using room_mono [of s s' defs] same_proc [of s s'] by (auto simp: ready_def walkable_evolved evolved_ok)

lemma ready_branch: "ready defs Ps bound s \<Longrightarrow> ready defs Ps bound (NewBranchState s x)"
  by (simp add: ready_def walkable_branch branch_state_ok) (simp add: NewBranchState_def)

locale returning_traversal = safe_traversal trav + hosted_traversal trav for trav :: traversal +
  fixes env :: CompileEnv and Ps :: "BPMNProcess set" and bound :: nat
  assumes trav_returns: "ready (env_Defs env) Ps bound s \<Longrightarrow> halts (trav n s)"
begin

abbreviation rdy :: "CompileState \<Rightarrow> bool" where "rdy \<equiv> ready (env_Defs env) Ps bound"

lemma trav_all_returns: "rdy s \<Longrightarrow> halts (trav_all trav ns s)"
proof (induction ns arbitrary: s)
  case (Cons n ns)
  show ?case
    unfolding trav_all.simps
    by (rule bind_returns [OF trav_ok [OF ready_ok [OF Cons.prems]] trav_returns [OF Cons.prems]])
      (rule Cons.IH, rule ready_evolved [OF Cons.prems])
qed simp

lemma trav_next_returns: "rdy s \<Longrightarrow> halts (trav_next trav nodeID s)"
  using trav_returns by (simp add: trav_next_def split: list.split)

lemma branchSteps_returns: "rdy s \<Longrightarrow> halts (branchSteps trav n x s)"
  using trav_returns [OF ready_branch] by (auto simp: branchSteps_def intro!: bind_total)

lemma exclusiveBranch_returns: "rdy s \<Longrightarrow> halts (exclusiveBranch trav split n x s)"
  unfolding exclusiveBranch_def Let_def by (rule bind_total [OF branchSteps_returns]) (auto split: prod.split)

lemma parallel_branches_returns: "rdy s \<Longrightarrow> halts (parallel_branches trav x ns s)"
proof (induction ns arbitrary: s)
  case (Cons n ns)
  show ?case
    unfolding parallel_branches.simps
  proof (rule bind_returns_pair [OF branchSteps_ok [OF ready_ok [OF Cons.prems]] branchSteps_returns [OF Cons.prems]])
    fix steps s1 assume "evolved s s1 \<and> steps_in (dept_ids (c_sd s1)) steps"
    with Cons.IH [OF ready_evolved [OF Cons.prems]] have "halts (parallel_branches trav x ns s1)" by blast
    then show "halts (bindT (parallel_branches trav x ns s1) (\<lambda>(branches, s). retT (ParallelBranch (FirstDepartment steps) steps # branches, s)))"
      by (rule bind_total) (auto split: prod.split)
  qed
qed simp

lemma exclusive_branches_returns: "rdy s \<Longrightarrow> halts (exclusive_branches trav split x ns s)"
proof (induction ns arbitrary: s)
  case (Cons n ns)
  show ?case
    unfolding exclusive_branches.simps
  proof (rule bind_returns_pair [OF exclusiveBranch_ok [OF ready_ok [OF Cons.prems]] exclusiveBranch_returns [OF Cons.prems]])
    fix b s1 assume "evolved s s1 \<and> excl_ok (dept_ids (c_sd s1)) b"
    with Cons.IH [OF ready_evolved [OF Cons.prems]] have "halts (exclusive_branches trav split x ns s1)" by blast
    then show "halts (bindT (exclusive_branches trav split x ns s1) (\<lambda>(branches, s). retT (b # branches, s)))"
      by (rule bind_total) (auto split: prod.split)
  qed
qed simp

lemma AppendStep_ready: "rdy s \<Longrightarrow> step_in (dept_ids (c_sd s)) st \<Longrightarrow> rdy (AppendStep st s)"
  by (rule ready_evolved) (auto intro: AppendStep_ok ready_ok)

lemma single_forward_returns: "rdy s \<Longrightarrow> halts (handleSingleForwardWithReverts trav nodeID forwards backs s)"
  unfolding handleSingleForwardWithReverts_def Let_def
  by (auto intro!: trav_returns AppendStep_ready dest!: revertBranches_free split: list.split)

lemma split_no_join_returns: "rdy s \<Longrightarrow> halts (handleSplitNoJoin trav nodeID forwards backs kind s)"
  unfolding handleSplitNoJoin_def
  by (simp, intro impI bind_total [OF exclusive_branches_returns]) (auto split: prod.split)

lemma split_with_join_returns:
  assumes "rdy s"
  shows "halts (handleSplitWithJoin trav nodeID backs join kind s)"
  unfolding handleSplitWithJoin_def
proof (rule bind_returns)
  show "outcome (\<lambda>(par, excl, s'). evolved s s' \<and> (\<forall>b \<in> set par. par_ok (dept_ids (c_sd s')) b) \<and> (\<forall>b \<in> set excl. excl_ok (dept_ids (c_sd s')) b))
      (if kind = ExclusiveGateway then bindT (traverseExclusiveBranches trav nodeID join s) (\<lambda>(excl, s). retT ([], excl, s))
       else bindT (traverseBranches trav nodeID join s) (\<lambda>(par, s). retT (par, [], s)))"
    by (rule branches_ok [OF ready_ok [OF assms]])
  show "halts (if kind = ExclusiveGateway then bindT (traverseExclusiveBranches trav nodeID join s) (\<lambda>(excl, s). retT ([], excl, s))
       else bindT (traverseBranches trav nodeID join s) (\<lambda>(par, s). retT (par, [], s)))"
  proof (cases "kind = ExclusiveGateway")
    case True
    have "halts (bindT (exclusive_branches trav nodeID join (ForwardNexts s nodeID) s) (\<lambda>(excl, s). retT ([], excl, s)))"
      by (rule bind_total [OF exclusive_branches_returns [OF assms]]) (simp split: prod.split)
    with True show ?thesis by (simp add: traverseExclusiveBranches_def)
  next
    case False
    have "halts (bindT (parallel_branches trav join (ForwardNexts s nodeID) s) (\<lambda>(par, s). retT (par, [], s)))"
      by (rule bind_total [OF parallel_branches_returns [OF assms]]) (simp split: prod.split)
    with False show ?thesis by (simp add: traverseBranches_def)
  qed
next
  fix a :: "ExecutionStep ParallelBranch list \<times> ExecutionStep ExclusiveBranch list \<times> CompileState"
  obtain par excl s' where a: "a = (par, excl, s')" by (cases a)
  assume "case a of (par, excl, s') \<Rightarrow> evolved s s' \<and> (\<forall>b \<in> set par. par_ok (dept_ids (c_sd s')) b) \<and> (\<forall>b \<in> set excl. excl_ok (dept_ids (c_sd s')) b)"
  with a have s': "evolved s s'" "\<forall>b \<in> set par. par_ok (dept_ids (c_sd s')) b" "\<forall>b \<in> set excl. excl_ok (dept_ids (c_sd s')) b" by auto
  have "rdy (AppendStep (branch_step par (excl @ revertBranches s' nodeID backs)) s')"
    using s'(2,3) by (intro AppendStep_ready [OF ready_evolved [OF assms s'(1)]]) (auto dest: revertBranches_ok)
  from trav_returns [OF this] show "halts (case a of (par, excl, s) \<Rightarrow> trav join (AppendStep (branch_step par (excl @ revertBranches s nodeID backs)) s))"
    by (simp add: a)
qed

lemma HandleGateway_returns:
  assumes "rdy s"
  shows "halts (HandleGateway trav nodeID kind s)"
proof -
  have r: "rdy (FlushSeqBuf s)" by (rule ready_evolved [OF assms FlushSeqBuf_ok [OF ready_ok [OF assms]]])
  then have "find_join (FlushSeqBuf s) nodeID \<noteq> None" by (intro find_join_returns) (simp add: ready_def)
  then show ?thesis
    unfolding HandleGateway_def Let_def
    using trav_next_returns [OF assms] single_forward_returns [OF r] split_no_join_returns [OF r] split_with_join_returns [OF r]
    by (auto split: option.split bool.split)
qed

lemma place_stage_returns:
  assumes "rdy s" "sd_stages (c_sd s) \<le> StageBudget"
  shows "halts (place_stage trav nodeID stage s)"
proof -
  note ok = ready_ok [OF assms(1)]
  from SegmentOf_ok [OF ok, of nodeID] obtain d s1 where s1: "SegmentOf nodeID s = retT (d, s1)" "evolved s s1"
    "d \<in> dept_ids (c_sd s1)" "sd_stages (c_sd s1) = sd_stages (c_sd s)" by blast
  from AppendStage_ok [OF evolved_ok [OF s1(2)] s1(3), of stage] s1(4) assms(2)
  obtain s2 where s2: "AppendStage d stage s1 = retT s2" "evolved s1 s2" "dept_ids (c_sd s2) = dept_ids (c_sd s1)" by auto
  have s3: "evolved s2 (AddToSeqBuf d s2)" by (rule AddToSeqBuf_ok) (use s1 s2 evolved_ok in auto)
  have "rdy (AddToSeqBuf d s2)"
    by (rule ready_evolved [OF assms(1) evolved_trans [OF evolved_trans [OF s1(2) s2(2)] s3]])
  from trav_next_returns [OF this] show ?thesis by (simp add: place_stage_def s1 s2)
qed

lemma CompileBoundaryPath_returns:
  assumes "rdy s"
  shows "halts (CompileBoundaryPath trav be s)"
proof -
  have "rdy ((NewBranchState s [])\<lparr>c_stopAtCompiled := True, c_rejoined := Some False\<rparr>)"
    using ready_branch [OF assms, of "[]"] by (simp add: ready_def plan_state_ok_def walkable_def room_def)
  from trav_returns [OF this] show ?thesis
    unfolding CompileBoundaryPath_def Let_def by (auto intro!: bind_total)
qed

lemma compile_paths_returns: "rdy s \<Longrightarrow> halts (compile_paths trav bes s)"
proof (induction bes arbitrary: s)
  case (Cons be bes)
  show ?case
    unfolding compile_paths.simps
    by (rule bind_returns [OF CompileBoundaryPath_ok [OF ready_ok [OF Cons.prems]] CompileBoundaryPath_returns [OF Cons.prems]])
      (rule Cons.IH, rule ready_evolved [OF Cons.prems])
qed simp

lemma start_ok: "plan_state_ok s \<Longrightarrow> outcome (evolved s) (case es of [] \<Rightarrow> retT s | e # _ \<Rightarrow> trav_next trav (ev_ID e) s)"
  by (simp add: trav_next_ok evolved_refl split: list.split)

lemma runInnerState_returns: "rdy s \<Longrightarrow> halts (runInnerState trav p s)"
  unfolding runInnerState_def CompileBoundaryPaths_def
  by (rule bind_returns [OF start_ok [OF ready_ok]])
    (auto intro: compile_paths_returns ready_evolved trav_next_returns split: list.split)

lemma compileSubProcessBody_returns:
  assumes "rdy s" "sp \<in> set (proc_SubProcesses (c_Proc s))"
  shows "halts (compileSubProcessBody trav (SubProcToProcess sp) sub s)"
proof -
  have "rdy (ShareSegmentsWith s sub (newInnerState (SubProcToProcess sp)))"
    using assms body_state_ok [OF ready_ok [OF assms(1)]] walkable_body [of s sp sub] ready_flat [OF assms(1)]
    by (simp add: ready_def) (simp add: room_def ShareSegmentsWith_def calls_in_def flat_bodies_def SubProcToProcess_def)
  from runInnerState_returns [OF this] show ?thesis by (simp add: compileSubProcessBody_def)
qed

lemma SubProcess_returns:
  assumes "rdy s"
  shows "halts (SubProcess_Compile env trav nodeID s)"
proof (cases "FindSubProcess (c_Proc s) nodeID")
  case (Some sp)
  then have sp: "sp \<in> set (proc_SubProcesses (c_Proc s))" by (auto simp: FindSubProcess_def find_Some_iff)
  show ?thesis
    unfolding SubProcess_Compile_def Some option.case
    by (rule bind_returns [OF body_ok [OF ready_ok [OF assms]] compileSubProcessBody_returns [OF assms sp]],
        rule trav_next_returns, rule ready_evolved [OF assms]) (auto intro: add_body_step_ok)
qed (simp add: SubProcess_Compile_def)

text \<open>A called process compiles in a fresh store, and its targets resolve.\<close>

lemma compile_paths_owned:
  "owned s \<Longrightarrow> events_apart (c_Proc s) \<Longrightarrow> flat_bodies (c_Proc s) \<Longrightarrow>
     returns (\<lambda>s'. owned s' \<and> c_Proc s' = c_Proc s) (compile_paths trav bes s)"
proof (induction bes arbitrary: s)
  case (Cons be bes)
  show ?case
    unfolding compile_paths.simps
  proof (rule returns_bind [OF CompileBoundaryPath_hosted [OF Cons.prems(3)]])
    fix s1 assume s1: "path_compiled (bnd_ID be) s s1"
    then have p: "c_Proc s1 = c_Proc s" by (simp add: path_compiled_def extends_def same_process_def)
    from Cons.IH [OF owned_path [OF Cons.prems(1,2) s1]] Cons.prems p
    show "returns (\<lambda>s'. owned s' \<and> c_Proc s' = c_Proc s) (compile_paths trav bes s1)" by simp
  qed
qed simp

lemma run_forested:
  assumes "c_sd s = empty_store" "c_steps s = []" "events_apart (c_Proc s)" "flat_bodies (c_Proc s)"
    and first: "returns (hosted s) r"
  shows "returns forested (bindT r (CompileBoundaryPaths trav))"
proof (rule returns_bind [OF first])
  fix s1 assume s1: "hosted s s1"
  note own = owned_start [OF assms(1,2) s1]
  show "returns forested (CompileBoundaryPaths trav s1)"
    unfolding CompileBoundaryPaths_def
    by (rule returns_mono [OF compile_paths_owned [OF own]])
      (use assms(3,4) hosted_proc [OF s1] in \<open>auto intro: owned_forested\<close>)
qed

lemma compileCalledState_returns:
  assumes p: "p \<in> Ps" and r: "rdy ((newInnerState p)\<lparr>c_Called := plans\<rparr>)"
  shows "halts (compileCalledState trav p plans)"
proof -
  let ?s = "(newInnerState p)\<lparr>c_Called := plans\<rparr>"
  have sp: "flat_bodies p" "events_apart p" using ready_sound(1) [OF r p] by (simp_all add: sound_process_def)
  have "returns forested (runInnerState trav p ?s)"
    unfolding runInnerState_def
    by (rule run_forested [where s = ?s]) (use sp in \<open>auto simp: trav_next_hosted split: list.split\<close>)
  then have "outcome (\<lambda>s'. halts (ResolveTargets s')) (runInnerState trav p ?s)"
    using runInnerState_ok [OF ready_ok [OF r]] ResolveTargets_returns by (auto simp: outcome_def returns_def halts_def)
  then show ?thesis
    unfolding compileCalledState_def by (rule bind_returns [OF _ runInnerState_returns [OF r]]) simp
qed

lemma compileCalledPlan_returns:
  assumes r: "rdy s" and p: "p \<in> Ps"
  shows "halts (compileCalledPlan trav p s)"
proof (cases "Claim (proc_ID p) (c_Called s)")
  case (Pair claimed plans)
  show ?thesis
  proof (cases claimed)
    case True
    let ?K = "known_ids (env_Defs env)" and ?D = "dom (map_of (c_Called s))"
    from Pair True have new: "proc_ID p \<notin> ?D" by (auto simp: Claim_def split: if_splits)
    have "proc_ID p \<in> ?K" using ready_sound(3) [OF r p] by (simp add: known_ids_def)
    with new have "card (?K - ?D) = Suc (card (?K - insert (proc_ID p) ?D))"
      by (subst Diff_insert, subst card_Suc_Diff1) (auto simp: known_ids_def)
    then have "room (env_Defs env) ((newInnerState p)\<lparr>c_Called := plans\<rparr>) < room (env_Defs env) s"
      by (simp add: room_def Claim_keys [OF Pair] empty_store_def)
    moreover have "walkable ((newInnerState p)\<lparr>c_Called := plans\<rparr>)"
      using walkable_inner [of p] ready_sound(1) [OF r p] by (simp add: sound_process_def walkable_def)
    ultimately have "rdy ((newInnerState p)\<lparr>c_Called := plans\<rparr>)"
      using r ready_sound(2) [OF r p] called_state_ok by (simp add: ready_def)
    from compileCalledState_returns [OF p this] show ?thesis
      by (auto simp: compileCalledPlan_def Pair True Let_def intro!: bind_total)
  qed (simp add: compileCalledPlan_def Pair)
qed

lemma CallActivity_returns:
  assumes "rdy s"
  shows "halts (CallActivity_Compile env trav nodeID s)"
proof -
  have "halts (bindT (compileCalledPlan trav p s) (\<lambda>s. trav_next trav nodeID (add_call_step env nodeID ca p s)))"
    if "FindCallActivity (c_Proc s) nodeID = Some ca" "callee (env_Defs env) ca = Some p" for p ca
  proof -
    have "p \<in> Ps" using assms that by (auto simp: ready_def calls_in_def FindCallActivity_def find_Some_iff)
    show ?thesis
      by (rule bind_returns [OF compileCalledPlan_ok [OF ready_ok [OF assms]] compileCalledPlan_returns [OF assms \<open>p \<in> Ps\<close>]],
          rule trav_next_returns, rule ready_evolved [OF assms]) (auto intro: evolved_trans add_call_step_ok evolved_ok)
  qed
  then show ?thesis
    by (auto simp: CallActivity_Compile_def callee_def split: option.split)
qed

lemma element_returns:
  assumes "rdy s" "sd_stages (c_sd s) \<le> StageBudget"
  shows "halts (element_compile env trav nodeID s)"
  using assms
  by (auto simp: element_compile_def UserTask_Compile_def SendTask_Compile_def ReceiveTask_Compile_def boundary_compile_def Let_def
      traverseForwardNexts_def place_stage_returns SubProcess_returns CallActivity_returns HandleGateway_returns trav_all_returns trav_returns
      split: option.split FlowNodeType.split)

lemma compile_node_returns:
  assumes "plan_state_ok s" "walkable s" "room (env_Defs env) s < Suc bound" "sound_below (env_Defs env) Ps" "calls_in (env_Defs env) Ps (c_Proc s)"
  shows "halts (compile_node env trav nodeID s)"
proof (cases "over_budget (count_node s)")
  case False
  let ?s = "visit_node nodeID (count_node s)"
  note v = visit_ok [OF assms(1) False, of nodeID]
  have "room (env_Defs env) ?s < room (env_Defs env) s"
    using False by (simp add: room_def visit_node_def count_node_def over_budget_def) linarith
  with assms v have r: "rdy ?s" by (simp add: ready_def walkable_evolved evolved_ok same_proc)
  show ?thesis
    unfolding compile_node_def Let_def traverseForwardNexts_def
    using trav_all_returns [OF r] element_returns [OF r visit_budget [OF False]] by simp
qed (simp add: compile_node_def)

end

lemma TraverseNode_returns: "ready (env_Defs env) Ps fuel s \<Longrightarrow> halts (TraverseNode fuel env nodeID s)"
proof (induction fuel arbitrary: nodeID s)
  case 0
  then show ?case by (simp add: ready_def)
next
  case (Suc fuel)
  have "returning_traversal (TraverseNode fuel env) env Ps fuel" by unfold_locales (rule Suc.IH)
  from returning_traversal.compile_node_returns [OF this] Suc.prems show ?case by (simp add: ready_def)
qed

interpretation returning: returning_traversal "TraverseNode fuel env" env Ps fuel for fuel env Ps
  by unfold_locales (rule TraverseNode_returns)

subsection \<open>Compile\<close>

lemma ready_start:
  assumes p: "p \<in> Ps" and sound: "sound_below defs Ps"
  shows "ready defs Ps (traverse_fuel defs) (NewCompileState p (BuildGraph p) conds B)"
proof -
  have "card (known_ids defs) \<le> length (defs_Processes defs)" unfolding known_ids_def by (metis card_length length_map set_map)
  then have "card (known_ids defs) * (nodeBudget + 2) \<le> length (defs_Processes defs) * (nodeBudget + 2)" by (rule mult_le_mono1)
  then have "room defs (NewCompileState p (BuildGraph p) conds B) < traverse_fuel defs"
    by (simp add: room_def traverse_fuel_def empty_store_def)
  moreover have "walkable (NewCompileState p (BuildGraph p) conds B)"
    using assms named_BuildGraph [of p] by (auto simp: walkable_def sound_below_def sound_process_def flows_named_def)
  moreover have "calls_in defs Ps p" using assms by (simp add: sound_below_def)
  ultimately show ?thesis using sound by (simp add: ready_def new_state_ok)
qed

lemma compile_from_returns:
  assumes p: "p \<in> Ps" and sound: "sound_below (env_Defs env) Ps"
  shows "halts (compile_from env p (BuildGraph p) startID)" "returns forested (compile_from env p (BuildGraph p) startID)"
proof -
  let ?f = "traverse_fuel (env_Defs env)" and ?s = "NewCompileState p (BuildGraph p) (BuildCondExprs p) (ProcessBackEdges p (BuildGraph p) startID)"
  let ?trav = "TraverseNode ?f env"
  note r = ready_start [OF p sound, of "BuildCondExprs p" "ProcessBackEdges p (BuildGraph p) startID"]
  let ?first = "if proc_StartEvents p \<noteq> [] then trav_next ?trav startID ?s else ?trav startID ?s"
  have flat: "flat_bodies p" "events_apart p" using p sound by (auto simp: sound_below_def sound_process_def)
  have "outcome (evolved ?s) ?first" by (simp add: traverse.trav_next_ok TraverseNode_ok new_state_ok)
  moreover have "halts ?first"
    using returning.trav_next_returns [OF r] TraverseNode_returns [OF r] by simp
  moreover have "halts (CompileBoundaryPaths ?trav s)" if "evolved ?s s" for s
    using returning.compile_paths_returns [OF ready_evolved [OF r that]] by (simp add: CompileBoundaryPaths_def)
  ultimately show "halts (compile_from env p (BuildGraph p) startID)"
    unfolding compile_from_def Let_def by (rule bind_returns)
  have "returns (hosted ?s) ?first" using flat by (simp add: hosts.trav_next_hosted TraverseNode_hosted)
  from returning.run_forested [OF _ _ _ _ this] flat
  show "returns forested (compile_from env p (BuildGraph p) startID)" by (simp add: compile_from_def Let_def)
qed

theorem Compile_returns:
  assumes "p \<in> Ps" "sound_below (env_Defs env) Ps"
  shows "halts (Compile env p (BuildGraph p))"
proof -
  note r = compile_from_returns [OF assms]
  have "outcome (\<lambda>s. halts (ResolveTargets s)) (compile_from env p (BuildGraph p) startID)" for startID
    using r(2) [of startID] compile_from_ok [of env p "BuildGraph p" startID] ResolveTargets_returns by (auto simp: outcome_def returns_def halts_def)
  then show ?thesis
    unfolding Compile_def CompileWithImplicitStart_def Let_def by (auto intro!: bind_returns [OF _ r(1)])
qed

end
