(* ===== verification/Go_Time.thy ===== *)
theory Go_Time
  imports Prelude
begin

text \<open>
  Durations as \<open>validator/boundary.go\<close> reads them: Go's \<open>time.ParseDuration\<close> and the ISO 8601 periods
  of \<open>iso8601DurationRe\<close> with their \<open>int64\<close> overflow checks.  A \<open>time.Duration\<close> is its number of
  nanoseconds, an \<open>int\<close> within the range of \<open>int64\<close>; the sum in \<open>ParseDuration\<close> is a \<open>uint64\<close> and wraps
  modulo \<open>2 ^ 64\<close>.  Its fractions of a unit are computed with floating-point numbers: the number of
  nanoseconds of a fraction is a parameter \<open>frac\<close>.
\<close>

definition MaxInt64 :: nat where "MaxInt64 = 2 ^ 63 - 1"

definition isDigit :: "char \<Rightarrow> bool" where
  "isDigit c \<longleftrightarrow> (CHR ''0'' :: char) \<le> c \<and> c \<le> CHR ''9''"

definition digitVal :: "char \<Rightarrow> nat" where
  "digitVal c = of_char c - of_char (CHR ''0'')"

subsection \<open>time.ParseDuration\<close>

fun leadingInt :: "nat \<Rightarrow> string \<Rightarrow> (nat \<times> string) option" where
  "leadingInt x [] = Some (x, [])"
| "leadingInt x (c # s) =
     (if \<not> isDigit c then Some (x, c # s)
      else if 2 ^ 63 div 10 < x then None
      else let x' = x * 10 + digitVal c in if 2 ^ 63 < x' then None else leadingInt x' s)"

fun leadingFraction :: "nat \<Rightarrow> nat \<Rightarrow> bool \<Rightarrow> string \<Rightarrow> nat \<times> nat \<times> string" where
  "leadingFraction x scale overflow [] = (x, scale, [])"
| "leadingFraction x scale overflow (c # s) =
     (if \<not> isDigit c then (x, scale, c # s)
      else if overflow then leadingFraction x scale True s
      else if (2 ^ 63 - 1) div 10 < x then leadingFraction x scale True s
      else let y = x * 10 + digitVal c in
        if 2 ^ 63 < y then leadingFraction x scale True s else leadingFraction y (scale * 10) False s)"

definition unitMap :: "(string, nat) gomap" where
  "unitMap = [(''ns'', 1), (''us'', 1000), ([CHR 0xC2, CHR 0xB5, CHR ''s''], 1000), ([CHR 0xCE, CHR 0xBC, CHR ''s''], 1000),
     (''ms'', 1000000), (''s'', 1000000000), (''m'', 60000000000), (''h'', 3600000000000)]"

lemma leadingInt_length: "leadingInt x s = Some (v, r) \<Longrightarrow> length r \<le> length s"
  by (induction x s rule: leadingInt.induct) (auto simp: Let_def split: if_splits)

lemma leadingFraction_length: "leadingFraction x k ov s = (f, k', r) \<Longrightarrow> length r \<le> length s"
  by (induction x k ov s rule: leadingFraction.induct) (auto simp: Let_def split: if_splits)

definition unit_char :: "char \<Rightarrow> bool" where
  "unit_char c \<longleftrightarrow> \<not> (c = CHR ''.'' \<or> isDigit c)"

text \<open>The part after the point, if there is one: digits, scale, rest, and whether there were any.\<close>

definition duration_fraction :: "string \<Rightarrow> nat \<times> nat \<times> string \<times> bool" where
  "duration_fraction s =
     (if s \<noteq> [] \<and> hd s = CHR ''.''
      then (let (f, scale, r) = leadingFraction 0 1 False (tl s) in (f, scale, r, length r \<noteq> length (tl s)))
      else (0, 1, s, False))"

text \<open>One number and its unit: the nanoseconds and the rest of the text.\<close>

definition duration_part :: "(nat \<Rightarrow> nat \<Rightarrow> nat \<Rightarrow> nat) \<Rightarrow> string \<Rightarrow> (nat \<times> string) option" where
  "duration_part frac s =
     (if s = [] \<or> \<not> (hd s = CHR ''.'' \<or> isDigit (hd s)) then None
      else Option.bind (leadingInt 0 s) (\<lambda>(v, s1).
        let (f, scale, s2, post) = duration_fraction s1;
            u = takeWhile unit_char s2;
            s3 = dropWhile unit_char s2
        in if length s1 = length s \<and> \<not> post then None
           else if u = [] then None
           else case map_of unitMap u of
             None \<Rightarrow> None
           | Some unit \<Rightarrow>
               if 2 ^ 63 div unit < v then None
               else let v = v * unit + (if 0 < f then frac f scale unit else 0) in
                 if 0 < f \<and> 2 ^ 63 < v then None else Some (v, s3)))"

lemma duration_fraction_length: "duration_fraction s = (f, scale, r, post) \<Longrightarrow> length r \<le> length s"
  by (cases s) (auto simp: duration_fraction_def split: if_splits prod.splits dest: leadingFraction_length)

lemma dropWhile_shorter: "takeWhile P x \<noteq> [] \<Longrightarrow> length (dropWhile P x) < length x"
  by (cases x) (auto simp: le_imp_less_Suc length_dropWhile_le split: if_splits)

lemma duration_part_shorter: "duration_part frac s = Some (v, r) \<Longrightarrow> length r < length s"
proof -
  assume part: "duration_part frac s = Some (v, r)"
  then obtain w s1 where w: "leadingInt 0 s = Some (w, s1)"
    by (auto simp: duration_part_def bind_eq_Some_conv split: if_splits)
  obtain f scale s2 post where s2: "duration_fraction s1 = (f, scale, s2, post)" by (cases "duration_fraction s1") auto
  from part w s2 have "takeWhile unit_char s2 \<noteq> []" and "r = dropWhile unit_char s2"
    by (auto simp: duration_part_def Let_def split: if_splits option.splits)
  with dropWhile_shorter [of unit_char s2] leadingInt_length [OF w] duration_fraction_length [OF s2]
  show ?thesis by simp
qed

function duration_sum :: "(nat \<Rightarrow> nat \<Rightarrow> nat \<Rightarrow> nat) \<Rightarrow> nat \<Rightarrow> string \<Rightarrow> nat option" where
  "duration_sum frac d s =
     (if s = [] then Some d
      else case duration_part frac s of
        None \<Rightarrow> None
      | Some (v, r) \<Rightarrow>
          let d' = (d + v) mod 2 ^ 64 in if 2 ^ 63 < d' then None else duration_sum frac d' r)"
  by pat_completeness auto
termination
  by (relation "measure (\<lambda>(frac, d, s). length s)") (auto intro: duration_part_shorter)

declare duration_sum.simps [simp del]

definition cut_sign :: "string \<Rightarrow> bool \<times> string" where
  "cut_sign s = (if s \<noteq> [] \<and> hd s \<in> {CHR ''-'', CHR ''+''} then (hd s = CHR ''-'', tl s) else (False, s))"

definition ParseDuration :: "(nat \<Rightarrow> nat \<Rightarrow> nat \<Rightarrow> nat) \<Rightarrow> string \<Rightarrow> int option" where
  "ParseDuration frac s =
     (let (neg, s) = cut_sign s
      in if s = ''0'' then Some 0
         else if s = [] then None
         else Option.bind (duration_sum frac 0 s) (\<lambda>d.
           if neg then Some (- int d) else if MaxInt64 < d then None else Some (int d)))"

lemma duration_sum_bound: "duration_sum frac d s = Some r \<Longrightarrow> d \<le> 2 ^ 63 \<Longrightarrow> r \<le> 2 ^ 63"
proof (induction frac d s rule: duration_sum.induct)
  case (1 frac d s)
  then show ?case
    by (auto simp: duration_sum.simps [of frac d s] Let_def split: if_splits option.splits prod.splits)
qed

lemma ParseDuration_range:
  assumes "ParseDuration frac s = Some d"
  shows "- (2 ^ 63) \<le> d \<and> d < 2 ^ 63"
proof -
  obtain neg r where "cut_sign s = (neg, r)" by force
  with assms consider "d = 0" | n where "duration_sum frac 0 r = Some n" "d = - int n \<or> d = int n \<and> n \<le> MaxInt64"
    by (force simp: ParseDuration_def bind_eq_Some_conv split: if_splits)
  then show ?thesis
  proof cases
    case 2
    with duration_sum_bound [of frac 0 r n] have "n \<le> 2 ^ 63" by simp
    with 2 show ?thesis by (auto simp: MaxInt64_def)
  qed simp
qed

subsection \<open>ISO 8601 periods\<close>

text \<open>An optional group \<open>(?:(\d+)X)?\<close>: its digits, empty when it does not match, and the rest.\<close>

definition opt_group :: "char \<Rightarrow> string \<Rightarrow> string \<times> string" where
  "opt_group u s =
     (let ds = takeWhile isDigit s; r = dropWhile isDigit s
      in if ds \<noteq> [] \<and> r \<noteq> [] \<and> hd r = u then (ds, tl r) else ([], s))"

text \<open>The submatches of \<open>iso8601DurationRe\<close>: weeks, days, hours, minutes, seconds.\<close>

definition iso8601_match :: "string \<Rightarrow> string list option" where
  "iso8601_match s =
     (case s of
        [] \<Rightarrow> None
      | p # s \<Rightarrow>
          if p \<noteq> CHR ''P'' then None
          else if fst (opt_group (CHR ''W'') s) \<noteq> [] \<and> snd (opt_group (CHR ''W'') s) = []
               then Some [fst (opt_group (CHR ''W'') s), [], [], [], []]
          else
            let (d, s) = opt_group (CHR ''D'') s in
            (case s of
               [] \<Rightarrow> Some [[], d, [], [], []]
             | t # s \<Rightarrow>
                 if t \<noteq> CHR ''T'' then None
                 else let (h, s) = opt_group (CHR ''H'') s;
                          (m, s) = opt_group (CHR ''M'') s;
                          (sec, s) = opt_group (CHR ''S'') s
                      in if s = [] then Some [[], d, h, m, sec] else None))"

definition iso8601Units :: "nat list" where
  "iso8601Units = [7 * 24 * 3600 * 10 ^ 9, 24 * 3600 * 10 ^ 9, 3600 * 10 ^ 9, 60 * 10 ^ 9, 10 ^ 9]"

definition decimal :: "string \<Rightarrow> nat" where
  "decimal s = foldl (\<lambda>x c. x * 10 + digitVal c) 0 s"

text \<open>\<open>strconv.ParseInt(s, 10, 64)\<close> on a text of digits.\<close>

definition ParseInt64 :: "string \<Rightarrow> nat option" where
  "ParseInt64 s = (if decimal s \<le> MaxInt64 then Some (decimal s) else None)"

fun iso_total :: "(string \<times> nat) list \<Rightarrow> nat \<Rightarrow> nat option" where
  "iso_total [] acc = Some acc"
| "iso_total ((m, unit) # gs) acc =
     (if m = [] then iso_total gs acc
      else case ParseInt64 m of
        None \<Rightarrow> None
      | Some n \<Rightarrow> if MaxInt64 div unit < n \<or> MaxInt64 - n * unit < acc then None
                  else iso_total gs (acc + n * unit))"

definition iso8601Positive :: "string \<Rightarrow> bool" where
  "iso8601Positive s =
     (case iso8601_match s of
        None \<Rightarrow> False
      | Some m \<Rightarrow> (case iso_total (zip m iso8601Units) 0 of None \<Rightarrow> False | Some acc \<Rightarrow> 0 < acc))"

definition IsValidDuration :: "(nat \<Rightarrow> nat \<Rightarrow> nat \<Rightarrow> nat) \<Rightarrow> string \<Rightarrow> bool" where
  "IsValidDuration frac s =
     (case ParseDuration frac s of Some d \<Rightarrow> 0 < d | None \<Rightarrow> iso8601Positive s)"

text \<open>The checks reject exactly the periods whose exact length does not fit an \<open>int64\<close>.\<close>

definition iso_exact :: "(string \<times> nat) list \<Rightarrow> nat" where
  "iso_exact gs = sum_list (map (\<lambda>(m, unit). decimal m * unit) gs)"

lemma decimal_Nil [simp]: "decimal [] = 0"
  by (simp add: decimal_def)

lemma iso_total_exact:
  assumes "\<forall>(m, unit) \<in> set gs. 0 < unit" and "t \<le> MaxInt64"
  shows "iso_total gs t = (if t + iso_exact gs \<le> MaxInt64 then Some (t + iso_exact gs) else None)"
  using assms
proof (induction gs arbitrary: t)
  case (Cons g gs)
  obtain m unit where g: "g = (m, unit)" by force
  have rest: "iso_exact (g # gs) = decimal m * unit + iso_exact gs" by (simp add: iso_exact_def g)
  show ?case
  proof (cases "m = []")
    case True
    with Cons g rest show ?thesis by simp
  next
    case False
    have unit: "0 < unit" using Cons.prems g by simp
    have fits: "decimal m \<le> MaxInt64 div unit \<longleftrightarrow> decimal m * unit \<le> MaxInt64"
      using unit by (simp add: less_eq_div_iff_mult_less_eq)
    have le: "decimal m * unit \<le> MaxInt64 \<Longrightarrow> decimal m \<le> MaxInt64"
      using unit by (cases unit) auto
    show ?thesis
    proof (cases "t + decimal m * unit \<le> MaxInt64")
      case True
      then have "decimal m * unit \<le> MaxInt64" by simp
      with fits le True False Cons.IH [of "t + decimal m * unit"] Cons.prems rest g show ?thesis
        by (auto simp: ParseInt64_def)
    next
      case overflow: False
      with fits False Cons.prems rest g show ?thesis
        by (auto simp: ParseInt64_def not_le)
    qed
  qed
qed (simp add: iso_exact_def)

lemma iso8601Positive_iff:
  "iso8601Positive s \<longleftrightarrow>
     (\<exists>m. iso8601_match s = Some m \<and> 0 < iso_exact (zip m iso8601Units) \<and> iso_exact (zip m iso8601Units) \<le> MaxInt64)"
proof -
  have "\<forall>(m, unit) \<in> set (zip ms iso8601Units). 0 < unit" for ms :: "string list"
    by (auto dest!: set_zip_rightD simp: iso8601Units_def)
  from iso_total_exact [OF this, of 0] show ?thesis
    by (auto simp: iso8601Positive_def split: option.splits)
qed

lemma iso8601_match_P: "iso8601_match s = Some m \<Longrightarrow> \<exists>r. s = CHR ''P'' # r"
  by (cases s) (auto simp: iso8601_match_def split: if_splits)

lemma ParseDuration_P: "ParseDuration frac (CHR ''P'' # r) = None"
proof -
  have "duration_sum frac 0 (CHR ''P'' # r) = None"
    by (subst duration_sum.simps) (simp add: duration_part_def isDigit_def less_eq_char_def)
  then show ?thesis by (simp add: ParseDuration_def cut_sign_def)
qed

text \<open>The two forms do not overlap.\<close>

lemma IsValidDuration_iff:
  "IsValidDuration frac s \<longleftrightarrow> (\<exists>d > 0. ParseDuration frac s = Some d) \<or> iso8601Positive s"
proof (cases "ParseDuration frac s")
  case (Some d)
  then have "\<not> iso8601Positive s"
    using ParseDuration_P by (auto simp: iso8601Positive_iff dest!: iso8601_match_P)
  with Some show ?thesis by (simp add: IsValidDuration_def)
qed (simp add: IsValidDuration_def)

subsection \<open>Go durations of whole numbers\<close>

text \<open>The text of a list of numbers with their units, such as \<open>3h30m\<close>, and its exact length in nanoseconds.\<close>

definition go_text :: "(string \<times> string) list \<Rightarrow> string" where
  "go_text parts = concat (map (\<lambda>(ds, u). ds @ u) parts)"

definition part_exact :: "string \<times> string \<Rightarrow> nat" where
  "part_exact p = decimal (fst p) * the (map_of unitMap (snd p))"

definition go_exact :: "(string \<times> string) list \<Rightarrow> nat" where
  "go_exact parts = sum_list (map part_exact parts)"

definition whole_part :: "string \<times> string \<Rightarrow> bool" where
  "whole_part p \<longleftrightarrow> fst p \<noteq> [] \<and> list_all isDigit (fst p) \<and> snd p \<in> dom (map_of unitMap)"

definition decimal_from :: "nat \<Rightarrow> string \<Rightarrow> nat" where
  "decimal_from x s = foldl (\<lambda>x c. x * 10 + digitVal c) x s"

lemma decimal_from_simps [simp]: "decimal_from x [] = x" "decimal_from x (c # s) = decimal_from (x * 10 + digitVal c) s"
  by (simp_all add: decimal_from_def)

lemma decimal_from_ge: "x \<le> decimal_from x s"
proof (induction s arbitrary: x)
  case (Cons c s)
  from Cons [of "x * 10 + digitVal c"] show ?case by simp
qed simp

lemma leadingInt_digits:
  assumes "list_all isDigit ds" and "r = [] \<or> \<not> isDigit (hd r)"
  shows "leadingInt x (ds @ r) = (if decimal_from x ds \<le> 2 ^ 63 then Some (decimal_from x ds, r) else None) \<or> 2 ^ 63 < x"
  using assms(1)
proof (induction ds arbitrary: x)
  case Nil
  from assms(2) show ?case by (cases r) auto
next
  case (Cons c ds)
  let ?x = "x * 10 + digitVal c"
  have ge: "?x \<le> decimal_from ?x ds" by (rule decimal_from_ge)
  from Cons have "isDigit c"
    and IH: "leadingInt ?x (ds @ r) = (if decimal_from ?x ds \<le> 2 ^ 63 then Some (decimal_from ?x ds, r) else None) \<or> 2 ^ 63 < ?x"
    by simp_all
  moreover have "2 ^ 63 < ?x" if "2 ^ 63 div 10 < x" using that by simp
  ultimately show ?case using ge by (auto simp: Let_def)
qed

lemma unit_facts:
  assumes "map_of unitMap u = Some n"
  shows "u \<noteq> []" "list_all unit_char u" "hd u \<noteq> CHR ''.''" "\<not> isDigit (hd u)" "0 < n"
  using assms by (auto simp: unitMap_def unit_char_def isDigit_def less_eq_char_def split: if_splits)

lemma takeWhile_unit:
  assumes "list_all unit_char u" and "r = [] \<or> \<not> unit_char (hd r)"
  shows "takeWhile unit_char (u @ r) = u" "dropWhile unit_char (u @ r) = r"
  using assms by (induction u) (cases r; simp)+

lemma duration_part_whole:
  assumes "whole_part p" and "r = [] \<or> isDigit (hd r)"
  shows "duration_part frac (fst p @ snd p @ r) = (if part_exact p \<le> 2 ^ 63 then Some (part_exact p, r) else None)"
proof -
  obtain ds u where p: "p = (ds, u)" by force
  from assms(1) obtain n where ds: "ds \<noteq> []" "list_all isDigit ds" and n: "map_of unitMap u = Some n"
    by (auto simp: whole_part_def p)
  note u = unit_facts [OF n]
  have read: "leadingInt 0 (ds @ u @ r) = (if decimal ds \<le> 2 ^ 63 then Some (decimal ds, u @ r) else None)"
    using leadingInt_digits [OF ds(2), of "u @ r" 0] u(1,4) by (simp add: decimal_from_def decimal_def)
  have hd: "isDigit (hd ds)" using ds by (cases ds) simp_all
  have frac: "duration_fraction (u @ r) = (0, 1, u @ r, False)" using u(1,3) by (simp add: duration_fraction_def)
  have "r = [] \<or> \<not> unit_char (hd r)" using assms(2) by (auto simp: unit_char_def)
  note tw = takeWhile_unit [OF u(2) this]
  have fits: "decimal ds \<le> 2 ^ 63 div n \<longleftrightarrow> decimal ds * n \<le> 2 ^ 63" using u(5) by (simp add: less_eq_div_iff_mult_less_eq)
  have small: "decimal ds * n \<le> 2 ^ 63 \<Longrightarrow> decimal ds \<le> 2 ^ 63" using u(5) by (cases n) auto
  have exact: "part_exact p = decimal ds * n" by (simp add: part_exact_def p n)
  show ?thesis
  proof (cases "decimal ds * n \<le> 2 ^ 63")
    case True
    with fits small have "\<not> 2 ^ 63 div n < decimal ds" "decimal ds \<le> 2 ^ 63" by simp_all
    with True show ?thesis
      unfolding duration_part_def exact by (simp add: p hd read frac tw n u(1) ds(1) del: power_numeral)
  next
    case False
    with fits have "2 ^ 63 div n < decimal ds" by simp
    with False show ?thesis
      unfolding duration_part_def exact by (simp add: p hd read frac tw n u(1) ds(1) del: power_numeral)
  qed
qed

lemma go_text_Cons: "go_text (p # parts) = fst p @ snd p @ go_text parts"
  by (simp add: go_text_def case_prod_beta)

lemma go_text_digit:
  assumes "list_all whole_part parts"
  shows "go_text parts = [] \<or> isDigit (hd (go_text parts))"
proof (cases parts)
  case (Cons p ps)
  with assms have "fst p \<noteq> []" "isDigit (hd (fst p))" by (auto simp: whole_part_def neq_Nil_conv)
  with Cons show ?thesis by (simp add: go_text_Cons)
qed (simp add: go_text_def)

text \<open>No sum of parts wraps, since a part of exactly \<open>2 ^ 63\<close> nanoseconds is left out.\<close>

lemma duration_sum_whole:
  assumes "list_all whole_part parts" and "list_all (\<lambda>p. part_exact p \<noteq> 2 ^ 63) parts" and "d \<le> 2 ^ 63"
  shows "duration_sum frac d (go_text parts) = (if d + go_exact parts \<le> 2 ^ 63 then Some (d + go_exact parts) else None)"
  using assms
proof (induction parts arbitrary: d)
  case Nil
  then show ?case by (subst duration_sum.simps) (simp add: go_text_def go_exact_def)
next
  case (Cons p ps)
  have p: "whole_part p" and ps: "list_all whole_part ps" "list_all (\<lambda>p. part_exact p \<noteq> 2 ^ 63) ps" and ne: "part_exact p \<noteq> 2 ^ 63"
    using Cons.prems by simp_all
  have "go_text (p # ps) \<noteq> []" using p by (simp add: go_text_Cons whole_part_def)
  moreover note part = duration_part_whole [OF p go_text_digit [OF ps(1)], of frac, folded go_text_Cons]
  ultimately have step: "duration_sum frac d (go_text (p # ps)) =
      (if part_exact p \<le> 2 ^ 63
       then (let d' = (d + part_exact p) mod 2 ^ 64 in if 2 ^ 63 < d' then None else duration_sum frac d' (go_text ps)) else None)"
    by (subst duration_sum.simps) (simp del: power_numeral)
  have total: "go_exact (p # ps) = part_exact p + go_exact ps" by (simp add: go_exact_def)
  show ?case
  proof (cases "part_exact p \<le> 2 ^ 63")
    case True
    with ne have "part_exact p < 2 ^ 63" by simp
    with Cons.prems(3) have "(d + part_exact p) mod 2 ^ 64 = d + part_exact p" by simp
    with True step total Cons.IH [OF ps, of "d + part_exact p"] show ?thesis by (simp add: Let_def add.assoc)
  next
    case False
    with step total show ?thesis by simp
  qed
qed

lemma IsValidDuration_whole:
  assumes "parts \<noteq> []" and "list_all whole_part parts" and "list_all (\<lambda>p. part_exact p \<noteq> 2 ^ 63) parts"
  shows "IsValidDuration frac (go_text parts) \<longleftrightarrow> 0 < go_exact parts \<and> go_exact parts \<le> MaxInt64"
proof -
  let ?s = "go_text parts"
  obtain p ps where parts: "parts = p # ps" using assms(1) by (cases parts) simp_all
  with assms(2) have p: "fst p \<noteq> []" "snd p \<noteq> []" by (auto simp: whole_part_def dest: unit_facts(1))
  then have long: "?s \<noteq> []" "?s \<noteq> ''0''" by (auto simp: parts go_text_Cons append_eq_Cons_conv)
  have dig: "isDigit (hd ?s)" using go_text_digit [OF assms(2)] long(1) by simp
  have "\<not> isDigit CHR ''-''" "\<not> isDigit CHR ''+''" "\<not> isDigit CHR ''P''" by (simp_all add: isDigit_def less_eq_char_def)
  with dig have hd: "hd ?s \<noteq> CHR ''-''" "hd ?s \<noteq> CHR ''+''" "hd ?s \<noteq> CHR ''P''" by metis+
  then have "\<not> iso8601Positive ?s" by (auto simp: iso8601Positive_def dest!: iso8601_match_P split: option.splits)
  moreover have "ParseDuration frac ?s = (if go_exact parts \<le> MaxInt64 then Some (int (go_exact parts)) else None)"
  proof -
    have "cut_sign ?s = (False, ?s)" using hd by (simp add: cut_sign_def)
    then show ?thesis using long duration_sum_whole [OF assms(2,3), of 0 frac]
      by (auto simp: ParseDuration_def MaxInt64_def)
  qed
  ultimately show ?thesis by (auto simp: IsValidDuration_iff)
qed

text \<open>Two parts of exactly \<open>2 ^ 63\<close> nanoseconds add to zero in a \<open>uint64\<close>, unnoticed.\<close>

lemma duration_wraps:
  "go_exact [(''9223372036854775808'', ''ns''), (''9223372036854775808'', ''ns''), (''1'', ''h'')] > 2 ^ 64"
  "ParseDuration frac (go_text [(''9223372036854775808'', ''ns''), (''9223372036854775808'', ''ns''), (''1'', ''h'')]) = Some 3600000000000"
proof -
  let ?p = "(''9223372036854775808'', ''ns'')" and ?q = "(''1'', ''h'')"
  have e: "part_exact ?p = 2 ^ 63" "part_exact ?q = 3600000000000"
    by (simp_all add: part_exact_def decimal_def digitVal_def unitMap_def of_char_def)
  then show "go_exact [?p, ?p, ?q] > 2 ^ 64" by (simp add: go_exact_def)
  have w: "whole_part ?p" "whole_part ?q"
    by (simp_all add: whole_part_def isDigit_def less_eq_char_def unitMap_def)
  have sum: "duration_sum frac d (go_text (p # ps)) =
      (let d' = (d + part_exact p) mod 2 ^ 64 in if 2 ^ 63 < d' then None else duration_sum frac d' (go_text ps))"
    if "whole_part p" "list_all whole_part ps" "part_exact p \<le> 2 ^ 63" for d p ps
  proof -
    have "go_text (p # ps) \<noteq> []" using that(1) by (simp add: go_text_Cons whole_part_def)
    with that(3) duration_part_whole [OF that(1) go_text_digit [OF that(2)], of frac, folded go_text_Cons]
    show ?thesis by (subst duration_sum.simps) (simp del: power_numeral)
  qed
  have "duration_sum frac 0 (go_text [?p, ?p, ?q]) = Some 3600000000000"
    using w e by (simp add: sum duration_sum.simps [of frac _ "[]"] Let_def) (simp add: go_text_def duration_sum.simps)
  then show "ParseDuration frac (go_text [?p, ?p, ?q]) = Some 3600000000000"
    by (simp add: ParseDuration_def cut_sign_def go_text_def MaxInt64_def)
qed

end
