(* ===== verification/Validate_Boundary.thy ===== *)
theory Validate_Boundary
  imports Validate_Flow Go_Time
begin

text \<open>
  \<open>validator/boundary.go\<close> and \<open>validator/ignored_lane.go\<close>.  The counts of timer and message events per
  host are maps that the loop over the boundary events threads.
\<close>

subsection \<open>boundary.go\<close>

definition ValidateMessageBoundaryNames :: "BPMNProcess \<Rightarrow> BPMNDefinitions \<Rightarrow> BPMNValidationError list" where
  "ValidateMessageBoundaryNames proc defs =
     concat (map (\<lambda>be. case bnd_Message be of
         None \<Rightarrow> []
       | Some md \<Rightarrow>
           let name = ResolveMessageName (md_MessageRef md) (Some defs);
               name = (if name = [] then ResolveMessageFlowTarget (bnd_ID be) (Some defs) else name)
           in if name = [] then AppendWarn [] BPMNErrMissingMessageDefinition (bnd_ID be) else [])
       (proc_BoundaryEvents proc))"

definition validateBoundaryHost :: "BPMNBoundaryEvent \<Rightarrow> Graph \<Rightarrow> BPMNValidationError list" where
  "validateBoundaryHost be g =
     (if bnd_Error be \<noteq> None then []
      else if node_type g (bnd_AttachedToRef be) \<in> {Some NodeTypeUserTask, Some NodeTypeSubProcess, Some NodeTypeCallActivity} then []
      else AppendErr [] BPMNErrInvalidBoundaryAttachment (bnd_ID be))"

definition validateBoundaryEventDef :: "BPMNBoundaryEvent \<Rightarrow> BPMNValidationError list \<times> bool" where
  "validateBoundaryEventDef be =
     (let count = (if bnd_Timer be \<noteq> None then 1 else 0) + (if bnd_Error be \<noteq> None then 1 else 0) +
                  (if bnd_Message be \<noteq> None then 1 else 0 :: nat)
      in if 1 < count then (AppendErr [] BPMNErrInvalidBoundaryAttachment (bnd_ID be), True)
         else if count = 0 then (AppendErr [] BPMNErrMissingTaskDefinition (bnd_ID be), True)
         else ([], False))"

definition validateMessageBoundaryCount :: "BPMNBoundaryEvent \<Rightarrow> (string, nat) gomap
    \<Rightarrow> (string, nat) gomap \<times> BPMNValidationError list" where
  "validateMessageBoundaryCount be countByHost =
     (let n = mget_or 0 countByHost (bnd_AttachedToRef be) + 1
      in (mput (bnd_AttachedToRef be) n countByHost,
          if 1 < n then AppendErr [] BPMNErrInvalidBoundaryAttachment (bnd_ID be) else []))"

definition validateTimerBoundary :: "(string \<Rightarrow> bool) \<Rightarrow> BPMNBoundaryEvent \<Rightarrow> BPMNTimerDef \<Rightarrow> (string, nat) gomap
    \<Rightarrow> (string, nat) gomap \<times> BPMNValidationError list" where
  "validateTimerBoundary validDuration be tm timerCountByHost =
     (let errs = (if \<not> validDuration (tm_Duration tm) then AppendErr [] BPMNErrInvalidSLADuration (bnd_ID be) else []);
          n = mget_or 0 timerCountByHost (bnd_AttachedToRef be) + 1
      in (mput (bnd_AttachedToRef be) n timerCountByHost,
          if 1 < n then AppendErr errs BPMNErrInvalidBoundaryAttachment (bnd_ID be) else errs))"

definition validateErrorBoundary :: "BPMNBoundaryEvent \<Rightarrow> Graph \<Rightarrow> BPMNValidationError list" where
  "validateErrorBoundary be g =
     (if node_type g (bnd_AttachedToRef be) \<notin> {Some NodeTypeSubProcess, Some NodeTypeCallActivity}
      then AppendErr [] BPMNErrInvalidBoundaryAttachment (bnd_ID be) else [])"

definition bodyStartsWithTask :: "BPMNProcess \<Rightarrow> string \<Rightarrow> bool" where
  "bodyStartsWithTask proc spID =
     (case FindSubProcess proc spID of
        None \<Rightarrow> True
      | Some sp \<Rightarrow>
          (case sp_StartEvents sp of
             [] \<Rightarrow> True
           | e # _ \<Rightarrow>
               let body = BuildGraph (SubProcToProcess sp)
               in case out body (ev_ID e) of [] \<Rightarrow> False | n # _ \<Rightarrow> node_type body n = Some NodeTypeUserTask))"

function boundary_walk :: "BPMNBoundaryEvent \<Rightarrow> BPMNProcess \<Rightarrow> Graph \<Rightarrow> edges \<Rightarrow> string set \<Rightarrow> string \<Rightarrow> string set
    \<Rightarrow> BPMNValidationError list" where
  "boundary_walk be proc g B skipped cur visited =
     (if cur = [] \<or> cur \<in> visited then []
      else
        let t = node_type g cur;
            onward = (case FirstForward cur g B of
                        (next, True) \<Rightarrow> boundary_walk be proc g B skipped next (insert cur visited)
                      | (next, False) \<Rightarrow> [])
        in if cur \<in> skipped then onward
           else if t = Some NodeTypeSubProcess \<and> \<not> bodyStartsWithTask proc cur
                then AppendErr [] BPMNErrUnsupportedBoundaryTarget (bnd_ID be)
           else if t \<in> {Some NodeTypeUserTask, Some NodeTypeSubProcess, Some NodeTypeEndEvent} then []
           else if t \<in> {Some NodeTypeCallActivity, Some NodeTypeSendTask, Some NodeTypeReceiveTask}
                then AppendErr [] BPMNErrUnsupportedBoundaryTarget (bnd_ID be)
           else onward)"
  by pat_completeness auto
termination
  by (relation "measure (\<lambda>(be, proc, g, B, skipped, cur, V). card (insert cur (targets g) - V))")
     (auto intro!: visit_decreases FirstForward_target)

declare boundary_walk.simps [simp del]

definition validateBoundaryTarget :: "BPMNBoundaryEvent \<Rightarrow> BPMNProcess \<Rightarrow> Graph \<Rightarrow> edges \<Rightarrow> BPMNValidationError list" where
  "validateBoundaryTarget be proc g B =
     boundary_walk be proc g B (SkippedTasks proc g) (OutgoingTargetOf (bnd_ID be) proc) {}"

record boundary_counts =
  bc_timer :: "(string, nat) gomap"
  bc_message :: "(string, nat) gomap"
  bc_errs :: "BPMNValidationError list"

definition validate_boundary_event :: "(string \<Rightarrow> bool) \<Rightarrow> BPMNProcess \<Rightarrow> Graph \<Rightarrow> edges \<Rightarrow> BPMNBoundaryEvent
    \<Rightarrow> boundary_counts \<Rightarrow> boundary_counts" where
  "validate_boundary_event validDuration proc g B be s =
     (if bnd_AttachedToRef be \<notin> node_ids g
      then s\<lparr>bc_errs := AppendErr (bc_errs s) BPMNErrDanglingNode (bnd_ID be)\<rparr>
      else
        let errs = (if \<not> ValidCancelActivity (bnd_CancelActivity be)
                    then AppendErr (bc_errs s) BPMNErrInvalidBoundaryAttachment (bnd_ID be) else bc_errs s);
            (defErrs, skip) = validateBoundaryEventDef be;
            errs = errs @ defErrs
        in if skip then s\<lparr>bc_errs := errs\<rparr>
           else
             let errs = errs @ validateBoundaryHost be g;
                 (timers, errs) = (case bnd_Timer be of
                    None \<Rightarrow> (bc_timer s, errs)
                  | Some tm \<Rightarrow> (let (c, e) = validateTimerBoundary validDuration be tm (bc_timer s) in (c, errs @ e)));
                 (messages, errs) = (if bnd_Message be = None then (bc_message s, errs)
                    else (let (c, e) = validateMessageBoundaryCount be (bc_message s) in (c, errs @ e)));
                 errs = (if bnd_Error be \<noteq> None then errs @ validateErrorBoundary be g else errs);
                 errs = (if 1 < forwardOutCount (bnd_ID be) g B
                         then AppendErr errs BPMNErrSplitWithoutGateway (bnd_ID be) else errs)
             in \<lparr>bc_timer = timers, bc_message = messages, bc_errs = errs @ validateBoundaryTarget be proc g B\<rparr>)"

definition ValidateBoundaryEvents :: "(string \<Rightarrow> bool) \<Rightarrow> BPMNProcess \<Rightarrow> Graph \<Rightarrow> edges \<Rightarrow> BPMNValidationError list" where
  "ValidateBoundaryEvents validDuration proc g B =
     bc_errs (fold (validate_boundary_event validDuration proc g B) (proc_BoundaryEvents proc)
       \<lparr>bc_timer = [], bc_message = [], bc_errs = []\<rparr>)"

definition ValidateErrorBoundaryRefs :: "BPMNProcess \<Rightarrow> BPMNDefinitions \<Rightarrow> BPMNValidationError list" where
  "ValidateErrorBoundaryRefs proc defs =
     (let known = set (map err_ID (defs_Errors defs)) in
      concat (map (\<lambda>be. case bnd_Error be of
          None \<Rightarrow> []
        | Some er \<Rightarrow> if er_ErrorRef er \<noteq> [] \<and> er_ErrorRef er \<notin> known
                     then AppendErr [] BPMNErrInvalidBoundaryAttachment (bnd_ID be) else [])
        (proc_BoundaryEvents proc)))"

subsection \<open>ignored_lane.go\<close>

function work_loop :: "Graph \<Rightarrow> edges \<Rightarrow> string set \<Rightarrow> string list \<Rightarrow> string set \<Rightarrow> bool" where
  "work_loop g B skipped [] visited = False"
| "work_loop g B skipped (n # queue) visited =
     (if n \<in> visited then work_loop g B skipped queue visited
      else if n \<notin> skipped \<and> runs_work (node_type g n) then True
      else work_loop g B skipped (queue @ filter (\<lambda>next. (n, next) \<notin> B) (out g n)) (insert n visited))"
  by pat_completeness auto

termination
proof (relation "measures [\<lambda>(g, B, sk, q, V). card ((set q \<union> targets g) - V), \<lambda>(g, B, sk, q, V). length q]", goal_cases)
  case (2 g B sk n q V)
  have "card (set q \<union> targets g - V) \<le> card (set (n # q) \<union> targets g - V)"
    by (rule card_mono) auto
  then show ?case by auto
next
  case (3 g B sk n q V)
  then have "card (set (q @ filter (\<lambda>next. (n, next) \<notin> B) (out g n)) \<union> targets g - insert n V)
      < card (set (n # q) \<union> targets g - V)"
    by (intro psubset_card_mono) (auto dest: out_targets)
  then show ?case by simp
qed simp

definition loopRunsWork :: "string \<Rightarrow> string \<Rightarrow> Graph \<Rightarrow> edges \<Rightarrow> string set \<Rightarrow> bool" where
  "loopRunsWork tgt gateway g B skipped = work_loop g B skipped [tgt] {gateway}"

definition ValidateIgnoredLanes :: "BPMNProcess \<Rightarrow> Graph \<Rightarrow> edges \<Rightarrow> BPMNValidationError list" where
  "ValidateIgnoredLanes proc g B =
     (let ignored = set (concat (map lane_FlowNodeRefs (filter IsIgnoredLane (proc_LaneSet proc))));
          skipped = SkippedTasks proc g
      in concat (map (\<lambda>ca. if ca_ID ca \<in> ignored then [err_of BPMNErrIgnoredLaneWork (ca_ID ca)] else []) (proc_CallActivities proc)) @
         concat (map (\<lambda>sp. if sp_ID sp \<in> ignored then [err_of BPMNErrIgnoredLaneWork (sp_ID sp)] else []) (proc_SubProcesses proc)) @
         concat (map (\<lambda>t. if snd (ConnectorType (ut_ExtensionElements t)) \<and> ut_ID t \<in> ignored
                           then [err_of BPMNErrIgnoredLaneWork (ut_ID t)] else []) (proc_UserTasks proc)) @
         concat (map (\<lambda>be. if bnd_AttachedToRef be \<in> skipped then [err_of BPMNErrIgnoredLaneWork (bnd_ID be)] else [])
           (proc_BoundaryEvents proc)) @
         concat (map (\<lambda>sf. if (sf_SourceRef sf, sf_TargetRef sf) \<in> B \<and> \<not> loopRunsWork (sf_TargetRef sf) (sf_SourceRef sf) g B skipped
                           then [err_of BPMNErrIgnoredLaneWork (sf_ID sf)] else []) (proc_SequenceFlows proc)))"

text \<open>A loop runs work when a forward path that stays off its gateway reaches a node that runs.\<close>

definition working :: "Graph \<Rightarrow> string set \<Rightarrow> string \<Rightarrow> bool" where
  "working g skipped n \<longleftrightarrow> n \<notin> skipped \<and> runs_work (node_type g n)"

definition avoiding :: "edges \<Rightarrow> string \<Rightarrow> edges" where
  "avoiding E x = {(u, v). (u, v) \<in> E \<and> u \<noteq> x \<and> v \<noteq> x}"

lemma work_loop_iff:
  assumes "gw \<in> V" and "\<And>n. n \<in> V - {gw} \<Longrightarrow> \<not> working g sk n \<and> avoiding (fwd g B) gw `` {n} \<subseteq> V \<union> set q"
  shows "work_loop g B sk q V \<longleftrightarrow> (\<exists>s \<in> set q - {gw}. \<exists>n. (s, n) \<in> (avoiding (fwd g B) gw)\<^sup>* \<and> working g sk n)"
  using assms
proof (induction g B sk q V rule: work_loop.induct)
  case (2 g B sk n q V)
  let ?E = "avoiding (fwd g B) gw"
  show ?case
  proof (cases "n \<in> V")
    case True
    have inside: "m \<in> V - {gw} \<or> (\<exists>s \<in> set q - {gw}. (s, m) \<in> ?E\<^sup>*)" if "(n, m) \<in> ?E\<^sup>*" "n \<noteq> gw" for m
      using that
    proof (induction rule: rtrancl_induct)
      case (step x y)
      from step.hyps(2) have "y \<noteq> gw" by (simp add: avoiding_def)
      show ?case
      proof (cases "x \<in> V - {gw}")
        case x: True
        with "2.prems"(2) step.hyps(2) have "y \<in> V \<union> set (n # q)" by blast
        with True \<open>y \<noteq> gw\<close> show ?thesis by auto
      next
        case False
        with step obtain s where "s \<in> set q - {gw}" "(s, x) \<in> ?E\<^sup>*" by blast
        with step.hyps(2) show ?thesis by (meson rtrancl_into_rtrancl)
      qed
    qed (use True in auto)
    have "work_loop g B sk q V \<longleftrightarrow> (\<exists>s \<in> set q - {gw}. \<exists>n. (s, n) \<in> ?E\<^sup>* \<and> working g sk n)"
      using True "2.prems" by (intro "2.IH"(1)) auto
    moreover have "\<not> working g sk m" if "m \<in> V - {gw}" for m using that "2.prems"(2) by blast
    moreover have "\<exists>s \<in> set q - {gw}. \<exists>m. (s, m) \<in> ?E\<^sup>* \<and> working g sk m"
      if "(n, m) \<in> ?E\<^sup>*" "n \<noteq> gw" "working g sk m" for m
      using inside [OF that(1,2)] calculation(2) that(3) by blast
    ultimately show ?thesis using True by auto
  next
    case False
    with "2.prems"(1) have n: "n \<noteq> gw" by auto
    show ?thesis
    proof (cases "working g sk n")
      case True
      with False n show ?thesis by (auto simp: working_def)
    next
      case idle: False
      let ?out = "filter (\<lambda>m. (n, m) \<notin> B) (out g n)"
      have out: "set ?out = fwd g B `` {n}" by (auto simp: fwd_iff)
      have "work_loop g B sk (q @ ?out) (insert n V) \<longleftrightarrow>
          (\<exists>s \<in> set (q @ ?out) - {gw}. \<exists>m. (s, m) \<in> ?E\<^sup>* \<and> working g sk m)"
      proof (rule "2.IH"(2) [OF False])
        show "\<not> (n \<notin> sk \<and> runs_work (node_type g n))" using idle by (simp add: working_def)
        fix m
        assume "m \<in> insert n V - {gw}"
        with "2.prems"(2) [of m] idle out show "\<not> working g sk m \<and> ?E `` {m} \<subseteq> insert n V \<union> set (q @ ?out)"
          by (cases "m = n") (auto simp: avoiding_def)
      qed (use "2.prems" in simp)
      moreover have "(\<exists>m. (n, m) \<in> ?E\<^sup>* \<and> working g sk m) \<longleftrightarrow>
          (\<exists>s \<in> set ?out - {gw}. \<exists>m. (s, m) \<in> ?E\<^sup>* \<and> working g sk m)"
        using idle n unfolding out
        by (auto simp: avoiding_def elim!: converse_rtranclE [of n] intro: converse_rtrancl_into_rtrancl)
      ultimately show ?thesis using False n idle by (auto simp: working_def)
    qed
  qed
qed simp

lemma loopRunsWork_iff:
  "loopRunsWork tgt gw g B sk \<longleftrightarrow>
     tgt \<noteq> gw \<and> (\<exists>n. (tgt, n) \<in> (avoiding (fwd g B) gw)\<^sup>* \<and> working g sk n)"
  using work_loop_iff [of gw "{gw}" g sk B "[tgt]"] by (auto simp: loopRunsWork_def)

end
