(* ===== verification/Validate_Tasks.thy ===== *)
theory Validate_Tasks
  imports Validate_Boundary
begin

text \<open>
  The validators on single elements and on the document: \<open>user_task.go\<close>, \<open>connector_task.go\<close>, \<open>collab.go\<close>
  and \<open>diagram.go\<close> of \<open>internal/bpmn_compiler/validator\<close>, and the handler of user tasks in
  \<open>element/user_task.go\<close>.  The services the validators ask are parameters: \<open>uuid_parse\<close> gives the version of
  the UUID a text holds (\<open>uuid.Parse\<close>), \<open>connectors\<close> the inputs of each known connector and whether an input
  is a secret (\<open>registry.All\<close>), \<open>stageTypes\<close> the known stage types.
\<close>

type_synonym uuid_parser = "string \<Rightarrow> nat option"
type_synonym connector_registry = "(string, (string \<times> bool) list) gomap"

subsection \<open>user_task.go\<close>

definition maxRoleLen :: nat where "maxRoleLen = 256"

definition ValidRoleLevel :: "string \<Rightarrow> bool" where
  "ValidRoleLevel role \<longleftrightarrow> role \<in> {''preparator'', ''reviewer'', ''approver''}"

definition IsUserID :: "uuid_parser \<Rightarrow> string \<Rightarrow> bool" where
  "IsUserID uuid_parse s \<longleftrightarrow> uuid_parse s = Some 7"

definition ValidateTaskDef :: "string \<Rightarrow> BPMNExtensionElements \<Rightarrow> string set \<Rightarrow> BPMNValidationError list" where
  "ValidateTaskDef taskID ext stageTypes =
     (case ext_TaskDefinition ext of
        None \<Rightarrow> AppendErr [] BPMNErrMissingTaskDefinition taskID
      | Some td \<Rightarrow> if td_Type td \<notin> stageTypes then AppendWarn [] BPMNWarnUnknownStageType taskID else [])"

definition validateCandidateUser :: "uuid_parser \<Rightarrow> string \<Rightarrow> string \<Rightarrow> BPMNValidationError list" where
  "validateCandidateUser uuid_parse taskID candidateUsers =
     (if candidateUsers = [] then []
      else if \<not> IsUserID uuid_parse candidateUsers then AppendErr [] BPMNErrInvalidCandidateUser taskID else [])"

definition ValidateAssignmentDef :: "uuid_parser \<Rightarrow> string \<Rightarrow> BPMNExtensionElements \<Rightarrow> BPMNValidationError list" where
  "ValidateAssignmentDef uuid_parse taskID ext =
     (case ext_AssignmentDefinition ext of
        None \<Rightarrow> AppendErr [] BPMNErrMissingAssignmentDefinition taskID
      | Some ad \<Rightarrow>
          (if ad_CandidateGroups ad = [] \<or> maxRoleLen < length (ad_CandidateGroups ad)
           then AppendErr [] BPMNErrCandidateGroupsEmpty taskID else []) @
          validateCandidateUser uuid_parse taskID (ad_CandidateUsers ad))"

definition ValidateOptionalAssignment :: "uuid_parser \<Rightarrow> string \<Rightarrow> BPMNExtensionElements \<Rightarrow> BPMNValidationError list" where
  "ValidateOptionalAssignment uuid_parse taskID ext =
     (if ext_AssignmentDefinition ext = None then [] else ValidateAssignmentDef uuid_parse taskID ext)"

definition ValidateDefaultAssignee :: "string \<Rightarrow> BPMNExtensionElements \<Rightarrow> BPMNValidationError list" where
  "ValidateDefaultAssignee taskID ext =
     (case ext_AssignmentDefinition ext of
        None \<Rightarrow> []
      | Some ad \<Rightarrow> if TrimSpace (ad_CandidateUsers ad) \<noteq> [] then []
                   else AppendWarn [] BPMNErrCandidateUsersEmpty taskID)"

definition ValidateRoleLevel :: "string \<Rightarrow> BPMNExtensionElements \<Rightarrow> BPMNValidationError list" where
  "ValidateRoleLevel taskID ext =
     (case ext_AssignmentDefinition ext of
        None \<Rightarrow> []
      | Some ad \<Rightarrow>
          let role = ad_CandidateGroups ad in
          if role = [] \<or> maxRoleLen < length role \<or> ValidRoleLevel role then []
          else AppendErr [] BPMNErrCandidateGroupsInvalid taskID)"

definition ValidateDeptID :: "uuid_parser \<Rightarrow> string \<Rightarrow> BPMNProcess \<Rightarrow> BPMNDefinitions option \<Rightarrow> BPMNValidationError list" where
  "ValidateDeptID uuid_parse taskID proc defs =
     (if LaneFor taskID proc = None then []
      else
        let deptID = DeptIDFor taskID proc in
        if deptID = [] \<and> (case defs of None \<Rightarrow> False | Some d \<Rightarrow> proc_ID proc \<in> defs_ModuleProcesses d) then []
        else if deptID = [] then AppendErr [] BPMNErrMissingDeptID taskID
        else if uuid_parse deptID = None then AppendErr [] BPMNErrInvalidDeptID taskID
        else [])"

definition ValidateLaneMembership :: "string \<Rightarrow> string set \<Rightarrow> BPMNValidationError list" where
  "ValidateLaneMembership taskID laneRefs =
     (if laneRefs = {} then [] else if taskID \<notin> laneRefs then AppendErr [] BPMNErrTaskNotInLane taskID else [])"

definition validateOptionalTaskMembership :: "uuid_parser \<Rightarrow> string \<Rightarrow> BPMNExtensionElements \<Rightarrow> BPMNProcess \<Rightarrow> string set
    \<Rightarrow> BPMNDefinitions option \<Rightarrow> BPMNValidationError list" where
  "validateOptionalTaskMembership uuid_parse taskID ext proc laneRefs defs =
     ValidateLaneMembership taskID laneRefs @ ValidateOptionalAssignment uuid_parse taskID ext @
     ValidateDeptID uuid_parse taskID proc defs"

subsection \<open>connector_task.go\<close>

definition ValidateConnectorTaskDef :: "connector_registry \<Rightarrow> string \<Rightarrow> string \<Rightarrow> BPMNValidationError list" where
  "ValidateConnectorTaskDef connectors taskID connectorType =
     (if map_of connectors connectorType = None then AppendWarn [] BPMNWarnUnknownConnectorType taskID else [])"

definition ValidateConnectorTaskNoAssignment :: "string \<Rightarrow> BPMNExtensionElements \<Rightarrow> BPMNValidationError list" where
  "ValidateConnectorTaskNoAssignment taskID ext =
     (if ext_AssignmentDefinition ext = None then [] else AppendWarn [] BPMNWarnConnectorTaskHasAssignment taskID)"

definition ValidateConnectorNoAuthoredSecret :: "connector_registry \<Rightarrow> string \<Rightarrow> string \<Rightarrow> ZeebeIOMapping option
    \<Rightarrow> BPMNValidationError list" where
  "ValidateConnectorNoAuthoredSecret connectors taskID connectorType io =
     (case (map_of connectors connectorType, io) of
        (Some ins, Some m) \<Rightarrow>
          let secrets = set (map fst (filter snd ins)) in
          concat (map (\<lambda>v. if iv_Target v \<in> secrets then [err_of BPMNErrConnectorSecretAuthored taskID] else []) (io_Inputs m))
      | _ \<Rightarrow> [])"

definition UserTaskHandler_Validate :: "uuid_parser \<Rightarrow> connector_registry \<Rightarrow> string \<Rightarrow> BPMNProcess \<Rightarrow> BPMNDefinitions option
    \<Rightarrow> string set \<Rightarrow> BPMNValidationError list" where
  "UserTaskHandler_Validate uuid_parse connectors nodeID proc defs stageTypes =
     (case FindTask proc nodeID of
        None \<Rightarrow> []
      | Some task \<Rightarrow>
          let ext = ut_ExtensionElements task; tid = ut_ID task; (connectorType, ok) = ConnectorType ext
          in (if ok then
                ValidateConnectorTaskDef connectors tid connectorType @
                ValidateConnectorTaskNoAssignment tid ext @
                ValidateConnectorNoAuthoredSecret connectors tid connectorType (ext_IOMapping ext)
              else
                ValidateTaskDef tid ext stageTypes @ ValidateAssignmentDef uuid_parse tid ext @
                ValidateRoleLevel tid ext @ ValidateDefaultAssignee tid ext) @
             ValidateLaneMembership tid (BuildLaneRefSet proc) @ ValidateDeptID uuid_parse tid proc defs)"

subsection \<open>collab.go\<close>

definition collabReachableIDs :: "BPMNCollaboration \<Rightarrow> BPMNDefinitions \<Rightarrow> string set" where
  "collabReachableIDs collab defs =
     set (map pt_ID (collab_Participants collab)) \<union>
     set (concat (map (\<lambda>proc.
       map ut_ID (proc_UserTasks proc) @ map st_ID (proc_SendTasks proc) @ map rt_ID (proc_ReceiveTasks proc) @
       map ev_ID (proc_StartEvents proc) @ map ev_ID (proc_EndEvents proc) @ map sp_ID (proc_SubProcesses proc) @
       map ca_ID (proc_CallActivities proc) @ map bnd_ID (proc_BoundaryEvents proc)) (defs_Processes defs)))"

text \<open>\<open>waiting\<close> is a \<open>map[string]bool\<close> whose later assignments replace earlier ones.\<close>

definition waiting_nodes :: "BPMNDefinitions \<Rightarrow> BPMNProcess \<Rightarrow> (string, bool) gomap" where
  "waiting_nodes defs root =
     fold (\<lambda>p m.
       let skipped = SkippedTasks p (BuildGraph p);
           m = fold (\<lambda>t. mput (rt_ID t) (rt_ID t \<notin> skipped)) (proc_ReceiveTasks p) m
       in fold (\<lambda>be. mput (bnd_ID be) (bnd_Message be \<noteq> None)) (proc_BoundaryEvents p) m)
     (RunningProcesses defs root) []"

definition ValidateCollaboration :: "BPMNCollaboration option \<Rightarrow> BPMNDefinitions \<Rightarrow> BPMNProcess \<Rightarrow> BPMNValidationError list" where
  "ValidateCollaboration collab defs root =
     (case collab of
        None \<Rightarrow> []
      | Some c \<Rightarrow>
          let msgIDs = set (map msg_ID (defs_Messages defs));
              knownRefs = collabReachableIDs c defs;
              waiting = waiting_nodes defs root
          in concat (map (\<lambda>mf.
               (if mf_MessageRef mf \<noteq> [] \<and> mf_MessageRef mf \<notin> msgIDs
                then [err_of BPMNErrMissingMessageDefinition (mf_ID mf)] else []) @
               (if mf_SourceRef mf \<notin> knownRefs then [err_of BPMNErrUnmatchedMessageFlow (mf_ID mf)] else []) @
               (if mf_TargetRef mf \<notin> knownRefs then [err_of BPMNErrUnmatchedMessageFlow (mf_ID mf)] else []) @
               (if mget_or False waiting (mf_TargetRef mf) \<and> ResolveMessageFlowName mf (Some defs) = []
                then AppendWarn [] BPMNErrMissingMessageDefinition (mf_ID mf) else []))
             (collab_MessageFlows c)))"

subsection \<open>diagram.go\<close>

definition checkProcessShapes :: "BPMNProcess \<Rightarrow> string set \<Rightarrow> string set \<Rightarrow> BPMNValidationError list" where
  "checkProcessShapes proc shapeSet edgeSet =
     concat (map (\<lambda>nid. if nid \<notin> shapeSet then [err_of BPMNErrMissingDiagramShape nid] else [])
       (map ev_ID (proc_StartEvents proc) @ map ev_ID (proc_EndEvents proc) @ map ut_ID (proc_UserTasks proc) @
        map st_ID (proc_SendTasks proc) @ map rt_ID (proc_ReceiveTasks proc) @ map gw_ID (proc_ParallelGateways proc) @
        map gw_ID (proc_ExclusiveGateways proc) @ map gw_ID (proc_InclusiveGateways proc) @
        map sp_ID (proc_SubProcesses proc) @ map ca_ID (proc_CallActivities proc) @ map bnd_ID (proc_BoundaryEvents proc))) @
     concat (map (\<lambda>sf. if sf_ID sf \<notin> edgeSet then [err_of BPMNErrMissingDiagramShape (sf_ID sf)] else []) (proc_SequenceFlows proc))"

definition ValidateDiagramCompleteness :: "BPMNProcess \<Rightarrow> BPMNDefinitions \<Rightarrow> BPMNValidationError list" where
  "ValidateDiagramCompleteness proc defs =
     (if defs_Diagrams defs = [] then AppendErr [] BPMNErrMissingDiagram []
      else
        let shapeSet = set (concat (map dg_Shapes (defs_Diagrams defs)));
            edgeSet = set (concat (map dg_Edges (defs_Diagrams defs)))
        in checkProcessShapes proc shapeSet edgeSet @
           concat (map (\<lambda>sp. checkProcessShapes (SubProcToProcess sp) shapeSet edgeSet) (proc_SubProcesses proc)))"

text \<open>A document without diagram errors has a shape for every node that \<open>BuildGraph\<close> registers.\<close>

lemma missing_ids_Nil: "concat (map (\<lambda>x. if f x \<notin> S then [c x] else []) xs) = [] \<longleftrightarrow> f ` set xs \<subseteq> S"
  by (induction xs) auto

lemma checkProcessShapes_Nil:
  assumes "checkProcessShapes proc S E = []"
  shows "node_ids (BuildGraph proc) \<subseteq> S" and "sf_ID ` set (proc_SequenceFlows proc) \<subseteq> E"
proof -
  let ?all = "map ev_ID (proc_StartEvents proc) @ map ev_ID (proc_EndEvents proc) @ map ut_ID (proc_UserTasks proc) @
        map st_ID (proc_SendTasks proc) @ map rt_ID (proc_ReceiveTasks proc) @ map gw_ID (proc_ParallelGateways proc) @
        map gw_ID (proc_ExclusiveGateways proc) @ map gw_ID (proc_InclusiveGateways proc) @
        map sp_ID (proc_SubProcesses proc) @ map ca_ID (proc_CallActivities proc) @ map bnd_ID (proc_BoundaryEvents proc)"
  have eq: "map fst (registrations proc) = ?all" by (simp add: registrations_def comp_def)
  have nodes: "node_ids (BuildGraph proc) = set ?all"
    by (simp only: node_ids_BuildGraph set_map [symmetric] eq)
  from assms have shapes: "concat (map (\<lambda>x. if x \<notin> S then [err_of BPMNErrMissingDiagramShape x] else []) ?all) = []"
    and flows: "concat (map (\<lambda>sf. if sf_ID sf \<notin> E then [err_of BPMNErrMissingDiagramShape (sf_ID sf)] else []) (proc_SequenceFlows proc)) = []"
    unfolding checkProcessShapes_def append_is_Nil_conv by blast+
  show "node_ids (BuildGraph proc) \<subseteq> S"
    using missing_ids_Nil [of "\<lambda>x. x" S "\<lambda>x. err_of BPMNErrMissingDiagramShape x" ?all] shapes
    unfolding nodes image_ident by blast
  show "sf_ID ` set (proc_SequenceFlows proc) \<subseteq> E"
    using missing_ids_Nil [of sf_ID E "\<lambda>sf. err_of BPMNErrMissingDiagramShape (sf_ID sf)" "proc_SequenceFlows proc"] flows
    by blast
qed

lemma diagram_complete:
  assumes "ValidateDiagramCompleteness proc defs = []"
  shows "node_ids (BuildGraph proc) \<subseteq> set (concat (map dg_Shapes (defs_Diagrams defs)))"
    and "sf_ID ` set (proc_SequenceFlows proc) \<subseteq> set (concat (map dg_Edges (defs_Diagrams defs)))"
proof -
  from assms have "checkProcessShapes proc (set (concat (map dg_Shapes (defs_Diagrams defs))))
      (set (concat (map dg_Edges (defs_Diagrams defs)))) = []"
    by (simp add: ValidateDiagramCompleteness_def Let_def split: if_splits)
  from checkProcessShapes_Nil [OF this]
  show "node_ids (BuildGraph proc) \<subseteq> set (concat (map dg_Shapes (defs_Diagrams defs)))"
    and "sf_ID ` set (proc_SequenceFlows proc) \<subseteq> set (concat (map dg_Edges (defs_Diagrams defs)))" .
qed

end
