(* ===== verification/Go_Date.thy ===== *)
theory Go_Date
  imports Go_Time
begin

text \<open>
  \<open>time.Parse(time.RFC3339, value)\<close> as far as the validators ask it: whether it accepts the value.  It reads the
  layout \<open>2006-01-02T15:04:05Z07:00\<close> piece by piece; the hour may have one digit, a fraction may follow the seconds,
  and an offset may be as large as 24:60.
\<close>

definition getnum :: "bool \<Rightarrow> string \<Rightarrow> (nat \<times> string) option" where
  "getnum fixed s =
     (case s of
        [] \<Rightarrow> None
      | c # r \<Rightarrow>
          if \<not> isDigit c then None
          else case r of
            d # r' \<Rightarrow> if isDigit d then Some (10 * digitVal c + digitVal d, r') else if fixed then None else Some (digitVal c, r)
          | [] \<Rightarrow> if fixed then None else Some (digitVal c, r))"

definition number_in :: "nat \<Rightarrow> nat \<Rightarrow> (nat \<times> string) option \<Rightarrow> (nat \<times> string) option" where
  "number_in lo hi r = (case r of Some (n, s) \<Rightarrow> if lo \<le> n \<and> n \<le> hi then Some (n, s) else None | None \<Rightarrow> None)"

definition skip_char :: "char \<Rightarrow> string \<Rightarrow> string option" where
  "skip_char c s = (case s of d # r \<Rightarrow> if d = c then Some r else None | [] \<Rightarrow> None)"

definition date_year :: "string \<Rightarrow> (nat \<times> string) option" where
  "date_year s =
     (if 4 \<le> length s \<and> (\<forall>c \<in> set (take 4 s). isDigit c)
      then Some (fold (\<lambda>c n. 10 * n + digitVal c) (take 4 s) 0, drop 4 s) else None)"

definition skip_fraction :: "string \<Rightarrow> string" where
  "skip_fraction s = (if 2 \<le> length s \<and> hd s \<in> {CHR '','', CHR ''.''} \<and> isDigit (s ! 1) then dropWhile isDigit (tl s) else s)"

definition date_zone :: "string \<Rightarrow> string option" where
  "date_zone s =
     (if s \<noteq> [] \<and> hd s = CHR ''Z'' then Some (tl s)
      else if length s < 6 \<or> s ! 3 \<noteq> CHR '':'' then None
      else case (number_in 0 24 (getnum True (take 2 (drop 1 s))), number_in 0 60 (getnum True (take 2 (drop 4 s)))) of
        (Some _, Some _) \<Rightarrow> if hd s \<in> {CHR ''+'', CHR ''-''} then Some (drop 6 s) else None
      | _ \<Rightarrow> None)"

definition isLeap :: "nat \<Rightarrow> bool" where
  "isLeap y \<longleftrightarrow> y mod 4 = 0 \<and> (y mod 100 \<noteq> 0 \<or> y mod 400 = 0)"

definition daysIn :: "nat \<Rightarrow> nat \<Rightarrow> nat" where
  "daysIn month year = (if month = 2 then (if isLeap year then 29 else 28) else if month \<in> {4, 6, 9, 11} then 30 else 31)"

definition ParseRFC3339 :: "string \<Rightarrow> bool" where
  "ParseRFC3339 value \<longleftrightarrow>
     (case date_year value of None \<Rightarrow> False | Some (year, s) \<Rightarrow>
     (case Option.bind (skip_char (CHR ''-'') s) (\<lambda>s. number_in 1 12 (getnum True s)) of None \<Rightarrow> False | Some (month, s) \<Rightarrow>
     (case Option.bind (skip_char (CHR ''-'') s) (getnum True) of None \<Rightarrow> False | Some (day, s) \<Rightarrow>
     (case Option.bind (skip_char (CHR ''T'') s) (\<lambda>s. number_in 0 23 (getnum False s)) of None \<Rightarrow> False | Some (_, s) \<Rightarrow>
     (case Option.bind (skip_char (CHR '':'') s) (\<lambda>s. number_in 0 59 (getnum True s)) of None \<Rightarrow> False | Some (_, s) \<Rightarrow>
     (case Option.bind (skip_char (CHR '':'') s) (\<lambda>s. number_in 0 59 (getnum True s)) of None \<Rightarrow> False | Some (_, s) \<Rightarrow>
     (case date_zone (skip_fraction s) of None \<Rightarrow> False | Some rest \<Rightarrow>
        rest = [] \<and> 1 \<le> day \<and> day \<le> daysIn month year)))))))"

text \<open>The example of the validator's message, and dates that do not exist.\<close>

lemma ParseRFC3339_examples:
  "ParseRFC3339 ''2026-10-12T09:00:00Z''" "\<not> ParseRFC3339 ''2026-02-29T9:00:00.5+01:00''"
  by code_simp+

end
