(* ===== verification/Validate_Calls.thy ===== *)
theory Validate_Calls
  imports Validate_Tasks Plan_Stages Go_Date
begin

text \<open>
  The validators of calls, \<open>call_activity.go\<close> of \<open>internal/bpmn_compiler/validator\<close>, and of task schedules,
  \<open>task_schedule.go\<close>.  What the compiler does not define itself is gathered in a record: the UUID parser, the
  connector registry, \<open>dsl.CallScopeSeparator\<close>, \<open>dsl.ParseCondition\<close>, the JSON decoder of the call inputs, the Unicode
  functions \<open>strings.ToLower\<close> and \<open>strings.EqualFold\<close>, the durations of timers and the order in which Go ranges over
  the map of back edges.  Ranging over sorted keys goes over \<open>sort (mkeys m)\<close>.
\<close>

record validator_env =
  vx_uuid :: uuid_parser
  vx_connectors :: connector_registry
  vx_stageTypes :: "(string, string) gomap"
  vx_callSep :: string
  vx_condition :: "string \<Rightarrow> bool"
  vx_json :: "string \<Rightarrow> (string, string) gomap option"
  vx_toLower :: "string \<Rightarrow> string"
  vx_equalFold :: "string \<Rightarrow> string \<Rightarrow> bool"
  vx_duration :: "string \<Rightarrow> bool"
  vx_order :: "edges \<Rightarrow> (string \<times> string) list"

subsection \<open>task_schedule.go\<close>

definition schedule_errs :: "BPMNUserTask \<Rightarrow> BPMNValidationError list" where
  "schedule_errs t =
     (case ext_TaskSchedule (ut_ExtensionElements t) of
        None \<Rightarrow> []
      | Some ts \<Rightarrow>
          concat (map (\<lambda>date. if date \<noteq> [] \<and> \<not> ParseRFC3339 date then [err_of BPMNErrInvalidTaskSchedule (ut_ID t)] else [])
            [ts_DueDate ts, ts_FollowUpDate ts]))"

definition ValidateTaskSchedules :: "BPMNProcess \<Rightarrow> BPMNValidationError list" where
  "ValidateTaskSchedules proc =
     concat (map schedule_errs (proc_UserTasks proc)) @ concat (map schedule_errs (proc_GenericTasks proc)) @
     concat (map schedule_errs (proc_ServiceTasks proc))"

subsection \<open>call_activity.go\<close>

record callSite =
  site_ca :: BPMNCallActivity
  site_caller :: BPMNProcess
  site_called :: BPMNProcess
  site_defs :: BPMNDefinitions
  site_inputs :: CallInputs

definition site_err :: "callSite \<Rightarrow> BPMNErrorCode \<Rightarrow> BPMNValidationError" where
  "site_err c code = err_of code (ca_ID (site_ca c))"

definition retiredInputs :: "callSite \<Rightarrow> BPMNValidationError list" where
  "retiredInputs c = (if in_HasDeptID (site_inputs c) then [site_err c BPMNErrInvalidZeebeProperty] else [])"

definition workLane :: "(string \<Rightarrow> string \<Rightarrow> bool) \<Rightarrow> callSite \<Rightarrow> string \<Rightarrow> BPMNLane option" where
  "workLane equalFold c name = find (\<lambda>lane. equalFold (lane_Name lane) name) (WorkLanes (site_called c))"

text \<open>The two checks of one entry of \<open>Depts\<close>, the second on the lane that it maps to.\<close>

definition dept_key_errs :: "(string \<Rightarrow> string \<Rightarrow> bool) \<Rightarrow> callSite \<Rightarrow> string \<Rightarrow> string set \<Rightarrow> BPMNValidationError list \<times> string set" where
  "dept_key_errs equalFold c key mapped =
     (case workLane equalFold c key of
        None \<Rightarrow> ([site_err c BPMNErrInvalidZeebeProperty], mapped)
      | Some lane \<Rightarrow>
          if LaneDeptID lane \<noteq> [] \<or> lane_Name lane \<in> mapped then ([site_err c BPMNErrInvalidZeebeProperty], mapped)
          else ([], insert (lane_Name lane) mapped))"

definition dept_target_errs :: "(string \<Rightarrow> string \<Rightarrow> bool) \<Rightarrow> callSite \<Rightarrow> string \<Rightarrow> BPMNValidationError list" where
  "dept_target_errs equalFold c target =
     (case LaneNamed equalFold (site_caller c) target of
        None \<Rightarrow> [site_err c BPMNErrInvalidZeebeProperty]
      | Some lane \<Rightarrow> if IsIgnoredLane lane then [site_err c BPMNErrInvalidZeebeProperty] else [])"

fun dept_entries :: "(string \<Rightarrow> string \<Rightarrow> bool) \<Rightarrow> callSite \<Rightarrow> string list \<Rightarrow> string set \<Rightarrow> BPMNValidationError list \<times> string set" where
  "dept_entries equalFold c [] mapped = ([], mapped)"
| "dept_entries equalFold c (key # keys) mapped =
     (let (errs, mapped) = dept_key_errs equalFold c key mapped;
          target = dept_target_errs equalFold c (mget_or [] (in_Depts (site_inputs c)) key);
          (rest, mapped) = dept_entries equalFold c keys mapped
      in (errs @ target @ rest, mapped))"

definition site_departments :: "(string \<Rightarrow> string \<Rightarrow> bool) \<Rightarrow> callSite \<Rightarrow> BPMNValidationError list" where
  "site_departments equalFold c =
     (if in_DeptsErr (site_inputs c) then [site_err c BPMNErrInvalidZeebeProperty]
      else
        let (errs, mapped) = dept_entries equalFold c (sort (mkeys (in_Depts (site_inputs c)))) {};
            open_slots = OpenSlots (site_called c)
        in if length open_slots < 2 then errs
           else if \<exists>lane \<in> set open_slots. lane \<notin> mapped then errs @ [site_err c BPMNErrMissingDeptInputForModule] else errs)"

definition boundLanesHaveDepartments :: "(string \<Rightarrow> string \<Rightarrow> bool) \<Rightarrow> callSite \<Rightarrow> BPMNValidationError list" where
  "boundLanesHaveDepartments equalFold c =
     (let keys = sort (mkeys (in_Depts (site_inputs c)));
          mapped = set (List.map_filter (\<lambda>key. map_option lane_Name (workLane equalFold c key)) keys)
      in concat (map (\<lambda>key. case LaneNamed equalFold (site_caller c) (mget_or [] (in_Depts (site_inputs c)) key) of
             Some lane \<Rightarrow> if LaneDeptID lane = [] then [site_err c BPMNErrMissingDeptID] else []
           | None \<Rightarrow> []) keys) @
         (case OpenSlots (site_called c) of
            [slot] \<Rightarrow>
              if slot \<in> mapped then []
              else (case LaneFor (ca_ID (site_ca c)) (site_caller c) of
                      Some lane \<Rightarrow> if LaneDeptID lane = [] then [site_err c BPMNErrMissingDeptID] else []
                    | None \<Rightarrow> [])
          | _ \<Rightarrow> []))"

definition hasTask :: "BPMNProcess \<Rightarrow> string \<Rightarrow> bool" where
  "hasTask proc nid \<longleftrightarrow>
     FindTask proc nid \<noteq> None \<or> (\<exists>sp \<in> set (proc_SubProcesses proc). \<exists>t \<in> set (sp_UserTasks sp). ut_ID t = nid)"

text \<open>The calls that a key goes through and the task that it ends in, cut at the separator, which is not empty.\<close>

lemma Cut_shorter: "(a, b, True) = Cut s sep \<Longrightarrow> sep \<noteq> [] \<Longrightarrow> length b < length s"
  by (auto dest!: Cut_found [OF sym])

function call_path :: "string \<Rightarrow> string \<Rightarrow> string list" where
  "call_path sep key =
     (if sep = [] then [key]
      else case Cut key sep of (callID, rest, True) \<Rightarrow> callID # call_path sep rest | _ \<Rightarrow> [key])"
  by pat_completeness auto
termination
  by (relation "measure (\<lambda>(sep, key). length key)") (auto dest: Cut_shorter)

declare call_path.simps [simp del]

fun unassignable :: "BPMNDefinitions \<Rightarrow> BPMNProcess \<Rightarrow> string list \<Rightarrow> bool" where
  "unassignable defs proc [] = True"
| "unassignable defs proc [task] = (\<not> hasTask proc task)"
| "unassignable defs proc (callID # rest) =
     (case Option.bind (FindCallActivity proc callID) called_id of
        None \<Rightarrow> True
      | Some pid \<Rightarrow> (case FindProcessByID defs pid of None \<Rightarrow> True | Some callee \<Rightarrow> unassignable defs callee rest))"

definition site_assignees :: "uuid_parser \<Rightarrow> string \<Rightarrow> callSite \<Rightarrow> BPMNValidationError list" where
  "site_assignees uuid_parse callSep c =
     (if in_AssigneesErr (site_inputs c) then [site_err c BPMNErrInvalidZeebeProperty]
      else concat (map (\<lambda>key.
        (if unassignable (site_defs c) (site_called c) (call_path callSep key) then [site_err c BPMNErrInvalidZeebeProperty] else []) @
        (if \<not> IsUserID uuid_parse (mget_or [] (in_Assignees (site_inputs c)) key) then [site_err c BPMNErrInvalidZeebeProperty] else []))
        (sort (mkeys (in_Assignees (site_inputs c))))))"

definition ValidateCallActivity :: "validator_env \<Rightarrow> BPMNCallActivity \<Rightarrow> BPMNProcess \<Rightarrow> BPMNDefinitions \<Rightarrow> BPMNValidationError list" where
  "ValidateCallActivity V ca caller defs =
     (case called_id ca of
        None \<Rightarrow> AppendErr [] BPMNErrUnresolvedCalledElement (ca_ID ca)
      | Some pid \<Rightarrow>
          if pid = [] then AppendErr [] BPMNErrUnresolvedCalledElement (ca_ID ca)
          else case FindProcessByID defs pid of
            None \<Rightarrow> AppendErr [] BPMNErrUnresolvedCalledElement (ca_ID ca)
          | Some called \<Rightarrow>
              if IsIgnored called then AppendErr [] BPMNErrUnresolvedCalledElement (ca_ID ca)
              else if proc_StartEvents called = [] then AppendErr [] BPMNErrNoStartEvent (ca_ID ca)
              else
                let c = \<lparr>site_ca = ca, site_caller = caller, site_called = called, site_defs = defs,
                         site_inputs = ParseCallInputs (vx_json V) ca\<rparr>
                in retiredInputs c @ site_departments (vx_equalFold V) c @
                   (if proc_ID caller \<notin> defs_ModuleProcesses defs then boundLanesHaveDepartments (vx_equalFold V) c else []) @
                   site_assignees (vx_uuid V) (vx_callSep V) c)"

definition CallActivityHandler_Validate :: "validator_env \<Rightarrow> string \<Rightarrow> BPMNProcess \<Rightarrow> BPMNDefinitions \<Rightarrow> BPMNValidationError list" where
  "CallActivityHandler_Validate V nodeID proc defs =
     (case FindCallActivity proc nodeID of None \<Rightarrow> [] | Some ca \<Rightarrow> ValidateCallActivity V ca proc defs)"

end
