(* ===== verification/Call_Graph.thy ===== *)
theory Call_Graph
  imports Validate_Calls
begin

text \<open>
  \<open>ValidateCallGraph\<close> of \<open>validator/call_graph.go\<close>: cycles of calls, the size of a process with its calls expanded
  and clashes of plan names.  The search keeps its maps in a record; a process that is not in \<open>cg_state\<close> is unvisited.
  Its recursion has fuel, one unit per nested visit.  The chain is only read for the text of an error, which the model
  leaves out.
\<close>

subsection \<open>The search\<close>

definition calledProcess :: "BPMNDefinitions \<Rightarrow> BPMNCallActivity \<Rightarrow> BPMNProcess option" where
  "calledProcess defs ca =
     (case called_id ca of None \<Rightarrow> None | Some pid \<Rightarrow> if pid = [] then None else FindProcessByID defs pid)"

datatype visit_state = OnChain | Finished

record call_graph =
  cg_state :: "(string, visit_state) gomap"
  cg_expandedSize :: "(string, nat) gomap"
  cg_isCalled :: "string set"
  cg_calls :: "string set"
  cg_errs :: "BPMNValidationError list"

type_synonym visit_process = "BPMNProcess \<Rightarrow> call_graph \<Rightarrow> call_graph option"

definition visit_called :: "visit_process \<Rightarrow> BPMNProcess \<Rightarrow> BPMNCallActivity \<Rightarrow> BPMNProcess \<Rightarrow> call_graph \<Rightarrow> call_graph option" where
  "visit_called visit p ca called s =
     (let s = s\<lparr>cg_isCalled := insert (proc_ID called) (cg_isCalled s), cg_calls := insert (proc_ID p) (cg_calls s)\<rparr>
      in case map_of (cg_state s) (proc_ID called) of
           Some OnChain \<Rightarrow> Some (s\<lparr>cg_errs := AppendErr (cg_errs s) BPMNErrCalledElementCycle (ca_ID ca)\<rparr>)
         | Some Finished \<Rightarrow> Some s
         | None \<Rightarrow> visit called s)"

fun visit_process_calls :: "visit_process \<Rightarrow> BPMNDefinitions \<Rightarrow> BPMNProcess \<Rightarrow> BPMNCallActivity list \<Rightarrow> nat \<Rightarrow> call_graph
    \<Rightarrow> (nat \<times> call_graph) option" where
  "visit_process_calls visit defs p [] n s = Some (n, s)"
| "visit_process_calls visit defs p (ca # cas) n s =
     (case calledProcess defs ca of
        None \<Rightarrow> visit_process_calls visit defs p cas n s
      | Some called \<Rightarrow>
          if IsIgnored p then visit_process_calls visit defs p cas n s
          else Option.bind (visit_called visit p ca called s) (\<lambda>s.
            visit_process_calls visit defs p cas (min (n + 1 + mget_or 0 (cg_expandedSize s) (proc_ID called)) (maxUserTasks + 1)) s))"

fun visit_proc :: "nat \<Rightarrow> BPMNDefinitions \<Rightarrow> visit_process" where
  "visit_proc 0 defs p s = None"
| "visit_proc (Suc fuel) defs p s =
     map_option (\<lambda>(n, s). s\<lparr>cg_expandedSize := mput (proc_ID p) n (cg_expandedSize s),
         cg_state := mput (proc_ID p) Finished (cg_state s)\<rparr>)
       (visit_process_calls (visit_proc fuel defs) defs p (proc_CallActivities p) (length (proc_UserTasks p))
         (s\<lparr>cg_state := mput (proc_ID p) OnChain (cg_state s)\<rparr>))"

fun visit_all :: "nat \<Rightarrow> BPMNDefinitions \<Rightarrow> BPMNProcess list \<Rightarrow> call_graph \<Rightarrow> call_graph option" where
  "visit_all fuel defs [] s = Some s"
| "visit_all fuel defs (p # ps) s =
     (if map_of (cg_state s) (proc_ID p) = None
      then Option.bind (visit_proc fuel defs p s) (visit_all fuel defs ps)
      else visit_all fuel defs ps s)"

subsection \<open>What it reports\<close>

fun unique_id_errs :: "BPMNProcess list \<Rightarrow> (string, nat) gomap \<Rightarrow> BPMNValidationError list" where
  "unique_id_errs [] count = []"
| "unique_id_errs (p # ps) count =
     (let n = Suc (mget_or 0 count (proc_ID p))
      in (if n = 2 then [err_of BPMNErrDuplicateProcessID (proc_ID p)] else []) @ unique_id_errs ps (mput (proc_ID p) n count))"

definition validateUniqueProcessIDs :: "BPMNDefinitions \<Rightarrow> BPMNValidationError list" where
  "validateUniqueProcessIDs defs = unique_id_errs (defs_Processes defs) []"

definition validatePlanNameClash :: "BPMNDefinitions \<Rightarrow> string set \<Rightarrow> BPMNValidationError list" where
  "validatePlanNameClash defs isCalled =
     concat (map (\<lambda>p.
       if proc_ID p \<in> isCalled \<or> proc_Name p = [] \<or> proc_Name p = proc_ID p \<or> proc_Name p \<notin> set (map proc_ID (defs_Processes defs))
       then [] else [err_of BPMNErrDuplicateProcessID (proc_ID p)]) (defs_Processes defs))"

definition validateExpandedSize :: "BPMNDefinitions \<Rightarrow> call_graph \<Rightarrow> BPMNValidationError list" where
  "validateExpandedSize defs s =
     concat (map (\<lambda>p.
       if proc_ID p \<in> cg_isCalled s \<or> mget_or 0 (cg_expandedSize s) (proc_ID p) \<le> maxUserTasks \<or> proc_ID p \<notin> cg_calls s
       then [] else [err_of BPMNErrTaskLimitExceeded (proc_ID p)]) (defs_Processes defs))"

definition graph_start :: "BPMNDefinitions \<Rightarrow> call_graph" where
  "graph_start defs = \<lparr>cg_state = [], cg_expandedSize = [], cg_isCalled = {}, cg_calls = {}, cg_errs = validateUniqueProcessIDs defs\<rparr>"

definition ValidateCallGraph :: "BPMNDefinitions \<Rightarrow> BPMNValidationError list option" where
  "ValidateCallGraph defs =
     map_option (\<lambda>s. cg_errs s @ validatePlanNameClash defs (cg_isCalled s) @ validateExpandedSize defs s)
       (visit_all (Suc (length (defs_Processes defs))) defs (defs_Processes defs) (graph_start defs))"

subsection \<open>Unique identifiers\<close>

lemma unique_id_errs_Nil:
  "unique_id_errs ps count = [] \<Longrightarrow> (\<And>p. p \<in> set ps \<Longrightarrow> mget_or 0 count (proc_ID p) \<le> 1) \<Longrightarrow>
     distinct (map proc_ID ps) \<and> (\<forall>p \<in> set ps. mget_or 0 count (proc_ID p) = 0)"
proof (induction ps arbitrary: count)
  case (Cons p ps)
  let ?count = "mput (proc_ID p) (Suc (mget_or 0 count (proc_ID p))) count"
  from Cons.prems(1) have zero: "mget_or 0 count (proc_ID p) \<noteq> 1" and rest: "unique_id_errs ps ?count = []"
    by (auto simp: Let_def split: if_splits)
  from zero Cons.prems(2) [of p] have p: "mget_or 0 count (proc_ID p) = 0" by simp
  have "mget_or 0 ?count (proc_ID q) \<le> 1" if "q \<in> set ps" for q using Cons.prems(2) [of q] that p by simp
  from Cons.IH [OF rest this] have ih: "distinct (map proc_ID ps)" "\<And>q. q \<in> set ps \<Longrightarrow> mget_or 0 ?count (proc_ID q) = 0" by auto
  have "proc_ID q \<noteq> proc_ID p \<and> mget_or 0 count (proc_ID q) = 0" if "q \<in> set ps" for q
    using ih(2) [OF that] by (simp split: if_splits)
  with ih(1) p show ?case by force
qed simp

lemma validateUniqueProcessIDs_Nil: "validateUniqueProcessIDs defs = [] \<Longrightarrow> distinct (map proc_ID (defs_Processes defs))"
  using unique_id_errs_Nil [of "defs_Processes defs" "[]"] by (simp add: validateUniqueProcessIDs_def)

lemma unique_id_code: "e \<in> set (unique_id_errs ps count) \<Longrightarrow> e = err_of BPMNErrDuplicateProcessID (be_NodeID e)"
  by (induction ps arbitrary: count) (auto simp: Let_def split: if_splits)

end
