(* ===== verification/Call_Graph_Correct.thy ===== *)
theory Call_Graph_Correct
  imports Call_Graph
begin

text \<open>
  \<open>ValidateCallGraph\<close> reports a cycle exactly when the calls have one, and the processes whose calls expand to too
  much.  The contract of a visit is a locale: \<open>E\<close> is a candidate for the expanded sizes.
\<close>

subsection \<open>Calls\<close>

definition callees_of :: "BPMNDefinitions \<Rightarrow> BPMNProcess \<Rightarrow> BPMNCallActivity list \<Rightarrow> BPMNProcess list" where
  "callees_of defs p cas = (if IsIgnored p then [] else List.map_filter (calledProcess defs) cas)"

abbreviation callees :: "BPMNDefinitions \<Rightarrow> BPMNProcess \<Rightarrow> BPMNProcess list" where
  "callees defs p \<equiv> callees_of defs p (proc_CallActivities p)"

definition call_rel :: "BPMNDefinitions \<Rightarrow> (string \<times> string) set" where
  "call_rel defs = {(proc_ID p, proc_ID q) | p q. p \<in> set (defs_Processes defs) \<and> q \<in> set (callees defs p)}"

definition size_eq :: "BPMNDefinitions \<Rightarrow> (string \<Rightarrow> nat) \<Rightarrow> bool" where
  "size_eq defs E \<longleftrightarrow> (\<forall>p \<in> set (defs_Processes defs).
     E (proc_ID p) = length (proc_UserTasks p) + (\<Sum>q\<leftarrow>callees defs p. 1 + E (proc_ID q)))"

definition unique_ids :: "BPMNDefinitions \<Rightarrow> bool" where
  "unique_ids defs \<longleftrightarrow> distinct (map proc_ID (defs_Processes defs))"

lemma calledProcess_mem: "calledProcess defs ca = Some q \<Longrightarrow> q \<in> set (defs_Processes defs)"
  by (auto simp: calledProcess_def intro: FindProcessByID_mem split: option.splits if_splits)

lemma callees_mem: "q \<in> set (callees_of defs p cas) \<Longrightarrow> q \<in> set (defs_Processes defs)"
  by (auto simp: callees_of_def List.map_filter_def intro: calledProcess_mem split: if_splits)

lemma unique_ids_eq: "unique_ids defs \<Longrightarrow> p \<in> set (defs_Processes defs) \<Longrightarrow> q \<in> set (defs_Processes defs) \<Longrightarrow> proc_ID p = proc_ID q \<Longrightarrow> p = q"
  unfolding unique_ids_def distinct_map by (blast dest: inj_onD)

lemma call_rel_from:
  assumes "unique_ids defs" "p \<in> set (defs_Processes defs)"
  shows "call_rel defs `` {proc_ID p} = proc_ID ` set (callees defs p)"
  using assms unique_ids_eq [OF assms(1)] by (auto simp: call_rel_def)

lemma size_decreases: "size_eq defs E \<Longrightarrow> (u, v) \<in> call_rel defs \<Longrightarrow> E v < E u"
proof -
  assume E: "size_eq defs E" and "(u, v) \<in> call_rel defs"
  then obtain p q where p: "p \<in> set (defs_Processes defs)" "u = proc_ID p" "q \<in> set (callees defs p)" "v = proc_ID q"
    by (auto simp: call_rel_def)
  from p(3) have "1 + E (proc_ID q) \<le> (\<Sum>q\<leftarrow>callees defs p. 1 + E (proc_ID q))" by (intro member_le_sum_list) auto
  with E p show "E v < E u" by (auto simp: size_eq_def)
qed

lemma size_decreases_rtrancl: "size_eq defs E \<Longrightarrow> (u, v) \<in> (call_rel defs)\<^sup>* \<Longrightarrow> E v \<le> E u"
  by (erule rtrancl_induct) (auto dest: size_decreases)

lemma size_acyclic: "size_eq defs E \<Longrightarrow> (u, u) \<notin> (call_rel defs)\<^sup>+"
proof
  assume E: "size_eq defs E" and "(u, u) \<in> (call_rel defs)\<^sup>+"
  then obtain v where "(u, v) \<in> call_rel defs" "(v, u) \<in> (call_rel defs)\<^sup>*" by (auto dest: tranclD)
  with size_decreases [OF E] size_decreases_rtrancl [OF E] show False by force
qed

subsection \<open>The contract of a visit\<close>

definition grey :: "call_graph \<Rightarrow> string set" where
  "grey s = {u. map_of (cg_state s) u = Some OnChain}"

definition black :: "call_graph \<Rightarrow> string set" where
  "black s = {u. map_of (cg_state s) u = Some Finished}"

definition cyclic :: "call_graph \<Rightarrow> bool" where
  "cyclic s \<longleftrightarrow> (\<exists>e \<in> set (cg_errs s). be_Code e = BPMNErrCalledElementCycle)"

definition capped :: "nat \<Rightarrow> nat \<Rightarrow> bool" where
  "capped n m \<longleftrightarrow> min n (maxUserTasks + 1) = min m (maxUserTasks + 1)"

definition traced :: "BPMNDefinitions \<Rightarrow> call_graph \<Rightarrow> bool" where
  "traced defs s \<longleftrightarrow> cg_isCalled s \<subseteq> Range (call_rel defs) \<and> cg_calls s \<subseteq> Domain (call_rel defs) \<and>
     (\<forall>u \<in> black s. call_rel defs `` {u} \<subseteq> cg_isCalled s \<and> (call_rel defs `` {u} \<noteq> {} \<longrightarrow> u \<in> cg_calls s))"

definition search_ok :: "BPMNDefinitions \<Rightarrow> (string \<Rightarrow> nat) \<Rightarrow> call_graph \<Rightarrow> bool" where
  "search_ok defs E s \<longleftrightarrow>
     (cyclic s \<longrightarrow> (\<exists>u. (u, u) \<in> (call_rel defs)\<^sup>+)) \<and>
     (\<not> cyclic s \<longrightarrow> call_rel defs `` black s \<subseteq> black s \<and> (\<forall>u \<in> black s. (u, u) \<notin> (call_rel defs)\<^sup>+)) \<and>
     (size_eq defs E \<longrightarrow> (\<forall>u \<in> black s. capped (mget_or 0 (cg_expandedSize s) u) (E u))) \<and> traced defs s"

definition searched :: "call_graph \<Rightarrow> call_graph \<Rightarrow> bool" where
  "searched s s' \<longleftrightarrow> grey s' = grey s \<and> black s \<subseteq> black s' \<and> (cyclic s \<longrightarrow> cyclic s') \<and>
     cg_isCalled s \<subseteq> cg_isCalled s' \<and> cg_calls s \<subseteq> cg_calls s' \<and>
     set (cg_errs s') \<subseteq> set (cg_errs s) \<union> {e. be_Code e = BPMNErrCalledElementCycle}"

definition unvisited_ids :: "BPMNDefinitions \<Rightarrow> call_graph \<Rightarrow> string set" where
  "unvisited_ids defs s = proc_ID ` set (defs_Processes defs) - (grey s \<union> black s)"

lemma searched_refl [simp]: "searched s s"
  by (simp add: searched_def)

lemma searched_trans: "searched a b \<Longrightarrow> searched b c \<Longrightarrow> searched a c"
  by (auto simp: searched_def)

lemma searched_unvisited: "searched s s' \<Longrightarrow> card (unvisited_ids defs s') \<le> card (unvisited_ids defs s)"
  unfolding unvisited_ids_def searched_def by (intro card_mono) auto

lemma state_cases: "map_of (cg_state s) u = None \<longleftrightarrow> u \<notin> grey s \<union> black s"
  by (cases "map_of (cg_state s) u") (auto simp: grey_def black_def intro: visit_state.exhaust)

lemma grey_not_black: "grey s \<inter> black s = {}"
  by (auto simp: grey_def black_def)

lemma capped_add: "capped n a \<Longrightarrow> capped e b \<Longrightarrow> capped (min (n + 1 + e) (maxUserTasks + 1)) (a + (1 + b))"
  by (auto simp: capped_def min_def split: if_splits)

locale call_search =
  fixes defs :: BPMNDefinitions and E :: "string \<Rightarrow> nat" and visit :: visit_process and bound :: nat
  assumes visit_ok: "\<lbrakk>unique_ids defs; p \<in> set (defs_Processes defs); search_ok defs E s; proc_ID p \<notin> grey s \<union> black s;
      \<And>g. g \<in> grey s \<Longrightarrow> (g, proc_ID p) \<in> (call_rel defs)\<^sup>*; card (unvisited_ids defs s) \<le> bound\<rbrakk>
    \<Longrightarrow> \<exists>s'. visit p s = Some s' \<and> search_ok defs E s' \<and> searched s s' \<and> proc_ID p \<in> black s'"
begin

lemma visit_called_ok:
  assumes u: "unique_ids defs" and p: "p \<in> set (defs_Processes defs)" and q: "q \<in> set (callees defs p)"
    and ok: "search_ok defs E s" and pg: "proc_ID p \<in> grey s"
    and chain: "\<And>g. g \<in> grey s \<Longrightarrow> (g, proc_ID p) \<in> (call_rel defs)\<^sup>*" and fuel: "card (unvisited_ids defs s) \<le> bound"
  shows "\<exists>s'. visit_called visit p ca q s = Some s' \<and> search_ok defs E s' \<and> searched s s' \<and> proc_ID q \<in> cg_isCalled s' \<and>
    proc_ID p \<in> cg_calls s' \<and> (\<not> cyclic s' \<longrightarrow> proc_ID q \<in> black s') \<and>
    (size_eq defs E \<longrightarrow> capped (mget_or 0 (cg_expandedSize s') (proc_ID q)) (E (proc_ID q)))"
proof -
  let ?s = "s\<lparr>cg_isCalled := insert (proc_ID q) (cg_isCalled s), cg_calls := insert (proc_ID p) (cg_calls s)\<rparr>"
  have pq: "(proc_ID p, proc_ID q) \<in> call_rel defs" using p q by (auto simp: call_rel_def)
  have same: "grey ?s = grey s" "black ?s = black s" "cyclic ?s = cyclic s" by (simp_all add: grey_def black_def cyclic_def)
  have ok': "search_ok defs E ?s" using ok pq unfolding search_ok_def traced_def same by auto
  have go: "searched s ?s" by (auto simp: searched_def same)
  consider "proc_ID q \<in> grey s" | "proc_ID q \<in> black s" | "proc_ID q \<notin> grey s \<union> black s" by blast
  then show ?thesis
  proof cases
    case 1
    define t where "t = ?s\<lparr>cg_errs := AppendErr (cg_errs ?s) BPMNErrCalledElementCycle (ca_ID ca)\<rparr>"
    have same': "grey t = grey ?s" "black t = black ?s" "cyclic t" "cg_isCalled t = cg_isCalled ?s" "cg_calls t = cg_calls ?s"
      by (auto simp: t_def grey_def black_def cyclic_def AppendErr_def)
    from chain [OF 1] pq have cycle: "(proc_ID q, proc_ID q) \<in> (call_rel defs)\<^sup>+" by (rule rtrancl_into_trancl1)
    with size_acyclic have no_size: "\<not> size_eq defs E" by blast
    have "traced defs t" using ok' unfolding search_ok_def traced_def same' by blast
    then have "search_ok defs E t" using cycle no_size same'(3) unfolding search_ok_def by blast
    moreover have "set (cg_errs t) \<subseteq> set (cg_errs s) \<union> {e. be_Code e = BPMNErrCalledElementCycle}" by (simp add: t_def AppendErr_def)
    then have "searched s t" using same same'(3) unfolding searched_def same' by auto
    moreover have "visit_called visit p ca q s = Some t" using 1 by (simp add: visit_called_def grey_def t_def)
    moreover have "proc_ID q \<in> cg_isCalled t" "proc_ID p \<in> cg_calls t" by (simp_all add: same')
    ultimately show ?thesis using same'(3) no_size by blast
  next
    case 2
    moreover have "visit_called visit p ca q s = Some ?s" using 2 by (simp add: visit_called_def black_def)
    ultimately show ?thesis using ok' go same unfolding search_ok_def by auto
  next
    case 3
    have "\<exists>s'. visit q ?s = Some s' \<and> search_ok defs E s' \<and> searched ?s s' \<and> proc_ID q \<in> black s'"
    proof (rule visit_ok [OF u callees_mem [OF q] ok'])
      show "proc_ID q \<notin> grey ?s \<union> black ?s" using 3 by (simp add: same)
      show "(g, proc_ID q) \<in> (call_rel defs)\<^sup>*" if "g \<in> grey ?s" for g
        using chain [of g] that pq by (simp add: same)
      show "card (unvisited_ids defs ?s) \<le> bound" using fuel by (simp add: unvisited_ids_def same)
    qed
    then obtain s' where s': "visit q ?s = Some s'" "search_ok defs E s'" "searched ?s s'" "proc_ID q \<in> black s'" by blast
    have "visit_called visit p ca q s = Some s'" using 3 s'(1) state_cases [of s "proc_ID q"] by (simp add: visit_called_def)
    moreover have "proc_ID q \<in> cg_isCalled s'" "proc_ID p \<in> cg_calls s'" using s'(3) by (auto simp: searched_def)
    ultimately show ?thesis using s' searched_trans [OF go s'(3)] unfolding search_ok_def by auto
  qed
qed

lemma process_calls_ok:
  assumes u: "unique_ids defs" and p: "p \<in> set (defs_Processes defs)"
  shows "\<lbrakk>set cas \<subseteq> set (proc_CallActivities p); search_ok defs E s; proc_ID p \<in> grey s;
      \<And>g. g \<in> grey s \<Longrightarrow> (g, proc_ID p) \<in> (call_rel defs)\<^sup>*; card (unvisited_ids defs s) \<le> bound;
      size_eq defs E \<Longrightarrow> capped n a\<rbrakk>
    \<Longrightarrow> \<exists>n' s'. visit_process_calls visit defs p cas n s = Some (n', s') \<and> search_ok defs E s' \<and> searched s s' \<and>
      proc_ID ` set (callees_of defs p cas) \<subseteq> cg_isCalled s' \<and> (set (callees_of defs p cas) \<noteq> {} \<longrightarrow> proc_ID p \<in> cg_calls s') \<and>
      (\<not> cyclic s' \<longrightarrow> proc_ID ` set (callees_of defs p cas) \<subseteq> black s') \<and>
      (size_eq defs E \<longrightarrow> capped n' (a + (\<Sum>q\<leftarrow>callees_of defs p cas. 1 + E (proc_ID q))))"
proof (induction cas arbitrary: n a s)
  case Nil
  then show ?case by (simp add: callees_of_def List.map_filter_def)
next
  case (Cons ca cas)
  show ?case
  proof (cases "\<exists>q. calledProcess defs ca = Some q \<and> \<not> IsIgnored p")
    case False
    then have "visit_process_calls visit defs p (ca # cas) n s = visit_process_calls visit defs p cas n s"
      and "callees_of defs p (ca # cas) = callees_of defs p cas"
      by (auto simp: callees_of_def List.map_filter_def split: option.split)
    with Cons.IH [of s n a] Cons.prems show ?thesis by simp
  next
    case True
    then obtain q where q: "calledProcess defs ca = Some q" "\<not> IsIgnored p" by blast
    then have cs: "callees_of defs p (ca # cas) = q # callees_of defs p cas" by (simp add: callees_of_def List.map_filter_def)
    have "q \<in> set (callees defs p)"
      using q Cons.prems(1) by (force simp: callees_of_def List.map_filter_def)
    from visit_called_ok [OF u p this Cons.prems(2-5)] obtain s1 where s1: "visit_called visit p ca q s = Some s1"
      "search_ok defs E s1" "searched s s1" "proc_ID q \<in> cg_isCalled s1" "proc_ID p \<in> cg_calls s1"
      "\<not> cyclic s1 \<longrightarrow> proc_ID q \<in> black s1" "size_eq defs E \<longrightarrow> capped (mget_or 0 (cg_expandedSize s1) (proc_ID q)) (E (proc_ID q))"
      by blast
    let ?n = "min (n + 1 + mget_or 0 (cg_expandedSize s1) (proc_ID q)) (maxUserTasks + 1)"
    have "\<exists>n' s'. visit_process_calls visit defs p cas ?n s1 = Some (n', s') \<and> search_ok defs E s' \<and> searched s1 s' \<and>
      proc_ID ` set (callees_of defs p cas) \<subseteq> cg_isCalled s' \<and> (set (callees_of defs p cas) \<noteq> {} \<longrightarrow> proc_ID p \<in> cg_calls s') \<and>
      (\<not> cyclic s' \<longrightarrow> proc_ID ` set (callees_of defs p cas) \<subseteq> black s') \<and>
      (size_eq defs E \<longrightarrow> capped n' ((a + (1 + E (proc_ID q))) + (\<Sum>q\<leftarrow>callees_of defs p cas. 1 + E (proc_ID q))))"
    proof (rule Cons.IH)
      show "search_ok defs E s1" by (rule s1(2))
      show "proc_ID p \<in> grey s1" "\<And>g. g \<in> grey s1 \<Longrightarrow> (g, proc_ID p) \<in> (call_rel defs)\<^sup>*"
        using s1(3) Cons.prems(3,4) by (auto simp: searched_def)
      show "card (unvisited_ids defs s1) \<le> bound" using searched_unvisited [OF s1(3)] Cons.prems(5) by (rule order.trans)
      show "capped ?n (a + (1 + E (proc_ID q)))" if "size_eq defs E" using capped_add Cons.prems(6) s1(7) that by blast
    qed (use Cons.prems(1) in auto)
    then obtain n' s' where s': "visit_process_calls visit defs p cas ?n s1 = Some (n', s')" "search_ok defs E s'" "searched s1 s'"
      "proc_ID ` set (callees_of defs p cas) \<subseteq> cg_isCalled s'"
      "\<not> cyclic s' \<longrightarrow> proc_ID ` set (callees_of defs p cas) \<subseteq> black s'"
      "size_eq defs E \<longrightarrow> capped n' ((a + (1 + E (proc_ID q))) + (\<Sum>q\<leftarrow>callees_of defs p cas. 1 + E (proc_ID q)))" by blast
    from s'(1) q s1(1) have "visit_process_calls visit defs p (ca # cas) n s = Some (n', s')" by simp
    with s' s1(3-6) searched_trans [OF s1(3) s'(3)] show ?thesis unfolding cs by (auto simp: searched_def add.assoc)
  qed
qed

lemma visit_proc_step:
  assumes u: "unique_ids defs" and p: "p \<in> set (defs_Processes defs)" and ok: "search_ok defs E s"
    and new: "proc_ID p \<notin> grey s \<union> black s" and chain: "\<And>g. g \<in> grey s \<Longrightarrow> (g, proc_ID p) \<in> (call_rel defs)\<^sup>*"
    and fuel: "card (unvisited_ids defs s) \<le> Suc bound"
  shows "\<exists>s'. map_option (\<lambda>(n, s). s\<lparr>cg_expandedSize := mput (proc_ID p) n (cg_expandedSize s),
         cg_state := mput (proc_ID p) Finished (cg_state s)\<rparr>)
       (visit_process_calls visit defs p (proc_CallActivities p) (length (proc_UserTasks p)) (s\<lparr>cg_state := mput (proc_ID p) OnChain (cg_state s)\<rparr>))
       = Some s' \<and> search_ok defs E s' \<and> searched s s' \<and> proc_ID p \<in> black s'"
proof -
  let ?u = "proc_ID p" and ?R = "call_rel defs"
  let ?s = "s\<lparr>cg_state := mput ?u OnChain (cg_state s)\<rparr>"
  have st: "grey ?s = insert ?u (grey s)" "black ?s = black s" "cyclic ?s = cyclic s"
    using new by (auto simp: grey_def black_def cyclic_def update_conv)
  have ok': "search_ok defs E ?s" using ok unfolding search_ok_def traced_def st by simp
  have "unvisited_ids defs ?s = unvisited_ids defs s - {?u}" by (auto simp: unvisited_ids_def st)
  moreover have "?u \<in> unvisited_ids defs s" using new p by (simp add: unvisited_ids_def)
  ultimately have "card (unvisited_ids defs ?s) \<le> bound" using fuel by simp
  have "\<exists>n' s'. visit_process_calls visit defs p (proc_CallActivities p) (length (proc_UserTasks p)) ?s = Some (n', s') \<and> search_ok defs E s' \<and> searched ?s s' \<and>
      proc_ID ` set (callees defs p) \<subseteq> cg_isCalled s' \<and> (set (callees defs p) \<noteq> {} \<longrightarrow> ?u \<in> cg_calls s') \<and>
      (\<not> cyclic s' \<longrightarrow> proc_ID ` set (callees defs p) \<subseteq> black s') \<and>
      (size_eq defs E \<longrightarrow> capped n' (length (proc_UserTasks p) + (\<Sum>q\<leftarrow>callees defs p. 1 + E (proc_ID q))))"
    by (rule process_calls_ok [OF u p subset_refl ok' _ _ \<open>card (unvisited_ids defs ?s) \<le> bound\<close>])
      (use chain in \<open>auto simp: st capped_def\<close>)
  then obtain n' s1 where s1: "visit_process_calls visit defs p (proc_CallActivities p) (length (proc_UserTasks p)) ?s = Some (n', s1)"
    "search_ok defs E s1" "searched ?s s1" "?R `` {?u} \<subseteq> cg_isCalled s1" "?R `` {?u} \<noteq> {} \<longrightarrow> ?u \<in> cg_calls s1"
    "\<not> cyclic s1 \<longrightarrow> ?R `` {?u} \<subseteq> black s1"
    "size_eq defs E \<longrightarrow> capped n' (length (proc_UserTasks p) + (\<Sum>q\<leftarrow>callees defs p. 1 + E (proc_ID q)))"
    unfolding call_rel_from [OF u p] by auto
  let ?s' = "s1\<lparr>cg_expandedSize := mput ?u n' (cg_expandedSize s1), cg_state := mput ?u Finished (cg_state s1)\<rparr>"
  have g1: "grey s1 = insert ?u (grey s)" using s1(3) by (simp add: searched_def st)
  have u1: "?u \<notin> black s1" using grey_not_black [of s1] g1 by blast
  have st': "grey ?s' = grey s" "black ?s' = insert ?u (black s1)" "cyclic ?s' = cyclic s1"
    using new g1 by (auto simp: grey_def black_def cyclic_def update_conv set_eq_iff)
  have "search_ok defs E ?s'"
  proof -
    have "(?u, ?u) \<notin> ?R\<^sup>+" if "\<not> cyclic s1"
    proof
      assume "(?u, ?u) \<in> ?R\<^sup>+"
      then obtain v where v: "(?u, v) \<in> ?R" "(v, ?u) \<in> ?R\<^sup>*" by (auto dest: tranclD)
      have "w \<in> black s1" if "(v, w) \<in> ?R\<^sup>*" for w
        using that by induction (use s1(2,6) v(1) \<open>\<not> cyclic s1\<close> in \<open>auto simp: search_ok_def\<close>)
      with v(2) u1 show False by blast
    qed
    moreover have "capped n' (E ?u)" if "size_eq defs E" using s1(7) that p by (simp add: size_eq_def)
    ultimately show ?thesis using s1(2,4-6) unfolding search_ok_def traced_def st' by auto
  qed
  moreover have "searched s ?s'" using s1(3) by (auto simp: searched_def st' st)
  ultimately show ?thesis using s1(1) st'(2) by (intro exI [of _ ?s']) simp
qed

end

lemma visit_proc_ok:
  "\<lbrakk>unique_ids defs; p \<in> set (defs_Processes defs); search_ok defs E s; proc_ID p \<notin> grey s \<union> black s;
      \<And>g. g \<in> grey s \<Longrightarrow> (g, proc_ID p) \<in> (call_rel defs)\<^sup>*; card (unvisited_ids defs s) \<le> fuel\<rbrakk>
    \<Longrightarrow> \<exists>s'. visit_proc fuel defs p s = Some s' \<and> search_ok defs E s' \<and> searched s s' \<and> proc_ID p \<in> black s'"
proof (induction fuel arbitrary: p s)
  case 0
  then have "proc_ID p \<in> unvisited_ids defs s" by (simp add: unvisited_ids_def)
  moreover have "finite (unvisited_ids defs s)" by (simp add: unvisited_ids_def)
  ultimately show ?case using 0(6) by auto
next
  case (Suc fuel)
  have "call_search defs E (visit_proc fuel defs) fuel" by unfold_locales (rule Suc.IH)
  from call_search.visit_proc_step [OF this Suc.prems] show ?case by simp
qed

interpretation calls: call_search defs E "visit_proc fuel defs" fuel for defs E fuel
  by unfold_locales (rule visit_proc_ok)

subsection \<open>The search returns\<close>

definition seen_ids :: "call_graph \<Rightarrow> string set" where
  "seen_ids s = dom (map_of (cg_state s))"

lemma dom_mput: "dom (map_of (mput k v m)) = insert k (dom (map_of m))"
  unfolding update_conv dom_fun_upd by simp

lemma seen_ids_mput [simp]:
  "seen_ids (s\<lparr>cg_state := mput k v (cg_state s)\<rparr>) = insert k (seen_ids s)"
  "seen_ids (s\<lparr>cg_expandedSize := z, cg_state := mput k v (cg_state s)\<rparr>) = insert k (seen_ids s)"
  "seen_ids (s\<lparr>cg_isCalled := x, cg_calls := y\<rparr>) = seen_ids s" "seen_ids (s\<lparr>cg_isCalled := x, cg_calls := y, cg_errs := e\<rparr>) = seen_ids s"
  unfolding seen_ids_def by (simp_all add: dom_mput)

lemma visit_proc_returns:
  "p \<in> set (defs_Processes defs) \<Longrightarrow> proc_ID p \<notin> seen_ids s \<Longrightarrow> card (proc_ID ` set (defs_Processes defs) - seen_ids s) \<le> fuel \<Longrightarrow>
     \<exists>s'. visit_proc fuel defs p s = Some s' \<and> seen_ids s \<subseteq> seen_ids s'"
proof (induction fuel arbitrary: p s)
  case 0
  then have "proc_ID p \<in> proc_ID ` set (defs_Processes defs) - seen_ids s" by simp
  with 0(3) show ?case by (auto simp: card_eq_0_iff)
next
  case (Suc fuel)
  let ?ids = "proc_ID ` set (defs_Processes defs)"
  have called: "\<exists>s'. visit_called (visit_proc fuel defs) p ca q s = Some s' \<and> seen_ids s \<subseteq> seen_ids s'"
    if "q \<in> set (defs_Processes defs)" "card (?ids - seen_ids s) \<le> fuel" for ca q s
    using Suc.IH [OF that(1), of "s\<lparr>cg_isCalled := insert (proc_ID q) (cg_isCalled s), cg_calls := insert (proc_ID p) (cg_calls s)\<rparr>"] that(2)
    by (auto simp: visit_called_def Let_def seen_ids_def domIff split: option.split visit_state.split)
  have all: "card (?ids - seen_ids s) \<le> fuel \<Longrightarrow>
      \<exists>n' s'. visit_process_calls (visit_proc fuel defs) defs p cas n s = Some (n', s') \<and> seen_ids s \<subseteq> seen_ids s'" for cas n s
  proof (induction cas arbitrary: n s)
    case (Cons ca cas)
    show ?case
    proof (cases "\<exists>q. calledProcess defs ca = Some q \<and> \<not> IsIgnored p")
      case True
      then obtain q where q: "calledProcess defs ca = Some q" "\<not> IsIgnored p" by blast
      from called [OF calledProcess_mem [OF q(1)] Cons.prems, of ca] obtain s1
        where s1: "visit_called (visit_proc fuel defs) p ca q s = Some s1" "seen_ids s \<subseteq> seen_ids s1" by blast
      have "card (?ids - seen_ids s1) \<le> card (?ids - seen_ids s)" using s1(2) by (intro card_mono) auto
      with Cons.prems have "card (?ids - seen_ids s1) \<le> fuel" by simp
      from Cons.IH [OF this, of "min (n + 1 + mget_or 0 (cg_expandedSize s1) (proc_ID q)) (maxUserTasks + 1)"] s1 q show ?thesis by auto
    next
      case False
      then have "visit_process_calls (visit_proc fuel defs) defs p (ca # cas) n s = visit_process_calls (visit_proc fuel defs) defs p cas n s"
        by (auto split: option.split)
      with Cons.IH [OF Cons.prems] show ?thesis by simp
    qed
  qed simp
  let ?s = "s\<lparr>cg_state := mput (proc_ID p) OnChain (cg_state s)\<rparr>"
  have "card (?ids - seen_ids ?s) < card (?ids - seen_ids s)"
    using Suc.prems(1,2) by (intro psubset_card_mono) auto
  with Suc.prems(3) have "card (?ids - seen_ids ?s) \<le> fuel" by simp
  from all [OF this, of "proc_CallActivities p" "length (proc_UserTasks p)"] show ?case by auto
qed

lemma unvisited_fuel: "card (proc_ID ` set (defs_Processes defs) - V) \<le> Suc (length (defs_Processes defs))"
proof -
  have "card (proc_ID ` set (defs_Processes defs) - V) \<le> card (proc_ID ` set (defs_Processes defs))" by (intro card_mono) auto
  also have "\<dots> \<le> length (defs_Processes defs)" by (metis card_length length_map set_map)
  finally show ?thesis by simp
qed

lemma visit_all_returns:
  "set ps \<subseteq> set (defs_Processes defs) \<Longrightarrow> \<exists>s'. visit_all (Suc (length (defs_Processes defs))) defs ps s = Some s'"
proof (induction ps arbitrary: s)
  case (Cons p ps)
  from Cons.prems visit_proc_returns [of p defs s, OF _ _ unvisited_fuel] Cons.IH show ?case
    by (auto simp: seen_ids_def domIff simp del: visit_proc.simps)
qed simp

lemma ValidateCallGraph_returns: "\<exists>errs. ValidateCallGraph defs = Some errs"
  using visit_all_returns [OF subset_refl, of defs] by (auto simp: ValidateCallGraph_def)

subsection \<open>What it reports\<close>

lemma visit_all_ok:
  assumes u: "unique_ids defs"
  shows "set ps \<subseteq> set (defs_Processes defs) \<Longrightarrow> search_ok defs E s \<Longrightarrow> grey s = {} \<Longrightarrow>
    visit_all (Suc (length (defs_Processes defs))) defs ps s = Some s' \<Longrightarrow>
    search_ok defs E s' \<and> searched s s' \<and> proc_ID ` set ps \<subseteq> black s'"
proof (induction ps arbitrary: s)
  case (Cons p ps)
  have fuel: "card (unvisited_ids defs s) \<le> Suc (length (defs_Processes defs))" unfolding unvisited_ids_def by (rule unvisited_fuel)
  show ?case
  proof (cases "map_of (cg_state s) (proc_ID p) = None")
    case True
    have p: "p \<in> set (defs_Processes defs)" using Cons.prems(1) by simp
    from True state_cases [of s "proc_ID p"] have new: "proc_ID p \<notin> grey s \<union> black s" by blast
    have chain: "(g, proc_ID p) \<in> (call_rel defs)\<^sup>*" if "g \<in> grey s" for g using that Cons.prems(3) by blast
    from visit_proc_ok [OF u p Cons.prems(2) new chain fuel] obtain s1 where s1: "visit_proc (Suc (length (defs_Processes defs))) defs p s = Some s1"
      "search_ok defs E s1" "searched s s1" "proc_ID p \<in> black s1" by blast
    have "grey s1 = {}" using s1(3) Cons.prems(3) by (simp add: searched_def)
    with Cons.IH [OF _ s1(2)] Cons.prems(1,4) True s1(1)
    have "search_ok defs E s' \<and> searched s1 s' \<and> proc_ID ` set ps \<subseteq> black s'" by (simp del: visit_proc.simps)
    with searched_trans [OF s1(3), of s'] s1(4) show ?thesis by (auto simp: searched_def [of s1])
  next
    case False
    with state_cases [of s "proc_ID p"] Cons.prems(3) have "proc_ID p \<in> black s" by blast
    moreover have "visit_all (Suc (length (defs_Processes defs))) defs ps s = Some s'"
      using False Cons.prems(4) by (simp del: visit_proc.simps split: if_splits)
    with Cons.IH [OF _ Cons.prems(2,3)] Cons.prems(1)
    have "search_ok defs E s' \<and> searched s s' \<and> proc_ID ` set ps \<subseteq> black s'" by simp
    ultimately show ?thesis by (auto simp: searched_def)
  qed
qed simp

lemma start_errs: "e \<in> set (cg_errs (graph_start defs)) \<Longrightarrow> be_Code e = BPMNErrDuplicateProcessID"
  using unique_id_code [of e "defs_Processes defs" "[]"]
  by (cases e) (auto simp: graph_start_def validateUniqueProcessIDs_def)

lemma call_graph_searched:
  assumes u: "unique_ids defs" and r: "ValidateCallGraph defs = Some errs"
  obtains s where "errs = cg_errs s @ validatePlanNameClash defs (cg_isCalled s) @ validateExpandedSize defs s"
    "search_ok defs E s" "proc_ID ` set (defs_Processes defs) \<subseteq> black s" "searched (graph_start defs) s"
proof -
  let ?s = "graph_start defs"
  from r obtain s where s: "visit_all (Suc (length (defs_Processes defs))) defs (defs_Processes defs) ?s = Some s"
    "errs = cg_errs s @ validatePlanNameClash defs (cg_isCalled s) @ validateExpandedSize defs s"
    by (auto simp: ValidateCallGraph_def)
  have st: "grey ?s = {}" "black ?s = {}" by (simp_all add: graph_start_def grey_def black_def)
  moreover have "\<not> cyclic ?s" using start_errs [of _ defs] by (fastforce simp: cyclic_def)
  moreover from this have "search_ok defs E ?s" unfolding search_ok_def traced_def st by (simp add: graph_start_def)
  ultimately show ?thesis using visit_all_ok [OF u subset_refl _ _ s(1), of E] s(2) that by blast
qed

lemma call_cycles_reported:
  assumes u: "unique_ids defs" and r: "ValidateCallGraph defs = Some errs"
  shows "(\<exists>e \<in> set errs. be_Code e = BPMNErrCalledElementCycle) \<longleftrightarrow> (\<exists>u. (u, u) \<in> (call_rel defs)\<^sup>+)"
proof -
  from call_graph_searched [OF u r] obtain s where s: "errs = cg_errs s @ validatePlanNameClash defs (cg_isCalled s) @ validateExpandedSize defs s"
    "search_ok defs (\<lambda>_. 0) s" "proc_ID ` set (defs_Processes defs) \<subseteq> black s" by blast
  have "(\<exists>e \<in> set errs. be_Code e = BPMNErrCalledElementCycle) \<longleftrightarrow> cyclic s"
    unfolding s(1) cyclic_def validatePlanNameClash_def validateExpandedSize_def by (auto split: if_splits)
  moreover have "u \<in> black s" if "(u, u) \<in> (call_rel defs)\<^sup>+" for u
    using that s(3) by (auto dest!: tranclD simp: call_rel_def)
  ultimately show ?thesis using s(2) unfolding search_ok_def by blast
qed

lemma call_sizes_reported:
  assumes u: "unique_ids defs" and r: "ValidateCallGraph defs = Some errs" and E: "size_eq defs E"
  shows "err_of BPMNErrTaskLimitExceeded n \<in> set errs \<longleftrightarrow>
    n \<in> proc_ID ` set (defs_Processes defs) \<and> n \<in> Domain (call_rel defs) - Range (call_rel defs) \<and> maxUserTasks < E n"
proof -
  from call_graph_searched [OF u r] obtain s where s: "errs = cg_errs s @ validatePlanNameClash defs (cg_isCalled s) @ validateExpandedSize defs s"
    "search_ok defs E s" "proc_ID ` set (defs_Processes defs) \<subseteq> black s" "searched (graph_start defs) s" by blast
  have traced: "cg_isCalled s = Range (call_rel defs)" "cg_calls s = Domain (call_rel defs)"
  proof -
    have dom: "Domain (call_rel defs) \<subseteq> black s" using s(3) by (auto simp: call_rel_def)
    then show "cg_isCalled s = Range (call_rel defs)" "cg_calls s = Domain (call_rel defs)"
      using s(2) unfolding search_ok_def traced_def by blast+
  qed
  have "maxUserTasks < mget_or 0 (cg_expandedSize s) n \<longleftrightarrow> maxUserTasks < E n" if "n \<in> proc_ID ` set (defs_Processes defs)"
  proof -
    have "capped (mget_or 0 (cg_expandedSize s) n) (E n)" using s(2,3) E that by (auto simp: search_ok_def)
    then show ?thesis by (auto simp: capped_def min_def split: if_splits)
  qed
  moreover have "err_of BPMNErrTaskLimitExceeded n \<notin> set (cg_errs s)"
    using s(4) start_errs [of "err_of BPMNErrTaskLimitExceeded n" defs] by (auto simp: searched_def)
  ultimately show ?thesis
    unfolding s(1) validatePlanNameClash_def validateExpandedSize_def by (auto simp: traced not_le split: if_splits)
qed

end
