(* ===== verification/Validate_All.thy ===== *)
theory Validate_All
  imports Call_Graph_Correct
begin

text \<open>
  The validators put together: \<open>validator/validator.go\<close> with the handlers of \<open>DefaultElementHandlers\<close>, whose
  sub-process handler validates the body in turn (\<open>SubProcToProcess\<close> leaves the body's own sub-processes out), and \<open>ValidateCalledBodies\<close> of \<open>validator/call_graph.go\<close>.
\<close>

subsection \<open>validator.go\<close>

definition AnchorOn :: "string \<Rightarrow> BPMNValidationError list \<Rightarrow> BPMNValidationError list" where
  "AnchorOn nodeID errs = map (\<lambda>e. if be_NodeID e = [] then e\<lparr>be_NodeID := nodeID\<rparr> else e) errs"

text \<open>\<open>validate\<close> is \<open>Validate\<close>, which the handler of sub-processes calls on the body.\<close>

definition SubProcessHandler_Validate :: "(BPMNSubProcess \<Rightarrow> BPMNValidationError list option) \<Rightarrow> string \<Rightarrow> BPMNProcess
    \<Rightarrow> BPMNValidationError list option" where
  "SubProcessHandler_Validate validate nodeID proc =
     (case FindSubProcess proc nodeID of None \<Rightarrow> Some [] | Some sp \<Rightarrow> map_option (AnchorOn (sp_ID sp)) (validate sp))"

definition task_errs :: "validator_env \<Rightarrow> BPMNProcess \<Rightarrow> Graph \<Rightarrow> BPMNDefinitions \<Rightarrow> BPMNValidationError list" where
  "task_errs V proc g defs =
     (let laneRefs = BuildLaneRefSet proc; skipped = SkippedTasks proc g
      in concat (map (\<lambda>t. if ut_ID t \<in> skipped then []
             else UserTaskHandler_Validate (vx_uuid V) (vx_connectors V) (ut_ID t) proc (Some defs) (set (mkeys (vx_stageTypes V))))
           (proc_UserTasks proc)) @
         concat (map (\<lambda>t. if st_ID t \<in> skipped then []
             else validateOptionalTaskMembership (vx_uuid V) (st_ID t) (st_ExtensionElements t) proc laneRefs (Some defs))
           (proc_SendTasks proc)) @
         concat (map (\<lambda>t. if rt_ID t \<in> skipped then []
             else validateOptionalTaskMembership (vx_uuid V) (rt_ID t) (rt_ExtensionElements t) proc laneRefs (Some defs))
           (proc_ReceiveTasks proc)) @
         concat (map (\<lambda>ca. ValidateLaneMembership (ca_ID ca) laneRefs) (proc_CallActivities proc)))"

definition validatePerElement :: "validator_env \<Rightarrow> (BPMNSubProcess \<Rightarrow> BPMNValidationError list option) \<Rightarrow> BPMNProcess \<Rightarrow> Graph
    \<Rightarrow> BPMNDefinitions \<Rightarrow> BPMNValidationError list option" where
  "validatePerElement V validate proc g defs =
     map_option (\<lambda>subs. task_errs V proc g defs @ subs @
         concat (map (\<lambda>ca. CallActivityHandler_Validate V (ca_ID ca) proc defs) (proc_CallActivities proc)))
       (collect (\<lambda>sp. map_option (\<lambda>errs. ValidateLaneMembership (sp_ID sp) (BuildLaneRefSet proc) @ errs)
          (SubProcessHandler_Validate validate (sp_ID sp) proc)) (proc_SubProcesses proc))"

definition validator_back_edges :: "BPMNProcess \<Rightarrow> Graph \<Rightarrow> string \<Rightarrow> edges" where
  "validator_back_edges proc g implicitStart =
     (case proc_StartEvents proc of
        e # _ \<Rightarrow> ProcessBackEdges proc g (ev_ID e)
      | [] \<Rightarrow> if implicitStart \<noteq> [] then ProcessBackEdges proc g implicitStart else {})"

definition shape_errs :: "validator_env \<Rightarrow> BPMNProcess \<Rightarrow> Graph \<Rightarrow> string \<Rightarrow> BPMNValidationError list" where
  "shape_errs V proc g implicitStart =
     ValidateLaneNames (vx_callSep V) (vx_toLower V) proc @ ValidateNoNestedSubProcess proc @ ValidateDuplicateIDs proc @
     ValidateTaskSchedules proc @ ValidateSeqFlowRefs proc g @ ValidateDanglingNodes proc g implicitStart @
     ValidateReachability proc g implicitStart"

definition flow_errs :: "validator_env \<Rightarrow> BPMNProcess \<Rightarrow> Graph \<Rightarrow> edges \<Rightarrow> BPMNDefinitions \<Rightarrow> BPMNValidationError list option" where
  "flow_errs V proc g B defs =
     Option.bind (ValidateLoops g (vx_order V B)) (\<lambda>loops.
     map_option (\<lambda>gateways.
         loops @ ValidateRevertTargets proc g (vx_order V B) @ gateways @ ValidateSingleOutgoing proc g B @
         ValidateConditionExprs (vx_condition V) proc g B @ ValidateBoundaryEvents (vx_duration V) proc g B @
         ValidateMessageBoundaryNames proc defs @ ValidateErrorBoundaryRefs proc defs @ ValidateIgnoredLanes proc g B)
       (ValidateGatewayMatching proc g B))"

lemma collect_cong [fundef_cong]:
  "xs = ys \<Longrightarrow> (\<And>x. x \<in> set ys \<Longrightarrow> f x = h x) \<Longrightarrow> collect f xs = collect h ys"
  by (induction ys arbitrary: xs) auto

lemma FindSubProcess_mem: "FindSubProcess proc n = Some sp \<Longrightarrow> sp \<in> set (proc_SubProcesses proc)"
  by (auto simp: FindSubProcess_def find_Some_iff)

lemma SubProcessHandler_cong:
  "(\<And>sp. sp \<in> set (proc_SubProcesses proc) \<Longrightarrow> f sp = h sp) \<Longrightarrow> SubProcessHandler_Validate f n proc = SubProcessHandler_Validate h n proc"
  by (auto simp: SubProcessHandler_Validate_def dest: FindSubProcess_mem split: option.split)

lemma validatePerElement_cong [fundef_cong]:
  "V = V' \<Longrightarrow> proc = proc' \<Longrightarrow> g = g' \<Longrightarrow> defs = defs' \<Longrightarrow> (\<And>sp. sp \<in> set (proc_SubProcesses proc') \<Longrightarrow> f sp = h sp) \<Longrightarrow>
     validatePerElement V f proc g defs = validatePerElement V' h proc' g' defs'"
  unfolding validatePerElement_def using SubProcessHandler_cong [of proc' f h] by simp

function ValidateWithImplicitStart :: "validator_env \<Rightarrow> BPMNDefinitions \<Rightarrow> BPMNProcess \<Rightarrow> Graph \<Rightarrow> string
    \<Rightarrow> BPMNValidationError list option" where
  "ValidateWithImplicitStart V defs proc g implicitStart =
     (let B = validator_back_edges proc g implicitStart;
          counts = ValidateCounts proc implicitStart;
          depth = validateMaxDepthFrom proc g B implicitStart
      in if depth \<noteq> [] then Some (counts @ depth)
         else Option.bind (flow_errs V proc g B defs) (\<lambda>flow.
           map_option (\<lambda>elements. counts @ shape_errs V proc g implicitStart @ flow @ elements)
             (validatePerElement V
               (\<lambda>sp. ValidateWithImplicitStart V defs (SubProcToProcess sp) (BuildGraph (SubProcToProcess sp)) []) proc g defs)))"
  by pat_completeness auto

termination
  by (relation "measure (\<lambda>(V, defs, proc, g, implicitStart). length (proc_SubProcesses proc))")
     (auto simp: SubProcToProcess_def)

declare ValidateWithImplicitStart.simps [simp del]

definition Validate :: "validator_env \<Rightarrow> BPMNDefinitions \<Rightarrow> BPMNProcess \<Rightarrow> BPMNValidationError list option" where
  "Validate V defs proc = ValidateWithImplicitStart V defs proc (BuildGraph proc) []"

end
