(* ===== verification/Validate_Bodies.thy ===== *)
theory Validate_Bodies
  imports Validate_All
begin

text \<open>
  \<open>ValidateCalledBodies\<close> of \<open>validator/call_graph.go\<close>: the bodies of the processes that the root calls, directly or not,
  are validated once each, and the errors of a library process are shown at the calls that lead to it.  The walk
  collects the bodies first and validates them after it, in the same order.  A route is the call that it starts with;
  its path is only text.  The recursion of \<open>routes\<close> has fuel, one unit per nested call.
\<close>

subsection \<open>The walk\<close>

record body_walk =
  bw_visited :: "string set"
  bw_order :: "BPMNProcess list"
  bw_callers :: "(string, (string \<times> string) list) gomap"
  bw_queue :: "BPMNProcess list"

definition body_call :: "BPMNDefinitions \<Rightarrow> BPMNProcess \<Rightarrow> BPMNCallActivity \<Rightarrow> body_walk \<Rightarrow> body_walk" where
  "body_call defs p ca w =
     (case calledProcess defs ca of
        None \<Rightarrow> w
      | Some called \<Rightarrow>
          if proc_StartEvents called = [] then w
          else
            let w = w\<lparr>bw_callers := mappend (proc_ID called) (proc_ID p, ca_ID ca) (bw_callers w)\<rparr>
            in if proc_ID called \<in> bw_visited w then w
               else w\<lparr>bw_visited := insert (proc_ID called) (bw_visited w), bw_order := bw_order w @ [called],
                      bw_queue := bw_queue w @ [called]\<rparr>)"

definition body_step :: "BPMNDefinitions \<Rightarrow> BPMNProcess \<Rightarrow> body_walk \<Rightarrow> body_walk" where
  "body_step defs p w = fold (body_call defs p) (proc_CallActivities p) w"

abbreviation ids_of :: "BPMNDefinitions \<Rightarrow> string set" where
  "ids_of defs \<equiv> proc_ID ` set (defs_Processes defs)"

text \<open>What a round adds to the queue it has also added to the visited processes.\<close>

lemma body_call_grows:
  "bw_visited w \<subseteq> bw_visited (body_call defs p ca w) \<and>
   (bw_visited (body_call defs p ca w) = bw_visited w \<longrightarrow> bw_queue (body_call defs p ca w) = bw_queue w) \<and>
   bw_visited (body_call defs p ca w) \<subseteq> bw_visited w \<union> ids_of defs"
  by (auto simp: body_call_def Let_def dest: calledProcess_mem split: option.split)

lemma body_step_grows:
  "bw_visited w \<subseteq> bw_visited (body_step defs p w) \<and>
   (bw_visited (body_step defs p w) = bw_visited w \<longrightarrow> bw_queue (body_step defs p w) = bw_queue w) \<and>
   bw_visited (body_step defs p w) \<subseteq> bw_visited w \<union> ids_of defs"
proof -
  have "bw_visited w \<subseteq> bw_visited (fold (body_call defs p) cas w) \<and>
   (bw_visited (fold (body_call defs p) cas w) = bw_visited w \<longrightarrow> bw_queue (fold (body_call defs p) cas w) = bw_queue w) \<and>
   bw_visited (fold (body_call defs p) cas w) \<subseteq> bw_visited w \<union> ids_of defs" for cas
  proof (induction cas arbitrary: w)
    case (Cons ca cas)
    from Cons.IH [of "body_call defs p ca w"] body_call_grows [of w defs p ca] show ?case by auto
  qed simp
  then show ?thesis unfolding body_step_def .
qed

function body_run :: "BPMNDefinitions \<Rightarrow> body_walk \<Rightarrow> body_walk" where
  "body_run defs w =
     (case bw_queue w of [] \<Rightarrow> w | p # rest \<Rightarrow> body_run defs (body_step defs p (w\<lparr>bw_queue := rest\<rparr>)))"
  by pat_completeness auto
termination
proof (relation "measures [\<lambda>(defs, w). card (ids_of defs - bw_visited w), \<lambda>(defs, w). length (bw_queue w)]", goal_cases)
  case (2 defs w p rest)
  let ?w = "body_step defs p (w\<lparr>bw_queue := rest\<rparr>)"
  note g = body_step_grows [of "w\<lparr>bw_queue := rest\<rparr>" defs p]
  show ?case
  proof (cases "bw_visited ?w = bw_visited w")
    case True
    with g 2 show ?thesis by simp
  next
    case False
    with g have "ids_of defs - bw_visited ?w \<subset> ids_of defs - bw_visited w" by auto
    then have "card (ids_of defs - bw_visited ?w) < card (ids_of defs - bw_visited w)" by (intro psubset_card_mono) auto
    then show ?thesis by simp
  qed
qed simp

declare body_run.simps [simp del]

definition body_start :: "BPMNProcess \<Rightarrow> body_walk" where
  "body_start root = \<lparr>bw_visited = {proc_ID root}, bw_order = [], bw_callers = [], bw_queue = [root]\<rparr>"

subsection \<open>Routes\<close>

type_synonym route_memo = "(string, string list) gomap"

definition add_route :: "string \<Rightarrow> string list \<Rightarrow> string list" where
  "add_route call found = (if call \<in> set found then found else found @ [call])"

fun route_loop :: "(string \<Rightarrow> route_memo \<Rightarrow> (string list \<times> bool \<times> route_memo) option) \<Rightarrow> (string \<Rightarrow> bool) \<Rightarrow> (string \<times> string) list
    \<Rightarrow> route_memo \<Rightarrow> string list \<Rightarrow> bool \<Rightarrow> (string list \<times> bool \<times> route_memo) option" where
  "route_loop rec library [] memo found complete = Some (found, complete, memo)"
| "route_loop rec library ((process, call) # cs) memo found complete =
     (if \<not> library process then route_loop rec library cs memo (add_route call found) complete
      else Option.bind (rec process memo) (\<lambda>(parents, whole, memo).
        route_loop rec library cs memo (fold add_route parents found) (complete \<and> whole)))"

fun body_routes :: "nat \<Rightarrow> (string \<Rightarrow> bool) \<Rightarrow> (string, (string \<times> string) list) gomap \<Rightarrow> string set \<Rightarrow> string \<Rightarrow> route_memo
    \<Rightarrow> (string list \<times> bool \<times> route_memo) option" where
  "body_routes 0 library callers visiting nid memo = None"
| "body_routes (Suc fuel) library callers visiting nid memo =
     (case map_of memo nid of
        Some routes \<Rightarrow> Some (routes, True, memo)
      | None \<Rightarrow>
          if nid \<in> visiting then Some ([], False, memo)
          else map_option (\<lambda>(found, complete, memo). (found, complete, if complete then mput nid found memo else memo))
            (route_loop (body_routes fuel library callers (insert nid visiting)) library (mget_or [] callers nid) memo [] True))"

fun attributed_errs :: "nat \<Rightarrow> (string \<Rightarrow> bool) \<Rightarrow> (string, (string \<times> string) list) gomap \<Rightarrow> (string \<times> BPMNValidationError list) list
    \<Rightarrow> route_memo \<Rightarrow> BPMNValidationError list option" where
  "attributed_errs fuel library callers [] memo = Some []"
| "attributed_errs fuel library callers ((nid, own) # rest) memo =
     (if \<not> library nid then map_option (\<lambda>errs. own @ errs) (attributed_errs fuel library callers rest memo)
      else Option.bind (body_routes fuel library callers {} nid memo) (\<lambda>(routes, _, memo).
        map_option (\<lambda>errs. concat (map (\<lambda>call. map (\<lambda>e. e\<lparr>be_NodeID := call\<rparr>) own) routes) @ errs)
          (attributed_errs fuel library callers rest memo)))"

definition library_of :: "BPMNDefinitions \<Rightarrow> string \<Rightarrow> bool" where
  "library_of defs nid = mget_or False (fold (\<lambda>p. mput (proc_ID p) (proc_LibraryModule p)) (defs_Processes defs) []) nid"

definition route_fuel :: "BPMNDefinitions \<Rightarrow> nat" where
  "route_fuel defs = length (defs_Processes defs) + 2"

definition validated_bodies :: "validator_env \<Rightarrow> BPMNDefinitions \<Rightarrow> BPMNProcess list \<Rightarrow> (string \<times> BPMNValidationError list) list option" where
  "validated_bodies V defs order =
     those (map (\<lambda>q. map_option (\<lambda>errs. (proc_ID q, AnchorOn (proc_ID q) errs)) (Validate V defs q)) order)"

definition ValidateCalledBodies :: "validator_env \<Rightarrow> BPMNDefinitions \<Rightarrow> BPMNProcess \<Rightarrow> BPMNValidationError list option" where
  "ValidateCalledBodies V defs root =
     (let w = body_run defs (body_start root)
      in Option.bind (validated_bodies V defs (bw_order w)) (\<lambda>own.
           attributed_errs (route_fuel defs) (library_of defs) (bw_callers w) own []))"

end
