(* ===== verification/Validate_Sound.thy ===== *)
theory Validate_Sound
  imports Plan_Fuel Validate_Bodies
begin

text \<open>
  What the validators establish for the plan compiler: validation returns on what the parser lets through, and where
  it finds no error that blocks, the root and every process below it are sound.
\<close>

subsection \<open>Validation returns\<close>

definition flows_ok :: "BPMNProcess \<Rightarrow> bool" where
  "flows_ok p \<longleftrightarrow> flows_named p \<and> (\<forall>sp \<in> set (proc_SubProcesses p). flows_named (SubProcToProcess sp))"

lemma flows_ok_normalised: "flows_ok (normalise_process p)"
proof -
  have "flows_named (normalise_process p)" using flows_normalise_process [of _ p] by (auto simp: flows_named_def)
  moreover have "flows_named (SubProcToProcess (normalise_sub sp))" for sp
    by (cases sp) (auto simp: flows_named_def SubProcToProcess_def stripEmptyRefFlows_def)
  ultimately show ?thesis by (auto simp: flows_ok_def normalise_process_def)
qed

lemma flow_errs_returns: "flows_named p \<Longrightarrow> \<exists>errs. flow_errs V p (BuildGraph p) B defs = Some errs"
proof -
  assume "flows_named p"
  then have g: "named (BuildGraph p)" "[] \<notin> set (mkeys (g_Outgoing (BuildGraph p)))"
    using named_BuildGraph [of p] by (auto simp: flows_named_def)
  from ValidateGatewayMatching_correct [OF g, of p B] obtain es where "ValidateGatewayMatching p (BuildGraph p) B = Some es" by blast
  moreover from TarjanSCC_returns [of "BuildGraph p"] obtain ls where "ValidateLoops (BuildGraph p) (vx_order V B) = Some ls"
    by (auto simp: ValidateLoops_def)
  ultimately show ?thesis by (simp add: flow_errs_def)
qed

lemma collect_returns: "(\<And>x. x \<in> set xs \<Longrightarrow> \<exists>y. f x = Some y) \<Longrightarrow> \<exists>ys. collect f xs = Some ys"
  by (induction xs) force+

lemma validatePerElement_returns:
  assumes "\<And>sp. sp \<in> set (proc_SubProcesses p) \<Longrightarrow> \<exists>errs. validate sp = Some errs"
  shows "\<exists>errs. validatePerElement V validate p g defs = Some errs"
proof -
  have "\<exists>errs. SubProcessHandler_Validate validate n p = Some errs" for n
    using assms by (auto simp: SubProcessHandler_Validate_def dest: FindSubProcess_mem split: option.split)
  then have "\<exists>ys. collect (\<lambda>sp. map_option (\<lambda>errs. ValidateLaneMembership (sp_ID sp) (BuildLaneRefSet p) @ errs)
          (SubProcessHandler_Validate validate (sp_ID sp) p)) (proc_SubProcesses p) = Some ys"
    by (intro collect_returns) auto
  then show ?thesis by (auto simp: validatePerElement_def)
qed

lemma ValidateWithImplicitStart_returns: "flows_ok p \<Longrightarrow> \<exists>errs. ValidateWithImplicitStart V defs p (BuildGraph p) start = Some errs"
proof -
  have step: "\<exists>errs. ValidateWithImplicitStart V defs p (BuildGraph p) start = Some errs" if "flows_named p"
    "\<And>sp. sp \<in> set (proc_SubProcesses p) \<Longrightarrow>
       \<exists>errs. ValidateWithImplicitStart V defs (SubProcToProcess sp) (BuildGraph (SubProcToProcess sp)) [] = Some errs" for p start
    using flow_errs_returns [OF that(1), of V "validator_back_edges p (BuildGraph p) start" defs]
      validatePerElement_returns [of p "\<lambda>sp. ValidateWithImplicitStart V defs (SubProcToProcess sp) (BuildGraph (SubProcToProcess sp)) []" V
        "BuildGraph p" defs, OF that(2)]
    by (subst ValidateWithImplicitStart.simps) (auto simp: Let_def)
  assume p: "flows_ok p"
  show ?thesis
  proof (rule step)
    show "flows_named p" using p by (simp add: flows_ok_def)
    fix sp assume "sp \<in> set (proc_SubProcesses p)"
    with p have sp: "flows_named (SubProcToProcess sp)" by (simp add: flows_ok_def)
    show "\<exists>errs. ValidateWithImplicitStart V defs (SubProcToProcess sp) (BuildGraph (SubProcToProcess sp)) [] = Some errs"
      by (rule step [OF sp]) (simp add: SubProcToProcess_def)
  qed
qed

lemma Validate_returns: "flows_ok p \<Longrightarrow> \<exists>errs. Validate V defs p = Some errs"
  unfolding Validate_def by (rule ValidateWithImplicitStart_returns)

subsection \<open>What no blocking error means\<close>

lemma hasBlocking_append [simp]: "hasBlockingErrors (xs @ ys) \<longleftrightarrow> hasBlockingErrors xs \<or> hasBlockingErrors ys"
  by (auto simp: hasBlockingErrors_def)

lemma hasBlocking_AnchorOn [simp]: "hasBlockingErrors (AnchorOn n errs) \<longleftrightarrow> hasBlockingErrors errs"
  by (induction errs) (auto simp: hasBlockingErrors_def AnchorOn_def)

lemma hasBlocking_renamed: "hasBlockingErrors (map (\<lambda>e. e\<lparr>be_NodeID := call\<rparr>) errs) \<longleftrightarrow> hasBlockingErrors errs"
  by (induction errs) (auto simp: hasBlockingErrors_def)

lemma hasBlocking_concat: "hasBlockingErrors (concat xss) \<longleftrightarrow> (\<exists>xs \<in> set xss. hasBlockingErrors xs)"
  by (auto simp: hasBlockingErrors_def)

lemma hasBlocking_err [simp]: "hasBlockingErrors (err_of c n # errs)" "\<not> hasBlockingErrors []"
  by (auto simp: hasBlockingErrors_def)

definition accepted :: "validator_env \<Rightarrow> BPMNDefinitions \<Rightarrow> BPMNProcess \<Rightarrow> bool" where
  "accepted V defs p \<longleftrightarrow> (\<exists>start errs. ValidateWithImplicitStart V defs p (BuildGraph p) start = Some errs \<and> \<not> hasBlockingErrors errs)"

lemma collect_mem: "collect f xs = Some ys \<Longrightarrow> x \<in> set xs \<Longrightarrow> \<exists>zs. f x = Some zs \<and> set zs \<subseteq> set ys"
  by (induction xs arbitrary: ys) (force simp: bind_eq_Some_conv)+

lemma accepted_parts:
  assumes "accepted V defs p"
  obtains start where "\<not> hasBlockingErrors (shape_errs V p (BuildGraph p) start)"
    "\<And>ca. ca \<in> set (proc_CallActivities p) \<Longrightarrow> \<not> hasBlockingErrors (CallActivityHandler_Validate V (ca_ID ca) p defs)"
    "\<And>sp. sp \<in> set (proc_SubProcesses p) \<Longrightarrow> FindSubProcess p (sp_ID sp) = Some sp \<Longrightarrow> accepted V defs (SubProcToProcess sp)"
proof -
  from assms obtain start errs where r: "ValidateWithImplicitStart V defs p (BuildGraph p) start = Some errs" "\<not> hasBlockingErrors errs"
    by (auto simp: accepted_def)
  let ?B = "validator_back_edges p (BuildGraph p) start"
  let ?sub = "\<lambda>sp. ValidateWithImplicitStart V defs (SubProcToProcess sp) (BuildGraph (SubProcToProcess sp)) []"
  have "\<not> hasBlockingErrors (validateMaxDepthFrom p (BuildGraph p) ?B start) \<longrightarrow> validateMaxDepthFrom p (BuildGraph p) ?B start = []"
    by (auto simp: validateMaxDepthFrom_def AppendErr_def Let_def)
  with r obtain flow elements where e: "flow_errs V p (BuildGraph p) ?B defs = Some flow"
    "validatePerElement V ?sub p (BuildGraph p) defs = Some elements"
    "\<not> hasBlockingErrors (shape_errs V p (BuildGraph p) start)" "\<not> hasBlockingErrors elements"
    unfolding ValidateWithImplicitStart.simps [of V defs p] by (auto simp: Let_def bind_eq_Some_conv split: if_splits)
  from e(2) obtain subs where subs: "collect (\<lambda>sp. map_option (\<lambda>errs. ValidateLaneMembership (sp_ID sp) (BuildLaneRefSet p) @ errs)
          (SubProcessHandler_Validate ?sub (sp_ID sp) p)) (proc_SubProcesses p) = Some subs"
    "elements = task_errs V p (BuildGraph p) defs @ subs @
       concat (map (\<lambda>ca. CallActivityHandler_Validate V (ca_ID ca) p defs) (proc_CallActivities p))"
    by (auto simp: validatePerElement_def)
  show ?thesis
  proof (rule that)
    show "\<not> hasBlockingErrors (shape_errs V p (BuildGraph p) start)" by (rule e(3))
    show "\<not> hasBlockingErrors (CallActivityHandler_Validate V (ca_ID ca) p defs)" if "ca \<in> set (proc_CallActivities p)" for ca
      using e(4) that unfolding subs(2) by (auto simp: hasBlocking_concat)
    fix sp assume sp: "sp \<in> set (proc_SubProcesses p)" "FindSubProcess p (sp_ID sp) = Some sp"
    from collect_mem [OF subs(1) sp(1)] sp(2) obtain errs where "?sub sp = Some errs" "set (AnchorOn (sp_ID sp) errs) \<subseteq> set subs"
      by (auto simp: SubProcessHandler_Validate_def)
    moreover from this(2) e(4) have "\<not> hasBlockingErrors (AnchorOn (sp_ID sp) errs)" unfolding subs(2) by (auto simp: hasBlockingErrors_def)
    ultimately show "accepted V defs (SubProcToProcess sp)" unfolding accepted_def by (intro exI conjI) auto
  qed
qed

subsection \<open>An accepted process is sound\<close>

definition identified :: "BPMNProcess \<Rightarrow> bool" where
  "identified p \<longleftrightarrow> (\<forall>be \<in> set (proc_BoundaryEvents p). bnd_ID be \<noteq> [])"

lemma duplicate_severity: "e \<in> set (ValidateDuplicateIDs p) \<Longrightarrow> be_Severity e = SeverityError"
proof -
  have "e \<in> set (ns_errs (fold note_id ns s)) \<Longrightarrow> e \<in> set (ns_errs s) \<or> be_Severity e = SeverityError" for ns s
    by (induction ns arbitrary: s) (force simp: note_id_simps split: if_splits)+
  from this [of "scope_ids p" note_start] show "e \<in> set (ValidateDuplicateIDs p) \<Longrightarrow> be_Severity e = SeverityError"
    by (auto simp: ValidateDuplicateIDs_def)
qed

lemma no_duplicates:
  assumes "\<not> hasBlockingErrors (ValidateDuplicateIDs p)" "x \<noteq> []"
  shows "count_list (scope_ids p) x \<le> 1"
proof (rule ccontr)
  assume "\<not> count_list (scope_ids p) x \<le> 1"
  with assms(2) ValidateDuplicateIDs_reported(1) [of p] have "x \<in> be_NodeID ` set (ValidateDuplicateIDs p)" by auto
  then obtain e where e: "e \<in> set (ValidateDuplicateIDs p)" by blast
  from duplicate_severity [OF e] e assms(1) show False by (auto simp: hasBlockingErrors_def)
qed

lemma count_list_map_inj: "(\<And>x. x \<in> set xs \<Longrightarrow> count_list (map f xs) (f x) \<le> 1) \<Longrightarrow> inj_on f (set xs)"
proof (induction xs)
  case (Cons a xs)
  have "count_list (map f xs) (f x) \<le> 1" if "x \<in> set xs" for x using Cons.prems [of x] that by (auto split: if_splits)
  with Cons.IH have "inj_on f (set xs)" .
  moreover have "f a \<notin> f ` (set xs - {a})"
  proof
    assume "f a \<in> f ` (set xs - {a})"
    then have "f a \<in> set (map f xs)" by auto
    then have "count_list (map f xs) (f a) > 0" by (metis count_list_0_iff gr0I)
    with Cons.prems [of a] show False by simp
  qed
  ultimately show ?case by (simp add: inj_on_insert)
qed simp

lemma count_list_concat: "x \<in> set xss \<Longrightarrow> count_list x y \<le> count_list (concat xss) y"
  by (induction xss) (auto simp: count_list_append)

lemma sub_event_counted:
  assumes "sp \<in> set (proc_SubProcesses p)" "be \<in> set (sp_BoundaryEvents sp)"
  shows "0 < count_list (concat (map sub_ids (proc_SubProcesses p))) (bnd_ID be)"
proof -
  have "bnd_ID be \<in> set (sub_ids sp)" using assms(2) by (cases sp) auto
  with assms(1) have "bnd_ID be \<in> set (concat (map sub_ids (proc_SubProcesses p)))" by auto
  then show ?thesis by (metis count_list_0_iff gr0I)
qed

lemma dangling_named:
  assumes d: "\<not> hasBlockingErrors (ValidateDanglingNodes p (BuildGraph p) start)" and p: "flows_named p"
  shows "t \<in> set (proc_UserTasks p) \<Longrightarrow> ut_ID t \<noteq> []"
proof
  assume t: "t \<in> set (proc_UserTasks p)" "ut_ID t = []"
  have "[] \<notin> set (mkeys (g_Outgoing (BuildGraph p)))" using p named_BuildGraph [of p] by (auto simp: flows_named_def)
  then have "out (BuildGraph p) [] = []" by (simp add: mget_or_absent)
  with t have "hasBlockingErrors (checkDanglingWithImplicit (ut_ID t) (BuildGraph p) start)"
    by (simp add: checkDanglingWithImplicit_def)
  with d t(1) show False by (auto simp: ValidateDanglingNodes_def hasBlocking_concat)
qed

lemma FindSubProcess_id: "FindSubProcess p n = Some sp \<Longrightarrow> sp \<in> set (proc_SubProcesses p) \<and> sp_ID sp = n"
  unfolding FindSubProcess_def by (auto simp: find_Some_iff intro: nth_mem)

lemma FindCallActivity_id: "FindCallActivity p n = Some ca \<Longrightarrow> ca \<in> set (proc_CallActivities p) \<and> ca_ID ca = n"
  unfolding FindCallActivity_def by (auto simp: find_Some_iff intro: nth_mem)

lemma accepted_sound:
  assumes acc: "accepted V defs p" and flows: "flows_ok p" and ids: "identified p"
  shows "sound_process p"
proof -
  from accepted_parts [OF acc] obtain start where shape: "\<not> hasBlockingErrors (shape_errs V p (BuildGraph p) start)" by metis
  have dup: "count_list (scope_ids p) x \<le> 1" if "x \<noteq> []" for x
    using shape that by (intro no_duplicates) (simp add: shape_errs_def)
  have nested: "\<not> hasBlockingErrors (ValidateNoNestedSubProcess p)"
    and dangling: "\<not> hasBlockingErrors (ValidateDanglingNodes p (BuildGraph p) start)" using shape by (simp_all add: shape_errs_def)
  have "flat_bodies p"
    unfolding flat_bodies_def
  proof
    fix sp assume "sp \<in> set (proc_SubProcesses p)"
    with nested show "sp_CallActivities sp = []"
      by (cases "sp_CallActivities sp") (auto simp: ValidateNoNestedSubProcess_def hasBlocking_concat)
  qed
  moreover have inj: "inj_on bnd_ID (set (proc_BoundaryEvents p))"
  proof (rule count_list_map_inj)
    fix be assume "be \<in> set (proc_BoundaryEvents p)"
    with ids have "bnd_ID be \<noteq> []" by (simp add: identified_def)
    from dup [OF this] show "count_list (map bnd_ID (proc_BoundaryEvents p)) (bnd_ID be) \<le> 1"
      by (simp add: scope_ids_def count_list_append)
  qed
  moreover have "task_event_ids p \<inter> hosted_ids p UNIV = {}"
  proof (rule ccontr)
    assume "task_event_ids p \<inter> hosted_ids p UNIV \<noteq> {}"
    then obtain be where be: "be \<in> set (proc_BoundaryEvents p)" "bnd_ID be \<in> task_event_ids p"
      "FindSubProcess p (bnd_AttachedToRef be) \<noteq> None \<or> FindCallActivity p (bnd_AttachedToRef be) \<noteq> None"
      by (auto simp: hosted_ids_def)
    from be(1) ids have name: "bnd_ID be \<noteq> []" by (simp add: identified_def)
    have here: "0 < count_list (map bnd_ID (proc_BoundaryEvents p)) (bnd_ID be)"
      using be(1) by (metis count_list_0_iff gr0I image_eqI list.set_map)
    have "FindTask p (bnd_AttachedToRef be) \<noteq> None"
    proof (rule ccontr)
      assume no: "\<not> FindTask p (bnd_AttachedToRef be) \<noteq> None"
      from be(2) consider be' where "be' \<in> set (proc_BoundaryEvents p)" "bnd_ID be' = bnd_ID be" "FindTask p (bnd_AttachedToRef be') \<noteq> None"
        | sp be' where "sp \<in> set (proc_SubProcesses p)" "be' \<in> set (sp_BoundaryEvents sp)" "bnd_ID be' = bnd_ID be"
        by (auto simp: task_event_ids_def)
      then show False
      proof cases
        case 1
        with inj be(1) no show False by (metis inj_onD)
      next
        case 2
        from sub_event_counted [OF this(1,2)] here dup [OF name] 2(3) show False
          by (simp add: scope_ids_def count_list_append)
      qed
    qed
    then obtain t where t: "t \<in> set (proc_UserTasks p)" "ut_ID t = bnd_AttachedToRef be" by (auto simp: FindTask_def find_Some_iff intro: nth_mem)
    from dangling_named [OF dangling _ t(1)] flows t(2) have host: "bnd_AttachedToRef be \<noteq> []" by (simp add: flows_ok_def)
    have "0 < count_list (map ut_ID (proc_UserTasks p)) (bnd_AttachedToRef be)"
      using t by (metis count_list_0_iff gr0I image_eqI list.set_map)
    moreover have "0 < count_list (map ca_ID (proc_CallActivities p)) (bnd_AttachedToRef be) \<or>
        0 < count_list (concat (map sub_ids (proc_SubProcesses p))) (bnd_AttachedToRef be)"
    proof -
      from be(3) consider sp where "FindSubProcess p (bnd_AttachedToRef be) = Some sp"
        | ca where "FindCallActivity p (bnd_AttachedToRef be) = Some ca" by blast
      then have "bnd_AttachedToRef be \<in> set (map ca_ID (proc_CallActivities p)) \<or>
          bnd_AttachedToRef be \<in> set (concat (map sub_ids (proc_SubProcesses p)))"
      proof cases
        case 1
        from FindSubProcess_id [OF this] have "sp \<in> set (proc_SubProcesses p)" "bnd_AttachedToRef be \<in> set (sub_ids sp)"
          by (cases sp, simp)+
        then show ?thesis by (metis UN_I set_concat set_map image_eqI)
      next
        case 2
        from FindCallActivity_id [OF this] show ?thesis by (metis image_eqI list.set_map)
      qed
      then show ?thesis by (metis count_list_0_iff gr0I)
    qed
    ultimately show False using dup [OF host] by (auto simp: scope_ids_def count_list_append)
  qed
  ultimately show ?thesis using flows by (simp add: sound_process_def flows_ok_def events_apart_def)
qed

end
