(* ===== verification/Validate_Routes.thy ===== *)
theory Validate_Routes
  imports Validate_Sound
begin

text \<open>
  What \<open>ValidateCalledBodies\<close> reports.  The route search finds, for a library process, the calls of other processes that
  lead to it; the walk visits the processes that the root calls, directly or not.
\<close>

subsection \<open>Routes\<close>

text \<open>
  \<open>C x\<close> is the set of the calls of \<open>x\<close>, each with its process.  A call leads to \<open>x\<close> past the processes of \<open>S\<close> when it
  calls \<open>x\<close> from a process that is no library, or leads to a library process that calls \<open>x\<close>.
\<close>

inductive leads_to :: "(string \<Rightarrow> bool) \<Rightarrow> (string \<Rightarrow> (string \<times> string) set) \<Rightarrow> string set \<Rightarrow> string \<Rightarrow> string \<Rightarrow> bool"
  for L :: "string \<Rightarrow> bool" and C :: "string \<Rightarrow> (string \<times> string) set" and S :: "string set" where
  direct: "leads_to L C S x c" if "x \<notin> S" and "(p, c) \<in> C x" and "\<not> L p"
| through: "leads_to L C S x c" if "x \<notin> S" and "(p, d) \<in> C x" and "L p" and "leads_to L C S p c"

inductive_cases leads_to_cases: "leads_to L C S x c"

lemma leads_to_mono: "leads_to L C S x c \<Longrightarrow> S' \<subseteq> S \<Longrightarrow> (\<And>y. C y \<subseteq> C' y) \<Longrightarrow> leads_to L C' S' x c"
  by (induction rule: leads_to.induct) (blast intro: leads_to.intros)+

lemma leads_to_any: "{c. leads_to L C S x c} \<subseteq> {c. leads_to L C {} x c}"
  using leads_to_mono [of L C S x _ "{}" C] by blast

definition from_callers :: "(string \<Rightarrow> bool) \<Rightarrow> (string \<Rightarrow> (string \<times> string) set) \<Rightarrow> string set \<Rightarrow> (string \<times> string) set \<Rightarrow> string set" where
  "from_callers L C S cs = {c. \<exists>p. (p, c) \<in> cs \<and> \<not> L p} \<union> {c. \<exists>p d. (p, d) \<in> cs \<and> L p \<and> leads_to L C S p c}"

lemma from_callers_Nil [simp]: "from_callers L C S {} = {}"
  by (simp add: from_callers_def)

lemma from_callers_insert:
  "from_callers L C S (insert (p, c) cs) = (if L p then {c'. leads_to L C S p c'} else {c}) \<union> from_callers L C S cs"
  by (auto simp: from_callers_def)

text \<open>A route can be cut where it passes its start again.\<close>

lemma leads_to_cut: "leads_to L C S y c \<Longrightarrow> leads_to L C (insert x S) y c \<or> c \<in> from_callers L C (insert x S) (C x)"
proof (induction rule: leads_to.induct)
  case (direct y p c)
  then show ?case by (cases "y = x") (auto simp: from_callers_def intro: leads_to.direct)
next
  case (through y p d c)
  then show ?case by (cases "y = x") (auto simp: from_callers_def intro: leads_to.through)
qed

lemma leads_to_from: "leads_to L C S x c \<Longrightarrow> c \<in> from_callers L C (insert x S) (C x)"
  using leads_to_cut [of L C S x c x] by (auto elim: leads_to_cases)

lemma from_leads_to: "c \<in> from_callers L C S (C x) \<Longrightarrow> x \<notin> S \<Longrightarrow> leads_to L C S x c"
  by (auto simp: from_callers_def intro: leads_to.intros)

lemma from_callers_mono: "S' \<subseteq> S \<Longrightarrow> from_callers L C S cs \<subseteq> from_callers L C S' cs"
  by (auto simp: from_callers_def intro: leads_to_mono)

definition routes_known :: "(string \<Rightarrow> bool) \<Rightarrow> (string \<Rightarrow> (string \<times> string) set) \<Rightarrow> route_memo \<Rightarrow> bool" where
  "routes_known L C memo \<longleftrightarrow> (\<forall>k r. map_of memo k = Some r \<longrightarrow> set r = {c. leads_to L C {} k c} \<and> distinct r)"

lemma routes_known_mput: "routes_known L C memo \<Longrightarrow> set r = {c. leads_to L C {} k c} \<Longrightarrow> distinct r \<Longrightarrow> routes_known L C (mput k r memo)"
  unfolding routes_known_def update_conv by (metis fun_upd_apply option.inject)

text \<open>\<open>between A B (found, complete)\<close>: no less than \<open>A\<close>, no more than \<open>B\<close>, and all of \<open>B\<close> when complete.\<close>

definition between :: "string set \<Rightarrow> string set \<Rightarrow> string list \<Rightarrow> bool \<Rightarrow> bool" where
  "between A B found complete \<longleftrightarrow> A \<subseteq> set found \<and> set found \<subseteq> B \<and> (complete \<longrightarrow> set found = B) \<and> distinct found"

lemma set_add_route [simp]: "set (add_route c acc) = insert c (set acc)"
  by (auto simp: add_route_def)

lemma set_add_routes [simp]: "set (fold add_route cs acc) = set cs \<union> set acc"
  by (induction cs arbitrary: acc) auto

lemma distinct_add_routes [simp]: "distinct (add_route c acc) = distinct acc" "distinct (fold add_route cs acc) = distinct acc"
proof -
  show one: "distinct (add_route c acc) = distinct acc" for c acc by (auto simp: add_route_def)
  show "distinct (fold add_route cs acc) = distinct acc" by (induction cs arbitrary: acc) (simp_all add: one)
qed

lemma route_loop_ok:
  assumes rec: "\<And>p memo. L p \<Longrightarrow> routes_known L C memo \<Longrightarrow> \<exists>found whole memo'. rec p memo = Some (found, whole, memo') \<and>
      between {c. leads_to L C S p c} {c. leads_to L C {} p c} found whole \<and> routes_known L C memo'"
  shows "routes_known L C memo \<Longrightarrow> distinct acc \<Longrightarrow> \<exists>found whole memo'. route_loop rec L cs memo acc ok = Some (found, whole, memo') \<and>
      routes_known L C memo' \<and> between (set acc \<union> from_callers L C S (set cs)) (set acc \<union> from_callers L C {} (set cs)) found whole \<and>
      (whole \<longrightarrow> ok)"
proof (induction cs arbitrary: memo acc ok)
  case Nil
  then show ?case by (simp add: between_def)
next
  case (Cons pc cs)
  obtain p c where pc: "pc = (p, c)" by fastforce
  show ?case
  proof (cases "L p")
    case False
    with Cons.IH [OF Cons.prems(1), of "add_route c acc" ok] Cons.prems(2) show ?thesis
      by (auto simp: pc from_callers_insert)
  next
    case True
    from rec [OF True Cons.prems(1)] obtain parents whole memo1 where r: "rec p memo = Some (parents, whole, memo1)"
      "between {c. leads_to L C S p c} {c. leads_to L C {} p c} parents whole" "routes_known L C memo1" by blast
    from Cons.IH [OF r(3), of "fold add_route parents acc" "ok \<and> whole"] Cons.prems(2) obtain found w memo' where l:
      "route_loop rec L cs memo1 (fold add_route parents acc) (ok \<and> whole) = Some (found, w, memo')" "routes_known L C memo'"
      "between (set (fold add_route parents acc) \<union> from_callers L C S (set cs)) (set (fold add_route parents acc) \<union> from_callers L C {} (set cs)) found w"
      "w \<longrightarrow> ok \<and> whole" by auto
    have "between (set acc \<union> from_callers L C S (set (pc # cs))) (set acc \<union> from_callers L C {} (set (pc # cs))) found w"
      using l(3,4) r(2) True by (auto simp: between_def pc from_callers_insert)
    with True r(1) l show ?thesis by (simp add: pc)
  qed
qed

lemma body_routes_ok:
  fixes callers :: "(string, (string \<times> string) list) gomap"
  defines "C \<equiv> \<lambda>x. set (mget_or [] callers x)"
  assumes K: "finite K" and L: "\<And>p. L p \<Longrightarrow> p \<in> K"
  shows "x \<in> K \<Longrightarrow> card (K - S) < fuel \<Longrightarrow> routes_known L C memo \<Longrightarrow> \<exists>found whole memo'. body_routes fuel L callers S x memo = Some (found, whole, memo') \<and>
      between {c. leads_to L C S x c} {c. leads_to L C {} x c} found whole \<and> routes_known L C memo'"
proof (induction fuel arbitrary: x S memo)
  case (Suc fuel)
  show ?case
  proof (cases "map_of memo x")
    case (Some r)
    with Suc.prems(3) have "set r = {c. leads_to L C {} x c} \<and> distinct r" unfolding routes_known_def by blast
    then have "between {c. leads_to L C S x c} {c. leads_to L C {} x c} r True"
      unfolding between_def using leads_to_any [of L C S x] by blast
    moreover have "body_routes (Suc fuel) L callers S x memo = Some (r, True, memo)" using Some by simp
    ultimately show ?thesis using Suc.prems(3) by blast
  next
    case None
    show ?thesis
    proof (cases "x \<in> S")
      case True
      then have "between {c. leads_to L C S x c} {c. leads_to L C {} x c} [] False"
        unfolding between_def by (auto elim: leads_to_cases)
      moreover have "body_routes (Suc fuel) L callers S x memo = Some ([], False, memo)" using None True by simp
      ultimately show ?thesis using Suc.prems(3) by blast
    next
      case False
      have "card (K - insert x S) < fuel"
      proof -
        have "card (K - S) = Suc (card (K - insert x S))"
          using Suc.prems(1) False K by (subst Diff_insert, subst card_Suc_Diff1) auto
        with Suc.prems(2) show ?thesis by simp
      qed
      note IH = Suc.IH [OF L this]
      from route_loop_ok [of L C "body_routes fuel L callers (insert x S)" "insert x S" memo "[]" "mget_or [] callers x" True, OF IH Suc.prems(3)]
      obtain found whole memo1 where l:
        "route_loop (body_routes fuel L callers (insert x S)) L (mget_or [] callers x) memo [] True = Some (found, whole, memo1)"
        "routes_known L C memo1" "between (from_callers L C (insert x S) (C x)) (from_callers L C {} (C x)) found whole"
        by (auto simp: C_def)
      have all: "from_callers L C {} (C x) = {c. leads_to L C {} x c}"
        using from_leads_to [of _ L C "{}" x] leads_to_from [of L C "{}" x] from_callers_mono [of "{}" "{x}" L C "C x"] by blast
      have "between {c. leads_to L C S x c} {c. leads_to L C {} x c} found whole"
        using l(3) leads_to_from [of L C S x] unfolding all by (auto simp: between_def)
      moreover from this have "routes_known L C (if whole then mput x found memo1 else memo1)"
        using l(2) by (simp add: routes_known_mput between_def)
      ultimately show ?thesis using None False l(1) by simp
    qed
  qed
qed simp

text \<open>
  The errors of a process that is no library are reported as they are, those of a library at each of the calls that
  lead to it, once per call.
\<close>

definition shown_at :: "(string \<Rightarrow> bool) \<Rightarrow> (string \<Rightarrow> (string \<times> string) set) \<Rightarrow> string \<times> BPMNValidationError list \<Rightarrow> BPMNValidationError set" where
  "shown_at L C body =
     (if L (fst body) then (\<lambda>(e, c). e\<lparr>be_NodeID := c\<rparr>) ` (set (snd body) \<times> {c. leads_to L C {} (fst body) c}) else set (snd body))"

lemma attributed_errs_ok:
  fixes callers :: "(string, (string \<times> string) list) gomap"
  defines "C \<equiv> \<lambda>x. set (mget_or [] callers x)"
  assumes "finite K" "\<And>p. L p \<Longrightarrow> p \<in> K" "card K < fuel"
  shows "routes_known L C memo \<Longrightarrow> \<exists>errs. attributed_errs fuel L callers own memo = Some errs \<and> set errs = \<Union> (shown_at L C ` set own)"
proof (induction own arbitrary: memo)
  case (Cons body own)
  obtain x errs where body: "body = (x, errs)" by fastforce
  show ?case
  proof (cases "L x")
    case False
    with Cons.IH [OF Cons.prems] show ?thesis by (auto simp: body shown_at_def)
  next
    case True
    have "x \<in> K" "card (K - {}) < fuel" using True assms(3,4) by auto
    from body_routes_ok [where L = L and callers = callers, OF assms(2,3) this] Cons.prems
    obtain found whole memo' where r: "body_routes fuel L callers {} x memo = Some (found, whole, memo')"
      "set found = {c. leads_to L C {} x c}" "routes_known L C memo'"
      by (fastforce simp: C_def between_def)
    have "set (concat (map (\<lambda>c. map (\<lambda>e. e\<lparr>be_NodeID := c\<rparr>) errs) found)) = shown_at L C body"
      using True by (auto simp: shown_at_def body r(2))
    with Cons.IH [OF r(3)] r(1) True show ?thesis by (auto simp: body simp del: set_concat)
  qed
qed simp

end
