(* ===== verification/Validate_Walk.thy ===== *)
theory Validate_Walk
  imports Validate_Routes
begin

text \<open>
  The walk of \<open>ValidateCalledBodies\<close> visits each process below the root once, and its errors are exactly those of these
  processes, as \<open>shown_at\<close> places them.  Where none of them blocks, the compiler meets sound processes only.
\<close>

definition runs_call :: "BPMNDefinitions \<Rightarrow> BPMNProcess \<Rightarrow> BPMNCallActivity \<Rightarrow> BPMNProcess \<Rightarrow> bool" where
  "runs_call defs p ca q \<longleftrightarrow> ca \<in> set (proc_CallActivities p) \<and> calledProcess defs ca = Some q \<and> proc_StartEvents q \<noteq> []"

definition called_below :: "BPMNDefinitions \<Rightarrow> BPMNProcess \<Rightarrow> BPMNProcess set" where
  "called_below defs root = {q. (root, q) \<in> {(p, q). (\<exists>ca. runs_call defs p ca q) \<and> proc_ID q \<noteq> proc_ID root}\<^sup>+}"

definition calls_to :: "BPMNDefinitions \<Rightarrow> BPMNProcess \<Rightarrow> string \<Rightarrow> (string \<times> string) set" where
  "calls_to defs root x =
     {(proc_ID p, ca_ID ca) | p ca q. p \<in> insert root (called_below defs root) \<and> runs_call defs p ca q \<and> proc_ID q = x}"

lemma called_below_step: "p \<in> insert root (called_below defs root) \<Longrightarrow> runs_call defs p ca q \<Longrightarrow> proc_ID q \<noteq> proc_ID root \<Longrightarrow> q \<in> called_below defs root"
  unfolding called_below_def by (auto intro: trancl_into_trancl r_into_trancl)

lemma called_below_induct [consumes 1, case_names call]:
  assumes "q \<in> called_below defs root"
    and step: "\<And>p ca q. p = root \<or> (p \<in> called_below defs root \<and> P p) \<Longrightarrow> runs_call defs p ca q \<Longrightarrow> proc_ID q \<noteq> proc_ID root \<Longrightarrow> P q"
  shows "P q"
proof -
  let ?r = "{(p, q). (\<exists>ca. runs_call defs p ca q) \<and> proc_ID q \<noteq> proc_ID root}"
  from assms(1) have "(root, q) \<in> ?r\<^sup>+" by (simp add: called_below_def)
  then show ?thesis
  proof (induction rule: trancl_induct)
    case (base q)
    then obtain ca where ca: "runs_call defs root ca q" "proc_ID q \<noteq> proc_ID root" by auto
    show ?case by (rule step [OF _ ca]) simp
  next
    case (step p q)
    then obtain ca where ca: "runs_call defs p ca q" "proc_ID q \<noteq> proc_ID root" by auto
    have "p \<in> called_below defs root" using step(1) by (simp add: called_below_def)
    with step(3) show ?case by (intro assms(2) [OF _ ca]) simp
  qed
qed

text \<open>A called process is the first of its identifier.\<close>

definition first_with :: "BPMNDefinitions \<Rightarrow> string \<Rightarrow> BPMNProcess option" where
  "first_with defs x = find (\<lambda>p. proc_ID p = x) (defs_Processes defs)"

lemma first_with_again: "find (\<lambda>p. proc_ID p = x) ps = Some q \<Longrightarrow> find (\<lambda>p. proc_ID p = proc_ID q) ps = Some q"
proof -
  assume f: "find (\<lambda>p. proc_ID p = x) ps = Some q"
  then have "proc_ID q = x" by (auto simp: find_Some_iff)
  with f show ?thesis by simp
qed

lemma participant_id: "processOfParticipant ps x parts = Some q \<Longrightarrow> find (\<lambda>p. proc_ID p = proc_ID q) ps = Some q"
  by (induction parts) (auto dest: first_with_again split: if_splits option.splits)

lemma calledProcess_id: "calledProcess defs ca = Some q \<Longrightarrow> first_with defs (proc_ID q) = Some q"
  unfolding calledProcess_def FindProcessByID_def first_with_def findProcessByParticipantID_def
  by (auto dest: first_with_again participant_id split: option.splits if_splits)

lemma runs_call_unique: "runs_call defs p ca q \<Longrightarrow> runs_call defs p' ca' q' \<Longrightarrow> proc_ID q = proc_ID q' \<Longrightarrow> q = q'"
  unfolding runs_call_def by (metis calledProcess_id option.inject)

lemma called_below_called: "q \<in> called_below defs root \<Longrightarrow> first_with defs (proc_ID q) = Some q \<and> proc_ID q \<noteq> proc_ID root"
  by (induction rule: called_below_induct) (auto simp: runs_call_def dest: calledProcess_id)

subsection \<open>The walk\<close>

definition walk_lists :: "BPMNDefinitions \<Rightarrow> BPMNProcess \<Rightarrow> body_walk \<Rightarrow> bool" where
  "walk_lists defs root w \<longleftrightarrow> bw_visited w = proc_ID ` set (root # bw_order w) \<and>
     distinct (map proc_ID (root # bw_order w)) \<and> set (bw_order w) \<subseteq> called_below defs root"

definition walk_split :: "BPMNProcess \<Rightarrow> BPMNProcess list \<Rightarrow> body_walk \<Rightarrow> bool" where
  "walk_split root pre w \<longleftrightarrow> root # bw_order w = pre @ bw_queue w"

definition made_calls :: "BPMNDefinitions \<Rightarrow> (BPMNProcess \<times> BPMNCallActivity) set \<Rightarrow> string \<Rightarrow> (string \<times> string) set" where
  "made_calls defs D x = {(proc_ID p, ca_ID ca) | p ca q. (p, ca) \<in> D \<and> runs_call defs p ca q \<and> proc_ID q = x}"

definition walk_calls :: "BPMNDefinitions \<Rightarrow> (BPMNProcess \<times> BPMNCallActivity) set \<Rightarrow> body_walk \<Rightarrow> bool" where
  "walk_calls defs D w \<longleftrightarrow> (\<forall>x. set (mget_or [] (bw_callers w) x) = made_calls defs D x) \<and>
     (\<forall>p ca q. (p, ca) \<in> D \<longrightarrow> runs_call defs p ca q \<longrightarrow> proc_ID q \<in> bw_visited w)"

definition walk_inv :: "BPMNDefinitions \<Rightarrow> BPMNProcess \<Rightarrow> (BPMNProcess \<times> BPMNCallActivity) set \<Rightarrow> BPMNProcess list \<Rightarrow> body_walk \<Rightarrow> bool" where
  "walk_inv defs root D pre w \<longleftrightarrow> walk_lists defs root w \<and> walk_split root pre w \<and> walk_calls defs D w"

lemma made_calls_none: "\<nexists>q. runs_call defs p ca q \<Longrightarrow> made_calls defs (insert (p, ca) D) x = made_calls defs D x"
  unfolding made_calls_def by blast

lemma made_calls_one:
  assumes "runs_call defs p ca q"
  shows "made_calls defs (insert (p, ca) D) x = (if x = proc_ID q then insert (proc_ID p, ca_ID ca) (made_calls defs D x) else made_calls defs D x)"
proof -
  have "runs_call defs p ca q' \<longleftrightarrow> q' = q" for q' using assms by (auto simp: runs_call_def)
  then show ?thesis unfolding made_calls_def by auto
qed

lemma body_call_inv:
  assumes inv: "walk_inv defs root D pre w" and p: "p \<in> set (root # bw_order w)" and ca: "ca \<in> set (proc_CallActivities p)"
  shows "walk_inv defs root (insert (p, ca) D) pre (body_call defs p ca w) \<and> set (bw_order w) \<subseteq> set (bw_order (body_call defs p ca w))"
proof (cases "\<exists>q. runs_call defs p ca q")
  case False
  then have "body_call defs p ca w = w" using ca by (auto simp: body_call_def runs_call_def split: option.split)
  moreover have "walk_calls defs (insert (p, ca) D) w"
    using inv False unfolding walk_inv_def walk_calls_def made_calls_none [OF False] by blast
  ultimately show ?thesis using inv by (simp add: walk_inv_def)
next
  case True
  then obtain q where q: "runs_call defs p ca q" by blast
  let ?w = "w\<lparr>bw_callers := mappend (proc_ID q) (proc_ID p, ca_ID ca) (bw_callers w)\<rparr>"
  have w': "body_call defs p ca w = (if proc_ID q \<in> bw_visited w then ?w
      else ?w\<lparr>bw_visited := insert (proc_ID q) (bw_visited w), bw_order := bw_order w @ [q], bw_queue := bw_queue w @ [q]\<rparr>)"
    using q by (simp add: body_call_def runs_call_def Let_def)
  from inv have l: "walk_lists defs root w" and sp: "walk_split root pre w" and c: "walk_calls defs D w" by (simp_all add: walk_inv_def)
  from l have root: "proc_ID root \<in> bw_visited w" by (simp add: walk_lists_def)
  have p': "p \<in> insert root (called_below defs root)" using l p by (auto simp: walk_lists_def)
  have "proc_ID q \<notin> bw_visited w \<Longrightarrow> q \<in> called_below defs root"
    using called_below_step [OF p' q] root by metis
  with l have "walk_lists defs root (body_call defs p ca w)" unfolding walk_lists_def w' by auto
  moreover have "(root # bw_order w) @ [q] = (pre @ bw_queue w) @ [q]" using sp by (simp only: walk_split_def)
  then have "walk_split root pre (body_call defs p ca w)"
    using sp unfolding w' walk_split_def by (cases "proc_ID q \<in> bw_visited w") (simp_all only: if_True if_False, simp_all)
  moreover have "proc_ID q \<in> bw_visited (body_call defs p ca w)" "bw_visited w \<subseteq> bw_visited (body_call defs p ca w)" by (auto simp: w')
  then have "walk_calls defs (insert (p, ca) D) (body_call defs p ca w)"
    using c q unfolding walk_calls_def made_calls_one [OF q] by (auto simp: runs_call_def w')
  ultimately show ?thesis unfolding walk_inv_def by (auto simp: w')
qed

lemma body_step_inv:
  assumes "walk_inv defs root D pre w" "p \<in> set (root # bw_order w)"
  shows "walk_inv defs root (D \<union> {p} \<times> set (proc_CallActivities p)) pre (body_step defs p w)"
proof -
  have "walk_inv defs root D pre w \<Longrightarrow> p \<in> set (root # bw_order w) \<Longrightarrow> set cas \<subseteq> set (proc_CallActivities p) \<Longrightarrow>
      walk_inv defs root (D \<union> {p} \<times> set cas) pre (fold (body_call defs p) cas w)" for cas
  proof (induction cas arbitrary: D w)
    case (Cons ca cas)
    from body_call_inv [OF Cons.prems(1,2), of ca] Cons.prems(2,3)
    have "walk_inv defs root (insert (p, ca) D) pre (body_call defs p ca w)" "p \<in> set (root # bw_order (body_call defs p ca w))" by auto
    from Cons.IH [OF this] Cons.prems(3) have "walk_inv defs root (insert (p, ca) D \<union> {p} \<times> set cas) pre (fold (body_call defs p) (ca # cas) w)"
      by simp
    moreover have "insert (p, ca) D \<union> {p} \<times> set cas = D \<union> {p} \<times> set (ca # cas)" by auto
    ultimately show ?case by (simp only:)
  qed simp
  with assms show ?thesis unfolding body_step_def by blast
qed

lemma walk_inv_pop:
  assumes "walk_inv defs root D pre w" "bw_queue w = p # rest"
  shows "walk_inv defs root D (pre @ [p]) (w\<lparr>bw_queue := rest\<rparr>)" "p \<in> set (root # bw_order w)"
proof -
  have order: "root # bw_order w = pre @ p # rest" using assms by (simp add: walk_inv_def walk_split_def)
  then show "p \<in> set (root # bw_order w)" by (metis in_set_conv_decomp)
  show "walk_inv defs root D (pre @ [p]) (w\<lparr>bw_queue := rest\<rparr>)"
    using assms(1) order unfolding walk_inv_def walk_lists_def walk_split_def walk_calls_def by (intro conjI; elim conjE) simp_all
qed

lemma body_run_inv: "walk_inv defs root (Sigma (set pre) (\<lambda>p. set (proc_CallActivities p))) pre w \<Longrightarrow>
    \<exists>pre. walk_inv defs root (Sigma (set pre) (\<lambda>p. set (proc_CallActivities p))) pre (body_run defs w) \<and> bw_queue (body_run defs w) = []"
proof (induction defs w arbitrary: pre rule: body_run.induct)
  case (1 defs w)
  show ?case
  proof (cases "bw_queue w")
    case Nil
    then have "body_run defs w = w" by (subst body_run.simps) simp
    with "1.prems" Nil show ?thesis by auto
  next
    case (Cons p rest)
    let ?D = "Sigma (set pre) (\<lambda>p. set (proc_CallActivities p))"
    note pop = walk_inv_pop [OF "1.prems" Cons]
    from body_step_inv [OF pop(1)] pop(2)
    have "walk_inv defs root (?D \<union> {p} \<times> set (proc_CallActivities p)) (pre @ [p]) (body_step defs p (w\<lparr>bw_queue := rest\<rparr>))" by simp
    moreover have "?D \<union> {p} \<times> set (proc_CallActivities p) = Sigma (set (pre @ [p])) (\<lambda>p. set (proc_CallActivities p))" by auto
    ultimately have "walk_inv defs root (Sigma (set (pre @ [p])) (\<lambda>p. set (proc_CallActivities p))) (pre @ [p]) (body_step defs p (w\<lparr>bw_queue := rest\<rparr>))"
      by (simp only:)
    from "1.IH" [OF Cons this] Cons show ?thesis by (simp add: body_run.simps [of defs w])
  qed
qed

lemma walk_correct:
  fixes root defs
  defines "w \<equiv> body_run defs (body_start root)"
  shows "set (bw_order w) = called_below defs root" "distinct (map proc_ID (bw_order w))"
    "set (mget_or [] (bw_callers w) x) = calls_to defs root x"
proof -
  have "walk_inv defs root (Sigma (set []) (\<lambda>p. set (proc_CallActivities p))) [] (body_start root)"
    by (simp add: walk_inv_def walk_lists_def walk_split_def walk_calls_def made_calls_def body_start_def)
  from body_run_inv [OF this] obtain pre where inv: "walk_inv defs root (Sigma (set pre) (\<lambda>p. set (proc_CallActivities p))) pre w" "bw_queue w = []"
    by (auto simp: w_def)
  then have pre: "pre = root # bw_order w" by (simp add: walk_inv_def walk_split_def)
  have l: "walk_lists defs root w" and c: "walk_calls defs (Sigma (set pre) (\<lambda>p. set (proc_CallActivities p))) w"
    using inv(1) by (simp_all add: walk_inv_def)
  show "distinct (map proc_ID (bw_order w))" using l by (simp add: walk_lists_def)
  have sub: "set (bw_order w) \<subseteq> called_below defs root" using l by (simp add: walk_lists_def)
  have "q \<in> set (bw_order w)" if "q \<in> called_below defs root" for q using that
  proof (induction rule: called_below_induct)
    case (call p ca q)
    have "ca \<in> set (proc_CallActivities p)" using call(2) by (simp add: runs_call_def)
    with call(1) have "(p, ca) \<in> Sigma (set pre) (\<lambda>p. set (proc_CallActivities p))" by (auto simp: pre)
    with c call(2) have "proc_ID q \<in> bw_visited w" unfolding walk_calls_def by blast
    with l have "proc_ID q \<in> proc_ID ` set (root # bw_order w)" by (simp add: walk_lists_def)
    with call(3) obtain q' where q': "q' \<in> set (bw_order w)" "proc_ID q' = proc_ID q" by auto
    from called_below_called [of q' defs root] q' sub have "first_with defs (proc_ID q) = Some q'" by auto
    moreover have "first_with defs (proc_ID q) = Some q" using call(2) by (auto simp: runs_call_def dest: calledProcess_id)
    ultimately show ?case using q'(1) by simp
  qed
  with sub show order: "set (bw_order w) = called_below defs root" by blast
  have "set (mget_or [] (bw_callers w) x) = made_calls defs (Sigma (set pre) (\<lambda>p. set (proc_CallActivities p))) x"
    using c unfolding walk_calls_def by blast
  also have "\<dots> = calls_to defs root x"
    unfolding calls_to_def made_calls_def pre order [symmetric] by (auto simp: runs_call_def)
  finally show "set (mget_or [] (bw_callers w) x) = calls_to defs root x" .
qed

subsection \<open>The errors\<close>

lemma library_of_mem: "library_of defs x \<Longrightarrow> x \<in> proc_ID ` set (defs_Processes defs)"
proof -
  have "mget_or False (fold (\<lambda>p. mput (proc_ID p) (proc_LibraryModule p)) ps m) x \<Longrightarrow> x \<in> proc_ID ` set ps \<or> mget_or False m x"
    for ps :: "BPMNProcess list" and m
    by (induction ps arbitrary: m) (fastforce simp: mget_or_mput split: if_splits)+
  from this [of "defs_Processes defs" "[]"] show "library_of defs x \<Longrightarrow> x \<in> proc_ID ` set (defs_Processes defs)"
    by (auto simp: library_of_def mget_or_def)
qed

lemma library_of_unique:
  assumes "unique_ids defs" "p \<in> set (defs_Processes defs)"
  shows "library_of defs (proc_ID p) = proc_LibraryModule p"
proof -
  have "distinct (map proc_ID ps) \<Longrightarrow> p \<in> set ps \<Longrightarrow>
      mget_or False (fold (\<lambda>p. mput (proc_ID p) (proc_LibraryModule p)) ps m) (proc_ID p) = proc_LibraryModule p" for ps m
  proof (induction ps arbitrary: m)
    case (Cons q ps)
    have keep: "x \<notin> proc_ID ` set ps \<Longrightarrow> mget_or False (fold (\<lambda>p. mput (proc_ID p) (proc_LibraryModule p)) ps m) x = mget_or False m x"
      for x and ps :: "BPMNProcess list" and m by (induction ps arbitrary: m) (auto simp: mget_or_mput)
    show ?case
    proof (cases "p = q")
      case True
      with Cons.prems(1) keep [of "proc_ID p" ps] show ?thesis by (simp add: mget_or_mput)
    next
      case False
      with Cons show ?thesis by simp
    qed
  qed simp
  with assms show ?thesis by (simp add: library_of_def unique_ids_def)
qed

lemma called_below_mem: "q \<in> called_below defs root \<Longrightarrow> q \<in> set (defs_Processes defs)"
  by (induction rule: called_below_induct) (auto simp: runs_call_def intro: calledProcess_mem)

definition body_errs :: "validator_env \<Rightarrow> BPMNDefinitions \<Rightarrow> BPMNProcess \<Rightarrow> BPMNProcess \<Rightarrow> BPMNValidationError set" where
  "body_errs V defs root q = shown_at (library_of defs) (calls_to defs root) (proc_ID q, AnchorOn (proc_ID q) (the (Validate V defs q)))"

lemma validated_bodies_returns:
  assumes "\<And>q. q \<in> set order \<Longrightarrow> flows_ok q"
  shows "validated_bodies V defs order = Some (map (\<lambda>q. (proc_ID q, AnchorOn (proc_ID q) (the (Validate V defs q)))) order)"
  using assms
proof (induction order)
  case (Cons q order)
  from Validate_returns [of q V defs] Cons.prems obtain errs where "Validate V defs q = Some errs" by auto
  with Cons show ?case by (simp add: validated_bodies_def)
qed (simp add: validated_bodies_def)

lemma ValidateCalledBodies_exact:
  assumes "\<And>q. q \<in> called_below defs root \<Longrightarrow> flows_ok q"
  shows "\<exists>errs. ValidateCalledBodies V defs root = Some errs \<and> set errs = (\<Union>q \<in> called_below defs root. body_errs V defs root q)"
proof -
  let ?w = "body_run defs (body_start root)"
  let ?C = "\<lambda>x. set (mget_or [] (bw_callers ?w) x)"
  have C: "?C = calls_to defs root" using walk_correct(3) by blast
  let ?own = "map (\<lambda>q. (proc_ID q, AnchorOn (proc_ID q) (the (Validate V defs q)))) (bw_order ?w)"
  have own: "validated_bodies V defs (bw_order ?w) = Some ?own"
    by (rule validated_bodies_returns) (use assms walk_correct(1) in blast)
  have "card (proc_ID ` set (defs_Processes defs)) < route_fuel defs"
    using card_image_le [of "set (defs_Processes defs)" proc_ID] card_length [of "defs_Processes defs"] by (simp add: route_fuel_def)
  moreover have "routes_known (library_of defs) ?C []" by (simp add: routes_known_def)
  ultimately obtain errs where "attributed_errs (route_fuel defs) (library_of defs) (bw_callers ?w) ?own [] = Some errs"
      "set errs = \<Union> (shown_at (library_of defs) ?C ` set ?own)"
    using attributed_errs_ok [of "proc_ID ` set (defs_Processes defs)" "library_of defs" "route_fuel defs" "bw_callers ?w" "[]" ?own] library_of_mem
    by blast
  moreover from this(2) have "set errs = (\<Union>q \<in> called_below defs root. body_errs V defs root q)"
    unfolding C set_map walk_correct(1) [symmetric] body_errs_def by (simp add: image_image)
  ultimately show ?thesis by (simp add: ValidateCalledBodies_def own Let_def)
qed

text \<open>Every process below a root that is no library is reached by a call of a process that is none.\<close>

lemma called_led_to:
  assumes "\<not> library_of defs (proc_ID root)" "q \<in> called_below defs root"
  shows "\<exists>c. leads_to (library_of defs) (calls_to defs root) {} (proc_ID q) c"
  using assms(2)
proof (induction rule: called_below_induct)
  case (call p ca q)
  have edge: "(proc_ID p, ca_ID ca) \<in> calls_to defs root (proc_ID q)" using call(1,2) by (auto simp: calls_to_def)
  show ?case
  proof (cases "library_of defs (proc_ID p)")
    case True
    with assms(1) call(1) obtain c where "leads_to (library_of defs) (calls_to defs root) {} (proc_ID p) c" by auto
    from leads_to.through [of _ "{}" _ "ca_ID ca" "calls_to defs root", OF _ edge, of "library_of defs", OF _ True this] show ?thesis by blast
  next
    case False
    from leads_to.direct [of _ "{}" _ "ca_ID ca" "calls_to defs root", OF _ edge, of "library_of defs", OF _ False] show ?thesis by blast
  qed
qed

lemma called_accepted:
  assumes ok: "ValidateCalledBodies V defs root = Some errs" "\<not> hasBlockingErrors errs" and root: "\<not> library_of defs (proc_ID root)"
    and flows: "\<And>q. q \<in> called_below defs root \<Longrightarrow> flows_ok q" and q: "q \<in> called_below defs root"
  shows "accepted V defs q"
proof -
  from Validate_returns [OF flows [OF q]] obtain own where own: "Validate V defs q = Some own" by blast
  from ValidateCalledBodies_exact [of defs root V] flows ok(1) q have sub: "body_errs V defs root q \<subseteq> set errs" by auto
  have "\<not> hasBlockingErrors (AnchorOn (proc_ID q) own)"
  proof
    assume "hasBlockingErrors (AnchorOn (proc_ID q) own)"
    then obtain e where e: "e \<in> set (AnchorOn (proc_ID q) own)" "be_Severity e \<noteq> SeverityWarning" by (auto simp: hasBlockingErrors_def)
    from called_led_to [OF root q] obtain c where "leads_to (library_of defs) (calls_to defs root) {} (proc_ID q) c" by blast
    with e own have "\<exists>e' \<in> body_errs V defs root q. be_Severity e' \<noteq> SeverityWarning" by (auto simp: body_errs_def shown_at_def)
    with sub ok(2) show False by (auto simp: hasBlockingErrors_def)
  qed
  with own show ?thesis unfolding accepted_def Validate_def by auto
qed

subsection \<open>Sound processes\<close>

lemma visit_proc_errs: "visit_proc fuel defs p s = Some s' \<Longrightarrow> set (cg_errs s) \<subseteq> set (cg_errs s')"
proof (induction fuel arbitrary: p s s')
  case (Suc fuel)
  have called: "visit_called (visit_proc fuel defs) p ca q s = Some s' \<Longrightarrow> set (cg_errs s) \<subseteq> set (cg_errs s')" for p ca q s s'
    using Suc.IH [of q] by (auto simp: visit_called_def Let_def AppendErr_def split: option.splits visit_state.splits) fastforce
  have "visit_process_calls (visit_proc fuel defs) defs p cas n s = Some (n', s') \<Longrightarrow> set (cg_errs s) \<subseteq> set (cg_errs s')" for cas n s n' s'
  proof (induction cas arbitrary: n s)
    case (Cons ca cas)
    show ?case
    proof (cases "\<exists>q. calledProcess defs ca = Some q \<and> \<not> IsIgnored p")
      case True
      then obtain q where q: "calledProcess defs ca = Some q" "\<not> IsIgnored p" by blast
      with Cons.prems obtain t m where t: "visit_called (visit_proc fuel defs) p ca q s = Some t"
        "visit_process_calls (visit_proc fuel defs) defs p cas m t = Some (n', s')" by (auto simp: bind_eq_Some_conv)
      from called [OF t(1)] Cons.IH [OF t(2)] show ?thesis by (rule subset_trans)
    next
      case False
      then have "visit_process_calls (visit_proc fuel defs) defs p (ca # cas) n s = visit_process_calls (visit_proc fuel defs) defs p cas n s"
        by (auto split: option.split)
      with Cons show ?thesis by simp
    qed
  qed simp
  from this [of "proc_CallActivities p"] Suc.prems show ?case by fastforce
qed simp

lemma call_graph_unique:
  assumes "ValidateCallGraph defs = Some errs" "\<not> hasBlockingErrors errs"
  shows "unique_ids defs"
proof -
  from assms(1) obtain s where s: "visit_all (Suc (length (defs_Processes defs))) defs (defs_Processes defs) (graph_start defs) = Some s"
    "set (cg_errs s) \<subseteq> set errs" by (auto simp: ValidateCallGraph_def simp del: visit_all.simps)
  have "visit_all fuel defs ps a = Some b \<Longrightarrow> set (cg_errs a) \<subseteq> set (cg_errs b)" for fuel ps a b
  proof (induction ps arbitrary: a)
    case (Cons p ps)
    show ?case
    proof (cases "map_of (cg_state a) (proc_ID p) = None")
      case True
      with Cons.prems obtain c where c: "visit_proc fuel defs p a = Some c" "visit_all fuel defs ps c = Some b"
        by (auto simp: bind_eq_Some_conv)
      from visit_proc_errs [OF c(1)] Cons.IH [OF c(2)] show ?thesis by (rule subset_trans)
    next
      case False
      with Cons show ?thesis by simp
    qed
  qed simp
  from this [OF s(1)] s(2) have "set (validateUniqueProcessIDs defs) \<subseteq> set errs" by (simp add: graph_start_def)
  moreover have "be_Severity e = SeverityError" if "e \<in> set (validateUniqueProcessIDs defs)" for e
    using arg_cong [OF unique_id_code [OF that [unfolded validateUniqueProcessIDs_def]], of be_Severity] by simp
  ultimately have "validateUniqueProcessIDs defs = []"
    using assms(2) by (cases "validateUniqueProcessIDs defs") (auto simp: hasBlockingErrors_def)
  from validateUniqueProcessIDs_Nil [OF this] show ?thesis by (simp add: unique_ids_def)
qed

lemma accepted_call:
  assumes acc: "accepted V defs p" and flows: "flows_ok p" and ca: "ca \<in> set (proc_CallActivities p)"
  shows "\<exists>q. callee defs ca = Some q \<and> runs_call defs p ca q"
proof -
  from accepted_parts [OF acc] obtain start where shape: "\<not> hasBlockingErrors (shape_errs V p (BuildGraph p) start)"
    and calls: "\<not> hasBlockingErrors (CallActivityHandler_Validate V (ca_ID ca) p defs)" using ca by metis
  have dup: "count_list (scope_ids p) x \<le> 1" if "x \<noteq> []" for x
    using shape that by (intro no_duplicates) (simp add: shape_errs_def)
  have dangling: "\<not> hasBlockingErrors (ValidateDanglingNodes p (BuildGraph p) start)" using shape by (simp add: shape_errs_def)
  have name: "ca_ID c \<noteq> []" if c: "c \<in> set (proc_CallActivities p)" for c
  proof
    assume empty: "ca_ID c = []"
    have "[] \<notin> set (mkeys (g_Outgoing (BuildGraph p)))" using flows named_BuildGraph [of p] by (auto simp: flows_ok_def flows_named_def)
    then have "out (BuildGraph p) [] = []" by (simp add: mget_or_absent)
    with empty have "hasBlockingErrors (checkDanglingWithImplicit (ca_ID c) (BuildGraph p) start)" by (simp add: checkDanglingWithImplicit_def)
    with dangling c show False by (auto simp: ValidateDanglingNodes_def hasBlocking_concat)
  qed
  have "inj_on ca_ID (set (proc_CallActivities p))"
  proof (rule count_list_map_inj)
    fix c assume "c \<in> set (proc_CallActivities p)"
    from dup [OF name [OF this]] show "count_list (map ca_ID (proc_CallActivities p)) (ca_ID c) \<le> 1"
      by (simp add: scope_ids_def count_list_append)
  qed
  moreover obtain c where c: "FindCallActivity p (ca_ID ca) = Some c"
    using ca by (cases "FindCallActivity p (ca_ID ca)") (auto simp: FindCallActivity_def find_None_iff)
  ultimately have "c = ca" using FindCallActivity_id [OF c] ca by (auto dest: inj_onD)
  with c calls have "\<not> hasBlockingErrors (ValidateCallActivity V ca p defs)" by (simp add: CallActivityHandler_Validate_def)
  then obtain pid q where "called_id ca = Some pid" "pid \<noteq> []" "FindProcessByID defs pid = Some q" "proc_StartEvents q \<noteq> []"
    by (auto simp: ValidateCallActivity_def AppendErr_def split: option.splits if_splits)
  then show ?thesis using ca by (simp add: callee_def runs_call_def calledProcess_def)
qed

lemma validated_sound_below:
  assumes graph: "ValidateCallGraph defs = Some gerrs" "\<not> hasBlockingErrors gerrs"
    and root: "root \<in> set (defs_Processes defs)" "\<not> proc_LibraryModule root" "accepted V defs root"
    and bodies: "ValidateCalledBodies V defs root = Some berrs" "\<not> hasBlockingErrors berrs"
    and procs: "\<And>p. p \<in> set (defs_Processes defs) \<Longrightarrow> flows_ok p" "\<And>p. p \<in> set (defs_Processes defs) \<Longrightarrow> identified p"
  shows "sound_below defs (insert root (called_below defs root))"
proof -
  let ?Ps = "insert root (called_below defs root)"
  note u = call_graph_unique [OF graph]
  have lib: "\<not> library_of defs (proc_ID root)" using library_of_unique [OF u root(1)] root(2) by simp
  have mem: "?Ps \<subseteq> set (defs_Processes defs)" using root(1) called_below_mem by blast
  have acc: "accepted V defs p" if "p \<in> ?Ps" for p
    using that root(3) called_accepted [OF bodies lib _] procs(1) called_below_mem by blast
  have "sound_process p" if "p \<in> ?Ps" for p
    using accepted_sound [OF acc [OF that]] procs mem that by blast
  moreover have "calls_in defs ?Ps p" if p: "p \<in> ?Ps" for p
    unfolding calls_in_def
  proof
    fix ca assume "ca \<in> set (proc_CallActivities p)"
    from accepted_call [OF acc [OF p] _ this] procs(1) mem p obtain q where q: "callee defs ca = Some q" "runs_call defs p ca q" by blast
    have "q \<in> ?Ps"
    proof (cases "proc_ID q = proc_ID root")
      case True
      have "q \<in> set (defs_Processes defs)" using q(2) by (auto simp: runs_call_def intro: calledProcess_mem)
      from unique_ids_eq [OF u this root(1) True] show ?thesis by simp
    next
      case False
      from called_below_step [OF p q(2) False] show ?thesis by simp
    qed
    with q(1) show "set_option (callee defs ca) \<subseteq> ?Ps" by simp
  qed
  ultimately show ?thesis using mem by (simp add: sound_below_def)
qed

end
