(* ===== verification/Compiler_Front.thy ===== *)
theory Compiler_Front
  imports Validate_Walk
begin

text \<open>
  \<open>compiler.go\<close>: validation and compilation of a document.  A record gathers what the compiler uses from elsewhere: the XML
  decoder with the state of the context, the vocabulary of elements, the parameters of the validators, \<open>dsl.ExpandCalls\<close> and
  \<open>StageDef.CreatesHumanTask\<close>.  A result is an error or a value; \<open>None\<close> would mean that the compiler does not return.
\<close>

record CompiledCollaboration =
  cc_MainPlan :: string
  cc_Plans :: "CompiledPlan list"

datatype expand_error = ErrPlanTooLarge | ExpandFailed

record compiler_env =
  cx_tokens :: "string \<Rightarrow> xml_token list \<times> bool"
  cx_decode :: "string \<Rightarrow> BPMNDefinitions option"
  cx_ctxErr :: "nat \<Rightarrow> bool"
  cx_allowed :: "string list"
  cx_validator :: validator_env
  cx_ExpandCalls :: "CompiledCollaboration \<Rightarrow> nat \<Rightarrow> expand_error + CompiledCollaboration"
  cx_CreatesHumanTask :: "StageDef \<Rightarrow> bool"
  cx_callSep :: string

datatype compiler_error =
    CE_Cancelled | CE_Malformed | CE_Forbidden | CE_ValidationFailed "BPMNValidationError list" | CE_Failed | CE_Panic

type_synonym 'a answer = "(compiler_error + 'a) option"

definition bindC :: "'a answer \<Rightarrow> ('a \<Rightarrow> 'b answer) \<Rightarrow> 'b answer" where
  "bindC m f = Option.bind m (\<lambda>r. case r of Inl e \<Rightarrow> Some (Inl e) | Inr a \<Rightarrow> f a)"

lemma bindC_simps [simp]: "bindC None f = None" "bindC (Some (Inl e)) f = Some (Inl e)" "bindC (Some (Inr a)) f = f a"
  by (simp_all add: bindC_def)

lemma bindC_assoc_returns: "(\<exists>r. m = Some r) \<Longrightarrow> (\<And>a. m = Some (Inr a) \<Longrightarrow> \<exists>r. f a = Some r) \<Longrightarrow> \<exists>r. bindC m f = Some r"
  by (auto simp: bindC_def split: sum.splits)

lemma bindC_Inr: "bindC m f = Some (Inr b) \<longleftrightarrow> (\<exists>a. m = Some (Inr a) \<and> f a = Some (Inr b))"
  by (cases m) (auto simp: bindC_def split: sum.splits)

subsection \<open>Parsing\<close>

definition classifyParseError :: "parse_error \<Rightarrow> compiler_error" where
  "classifyParseError e = (case e of Cancelled \<Rightarrow> CE_Cancelled | ForbiddenXML \<Rightarrow> CE_Forbidden | _ \<Rightarrow> CE_Malformed)"

abbreviation parsed :: "compiler_env \<Rightarrow> string \<Rightarrow> parse_error + BPMNDefinitions" where
  "parsed X bpmnXML \<equiv> parse (cx_tokens X) (cx_decode X) (cx_ctxErr X) bpmnXML"

definition scan_document :: "compiler_env \<Rightarrow> string \<Rightarrow> BPMNValidationError list" where
  "scan_document X bpmnXML = scanRejected (cx_allowed X) (fst (cx_tokens X bpmnXML))"

subsection \<open>Validate\<close>

definition implicit_start_of :: "BPMNDefinitions \<Rightarrow> BPMNProcess \<Rightarrow> string" where
  "implicit_start_of defs proc =
     (if proc_StartEvents proc = [] \<and> defs_Collaboration defs \<noteq> None then FindImplicitStart proc (BuildGraph proc) else [])"

definition validateSingleRoot :: "compiler_env \<Rightarrow> string \<Rightarrow> BPMNProcess \<Rightarrow> BPMNDefinitions \<Rightarrow> BPMNValidationError list option" where
  "validateSingleRoot X bpmnXML proc defs =
     Option.bind (ValidateWithImplicitStart (cx_validator X) defs proc (BuildGraph proc) (implicit_start_of defs proc)) (\<lambda>shape.
     map_option (\<lambda>bodies.
         scan_document X bpmnXML @ shape @ ValidateCollaboration (defs_Collaboration defs) defs proc @ bodies @
         ValidateDiagramCompleteness proc defs)
       (ValidateCalledBodies (cx_validator X) defs proc))"

definition validate_root :: "compiler_env \<Rightarrow> string \<Rightarrow> BPMNDefinitions
    \<Rightarrow> (BPMNValidationError list + BPMNProcess \<times> BPMNValidationError list) option" where
  "validate_root X bpmnXML defs =
     Option.bind (ValidateCallGraph defs) (\<lambda>callGraphErrs.
       case runnableRoot defs of
         Inl rootErr \<Rightarrow> Some (Inl (callGraphErrs @ [rootErr]))
       | Inr root \<Rightarrow> map_option (\<lambda>errs. Inr (root, callGraphErrs @ errs)) (validateSingleRoot X bpmnXML root defs))"

definition Compiler_Validate :: "compiler_env \<Rightarrow> string \<Rightarrow> BPMNValidationError list answer" where
  "Compiler_Validate X bpmnXML =
     (case parsed X bpmnXML of
        Inl MissingNamespace \<Rightarrow> Some (Inr [err_of BPMNErrMissingNamespace []])
      | Inl e \<Rightarrow> Some (Inl (classifyParseError e))
      | Inr defs \<Rightarrow> map_option (\<lambda>r. Inr (case r of Inl errs \<Rightarrow> errs | Inr (_, errs) \<Rightarrow> errs)) (validate_root X bpmnXML defs))"

subsection \<open>Compile\<close>

definition compileFailure :: "string \<Rightarrow> compile_error \<Rightarrow> compiler_error" where
  "compileFailure rootID e =
     (case e of
        ErrStageBudget \<Rightarrow> CE_ValidationFailed [err_of BPMNErrTaskLimitExceeded rootID]
      | CompileFailed \<Rightarrow> CE_Failed
      | CompilePanic \<Rightarrow> CE_Panic)"

definition compile_env_of :: "validator_env \<Rightarrow> BPMNDefinitions \<Rightarrow> CompileEnv" where
  "compile_env_of V defs = \<lparr>env_StageTypes = vx_stageTypes V, env_Defs = defs, env_json = vx_json V, env_equalFold = vx_equalFold V\<rparr>"

definition compile_root :: "compiler_env \<Rightarrow> BPMNDefinitions \<Rightarrow> BPMNProcess \<Rightarrow> (CompiledPlan \<times> CompiledPlan list) answer" where
  "compile_root X defs root =
     map_option (map_sum (compileFailure (proc_ID root)) id) (Compile (compile_env_of (cx_validator X) defs) root (BuildGraph root))"

definition compileSingleRoot :: "compiler_env \<Rightarrow> string \<Rightarrow> (CompiledPlan \<times> CompiledPlan list \<times> BPMNProcess) answer" where
  "compileSingleRoot X bpmnXML =
     (case parsed X bpmnXML of
        Inl MissingNamespace \<Rightarrow> Some (Inl (CE_ValidationFailed [err_of BPMNErrMissingNamespace []]))
      | Inl e \<Rightarrow> Some (Inl (classifyParseError e))
      | Inr defs \<Rightarrow>
          Option.bind (validate_root X bpmnXML defs) (\<lambda>r. case r of
            Inl errs \<Rightarrow> Some (Inl (CE_ValidationFailed errs))
          | Inr (root, errs) \<Rightarrow>
              if hasBlockingErrors errs then Some (Inl (CE_ValidationFailed errs))
              else bindC (compile_root X defs root) (\<lambda>(plan, called). Some (Inr (plan, called, root)))))"

definition name_plan :: "BPMNProcess \<Rightarrow> CompiledPlan \<Rightarrow> CompiledPlan" where
  "name_plan root plan = (if pl_Name plan = [] then plan\<lparr>pl_Name := proc_ID root\<rparr> else plan)"

definition collaboration_of :: "CompiledPlan \<Rightarrow> CompiledPlan list \<Rightarrow> CompiledCollaboration" where
  "collaboration_of plan called = \<lparr>cc_MainPlan = pl_Name plan, cc_Plans = plan # called\<rparr>"

definition compileCollaboration :: "compiler_env \<Rightarrow> string \<Rightarrow> (CompiledCollaboration \<times> BPMNProcess) answer" where
  "compileCollaboration X bpmnXML =
     bindC (compileSingleRoot X bpmnXML) (\<lambda>(plan, called, root).
       Some (Inr (collaboration_of (name_plan root plan) called, root)))"

definition Compiler_CompileDraft :: "compiler_env \<Rightarrow> string \<Rightarrow> CompiledCollaboration answer" where
  "Compiler_CompileDraft X bpmnXML = bindC (compileCollaboration X bpmnXML) (\<lambda>(collab, _). Some (Inr collab))"

definition Compiler_Compile :: "compiler_env \<Rightarrow> string \<Rightarrow> CompiledPlan answer" where
  "Compiler_Compile X bpmnXML = bindC (compileSingleRoot X bpmnXML) (\<lambda>(plan, _, _). Some (Inr plan))"

subsection \<open>CompileForPublish\<close>

definition authoredNode :: "string \<Rightarrow> DepartmentDef \<Rightarrow> StageDef \<Rightarrow> string" where
  "authoredNode callSep d s = (case Cut (dd_ID d) callSep of (call, _, True) \<Rightarrow> call | _ \<Rightarrow> sg_NodeID s)"

definition unplacedTasks :: "compiler_env \<Rightarrow> CompiledPlan \<Rightarrow> BPMNValidationError list" where
  "unplacedTasks X plan =
     concat (map (\<lambda>d. if dd_IAMDepartmentID d \<noteq> [] then []
       else map (\<lambda>s. err_of BPMNErrMissingDeptID (authoredNode (cx_callSep X) d s)) (filter (cx_CreatesHumanTask X) (dd_Stages d)))
       (pl_Departments plan))"

definition unassignedTasks :: "compiler_env \<Rightarrow> CompiledPlan \<Rightarrow> BPMNValidationError list" where
  "unassignedTasks X plan =
     concat (map (\<lambda>d. map (\<lambda>s. err_of BPMNErrCandidateUsersEmpty (authoredNode (cx_callSep X) d s))
       (filter (\<lambda>s. cx_CreatesHumanTask X s \<and> sg_DefaultAssignees s = []) (dd_Stages d))) (pl_Departments plan))"

definition expand :: "compiler_env \<Rightarrow> CompiledCollaboration \<Rightarrow> string \<Rightarrow> CompiledCollaboration answer" where
  "expand X collab rootID =
     Some (case cx_ExpandCalls X collab maxUserTasks of
       Inl ErrPlanTooLarge \<Rightarrow> Inl (CE_ValidationFailed [err_of BPMNErrTaskLimitExceeded rootID])
     | Inl ExpandFailed \<Rightarrow> Inl CE_Failed
     | Inr expanded \<Rightarrow> Inr expanded)"

definition checkExpanded :: "compiler_env \<Rightarrow> CompiledCollaboration \<Rightarrow> string \<Rightarrow> unit answer" where
  "checkExpanded X collab rootID =
     bindC (expand X collab rootID) (\<lambda>expanded.
       case cc_Plans expanded of
         [] \<Rightarrow> Some (Inl CE_Panic)
       | main # _ \<Rightarrow>
           (let errs = unplacedTasks X main @ unassignedTasks X main
            in if errs \<noteq> [] then Some (Inl (CE_ValidationFailed errs)) else Some (Inr ())))"

definition Compiler_CompileForPublish :: "compiler_env \<Rightarrow> string \<Rightarrow> CompiledCollaboration answer" where
  "Compiler_CompileForPublish X bpmnXML =
     bindC (compileCollaboration X bpmnXML) (\<lambda>(collab, root).
       if lanelessWork root \<noteq> [] then Some (Inl (CE_ValidationFailed (lanelessWork root)))
       else bindC (checkExpanded X collab (proc_ID root)) (\<lambda>_. Some (Inr collab)))"

definition ValidateForPublish :: "compiler_env \<Rightarrow> string \<Rightarrow> BPMNValidationError list answer" where
  "ValidateForPublish X bpmnXML =
     bindC (Compiler_Validate X bpmnXML) (\<lambda>errs.
       if \<exists>e \<in> set errs. isBlocking e then Some (Inr errs)
       else map_option (\<lambda>r. case r of
           Inl (CE_ValidationFailed failed) \<Rightarrow> Inr (withoutCode errs BPMNErrCandidateUsersEmpty @ failed)
         | Inl e \<Rightarrow> Inl e
         | Inr _ \<Rightarrow> Inr (withoutCode errs BPMNErrCandidateUsersEmpty)) (Compiler_CompileForPublish X bpmnXML))"

definition Compiler_ProcessID :: "compiler_env \<Rightarrow> string \<Rightarrow> compiler_error + string" where
  "Compiler_ProcessID X bpmnXML =
     (case parsed X bpmnXML of
        Inl MissingNamespace \<Rightarrow> Inl (CE_ValidationFailed [err_of BPMNErrMissingNamespace []])
      | Inl e \<Rightarrow> Inl (classifyParseError e)
      | Inr defs \<Rightarrow> (case defs_Processes defs of
          [p] \<Rightarrow> Inr (proc_ID p) | _ \<Rightarrow> Inl (CE_ValidationFailed [err_of BPMNErrMultipleProcesses []])))"

end
