(* ===== verification/Compiler_Correct.thy ===== *)
theory Compiler_Correct
  imports Compiler_Front
begin

text \<open>
  What the compiler promises: validation returns on every document; where the root process is no library process and boundary
  events have identifiers, compilation returns as well, never panics, and what it yields is closed and within the stage
  budget; and validation for publishing agrees with compilation for publishing.
\<close>

subsection \<open>Validation returns\<close>

lemma parsed_flows_ok:
  assumes "parsed X bpmnXML = Inr defs" "p \<in> set (defs_Processes defs)"
  shows "flows_ok p"
proof -
  from assms(1) have "unmarshal (cx_decode X bpmnXML) = Inr defs" by (simp add: parse_Inr)
  from unmarshal_processes [OF this] assms(2) obtain q where "p = normalise_process q" by auto
  then show ?thesis by (simp add: flows_ok_normalised)
qed

lemma root_mem: "runnableRoot defs = Inr root \<Longrightarrow> root \<in> set (defs_Processes defs)"
  using executableProcesses_subset [of defs] by (auto simp: runnableRoot_Inr)

lemma validateSingleRoot_parts:
  assumes "\<And>p. p \<in> set (defs_Processes defs) \<Longrightarrow> flows_ok p" "root \<in> set (defs_Processes defs)"
  shows "\<exists>errs shape bodies. validateSingleRoot X bpmnXML root defs = Some errs \<and>
    ValidateWithImplicitStart (cx_validator X) defs root (BuildGraph root) (implicit_start_of defs root) = Some shape \<and>
    ValidateCalledBodies (cx_validator X) defs root = Some bodies \<and> set shape \<union> set bodies \<subseteq> set errs"
proof -
  from ValidateWithImplicitStart_returns [OF assms(1) [OF assms(2)]] obtain shape where
    "ValidateWithImplicitStart (cx_validator X) defs root (BuildGraph root) (implicit_start_of defs root) = Some shape" by blast
  moreover from ValidateCalledBodies_exact [of defs root "cx_validator X"] assms(1) called_below_mem obtain bodies where
    "ValidateCalledBodies (cx_validator X) defs root = Some bodies" by blast
  ultimately show ?thesis by (auto simp: validateSingleRoot_def)
qed

lemma validate_root_returns:
  assumes "parsed X bpmnXML = Inr defs"
  shows "\<exists>r. validate_root X bpmnXML defs = Some r"
proof -
  from ValidateCallGraph_returns obtain gerrs where g: "ValidateCallGraph defs = Some gerrs" by blast
  show ?thesis
  proof (cases "runnableRoot defs")
    case (Inr root)
    from validateSingleRoot_parts [OF parsed_flows_ok [OF assms] root_mem [OF Inr], of X bpmnXML] obtain errs where
      "validateSingleRoot X bpmnXML root defs = Some errs" by blast
    with g Inr show ?thesis by (simp add: validate_root_def)
  qed (simp add: validate_root_def g)
qed

lemma Compiler_Validate_returns: "\<exists>r. Compiler_Validate X bpmnXML = Some r"
proof (cases "parsed X bpmnXML")
  case (Inl e)
  then show ?thesis by (cases e) (simp_all add: Compiler_Validate_def)
next
  case (Inr defs)
  with validate_root_returns [OF Inr] show ?thesis by (auto simp: Compiler_Validate_def)
qed

subsection \<open>Compilation returns\<close>

definition well_marked :: "compiler_env \<Rightarrow> string \<Rightarrow> bool" where
  "well_marked X bpmnXML \<longleftrightarrow> (\<forall>defs. parsed X bpmnXML = Inr defs \<longrightarrow>
     (\<forall>p \<in> set (defs_Processes defs). identified p) \<and> (\<forall>root. runnableRoot defs = Inr root \<longrightarrow> \<not> proc_LibraryModule root))"

lemma validate_root_Inr:
  assumes "validate_root X bpmnXML defs = Some (Inr (root, errs))"
  obtains gerrs verrs where "ValidateCallGraph defs = Some gerrs" "runnableRoot defs = Inr root"
    "validateSingleRoot X bpmnXML root defs = Some verrs" "errs = gerrs @ verrs"
proof -
  from assms obtain gerrs where g: "ValidateCallGraph defs = Some gerrs"
    by (cases "ValidateCallGraph defs") (simp_all add: validate_root_def)
  with assms obtain r where r: "runnableRoot defs = Inr r" by (cases "runnableRoot defs") (simp_all add: validate_root_def)
  with assms g obtain verrs where v: "validateSingleRoot X bpmnXML r defs = Some verrs"
    by (cases "validateSingleRoot X bpmnXML r defs") (simp_all add: validate_root_def)
  from assms g r v have "r = root" "errs = gerrs @ verrs" by (simp_all add: validate_root_def)
  with g r v that show ?thesis by simp
qed

lemma compile_root_returns:
  assumes marked: "well_marked X bpmnXML" and p: "parsed X bpmnXML = Inr defs"
    and v: "validate_root X bpmnXML defs = Some (Inr (root, errs))" "\<not> hasBlockingErrors errs"
  shows "\<exists>r. compile_root X defs root = Some r"
proof -
  note flows = parsed_flows_ok [OF p]
  from v(1) obtain gerrs verrs where g: "ValidateCallGraph defs = Some gerrs" "runnableRoot defs = Inr root"
    "validateSingleRoot X bpmnXML root defs = Some verrs" "errs = gerrs @ verrs"
    by (rule validate_root_Inr)
  note mem = root_mem [OF g(2)]
  from validateSingleRoot_parts [OF flows mem, of X bpmnXML] obtain verrs' shape bodies where
    v': "validateSingleRoot X bpmnXML root defs = Some verrs'" and
    s': "ValidateWithImplicitStart (cx_validator X) defs root (BuildGraph root) (implicit_start_of defs root) = Some shape"
    "ValidateCalledBodies (cx_validator X) defs root = Some bodies" "set shape \<union> set bodies \<subseteq> set verrs'" by blast
  from v' g(3) have "verrs' = verrs" by simp
  note s = s' [unfolded this]
  have quiet: "\<not> hasBlockingErrors gerrs" "\<not> hasBlockingErrors shape" "\<not> hasBlockingErrors bodies"
    using v(2) s(3) unfolding g(4) hasBlockingErrors_def by auto
  have acc: "accepted (cx_validator X) defs root" using s(1) quiet(2) unfolding accepted_def by blast
  have lib: "\<not> proc_LibraryModule root" and ids: "\<And>p. p \<in> set (defs_Processes defs) \<Longrightarrow> identified p"
    using marked p g(2) unfolding well_marked_def by blast+
  have "sound_below defs (insert root (called_below defs root))"
    by (rule validated_sound_below [OF g(1) quiet(1) mem lib acc s(2) quiet(3) flows ids])
  then have "halts (Compile (compile_env_of (cx_validator X) defs) root (BuildGraph root))"
    by (intro Compile_returns [where Ps = "insert root (called_below defs root)"]) (simp_all add: compile_env_of_def)
  then show ?thesis by (auto simp: compile_root_def halts_def)
qed

definition plans_checked :: "CompiledPlan \<times> CompiledPlan list \<times> BPMNProcess \<Rightarrow> bool" where
  "plans_checked r \<longleftrightarrow> (case r of (plan, called, root) \<Rightarrow> plan_ok plan \<and> (\<forall>pl \<in> set called. plan_ok pl))"

lemma compile_root_ok:
  assumes "compile_root X defs root = Some r"
  shows "r \<noteq> Inl CE_Panic" "r = Inr (plan, called) \<Longrightarrow> plan_ok plan \<and> (\<forall>pl \<in> set called. plan_ok pl)"
proof -
  from assms obtain c where c: "Compile (compile_env_of (cx_validator X) defs) root (BuildGraph root) = Some c"
    "r = map_sum (compileFailure (proc_ID root)) id c" by (auto simp: compile_root_def)
  note ok = Compile_ok [of "compile_env_of (cx_validator X) defs" root "BuildGraph root", unfolded outcome_def c(1)]
  show "r \<noteq> Inl CE_Panic" using ok c(2) by (cases c) (auto simp: compileFailure_def split: compile_error.splits)
  show "r = Inr (plan, called) \<Longrightarrow> plan_ok plan \<and> (\<forall>pl \<in> set called. plan_ok pl)" using ok c(2) by (cases c) auto
qed

lemma compileSingleRoot_ok:
  assumes "compileSingleRoot X bpmnXML = Some r"
  shows "r \<noteq> Inl CE_Panic" "r = Inr t \<Longrightarrow> plans_checked t"
proof -
  have "r \<noteq> Inl CE_Panic \<and> (\<forall>t. r = Inr t \<longrightarrow> plans_checked t)"
  proof (cases "parsed X bpmnXML")
    case (Inl e)
    with assms show ?thesis by (cases e) (auto simp: compileSingleRoot_def classifyParseError_def)
  next
    case (Inr defs)
    with assms obtain v where v: "validate_root X bpmnXML defs = Some v" by (auto simp: compileSingleRoot_def bind_eq_Some_conv)
    show ?thesis
    proof (cases v)
      case (Inl errs)
      with assms Inr v show ?thesis by (auto simp: compileSingleRoot_def)
    next
      case v': (Inr rv)
      obtain root errs where rv: "rv = (root, errs)" by fastforce
      show ?thesis
      proof (cases "hasBlockingErrors errs")
        case True
        with assms Inr v v' rv show ?thesis by (auto simp: compileSingleRoot_def)
      next
        case False
        with assms Inr v v' rv obtain c where c: "compile_root X defs root = Some c"
          "Some r = bindC (Some c) (\<lambda>(plan, called). Some (Inr (plan, called, root)))"
          by (cases "compile_root X defs root") (auto simp: compileSingleRoot_def)
        from compile_root_ok [OF c(1)] c(2) show ?thesis by (cases c) (auto simp: plans_checked_def)
      qed
    qed
  qed
  then show "r \<noteq> Inl CE_Panic" "r = Inr t \<Longrightarrow> plans_checked t" by blast+
qed

lemma compileSingleRoot_returns:
  assumes "well_marked X bpmnXML"
  shows "\<exists>r. compileSingleRoot X bpmnXML = Some r"
proof (cases "parsed X bpmnXML")
  case (Inl e)
  then show ?thesis by (cases e) (simp_all add: compileSingleRoot_def)
next
  case (Inr defs)
  from validate_root_returns [OF Inr] obtain v where v: "validate_root X bpmnXML defs = Some v" by blast
  show ?thesis
  proof (cases v)
    case (Inl errs)
    with Inr v show ?thesis by (simp add: compileSingleRoot_def)
  next
    case v': (Inr rv)
    obtain root errs where rv: "rv = (root, errs)" by fastforce
    show ?thesis
    proof (cases "hasBlockingErrors errs")
      case True
      with Inr v v' rv show ?thesis by (simp add: compileSingleRoot_def)
    next
      case False
      from compile_root_returns [OF assms Inr v [unfolded v' rv] False] obtain c where "compile_root X defs root = Some c" by blast
      with Inr v v' rv False show ?thesis by (cases c) (auto simp: compileSingleRoot_def)
    qed
  qed
qed

subsection \<open>Publishing\<close>

text \<open>A refused document is refused with an error that blocks.\<close>

definition refused_loudly :: "(compiler_error + 'a) \<Rightarrow> bool" where
  "refused_loudly r \<longleftrightarrow> (\<forall>errs. r = Inl (CE_ValidationFailed errs) \<longrightarrow> hasBlockingErrors errs)"

lemma refused_simps [simp]:
  "refused_loudly (Inr a)" "refused_loudly (Inl CE_Failed)" "refused_loudly (Inl CE_Panic)" "refused_loudly (Inl CE_Cancelled)"
  "refused_loudly (Inl CE_Malformed)" "refused_loudly (Inl CE_Forbidden)"
  "refused_loudly (Inl (CE_ValidationFailed errs)) \<longleftrightarrow> hasBlockingErrors errs"
  by (simp_all add: refused_loudly_def)

lemma bindC_refused:
  assumes "bindC m f = Some r" "\<And>a. m = Some a \<Longrightarrow> refused_loudly a" "\<And>a r. f a = Some r \<Longrightarrow> refused_loudly r"
  shows "refused_loudly r"
proof -
  from assms(1) obtain a where a: "m = Some a" by (cases m) auto
  show ?thesis
  proof (cases a)
    case (Inl e)
    with assms(1) a have "r = Inl e" by simp
    with assms(2) [OF a] Inl show ?thesis by (cases e) simp_all
  next
    case (Inr b)
    with assms(1) a have "f b = Some r" by simp
    then show ?thesis by (rule assms(3))
  qed
qed

lemma all_errors_block: "xs \<noteq> [] \<Longrightarrow> (\<And>e. e \<in> set xs \<Longrightarrow> be_Severity e = SeverityError) \<Longrightarrow> hasBlockingErrors xs"
  by (cases xs) (auto simp: hasBlockingErrors_def)

lemma root_err_blocks: "runnableRoot defs = Inl e \<Longrightarrow> hasBlockingErrors [e]"
  by (auto simp: runnableRoot_def hasBlockingErrors_def split: list.splits)

lemma validate_root_Inl: "validate_root X bpmnXML defs = Some (Inl errs) \<Longrightarrow> hasBlockingErrors errs"
proof -
  assume v: "validate_root X bpmnXML defs = Some (Inl errs)"
  obtain gerrs where g: "ValidateCallGraph defs = Some gerrs" using ValidateCallGraph_returns by blast
  show ?thesis
  proof (cases "runnableRoot defs")
    case (Inl e)
    with v g have "errs = gerrs @ [e]" by (simp add: validate_root_def)
    with root_err_blocks [OF Inl] show ?thesis by simp
  next
    case (Inr root)
    with v g show ?thesis by (cases "validateSingleRoot X bpmnXML root defs") (simp_all add: validate_root_def)
  qed
qed

lemma compile_root_refused: "compile_root X defs root = Some r \<Longrightarrow> refused_loudly r"
proof -
  assume "compile_root X defs root = Some r"
  then obtain c where "r = map_sum (compileFailure (proc_ID root)) id c" by (auto simp: compile_root_def)
  then show ?thesis by (cases c) (auto simp: compileFailure_def split: compile_error.split)
qed

lemma compileSingleRoot_cases:
  assumes "parsed X bpmnXML = Inr defs" "validate_root X bpmnXML defs = Some v"
  shows "v = Inl errs \<Longrightarrow> compileSingleRoot X bpmnXML = Some (Inl (CE_ValidationFailed errs))"
    "v = Inr (root, errs) \<Longrightarrow> hasBlockingErrors errs \<Longrightarrow> compileSingleRoot X bpmnXML = Some (Inl (CE_ValidationFailed errs))"
    "v = Inr (root, errs) \<Longrightarrow> \<not> hasBlockingErrors errs \<Longrightarrow>
       compileSingleRoot X bpmnXML = bindC (compile_root X defs root) (\<lambda>(plan, called). Some (Inr (plan, called, root)))"
  using assms by (simp_all add: compileSingleRoot_def)

lemma compileSingleRoot_refused:
  assumes "compileSingleRoot X bpmnXML = Some r"
  shows "refused_loudly r"
proof (cases "parsed X bpmnXML")
  case (Inl e)
  with assms show ?thesis by (cases e) (auto simp: compileSingleRoot_def classifyParseError_def)
next
  case (Inr defs)
  from validate_root_returns [OF Inr] obtain v where v: "validate_root X bpmnXML defs = Some v" by blast
  note c = compileSingleRoot_cases [OF Inr v]
  show ?thesis
  proof (cases v)
    case (Inl errs)
    with c(1) [OF Inl] assms v validate_root_Inl [of X bpmnXML defs errs] show ?thesis by simp
  next
    case v': (Inr rv)
    obtain root errs where rv: "v = Inr (root, errs)" using v' by (cases rv) simp
    show ?thesis
    proof (cases "hasBlockingErrors errs")
      case True
      with c(2) [OF rv True] assms show ?thesis by simp
    next
      case False
      from assms [unfolded c(3) [OF rv False]] show ?thesis
        by (rule bindC_refused) (auto intro: compile_root_refused)
    qed
  qed
qed

lemma checkExpanded_refused: "checkExpanded X collab rootID = Some r \<Longrightarrow> refused_loudly r"
proof -
  assume r: "checkExpanded X collab rootID = Some r"
  have sev: "be_Severity e = SeverityError" if "e \<in> set (unplacedTasks X main @ unassignedTasks X main)" for e main
    using that by (auto simp: unplacedTasks_def unassignedTasks_def split: if_splits)
  have blocks: "unplacedTasks X main @ unassignedTasks X main \<noteq> [] \<Longrightarrow> hasBlockingErrors (unplacedTasks X main @ unassignedTasks X main)" for main
    by (erule all_errors_block) (rule sev)
  show ?thesis
    using r unfolding checkExpanded_def
  proof (rule bindC_refused)
    fix a assume "expand X collab rootID = Some a"
    then show "refused_loudly a" by (auto simp: expand_def split: sum.splits expand_error.splits)
  next
    fix a r
    assume "(case cc_Plans a of [] \<Rightarrow> Some (Inl CE_Panic) | main # _ \<Rightarrow> (let errs = unplacedTasks X main @ unassignedTasks X main
            in if errs \<noteq> [] then Some (Inl (CE_ValidationFailed errs)) else Some (Inr ()))) = Some r"
    then show "refused_loudly r"
      by (cases "cc_Plans a") (auto simp: Let_def simp del: append_is_Nil_conv hasBlocking_append intro: blocks split: if_splits)
  qed
qed

lemma publish_refused: "Compiler_CompileForPublish X bpmnXML = Some r \<Longrightarrow> refused_loudly r"
  unfolding Compiler_CompileForPublish_def compileCollaboration_def
proof (erule bindC_refused, erule bindC_refused)
  show "\<And>a. compileSingleRoot X bpmnXML = Some a \<Longrightarrow> refused_loudly a" by (rule compileSingleRoot_refused)
  show "\<And>a r. (case a of (plan, called, root) \<Rightarrow> Some (Inr (collaboration_of (name_plan root plan) called, root))) = Some r \<Longrightarrow>
      refused_loudly r" by auto
  fix a :: "CompiledCollaboration \<times> BPMNProcess" and r :: "compiler_error + CompiledCollaboration"
  assume a: "(case a of (collab, root) \<Rightarrow> if lanelessWork root \<noteq> [] then Some (Inl (CE_ValidationFailed (lanelessWork root)))
       else bindC (checkExpanded X collab (proc_ID root)) (\<lambda>_. Some (Inr collab))) = Some r"
  obtain collab root where cr: "a = (collab, root)" by fastforce
  show "refused_loudly r"
  proof (cases "lanelessWork root = []")
    case True
    with a have "bindC (checkExpanded X collab (proc_ID root)) (\<lambda>_. Some (Inr collab)) = Some r" by (simp add: cr)
    then show ?thesis by (rule bindC_refused) (auto intro: checkExpanded_refused)
  next
    case False
    with a have "r = Inl (CE_ValidationFailed (lanelessWork root))" by (simp add: cr)
    moreover have "hasBlockingErrors (lanelessWork root)"
      by (rule all_errors_block [OF False]) (auto simp: lanelessWork_def split: if_splits)
    ultimately show ?thesis by simp
  qed
qed

text \<open>A document whose validation blocks does not compile.\<close>

lemma validate_blocks_compile:
  assumes "Compiler_Validate X bpmnXML = Some (Inr errs)" "hasBlockingErrors errs"
  shows "\<exists>failed. compileSingleRoot X bpmnXML = Some (Inl (CE_ValidationFailed failed))"
proof (cases "parsed X bpmnXML")
  case (Inl e)
  with assms show ?thesis by (cases e) (auto simp: compileSingleRoot_def Compiler_Validate_def)
next
  case (Inr defs)
  from validate_root_returns [OF Inr] obtain v where v: "validate_root X bpmnXML defs = Some v" by blast
  note c = compileSingleRoot_cases [OF Inr v]
  show ?thesis
  proof (cases v)
    case (Inl errs)
    with c(1) [OF Inl] show ?thesis by blast
  next
    case v': (Inr rv)
    obtain root es where rv: "v = Inr (root, es)" using v' by (cases rv) simp
    from assms(1) Inr v rv have "es = errs" by (simp add: Compiler_Validate_def)
    with c(2) [OF rv] assms(2) show ?thesis by blast
  qed
qed

lemma publish_agrees:
  assumes "ValidateForPublish X bpmnXML = Some (Inr errs)"
  shows "hasBlockingErrors errs \<longleftrightarrow> \<not> (\<exists>collab. Compiler_CompileForPublish X bpmnXML = Some (Inr collab))"
proof -
  from Compiler_Validate_returns obtain v where v: "Compiler_Validate X bpmnXML = Some v" by blast
  with assms obtain verrs where verrs: "v = Inr verrs" by (cases v) (simp_all add: ValidateForPublish_def)
  show ?thesis
  proof (cases "hasBlockingErrors verrs")
    case True
    then have "errs = verrs" using assms v verrs by (simp add: ValidateForPublish_def hasBlockingErrors_iff)
    moreover from validate_blocks_compile [OF v [unfolded verrs] True] obtain failed where
      "compileSingleRoot X bpmnXML = Some (Inl (CE_ValidationFailed failed))" by blast
    then have "Compiler_CompileForPublish X bpmnXML = Some (Inl (CE_ValidationFailed failed))"
      by (simp add: Compiler_CompileForPublish_def compileCollaboration_def)
    ultimately show ?thesis using True by simp
  next
    case False
    with assms v verrs obtain c where c: "Compiler_CompileForPublish X bpmnXML = Some c"
      "Inr errs = (case c of Inl (CE_ValidationFailed failed) \<Rightarrow> Inr (withoutCode verrs BPMNErrCandidateUsersEmpty @ failed)
         | Inl e \<Rightarrow> Inl e | Inr _ \<Rightarrow> Inr (withoutCode verrs BPMNErrCandidateUsersEmpty))"
      by (auto simp: ValidateForPublish_def hasBlockingErrors_iff)
    show ?thesis
    proof (cases c)
      case (Inl e)
      with c publish_refused [OF c(1)] show ?thesis by (cases e) auto
    next
      case (Inr collab)
      with c False show ?thesis by (auto simp: hasBlockingErrors_withoutCode)
    qed
  qed
qed

text \<open>The checks on the expanded plan, as one condition.\<close>

lemma concat_map_Nil: "concat (map f xs) = [] \<longleftrightarrow> (\<forall>x \<in> set xs. f x = [])"
  by (induction xs) auto

lemma unplacedTasks_Nil: "unplacedTasks X pl = [] \<longleftrightarrow>
    (\<forall>d \<in> set (pl_Departments pl). \<forall>s \<in> set (dd_Stages d). cx_CreatesHumanTask X s \<longrightarrow> dd_IAMDepartmentID d \<noteq> [])"
  unfolding unplacedTasks_def concat_map_Nil by (rule ball_cong [OF refl]) (auto simp: filter_empty_conv)

lemma unassignedTasks_Nil: "unassignedTasks X pl = [] \<longleftrightarrow>
    (\<forall>d \<in> set (pl_Departments pl). \<forall>s \<in> set (dd_Stages d). cx_CreatesHumanTask X s \<longrightarrow> sg_DefaultAssignees s \<noteq> [])"
  unfolding unassignedTasks_def concat_map_Nil by (rule ball_cong [OF refl]) (auto simp: filter_empty_conv)

lemma checkExpanded_exact:
  "checkExpanded X collab rootID = Some (Inr ()) \<longleftrightarrow>
     (\<exists>main rest. map_sum id cc_Plans (cx_ExpandCalls X collab maxUserTasks) = Inr (main # rest) \<and>
       (\<forall>d \<in> set (pl_Departments main). \<forall>s \<in> set (dd_Stages d).
          cx_CreatesHumanTask X s \<longrightarrow> dd_IAMDepartmentID d \<noteq> [] \<and> sg_DefaultAssignees s \<noteq> []))"
proof (cases "cx_ExpandCalls X collab maxUserTasks")
  case (Inl e)
  then show ?thesis by (cases e) (auto simp: checkExpanded_def expand_def bindC_Inr split: list.splits)
next
  case (Inr x)
  then have e: "expand X collab rootID = Some (Inr x)" by (simp add: expand_def)
  show ?thesis
  proof (cases "cc_Plans x")
    case Nil
    then show ?thesis by (simp add: checkExpanded_def e Inr)
  next
    case (Cons main rest)
    have "checkExpanded X collab rootID = Some (Inr ()) \<longleftrightarrow> unplacedTasks X main = [] \<and> unassignedTasks X main = []"
      by (simp add: checkExpanded_def e Cons Let_def)
    then show ?thesis unfolding unplacedTasks_Nil unassignedTasks_Nil by (auto simp: Inr Cons)
  qed
qed

lemma publish_checked:
  assumes "Compiler_CompileForPublish X bpmnXML = Some (Inr collab)"
  shows "Compiler_CompileDraft X bpmnXML = Some (Inr collab)"
    "\<exists>main rest. map_sum id cc_Plans (cx_ExpandCalls X collab maxUserTasks) = Inr (main # rest) \<and>
      (\<forall>d \<in> set (pl_Departments main). \<forall>s \<in> set (dd_Stages d).
         cx_CreatesHumanTask X s \<longrightarrow> dd_IAMDepartmentID d \<noteq> [] \<and> sg_DefaultAssignees s \<noteq> [])"
proof -
  from assms obtain c root where c: "compileCollaboration X bpmnXML = Some (Inr (c, root))"
    "(if lanelessWork root \<noteq> [] then Some (Inl (CE_ValidationFailed (lanelessWork root)))
      else bindC (checkExpanded X c (proc_ID root)) (\<lambda>_. Some (Inr c))) = Some (Inr collab)"
    unfolding Compiler_CompileForPublish_def bindC_Inr by auto
  from c(2) have e: "checkExpanded X c (proc_ID root) = Some (Inr ())" "c = collab"
    by (cases "lanelessWork root = []"; auto simp: bindC_Inr)+
  from c(1) e(2) show "Compiler_CompileDraft X bpmnXML = Some (Inr collab)" by (simp add: Compiler_CompileDraft_def)
  from e show "\<exists>main rest. map_sum id cc_Plans (cx_ExpandCalls X collab maxUserTasks) = Inr (main # rest) \<and>
      (\<forall>d \<in> set (pl_Departments main). \<forall>s \<in> set (dd_Stages d).
         cx_CreatesHumanTask X s \<longrightarrow> dd_IAMDepartmentID d \<noteq> [] \<and> sg_DefaultAssignees s \<noteq> [])"
    unfolding checkExpanded_exact by blast
qed

end
