(* ===== verification/Bpmn_Examples.thy ===== *)
theory Bpmn_Examples
  imports Bpmn_Parser Validate_Flow Validate_Boundary Validate_Tasks
begin

text \<open>
  Small documents that the properties of the compiler are evaluated on: a process with a split, its join,
  a loop back to the split and a boundary event, as the XML decoder hands it to the parser.
\<close>

definition no_process :: BPMNProcess where
  "no_process = \<lparr>proc_ID = [], proc_Name = [], proc_IsExecutable = False, proc_LibraryModule = False,
     proc_ExtensionElements = zero_ext, proc_LaneSet = [], proc_UserTasks = [], proc_GenericTasks = [],
     proc_ServiceTasks = [], proc_SendTasks = [], proc_ReceiveTasks = [], proc_StartEvents = [],
     proc_EndEvents = [], proc_ParallelGateways = [], proc_ExclusiveGateways = [], proc_InclusiveGateways = [],
     proc_SequenceFlows = [], proc_BoundaryEvents = [], proc_SubProcesses = [], proc_CallActivities = [],
     proc_DataStoreRefs = []\<rparr>"

definition ex_flow :: "string \<Rightarrow> string \<Rightarrow> BPMNSequenceFlow" where
  "ex_flow s t = \<lparr>sf_ID = s @ ''_'' @ t, sf_SourceRef = s, sf_TargetRef = t, sf_ConditionExpression = [],
     sf_ExtensionElements = zero_ext\<rparr>"

definition ex_task :: "string \<Rightarrow> BPMNUserTask" where
  "ex_task n = \<lparr>ut_ID = n, ut_Name = n, ut_ExtensionElements = zero_ext\<rparr>"

text \<open>S to the split G, whose branches A and B meet in J; J ends in E or loops back to G.\<close>

definition ex_raw :: BPMNProcess where
  "ex_raw = no_process\<lparr>proc_ID := ''P'', proc_IsExecutable := True,
     proc_StartEvents := [\<lparr>ev_ID = ''S'', ev_Name = []\<rparr>],
     proc_EndEvents := [\<lparr>ev_ID = ''E'', ev_Name = []\<rparr>],
     proc_UserTasks := [ex_task ''A''], proc_GenericTasks := [ex_task ''B''],
     proc_ExclusiveGateways := [\<lparr>gw_ID = ''G'', gw_Name = []\<rparr>, \<lparr>gw_ID = ''J'', gw_Name = []\<rparr>],
     proc_SequenceFlows := [ex_flow ''S'' ''G'', ex_flow ''G'' ''A'', ex_flow ''G'' ''B'', ex_flow ''A'' ''J'',
       ex_flow ''B'' ''J'', ex_flow ''J'' ''E'', ex_flow ''J'' ''G'', ex_flow '''' ''A'']\<rparr>"

abbreviation ex_proc :: BPMNProcess where
  "ex_proc \<equiv> normalise_process ex_raw"

abbreviation ex_graph :: Graph where
  "ex_graph \<equiv> BuildGraph ex_proc"

definition ex_defs :: BPMNDefinitions where
  "ex_defs = \<lparr>defs_Processes = [ex_raw], defs_Collaboration = None, defs_Messages = [], defs_Errors = [],
     defs_Diagrams = [], defs_ModuleProcesses = {}\<rparr>"

definition ex_xml :: string where
  "ex_xml = ''<definitions xmlns=\"'' @ nsBPMN @ ''\" xmlns:zeebe=\"'' @ nsZeebe @ ''\">''"

lemma ex_parse: "\<exists>defs. parse (\<lambda>_. ([OtherToken], True)) (\<lambda>_. Some ex_defs) (\<lambda>_. False) ex_xml = Inr defs"
proof -
  have "securityScan ex_xml = Inr ()" and "requireNamespaces ex_xml = Inr ()" by code_simp+
  then show ?thesis by (simp add: parse_def countTokens_def maxTokens_def unmarshal_def)
qed

lemmas ex_process_simps = normalise_process_def ex_raw_def no_process_def promoteTasks_def connectorServiceTasks_def
  stripEmptyRefFlows_def ex_flow_def ex_task_def

lemma ex_out [simp]:
  "out ex_graph ''S'' = [''G'']" "out ex_graph ''G'' = [''A'', ''B'']" "out ex_graph ''A'' = [''J'']"
  "out ex_graph ''B'' = [''J'']" "out ex_graph ''J'' = [''E'', ''G'']" "out ex_graph ''E'' = []"
  by (simp_all add: out_BuildGraph ex_process_simps)


lemma dfs_run_Nil: "dfs_run g v \<lparr>dc_visited = V, dc_stack = [], dc_state = s\<rparr> = \<lparr>dc_visited = V, dc_stack = [], dc_state = s\<rparr>"
  and dfs_run_Cons: "dfs_run g v \<lparr>dc_visited = V, dc_stack = f # st, dc_state = s\<rparr> =
    dfs_run g v (dfs_step g v \<lparr>dc_visited = V, dc_stack = f # st, dc_state = s\<rparr>)"
  by (simp_all add: dfs_run.simps)

lemma pd_run_Nil: "pd_run g B (w, []) = w"
  and pd_run_Cons: "pd_run g B (w, fr # st) = pd_run g B (pd_step g B (w, fr # st))"
  by (simp_all add: pd_run.simps)

lemma mget_or_Cons: "mget_or d ((k, v) # m) k' = (if k' = k then v else mget_or d m k')"
  by (simp add: mget_or_def)

lemmas run_simps = dfs_run_Nil dfs_run_Cons pd_run_Nil pd_run_Cons mget_or_Cons dfs_step_def dfs_enter_def
  dfs_advance_def Let_def mappend_def

lemma ex_back_edges: "ClassifyBackEdges ex_graph [''S''] = {(''J'', ''G'')}"
  by (simp add: ClassifyBackEdges_def IterativeDFS_def run_simps
        classify_OnEnter_def classify_OnEdge_def classify_OnExit_def classify_init_def)

lemma ex_boundaries [simp]: "proc_BoundaryEvents ex_proc = []"
  by (simp add: ex_process_simps)

lemma ex_edges:
  "edge_rel ex_graph = {(''S'', ''G''), (''G'', ''A''), (''G'', ''B''), (''A'', ''J''), (''B'', ''J''), (''J'', ''E''), (''J'', ''G'')}"
proof -
  have "(u, v) \<in> edge_rel ex_graph \<longleftrightarrow> (u, v) \<in> (\<lambda>sf. (sf_SourceRef sf, sf_TargetRef sf)) ` set (proc_SequenceFlows ex_proc)" for u v
    by (subst edge_rel_BuildGraph) auto
  then have "edge_rel ex_graph = (\<lambda>sf. (sf_SourceRef sf, sf_TargetRef sf)) ` set (proc_SequenceFlows ex_proc)" by auto
  also have "\<dots> =
    {(''S'', ''G''), (''G'', ''A''), (''G'', ''B''), (''A'', ''J''), (''B'', ''J''), (''J'', ''E''), (''J'', ''G'')}"
    by (simp add: ex_process_simps)
  finally show ?thesis .
qed

lemma ex_find_join: "FindJoin ''G'' ex_graph {(''J'', ''G'')} = Some (''J'', True)"
  by (simp add: FindJoin_def forwardCount_def immediatePostDominator_def run_simps walkOnStack_def walkDone_def)
     (simp add: commonAncestor.simps run_simps)

end
