(* ===== verification/Plan_Examples.thy ===== *)
theory Plan_Examples
  imports Compiler_Correct Bpmn_Examples
begin

text \<open>
  A process with one task, compiled: the input that the properties of compiled plans are evaluated on.
\<close>

definition ex_one :: BPMNProcess where
  "ex_one = no_process\<lparr>proc_ID := ''P'', proc_IsExecutable := True,
     proc_StartEvents := [\<lparr>ev_ID = ''S'', ev_Name = []\<rparr>], proc_EndEvents := [\<lparr>ev_ID = ''E'', ev_Name = []\<rparr>],
     proc_UserTasks := [ex_task ''A''], proc_SequenceFlows := [ex_flow ''S'' ''A'', ex_flow ''A'' ''E'']\<rparr>"

definition ex_one_defs :: BPMNDefinitions where
  "ex_one_defs = \<lparr>defs_Processes = [ex_one], defs_Collaboration = None, defs_Messages = [], defs_Errors = [],
     defs_Diagrams = [], defs_ModuleProcesses = {}\<rparr>"

definition ex_cenv :: CompileEnv where
  "ex_cenv = \<lparr>env_StageTypes = [], env_Defs = ex_one_defs, env_json = (\<lambda>_. None), env_equalFold = (=)\<rparr>"

lemmas ex_one_simps = ex_one_def no_process_def ex_flow_def ex_task_def

lemma ex_one_out [simp]:
  "out (BuildGraph ex_one) ''S'' = [''A'']" "out (BuildGraph ex_one) ''A'' = [''E'']" "out (BuildGraph ex_one) ''E'' = []"
  by (simp_all add: out_BuildGraph ex_one_simps)

lemma ex_one_fields [simp]:
  "proc_BoundaryEvents ex_one = []" "proc_LaneSet ex_one = []" "proc_StartEvents ex_one = [\<lparr>ev_ID = ''S'', ev_Name = []\<rparr>]"
  "proc_DataStoreRefs ex_one = []" "proc_Name ex_one = []" "proc_ID ex_one = ''P''"
  by (simp_all add: ex_one_simps)

lemma ex_one_types [simp]:
  "node_type (BuildGraph ex_one) ''A'' = Some NodeTypeUserTask" "node_type (BuildGraph ex_one) ''E'' = Some NodeTypeEndEvent"
  by (simp_all add: node_type_BuildGraph registrations_def ex_one_simps)

lemma ex_one_back [simp]: "ProcessBackEdges ex_one (BuildGraph ex_one) ''S'' = {}"
  by (simp add: ProcessBackEdges_def ClassifyBackEdges_def IterativeDFS_def run_simps
        classify_OnEnter_def classify_OnEdge_def classify_OnExit_def classify_init_def)

lemma TraverseNode_numeral: "TraverseNode (numeral k) env nodeID s = compile_node env (TraverseNode (pred_numeral k) env) nodeID s"
  by (simp add: numeral_eq_Suc)


lemma ex_one_task [simp]: "FindTask ex_one ''A'' = Some (ex_task ''A'')"
  by (simp add: FindTask_def ex_one_simps)

lemma ex_one_events [simp]: "TimerBoundaryFor n ex_one = None" "MessageBoundaryFor n ex_one = None"
  by (simp_all add: TimerBoundaryFor_def MessageBoundaryFor_def)

lemma ex_one_skipped [simp]: "SkippedTasks ex_one g = {}"
  by (simp add: SkippedTasks_def)

lemma ex_one_defs_fields [simp]: "defs_Processes ex_one_defs = [ex_one]"
  by (simp add: ex_one_defs_def)

lemma ex_one_slot [simp]: "ImplicitSlot ex_one = ''P''"
  by (simp add: ImplicitSlot_def) code_simp

definition ex_stage :: StageDef where
  "ex_stage = BuildStageDef (ex_task ''A'') [] ex_one ex_one_defs"

lemma ex_stage_fields [simp]: "sg_BoundaryTimer ex_stage = None" "sg_BoundaryMessage ex_stage = None"
  by (simp_all add: ex_stage_def BuildStageDef_def ConnectorType_def ex_task_def boundary_timer_def boundary_message_def
      buildConnectorStageDef_def zero_ext_def Let_def)

definition ex_plan :: CompiledPlan where
  "ex_plan = \<lparr>pl_Name = [], pl_TaskQueue = defaultTaskQueue,
     pl_Departments = [\<lparr>dd_ID = ''P'', dd_Label = ''P'', dd_IAMDepartmentID = [], dd_Stages = [ex_stage]\<rparr>],
     pl_Steps = [sequential_step [''P'']], pl_VisualElements = []\<rparr>"

lemma ex_one_compile: "Compile ex_cenv ex_one (BuildGraph ex_one) = retT (ex_plan, [])"
  by (simp add: Compile_def CompileWithImplicitStart_def compile_from_def Let_def traverse_fuel_def nodeBudget_def StageBudget_def
     ex_cenv_def NewCompileState_def empty_store_def trav_next_def ForwardNexts_def TraverseNode_numeral compile_node_def stops_at_def
     over_budget_def count_node_def visit_node_def element_compile_def UserTask_Compile_def ex_stage_def [symmetric]
     FillBoundaryTimerTarget_def FillBoundaryMessageTarget_def place_stage_def SegmentOf_def laneOf_def LaneFor_def next_segment_def
     needs_segment_def segmentID_def EnsureDept_def place_node_def AppendStage_def AddToSeqBuf_def FlushSeqBuf_def AppendStep_def
     CompileBoundaryPaths_def)
    (simp add: ResolveTargets_def resolve_dept_def resolve_stage_def map_pointer_def sequential_step_def plan_of_def ex_plan_def
     All_plans_def map_filter_simps mget_or_def)

end
