(* ===== verification/Compiler_Examples.thy ===== *)
theory Compiler_Examples
  imports Plan_Examples
begin

text \<open>
  Documents that the properties of the compiler are evaluated on: a process with one task, and one that calls a library
  module.
\<close>

subsection \<open>Documents\<close>

text \<open>A compiler whose decoder yields one document.\<close>

definition ex_validator :: validator_env where
  "ex_validator = \<lparr>vx_uuid = (\<lambda>_. None), vx_connectors = [], vx_stageTypes = defaultStageTypes, vx_callSep = ''::'',
     vx_condition = (\<lambda>_. True), vx_json = (\<lambda>_. None), vx_toLower = id, vx_equalFold = (=), vx_duration = (\<lambda>_. True),
     vx_order = (\<lambda>_. [])\<rparr>"

definition ex_compiler :: "BPMNDefinitions \<Rightarrow> compiler_env" where
  "ex_compiler defs = \<lparr>cx_tokens = (\<lambda>_. ([OtherToken], True)), cx_decode = (\<lambda>_. Some defs), cx_ctxErr = (\<lambda>_. False),
     cx_allowed = [], cx_validator = ex_validator, cx_ExpandCalls = (\<lambda>collab _. Inr collab), cx_CreatesHumanTask = (\<lambda>_. True),
     cx_callSep = ''::''\<rparr>"

abbreviation ex_X :: compiler_env where
  "ex_X \<equiv> ex_compiler ex_one_defs"

lemma ex_xml_scans: "securityScan ex_xml = Inr ()" "requireNamespaces ex_xml = Inr ()"
  by code_simp+

lemma ex_compiler_parse: "parsed (ex_compiler defs) ex_xml = unmarshal (Some defs)"
  by (simp add: parse_def ex_xml_scans countTokens_def maxTokens_def ex_compiler_def)

lemma ex_X_parse: "parsed ex_X ex_xml = Inr ex_one_defs"
  unfolding ex_compiler_parse
  by (simp add: unmarshal_def markCalledProcesses_def ex_one_defs_def ex_one_simps normalise_process_def promoteTasks_def
      connectorServiceTasks_def stripEmptyRefFlows_def)

lemma ex_X_marked: "well_marked ex_X ex_xml"
  unfolding well_marked_def ex_X_parse
  by (auto simp: identified_def dest!: root_mem) (simp add: ex_one_simps)

text \<open>A process that calls a library module of one task.\<close>

definition ex_module :: BPMNProcess where
  "ex_module = ex_one\<lparr>proc_ID := ''M'', proc_LibraryModule := True\<rparr>"

definition ex_call :: BPMNCallActivity where
  "ex_call = \<lparr>ca_ID = ''C'', ca_Name = [], ca_Incoming = [], ca_Outgoing = [], ca_ExtensionElements = zero_ext\<lparr>ext_ZeebeCalledElement :=
     Some \<lparr>ce_ProcessID = ''M'', ce_PropagateAllChildVariables = False, ce_BindingType = [], ce_VersionTag = []\<rparr>\<rparr>\<rparr>"

definition ex_caller :: BPMNProcess where
  "ex_caller = no_process\<lparr>proc_ID := ''P'', proc_IsExecutable := True, proc_CallActivities := [ex_call]\<rparr>"

definition ex_call_defs :: BPMNDefinitions where
  "ex_call_defs = ex_one_defs\<lparr>defs_Processes := [ex_caller, ex_module], defs_ModuleProcesses := {''M''}\<rparr>"

abbreviation ex_call_X :: compiler_env where
  "ex_call_X \<equiv> ex_compiler ex_call_defs"

lemma ex_called: "calledProcess ex_call_defs ex_call = Some ex_module"
  by (simp add: calledProcess_def called_id_def ex_call_def FindProcessByID_def ex_call_defs_def ex_caller_def ex_module_def)

lemma ex_call_parse: "parsed ex_call_X ex_xml = Inr ex_call_defs"
proof -
  have "map normalise_process (defs_Processes ex_call_defs) = defs_Processes ex_call_defs"
    by (simp add: ex_call_defs_def ex_caller_def ex_module_def ex_one_simps normalise_process_def promoteTasks_def
        connectorServiceTasks_def stripEmptyRefFlows_def)
  then have "ex_call_defs\<lparr>defs_Processes := map normalise_process (defs_Processes ex_call_defs)\<rparr> = ex_call_defs" by simp
  moreover have "markCalledProcesses ex_call_defs = ex_call_defs"
    by (simp add: markCalledProcesses_def mark_call_def ex_call_defs_def ex_caller_def ex_module_def ex_one_simps ex_call_def called_id_def
        FindProcessByID_def)
  ultimately show ?thesis unfolding ex_compiler_parse by (simp add: unmarshal_def)
qed

lemma ex_call_below: "ex_caller \<in> set (defs_Processes ex_call_defs)" "ex_module \<in> called_below ex_call_defs ex_caller"
proof -
  show "ex_caller \<in> set (defs_Processes ex_call_defs)" by (simp add: ex_call_defs_def)
  have "runs_call ex_call_defs ex_caller ex_call ex_module"
    using ex_called by (simp add: runs_call_def ex_caller_def ex_module_def)
  then show "ex_module \<in> called_below ex_call_defs ex_caller"
    by (rule called_below_step [rotated]) (simp_all add: ex_module_def ex_caller_def)
qed

lemma ex_call_unique: "distinct (map proc_ID (defs_Processes ex_call_defs))"
  by (simp add: ex_call_defs_def ex_caller_def ex_module_def)

text \<open>An empty document has no namespaces, and validating it says so.\<close>

lemma ex_empty_publish: "ValidateForPublish ex_X [] = Some (Inr [err_of BPMNErrMissingNamespace []])"
proof -
  have "parsed ex_X [] = Inl MissingNamespace"
  proof -
    have "securityScan [] = Inr ()" "requireNamespaces [] = Inl MissingNamespace"
      by code_simp+
    then show ?thesis by (simp add: parse_def countTokens_def maxTokens_def ex_compiler_def)
  qed
  then show ?thesis by (simp add: ValidateForPublish_def Compiler_Validate_def hasBlockingErrors_def isBlocking_def)
qed

subsection \<open>Boundary events of subprocesses\<close>

text \<open>
  A boundary event with \<open>cancelActivity="0"\<close> is valid and does not interrupt a task, but \<open>boundaryPaths\<close> of
  \<open>element/subprocess.go\<close> takes it for an interrupting one.
\<close>

lemma zero_interrupts_subprocess:
  assumes "proc_BoundaryEvents (c_Proc s) = [be]" "bnd_AttachedToRef be = n" "bnd_Timer be = Some t" "bnd_CancelActivity be = ''0''"
  shows "ValidCancelActivity (bnd_CancelActivity be)" "\<not> IsInterrupting (bnd_CancelActivity be)"
    "fst (snd (boundaryPaths env n s)) = [TimerPath (bnd_ID be) (tm_Duration t) True (fst (BoundaryTarget s (bnd_ID be)))
       (snd (BoundaryTarget s (bnd_ID be))) []]"
  using assms by (simp_all add: ValidCancelActivity_def IsInterrupting_def boundaryPaths_def Let_def map_filter_simps)

end
