(* ===== verification/Http_Idempotency.thy ===== *)
theory Http_Idempotency
  imports Prelude
begin

text \<open>
  \<open>valkey/cache.go\<close> and \<open>http/handler/idempotency.go\<close>: the cache, and the wrapper that lets a request with an
  \<open>Idempotency-Key\<close> header run once.  The requests run concurrently over one cache: each is a state machine whose steps are
  the calls that \<open>WithIdempotency\<close> makes to the cache and to the wrapped handler.  A call to the cache may fail, with or
  without its effect, and a key may expire at any time; the state records that this has happened.
\<close>

subsection \<open>The cache\<close>

text \<open>
  The keys of the server with their values.  The commands of the client library are GET, SET, DEL, SET with NX and the script
  of \<open>DelIfEqual\<close>, which the server runs atomically; an absent key reads as the empty string.
\<close>

type_synonym keyspace = "string \<rightharpoonup> string"

definition Cache_Get :: "string \<Rightarrow> keyspace \<Rightarrow> string" where
  "Cache_Get key c = (case c key of None \<Rightarrow> [] | Some v \<Rightarrow> v)"

definition Cache_Set :: "string \<Rightarrow> string \<Rightarrow> keyspace \<Rightarrow> keyspace" where
  "Cache_Set key v c = c(key \<mapsto> v)"

definition Cache_Del :: "string list \<Rightarrow> keyspace \<Rightarrow> keyspace" where
  "Cache_Del keys c = (\<lambda>k. if k \<in> set keys then None else c k)"

definition Cache_SetNX :: "string \<Rightarrow> string \<Rightarrow> keyspace \<Rightarrow> bool \<times> keyspace" where
  "Cache_SetNX key v c = (case c key of None \<Rightarrow> (True, c(key \<mapsto> v)) | Some _ \<Rightarrow> (False, c))"

definition Cache_DelIfEqual :: "string \<Rightarrow> string \<Rightarrow> keyspace \<Rightarrow> keyspace" where
  "Cache_DelIfEqual key v c = (if c key = Some v then c(key := None) else c)"

subsection \<open>Requests and stored responses\<close>

record response =
  re_Status :: nat
  re_Body :: string

record cachedResp =
  cr_Status :: nat
  cr_Body :: string
  cr_BodyHash :: string

record http_request =
  hr_TenantID :: string
  hr_UserID :: string
  hr_HasContext :: bool
  hr_Method :: string
  hr_Path :: string
  hr_Key :: string
  hr_Body :: "string option"
  hr_IfMatch :: string

text \<open>What comes from elsewhere: SHA-256, the JSON of a stored response, and a new token for each request.\<close>

record idem_env =
  ie_cache :: bool
  ie_hash :: "string \<Rightarrow> string"
  ie_marshal :: "cachedResp \<Rightarrow> string"
  ie_unmarshal :: "string \<Rightarrow> cachedResp option"
  ie_token :: "nat \<Rightarrow> string"

definition maxIdempotencyKeyLength :: nat where
  "maxIdempotencyKeyLength = 256"

definition idempotencyCacheKey :: "string \<Rightarrow> string \<Rightarrow> string \<Rightarrow> string \<Rightarrow> string \<Rightarrow> string" where
  "idempotencyCacheKey tenantID userID meth path key =
     ''idem:'' @ tenantID @ '':'' @ userID @ '':'' @ meth @ '':'' @ path @ '':'' @ key"

definition drainBody :: "idem_env \<Rightarrow> http_request \<Rightarrow> string option" where
  "drainBody E r = map_option (\<lambda>b. ie_hash E (b @ [CHR 0x0A] @ ''If-Match: '' @ hr_IfMatch r)) (hr_Body r)"

definition request_key :: "http_request \<Rightarrow> string" where
  "request_key r = idempotencyCacheKey (hr_TenantID r) (hr_UserID r) (hr_Method r) (hr_Path r) (hr_Key r)"

definition incomingHash :: "idem_env \<Rightarrow> http_request \<Rightarrow> string" where
  "incomingHash E r = (case drainBody E r of None \<Rightarrow> [] | Some h \<Rightarrow> h)"

definition pending_key :: "string \<Rightarrow> string" where
  "pending_key cacheKey = cacheKey @ '':pending''"

subsection \<open>One request\<close>

datatype idem_answer =
    Replay cachedResp
  | KeyReplayed
  | InProgress
  | KeyTooLong
  | Ran response
  | Panicked

text \<open>
  The points between which a request makes one call: the first \<open>replayIfCached\<close>, \<open>reserve\<close>, the second
  \<open>replayIfCached\<close>, the handler, \<open>storeIfSuccess\<close> and the deferred release.  The argument is the token of the
  reservation; there is none when the reservation failed and the request runs without it.
\<close>

datatype phase =
    Bypass
  | Look
  | Reserve
  | Recheck "string option"
  | Running "string option"
  | Storing "string option" response
  | Releasing "string option" idem_answer
  | Answered idem_answer

definition admit :: "idem_env \<Rightarrow> http_request \<Rightarrow> phase" where
  "admit E r =
     (if hr_Key r = [] \<or> \<not> ie_cache E then Bypass
      else if length (hr_Key r) > maxIdempotencyKeyLength then Answered KeyTooLong
      else if \<not> hr_HasContext r then Bypass
      else if drainBody E r = None then Bypass
      else Look)"

text \<open>
  The requests that are to run once: a cache is configured, the request carries a key and a context, and its body can be read.
  The others run without the cache.
\<close>

definition guarded :: "idem_env \<Rightarrow> http_request \<Rightarrow> bool" where
  "guarded E r \<longleftrightarrow> ie_cache E \<and> hr_Key r \<noteq> [] \<and> hr_HasContext r \<and> hr_Body r \<noteq> None"

text \<open>The argument is what the cache holds; \<open>None\<close> stands for going on.\<close>

definition replayIfCached :: "idem_env \<Rightarrow> string \<Rightarrow> string \<Rightarrow> idem_answer option" where
  "replayIfCached E incoming raw =
     (case ie_unmarshal E raw of
        None \<Rightarrow> None
      | Some cr \<Rightarrow> Some (if cr_BodyHash cr \<noteq> [] \<and> cr_BodyHash cr \<noteq> incoming then KeyReplayed else Replay cr))"

definition reserve :: "string \<Rightarrow> string \<Rightarrow> keyspace \<Rightarrow> phase \<times> keyspace" where
  "reserve cacheKey token c =
     (case Cache_SetNX (pending_key cacheKey) token c of
        (True, c') \<Rightarrow> (Recheck (Some token), c')
      | (False, c') \<Rightarrow> (Answered InProgress, c'))"

definition successful :: "response \<Rightarrow> bool" where
  "successful r \<longleftrightarrow> 200 \<le> re_Status r \<and> re_Status r < 300"

definition stored_entry :: "string \<Rightarrow> response \<Rightarrow> cachedResp" where
  "stored_entry h r = \<lparr>cr_Status = re_Status r, cr_Body = re_Body r, cr_BodyHash = h\<rparr>"

definition storeIfSuccess :: "idem_env \<Rightarrow> string \<Rightarrow> string \<Rightarrow> response \<Rightarrow> keyspace \<Rightarrow> keyspace" where
  "storeIfSuccess E cacheKey h r c =
     (if \<not> successful r then c else Cache_Set cacheKey (ie_marshal E (stored_entry h r)) c)"

fun release :: "string \<Rightarrow> string option \<Rightarrow> keyspace \<Rightarrow> keyspace" where
  "release cacheKey None c = c"
| "release cacheKey (Some token) c = Cache_DelIfEqual (pending_key cacheKey) token c"

text \<open>A call to the cache that succeeds, and what the request does when it fails.\<close>

fun cache_call :: "idem_env \<Rightarrow> string \<Rightarrow> string \<Rightarrow> string \<Rightarrow> phase \<Rightarrow> keyspace \<Rightarrow> (phase \<times> keyspace) option" where
  "cache_call E key h token Look c =
     Some (case replayIfCached E h (Cache_Get key c) of Some a \<Rightarrow> Answered a | None \<Rightarrow> Reserve, c)"
| "cache_call E key h token Reserve c = Some (reserve key token c)"
| "cache_call E key h token (Recheck t) c =
     Some (case replayIfCached E h (Cache_Get key c) of Some a \<Rightarrow> Releasing t a | None \<Rightarrow> Running t, c)"
| "cache_call E key h token (Storing t r) c = Some (Releasing t (Ran r), storeIfSuccess E key h r c)"
| "cache_call E key h token (Releasing t a) c = Some (Answered a, release key t c)"
| "cache_call E key h token _ c = None"

fun failed_call :: "phase \<Rightarrow> phase" where
  "failed_call Look = Reserve"
| "failed_call Reserve = Recheck None"
| "failed_call (Recheck t) = Running t"
| "failed_call (Storing t r) = Releasing t (Ran r)"
| "failed_call (Releasing t a) = Answered a"
| "failed_call p = p"

subsection \<open>Concurrent requests\<close>

text \<open>
  The log holds every run of the handler with its response, those of the requests that bypass the cache included; a handler
  may answer anything or panic.
\<close>

record idem_state =
  is_cache :: keyspace
  is_phase :: "nat \<Rightarrow> phase"
  is_log :: "(nat \<times> response) list"
  is_faulty :: bool

definition at_phase :: "nat \<Rightarrow> phase \<Rightarrow> idem_state \<Rightarrow> idem_state" where
  "at_phase i p s = s\<lparr>is_phase := (is_phase s)(i := p)\<rparr>"

definition idem_start :: "idem_env \<Rightarrow> (nat \<Rightarrow> http_request) \<Rightarrow> idem_state" where
  "idem_start E reqs = \<lparr>is_cache = Map.empty, is_phase = (\<lambda>i. admit E (reqs i)), is_log = [], is_faulty = False\<rparr>"

inductive idem_step :: "idem_env \<Rightarrow> (nat \<Rightarrow> http_request) \<Rightarrow> idem_state \<Rightarrow> idem_state \<Rightarrow> bool" for E reqs where
  call: "cache_call E (request_key (reqs i)) (incomingHash E (reqs i)) (ie_token E i) (is_phase s i) (is_cache s) = Some (p, c) \<Longrightarrow>
    idem_step E reqs s (at_phase i p (s\<lparr>is_cache := c\<rparr>))"
| fail: "cache_call E (request_key (reqs i)) (incomingHash E (reqs i)) (ie_token E i) (is_phase s i) (is_cache s) = Some (p, c) \<Longrightarrow>
    c' = is_cache s \<or> c' = c \<Longrightarrow>
    idem_step E reqs s (at_phase i (failed_call (is_phase s i)) (s\<lparr>is_cache := c', is_faulty := True\<rparr>))"
| run: "is_phase s i = Running t \<Longrightarrow> idem_step E reqs s (at_phase i (Storing t r) (s\<lparr>is_log := is_log s @ [(i, r)]\<rparr>))"
| panic: "is_phase s i = Running t \<Longrightarrow> idem_step E reqs s (at_phase i (Releasing t Panicked) s)"
| direct: "is_phase s i = Bypass \<Longrightarrow> idem_step E reqs s (at_phase i (Answered (Ran r)) (s\<lparr>is_log := is_log s @ [(i, r)]\<rparr>))"
| expire: "idem_step E reqs s (s\<lparr>is_cache := (is_cache s)(k := None), is_faulty := True\<rparr>)"

text \<open>What the requests rely on: a stored response reads back, and neither a token nor the empty string is the JSON of one.\<close>

definition codec_ok :: "idem_env \<Rightarrow> bool" where
  "codec_ok E \<longleftrightarrow> (\<forall>cr. ie_unmarshal E (ie_marshal E cr) = Some cr) \<and> (\<forall>i. ie_unmarshal E (ie_token E i) = None) \<and>
     ie_unmarshal E [] = None"

text \<open>The successful runs under a key.\<close>

definition successes :: "(nat \<Rightarrow> http_request) \<Rightarrow> string \<Rightarrow> idem_state \<Rightarrow> (nat \<times> response) list" where
  "successes reqs key s = filter (\<lambda>(i, r). request_key (reqs i) = key \<and> successful r) (is_log s)"

end
