(* ===== verification/Http_Idempotency_Correct.thy ===== *)
theory Http_Idempotency_Correct
  imports Http_Idempotency
begin

text \<open>
  As long as no call to the cache fails and no key expires, the guarded requests under one key are serialised by the
  reservation, the handler succeeds at most once for them, and every replayed answer is the stored one.
\<close>

subsection \<open>The invariant\<close>

fun reserved_by :: "phase \<Rightarrow> string option option" where
  "reserved_by (Recheck t) = Some t"
| "reserved_by (Running t) = Some t"
| "reserved_by (Storing t r) = Some t"
| "reserved_by (Releasing t a) = Some t"
| "reserved_by p = None"

fun replays :: "phase \<Rightarrow> cachedResp option" where
  "replays (Releasing t (Replay cr)) = Some cr"
| "replays (Answered (Replay cr)) = Some cr"
| "replays p = None"

text \<open>A value that a successful run has stored under the key.\<close>

definition stored_by :: "idem_env \<Rightarrow> (nat \<Rightarrow> http_request) \<Rightarrow> (nat \<times> response) list \<Rightarrow> string \<Rightarrow> cachedResp \<Rightarrow> bool" where
  "stored_by E reqs log key cr \<longleftrightarrow> (\<exists>j r. (j, r) \<in> set log \<and> successful r \<and> request_key (reqs j) = key \<and>
     cr = stored_entry (incomingHash E (reqs j)) r)"

locale idem_requests =
  fixes E :: idem_env and reqs :: "nat \<Rightarrow> http_request"
  assumes decode: "ie_unmarshal E (ie_marshal E cr) = Some cr"
    and token: "ie_unmarshal E (ie_token E i) = None"
    and absent: "ie_unmarshal E [] = None"
begin

definition key :: "nat \<Rightarrow> string" where
  "key i = request_key (reqs i)"

definition hash :: "nat \<Rightarrow> string" where
  "hash i = incomingHash E (reqs i)"

definition lock :: "nat \<Rightarrow> string" where
  "lock i = pending_key (key i)"

definition wins :: "(nat \<times> response) list \<Rightarrow> string \<Rightarrow> (nat \<times> response) list" where
  "wins log k = filter (\<lambda>(i, r). key i = k \<and> successful r) log"

lemma lock_inj: "lock i = lock j \<longleftrightarrow> key i = key j"
  by (simp add: lock_def pending_key_def)

definition lock_inv :: "keyspace \<Rightarrow> (nat \<Rightarrow> phase) \<Rightarrow> bool" where
  "lock_inv c P \<longleftrightarrow> (\<forall>i t. reserved_by (P i) = Some t \<longrightarrow> t = Some (ie_token E i) \<and> c (lock i) \<noteq> None) \<and>
     (\<forall>i j. reserved_by (P i) \<noteq> None \<longrightarrow> reserved_by (P j) \<noteq> None \<longrightarrow> key i = key j \<longrightarrow> i = j)"

definition log_inv :: "keyspace \<Rightarrow> (nat \<Rightarrow> phase) \<Rightarrow> (nat \<times> response) list \<Rightarrow> bool" where
  "log_inv c P log \<longleftrightarrow>
     (\<forall>i r. (i, r) \<in> set log \<longrightarrow> successful r \<longrightarrow> (\<exists>t. P i = Storing t r) \<or> c (key i) = Some (ie_marshal E (stored_entry (hash i) r))) \<and>
     (\<forall>i t r. P i = Storing t r \<longrightarrow> (i, r) \<in> set log) \<and>
     (\<forall>i t. P i = Running t \<longrightarrow> wins log (key i) = []) \<and>
     (\<forall>k. length (wins log k) \<le> 1)"

definition value_inv :: "keyspace \<Rightarrow> (nat \<Rightarrow> phase) \<Rightarrow> (nat \<times> response) list \<Rightarrow> bool" where
  "value_inv c P log \<longleftrightarrow>
     (\<forall>k v. c k = Some v \<longrightarrow> (\<exists>i. v = ie_token E i) \<or> (\<exists>cr. stored_by E reqs log k cr \<and> v = ie_marshal E cr)) \<and>
     (\<forall>i cr. replays (P i) = Some cr \<longrightarrow> stored_by E reqs log (key i) cr \<and> (cr_BodyHash cr = [] \<or> cr_BodyHash cr = hash i))"

lemma wins_Nil: "wins log k = [] \<longleftrightarrow> (\<forall>i r. (i, r) \<in> set log \<longrightarrow> key i = k \<longrightarrow> \<not> successful r)"
  by (auto simp: wins_def filter_empty_conv)

lemma wins_one:
  assumes "length (wins log k) \<le> 1" "(i, r) \<in> set log" "(j, r') \<in> set log" "successful r" "successful r'" "key i = k" "key j = k"
  shows "(i, r) = (j, r')"
proof -
  have "(i, r) \<in> set (wins log k)" "(j, r') \<in> set (wins log k)" using assms by (auto simp: wins_def)
  with assms(1) show ?thesis by (cases "wins log k") auto
qed

text \<open>What a lookup that goes on says of the cache.\<close>

lemma lookup_misses: "replayIfCached E h (Cache_Get k c) = None \<Longrightarrow> c k = Some (ie_marshal E cr) \<Longrightarrow> False"
  by (simp add: replayIfCached_def Cache_Get_def decode)

lemma lookup_hits:
  assumes "value_inv c P log" "replayIfCached E (hash i) (Cache_Get (key i) c) = Some a"
  shows "a = KeyReplayed \<or> (\<exists>cr. a = Replay cr \<and> stored_by E reqs log (key i) cr \<and> (cr_BodyHash cr = [] \<or> cr_BodyHash cr = hash i))"
proof -
  from assms(2) obtain v where v: "c (key i) = Some v" by (auto simp: replayIfCached_def Cache_Get_def absent split: option.splits)
  with assms(2) have "ie_unmarshal E v \<noteq> None" by (auto simp: replayIfCached_def Cache_Get_def split: option.splits)
  with assms(1) v obtain cr where "stored_by E reqs log (key i) cr" "v = ie_marshal E cr"
    unfolding value_inv_def using token by fastforce
  with assms(2) v show ?thesis by (auto simp: replayIfCached_def Cache_Get_def decode split: if_splits)
qed

subsection \<open>Steps\<close>

definition all_inv :: "keyspace \<Rightarrow> (nat \<Rightarrow> phase) \<Rightarrow> (nat \<times> response) list \<Rightarrow> bool" where
  "all_inv c P log \<longleftrightarrow> lock_inv c P \<and> log_inv c P log \<and> value_inv c P log"

lemma lock_mutex:
  assumes "all_inv c P log" "reserved_by (P i) = Some t" "reserved_by (P j) = Some t'" "key i = key j"
  shows "i = j"
  using assms unfolding all_inv_def lock_inv_def by blast

lemma lock_held: "all_inv c P log \<Longrightarrow> reserved_by (P i) = Some t \<Longrightarrow> t = Some (ie_token E i)"
  unfolding all_inv_def lock_inv_def by blast

lemma stored_by_mono: "stored_by E reqs log k cr \<Longrightarrow> stored_by E reqs (log @ rest) k cr"
  unfolding stored_by_def by fastforce

text \<open>A step that leaves the cache and the log alone.\<close>

lemma inv_move:
  assumes "all_inv c P log"
    and "\<And>t. reserved_by p = Some t \<Longrightarrow> reserved_by (P i) = Some t"
    and "\<And>t r. P i \<noteq> Storing t r" "\<And>t r. p \<noteq> Storing t r"
    and "\<And>t. p = Running t \<Longrightarrow> wins log (key i) = []"
    and "\<And>cr. replays p = Some cr \<Longrightarrow> stored_by E reqs log (key i) cr \<and> (cr_BodyHash cr = [] \<or> cr_BodyHash cr = hash i)"
  shows "all_inv c (P(i := p)) log"
proof -
  have "lock_inv c (P(i := p))"
    using assms(1) assms(2) unfolding all_inv_def lock_inv_def by (auto split: if_splits)
  moreover have "log_inv c (P(i := p)) log"
    using assms(1,3,4,5) unfolding all_inv_def log_inv_def by (auto split: if_splits) metis
  moreover have "value_inv c (P(i := p)) log"
    using assms(1,6) unfolding all_inv_def value_inv_def by auto
  ultimately show ?thesis by (simp add: all_inv_def)
qed

lemma reserve_sets: "reserve (key i) tok c = (p, c') \<Longrightarrow>
    (p = Recheck (Some tok) \<and> c (lock i) = None \<and> c' = c(lock i \<mapsto> tok)) \<or> (p = Answered InProgress \<and> c' = c)"
  by (auto simp: reserve_def Cache_SetNX_def lock_def split: option.splits)

lemma log_inv_change:
  assumes "log_inv c P log" and "\<And>j v. c (key j) = Some v \<Longrightarrow> c' (key j) = Some v"
    and "\<And>t r. P i \<noteq> Storing t r" "\<And>t r. p \<noteq> Storing t r" "\<And>t. p \<noteq> Running t"
  shows "log_inv c' (P(i := p)) log"
  unfolding log_inv_def
proof (intro conjI allI impI)
  fix j r assume "(j, r) \<in> set log" "successful r"
  then have "(\<exists>t. P j = Storing t r) \<or> c (key j) = Some (ie_marshal E (stored_entry (hash j) r))"
    using assms(1) unfolding log_inv_def by blast
  then show "(\<exists>t. (P(i := p)) j = Storing t r) \<or> c' (key j) = Some (ie_marshal E (stored_entry (hash j) r))"
    using assms(2,3) by (cases "j = i") auto
next
  fix j t r assume "(P(i := p)) j = Storing t r"
  then have "P j = Storing t r" using assms(4) by (cases "j = i") auto
  then show "(j, r) \<in> set log" using assms(1) unfolding log_inv_def by blast
next
  fix j t assume "(P(i := p)) j = Running t"
  then have "P j = Running t" using assms(5) by (cases "j = i") auto
  then show "wins log (key j) = []" using assms(1) unfolding log_inv_def by blast
next
  fix k show "length (wins log k) \<le> 1" using assms(1) unfolding log_inv_def by blast
qed

lemma inv_reserve:
  assumes inv: "all_inv c P log" and "P i = Reserve" and "c (lock i) = None"
  shows "all_inv (c(lock i \<mapsto> ie_token E i)) (P(i := Recheck (Some (ie_token E i)))) log"
proof -
  have free: "reserved_by (P j) = None" if "key j = key i" for j
  proof (rule ccontr)
    assume "reserved_by (P j) \<noteq> None"
    with inv have "c (lock j) \<noteq> None" by (auto simp: all_inv_def lock_inv_def)
    with assms(3) that lock_inj show False by metis
  qed
  have "lock_inv (c(lock i \<mapsto> ie_token E i)) (P(i := Recheck (Some (ie_token E i))))"
    using inv free unfolding all_inv_def lock_inv_def by (auto split: if_splits)
  moreover have "log_inv (c(lock i \<mapsto> ie_token E i)) (P(i := Recheck (Some (ie_token E i)))) log"
  proof (rule log_inv_change)
    show "log_inv c P log" using inv by (simp add: all_inv_def)
    show "c (key j) = Some v \<Longrightarrow> (c(lock i \<mapsto> ie_token E i)) (key j) = Some v" for j v using assms(3) by auto
  qed (simp_all add: assms(2))
  moreover have "value_inv (c(lock i \<mapsto> ie_token E i)) (P(i := Recheck (Some (ie_token E i)))) log"
    using inv unfolding all_inv_def value_inv_def by auto
  ultimately show ?thesis by (simp add: all_inv_def)
qed

lemma inv_recheck:
  assumes inv: "all_inv c P log" and at: "P i = Recheck t" and miss: "replayIfCached E (hash i) (Cache_Get (key i) c) = None"
  shows "wins log (key i) = []"
  unfolding wins_Nil
proof (intro allI impI notI)
  fix j r assume j: "(j, r) \<in> set log" "key j = key i" "successful r"
  with inv have "(\<exists>t. P j = Storing t r) \<or> c (key j) = Some (ie_marshal E (stored_entry (hash j) r))"
    unfolding all_inv_def log_inv_def by blast
  then show False
  proof
    assume "\<exists>t. P j = Storing t r"
    then obtain t' where j': "P j = Storing t' r" by blast
    have "j = i" by (rule lock_mutex [OF inv _ _ j(2)]) (simp_all add: at j')
    with at j' show False by simp
  next
    assume "c (key j) = Some (ie_marshal E (stored_entry (hash j) r))"
    with j(2) have "c (key i) = Some (ie_marshal E (stored_entry (hash j) r))" by simp
    then show False by (rule lookup_misses [OF miss])
  qed
qed

lemma inv_run:
  assumes inv: "all_inv c P log" and at: "P i = Running t"
  shows "all_inv c (P(i := Storing t r)) (log @ [(i, r)])"
proof -
  have none: "wins log (key i) = []" using inv at unfolding all_inv_def log_inv_def by blast
  have lock: "lock_inv c (P(i := Storing t r))"
    using inv at unfolding all_inv_def lock_inv_def by (auto split: if_splits)
  have wins: "wins (log @ [(i, r)]) k = wins log k @ (if key i = k \<and> successful r then [(i, r)] else [])" for k
    by (simp add: wins_def)
  have "log_inv c (P(i := Storing t r)) (log @ [(i, r)])"
    unfolding log_inv_def
  proof (intro conjI allI impI)
    fix j r' assume "(j, r') \<in> set (log @ [(i, r)])" "successful r'"
    then have "(j, r') = (i, r) \<or> (j, r') \<in> set log \<and> key j \<noteq> key i" using none by (auto simp: wins_Nil)
    then show "(\<exists>ta. (P(i := Storing t r)) j = Storing ta r') \<or> c (key j) = Some (ie_marshal E (stored_entry (hash j) r'))"
      using inv \<open>successful r'\<close> unfolding all_inv_def log_inv_def by auto
  next
    fix j ta r' assume "(P(i := Storing t r)) j = Storing ta r'"
    then show "(j, r') \<in> set (log @ [(i, r)])"
      using inv unfolding all_inv_def log_inv_def by (cases "j = i") auto
  next
    fix j ta assume j: "(P(i := Storing t r)) j = Running ta"
    then have "j \<noteq> i" "P j = Running ta" by (auto split: if_splits)
    moreover from this have "key j \<noteq> key i"
      using lock_mutex [OF inv, of j ta i t] at by auto
    moreover have "wins log (key j) = []" using inv \<open>P j = Running ta\<close> unfolding all_inv_def log_inv_def by blast
    ultimately show "wins (log @ [(i, r)]) (key j) = []" by (simp add: wins)
  next
    fix k show "length (wins (log @ [(i, r)]) k) \<le> 1"
      using inv none unfolding all_inv_def log_inv_def by (auto simp: wins)
  qed
  moreover have "value_inv c (P(i := Storing t r)) (log @ [(i, r)])"
  proof -
    have v: "value_inv c P log" using inv by (simp add: all_inv_def)
    show ?thesis unfolding value_inv_def
    proof (intro conjI allI impI)
      fix k v assume "c k = Some v"
      with v show "(\<exists>i. v = ie_token E i) \<or> (\<exists>cr. stored_by E reqs (log @ [(i, r)]) k cr \<and> v = ie_marshal E cr)"
        unfolding value_inv_def using stored_by_mono by blast
    next
      fix j cr assume "replays ((P(i := Storing t r)) j) = Some cr"
      then have "replays (P j) = Some cr" by (cases "j = i") auto
      with v have "stored_by E reqs log (key j) cr" "cr_BodyHash cr = [] \<or> cr_BodyHash cr = hash j"
        unfolding value_inv_def by blast+
      then show "stored_by E reqs (log @ [(i, r)]) (key j) cr" "cr_BodyHash cr = [] \<or> cr_BodyHash cr = hash j"
        by (simp_all add: stored_by_mono)
    qed
  qed
  ultimately show ?thesis using lock by (simp add: all_inv_def)
qed

text \<open>Storing the response, and releasing the reservation.\<close>

lemma inv_store:
  assumes inv: "all_inv c P log" and at: "P i = Storing t r"
  shows "all_inv (storeIfSuccess E (key i) (hash i) r c) (P(i := Releasing t (Ran r))) log"
proof -
  let ?c = "storeIfSuccess E (key i) (hash i) r c" and ?P = "P(i := Releasing t (Ran r))"
  have logged: "(i, r) \<in> set log" using inv at unfolding all_inv_def log_inv_def by blast
  have here: "?c (key i) = Some (ie_marshal E (stored_entry (hash i) r))" if "successful r"
    using that by (simp add: storeIfSuccess_def Cache_Set_def)
  have there: "?c k = c k \<or> k = key i \<and> successful r \<and> ?c k = Some (ie_marshal E (stored_entry (hash i) r))" for k
    by (simp add: storeIfSuccess_def Cache_Set_def)
  have "lock_inv ?c ?P"
  proof -
    have "?c k \<noteq> None" if "c k \<noteq> None" for k using there [of k] that by auto
    then show ?thesis using inv at unfolding all_inv_def lock_inv_def by (auto split: if_splits)
  qed
  moreover have "log_inv ?c ?P log"
    unfolding log_inv_def
  proof (intro conjI allI impI)
    fix j r' assume j: "(j, r') \<in> set log" "successful r'"
    show "(\<exists>ta. ?P j = Storing ta r') \<or> ?c (key j) = Some (ie_marshal E (stored_entry (hash j) r'))"
    proof (cases "key j = key i \<and> successful r")
      case True
      have "length (wins log (key i)) \<le> 1" using inv unfolding all_inv_def log_inv_def by blast
      from wins_one [OF this j(1) logged j(2)] True have "j = i" "r' = r" by auto
      with here j(2) show ?thesis by simp
    next
      case False
      have "(\<exists>ta. P j = Storing ta r') \<or> c (key j) = Some (ie_marshal E (stored_entry (hash j) r'))"
        using inv j unfolding all_inv_def log_inv_def by blast
      moreover have "j \<noteq> i" if "P j = Storing ta r'" for ta using that at False j(2) by auto
      ultimately show ?thesis using there [of "key j"] False by auto
    qed
  next
    fix j ta r' assume "?P j = Storing ta r'"
    then have "P j = Storing ta r'" by (auto split: if_splits)
    then show "(j, r') \<in> set log" using inv unfolding all_inv_def log_inv_def by blast
  next
    fix j ta assume "?P j = Running ta"
    then have "P j = Running ta" by (auto split: if_splits)
    then show "wins log (key j) = []" using inv unfolding all_inv_def log_inv_def by blast
  next
    fix k show "length (wins log k) \<le> 1" using inv unfolding all_inv_def log_inv_def by blast
  qed
  moreover have "value_inv ?c ?P log"
  proof -
    have v: "value_inv c P log" using inv by (simp add: all_inv_def)
    have "stored_by E reqs log (key i) (stored_entry (hash i) r)" if "successful r"
      using logged that by (auto simp: stored_by_def key_def hash_def)
    with v there show ?thesis unfolding value_inv_def by (auto split: if_splits) (metis option.inject)
  qed
  ultimately show ?thesis by (simp add: all_inv_def)
qed

lemma inv_release:
  assumes inv: "all_inv c P log" and at: "P i = Releasing t a"
  shows "all_inv (release (key i) t c) (P(i := Answered a)) log"
proof -
  have t: "t = Some (ie_token E i)" by (rule lock_held [OF inv]) (simp add: at)
  let ?c = "release (key i) t c" and ?P = "P(i := Answered a)"
  have c: "?c k = c k \<or> k = lock i \<and> c k = Some (ie_token E i) \<and> ?c k = None" for k
    by (simp add: t Cache_DelIfEqual_def lock_def)
  have "lock_inv ?c ?P"
    unfolding lock_inv_def
  proof (intro conjI allI impI)
    fix j t' assume "reserved_by (?P j) = Some t'"
    then have j: "j \<noteq> i" "reserved_by (P j) = Some t'" by (auto split: if_splits)
    have "key j \<noteq> key i" using lock_mutex [OF inv j(2), of i t] j(1) at by auto
    then have "lock j \<noteq> lock i" by (simp add: lock_inj)
    then show "t' = Some (ie_token E j)" "?c (lock j) \<noteq> None"
      using c [of "lock j"] inv j(2) unfolding all_inv_def lock_inv_def by auto
  next
    fix j k assume "reserved_by (?P j) \<noteq> None" "reserved_by (?P k) \<noteq> None" "key j = key k"
    then show "j = k" using inv unfolding all_inv_def lock_inv_def by (auto split: if_splits)
  qed
  moreover have "log_inv ?c ?P log"
    unfolding log_inv_def
  proof (intro conjI allI impI)
    fix j r' assume j: "(j, r') \<in> set log" "successful r'"
    have "(\<exists>ta. P j = Storing ta r') \<or> c (key j) = Some (ie_marshal E (stored_entry (hash j) r'))"
      using inv j unfolding all_inv_def log_inv_def by blast
    moreover have "ie_marshal E cr \<noteq> ie_token E i" for cr using decode [of cr] token [of i] by auto
    ultimately show "(\<exists>ta. ?P j = Storing ta r') \<or> ?c (key j) = Some (ie_marshal E (stored_entry (hash j) r'))"
      using c [of "key j"] at by auto
  next
    fix j ta r' assume "?P j = Storing ta r'"
    then have "P j = Storing ta r'" by (auto split: if_splits)
    then show "(j, r') \<in> set log" using inv unfolding all_inv_def log_inv_def by blast
  next
    fix j ta assume "?P j = Running ta"
    then have "P j = Running ta" by (auto split: if_splits)
    then show "wins log (key j) = []" using inv unfolding all_inv_def log_inv_def by blast
  next
    fix k show "length (wins log k) \<le> 1" using inv unfolding all_inv_def log_inv_def by blast
  qed
  moreover have "value_inv ?c ?P log"
  proof -
    have v: "value_inv c P log" using inv by (simp add: all_inv_def)
    show ?thesis unfolding value_inv_def
    proof (intro conjI allI impI)
      fix k v assume "?c k = Some v"
      with c [of k] have "c k = Some v" by auto
      with v show "(\<exists>i. v = ie_token E i) \<or> (\<exists>cr. stored_by E reqs log k cr \<and> v = ie_marshal E cr)"
        unfolding value_inv_def by blast
    next
      fix j cr assume "replays (?P j) = Some cr"
      then have "replays (P j) = Some cr" using at by (cases "j = i"; cases a) auto
      with v show "stored_by E reqs log (key j) cr" "cr_BodyHash cr = [] \<or> cr_BodyHash cr = hash j"
        unfolding value_inv_def by blast+
    qed
  qed
  ultimately show ?thesis by (simp add: all_inv_def)
qed

subsection \<open>Runs\<close>

text \<open>A guarded request never bypasses the cache, and the others never get past the checks.\<close>

definition admitted :: "(nat \<Rightarrow> phase) \<Rightarrow> bool" where
  "admitted P \<longleftrightarrow> (\<forall>i. (P i = Bypass \<longrightarrow> \<not> guarded E (reqs i)) \<and> (\<not> guarded E (reqs i) \<longrightarrow> P i = Bypass \<or> P i \<in> range Answered))"

lemma admitted_start: "admitted (\<lambda>i. admit E (reqs i))"
  by (auto simp: admitted_def admit_def guarded_def drainBody_def)

lemma admitted_update:
  assumes "admitted P" and "P i \<noteq> Bypass" and "P i \<notin> range Answered" and "p \<noteq> Bypass"
  shows "admitted (P(i := p))"
  using assms by (auto simp: admitted_def)

lemma admitted_running: "admitted P \<Longrightarrow> P i = Running t \<Longrightarrow> guarded E (reqs i)"
  by (force simp: admitted_def)

lemma cache_call_phase:
  assumes "cache_call E k h t P c = Some (p, c')"
  shows "P \<noteq> Bypass" "P \<notin> range Answered" "p \<noteq> Bypass" "failed_call P \<noteq> Bypass"
  using assms by (cases P; auto simp: reserve_def split: option.splits prod.splits bool.splits)+

definition guarded_runs :: "(nat \<times> response) list \<Rightarrow> (nat \<times> response) list" where
  "guarded_runs log = filter (\<lambda>(i, r). guarded E (reqs i)) log"

lemma guarded_runs_append:
  "guarded_runs (log @ [(i, r)]) = guarded_runs log @ (if guarded E (reqs i) then [(i, r)] else [])"
  by (simp add: guarded_runs_def)

definition run_inv :: "idem_state \<Rightarrow> bool" where
  "run_inv s \<longleftrightarrow> admitted (is_phase s) \<and> (is_faulty s \<or> all_inv (is_cache s) (is_phase s) (guarded_runs (is_log s)))"

lemma inv_call:
  assumes inv: "all_inv c P log" and call: "cache_call E (key i) (hash i) (ie_token E i) (P i) c = Some (p, c')"
  shows "all_inv c' (P(i := p)) log"
proof (cases "P i")
  case Look
  with call have c: "c' = c" and p: "p = (case replayIfCached E (hash i) (Cache_Get (key i) c) of Some a \<Rightarrow> Answered a | None \<Rightarrow> Reserve)"
    by auto
  have v: "value_inv c P log" using inv by (simp add: all_inv_def)
  show ?thesis unfolding c
    by (rule inv_move [OF inv])
      (use Look p lookup_hits [OF v, of i] in \<open>auto split: option.splits\<close>)
next
  case Reserve
  with call have "reserve (key i) (ie_token E i) c = (p, c')" by simp
  then consider "p = Recheck (Some (ie_token E i))" "c (lock i) = None" "c' = c(lock i \<mapsto> ie_token E i)"
    | "p = Answered InProgress" "c' = c"
    by (meson reserve_sets)
  then show ?thesis
  proof cases
    case 1
    then show ?thesis using inv_reserve [OF inv Reserve] by simp
  next
    case 2
    show ?thesis unfolding 2 by (rule inv_move [OF inv]) (auto simp: Reserve)
  qed
next
  case (Recheck t)
  with call have c: "c' = c" and p: "p = (case replayIfCached E (hash i) (Cache_Get (key i) c) of Some a \<Rightarrow> Releasing t a | None \<Rightarrow> Running t)"
    by auto
  have v: "value_inv c P log" using inv by (simp add: all_inv_def)
  show ?thesis unfolding c
    by (rule inv_move [OF inv])
      (use Recheck p lookup_hits [OF v, of i] inv_recheck [OF inv Recheck] in \<open>auto split: option.splits\<close>)
next
  case (Storing t r)
  with call inv_store [OF inv Storing] show ?thesis by auto
next
  case (Releasing t a)
  with call inv_release [OF inv Releasing] show ?thesis by auto
qed (use call in auto)

lemma admitted_step:
  assumes "idem_step E reqs s s'" "admitted (is_phase s)"
  shows "admitted (is_phase s')"
  using assms(1)
proof cases
  case (call i p c)
  with admitted_update [OF assms(2)] cache_call_phase [OF call(2)] show ?thesis by (simp add: at_phase_def)
next
  case (fail i p c c')
  with admitted_update [OF assms(2)] cache_call_phase [OF fail(2)] show ?thesis by (simp add: at_phase_def)
next
  case (run i t r)
  with admitted_update [OF assms(2), of i] show ?thesis by (auto simp: at_phase_def)
next
  case (panic i t)
  with admitted_update [OF assms(2), of i] show ?thesis by (auto simp: at_phase_def)
next
  case (direct i r)
  with assms(2) show ?thesis by (auto simp: admitted_def at_phase_def)
next
  case expire
  with assms(2) show ?thesis by simp
qed

lemma run_inv_step:
  assumes "idem_step E reqs s s'" "run_inv s"
  shows "run_inv s'"
proof -
  have adm: "admitted (is_phase s)" using assms(2) by (simp add: run_inv_def)
  have adm': "admitted (is_phase s')" by (rule admitted_step [OF assms(1) adm])
  from assms(1) show ?thesis
  proof cases
    case (call i p c)
    have "all_inv c ((is_phase s)(i := p)) log" if "all_inv (is_cache s) (is_phase s) log" for log
      by (rule inv_call [OF that]) (use call(2) in \<open>simp add: key_def hash_def\<close>)
    with assms(2) adm' call(1) show ?thesis by (auto simp: run_inv_def at_phase_def)
  next
    case (run i t r)
    have "all_inv (is_cache s) ((is_phase s)(i := Storing t r)) (log @ [(i, r)])"
      if "all_inv (is_cache s) (is_phase s) log" for log
      by (rule inv_run [OF that run(2)])
    moreover have "guarded_runs (is_log s @ [(i, r)]) = guarded_runs (is_log s) @ [(i, r)]"
      using admitted_running [OF adm run(2)] by (simp add: guarded_runs_append)
    ultimately show ?thesis using assms(2) adm' run(1) by (auto simp: run_inv_def at_phase_def)
  next
    case (panic i t)
    have "all_inv (is_cache s) ((is_phase s)(i := Releasing t Panicked)) log"
      if "all_inv (is_cache s) (is_phase s) log" for log
      by (rule inv_move [OF that]) (auto simp: panic)
    with assms(2) adm' panic(1) show ?thesis by (auto simp: run_inv_def at_phase_def)
  next
    case (direct i r)
    have "all_inv (is_cache s) ((is_phase s)(i := Answered (Ran r))) log"
      if "all_inv (is_cache s) (is_phase s) log" for log
      by (rule inv_move [OF that]) (auto simp: direct)
    moreover have "guarded_runs (is_log s @ [(i, r)]) = guarded_runs (is_log s)"
      using adm direct(2) by (simp add: guarded_runs_append admitted_def)
    ultimately show ?thesis using assms(2) adm' direct(1) by (auto simp: run_inv_def at_phase_def)
  qed (use adm' in \<open>auto simp: run_inv_def at_phase_def\<close>)
qed

lemma run_inv_start: "run_inv (idem_start E reqs)"
proof -
  have "admit E (reqs i) \<in> {Bypass, Look, Answered KeyTooLong}" for i by (auto simp: admit_def)
  then have "reserved_by (admit E (reqs i)) = None" "replays (admit E (reqs i)) = None"
    "admit E (reqs i) \<noteq> Storing t r" "admit E (reqs i) \<noteq> Running t" for i t r
    by (metis (no_types) empty_iff insert_iff reserved_by.simps(5-8) replays.simps phase.distinct)+
  with admitted_start show ?thesis
    by (simp add: run_inv_def idem_start_def guarded_runs_def all_inv_def lock_inv_def log_inv_def value_inv_def wins_def)
qed

lemma run_inv_reached: "(idem_step E reqs)\<^sup>*\<^sup>* (idem_start E reqs) s \<Longrightarrow> run_inv s"
  by (induction rule: rtranclp_induct) (auto simp: run_inv_start run_inv_step)

lemma at_most_one:
  assumes "(idem_step E reqs)\<^sup>*\<^sup>* (idem_start E reqs) s" "\<not> is_faulty s"
  shows "length (filter (\<lambda>(i, r). guarded E (reqs i)) (successes reqs k s)) \<le> 1"
    and "replays (is_phase s i) = Some cr \<Longrightarrow> stored_by E reqs (guarded_runs (is_log s)) (request_key (reqs i)) cr \<and>
      (cr_BodyHash cr = [] \<or> cr_BodyHash cr = incomingHash E (reqs i))"
proof -
  have inv: "all_inv (is_cache s) (is_phase s) (guarded_runs (is_log s))"
    using run_inv_reached [OF assms(1)] assms(2) by (simp add: run_inv_def)
  have "filter (\<lambda>(i, r). guarded E (reqs i)) (successes reqs k s) = wins (guarded_runs (is_log s)) k"
    by (auto simp: successes_def wins_def key_def guarded_runs_def intro: filter_cong)
  with inv show "length (filter (\<lambda>(i, r). guarded E (reqs i)) (successes reqs k s)) \<le> 1"
    by (simp add: all_inv_def log_inv_def)
  show "stored_by E reqs (guarded_runs (is_log s)) (request_key (reqs i)) cr \<and>
      (cr_BodyHash cr = [] \<or> cr_BodyHash cr = incomingHash E (reqs i))"
    if "replays (is_phase s i) = Some cr"
    using inv that unfolding all_inv_def value_inv_def key_def hash_def by blast
qed

lemma mem_guarded_runs: "(j, r) \<in> set (guarded_runs log) \<longleftrightarrow> (j, r) \<in> set log \<and> guarded E (reqs j)"
  by (auto simp: guarded_runs_def)

end

lemma codec_requests: "codec_ok E \<Longrightarrow> idem_requests E"
  by unfold_locales (simp_all add: codec_ok_def)

text \<open>
  A key that ends in \<open>:pending\<close> is stored under the name of another key's reservation.
\<close>

lemma pending_key_collides:
  "idempotencyCacheKey tenantID userID meth path (key @ '':pending'') = pending_key (idempotencyCacheKey tenantID userID meth path key)"
  by (simp add: idempotencyCacheKey_def pending_key_def)

end
