(* ===== verification/Http_Examples.thy ===== *)
theory Http_Examples
  imports Http_Idempotency_Correct
begin

text \<open>
  A run of two requests with one key over the cache, in which the second is answered with the response of the first.
\<close>

subsection \<open>A codec\<close>

text \<open>Numbers are written in unary and closed by a slash.\<close>

definition ex_marshal :: "cachedResp \<Rightarrow> string" where
  "ex_marshal cr = replicate (cr_Status cr) CHR ''1'' @ CHR ''/'' # replicate (length (cr_Body cr)) CHR ''1'' @ CHR ''/'' #
     cr_Body cr @ cr_BodyHash cr"

definition ex_number :: "string \<Rightarrow> (nat \<times> string) option" where
  "ex_number s = (case dropWhile (\<lambda>c. c = CHR ''1'') s of c # rest \<Rightarrow>
     (if c = CHR ''/'' then Some (length (takeWhile (\<lambda>c. c = CHR ''1'') s), rest) else None) | [] \<Rightarrow> None)"

definition ex_unmarshal :: "string \<Rightarrow> cachedResp option" where
  "ex_unmarshal s = Option.bind (ex_number s) (\<lambda>(status, rest). map_option (\<lambda>(n, text).
     \<lparr>cr_Status = status, cr_Body = take n text, cr_BodyHash = drop n text\<rparr>) (ex_number rest))"

lemma ex_number_replicate: "ex_number (replicate n CHR ''1'' @ CHR ''/'' # s) = Some (n, s)"
  by (simp add: ex_number_def dropWhile_append takeWhile_append)

lemma ex_unmarshal_marshal: "ex_unmarshal (ex_marshal cr) = Some cr"
  by (simp add: ex_unmarshal_def ex_marshal_def ex_number_replicate)

definition ex_idem :: idem_env where
  "ex_idem = \<lparr>ie_cache = True, ie_hash = (\<lambda>_. ''h''), ie_marshal = ex_marshal, ie_unmarshal = ex_unmarshal, ie_token = (\<lambda>_. ''t'')\<rparr>"

lemma ex_undecodable: "ex_unmarshal ''t'' = None" "ex_unmarshal [] = None"
  by (simp_all add: ex_unmarshal_def ex_number_def)

lemma ex_codec: "codec_ok ex_idem"
  by (simp add: codec_ok_def ex_idem_def ex_unmarshal_marshal ex_undecodable)

interpretation ex_reqs: idem_requests ex_idem reqs for reqs :: "nat \<Rightarrow> http_request"
  by (rule codec_requests [OF ex_codec])

subsection \<open>A run\<close>

definition ex_http :: http_request where
  "ex_http = \<lparr>hr_TenantID = ''a'', hr_UserID = ''b'', hr_HasContext = True, hr_Method = ''POST'', hr_Path = ''/w'', hr_Key = ''k'',
     hr_Body = Some [], hr_IfMatch = []\<rparr>"

definition ex_created_resp :: response where
  "ex_created_resp = \<lparr>re_Status = 201, re_Body = ''{}''\<rparr>"

abbreviation ex_step :: "idem_state \<Rightarrow> idem_state \<Rightarrow> bool" where
  "ex_step \<equiv> idem_step ex_idem (\<lambda>_. ex_http)"

definition ex_at :: "keyspace \<Rightarrow> phase \<Rightarrow> phase \<Rightarrow> (nat \<times> response) list \<Rightarrow> idem_state" where
  "ex_at c p q log = \<lparr>is_cache = c, is_phase = (\<lambda>i. if i = 0 then p else if i = 1 then q else Look), is_log = log, is_faulty = False\<rparr>"

abbreviation ex_key :: string where
  "ex_key \<equiv> request_key ex_http"

lemma ex_hash: "incomingHash ex_idem ex_http = ''h''"
  by (simp add: incomingHash_def drainBody_def ex_http_def ex_idem_def)

lemma ex_call0: "cache_call ex_idem ex_key ''h'' ''t'' p c = Some (p', c') \<Longrightarrow> ex_step (ex_at c p q log) (ex_at c' p' q log)"
proof -
  assume "cache_call ex_idem ex_key ''h'' ''t'' p c = Some (p', c')"
  then have "ex_step (ex_at c p q log) (at_phase 0 p' (ex_at c p q log\<lparr>is_cache := c'\<rparr>))"
    by (intro idem_step.call) (simp add: ex_hash ex_at_def, simp add: ex_idem_def)
  moreover have "at_phase 0 p' (ex_at c p q log\<lparr>is_cache := c'\<rparr>) = ex_at c' p' q log"
    by (auto simp: at_phase_def ex_at_def)
  ultimately show ?thesis by simp
qed

lemma ex_call1: "cache_call ex_idem ex_key ''h'' ''t'' q c = Some (q', c') \<Longrightarrow> ex_step (ex_at c p q log) (ex_at c' p q' log)"
proof -
  assume "cache_call ex_idem ex_key ''h'' ''t'' q c = Some (q', c')"
  then have "ex_step (ex_at c p q log) (at_phase 1 q' (ex_at c p q log\<lparr>is_cache := c'\<rparr>))"
    by (intro idem_step.call) (simp add: ex_hash ex_at_def, simp add: ex_idem_def)
  moreover have "at_phase 1 q' (ex_at c p q log\<lparr>is_cache := c'\<rparr>) = ex_at c' p q' log"
    by (auto simp: at_phase_def ex_at_def)
  ultimately show ?thesis by simp
qed

lemma ex_run0: "ex_step (ex_at c (Running t) q log) (ex_at c (Storing t r) q (log @ [(0, r)]))"
proof -
  have "ex_step (ex_at c (Running t) q log) (at_phase 0 (Storing t r) (ex_at c (Running t) q log\<lparr>is_log := log @ [(0, r)]\<rparr>))"
    using idem_step.run [of "ex_at c (Running t) q log" 0 t ex_idem "\<lambda>_. ex_http" r] by (simp add: ex_at_def)
  moreover have "at_phase 0 (Storing t r) (ex_at c (Running t) q log\<lparr>is_log := log @ [(0, r)]\<rparr>) = ex_at c (Storing t r) q (log @ [(0, r)])"
    by (auto simp: at_phase_def ex_at_def)
  ultimately show ?thesis by simp
qed

lemma ex_idem_start: "idem_start ex_idem (\<lambda>_. ex_http) = ex_at Map.empty Look Look []"
  by (auto simp: idem_start_def ex_at_def admit_def ex_http_def ex_idem_def drainBody_def maxIdempotencyKeyLength_def)

lemma ex_miss: "replayIfCached ex_idem h (Cache_Get k Map.empty) = None"
  by (simp add: replayIfCached_def Cache_Get_def ex_idem_def ex_undecodable)

lemma ex_pending: "pending_key ex_key \<noteq> ex_key"
  by (simp add: pending_key_def)

definition ex_entry :: cachedResp where
  "ex_entry = stored_entry ''h'' ex_created_resp"

definition ex_final :: idem_state where
  "ex_final = ex_at [ex_key \<mapsto> ex_marshal ex_entry] (Answered (Ran ex_created_resp)) (Answered (Replay ex_entry)) [(0, ex_created_resp)]"

lemma ex_idem_reach: "ex_step\<^sup>*\<^sup>* (idem_start ex_idem (\<lambda>_. ex_http)) ex_final"
proof -
  let ?l = "[pending_key ex_key \<mapsto> ''t'']" and ?t = "Some ''t''" and ?r = ex_created_resp and ?v = "ex_marshal ex_entry"
  have miss: "replayIfCached ex_idem h (Cache_Get ex_key ?l) = None" for h
    using ex_pending by (simp add: replayIfCached_def Cache_Get_def ex_idem_def ex_undecodable)
  have "ex_step (ex_at Map.empty Look Look []) (ex_at Map.empty Reserve Look [])"
    by (rule ex_call0) (simp add: ex_miss)
  moreover have "ex_step \<dots> (ex_at ?l (Recheck ?t) Look [])"
    by (rule ex_call0) (simp add: reserve_def Cache_SetNX_def)
  moreover have "ex_step \<dots> (ex_at ?l (Running ?t) Look [])"
    by (rule ex_call0) (simp add: miss)
  moreover have "ex_step \<dots> (ex_at ?l (Storing ?t ?r) Look [(0, ?r)])"
    using ex_run0 [of ?l ?t Look "[]" ?r] by simp
  moreover have "ex_step \<dots> (ex_at (?l(ex_key \<mapsto> ?v)) (Releasing ?t (Ran ?r)) Look [(0, ?r)])"
    by (rule ex_call0) (simp add: storeIfSuccess_def successful_def ex_created_resp_def Cache_Set_def ex_entry_def, simp add: ex_idem_def)
  moreover have "ex_step \<dots> (ex_at [ex_key \<mapsto> ?v] (Answered (Ran ?r)) Look [(0, ?r)])"
    by (rule ex_call0) (use ex_pending in \<open>auto simp: Cache_DelIfEqual_def\<close>)
  moreover have "ex_step \<dots> ex_final" unfolding ex_final_def
    by (rule ex_call1)
      (simp add: replayIfCached_def Cache_Get_def ex_idem_def ex_unmarshal_marshal ex_entry_def stored_entry_def)
  ultimately show ?thesis unfolding ex_idem_start by (meson converse_rtranclp_into_rtranclp rtranclp.rtrancl_refl)
qed

end
