(* ===== verification/Plan_Cache.thy ===== *)
theory Plan_Cache
  imports Workflow_Safety
begin

text \<open>
  \<open>compiled_plan_service.go\<close>: reading a compiled plan through a cache, together with the evictions that \<open>Archive\<close> and the
  revocations do after they commit.  The reads run concurrently with the transactions of the store; each is a state machine
  whose steps are its calls to the cache and to the repository.  The cache maps the key of a tenant and a version to the plan
  that was written there, \<open>CompiledPlanCacheKey\<close> being injective and the JSON of a plan reading back; its entries expire at
  any time.  The purge of a departed tenant deletes versions without evicting their plans, which stay until they expire.
\<close>

record plan_view =
  pv_WorkflowID :: uuid
  pv_VersionID :: uuid
  pv_VersionNumber :: "nat option"
  pv_Status :: VersionStatus
  pv_IsValid :: bool
  pv_PlanJSON :: "string option"

type_synonym plan_cache = "uuid \<times> uuid \<rightharpoonup> plan_view"

definition view_of :: "WorkflowVersion \<Rightarrow> plan_view" where
  "view_of v = \<lparr>pv_WorkflowID = wv_WorkflowID v, pv_VersionID = wv_ID v, pv_VersionNumber = wv_VersionNumber v,
     pv_Status = wv_Status v, pv_IsValid = wv_IsValid v, pv_PlanJSON = wv_CompiledPlanJSON v\<rparr>"

definition servable :: "WorkflowVersion \<Rightarrow> bool" where
  "servable v \<longleftrightarrow> wv_Status v = VersionStatusPublished \<and> wv_IsValid v"

subsection \<open>One read\<close>

text \<open>The points of \<open>Get\<close>: \<open>readCache\<close>, \<open>GetByID\<close>, \<open>writeCache\<close>, and the check and the eviction of \<open>evictIfRevoked\<close>.\<close>

datatype read_phase =
    ReadCache
  | Fetch
  | WriteCache plan_view
  | CheckRevoked plan_view
  | EvictRevoked plan_view
  | ReadDone "error + plan_view"

fun read_call :: "uuid \<times> uuid \<Rightarrow> read_phase \<Rightarrow> plan_cache \<Rightarrow> db \<Rightarrow> (read_phase \<times> plan_cache) option" where
  "read_call key ReadCache c db = Some (case c key of Some p \<Rightarrow> ReadDone (Inr p) | None \<Rightarrow> Fetch, c)"
| "read_call key Fetch c db =
     Some (case VersionRepo_GetByID (fst key) (snd key) db of
         Inl e \<Rightarrow> ReadDone (Inl e)
       | Inr (v, _) \<Rightarrow> if servable v then WriteCache (view_of v) else ReadDone (Inr (view_of v)), c)"
| "read_call key (WriteCache p) c db = Some (CheckRevoked p, c(key \<mapsto> p))"
| "read_call key (CheckRevoked p) c db =
     Some (case VersionRepo_GetByID (fst key) (snd key) db of
         Inr (v, _) \<Rightarrow> if servable v then ReadDone (Inr p) else EvictRevoked p
       | Inl e \<Rightarrow> EvictRevoked p, c)"
| "read_call key (EvictRevoked p) c db = Some (ReadDone (Inr p), c(key := None))"
| "read_call key (ReadDone r) c db = None"

text \<open>A call that fails without touching the cache: an error of the cache is a miss, one of the store ends the read.\<close>

fun read_failed :: "error \<Rightarrow> read_phase \<Rightarrow> read_phase" where
  "read_failed e ReadCache = Fetch"
| "read_failed e Fetch = ReadDone (Inl e)"
| "read_failed e (WriteCache p) = ReadDone (Inr p)"
| "read_failed e (CheckRevoked p) = EvictRevoked p"
| "read_failed e (EvictRevoked p) = ReadDone (Inr p)"
| "read_failed e (ReadDone r) = ReadDone r"

subsection \<open>Reads, transactions and evictions\<close>

text \<open>
  \<open>pn_evictions\<close> are the keys that a committed transaction still has to evict.  A state is faulty once an eviction was lost,
  or a write that was reported as failed has reached the cache.
\<close>

record plan_state =
  pn_store :: wstate
  pn_cache :: plan_cache
  pn_reads :: "((uuid \<times> uuid) \<times> read_phase) list"
  pn_evictions :: "(uuid \<times> uuid) list"
  pn_faulty :: bool

text \<open>The transactions that take no version out of use.\<close>

inductive keeping_tx :: "db \<Rightarrow> db \<Rightarrow> bool" where
  update: "RunInTx (runUpdateTx now tenantID wid draft req) db = Inr (v, db') \<Longrightarrow> keeping_tx db db'"
| discard: "RunInTx (VersionRepo_DeleteDraft now tenantID vid) db = Inr ((), db') \<Longrightarrow> keeping_tx db db'"
| publish: "RunInTx (publish_tx now inp) db = Inr (n, db') \<Longrightarrow> keeping_tx db db'"
| promote: "RunInTx (promote_tx limits now tenantID wid vid planCode resolved) db = Inr ((), db') \<Longrightarrow> keeping_tx db db'"

inductive cache_step :: "plan_state \<Rightarrow> plan_state \<Rightarrow> bool" where
  read: "i < length (pn_reads s) \<Longrightarrow> pn_reads s ! i = (key, p) \<Longrightarrow> read_call key p (pn_cache s) (ws_db (pn_store s)) = Some (p', c) \<Longrightarrow>
    cache_step s (s\<lparr>pn_reads := (pn_reads s)[i := (key, p')], pn_cache := c\<rparr>)"
| evict: "pn_evictions s = es @ key # es' \<Longrightarrow>
    cache_step s (s\<lparr>pn_evictions := es @ es', pn_cache := (pn_cache s)(key := None)\<rparr>)"

inductive plan_step :: "plan_state \<Rightarrow> plan_state \<Rightarrow> bool" where
  call: "cache_step s s' \<Longrightarrow> plan_step s s'"
| begin_read: "plan_step s (s\<lparr>pn_reads := pn_reads s @ [(key, ReadCache)]\<rparr>)"
| read_fails: "i < length (pn_reads s) \<Longrightarrow> pn_reads s ! i = (key, p) \<Longrightarrow> p \<notin> range EvictRevoked \<Longrightarrow>
    plan_step s (s\<lparr>pn_reads := (pn_reads s)[i := (key, read_failed e p)]\<rparr>)"
| tx: "keeping_tx (ws_db (pn_store s)) db' \<Longrightarrow> plan_step s (s\<lparr>pn_store := pn_store s\<lparr>ws_db := db'\<rparr>\<rparr>)"
| new: "wf_new vid (ws_db (pn_store s)) db' \<Longrightarrow> vid \<notin> ws_used (pn_store s) \<Longrightarrow>
    plan_step s (s\<lparr>pn_store := pn_store s\<lparr>ws_db := db', ws_used := insert vid (ws_used (pn_store s))\<rparr>\<rparr>)"
| purge: "wf_purge (pn_store s) st \<Longrightarrow> plan_step s (s\<lparr>pn_store := st\<rparr>)"
| archive: "RunInTx (archive_tx now tenantID wid) (ws_db (pn_store s)) = Inr (vid, db') \<Longrightarrow>
    plan_step s (s\<lparr>pn_store := pn_store s\<lparr>ws_db := db'\<rparr>, pn_evictions := pn_evictions s @ [(tenantID, vid)]\<rparr>)"
| invalidate: "RunInTx (VersionRepo_SetInvalid now tenantID vid errs) (ws_db (pn_store s)) = Inr ((), db') \<Longrightarrow>
    plan_step s (s\<lparr>pn_store := pn_store s\<lparr>ws_db := db'\<rparr>, pn_evictions := pn_evictions s @ [(tenantID, vid)]\<rparr>)"
| expire: "plan_step s (s\<lparr>pn_cache := (pn_cache s)(key := None)\<rparr>)"
| late_write: "i < length (pn_reads s) \<Longrightarrow> pn_reads s ! i = (key, WriteCache p) \<Longrightarrow>
    plan_step s (s\<lparr>pn_reads := (pn_reads s)[i := (key, ReadDone (Inr p))], pn_cache := (pn_cache s)(key \<mapsto> p), pn_faulty := True\<rparr>)"
| lost_check: "i < length (pn_reads s) \<Longrightarrow> pn_reads s ! i = (key, EvictRevoked p) \<Longrightarrow>
    plan_step s (s\<lparr>pn_reads := (pn_reads s)[i := (key, ReadDone (Inr p))], pn_faulty := True\<rparr>)"
| lost_eviction: "pn_evictions s = es @ key # es' \<Longrightarrow> plan_step s (s\<lparr>pn_evictions := es @ es', pn_faulty := True\<rparr>)"

definition plan_start :: plan_state where
  "plan_start = \<lparr>pn_store = ws_start, pn_cache = Map.empty, pn_reads = [], pn_evictions = [], pn_faulty = False\<rparr>"

subsection \<open>What is settled and what is coherent\<close>

fun calls_left :: "read_phase \<Rightarrow> nat" where
  "calls_left ReadCache = 5"
| "calls_left Fetch = 4"
| "calls_left (WriteCache p) = 3"
| "calls_left (CheckRevoked p) = 2"
| "calls_left (EvictRevoked p) = 1"
| "calls_left (ReadDone r) = 0"

definition work_left :: "plan_state \<Rightarrow> nat" where
  "work_left s = (\<Sum>x \<leftarrow> pn_reads s. calls_left (snd x)) + length (pn_evictions s)"

text \<open>A cached plan is that of the version's row, which is published and valid, or its version was purged with its tenant.\<close>

definition coherent :: "plan_state \<Rightarrow> bool" where
  "coherent s \<longleftrightarrow> (\<forall>tenantID vid p. pn_cache s (tenantID, vid) = Some p \<longrightarrow>
     vid \<in> ws_purged (pn_store s) \<or>
     (\<exists>row \<in> set (db_versions (ws_db (pn_store s))). vr_TenantID row = tenantID \<and> vr_ID row = vid \<and>
        servable (workflowVersionFromDB row) \<and> p = view_of (workflowVersionFromDB row)))"

end
