(* ===== verification/Plan_Cache_Correct.thy ===== *)
theory Plan_Cache_Correct
  imports Plan_Cache
begin

text \<open>
  The cache of compiled plans agrees with the store once the calls in progress have ended: an entry of a version that went out
  of use has a transaction that still has to evict it, or a read that wrote it and is about to look again.  Entries of
  versions that a purge deleted are left out: nothing evicts them.
\<close>

subsection \<open>Rows that a cached plan comes from\<close>

definition row_at :: "db \<Rightarrow> uuid \<times> uuid \<Rightarrow> version_row \<Rightarrow> bool" where
  "row_at db key row \<longleftrightarrow> row \<in> set (db_versions db) \<and> vr_TenantID row = fst key \<and> vr_ID row = snd key"

definition in_use :: "db \<Rightarrow> uuid \<times> uuid \<Rightarrow> bool" where
  "in_use db key \<longleftrightarrow> (\<exists>row. row_at db key row \<and> servable (workflowVersionFromDB row))"

definition published_view :: "version_row \<Rightarrow> plan_view" where
  "published_view row = (view_of (workflowVersionFromDB row))\<lparr>pv_Status := VersionStatusPublished, pv_IsValid := True\<rparr>"

definition frozen :: "db \<Rightarrow> uuid \<times> uuid \<Rightarrow> plan_view \<Rightarrow> bool" where
  "frozen db key p \<longleftrightarrow> (\<exists>row. row_at db key row \<and> vr_Status row \<noteq> VersionStatusDraft \<and> p = published_view row)"

lemma servable_row: "servable (workflowVersionFromDB row) \<longleftrightarrow> vr_Status row = VersionStatusPublished \<and> vr_IsValid row"
  by (simp add: servable_def workflowVersionFromDB_def)

lemma published_view_servable: "servable (workflowVersionFromDB row) \<Longrightarrow> published_view row = view_of (workflowVersionFromDB row)"
  by (simp add: published_view_def view_of_def servable_def)

lemma published_view_evolves:
  assumes "evolves row row'" "vr_Status row \<noteq> VersionStatusDraft"
  shows "published_view row' = published_view row"
proof -
  have "published_content row' = published_content row" using assms by (simp add: evolves_def)
  then have "vr_CompiledPlanJson row' = vr_CompiledPlanJson row" "vr_VersionNumber row' = vr_VersionNumber row"
    by (simp_all add: published_content_def)
  with evolves_ids [OF assms(1)] show ?thesis by (simp add: published_view_def view_of_def workflowVersionFromDB_def)
qed

lemma GetByID_row:
  "VersionRepo_GetByID (fst key) (snd key) db = Inr (v, db') \<Longrightarrow> \<exists>row. row_at db key row \<and> v = workflowVersionFromDB row"
  by (cases "find (\<lambda>x. vr_TenantID x = fst key \<and> vr_ID x = snd key) (db_versions db)")
    (auto simp: VersionRepo_GetByID_def GetWorkflowVersionByID_def row_at_def dest: find_SomeD)

lemma fetched:
  assumes "VersionRepo_GetByID (fst key) (snd key) db = Inr (v, db')" "servable v"
  shows "frozen db key (view_of v)" "in_use db key"
proof -
  from GetByID_row [OF assms(1)] obtain row where row: "row_at db key row" "v = workflowVersionFromDB row" by blast
  with assms(2) show "in_use db key" by (auto simp: in_use_def)
  from assms(2) row(2) have "vr_Status row \<noteq> VersionStatusDraft" by (simp add: servable_row)
  moreover have "view_of v = published_view row" using published_view_servable assms(2) row(2) by simp
  ultimately show "frozen db key (view_of v)" unfolding frozen_def by (intro exI [of _ row]) (simp add: row(1))
qed

lemma frozen_kept:
  assumes "wf_step\<^sup>*\<^sup>* ws_start s" "wf_step s s'" "frozen (ws_db s) key p" "snd key \<notin> ws_purged s'"
  shows "frozen (ws_db s') key p"
proof -
  from assms(3) obtain row where row: "row_at (ws_db s) key row" "vr_Status row \<noteq> VersionStatusDraft" "p = published_view row"
    by (auto simp: frozen_def)
  have steps: "wf_step\<^sup>*\<^sup>* s s'" using assms(2) by (rule r_into_rtranclp)
  have "vkey_of row \<in> set (ws_keys s)" using row(1) by (simp add: row_at_def ws_keys_def wkeys_def)
  from wfs.version_kept [OF assms(1) steps this] row(1,2) assms(4) have "kept (vkey_of row) (ws_keys s')"
    by (simp add: row_at_def)
  then obtain k' where k': "k' \<in> set (ws_keys s')" "k_ID k' = k_ID (vkey_of row)" unfolding kept_def by blast
  from k'(1) obtain row' where "row' \<in> set (db_versions (ws_db s'))" "k' = vkey_of row'"
    unfolding ws_keys_def wkeys_def set_map by blast
  with k'(2) have row': "row' \<in> set (db_versions (ws_db s'))" "vr_ID row = vr_ID row'" by simp_all
  from row_again [OF assms(1) steps _ row'] row(1) have e: "evolves row row'" by (simp add: row_at_def)
  have "row_at (ws_db s') key row'" using row(1) row'(1) evolves_ids(1,3) [OF e] by (simp add: row_at_def)
  moreover have "vr_Status row' \<noteq> VersionStatusDraft"
    using e row(2) by (cases "vr_Status row"; cases "vr_Status row'") (auto simp: evolves_def status_order)
  moreover have "p = published_view row'" using published_view_evolves [OF e row(2)] row(3) by simp
  ultimately show ?thesis unfolding frozen_def by (intro exI [of _ row']) simp
qed

subsection \<open>Transactions and the versions in use\<close>

lemma keeping_is_tx: "keeping_tx db db' \<Longrightarrow> wf_tx db db'"
  by (induction rule: keeping_tx.induct) (auto intro: wf_tx.intros)

lemma in_use_map:
  assumes "db_versions db' = map h (db_versions db)" "in_use db key"
    and "\<And>row. row_at db key row \<Longrightarrow> servable (workflowVersionFromDB row) \<Longrightarrow> h row = row"
  shows "in_use db' key"
proof -
  from assms(2) obtain row where row: "row_at db key row" "servable (workflowVersionFromDB row)" by (auto simp: in_use_def)
  then have "row \<in> h ` set (db_versions db)" using assms(3) [OF row] by (force simp: row_at_def)
  with row assms(1) show ?thesis by (auto simp: in_use_def row_at_def)
qed

lemma keeping_in_use:
  assumes "keeping_tx db db'" "in_use db key"
  shows "in_use db' key"
  using assms(1)
proof cases
  case (update now tenantID wid draft req v)
  then obtain db1 where meta: "db_versions db1 = db_versions db" and "VersionRepo_UpdateDraft now draft db1 = Inr (v, db')"
    by (auto simp: runUpdateTx_def Let_def res_simps split: if_splits dest: updateWorkflowMeta_Inr)
  then obtain n where upd: "UpdateDraftVersion now (version_params draft) db1 = Inr (n, db')"
    by (auto simp: VersionRepo_UpdateDraft_def split: sum.splits sql_error.splits)
  show ?thesis
    by (rule in_use_map [OF UpdateDraftVersion_Inr(1) [OF upd, unfolded meta] assms(2)]) (simp add: draft_guard_def servable_row)
next
  case (discard now tenantID vid)
  then have "VersionRepo_DeleteDraft now tenantID vid db = Inr ((), db')" by (simp add: res_simps)
  from DeleteDraft_Inr(1) [OF this] assms(2) show ?thesis by (auto simp: in_use_def row_at_def servable_row)
next
  case (publish now inp n)
  then have "publish_tx now inp db = Inr (n, db')" by (simp add: res_simps)
  then show ?thesis
    by (rule publish_effect) (erule in_use_map [OF _ assms(2)], simp add: publish_guard_def servable_row)
next
  case (promote limits now tenantID wid vid planCode resolved)
  then have "promote_tx limits now tenantID wid vid planCode resolved db = Inr ((), db')" by (simp add: res_simps)
  then have "db_versions db' = db_versions db" by (rule promote_effect) (auto dest: activate_effect(1))
  with assms(2) show ?thesis by (simp add: in_use_def row_at_def)
qed

lemma new_in_use: "wf_new vid db db' \<Longrightarrow> in_use db key \<Longrightarrow> in_use db' key"
  by (erule new_effect) (auto simp: in_use_def row_at_def)

lemma archive_in_use:
  assumes "RunInTx (archive_tx now tenantID wid) db = Inr (vid, db')" "in_use db key" "key \<noteq> (tenantID, vid)"
  shows "in_use db' key"
proof -
  have "archive_tx now tenantID wid db = Inr (vid, db')" using assms(1) by (simp add: res_simps)
  then show ?thesis
    by (rule archive_effect)
      (erule in_use_map [OF _ assms(2)], use assms(3) in \<open>auto simp: archive_guard_def row_at_def prod_eq_iff\<close>)
qed

lemma invalidate_in_use:
  assumes "RunInTx (VersionRepo_SetInvalid now tenantID vid errs) db = Inr ((), db')" "in_use db key" "key \<noteq> (tenantID, vid)"
  shows "in_use db' key"
proof -
  have "VersionRepo_SetInvalid now tenantID vid errs db = Inr ((), db')" using assms(1) by (simp add: res_simps)
  then have db': "db' = snd (SetVersionInvalid now tenantID vid errs db)" by (simp add: VersionRepo_SetInvalid_def of_count_Inr)
  show ?thesis
    unfolding db' SetVersionInvalid_def
    by (rule in_use_map [OF update_versions_simps(4) assms(2)]) (use assms(3) in \<open>auto simp: row_at_def prod_eq_iff\<close>)
qed

lemma purge_in_use:
  assumes "wf_purge s s'" "in_use (ws_db s) key"
  shows "in_use (ws_db s') key \<or> snd key \<in> ws_purged s'"
proof (rule purge_rows [OF assms(1)])
  from assms(2) obtain row where row: "row_at (ws_db s) key row" "servable (workflowVersionFromDB row)" by (auto simp: in_use_def)
  assume "ws_purged s' = ws_purged s \<union> vr_ID ` (set (db_versions (ws_db s)) - set (db_versions (ws_db s')))"
  with row show ?thesis by (cases "row \<in> set (db_versions (ws_db s'))") (force simp: in_use_def row_at_def)+
qed

subsection \<open>The invariant\<close>

text \<open>What is known of a key whose version was not purged.\<close>

definition lasting :: "wstate \<Rightarrow> uuid \<times> uuid \<Rightarrow> plan_view \<Rightarrow> bool" where
  "lasting st key p \<longleftrightarrow> snd key \<in> ws_purged st \<or> frozen (ws_db st) key p"

definition current :: "wstate \<Rightarrow> uuid \<times> uuid \<Rightarrow> bool" where
  "current st key \<longleftrightarrow> snd key \<in> ws_purged st \<or> in_use (ws_db st) key"

lemma lasting_kept:
  assumes "wf_step\<^sup>*\<^sup>* ws_start s" "wf_step s s'" "lasting s key p"
  shows "lasting s' key p"
  using frozen_kept [OF assms(1,2), of key p] ws_purged_step [OF assms(2)] assms(3) unfolding lasting_def by blast

fun holds_view :: "read_phase \<Rightarrow> plan_view option" where
  "holds_view (WriteCache p) = Some p"
| "holds_view (CheckRevoked p) = Some p"
| "holds_view (EvictRevoked p) = Some p"
| "holds_view p = None"

fun looks_again :: "read_phase \<Rightarrow> bool" where
  "looks_again (CheckRevoked p) = True"
| "looks_again (EvictRevoked p) = True"
| "looks_again p = False"

definition watched :: "((uuid \<times> uuid) \<times> read_phase) list \<Rightarrow> uuid \<times> uuid \<Rightarrow> bool" where
  "watched rs key \<longleftrightarrow> (\<exists>i < length rs. fst (rs ! i) = key \<and> looks_again (snd (rs ! i)))"

definition cache_inv :: "wstate \<Rightarrow> plan_cache \<Rightarrow> ((uuid \<times> uuid) \<times> read_phase) list \<Rightarrow> (uuid \<times> uuid) list \<Rightarrow> bool" where
  "cache_inv st c rs es \<longleftrightarrow>
     (\<forall>key p. c key = Some p \<longrightarrow> lasting st key p \<and> (current st key \<or> key \<in> set es \<or> watched rs key)) \<and>
     (\<forall>i < length rs. \<forall>p. holds_view (snd (rs ! i)) = Some p \<longrightarrow> lasting st (fst (rs ! i)) p)"

lemma cache_inv_cached: "cache_inv st c rs es \<Longrightarrow> c key = Some p \<Longrightarrow> lasting st key p \<and> (current st key \<or> key \<in> set es \<or> watched rs key)"
  unfolding cache_inv_def by blast

lemma cache_inv_held: "cache_inv st c rs es \<Longrightarrow> i < length rs \<Longrightarrow> holds_view (snd (rs ! i)) = Some p \<Longrightarrow> lasting st (fst (rs ! i)) p"
  by (simp add: cache_inv_def)

lemma watched_update:
  assumes "watched rs key'" "i < length rs" "rs ! i = (key, p)" "key' = key \<Longrightarrow> looks_again p \<Longrightarrow> looks_again p'"
  shows "watched (rs[i := (key, p')]) key'"
proof -
  from assms(1) obtain j where j: "j < length rs" "fst (rs ! j) = key'" "looks_again (snd (rs ! j))" by (auto simp: watched_def)
  show ?thesis unfolding watched_def using j assms(2-4) by (intro exI [of _ j]) (auto simp: nth_list_update)
qed

text \<open>A change of one read and of the cache at its key.\<close>

lemma cache_inv_read:
  assumes inv: "cache_inv st c rs es" and i: "i < length rs" "rs ! i = (key, p)"
    and c: "\<And>key'. c' key' = c key' \<or> key' = key \<and> (c' key = None \<or> looks_again p' \<and> c' key = holds_view p')"
    and view: "\<And>v. holds_view p' = Some v \<Longrightarrow> lasting st key v"
    and watch: "looks_again p \<Longrightarrow> looks_again p' \<or> current st key \<or> c' key = None"
  shows "cache_inv st c' (rs[i := (key, p')]) es"
  unfolding cache_inv_def
proof (intro conjI allI impI)
  fix key' v assume v: "c' key' = Some v"
  have here: "watched (rs[i := (key, p')]) key" if "looks_again p'"
    unfolding watched_def using i(1) that by (intro exI [of _ i]) simp
  consider "c' key' = c key'" | "key' = key" "looks_again p'" "holds_view p' = Some v" using c [of key'] v by auto
  then show "lasting st key' v" "current st key' \<or> key' \<in> set es \<or> watched (rs[i := (key, p')]) key'"
  proof (atomize(full), cases)
    case 1
    with v cache_inv_cached [OF inv] have old: "lasting st key' v" "current st key' \<or> key' \<in> set es \<or> watched rs key'" by simp_all
    from old(2) have "current st key' \<or> key' \<in> set es \<or> watched (rs[i := (key, p')]) key'"
    proof (elim disjE)
      assume w: "watched rs key'"
      show ?thesis
      proof (cases "key' = key \<and> looks_again p \<and> \<not> looks_again p'")
        case True
        with watch v have "current st key'" by auto
        then show ?thesis by simp
      next
        case False
        then show ?thesis using watched_update [OF w i, of p'] by blast
      qed
    qed simp_all
    with old(1) show "lasting st key' v \<and> (current st key' \<or> key' \<in> set es \<or> watched (rs[i := (key, p')]) key')" by blast
  next
    case 2
    with here view show "lasting st key' v \<and> (current st key' \<or> key' \<in> set es \<or> watched (rs[i := (key, p')]) key')" by simp
  qed
next
  fix j v assume "j < length (rs[i := (key, p')])" "holds_view (snd (rs[i := (key, p')] ! j)) = Some v"
  then show "lasting st (fst (rs[i := (key, p')] ! j)) v"
    using view cache_inv_held [OF inv, of j v] i by (cases "j = i") simp_all
qed

text \<open>A change of the store, with the evictions that it leaves to do.\<close>

lemma cache_inv_store:
  assumes inv: "cache_inv st c rs es" and "\<And>key p. lasting st key p \<Longrightarrow> lasting st' key p"
    and "\<And>key. current st key \<Longrightarrow> current st' key \<or> key \<in> set es'" and "set es \<subseteq> set es'"
  shows "cache_inv st' c rs es'"
  unfolding cache_inv_def
proof (intro conjI allI impI)
  fix key p assume "c key = Some p"
  with cache_inv_cached [OF inv] have "lasting st key p" "current st key \<or> key \<in> set es \<or> watched rs key" by simp_all
  with assms(2-4) show "lasting st' key p" "current st' key \<or> key \<in> set es' \<or> watched rs key" by blast+
next
  fix i p assume "i < length rs" "holds_view (snd (rs ! i)) = Some p"
  with cache_inv_held [OF inv] assms(2) show "lasting st' (fst (rs ! i)) p" by blast
qed

lemma cache_inv_smaller:
  assumes "cache_inv st c rs es" "\<And>key. c' key = c key \<or> c' key = None"
    and "\<And>key. c' key \<noteq> None \<Longrightarrow> key \<in> set es \<Longrightarrow> key \<in> set es'"
  shows "cache_inv st c' rs es'"
proof -
  have "lasting st key p \<and> (current st key \<or> key \<in> set es' \<or> watched rs key)" if "c' key = Some p" for key p
  proof -
    from that assms(2) [of key] have "c key = Some p" by auto
    from cache_inv_cached [OF assms(1) this] that assms(3) [of key] show ?thesis by auto
  qed
  with assms(1) show ?thesis unfolding cache_inv_def by blast
qed

lemma inv_read_call:
  assumes inv: "cache_inv st c rs es" and i: "i < length rs" "rs ! i = (key, p)" and call: "read_call key p c (ws_db st) = Some (p', c')"
  shows "cache_inv st c' (rs[i := (key, p')]) es" and "calls_left p' < calls_left p"
proof -
  have held: "lasting st key v" if "holds_view p = Some v" for v
    using cache_inv_held [OF inv i(1), of v] i(2) that by simp
  show "cache_inv st c' (rs[i := (key, p')]) es"
  proof (cases p)
    case ReadCache
    with call show ?thesis by (intro cache_inv_read [OF inv i]) (auto split: option.splits)
  next
    case Fetch
    show ?thesis
    proof (rule cache_inv_read [OF inv i])
      show "c' key' = c key' \<or> key' = key \<and> (c' key = None \<or> looks_again p' \<and> c' key = holds_view p')" for key'
        using call Fetch by auto
      show "holds_view p' = Some v \<Longrightarrow> lasting st key v" for v
        using call Fetch fetched(1) [of key] lasting_def by (auto split: sum.splits if_splits)
    qed (simp add: Fetch)
  next
    case (WriteCache q)
    with call held show ?thesis by (intro cache_inv_read [OF inv i]) (auto split: if_splits)
  next
    case (CheckRevoked q)
    show ?thesis
    proof (rule cache_inv_read [OF inv i])
      show "c' key' = c key' \<or> key' = key \<and> (c' key = None \<or> looks_again p' \<and> c' key = holds_view p')" for key'
        using call CheckRevoked by auto
      show "holds_view p' = Some v \<Longrightarrow> lasting st key v" for v
        using call CheckRevoked held by (auto split: sum.splits if_splits)
      show "looks_again p \<Longrightarrow> looks_again p' \<or> current st key \<or> c' key = None"
        using call CheckRevoked fetched(2) [of key] current_def by (auto split: sum.splits if_splits)
    qed
  next
    case (EvictRevoked q)
    with call show ?thesis by (intro cache_inv_read [OF inv i]) (auto split: if_splits)
  qed (use call in simp)
  show "calls_left p' < calls_left p"
    using call by (cases p) (auto split: option.splits sum.splits if_splits)
qed

lemma inv_read_failed:
  assumes inv: "cache_inv st c rs es" and i: "i < length rs" "rs ! i = (key, p)" and no: "p \<notin> range EvictRevoked"
  shows "cache_inv st c (rs[i := (key, read_failed e p)]) es"
proof (rule cache_inv_read [OF inv i])
  show "holds_view (read_failed e p) = Some v \<Longrightarrow> lasting st key v" for v
    using cache_inv_held [OF inv i(1), of v] i(2) by (cases p) auto
  show "looks_again p \<Longrightarrow> looks_again (read_failed e p) \<or> current st key \<or> c key = None" using no by (cases p) auto
qed simp

definition plan_inv :: "plan_state \<Rightarrow> bool" where
  "plan_inv s \<longleftrightarrow> wf_step\<^sup>*\<^sup>* ws_start (pn_store s) \<and>
     (pn_faulty s \<or> cache_inv (pn_store s) (pn_cache s) (pn_reads s) (pn_evictions s))"

lemma plan_inv_store:
  assumes inv: "plan_inv s" and step: "wf_step (pn_store s) st"
    and use: "\<And>key. in_use (ws_db (pn_store s)) key \<Longrightarrow> in_use (ws_db st) key \<or> snd key \<in> ws_purged st \<or> key \<in> set es'"
    and es: "set (pn_evictions s) \<subseteq> set es'"
  shows "plan_inv (s\<lparr>pn_store := st, pn_evictions := es'\<rparr>)"
proof -
  have reach: "wf_step\<^sup>*\<^sup>* ws_start (pn_store s)" using inv by (simp add: plan_inv_def)
  have "cache_inv st (pn_cache s) (pn_reads s) es'"
    if "cache_inv (pn_store s) (pn_cache s) (pn_reads s) (pn_evictions s)"
    by (rule cache_inv_store [OF that lasting_kept [OF reach step] _ es])
      (use use ws_purged_step [OF step] in \<open>auto simp: current_def\<close>)
  with inv reach step show ?thesis by (auto simp: plan_inv_def)
qed

lemma plan_inv_call:
  assumes "cache_step s s'" "plan_inv s"
  shows "plan_inv s'"
  using assms(1)
proof cases
  case (read i key p p' c)
  with assms(2) inv_read_call(1) [OF _ read(2-4)] show ?thesis by (auto simp: plan_inv_def)
next
  case (evict es key es')
  have "cache_inv (pn_store s) ((pn_cache s)(key := None)) (pn_reads s) (es @ es')"
    if "cache_inv (pn_store s) (pn_cache s) (pn_reads s) (pn_evictions s)"
    by (rule cache_inv_smaller [OF that]) (auto simp: evict(2))
  with assms(2) evict(1) show ?thesis by (auto simp: plan_inv_def)
qed

lemma plan_inv_step:
  assumes "plan_step s s'" "plan_inv s"
  shows "plan_inv s'"
  using assms(1)
proof cases
  case call
  then show ?thesis using plan_inv_call assms(2) by blast
next
  case (begin_read key)
  have "cache_inv st c (rs @ [(key, ReadCache)]) es" if "cache_inv st c rs es" for st c rs es
  proof -
    have "watched rs k \<Longrightarrow> watched (rs @ [(key, ReadCache)]) k" for k
      unfolding watched_def by (metis length_append less_SucI nth_append length_append_singleton)
    moreover have "holds_view (snd ((rs @ [(key, ReadCache)]) ! i)) = Some p \<Longrightarrow> i < length (rs @ [(key, ReadCache)]) \<Longrightarrow>
        lasting st (fst ((rs @ [(key, ReadCache)]) ! i)) p" for i p
      using cache_inv_held [OF that, of i p] by (cases "i < length rs") (auto simp: nth_append)
    ultimately show ?thesis using that unfolding cache_inv_def by blast
  qed
  with assms(2) begin_read show ?thesis by (auto simp: plan_inv_def)
next
  case (read_fails i key p e)
  with assms(2) inv_read_failed [OF _ read_fails(2-4)] show ?thesis by (auto simp: plan_inv_def)
next
  case (tx db')
  have "wf_step (pn_store s) (pn_store s\<lparr>ws_db := db'\<rparr>)" using keeping_is_tx [OF tx(2)] by (rule wf_step.tx)
  from plan_inv_store [OF assms(2) this, of "pn_evictions s"] keeping_in_use [OF tx(2)] tx(1) show ?thesis by simp
next
  case (new vid db')
  have "wf_step (pn_store s) (pn_store s\<lparr>ws_db := db', ws_used := insert vid (ws_used (pn_store s))\<rparr>)" using new(2,3) by (rule wf_step.new)
  from plan_inv_store [OF assms(2) this, of "pn_evictions s"] new_in_use [OF new(2)] new(1) show ?thesis by simp
next
  case (purge st)
  from plan_inv_store [OF assms(2) wf_step.purged [OF purge(2)], of "pn_evictions s"] purge_in_use [OF purge(2)] purge(1)
  show ?thesis by fastforce
next
  case (archive now tenantID wid vid db')
  have "wf_step (pn_store s) (pn_store s\<lparr>ws_db := db'\<rparr>)" using wf_tx.archive [OF archive(2)] by (rule wf_step.tx)
  from plan_inv_store [OF assms(2) this, of "pn_evictions s @ [(tenantID, vid)]"] archive_in_use [OF archive(2)] archive(1)
  show ?thesis by auto
next
  case (invalidate now tenantID vid errs db')
  have "wf_step (pn_store s) (pn_store s\<lparr>ws_db := db'\<rparr>)" using wf_tx.invalidate [OF invalidate(2)] by (rule wf_step.tx)
  from plan_inv_store [OF assms(2) this, of "pn_evictions s @ [(tenantID, vid)]"] invalidate_in_use [OF invalidate(2)] invalidate(1)
  show ?thesis by auto
next
  case (expire key)
  have "cache_inv (pn_store s) ((pn_cache s)(key := None)) (pn_reads s) (pn_evictions s)"
    if "cache_inv (pn_store s) (pn_cache s) (pn_reads s) (pn_evictions s)"
    by (rule cache_inv_smaller [OF that]) auto
  with assms(2) expire show ?thesis by (auto simp: plan_inv_def)
qed (use assms(2) in \<open>auto simp: plan_inv_def\<close>)

lemma plan_inv_reached: "plan_step\<^sup>*\<^sup>* plan_start s \<Longrightarrow> plan_inv s"
  by (induction rule: rtranclp_induct) (auto simp: plan_inv_step, simp add: plan_inv_def plan_start_def cache_inv_def)

subsection \<open>Progress\<close>

lemma cache_step_less:
  assumes "cache_step s s'"
  shows "work_left s' < work_left s"
  using assms
proof cases
  case (read i key p p' c)
  have less: "calls_left p' < calls_left p"
    using read(4) by (cases p) (auto split: option.splits sum.splits if_splits)
  let ?xs = "map (\<lambda>x. calls_left (snd x)) (pn_reads s)"
  have at: "?xs ! i = calls_left p" "i < length ?xs" using read(2,3) by simp_all
  have "sum_list (?xs[i := calls_left p']) = sum_list ?xs + calls_left p' - calls_left p"
    using sum_list_update [OF at(2)] at(1) by simp
  moreover have "calls_left p \<le> sum_list ?xs" using elem_le_sum_list [OF at(2)] at(1) by simp
  moreover have "map (\<lambda>x. calls_left (snd x)) ((pn_reads s)[i := (key, p')]) = ?xs[i := calls_left p']"
    by (simp add: map_update)
  ultimately show ?thesis using less read(1) by (simp add: work_left_def)
next
  case (evict es key es')
  then show ?thesis by (simp add: work_left_def)
qed

lemma cache_step_enabled:
  assumes "work_left s \<noteq> 0"
  shows "\<exists>s'. cache_step s s'"
proof (cases "pn_evictions s")
  case (Cons key es)
  then have "cache_step s (s\<lparr>pn_evictions := [] @ es, pn_cache := (pn_cache s)(key := None)\<rparr>)" by (intro cache_step.evict) simp
  then show ?thesis ..
next
  case Nil
  with assms have "\<exists>x \<in> set (pn_reads s). calls_left (snd x) \<noteq> 0" by (auto simp: work_left_def)
  then obtain i where i: "i < length (pn_reads s)" "calls_left (snd (pn_reads s ! i)) \<noteq> 0" by (auto simp: in_set_conv_nth)
  obtain key p where p: "pn_reads s ! i = (key, p)" by fastforce
  with i(2) obtain p' c where "read_call key p (pn_cache s) (ws_db (pn_store s)) = Some (p', c)" by (cases p) auto
  from cache_step.read [OF i(1) p this] show ?thesis ..
qed

text \<open>With no call in progress the cache agrees with the store.\<close>

lemma settled_coherent:
  assumes "plan_step\<^sup>*\<^sup>* plan_start s" "\<not> pn_faulty s" "work_left s = 0"
  shows "coherent s"
proof -
  from plan_inv_reached [OF assms(1)] assms(2) have inv: "cache_inv (pn_store s) (pn_cache s) (pn_reads s) (pn_evictions s)"
    and ok: "life_ok (wkeys (ws_db (pn_store s)))" using wfs.reach_ok by (auto simp: plan_inv_def ws_keys_def)
  have none: "pn_evictions s = []" "\<And>x. x \<in> set (pn_reads s) \<Longrightarrow> calls_left (snd x) = 0"
    using assms(3) by (auto simp: work_left_def)
  have unwatched: "\<not> watched (pn_reads s) key" for key
  proof
    assume "watched (pn_reads s) key"
    then obtain i where "i < length (pn_reads s)" "looks_again (snd (pn_reads s ! i))" by (auto simp: watched_def)
    with none(2) [of "pn_reads s ! i"] show False by (cases "snd (pn_reads s ! i)") auto
  qed
  show ?thesis unfolding coherent_def
  proof (intro allI impI)
    fix tenantID vid p assume "pn_cache s (tenantID, vid) = Some p"
    from cache_inv_cached [OF inv this] none(1) unwatched
    have both: "lasting (pn_store s) (tenantID, vid) p" "current (pn_store s) (tenantID, vid)" by auto
    show "vid \<in> ws_purged (pn_store s) \<or> (\<exists>row \<in> set (db_versions (ws_db (pn_store s))). vr_TenantID row = tenantID \<and>
        vr_ID row = vid \<and> servable (workflowVersionFromDB row) \<and> p = view_of (workflowVersionFromDB row))"
    proof (cases "vid \<in> ws_purged (pn_store s)")
    case False
    with both have "frozen (ws_db (pn_store s)) (tenantID, vid) p" "in_use (ws_db (pn_store s)) (tenantID, vid)"
      by (auto simp: lasting_def current_def)
    then obtain r r' where r: "row_at (ws_db (pn_store s)) (tenantID, vid) r" "p = published_view r"
      and r': "row_at (ws_db (pn_store s)) (tenantID, vid) r'" "servable (workflowVersionFromDB r')"
      by (auto simp: frozen_def in_use_def)
    have "r' = r" using version_unique [OF ok, of r' r] r(1) r'(1) by (simp add: row_at_def)
    with r r' published_view_servable show ?thesis
      by (intro disjI2 bexI [of _ r]) (simp_all add: row_at_def)
    qed simp
  qed
qed

end
