(* ===== verification/Cache_Examples.thy ===== *)
theory Cache_Examples
  imports Plan_Cache_Correct Service_Examples
begin

text \<open>A run of the plan cache: a workflow is created and published, and a read caches its plan.\<close>

definition ex_view :: plan_view where
  "ex_view = view_of (workflowVersionFromDB ex_published_row)"

definition ex_read :: "plan_cache \<Rightarrow> read_phase \<Rightarrow> plan_state" where
  "ex_read c p = \<lparr>pn_store = ex_s2, pn_cache = c, pn_reads = [((3, 2), p)], pn_evictions = [], pn_faulty = False\<rparr>"

definition ex_reading :: plan_state where
  "ex_reading = ex_read Map.empty (WriteCache ex_view)"

definition ex_cached :: plan_state where
  "ex_cached = ex_read [(3, 2) \<mapsto> ex_view] (ReadDone (Inr ex_view))"

lemma ex_read_call: "read_call (3, 2) p c ex_published = Some (p', c') \<Longrightarrow> plan_step (ex_read c p) (ex_read c' p')"
  using plan_step.call [OF cache_step.read [of 0 "ex_read c p" "(3, 2)" p p' c']]
  by (simp add: ex_read_def ex_s2_def)

lemma ex_fetched: "VersionRepo_GetByID 3 2 ex_published = Inr (workflowVersionFromDB ex_published_row, ex_published)"
  by (simp add: VersionRepo_GetByID_def GetWorkflowVersionByID_def ex_defs store_defs)

lemma ex_served: "servable (workflowVersionFromDB ex_published_row)"
  by (simp add: servable_def workflowVersionFromDB_def ex_defs)

lemma ex_plan_store: "plan_step\<^sup>*\<^sup>* plan_start (ex_read Map.empty ReadCache)"
proof -
  have "plan_step plan_start (plan_start\<lparr>pn_store := ex_s1\<rparr>)"
    using plan_step.new [of 2 plan_start ex_created] ex_new by (simp add: plan_start_def ws_start_def ex_s1_def)
  moreover have "plan_step \<dots> (plan_start\<lparr>pn_store := ex_s2\<rparr>)"
    using plan_step.tx [of "plan_start\<lparr>pn_store := ex_s1\<rparr>" ex_published] keeping_tx.publish [OF ex_publish_tx]
    by (simp add: plan_start_def ex_s1_def ex_s2_def)
  moreover have "plan_step \<dots> (ex_read Map.empty ReadCache)"
    using plan_step.begin_read [of "plan_start\<lparr>pn_store := ex_s2\<rparr>" "(3, 2)"] by (simp add: plan_start_def ex_read_def)
  ultimately show ?thesis by (meson converse_rtranclp_into_rtranclp rtranclp.rtrancl_refl)
qed

lemma ex_reading_reach: "plan_step\<^sup>*\<^sup>* plan_start ex_reading"
proof -
  note ex_plan_store
  also have "plan_step (ex_read Map.empty ReadCache) (ex_read Map.empty Fetch)" by (rule ex_read_call) simp
  also have "plan_step \<dots> ex_reading" unfolding ex_reading_def
    by (rule ex_read_call) (simp add: ex_fetched ex_served ex_view_def)
  finally show ?thesis .
qed

lemma ex_cached_reach: "plan_step\<^sup>*\<^sup>* plan_start ex_cached"
proof -
  note ex_reading_reach
  also have "plan_step ex_reading (ex_read [(3, 2) \<mapsto> ex_view] (CheckRevoked ex_view))" unfolding ex_reading_def
    by (rule ex_read_call) simp
  also have "plan_step \<dots> ex_cached" unfolding ex_cached_def by (rule ex_read_call) (simp add: ex_fetched ex_served)
  finally show ?thesis .
qed

end
