(* ===== verification/Go_Strconv.thy ===== *)
theory Go_Strconv
  imports Go_Time
begin

text \<open>
  \<open>strconv.ParseInt\<close> in base 10: an optional sign and at least one digit, refused when the value does not fit the width.
  \<open>strconv.Atoi\<close> is the same at 64 bits.  What \<open>strconv.Itoa\<close> writes reads back.
\<close>

definition ParseInt :: "nat \<Rightarrow> string \<Rightarrow> int option" where
  "ParseInt bits s =
     (let (neg, ds) = (case s of
          c # r \<Rightarrow> if c = CHR ''+'' then (False, r) else if c = CHR ''-'' then (True, r) else (False, s)
        | [] \<Rightarrow> (False, []))
      in if ds = [] \<or> (\<exists>c \<in> set ds. \<not> isDigit c) then None
         else if \<not> neg \<and> 2 ^ (bits - 1) \<le> decimal ds then None
         else if neg \<and> 2 ^ (bits - 1) < decimal ds then None
         else Some (if neg then - int (decimal ds) else int (decimal ds)))"

abbreviation Atoi :: "string \<Rightarrow> int option" where
  "Atoi \<equiv> ParseInt 64"

subsection \<open>Digits\<close>

lemma digit_cases: "isDigit c \<Longrightarrow> \<exists>d < 10. c = char_of (48 + d :: nat)"
proof -
  assume "isDigit c"
  then have "of_char (CHR ''0'') \<le> (of_char c :: nat)" "(of_char c :: nat) \<le> of_char (CHR ''9'')"
    by (simp_all add: isDigit_def less_eq_char_def)
  then have "(of_char c :: nat) - 48 < 10" "c = char_of (48 + (of_char c - 48) :: nat)" by simp_all
  then show ?thesis by blast
qed

lemma digit_char: "d < 10 \<Longrightarrow> isDigit (char_of (48 + d :: nat))" "d < 10 \<Longrightarrow> digitVal (char_of (48 + d :: nat)) = d"
  by (simp_all add: isDigit_def less_eq_char_def digitVal_def of_char_of)

lemma itoa_digits: "itoa n \<noteq> [] \<and> (\<forall>c \<in> set (itoa n). isDigit c) \<and> decimal (itoa n) = n"
proof (induction n rule: itoa.induct)
  case (1 n)
  show ?case
  proof (cases "n < 10")
    case True
    then show ?thesis by (simp add: itoa.simps [of n] decimal_def digit_char)
  next
    case False
    from 1 [OF False] have "itoa (n div 10) \<noteq> []" "\<forall>c \<in> set (itoa (n div 10)). isDigit c" "decimal (itoa (n div 10)) = n div 10" by auto
    with False show ?thesis by (simp add: itoa.simps [of n] decimal_def digit_char)
  qed
qed

lemma ParseInt_itoa: "ParseInt bits (itoa n) = (if n < 2 ^ (bits - 1) then Some (int n) else None)"
proof -
  from itoa_digits [of n] obtain c r where cr: "itoa n = c # r" by (cases "itoa n") auto
  with itoa_digits [of n] have "isDigit c" by auto
  then have "c \<noteq> CHR ''+''" "c \<noteq> CHR ''-''" by (auto simp: isDigit_def less_eq_char_def)
  then have "(case itoa n of c # r \<Rightarrow> if c = CHR ''+'' then (False, r) else if c = CHR ''-'' then (True, r) else (False, itoa n)
        | [] \<Rightarrow> (False, [])) = (False, itoa n)"
    by (simp add: cr)
  then show ?thesis using itoa_digits [of n] by (auto simp: ParseInt_def)
qed

subsection \<open>White space\<close>

lemma trim_with_id: "find (\<lambda>w. prefix w s) ws = None \<Longrightarrow> trim_with ws n s = s"
  by (cases n) simp_all

lemma space_not_digit: "w \<in> set unicode_spaces \<Longrightarrow> \<not> isDigit (hd w) \<and> \<not> isDigit (last w)"
  by (auto simp: unicode_spaces_def isDigit_def less_eq_char_def)

lemma TrimSpace_id:
  assumes "s \<noteq> [] \<Longrightarrow> (\<forall>w \<in> set unicode_spaces. \<not> prefix w s \<and> \<not> suffix w s)"
  shows "TrimSpace s = s"
proof (cases "s = []")
  case False
  with assms have "find (\<lambda>w. prefix w s) unicode_spaces = None" "find (\<lambda>w. prefix w (rev s)) (map rev unicode_spaces) = None"
    by (auto simp: find_None_iff suffix_to_prefix)
  then show ?thesis by (simp add: TrimSpace_def Let_def trim_with_id)
qed simp

lemma TrimSpace_ends:
  assumes "s \<noteq> []" "\<And>w. w \<in> set unicode_spaces \<Longrightarrow> hd w \<noteq> hd s \<and> last w \<noteq> last s"
  shows "TrimSpace s = s"
proof (rule TrimSpace_id, intro ballI conjI notI)
  fix w assume w: "w \<in> set unicode_spaces"
  then have ne: "w \<noteq> []" by (rule unicode_spaces_nonempty)
  show False if "prefix w s" using assms(2) [OF w] ne that by (auto simp: prefix_def)
  show False if "suffix w s" using assms(2) [OF w] ne that by (auto simp: suffix_def)
qed

lemma TrimSpace_itoa: "TrimSpace (itoa n) = itoa n"
proof (rule TrimSpace_ends)
  show ne: "itoa n \<noteq> []" using itoa_digits by blast
  fix w assume w: "w \<in> set unicode_spaces"
  have "isDigit (hd (itoa n))" "isDigit (last (itoa n))" using ne itoa_digits [of n] by auto
  with space_not_digit [OF w] show "hd w \<noteq> hd (itoa n) \<and> last w \<noteq> last (itoa n)" by metis
qed

end
