(* ===== verification/Module_Documents.thy ===== *)
theory Module_Documents
  imports Compiler_Front Module_Resolution Go_Strconv
begin

text \<open>
  \<open>modules.go\<close> and \<open>bundle.go\<close>: the calls of a document that name library modules, the validation and compilation of a module,
  and the document that bundles a workflow with the modules it calls.  The XML encoder is a parameter like the decoder.
\<close>

subsection \<open>Calls to library modules\<close>

definition parseVersionTag :: "string \<Rightarrow> nat option" where
  "parseVersionTag tag =
     (case ParseInt 32 (TrimSpace tag) of None \<Rightarrow> None | Some n \<Rightarrow> if n < 1 then None else Some (nat n))"

definition module_call :: "BPMNCallActivity \<Rightarrow> string \<Rightarrow> nat \<Rightarrow> ModuleCall" where
  "module_call ca processID n = \<lparr>mc_CallID = ca_ID ca, mc_ProcessID = processID, mc_VersionNumber = n\<rparr>"

text \<open>The call to resolve and the issue to report, if there is one; most calls have neither.\<close>

definition moduleCall :: "BPMNCallActivity \<Rightarrow> string \<Rightarrow> BPMNDefinitions \<Rightarrow> ModuleCall option \<times> BPMNValidationError option" where
  "moduleCall ca callerID defs =
     (case ext_ZeebeCalledElement (ca_ExtensionElements ca) of
        None \<Rightarrow> (None, None)
      | Some ext \<Rightarrow>
          (let processID = ce_ProcessID ext;
               unresolved = (None, Some (err_of BPMNErrUnresolvedCalledElement (ca_ID ca)));
               local = FindProcessByID defs processID \<noteq> None
           in if processID = [] then (None, None)
              else if HasPrefix (TrimSpace processID) ''='' then unresolved
              else if ce_BindingType ext = [] \<or> ce_BindingType ext = ''latest'' then
                (if local then (None, None) else (Some (module_call ca processID 0), None))
              else if ce_BindingType ext = ''deployment'' then
                (if local then (None, None) else unresolved)
              else if ce_BindingType ext = ''versionTag'' then
                (case parseVersionTag (ce_VersionTag ext) of
                   None \<Rightarrow> unresolved
                 | Some n \<Rightarrow>
                     if local \<and> processID \<noteq> callerID then unresolved else (Some (module_call ca processID n), None))
              else unresolved))"

definition document_calls :: "BPMNDefinitions \<Rightarrow> (ModuleCall option \<times> BPMNValidationError option) list" where
  "document_calls defs =
     concat (map (\<lambda>p. map (\<lambda>ca. moduleCall ca (proc_ID p) defs) (proc_CallActivities p)) (defs_Processes defs))"

definition Compiler_ModuleCalls :: "compiler_env \<Rightarrow> string \<Rightarrow> compiler_error + ModuleCall list \<times> BPMNValidationError list" where
  "Compiler_ModuleCalls X bpmnXML =
     (case parsed X bpmnXML of
        Inl Cancelled \<Rightarrow> Inl CE_Cancelled
      | Inl e \<Rightarrow> Inr ([], [])
      | Inr defs \<Rightarrow>
          (let calls = List.map_filter fst (document_calls defs); issues = List.map_filter snd (document_calls defs)
           in Inr (calls, if calls \<noteq> [] then issues @ scan_document X bpmnXML else issues)))"

subsection \<open>Validation of a module\<close>

definition namedUsers :: "compiler_env \<Rightarrow> BPMNProcess \<Rightarrow> BPMNValidationError list" where
  "namedUsers X proc =
     map (\<lambda>t. err_of BPMNErrInvalidCandidateUser (ut_ID t))
       (filter (\<lambda>t. case ext_AssignmentDefinition (ut_ExtensionElements t) of
            None \<Rightarrow> False | Some ad \<Rightarrow> TrimSpace (ad_CandidateUsers ad) \<noteq> [])
          (proc_UserTasks proc @ concat (map sp_UserTasks (proc_SubProcesses proc)))) @
     map (\<lambda>ca. err_of BPMNErrInvalidCandidateUser (ca_ID ca))
       (filter (\<lambda>ca. in_Assignees (ParseCallInputs (vx_json (cx_validator X)) ca) \<noteq> []) (proc_CallActivities proc))"

definition as_module :: "BPMNDefinitions \<Rightarrow> BPMNProcess \<Rightarrow> BPMNDefinitions" where
  "as_module defs root = defs\<lparr>defs_ModuleProcesses := insert (proc_ID root) (defs_ModuleProcesses defs)\<rparr>"

definition validateModule :: "compiler_env \<Rightarrow> string \<Rightarrow> string \<Rightarrow> bool \<Rightarrow> BPMNValidationError list answer" where
  "validateModule X bpmnXML moduleProcessID global =
     (case parsed X bpmnXML of
        Inl MissingNamespace \<Rightarrow> Some (Inr [err_of BPMNErrMissingNamespace []])
      | Inl e \<Rightarrow> Some (Inl (classifyParseError e))
      | Inr defs \<Rightarrow>
          (case FindProcessByID defs moduleProcessID of
             None \<Rightarrow> Some (Inl CE_Failed)
           | Some root \<Rightarrow>
               (let defs = as_module defs root
                in Option.bind (ValidateCallGraph defs) (\<lambda>graph.
                   Option.bind (Validate (cx_validator X) defs root) (\<lambda>shape.
                   map_option (\<lambda>bodies. Inr (graph @ scan_document X bpmnXML @ shape @ bodies @
                       (if global then namedUsers X root else [])))
                     (ValidateCalledBodies (cx_validator X) defs root))))))"

subsection \<open>Compilation of a module\<close>

record ModuleDeclarations =
  mdl_Messages :: "string list"
  mdl_ErrorCodes :: "string list"

definition declarations :: "BPMNDefinitions \<Rightarrow> ModuleDeclarations" where
  "declarations defs = \<lparr>
     mdl_Messages = remdups_adj (sort (filter (\<lambda>s. s \<noteq> []) (map msg_Name (defs_Messages defs)))),
     mdl_ErrorCodes = remdups_adj (sort (filter (\<lambda>s. s \<noteq> []) (map err_ErrorCode (defs_Errors defs))))\<rparr>"

definition shape_module :: "BPMNProcess \<Rightarrow> CompiledPlan \<Rightarrow> CompiledPlan" where
  "shape_module root plan = (name_plan root plan)\<lparr>pl_Departments := withOpenSlots (pl_Departments plan) root\<rparr>"

definition compileModule :: "compiler_env \<Rightarrow> string \<Rightarrow> string \<Rightarrow> (CompiledCollaboration \<times> ModuleDeclarations) answer" where
  "compileModule X bpmnXML moduleProcessID =
     (case parsed X bpmnXML of
        Inl e \<Rightarrow> Some (Inl (classifyParseError e))
      | Inr defs \<Rightarrow>
          (case FindProcessByID defs moduleProcessID of
             None \<Rightarrow> Some (Inl CE_Panic)
           | Some root \<Rightarrow>
               bindC (compile_root X (as_module defs root) root) (\<lambda>(plan, called).
               (let collab = collaboration_of (shape_module root plan) called
                in bindC (expand X collab (proc_ID root)) (\<lambda>_. Some (Inr (collab, declarations defs)))))))"

definition Compiler_CompileModule :: "compiler_env \<Rightarrow> string \<Rightarrow> string \<Rightarrow> (CompiledCollaboration \<times> ModuleDeclarations) answer" where
  "Compiler_CompileModule X bpmnXML moduleProcessID =
     bindC (validateModule X bpmnXML moduleProcessID False) (\<lambda>errs.
       if filter isBlocking errs \<noteq> [] then Some (Inl (CE_ValidationFailed (filter isBlocking errs)))
       else compileModule X bpmnXML moduleProcessID)"

definition Compiler_ValidateModule :: "compiler_env \<Rightarrow> string \<Rightarrow> string \<Rightarrow> bool \<Rightarrow> BPMNValidationError list answer" where
  "Compiler_ValidateModule X bpmnXML moduleProcessID global =
     bindC (validateModule X bpmnXML moduleProcessID global) (\<lambda>errs.
       if \<exists>e \<in> set errs. isBlocking e then Some (Inr errs)
       else map_option (\<lambda>r. case r of
           Inl (CE_ValidationFailed refused) \<Rightarrow> Inr (errs @ refused)
         | Inl e \<Rightarrow> Inl e
         | Inr _ \<Rightarrow> Inr errs) (compileModule X bpmnXML moduleProcessID))"

subsection \<open>Bundling\<close>

datatype bundle_error = BundleMainUnreadable | BundleModuleUnreadable string | BundleMarshal

definition set_called :: "string \<Rightarrow> BPMNCallActivity \<Rightarrow> BPMNCallActivity" where
  "set_called plan ca = ca\<lparr>ca_ExtensionElements := (ca_ExtensionElements ca)\<lparr>ext_ZeebeCalledElement :=
     map_option (\<lambda>ext. ext\<lparr>ce_ProcessID := plan, ce_BindingType := [], ce_VersionTag := []\<rparr>)
       (ext_ZeebeCalledElement (ca_ExtensionElements ca))\<rparr>\<rparr>"

definition plan_names :: "ResolvedModule list \<Rightarrow> (moduleKey, string) gomap" where
  "plan_names modules = fold (\<lambda>m. mput (rm_ProcessID m, rm_VersionNumber m) (rm_PlanName m)) modules []"

definition point_call :: "string \<Rightarrow> BPMNDefinitions \<Rightarrow> (moduleKey, string) gomap \<Rightarrow> BPMNCallActivity \<Rightarrow> BPMNCallActivity" where
  "point_call callerID home planFor ca =
     (case moduleCall ca callerID home of
        (Some call, _) \<Rightarrow>
          (case map_of planFor (mc_ProcessID call, mc_VersionNumber call) of Some plan \<Rightarrow> set_called plan ca | None \<Rightarrow> ca)
      | _ \<Rightarrow> ca)"

definition pointLibraryCalls :: "BPMNDefinitions \<Rightarrow> (moduleKey, string) gomap \<Rightarrow> BPMNProcess \<Rightarrow> BPMNProcess" where
  "pointLibraryCalls home planFor proc =
     proc\<lparr>proc_CallActivities := map (point_call (proc_ID proc) home planFor) (proc_CallActivities proc)\<rparr>"

definition pointSelfCalls :: "string \<Rightarrow> BPMNProcess \<Rightarrow> BPMNProcess" where
  "pointSelfCalls planName proc =
     proc\<lparr>proc_CallActivities := map (\<lambda>ca. if called_id ca = Some (proc_ID proc) then set_called planName ca else ca)
       (proc_CallActivities proc)\<rparr>"

definition own_id :: "string \<Rightarrow> string \<Rightarrow> string" where
  "own_id planName i = (if i = [] then [] else planName @ ''/'' @ i)"

definition rename_boundary :: "(string \<Rightarrow> string) \<Rightarrow> BPMNBoundaryEvent \<Rightarrow> BPMNBoundaryEvent" where
  "rename_boundary own b = b\<lparr>
     bnd_Message := map_option (\<lambda>m. m\<lparr>md_MessageRef := own (md_MessageRef m)\<rparr>) (bnd_Message b),
     bnd_Error := map_option (\<lambda>e. e\<lparr>er_ErrorRef := own (er_ErrorRef e)\<rparr>) (bnd_Error b)\<rparr>"

abbreviation rename_send :: "(string \<Rightarrow> string) \<Rightarrow> BPMNSendTask \<Rightarrow> BPMNSendTask" where
  "rename_send own t \<equiv> t\<lparr>st_MessageRef := own (st_MessageRef t)\<rparr>"

abbreviation rename_receive :: "(string \<Rightarrow> string) \<Rightarrow> BPMNReceiveTask \<Rightarrow> BPMNReceiveTask" where
  "rename_receive own t \<equiv> t\<lparr>rt_MessageRef := own (rt_MessageRef t)\<rparr>"

primrec rename_sub :: "(string \<Rightarrow> string) \<Rightarrow> BPMNSubProcess \<Rightarrow> BPMNSubProcess" where
  "rename_sub own (BPMNSubProcess nid name ext lanes user generic service send receive starts ends par excl incl flows bounds subs calls) =
     BPMNSubProcess nid name ext lanes user generic service (map (rename_send own) send) (map (rename_receive own) receive)
       starts ends par excl incl flows (map (rename_boundary own) bounds) (map (rename_sub own) subs) calls"

definition renameRefs :: "(string \<Rightarrow> string) \<Rightarrow> BPMNProcess \<Rightarrow> BPMNProcess" where
  "renameRefs own proc = proc\<lparr>
     proc_SendTasks := map (rename_send own) (proc_SendTasks proc),
     proc_ReceiveTasks := map (rename_receive own) (proc_ReceiveTasks proc),
     proc_BoundaryEvents := map (rename_boundary own) (proc_BoundaryEvents proc),
     proc_SubProcesses := map (rename_sub own) (proc_SubProcesses proc)\<rparr>"

definition bundleDefinitions :: "BPMNDefinitions \<Rightarrow> string \<Rightarrow> BPMNDefinitions \<Rightarrow> BPMNDefinitions" where
  "bundleDefinitions modDefs planName defs = defs\<lparr>
     defs_Messages := defs_Messages defs @ map (\<lambda>m. m\<lparr>msg_ID := own_id planName (msg_ID m)\<rparr>) (defs_Messages modDefs),
     defs_Errors := defs_Errors defs @ map (\<lambda>e. e\<lparr>err_ID := own_id planName (err_ID e)\<rparr>) (defs_Errors modDefs)\<rparr>"

text \<open>The process of a module under its plan's name.\<close>

definition bundled_process :: "BPMNDefinitions \<Rightarrow> (moduleKey, string) gomap \<Rightarrow> string \<Rightarrow> BPMNProcess \<Rightarrow> BPMNProcess" where
  "bundled_process modDefs planFor planName proc =
     renameRefs (own_id planName) ((pointSelfCalls planName (pointLibraryCalls modDefs planFor proc))
       \<lparr>proc_ID := planName, proc_LibraryModule := True\<rparr>)"

fun bundle_loop :: "(string \<Rightarrow> parse_error + BPMNDefinitions) \<Rightarrow> (moduleKey, string) gomap \<Rightarrow> ResolvedModule list \<Rightarrow> string set
    \<Rightarrow> BPMNDefinitions \<Rightarrow> bundle_error + BPMNDefinitions" where
  "bundle_loop read planFor [] bundled defs = Inr defs"
| "bundle_loop read planFor (m # ms) bundled defs =
     (if rm_PlanName m \<in> bundled then bundle_loop read planFor ms bundled defs
      else case read (rm_BPMNXML m) of
          Inl e \<Rightarrow> Inl (BundleModuleUnreadable (rm_PlanName m))
        | Inr modDefs \<Rightarrow>
            (case defs_Processes modDefs of
               [proc] \<Rightarrow>
                 (let defs' = bundleDefinitions modDefs (rm_PlanName m) defs
                  in bundle_loop read planFor ms (insert (rm_PlanName m) bundled)
                       (defs'\<lparr>defs_Processes := defs_Processes defs' @ [bundled_process modDefs planFor (rm_PlanName m) proc]\<rparr>))
             | _ \<Rightarrow> Inl (BundleModuleUnreadable (rm_PlanName m))))"

definition bundle_main :: "(moduleKey, string) gomap \<Rightarrow> BPMNDefinitions \<Rightarrow> BPMNDefinitions" where
  "bundle_main planFor defs = defs\<lparr>defs_Processes :=
     map (\<lambda>p. pointLibraryCalls defs planFor (p\<lparr>proc_LibraryModule := False\<rparr>)) (defs_Processes defs)\<rparr>"

definition bundle_document :: "(string \<Rightarrow> parse_error + BPMNDefinitions) \<Rightarrow> BPMNDefinitions \<Rightarrow> ResolvedModule list
    \<Rightarrow> bundle_error + BPMNDefinitions" where
  "bundle_document read defs modules = bundle_loop read (plan_names modules) modules {} (bundle_main (plan_names modules) defs)"

definition bundleModules :: "compiler_env \<Rightarrow> (BPMNDefinitions \<Rightarrow> string option) \<Rightarrow> string \<Rightarrow> ResolvedModule list
    \<Rightarrow> bundle_error + string" where
  "bundleModules X encode mainXML modules =
     (if modules = [] then Inr mainXML
      else case unmarshal (cx_decode X mainXML) of
          Inl e \<Rightarrow> Inl BundleMainUnreadable
        | Inr defs \<Rightarrow>
            bindE (bundle_document (\<lambda>xml. parsed (X\<lparr>cx_ctxErr := \<lambda>_. False\<rparr>) xml) defs modules) (\<lambda>out.
            case encode out of None \<Rightarrow> Inl BundleMarshal | Some text \<Rightarrow> Inr text))"

end
