(* ===== verification/Module_Documents_Correct.thy ===== *)
theory Module_Documents_Correct
  imports Module_Documents Compiler_Correct
begin

text \<open>
  Version tags read back, modules validate and compile without a panic, and a bundle closes the calls that were resolved.
\<close>

subsection \<open>Version tags\<close>

lemma parseVersionTag_itoa: "parseVersionTag (itoa n) = (if 1 \<le> n \<and> n < 2 ^ 31 then Some n else None)"
  by (simp add: parseVersionTag_def TrimSpace_itoa ParseInt_itoa)

lemma parseVersionTag_bounds: "parseVersionTag tag = Some n \<Longrightarrow> 1 \<le> n \<and> n < 2 ^ 31"
  by (auto simp: parseVersionTag_def ParseInt_def Let_def split: option.splits if_splits list.splits)

subsection \<open>Calls of a document\<close>

text \<open>A call is resolved, reported, or neither, and never both; what is resolved names a process outside the document or a version.\<close>

lemma moduleCall_exclusive: "fst (moduleCall ca callerID defs) = None \<or> snd (moduleCall ca callerID defs) = None"
  by (auto simp: moduleCall_def Let_def split: option.splits)

lemma moduleCall_Some:
  assumes "moduleCall ca callerID defs = (Some call, i)"
  shows "mc_CallID call = ca_ID ca" "called_id ca = Some (mc_ProcessID call)" "mc_ProcessID call \<noteq> []"
    "mc_VersionNumber call = 0 \<and> FindProcessByID defs (mc_ProcessID call) = None \<or>
     0 < mc_VersionNumber call \<and> (FindProcessByID defs (mc_ProcessID call) = None \<or> mc_ProcessID call = callerID)"
  using assms
  by (auto simp: moduleCall_def Let_def module_call_def called_id_def split: option.splits if_splits dest!: parseVersionTag_bounds)

subsection \<open>Modules compile\<close>

lemma validateModule_returns: "\<exists>r. validateModule X bpmnXML moduleProcessID global = Some r"
proof (cases "parsed X bpmnXML")
  case (Inl e)
  then show ?thesis by (cases e) (simp_all add: validateModule_def)
next
  case (Inr defs)
  show ?thesis
  proof (cases "FindProcessByID defs moduleProcessID")
    case None
    with Inr show ?thesis by (simp add: validateModule_def)
  next
    case (Some root)
    let ?d = "as_module defs root"
    have mem: "root \<in> set (defs_Processes defs)" using FindProcessByID_mem [OF Some] .
    note flows = parsed_flows_ok [OF Inr]
    from ValidateCallGraph_returns obtain g where g: "ValidateCallGraph ?d = Some g" by blast
    from Validate_returns [OF flows [OF mem]] obtain s where s: "Validate (cx_validator X) ?d root = Some s" by blast
    have "\<exists>b. ValidateCalledBodies (cx_validator X) ?d root = Some b"
      using ValidateCalledBodies_exact [of ?d root "cx_validator X"] flows called_below_mem by (fastforce simp: as_module_def)
    with Inr Some g s show ?thesis by (auto simp: validateModule_def Let_def)
  qed
qed

lemma plan_ok_shape:
  assumes "plan_ok plan"
  shows "plan_ok (shape_module root plan)"
proof -
  have "plan_closed plan" using assms by (simp add: plan_ok_def)
  then have c: "distinct (map dd_ID (pl_Departments plan))" "steps_in (plan_ids (pl_Departments plan)) (pl_Steps plan)"
    "\<And>d st. d \<in> set (pl_Departments plan) \<Longrightarrow> st \<in> set (dd_Stages d) \<Longrightarrow> stage_in (plan_ids (pl_Departments plan)) st"
    by (auto simp: plan_closed_def)
  let ?ds = "withOpenSlots (pl_Departments plan) root"
  note ext = withOpenSlots_extends [where depts = "pl_Departments plan" and p = root]
  have sub: "plan_ids (pl_Departments plan) \<subseteq> plan_ids ?ds" using ext(1) by (auto simp: plan_ids_def)
  have "steps_in (plan_ids ?ds) (pl_Steps plan)" using c(2) sub step_in_mono by blast
  moreover have "stage_in (plan_ids ?ds) st" if "d \<in> set ?ds" "st \<in> set (dd_Stages d)" for d st
    using ext(3) [OF that(1)] that(2) c(3) stage_in_mono [OF _ sub] by auto
  ultimately have "plan_closed (shape_module root plan)" using ext(2) [OF c(1)]
    by (simp add: plan_closed_def shape_module_def name_plan_def)
  moreover have "plan_stages (shape_module root plan) = plan_stages plan" by (simp add: plan_stages_def shape_module_def ext(4))
  ultimately show ?thesis using assms by (simp add: plan_ok_def)
qed

lemma compileModule_ok:
  assumes "compileModule X bpmnXML moduleProcessID = Some (Inr (collab, decls))" "pl \<in> set (cc_Plans collab)"
  shows "plan_ok pl"
proof -
  from assms(1) obtain defs root plan called where
    "compile_root X (as_module defs root) root = Some (Inr (plan, called))" "collab = collaboration_of (shape_module root plan) called"
    by (auto simp: compileModule_def bindC_Inr Let_def split: sum.splits option.splits)
  with compile_root_ok(2) [OF this(1) refl] assms(2) plan_ok_shape show ?thesis by (auto simp: collaboration_of_def)
qed

text \<open>A module that validates is in its document, so that its compilation does not look up a missing process.\<close>

lemma CompileModule_no_panic: "Compiler_CompileModule X bpmnXML moduleProcessID \<noteq> Some (Inl CE_Panic)"
proof
  assume panic: "Compiler_CompileModule X bpmnXML moduleProcessID = Some (Inl CE_Panic)"
  from validateModule_returns obtain v where v: "validateModule X bpmnXML moduleProcessID False = Some v" by blast
  show False
  proof (cases v)
    case (Inl e)
    with panic v have "e = CE_Panic" by (simp add: Compiler_CompileModule_def)
    with v Inl show False
      by (auto simp: validateModule_def classifyParseError_def Let_def bind_eq_Some_conv split: sum.splits parse_error.splits option.splits)
  next
    case (Inr errs)
    with panic v have c: "compileModule X bpmnXML moduleProcessID = Some (Inl CE_Panic)" "filter isBlocking errs = []"
      by (auto simp: Compiler_CompileModule_def split: if_splits)
    show False
    proof (cases "parsed X bpmnXML")
      case (Inl e)
      with c show False by (cases e) (simp_all add: compileModule_def classifyParseError_def)
    next
      case p: (Inr defs)
      then obtain root where root: "FindProcessByID defs moduleProcessID = Some root"
        using v Inr by (cases "FindProcessByID defs moduleProcessID") (auto simp: validateModule_def)
      with c p have "bindC (compile_root X (as_module defs root) root) (\<lambda>(plan, called).
          bindC (expand X (collaboration_of (shape_module root plan) called) (proc_ID root))
            (\<lambda>_. Some (Inr (collaboration_of (shape_module root plan) called, declarations defs)))) = Some (Inl CE_Panic)"
        by (simp add: compileModule_def Let_def)
      moreover obtain r where r: "compile_root X (as_module defs root) root = Some r"
        using calculation by (cases "compile_root X (as_module defs root) root") simp_all
      ultimately show False using compile_root_ok(1) [OF r]
        by (cases r) (auto simp: bindC_def expand_def split: sum.splits expand_error.splits prod.splits)
    qed
  qed
qed

subsection \<open>Bundles\<close>

lemma plan_names_mem:
  "map_of (plan_names ms) key = Some plan \<Longrightarrow> \<exists>m \<in> set ms. rm_PlanName m = plan \<and> (rm_ProcessID m, rm_VersionNumber m) = key"
proof -
  have "map_of (fold (\<lambda>m. mput (rm_ProcessID m, rm_VersionNumber m) (rm_PlanName m)) ms acc) key = Some plan \<Longrightarrow>
      map_of acc key = Some plan \<or> (\<exists>m \<in> set ms. rm_PlanName m = plan \<and> (rm_ProcessID m, rm_VersionNumber m) = key)" for acc
    by (induction ms arbitrary: acc) (fastforce simp: update_conv split: if_splits)+
  from this [of "[]"] show "\<exists>m \<in> set ms. rm_PlanName m = plan \<and> (rm_ProcessID m, rm_VersionNumber m) = key"
    if "map_of (plan_names ms) key = Some plan" using that unfolding plan_names_def by auto
qed

lemma bundled_process_ID [simp]: "proc_ID (bundled_process modDefs planFor planName p) = planName"
  "proc_LibraryModule (bundled_process modDefs planFor planName p)"
  by (simp_all add: bundled_process_def renameRefs_def)

lemma bundle_loop_processes:
  assumes "bundle_loop read planFor ms bundled defs = Inr bdl"
  shows "\<exists>procs. defs_Processes bdl = defs_Processes defs @ procs \<and> (\<forall>p \<in> set procs. proc_LibraryModule p) \<and>
    proc_ID ` set procs = rm_PlanName ` set ms - bundled \<and> distinct (map proc_ID procs)"
  using assms
proof (induction read planFor ms bundled defs rule: bundle_loop.induct)
  case (2 read planFor m ms bundled defs)
  show ?case
  proof (cases "rm_PlanName m \<in> bundled")
    case True
    with 2 show ?thesis by auto
  next
    case False
    with "2.prems" obtain modDefs proc where r: "read (rm_BPMNXML m) = Inr modDefs" "defs_Processes modDefs = [proc]"
      by (auto split: sum.splits list.splits)
    let ?p = "bundled_process modDefs planFor (rm_PlanName m) proc"
    from "2.IH"(2) [OF False r(1,2) refl] r "2.prems" False obtain procs where
      "defs_Processes bdl = (defs_Processes defs @ [?p]) @ procs" "\<forall>p \<in> set procs. proc_LibraryModule p"
      "proc_ID ` set procs = rm_PlanName ` set ms - insert (rm_PlanName m) bundled" "distinct (map proc_ID procs)"
      by (auto simp: Let_def bundleDefinitions_def)
    then show ?thesis using False by (intro exI [of _ "?p # procs"]) auto
  qed
qed simp

lemma bundle_document_processes:
  assumes "bundle_document read defs modules = Inr bdl"
  obtains procs where "defs_Processes bdl = defs_Processes (bundle_main (plan_names modules) defs) @ procs"
    "\<forall>p \<in> set procs. proc_LibraryModule p" "proc_ID ` set procs = rm_PlanName ` set modules" "distinct (map proc_ID procs)"
  using bundle_loop_processes [OF assms [unfolded bundle_document_def]] by auto

lemma called_set_called: "called_id ca \<noteq> None \<Longrightarrow> called_id (set_called plan ca) = Some plan"
  by (cases "ext_ZeebeCalledElement (ca_ExtensionElements ca)") (auto simp: called_id_def set_called_def)

lemma FindProcessByID_exists:
  assumes "p \<in> set (defs_Processes defs)" "proc_ID p = i"
  shows "\<exists>q. FindProcessByID defs i = Some q \<and> proc_ID q = i"
proof -
  from assms obtain q where q: "find (\<lambda>p. proc_ID p = i) (defs_Processes defs) = Some q"
    by (cases "find (\<lambda>p. proc_ID p = i) (defs_Processes defs)") (auto simp: find_None_iff)
  moreover from q have "proc_ID q = i" by (auto simp: find_Some_iff)
  ultimately show ?thesis by (simp add: FindProcessByID_def)
qed

text \<open>
  Every call of the main document that a module was resolved for calls the process of that module's plan in the bundle, and no
  process of the main document is taken for a library module.
\<close>

lemma bundle_closes_calls:
  assumes bdl: "bundle_document read defs modules = Inr bdl"
    and p: "p \<in> set (defs_Processes defs)" and ca: "ca \<in> set (proc_CallActivities p)"
    and call: "moduleCall ca (proc_ID p) defs = (Some call, i)"
    and m: "m \<in> set modules" "(rm_ProcessID m, rm_VersionNumber m) = (mc_ProcessID call, mc_VersionNumber call)" "rm_PlanName m \<noteq> []"
    and same: "\<And>m'. m' \<in> set modules \<Longrightarrow> (rm_ProcessID m', rm_VersionNumber m') = (mc_ProcessID call, mc_VersionNumber call) \<Longrightarrow>
      rm_PlanName m' = rm_PlanName m"
  shows "\<exists>p' \<in> set (defs_Processes bdl). proc_ID p' = proc_ID p \<and> \<not> proc_LibraryModule p' \<and>
    set_called (rm_PlanName m) ca \<in> set (proc_CallActivities p') \<and>
    (\<exists>q. calledProcess bdl (set_called (rm_PlanName m) ca) = Some q \<and> proc_ID q = rm_PlanName m)"
proof -
  have "map_of (plan_names modules) (mc_ProcessID call, mc_VersionNumber call) \<noteq> None"
  proof -
    have "(\<exists>m \<in> set ms. (rm_ProcessID m, rm_VersionNumber m) = key) \<or> map_of acc key \<noteq> None \<Longrightarrow>
        map_of (fold (\<lambda>m. mput (rm_ProcessID m, rm_VersionNumber m) (rm_PlanName m)) ms acc) key \<noteq> None" for ms acc key
      by (induction ms arbitrary: acc) (auto simp: update_conv)
    then show ?thesis using m(1,2) unfolding plan_names_def by blast
  qed
  then obtain plan where plan: "map_of (plan_names modules) (mc_ProcessID call, mc_VersionNumber call) = Some plan" by blast
  with plan_names_mem [OF plan] same have "plan = rm_PlanName m" by auto
  with plan call have point: "point_call (proc_ID p) defs (plan_names modules) ca = set_called (rm_PlanName m) ca"
    by (simp add: point_call_def)
  let ?p = "pointLibraryCalls defs (plan_names modules) (p\<lparr>proc_LibraryModule := False\<rparr>)"
  from bdl obtain procs where procs: "defs_Processes bdl = defs_Processes (bundle_main (plan_names modules) defs) @ procs"
    "proc_ID ` set procs = rm_PlanName ` set modules" by (rule bundle_document_processes)
  have p': "?p \<in> set (defs_Processes bdl)" using p procs(1) by (auto simp: bundle_main_def)
  have "set_called (rm_PlanName m) ca \<in> set (proc_CallActivities ?p)"
    using ca point by (force simp: pointLibraryCalls_def)
  moreover have "rm_PlanName m \<in> proc_ID ` set procs" using procs(2) m(1) by blast
  then obtain r where "r \<in> set procs" "proc_ID r = rm_PlanName m" by auto
  then have "r \<in> set (defs_Processes bdl)" "proc_ID r = rm_PlanName m" using procs(1) by simp_all
  from FindProcessByID_exists [OF this] m(3) moduleCall_Some(2) [OF call]
  have "\<exists>q. calledProcess bdl (set_called (rm_PlanName m) ca) = Some q \<and> proc_ID q = rm_PlanName m"
    by (auto simp: calledProcess_def called_set_called)
  ultimately show ?thesis using p' by (intro bexI [of _ ?p]) (simp_all add: pointLibraryCalls_def)
qed

end
