(* ===== verification/Http_Errors.thy ===== *)
theory Http_Errors
  imports Service_Types Go_Strconv
begin

text \<open>
  \<open>http/handler/errors.go\<close> and \<open>strict_body.go\<close>: problem responses, the mapping of domain errors to them, the limits on text
  fields, the binding of request bodies and the record version of an \<open>If-Match\<close> header.  Texts that only inform are left out.
\<close>

subsection \<open>Problems\<close>

datatype ErrCode =
    CodeNotFound | CodeUnauthorized | CodeForbidden | CodeBadRequest | CodeDraftAlreadyExists | CodeDraftNotFound
  | CodeNoActiveVersion | CodeDuplicateKey | CodeDraftConcurrency | CodeInvalidStatus | CodeActiveInstances
  | CodeStructuralDiv | CodeModuleProcessID | CodePlanQuota | CodeAssigneeIneligible | CodeUpstream
  | CodeIdempotencyReplay | CodeIdempotencyRunning | CodeBPMNValidation | CodeInvalidBPMNXML | CodePayloadTooLarge
  | CodeUnsupportedMediaType | CodeInternal | CodeInvalidInput | CodeEventDecodeFailed

text \<open>The code of an invalid parameter is a code of its own or that of a validation error.\<close>

record invalidParam =
  ip_Name :: string
  ip_Code :: "BPMNErrorCode option"

record problemDetails =
  pb_Type :: string
  pb_Title :: string
  pb_Status :: nat
  pb_Instance :: string
  pb_Code :: ErrCode
  pb_CurrentRecordVersion :: "nat option"
  pb_InvalidParams :: "invalidParam list"

definition errBase :: string where
  "errBase = ''https://api.workflow.platform/errors/''"

definition problemTypes :: "nat \<Rightarrow> string option" where
  "problemTypes status = map_option (\<lambda>s. errBase @ s) (map_of
     [(400, ''bad-request''), (401, ''unauthorized''), (403, ''forbidden''), (404, ''not-found''), (409, ''conflict''),
      (422, ''validation-failed''), (413, ''payload-too-large''), (415, ''unsupported-media-type''),
      (500, ''internal-error''), (503, ''service-unavailable''), (502, ''bad-gateway''), (501, ''not-implemented'')] status)"

fun codeTitles :: "ErrCode \<Rightarrow> string" where
  "codeTitles CodeNotFound = ''Resource Not Found''"
| "codeTitles CodeUnauthorized = ''Unauthorized''"
| "codeTitles CodeForbidden = ''Forbidden''"
| "codeTitles CodeBadRequest = ''Bad Request''"
| "codeTitles CodeDraftAlreadyExists = ''Draft Already Exists''"
| "codeTitles CodeDraftNotFound = ''Draft Not Found''"
| "codeTitles CodeNoActiveVersion = ''No Active Version''"
| "codeTitles CodeDuplicateKey = ''Duplicate Template Key''"
| "codeTitles CodeDraftConcurrency = ''Draft Concurrency Violation''"
| "codeTitles CodeInvalidStatus = ''Invalid Version Status''"
| "codeTitles CodeActiveInstances = ''Active Instances Exist''"
| "codeTitles CodeStructuralDiv = ''Structural Divergence''"
| "codeTitles CodeModuleProcessID = ''Module Process Id Conflict''"
| "codeTitles CodePlanQuota = ''Plan Quota Exceeded''"
| "codeTitles CodeAssigneeIneligible = ''Assignee Ineligible''"
| "codeTitles CodeUpstream = ''Upstream Service Unavailable''"
| "codeTitles CodeIdempotencyReplay = ''Idempotency Key Replay''"
| "codeTitles CodeIdempotencyRunning = ''Idempotency Request In Progress''"
| "codeTitles CodeBPMNValidation = ''BPMN Validation Failed''"
| "codeTitles CodeInvalidBPMNXML = ''Invalid BPMN XML''"
| "codeTitles CodePayloadTooLarge = ''Payload Too Large''"
| "codeTitles CodeUnsupportedMediaType = ''Unsupported Media Type''"
| "codeTitles CodeInternal = ''Internal Server Error''"
| "codeTitles CodeInvalidInput = ''Invalid Input''"
| "codeTitles CodeEventDecodeFailed = ''Event Decode Failed''"

text \<open>\<open>path\<close> is the path of the request.\<close>

definition writeProblemWithVersion :: "string \<Rightarrow> nat \<Rightarrow> ErrCode \<Rightarrow> invalidParam list \<Rightarrow> nat option \<Rightarrow> problemDetails" where
  "writeProblemWithVersion path status code params currentRecordVersion = \<lparr>
     pb_Type = (case problemTypes status of Some t \<Rightarrow> t | None \<Rightarrow> errBase @ ''internal-error''),
     pb_Title = codeTitles code, pb_Status = status, pb_Instance = path, pb_Code = code,
     pb_CurrentRecordVersion = currentRecordVersion, pb_InvalidParams = params\<rparr>"

definition writeProblem :: "string \<Rightarrow> nat \<Rightarrow> ErrCode \<Rightarrow> invalidParam list \<Rightarrow> problemDetails" where
  "writeProblem path status code params = writeProblemWithVersion path status code params None"

subsection \<open>Domain errors\<close>

text \<open>
  \<open>ErrForbiddenXML\<close> stands for the error of the parser, which wraps \<open>ErrMalformedBPMN\<close> too; \<open>ErrInvalidDepartmentID\<close>,
  \<open>ErrDatabase\<close> and \<open>ErrPanic\<close> for errors that the mapping does not name.
\<close>

fun domain_problem :: "error \<Rightarrow> nat \<times> ErrCode \<times> invalidParam list" where
  "domain_problem ErrNotFound = (404, CodeNotFound, [])"
| "domain_problem ErrNoDraftExists = (404, CodeDraftNotFound, [])"
| "domain_problem ErrNoActiveVersion = (409, CodeNoActiveVersion, [])"
| "domain_problem ErrUnauthorized = (401, CodeUnauthorized, [])"
| "domain_problem ErrForbidden = (403, CodeForbidden, [])"
| "domain_problem ErrDraftAlreadyExists = (409, CodeDraftAlreadyExists, [])"
| "domain_problem ErrDuplicateTemplateKey = (409, CodeDuplicateKey, [])"
| "domain_problem ErrRecordVersionRequired = (400, CodeBadRequest, [\<lparr>ip_Name = ''record_version'', ip_Code = None\<rparr>])"
| "domain_problem ErrDraftConcurrency = (409, CodeDraftConcurrency, [])"
| "domain_problem (DraftConcurrencyError n) = (409, CodeDraftConcurrency, [])"
| "domain_problem ErrInvalidVersionStatus = (409, CodeInvalidStatus, [])"
| "domain_problem ErrVersionNotDraft = (409, CodeInvalidStatus, [])"
| "domain_problem ErrVersionNotPublished = (409, CodeInvalidStatus, [])"
| "domain_problem ErrVersionAlreadyPublished = (409, CodeInvalidStatus, [])"
| "domain_problem ErrActiveInstancesExist = (409, CodeActiveInstances, [])"
| "domain_problem ErrStructuralDivergence = (409, CodeStructuralDiv, [])"
| "domain_problem ErrModuleProcessIDTaken = (409, CodeModuleProcessID, [])"
| "domain_problem ErrModuleProcessIDChanged = (409, CodeModuleProcessID, [])"
| "domain_problem ErrIdempotencyKeyReplay = (409, CodeIdempotencyReplay, [])"
| "domain_problem ErrIdempotencyInProgress = (409, CodeIdempotencyRunning, [])"
| "domain_problem ErrPlanQuotaExceeded = (403, CodePlanQuota, [])"
| "domain_problem ErrAssigneeIneligible = (422, CodeAssigneeIneligible, [])"
| "domain_problem ErrInvalidConnectorCredentialInput = (400, CodeInvalidInput, [])"
| "domain_problem ErrInvalidConnectorAliasInput = (400, CodeInvalidInput, [])"
| "domain_problem (ValidationFailedError errs) = (422, CodeBPMNValidation,
     map (\<lambda>e. \<lparr>ip_Name = be_NodeID e, ip_Code = Some (be_Code e)\<rparr>) errs)"
| "domain_problem ErrUpstreamUnavailable = (503, CodeUpstream, [])"
| "domain_problem ErrMalformedBPMN = (400, CodeInvalidBPMNXML, [])"
| "domain_problem ErrForbiddenXML = (400, CodeInvalidBPMNXML, [])"
| "domain_problem e = (500, CodeInternal, [])"

definition errResponse :: "string \<Rightarrow> error \<Rightarrow> problemDetails" where
  "errResponse path e =
     (case domain_problem e of (status, code, params) \<Rightarrow>
        writeProblemWithVersion path status code params (case e of DraftConcurrencyError n \<Rightarrow> Some n | _ \<Rightarrow> None))"

subsection \<open>Text fields\<close>

text \<open>\<open>utf8.RuneCountInString\<close> of valid UTF-8, which a decoded JSON string is: every byte but those that continue a character.\<close>

definition continuation_byte :: "char \<Rightarrow> bool" where
  "continuation_byte c \<longleftrightarrow> (CHR 0x80 :: char) \<le> c \<and> c < CHR 0xC0"

definition RuneCount :: "string \<Rightarrow> nat" where
  "RuneCount s = length (filter (\<lambda>c. \<not> continuation_byte c) s)"

record lengthLimit =
  ll_field :: string
  ll_value :: string
  ll_max :: nat

definition rejectTooLong :: "string \<Rightarrow> lengthLimit list \<Rightarrow> problemDetails option" where
  "rejectTooLong path limits =
     (let invalids = map (\<lambda>l. \<lparr>ip_Name = ll_field l, ip_Code = None\<rparr>) (filter (\<lambda>l. RuneCount (ll_value l) > ll_max l) limits)
      in if invalids = [] then None else Some (writeProblem path 422 CodeInvalidInput invalids))"

definition recordVersionFromIfMatch :: "string \<Rightarrow> int option" where
  "recordVersionFromIfMatch header =
     (let value = TrimSpace header;
          value = (if 2 \<le> length value \<and> hd value = CHR 0x22 \<and> last value = CHR 0x22 then butlast (tl value) else value)
      in ParseInt 64 value)"

subsection \<open>Request bodies\<close>

text \<open>A decoded JSON document and the Go type it is bound to, pointers left out; \<open>GoOther\<close> is any type without known parts.\<close>

datatype json = JObject "(string \<times> json) list" | JArray "json list" | JScalar

datatype gotype = GoStruct "(string \<times> gotype) list" | GoMap gotype | GoSlice gotype | GoRawMessage | GoOther

definition joinPath :: "string \<Rightarrow> string \<Rightarrow> string" where
  "joinPath path key = (if path = [] then key else path @ ''.'' @ key)"

definition maxEchoedFieldName :: nat where
  "maxEchoedFieldName = 64"

fun take_runes :: "nat \<Rightarrow> string \<Rightarrow> string" where
  "take_runes n [] = []"
| "take_runes n (c # s) =
     (if continuation_byte c then c # take_runes n s
      else case n of 0 \<Rightarrow> [] | Suc m \<Rightarrow> c # take_runes m s)"

definition truncateFieldName :: "string \<Rightarrow> string" where
  "truncateFieldName name = (if RuneCount name > maxEchoedFieldName then take_runes maxEchoedFieldName name else name)"

definition item_path :: "string \<Rightarrow> nat \<Rightarrow> string" where
  "item_path path i = path @ ''['' @ itoa i @ '']''"

lemma json_sizes:
  "(k, item) \<in> set kvs \<Longrightarrow> size item < size (JObject kvs)"
  "(i, item) \<in> set (List.enumerate n items) \<Longrightarrow> size item < size (JArray items)"
proof -
  show "(k, item) \<in> set kvs \<Longrightarrow> size item < size (JObject kvs)" by (induction kvs) auto
  have "item \<in> set items \<Longrightarrow> size item < size (JArray items)" by (induction items) auto
  then show "(i, item) \<in> set (List.enumerate n items) \<Longrightarrow> size item < size (JArray items)"
    by (auto simp: in_set_enumerate_eq)
qed

function collectUnknown :: "json \<Rightarrow> gotype \<Rightarrow> string \<Rightarrow> string list" where
  "collectUnknown (JObject kvs) t path =
     (case t of
        GoStruct fs \<Rightarrow> concat (map (\<lambda>(k, item). case map_of fs k of
            None \<Rightarrow> [truncateFieldName (joinPath path k)]
          | Some u \<Rightarrow> collectUnknown item u (joinPath path k)) kvs)
      | GoMap u \<Rightarrow> concat (map (\<lambda>(k, item). collectUnknown item u (joinPath path k)) kvs)
      | _ \<Rightarrow> [])"
| "collectUnknown (JArray items) t path =
     (case t of
        GoSlice u \<Rightarrow> concat (map (\<lambda>(i, item). collectUnknown item u (item_path path i)) (List.enumerate 0 items))
      | _ \<Rightarrow> [])"
| "collectUnknown JScalar t path = []"
  by pat_completeness auto
termination
  by (relation "measure (\<lambda>(doc, t, path). size doc)") (use json_sizes in \<open>fastforce simp del: json.size\<close>)+

definition maxReportedUnknownFields :: nat where
  "maxReportedUnknownFields = 20"

datatype bind_error =
    BodyTooLarge | BodyUnreadable | BodyEmpty | BodyNotJSON | UnknownFields "string list" | WrongType string
  | InvalidFields "string list" | TrailingData

definition checkKnownFields :: "json option \<Rightarrow> gotype \<Rightarrow> bind_error + unit" where
  "checkKnownFields doc t =
     (case doc of
        None \<Rightarrow> Inl BodyNotJSON
      | Some d \<Rightarrow>
          (let names = collectUnknown d t []
           in if names = [] then Inr ()
              else Inl (UnknownFields (take maxReportedUnknownFields (sort names)))))"

text \<open>
  \<open>read\<close> is the body or why it could not be read, \<open>decode\<close> the decoder into the request type with what follows the value,
  \<open>validate\<close> the check of the binding tags.
\<close>

definition bindStrictJSON :: "bind_error + string \<Rightarrow> (string \<Rightarrow> json option) \<Rightarrow> gotype \<Rightarrow> (string \<Rightarrow> bind_error + 'a \<times> string)
    \<Rightarrow> ('a \<Rightarrow> bind_error + unit) \<Rightarrow> bind_error + 'a" where
  "bindStrictJSON read doc t decode validate =
     bindE read (\<lambda>body.
     if TrimSpace body = [] then Inl BodyEmpty
     else bindE (checkKnownFields (doc body) t) (\<lambda>_.
     bindE (decode body) (\<lambda>(obj, rest).
     if rest \<noteq> [] then Inl TrailingData
     else bindE (validate obj) (\<lambda>_. Inr obj))))"

definition bind_params :: "bind_error \<Rightarrow> invalidParam list" where
  "bind_params e =
     (case e of
        InvalidFields names \<Rightarrow> map (\<lambda>n. \<lparr>ip_Name = n, ip_Code = None\<rparr>) names
      | WrongType name \<Rightarrow> [\<lparr>ip_Name = name, ip_Code = None\<rparr>]
      | UnknownFields names \<Rightarrow> map (\<lambda>n. \<lparr>ip_Name = n, ip_Code = None\<rparr>) names
      | _ \<Rightarrow> [])"

definition bindErrResponse :: "string \<Rightarrow> bind_error \<Rightarrow> problemDetails" where
  "bindErrResponse path e =
     (if e = BodyTooLarge then writeProblem path 413 CodePayloadTooLarge []
      else writeProblem path 400 CodeBadRequest (bind_params e))"

subsection \<open>Facts\<close>

text \<open>Every error is answered with the type of its status, and only errors without a mapping are answered as internal.\<close>

lemma errResponse_typed:
  "\<exists>t. problemTypes (pb_Status (errResponse path e)) = Some t \<and> pb_Type (errResponse path e) = t"
  by (cases e) (simp_all add: errResponse_def writeProblemWithVersion_def problemTypes_def)

lemma errResponse_internal:
  "pb_Status (errResponse path e) = 500 \<longleftrightarrow> e \<in> {ErrTenantRetentionChanged, ErrInvalidDepartmentID, ErrDatabase, ErrPanic}"
  by (cases e) (simp_all add: errResponse_def writeProblemWithVersion_def)

lemma errResponse_current: "pb_CurrentRecordVersion (errResponse path e) = Some n \<longleftrightarrow> e = DraftConcurrencyError n"
  by (cases e) (auto simp: errResponse_def writeProblemWithVersion_def)

lemma codeTitles_inj: "codeTitles c = codeTitles d \<Longrightarrow> c = d"
  by (cases c; cases d) simp_all

text \<open>A body is known exactly when every key of every object is a field of the type it is bound to.\<close>

inductive conforms :: "json \<Rightarrow> gotype \<Rightarrow> bool" where
  struct: "conforms (JObject kvs) (GoStruct fs)" if "\<And>k item. (k, item) \<in> set kvs \<Longrightarrow> \<exists>u. map_of fs k = Some u \<and> conforms item u"
| mapping: "conforms (JObject kvs) (GoMap u)" if "\<And>k item. (k, item) \<in> set kvs \<Longrightarrow> conforms item u"
| slice: "conforms (JArray items) (GoSlice u)" if "\<And>item. item \<in> set items \<Longrightarrow> conforms item u"
| object_other: "conforms (JObject kvs) t" if "t \<notin> range GoStruct" "t \<notin> range GoMap"
| array_other: "conforms (JArray items) t" if "t \<notin> range GoSlice"
| scalar: "conforms JScalar t"

inductive_simps conforms_simps: "conforms (JObject kvs) t" "conforms (JArray items) t" "conforms JScalar t"

lemma concat_map_Nil_iff: "concat (map f xs) = [] \<longleftrightarrow> (\<forall>x \<in> set xs. f x = [])"
  by (induction xs) auto

lemma collectUnknown_conforms: "collectUnknown doc t path = [] \<longleftrightarrow> conforms doc t"
proof (induction doc t path rule: collectUnknown.induct)
  case (1 kvs t path)
  show ?case
  proof (cases t)
    case (GoStruct fs)
    have "collectUnknown (JObject kvs) t path = [] \<longleftrightarrow> (\<forall>(k, item) \<in> set kvs. \<exists>u. map_of fs k = Some u \<and> conforms item u)"
      unfolding GoStruct collectUnknown.simps gotype.case concat_map_Nil_iff
      by (rule ball_cong [OF refl]) (use "1.IH"(1) [OF GoStruct] in \<open>auto split: option.splits\<close>)
    then show ?thesis by (auto simp: GoStruct conforms_simps)
  next
    case (GoMap u)
    have "collectUnknown (JObject kvs) t path = [] \<longleftrightarrow> (\<forall>(k, item) \<in> set kvs. conforms item u)"
      unfolding GoMap collectUnknown.simps gotype.case concat_map_Nil_iff
      by (rule ball_cong [OF refl]) (use "1.IH"(2) [OF GoMap] in auto)
    then show ?thesis by (auto simp: GoMap conforms_simps)
  qed (auto simp: conforms_simps)
next
  case (2 items t path)
  show ?case
  proof (cases t)
    case (GoSlice u)
    have "collectUnknown (JArray items) t path = [] \<longleftrightarrow> (\<forall>(i, item) \<in> set (List.enumerate 0 items). conforms item u)"
      unfolding GoSlice collectUnknown.simps gotype.case concat_map_Nil_iff
      by (rule ball_cong [OF refl]) (use "2.IH" [OF GoSlice] in auto)
    also have "\<dots> \<longleftrightarrow> (\<forall>item \<in> set items. conforms item u)"
    proof -
      have "snd ` set (List.enumerate 0 items) = set items" by (metis map_snd_enumerate set_map)
      then show ?thesis by force
    qed
    finally show ?thesis by (auto simp: GoSlice conforms_simps)
  qed (auto simp: conforms_simps)
qed (simp add: conforms.scalar)

lemma bound_conforms:
  assumes "bindStrictJSON read doc t decode validate = Inr obj"
  shows "\<exists>body d. read = Inr body \<and> doc body = Some d \<and> conforms d t \<and> decode body = Inr (obj, []) \<and> validate obj = Inr ()"
proof -
  from assms obtain body d where "read = Inr body" "doc body = Some d" "collectUnknown d t [] = []"
    "decode body = Inr (obj, [])" "validate obj = Inr ()"
    by (fastforce simp: bindStrictJSON_def checkKnownFields_def bindE_eq_Inr Let_def split: if_splits option.splits)
  then show ?thesis using collectUnknown_conforms by blast
qed

lemma recordVersion_quoted: "recordVersionFromIfMatch (CHR 0x22 # itoa n @ [CHR 0x22]) = (if n < 2 ^ 63 then Some (int n) else None)"
proof -
  have "TrimSpace (CHR 0x22 # itoa n @ [CHR 0x22]) = CHR 0x22 # itoa n @ [CHR 0x22]"
    by (rule TrimSpace_ends) (auto simp: unicode_spaces_def)
  then show ?thesis by (simp add: recordVersionFromIfMatch_def Let_def ParseInt_itoa)
qed

lemma recordVersion_bare: "recordVersionFromIfMatch (itoa n) = (if n < 2 ^ 63 then Some (int n) else None)"
proof -
  obtain c s where c: "itoa n = c # s" "isDigit c" using itoa_digits [of n] by (cases "itoa n") auto
  then have "c \<noteq> CHR 0x22" by (auto simp: isDigit_def less_eq_char_def)
  then have "hd (itoa n) \<noteq> CHR 0x22" using c by simp
  then show ?thesis by (simp add: recordVersionFromIfMatch_def Let_def TrimSpace_itoa ParseInt_itoa)
qed

end
