(* ===== verification/Http_Handlers.thy ===== *)
theory Http_Handlers
  imports Http_Errors Draft_Services Version_Publish
begin

text \<open>
  \<open>http/handler/handler.go\<close> with the handlers of workflows, drafts and versions, and \<open>middleware/identity.go\<close>.  A handler
  checks the caller and the parameters, binds the body, calls its service and writes the reply; on an error it writes the
  problem of the error and the store stays.  The parser of UUIDs and the bound body are arguments.
\<close>

subsection \<open>Callers\<close>

record Identity =
  id_TenantID :: uuid
  id_UserID :: uuid
  id_Roles :: "string list"

record http_call =
  hc_Identity :: "Identity option"
  hc_Path :: string
  hc_Param :: "string \<Rightarrow> string"
  hc_Query :: "string \<Rightarrow> string option"
  hc_Header :: "string \<Rightarrow> string"

datatype 'b reply = Problem problemDetails | Respond nat 'b

definition RequireIdentityHeaders :: "http_call \<Rightarrow> problemDetails + unit" where
  "RequireIdentityHeaders c =
     (if TrimSpace (hc_Header c ''x-tenant-id'') = [] \<or> TrimSpace (hc_Header c ''x-user-id'') = []
      then Inl (writeProblem (hc_Path c) 401 CodeUnauthorized []) else Inr ())"

text \<open>The request context of the platform middleware holds the two identifiers as texts and the roles; \<open>guc\<close> accepts them.\<close>

definition RequireIdentity :: "(string \<Rightarrow> uuid option) \<Rightarrow> (uuid \<Rightarrow> uuid \<Rightarrow> string list \<Rightarrow> bool) \<Rightarrow> (string \<times> string \<times> string list) option
    \<Rightarrow> http_call \<Rightarrow> problemDetails + http_call" where
  "RequireIdentity pu guc rc c =
     (case rc of
        None \<Rightarrow> Inl (writeProblem (hc_Path c) 500 CodeInternal [])
      | Some (tenant, user, roles) \<Rightarrow>
          (case pu tenant of
             None \<Rightarrow> Inl (writeProblem (hc_Path c) 401 CodeUnauthorized [])
           | Some tenantID \<Rightarrow>
               (case pu user of
                  None \<Rightarrow> Inl (writeProblem (hc_Path c) 401 CodeUnauthorized [])
                | Some userID \<Rightarrow>
                    if \<not> guc tenantID userID roles then Inl (writeProblem (hc_Path c) 401 CodeUnauthorized [])
                    else Inr (c\<lparr>hc_Identity := Some \<lparr>id_TenantID = tenantID, id_UserID = userID, id_Roles = roles\<rparr>\<rparr>))))"

definition adminRoles :: "string set" where
  "adminRoles = {''tenant_admin'', ''tenant_owner''}"

definition isAdmin :: "http_call \<Rightarrow> bool" where
  "isAdmin c = (case hc_Identity c of None \<Rightarrow> False | Some i \<Rightarrow> list_ex (\<lambda>role. role \<in> adminRoles) (id_Roles i))"

definition requireAdmin :: "http_call \<Rightarrow> problemDetails + unit" where
  "requireAdmin c = (if isAdmin c then Inr () else Inl (writeProblem (hc_Path c) 403 CodeForbidden []))"

definition isPlatformOperator :: "http_call \<Rightarrow> bool" where
  "isPlatformOperator c = (case hc_Identity c of None \<Rightarrow> False | Some i \<Rightarrow> list_ex (\<lambda>role. role = ''platform_operator'') (id_Roles i))"

definition requirePlatformOperator :: "http_call \<Rightarrow> problemDetails + unit" where
  "requirePlatformOperator c = (if isPlatformOperator c then Inr () else Inl (writeProblem (hc_Path c) 403 CodeForbidden []))"

definition mustCtx :: "http_call \<Rightarrow> problemDetails + uuid \<times> uuid" where
  "mustCtx c =
     (case hc_Identity c of
        None \<Rightarrow> Inl (writeProblem (hc_Path c) 500 CodeInternal [])
      | Some i \<Rightarrow> Inr (id_TenantID i, id_UserID i))"

definition mustAdminCtx :: "http_call \<Rightarrow> problemDetails + uuid \<times> uuid" where
  "mustAdminCtx c = bindE (mustCtx c) (\<lambda>ids. bindE (requireAdmin c) (\<lambda>_. Inr ids))"

definition parseUUIDParam :: "(string \<Rightarrow> uuid option) \<Rightarrow> http_call \<Rightarrow> string \<Rightarrow> problemDetails + uuid" where
  "parseUUIDParam pu c param =
     (case pu (hc_Param c param) of
        None \<Rightarrow> Inl (writeProblem (hc_Path c) 400 CodeBadRequest [])
      | Some i \<Rightarrow> Inr i)"

subsection \<open>Query parameters\<close>

record queryInt =
  qi_key :: string
  qi_def :: int
  qi_lo :: int
  qi_hi :: int

definition query_value :: "http_call \<Rightarrow> queryInt \<Rightarrow> int option" where
  "query_value c sp =
     (case hc_Query c (qi_key sp) of
        None \<Rightarrow> Some (qi_def sp)
      | Some raw \<Rightarrow> (case Atoi raw of None \<Rightarrow> None | Some v \<Rightarrow> if v < qi_lo sp \<or> v > qi_hi sp then None else Some v))"

definition parseQueryInts :: "http_call \<Rightarrow> queryInt list \<Rightarrow> problemDetails + int list" where
  "parseQueryInts c specs =
     (let invalid = map (\<lambda>sp. \<lparr>ip_Name = qi_key sp, ip_Code = None\<rparr>) (filter (\<lambda>sp. query_value c sp = None) specs)
      in if invalid \<noteq> [] then Inl (writeProblem (hc_Path c) 400 CodeInvalidInput invalid)
         else Inr (map (\<lambda>sp. the (query_value c sp)) specs))"

definition page_spec :: queryInt where
  "page_spec = \<lparr>qi_key = ''page'', qi_def = 1, qi_lo = 1, qi_hi = 100000\<rparr>"

definition limit_spec :: queryInt where
  "limit_spec = \<lparr>qi_key = ''limit'', qi_def = 20, qi_lo = 1, qi_hi = 100\<rparr>"

definition versions_limit_spec :: queryInt where
  "versions_limit_spec = \<lparr>qi_key = ''versions_limit'', qi_def = 20, qi_lo = 1, qi_hi = 100\<rparr>"

definition paginate :: "http_call \<Rightarrow> problemDetails + int \<times> int" where
  "paginate c = bindE (parseQueryInts c [page_spec, limit_spec]) (\<lambda>v. Inr (v ! 0, v ! 1))"

definition parseVersionsLimit :: "http_call \<Rightarrow> problemDetails + int" where
  "parseVersionsLimit c = bindE (parseQueryInts c [versions_limit_spec]) (\<lambda>v. Inr (v ! 0))"

subsection \<open>Replies\<close>

record workflowResp =
  wp_ID :: uuid
  wp_Key :: string
  wp_Name :: string
  wp_Description :: string
  wp_ActiveVersionID :: "uuid option"
  wp_ActiveVersionNumber :: "nat option"
  wp_HasDraft :: bool
  wp_CreatedAt :: time
  wp_UpdatedAt :: time

definition toWorkflowResp :: "Workflow \<Rightarrow> workflowResp" where
  "toWorkflowResp w = \<lparr>wp_ID = wf_ID w, wp_Key = wf_TemplateKey w, wp_Name = wf_Name w, wp_Description = wf_Description w,
     wp_ActiveVersionID = wf_ActiveVersionID w, wp_ActiveVersionNumber = wf_ActiveVersionNumber w, wp_HasDraft = wf_HasDraft w,
     wp_CreatedAt = wf_CreatedAt w, wp_UpdatedAt = wf_UpdatedAt w\<rparr>"

record versionSummary =
  vs_ID :: uuid
  vs_Status :: VersionStatus
  vs_VersionNumber :: "nat option"
  vs_IsValid :: bool
  vs_CreatedByUserID :: uuid
  vs_PublishedAt :: "time option"
  vs_CreatedAt :: time

definition toVersionSummary :: "WorkflowVersion \<Rightarrow> versionSummary" where
  "toVersionSummary v = \<lparr>vs_ID = wv_ID v, vs_Status = wv_Status v, vs_VersionNumber = wv_VersionNumber v, vs_IsValid = wv_IsValid v,
     vs_CreatedByUserID = wv_CreatedByUserID v, vs_PublishedAt = wv_PublishedAt v, vs_CreatedAt = wv_CreatedAt v\<rparr>"

text \<open>An absent plan or list of errors is left out of the reply, and so is an empty plan.\<close>

record versionResp =
  vp_ID :: uuid
  vp_WorkflowID :: uuid
  vp_Status :: VersionStatus
  vp_VersionNumber :: "nat option"
  vp_BPMNXML :: string
  vp_ModuleRefs :: "ModuleRef list"
  vp_ArtifactHash :: string
  vp_IsValid :: bool
  vp_ValidationErrors :: "invalidationError list"
  vp_CompiledPlanJSON :: "string option"
  vp_CreatedByUserID :: uuid
  vp_PublishedAt :: "time option"
  vp_CreatedAt :: time
  vp_UpdatedAt :: time
  vp_RecordVersion :: nat

definition toVersionResp :: "WorkflowVersion \<Rightarrow> versionResp" where
  "toVersionResp v = \<lparr>vp_ID = wv_ID v, vp_WorkflowID = wv_WorkflowID v, vp_Status = wv_Status v, vp_VersionNumber = wv_VersionNumber v,
     vp_BPMNXML = wv_BPMNXML v, vp_ModuleRefs = wv_ModuleRefs v, vp_ArtifactHash = wv_ArtifactHash v, vp_IsValid = wv_IsValid v,
     vp_ValidationErrors = (case wv_ValidationErrorsJSON v of None \<Rightarrow> [] | Some errs \<Rightarrow> errs),
     vp_CompiledPlanJSON = (case wv_CompiledPlanJSON v of Some j \<Rightarrow> if j \<noteq> [] then Some j else None | None \<Rightarrow> None),
     vp_CreatedByUserID = wv_CreatedByUserID v, vp_PublishedAt = wv_PublishedAt v, vp_CreatedAt = wv_CreatedAt v,
     vp_UpdatedAt = wv_UpdatedAt v, vp_RecordVersion = wv_RecordVersion v\<rparr>"

text \<open>The bodies of successful replies: a version's identifiers and status, with its number and what else the route reports.\<close>

datatype http_body =
    EmptyBody
  | VersionIDs uuid uuid VersionStatus "nat option"
  | VersionUpdated uuid uuid VersionStatus "nat option" nat
  | WorkflowArchived uuid
  | VersionPromoted uuid uuid "nat option"
  | FullVersion versionResp
  | FullWorkflow workflowResp "versionSummary list"
  | ExportedBPMN string string

definition handle :: "problemDetails + 'r \<Rightarrow> ('r \<Rightarrow> db \<Rightarrow> 'b reply \<times> db) \<Rightarrow> db \<Rightarrow> 'b reply \<times> db" where
  "handle guard next_step db = (case guard of Inl p \<Rightarrow> (Problem p, db) | Inr r \<Rightarrow> next_step r db)"

definition serve :: "http_call \<Rightarrow> 'a repo \<Rightarrow> ('a \<Rightarrow> 'b reply) \<Rightarrow> db \<Rightarrow> 'b reply \<times> db" where
  "serve c run ok db = (case run db of Inl e \<Rightarrow> (Problem (errResponse (hc_Path c) e), db) | Inr (a, db') \<Rightarrow> (ok a, db'))"

definition bound_body :: "http_call \<Rightarrow> bind_error + 'a \<Rightarrow> problemDetails + 'a" where
  "bound_body c b = (case b of Inl e \<Rightarrow> Inl (bindErrResponse (hc_Path c) e) | Inr a \<Rightarrow> Inr a)"

definition check_lengths :: "http_call \<Rightarrow> (string \<times> string \<times> nat) list \<Rightarrow> problemDetails + unit" where
  "check_lengths c ls =
     (case rejectTooLong (hc_Path c) (map (\<lambda>(f, v, m). \<lparr>ll_field = f, ll_value = v, ll_max = m\<rparr>) ls) of
        Some p \<Rightarrow> Inl p | None \<Rightarrow> Inr ())"

definition version_ids :: "WorkflowVersion \<Rightarrow> http_body" where
  "version_ids v = VersionIDs (wv_WorkflowID v) (wv_ID v) (wv_Status v) (wv_VersionNumber v)"

subsection \<open>Workflows\<close>

record createWorkflowReq =
  cq_Key :: string
  cq_Name :: string
  cq_Description :: string
  cq_BPMNXML :: string

definition CreateWorkflowHandler ::
  "(uuid \<Rightarrow> string \<Rightarrow> error + BPMNValidationError list) option \<Rightarrow> (string \<Rightarrow> error + int option) \<Rightarrow> time \<Rightarrow> uuid \<Rightarrow> uuid
   \<Rightarrow> bind_error + createWorkflowReq \<Rightarrow> http_call \<Rightarrow> db \<Rightarrow> http_body reply \<times> db" where
  "CreateWorkflowHandler compiler limits now wfID vID body c =
     handle (mustAdminCtx c) (\<lambda>(tenantID, userID).
     handle (bound_body c body) (\<lambda>req.
     handle (check_lengths c [(''key'', cq_Key req, 255), (''name'', cq_Name req, 255), (''description'', cq_Description req, 2000)]) (\<lambda>_.
     serve c (WorkflowService_Create compiler limits now wfID vID tenantID userID (cq_Key req) (cq_Name req) (cq_Description req)
         (cq_BPMNXML req) (hc_Header c ''x-plan''))
       (\<lambda>(w, v). Respond 201 (VersionIDs (wf_ID w) (wv_ID v) (wv_Status v) (wv_VersionNumber v))))))"

definition GetWorkflow :: "(string \<Rightarrow> uuid option) \<Rightarrow> http_call \<Rightarrow> db \<Rightarrow> http_body reply \<times> db" where
  "GetWorkflow pu c =
     handle (mustCtx c) (\<lambda>(tenantID, _).
     handle (parseUUIDParam pu c ''id'') (\<lambda>workflowID.
     handle (parseVersionsLimit c) (\<lambda>versionsLimit.
     serve c (WorkflowService_Get tenantID workflowID versionsLimit)
       (\<lambda>(w, versions). Respond 200 (FullWorkflow (toWorkflowResp w) (map toVersionSummary versions))))))"

definition ArchiveWorkflow :: "(string \<Rightarrow> uuid option) \<Rightarrow> (uuid \<Rightarrow> uuid \<Rightarrow> error + bool) option \<Rightarrow> time \<Rightarrow> http_call \<Rightarrow> db \<Rightarrow> http_body reply \<times> db" where
  "ArchiveWorkflow pu execution now c =
     handle (mustAdminCtx c) (\<lambda>(tenantID, _).
     handle (parseUUIDParam pu c ''id'') (\<lambda>workflowID.
     serve c (WorkflowService_Archive execution now tenantID workflowID) (\<lambda>_. Respond 200 (WorkflowArchived workflowID))))"

subsection \<open>Drafts\<close>

definition GetDraft :: "(string \<Rightarrow> uuid option) \<Rightarrow> http_call \<Rightarrow> db \<Rightarrow> http_body reply \<times> db" where
  "GetDraft pu c =
     handle (mustCtx c) (\<lambda>(tenantID, _).
     handle (parseUUIDParam pu c ''id'') (\<lambda>workflowID.
     serve c (DraftService_Get tenantID workflowID) (\<lambda>v. Respond 200 (FullVersion (toVersionResp v)))))"

definition InitDraft :: "(string \<Rightarrow> uuid option) \<Rightarrow> time \<Rightarrow> uuid \<Rightarrow> http_call \<Rightarrow> db \<Rightarrow> http_body reply \<times> db" where
  "InitDraft pu now vID c =
     handle (mustAdminCtx c) (\<lambda>(tenantID, userID).
     handle (parseUUIDParam pu c ''id'') (\<lambda>workflowID.
     serve c (DraftService_Init now vID tenantID userID workflowID) (\<lambda>v. Respond 201 (version_ids v))))"

definition deref :: "string option \<Rightarrow> string" where
  "deref s = (case s of None \<Rightarrow> [] | Some x \<Rightarrow> x)"

definition if_match :: "http_call \<Rightarrow> UpdateDraftReq \<Rightarrow> UpdateDraftReq" where
  "if_match c req =
     (case recordVersionFromIfMatch (hc_Header c ''If-Match'') of Some n \<Rightarrow> req\<lparr>ur_RecordVersion := n\<rparr> | None \<Rightarrow> req)"

definition UpdateDraft :: "(string \<Rightarrow> uuid option) \<Rightarrow> (error + bool) option \<Rightarrow> time \<Rightarrow> bind_error + UpdateDraftReq \<Rightarrow> http_call
    \<Rightarrow> db \<Rightarrow> http_body reply \<times> db" where
  "UpdateDraft pu setNX now body c =
     handle (mustAdminCtx c) (\<lambda>(tenantID, _).
     handle (parseUUIDParam pu c ''id'') (\<lambda>workflowID.
     handle (bound_body c body) (\<lambda>req.
     handle (check_lengths c [(''name'', deref (ur_Name req), 255), (''description'', deref (ur_Description req), 2000)]) (\<lambda>_.
     serve c (DraftService_Update setNX now tenantID workflowID (if_match c req))
       (\<lambda>v. Respond 200 (VersionUpdated (wv_WorkflowID v) (wv_ID v) (wv_Status v) (wv_VersionNumber v) (wv_RecordVersion v)))))))"

definition DiscardDraft :: "(string \<Rightarrow> uuid option) \<Rightarrow> time \<Rightarrow> http_call \<Rightarrow> db \<Rightarrow> http_body reply \<times> db" where
  "DiscardDraft pu now c =
     handle (mustAdminCtx c) (\<lambda>(tenantID, _).
     handle (parseUUIDParam pu c ''id'') (\<lambda>workflowID.
     serve c (DraftService_Discard now tenantID workflowID) (\<lambda>_. Respond 204 EmptyBody)))"

subsection \<open>Versions\<close>

definition GetVersion :: "(string \<Rightarrow> uuid option) \<Rightarrow> http_call \<Rightarrow> db \<Rightarrow> http_body reply \<times> db" where
  "GetVersion pu c =
     handle (mustCtx c) (\<lambda>(tenantID, _).
     handle (parseUUIDParam pu c ''id'') (\<lambda>workflowID.
     handle (parseUUIDParam pu c ''version_id'') (\<lambda>versionID.
     serve c (VersionService_Get tenantID workflowID versionID) (\<lambda>v. Respond 200 (FullVersion (toVersionResp v))))))"

text \<open>A missing body publishes without force.\<close>

definition PublishVersionHandler :: "(string \<Rightarrow> uuid option) \<Rightarrow> ('b, 's, 'c) publish_env \<Rightarrow> time \<Rightarrow> bind_error + bool \<Rightarrow> http_call
    \<Rightarrow> db \<Rightarrow> http_body reply \<times> db" where
  "PublishVersionHandler pu env now body c =
     handle (mustAdminCtx c) (\<lambda>(tenantID, _).
     handle (parseUUIDParam pu c ''id'') (\<lambda>workflowID.
     handle (parseUUIDParam pu c ''version_id'') (\<lambda>versionID.
     handle (if body = Inl BodyEmpty then Inr False else bound_body c body) (\<lambda>force.
     serve c (VersionService_Publish env now tenantID workflowID versionID force)
       (\<lambda>v. Respond 200 (VersionIDs workflowID (wv_ID v) (wv_Status v) (wv_VersionNumber v)))))))"

record cloneVersionReq =
  nq_NewKey :: string
  nq_NewName :: string
  nq_NewDescription :: string

definition CloneVersion :: "(string \<Rightarrow> uuid option) \<Rightarrow> (string \<Rightarrow> error + int option) \<Rightarrow> time \<Rightarrow> uuid \<Rightarrow> uuid \<Rightarrow> bind_error + cloneVersionReq
    \<Rightarrow> http_call \<Rightarrow> db \<Rightarrow> http_body reply \<times> db" where
  "CloneVersion pu limits now wfID vID body c =
     handle (mustAdminCtx c) (\<lambda>(tenantID, userID).
     handle (parseUUIDParam pu c ''id'') (\<lambda>workflowID.
     handle (parseUUIDParam pu c ''version_id'') (\<lambda>versionID.
     handle (bound_body c body) (\<lambda>req.
     handle (check_lengths c [(''new_key'', nq_NewKey req, 255), (''new_name'', nq_NewName req, 255),
         (''new_description'', nq_NewDescription req, 2000)]) (\<lambda>_.
     serve c (VersionService_Clone limits now wfID vID tenantID userID workflowID versionID (hc_Header c ''x-plan'')
         (nq_NewKey req) (nq_NewName req) (nq_NewDescription req))
       (\<lambda>(w, v). Respond 201 (VersionIDs (wf_ID w) (wv_ID v) (wv_Status v) (wv_VersionNumber v))))))))"

definition PromoteVersion :: "(string \<Rightarrow> uuid option) \<Rightarrow> (string \<Rightarrow> error + int option) \<Rightarrow> time \<Rightarrow> http_call \<Rightarrow> db \<Rightarrow> http_body reply \<times> db" where
  "PromoteVersion pu limits now c =
     handle (mustAdminCtx c) (\<lambda>(tenantID, _).
     handle (parseUUIDParam pu c ''id'') (\<lambda>workflowID.
     handle (parseUUIDParam pu c ''version_id'') (\<lambda>versionID.
     serve c (VersionService_Promote limits now tenantID workflowID versionID (hc_Header c ''x-plan''))
       (\<lambda>v. Respond 200 (VersionPromoted workflowID versionID (wv_VersionNumber v))))))"

definition ExportBPMN :: "(string \<Rightarrow> uuid option) \<Rightarrow> http_call \<Rightarrow> db \<Rightarrow> http_body reply \<times> db" where
  "ExportBPMN pu c =
     handle (mustCtx c) (\<lambda>(tenantID, _).
     handle (parseUUIDParam pu c ''id'') (\<lambda>workflowID.
     handle (parseUUIDParam pu c ''version_id'') (\<lambda>versionID.
     serve c (VersionService_Export itoa tenantID workflowID versionID)
       (\<lambda>(xml, filename). Respond 200 (ExportedBPMN xml filename)))))"

end
