(* ===== verification/Http_Handlers_Correct.thy ===== *)
theory Http_Handlers_Correct
  imports Http_Handlers Workflow_Safety
begin

text \<open>
  What the handlers promise: only an administrator's request changes the store, it changes the store as the service does, a
  refused request leaves it, and query parameters are within their bounds.
\<close>

lemma handle_Inl [simp]: "handle (Inl p) k db = (Problem p, db)"
  and handle_Inr [simp]: "handle (Inr r) k db = k r db"
  by (simp_all add: handle_def)

lemma handle_change: "snd (handle g k db) \<noteq> db \<Longrightarrow> \<exists>r. g = Inr r \<and> snd (k r db) \<noteq> db"
  by (cases g) simp_all

lemma mustAdminCtx_Inr: "mustAdminCtx c = Inr ids \<longleftrightarrow> isAdmin c \<and> mustCtx c = Inr ids"
  by (cases "mustCtx c") (auto simp: mustAdminCtx_def requireAdmin_def)

lemma admin_change: "snd (handle (mustAdminCtx c) k db) \<noteq> db \<Longrightarrow> isAdmin c"
  by (drule handle_change) (auto simp: mustAdminCtx_Inr)

text \<open>Only administrators write.\<close>

lemma writes_need_admin:
  "snd (CreateWorkflowHandler compiler limits now wfID vID body1 c db) \<noteq> db \<Longrightarrow> isAdmin c"
  "snd (ArchiveWorkflow pu execution now c db) \<noteq> db \<Longrightarrow> isAdmin c"
  "snd (InitDraft pu now vID c db) \<noteq> db \<Longrightarrow> isAdmin c"
  "snd (UpdateDraft pu setNX now body2 c db) \<noteq> db \<Longrightarrow> isAdmin c"
  "snd (DiscardDraft pu now c db) \<noteq> db \<Longrightarrow> isAdmin c"
  "snd (PublishVersionHandler pu env now body3 c db) \<noteq> db \<Longrightarrow> isAdmin c"
  "snd (CloneVersion pu limits now wfID vID body4 c db) \<noteq> db \<Longrightarrow> isAdmin c"
  "snd (PromoteVersion pu limits now c db) \<noteq> db \<Longrightarrow> isAdmin c"
  unfolding CreateWorkflowHandler_def ArchiveWorkflow_def InitDraft_def UpdateDraft_def DiscardDraft_def PublishVersionHandler_def CloneVersion_def
    PromoteVersion_def by (erule admin_change)+

text \<open>The reads leave the store as it is.\<close>

lemma serve_problem: "fst (serve c run ok db) = Problem p \<Longrightarrow> (\<And>a. ok a \<noteq> Problem p) \<Longrightarrow> snd (serve c run ok db) = db"
  by (auto simp: serve_def split: sum.splits)

lemma serve_Respond: "serve c run ok db = (Respond st b, db') \<longleftrightarrow>
    (\<exists>a. run db = Inr (a, db') \<and> ok a = Respond st b)"
  by (auto simp: serve_def split: sum.splits prod.splits)

lemma GetByID_reads: "VersionRepo_GetByID tenantID vid db = Inr (v, db') \<Longrightarrow> db' = db"
  by (auto simp: VersionRepo_GetByID_def split: sum.splits)

lemma reads_keep_store:
  "snd (GetVersion pu c db) = db" "snd (ExportBPMN pu c db) = db" "snd (GetDraft pu c db) = db"
proof -
  have run: "snd (serve c' run ok db) = db" if "\<And>a db'. run db = Inr (a, db') \<Longrightarrow> db' = db"
    for c' ok and run :: "'a repo"
    using that by (auto simp: serve_def split: sum.splits)
  show "snd (GetVersion pu c db) = db"
    by (cases "mustCtx c"; cases "parseUUIDParam pu c ''id''"; cases "parseUUIDParam pu c ''version_id''")
      (auto simp: GetVersion_def serve_def VersionService_Get_def res_simps split: sum.splits if_splits dest!: GetByID_reads)
  show "snd (ExportBPMN pu c db) = db"
    by (cases "mustCtx c"; cases "parseUUIDParam pu c ''id''"; cases "parseUUIDParam pu c ''version_id''")
      (auto simp: ExportBPMN_def serve_def VersionService_Export_def res_simps GetByID_Inr split: sum.splits if_splits dest!: GetByID_reads)
  show "snd (GetDraft pu c db) = db"
    by (cases "mustCtx c"; cases "parseUUIDParam pu c ''id''")
      (auto simp: GetDraft_def serve_def DraftService_Get_def VersionRepo_GetDraft_def split: sum.splits)
qed

text \<open>A request is answered with success exactly when its service commits, and the store is then the one of the service.\<close>

lemma publish_request:
  "PublishVersionHandler pu env now body c db = (Respond st b, db') \<longleftrightarrow>
     (\<exists>tenantID userID wid vid force v. isAdmin c \<and> mustCtx c = Inr (tenantID, userID) \<and>
        pu (hc_Param c ''id'') = Some wid \<and> pu (hc_Param c ''version_id'') = Some vid \<and>
        (body = Inl BodyEmpty \<and> \<not> force \<or> body = Inr force) \<and>
        VersionService_Publish env now tenantID wid vid force db = Inr (v, db') \<and>
        st = 200 \<and> b = VersionIDs wid (wv_ID v) (wv_Status v) (wv_VersionNumber v))"
proof (cases "mustAdminCtx c")
  case (Inl p)
  then have "\<not> (isAdmin c \<and> mustCtx c = Inr ids)" for ids using mustAdminCtx_Inr [of c ids] by auto
  with Inl show ?thesis by (auto simp: PublishVersionHandler_def)
next
  case (Inr ids)
  then have "isAdmin c" "mustCtx c = Inr ids" by (simp_all add: mustAdminCtx_Inr)
  with Inr show ?thesis
    by (cases ids; cases "pu (hc_Param c ''id'')"; cases "pu (hc_Param c ''version_id'')"; cases body)
      (auto simp: PublishVersionHandler_def parseUUIDParam_def bound_body_def serve_Respond)
qed

text \<open>The version that a draft update is checked against is that of \<open>If-Match\<close>, when it holds one.\<close>

lemma if_match_quoted:
  assumes "hc_Header c ''If-Match'' = CHR 0x22 # itoa n @ [CHR 0x22]" "n < 2 ^ 63"
  shows "ur_RecordVersion (if_match c req) = int n"
  using assms by (simp add: if_match_def recordVersion_quoted)

subsection \<open>Query parameters\<close>

lemma query_value_bounds:
  assumes "query_value c sp = Some v" "qi_lo sp \<le> qi_def sp" "qi_def sp \<le> qi_hi sp"
  shows "qi_lo sp \<le> v \<and> v \<le> qi_hi sp"
  using assms by (auto simp: query_value_def split: option.splits if_splits)

lemma paginate_bounds: "paginate c = Inr (page, limit) \<Longrightarrow> 1 \<le> page \<and> page \<le> 100000 \<and> 1 \<le> limit \<and> limit \<le> 100"
  using query_value_bounds [of c page_spec] query_value_bounds [of c limit_spec]
  by (auto simp: paginate_def parseQueryInts_def Let_def bindE_eq_Inr page_spec_def limit_spec_def split: if_splits)

end
