(* ===== verification/Tenant_Purge.thy ===== *)
theory Tenant_Purge
  imports Service_Types
begin

text \<open>
  The purge of departed tenants: the ledger \<open>tenant_retention\<close> with the queries of \<open>db/queries/tenant_retention.sql\<close>,
  \<open>tenant_retention_repo.go\<close>, \<open>tenant_offboarding.go\<close> and \<open>tenant_purger.go\<close>.  Sweeps of several replicas run
  concurrently with the events that record departures and returns, and with requests that add rows: a sweep is a state machine
  whose steps are its calls to the database and to the secrets service.
\<close>

subsection \<open>The ledger\<close>

record retention_row =
  tr_TenantID :: uuid
  tr_OffboardedAt :: "time option"
  tr_CredentialsPurgeAfter :: "time option"
  tr_ArtifactsPurgeAfter :: "time option"
  tr_CredentialsPurgedAt :: "time option"
  tr_PurgedAt :: "time option"
  tr_ReturnedAt :: "time option"
  tr_Attempts :: nat
  tr_NextAttemptAt :: time
  tr_RecordVersion :: nat

type_synonym ledger = "retention_row list"

text \<open>The trigger \<open>update_tenant_retention_meta\<close>.\<close>

definition touch_retention :: "retention_row \<Rightarrow> retention_row \<Rightarrow> retention_row" where
  "touch_retention old new = (if new = old then old else new\<lparr>tr_RecordVersion := tr_RecordVersion old + 1\<rparr>)"

definition update_ledger :: "(retention_row \<Rightarrow> bool) \<Rightarrow> (retention_row \<Rightarrow> retention_row) \<Rightarrow> ledger \<Rightarrow> ledger" where
  "update_ledger P f L = map (\<lambda>r. if P r then touch_retention r (f r) else r) L"

definition RecordTenantOffboarded :: "uuid \<Rightarrow> time \<Rightarrow> time \<Rightarrow> time \<Rightarrow> ledger \<Rightarrow> ledger" where
  "RecordTenantOffboarded tenantID offboardedAt credentialsAfter artifactsAfter L =
     (if find (\<lambda>r. tr_TenantID r = tenantID) L = None
      then L @ [\<lparr>tr_TenantID = tenantID, tr_OffboardedAt = Some offboardedAt, tr_CredentialsPurgeAfter = Some credentialsAfter,
             tr_ArtifactsPurgeAfter = Some artifactsAfter, tr_CredentialsPurgedAt = None, tr_PurgedAt = None, tr_ReturnedAt = None,
             tr_Attempts = 0, tr_NextAttemptAt = offboardedAt, tr_RecordVersion = 1\<rparr>]
      else update_ledger
        (\<lambda>r. tr_TenantID r = tenantID \<and> (case tr_ReturnedAt r of None \<Rightarrow> False | Some ra \<Rightarrow> ra < offboardedAt))
        (\<lambda>r. r\<lparr>tr_OffboardedAt := Some offboardedAt, tr_CredentialsPurgeAfter := Some credentialsAfter,
           tr_ArtifactsPurgeAfter := Some artifactsAfter, tr_CredentialsPurgedAt := None, tr_PurgedAt := None,
           tr_ReturnedAt := None, tr_Attempts := 0, tr_NextAttemptAt := offboardedAt\<rparr>) L)"

definition RecordTenantReturned :: "uuid \<Rightarrow> time \<Rightarrow> ledger \<Rightarrow> ledger" where
  "RecordTenantReturned tenantID returnedAt L =
     (if find (\<lambda>r. tr_TenantID r = tenantID) L = None
      then L @ [\<lparr>tr_TenantID = tenantID, tr_OffboardedAt = None, tr_CredentialsPurgeAfter = None, tr_ArtifactsPurgeAfter = None,
             tr_CredentialsPurgedAt = None, tr_PurgedAt = None, tr_ReturnedAt = Some returnedAt, tr_Attempts = 0,
             tr_NextAttemptAt = returnedAt, tr_RecordVersion = 1\<rparr>]
      else update_ledger
        (\<lambda>r. tr_TenantID r = tenantID \<and> (case tr_OffboardedAt r of None \<Rightarrow> True | Some ob \<Rightarrow> ob < returnedAt) \<and>
           (case tr_ReturnedAt r of None \<Rightarrow> True | Some ra \<Rightarrow> ra < returnedAt))
        (\<lambda>r. r\<lparr>tr_ReturnedAt := Some returnedAt\<rparr>) L)"

definition current_row :: "uuid \<Rightarrow> nat \<Rightarrow> retention_row \<Rightarrow> bool" where
  "current_row tenantID version r \<longleftrightarrow> tr_TenantID r = tenantID \<and> tr_RecordVersion r = version"

text \<open>\<open>LockCurrentTenantRetention\<close>; the row stays locked for the rest of the transaction.\<close>

definition lockCurrent :: "uuid \<Rightarrow> nat \<Rightarrow> ledger \<Rightarrow> error + unit" where
  "lockCurrent tenantID version L =
     (if find (\<lambda>r. current_row tenantID version r \<and> tr_ReturnedAt r = None) L = None then Inl ErrTenantRetentionChanged else Inr ())"

definition due_at :: "time \<Rightarrow> time option \<Rightarrow> time option \<Rightarrow> bool" where
  "due_at now purgedAt purgeAfter \<longleftrightarrow> purgedAt = None \<and> (case purgeAfter of None \<Rightarrow> False | Some t \<Rightarrow> t \<le> now)"

definition credentials_due :: "time \<Rightarrow> retention_row \<Rightarrow> bool" where
  "credentials_due now r = due_at now (tr_CredentialsPurgedAt r) (tr_CredentialsPurgeAfter r)"

definition artifacts_due :: "time \<Rightarrow> retention_row \<Rightarrow> bool" where
  "artifacts_due now r = due_at now (tr_PurgedAt r) (tr_ArtifactsPurgeAfter r)"

text \<open>\<open>LEAST\<close> of the two dates, which are both set in a row that is due.\<close>

definition first_date :: "retention_row \<Rightarrow> time" where
  "first_date r = (case (tr_CredentialsPurgeAfter r, tr_ArtifactsPurgeAfter r) of
     (Some c, Some a) \<Rightarrow> min c a | (Some c, None) \<Rightarrow> c | (None, Some a) \<Rightarrow> a | _ \<Rightarrow> 0)"

record TenantPurgeDue =
  du_TenantID :: uuid
  du_Credentials :: bool
  du_Artifacts :: bool
  du_Attempts :: nat
  du_RecordVersion :: nat

definition ListDue :: "time \<Rightarrow> nat \<Rightarrow> ledger \<Rightarrow> TenantPurgeDue list" where
  "ListDue now limit L =
     map (\<lambda>r. \<lparr>du_TenantID = tr_TenantID r, du_Credentials = credentials_due now r, du_Artifacts = artifacts_due now r,
         du_Attempts = tr_Attempts r, du_RecordVersion = tr_RecordVersion r\<rparr>)
       (take limit (sort_key first_date (sort_key tr_TenantID (filter (\<lambda>r. tr_NextAttemptAt r \<le> now \<and> tr_ReturnedAt r = None \<and>
          (credentials_due now r \<or> artifacts_due now r)) L))))"

text \<open>An update that returns the new record version; no row means that the record changed.\<close>

definition returning_version :: "uuid \<Rightarrow> nat \<Rightarrow> (retention_row \<Rightarrow> retention_row) \<Rightarrow> ledger \<Rightarrow> error + nat \<times> ledger" where
  "returning_version tenantID version f L =
     (case find (current_row tenantID version) L of
        None \<Rightarrow> Inl ErrTenantRetentionChanged
      | Some r \<Rightarrow> Inr (tr_RecordVersion (touch_retention r (f r)), update_ledger (current_row tenantID version) f L))"

definition MarkCredentialsPurged :: "uuid \<Rightarrow> nat \<Rightarrow> time \<Rightarrow> ledger \<Rightarrow> error + nat \<times> ledger" where
  "MarkCredentialsPurged tenantID version at = returning_version tenantID version (\<lambda>r. r\<lparr>tr_CredentialsPurgedAt := Some at, tr_Attempts := 0\<rparr>)"

definition MarkPurged :: "uuid \<Rightarrow> nat \<Rightarrow> time \<Rightarrow> ledger \<Rightarrow> error + nat \<times> ledger" where
  "MarkPurged tenantID version at = returning_version tenantID version (\<lambda>r. r\<lparr>tr_PurgedAt := Some at, tr_Attempts := 0\<rparr>)"

text \<open>\<open>clampInt32\<close> of a number that is not negative.\<close>

definition clamp_count :: "nat \<Rightarrow> nat" where
  "clamp_count n = (if n > 2 ^ 31 - 1 then 2 ^ 31 - 1 else n)"

definition RecordFailure :: "uuid \<Rightarrow> nat \<Rightarrow> nat \<Rightarrow> time \<Rightarrow> ledger \<Rightarrow> error + nat \<times> ledger" where
  "RecordFailure tenantID version attempts next_at =
     returning_version tenantID version (\<lambda>r. r\<lparr>tr_Attempts := clamp_count attempts, tr_NextAttemptAt := next_at\<rparr>)"

subsection \<open>The tenant's rows\<close>

text \<open>
  The three tables that the purge deletes from, their rows with tenant and identifier; a module or a starter is a row here
  when its scope is that of a tenant.  A delete with a limit takes any rows: the list is in the order in which it takes them.
\<close>

datatype purge_table = TableWorkflow | TableModule | TableTemplate

type_synonym tenant_row = "purge_table \<times> uuid \<times> uuid"

definition tenantPurgeSteps :: "purge_table list" where
  "tenantPurgeSteps = [TableWorkflow, TableModule, TableTemplate]"

definition row_in :: "purge_table \<Rightarrow> uuid \<Rightarrow> tenant_row \<Rightarrow> bool" where
  "row_in tb tenantID row \<longleftrightarrow> fst row = tb \<and> fst (snd row) = tenantID"

fun delete_some :: "(tenant_row \<Rightarrow> bool) \<Rightarrow> nat \<Rightarrow> tenant_row list \<Rightarrow> tenant_row list" where
  "delete_some P n [] = []"
| "delete_some P n (x # xs) =
     (if P x then (case n of 0 \<Rightarrow> x # xs | Suc m \<Rightarrow> delete_some P m xs) else x # delete_some P n xs)"

record purge_world =
  pw_ledger :: ledger
  pw_rows :: "tenant_row list"
  pw_secrets :: "string set"

definition PurgeBatch :: "uuid \<Rightarrow> nat \<Rightarrow> nat \<Rightarrow> purge_world \<Rightarrow> error + (purge_table \<times> nat) list \<times> purge_world" where
  "PurgeBatch tenantID version limit w =
     bindE (lockCurrent tenantID version (pw_ledger w)) (\<lambda>_.
       case find (\<lambda>tb. min (clamp_count limit) (length (filter (row_in tb tenantID) (pw_rows w))) > 0) tenantPurgeSteps of
         None \<Rightarrow> Inr ([], w)
       | Some tb \<Rightarrow> Inr ([(tb, min (clamp_count limit) (length (filter (row_in tb tenantID) (pw_rows w))))],
           w\<lparr>pw_rows := delete_some (row_in tb tenantID) (clamp_count limit) (pw_rows w)\<rparr>))"

definition HasRows :: "uuid \<Rightarrow> purge_world \<Rightarrow> bool" where
  "HasRows tenantID w = list_ex (\<lambda>row. fst (snd row) = tenantID) (pw_rows w)"

end
