(* ===== verification/Tenant_Purger.thy ===== *)
theory Tenant_Purger
  imports Tenant_Purge
begin

text \<open>
  \<open>tenant_purger.go\<close> and \<open>tenant_offboarding.go\<close>, and the runs of the purge.  A step is one call of a sweep, one event, or
  a request of the tenant that adds a row or a secret; a call of a sweep may fail, with or without its effect.  Logging and
  metrics are left out.
\<close>

subsection \<open>The sweep\<close>

text \<open>
  The registry of connectors: a type with the names of its inputs and whether each is a reference to a secret.  \<open>pg_show\<close> is
  the text of a UUID, \<open>pg_secrets\<close> says whether there is a secrets service, and times are in nanoseconds.
\<close>

record purger_env =
  pg_registry :: "(string \<times> (string \<times> bool) list) list"
  pg_show :: "uuid \<Rightarrow> string"
  pg_secrets :: bool
  pg_batch :: nat
  pg_interval :: nat
  pg_credentialRetention :: nat
  pg_artifactRetention :: nat

definition tenantCredentialPaths :: "purger_env \<Rightarrow> uuid \<Rightarrow> string list" where
  "tenantCredentialPaths E tenantID =
     sort (concat (map (\<lambda>(connectorType, inputs).
       map (\<lambda>(name, secret). ''connectors/'' @ pg_show E tenantID @ ''/'' @ connectorType @ ''/'' @ name) (filter snd inputs))
       (pg_registry E)))"

definition tenantsPerPurgeTick :: nat where
  "tenantsPerPurgeTick = 100"

definition maxPurgeBackoff :: nat where
  "maxPurgeBackoff = 7 * 24 * 3600 * 10 ^ 9"

fun backoff_loop :: "nat \<Rightarrow> nat \<Rightarrow> nat" where
  "backoff_loop 0 wait = wait"
| "backoff_loop (Suc n) wait = (if wait < maxPurgeBackoff then backoff_loop n (wait * 2) else wait)"

definition backoff :: "purger_env \<Rightarrow> nat \<Rightarrow> nat" where
  "backoff E attempts = min (backoff_loop (attempts - 1) (pg_interval E)) maxPurgeBackoff"

text \<open>The calls of \<open>purgeTenant\<close>, \<open>purgeCredentials\<close> and \<open>purgeArtifacts\<close>, with the variables they keep between them.\<close>

datatype purge_phase =
    CheckPath string "string list"
  | DeletePath string "string list"
  | CredentialsMark
  | ArtifactsBatch
  | ArtifactsRemaining
  | ArtifactsMark
  | FailureRecord
  | PurgeEnd

record purge_run =
  pr_due :: TenantPurgeDue
  pr_version :: nat
  pr_attempts :: nat
  pr_failed :: bool

definition finish_phase :: "purge_run \<Rightarrow> purge_phase" where
  "finish_phase r = (if pr_failed r then FailureRecord else PurgeEnd)"

definition artifacts_phase :: "purge_run \<Rightarrow> purge_phase" where
  "artifacts_phase r = (if du_Artifacts (pr_due r) then ArtifactsBatch else finish_phase r)"

fun path_phase :: "string list \<Rightarrow> purge_phase" where
  "path_phase [] = CredentialsMark"
| "path_phase (path # rest) = CheckPath path rest"

definition purge_begin :: "purger_env \<Rightarrow> TenantPurgeDue \<Rightarrow> purge_phase \<times> purge_run" where
  "purge_begin E d =
     (let r = \<lparr>pr_due = d, pr_version = du_RecordVersion d, pr_attempts = du_Attempts d, pr_failed = False\<rparr>
      in (if \<not> du_Credentials d then artifacts_phase r
          else if pg_secrets E then path_phase (tenantCredentialPaths E (du_TenantID d)) else CredentialsMark, r))"

definition next_version :: "nat \<Rightarrow> purge_run \<Rightarrow> purge_run" where
  "next_version v r = r\<lparr>pr_attempts := if v \<noteq> pr_version r then 0 else pr_attempts r, pr_version := v\<rparr>"

text \<open>An error ends the part it is met in; one that says that the record changed ends the whole purge of the tenant.\<close>

fun part_failed :: "purge_phase \<Rightarrow> purge_run \<Rightarrow> purge_phase \<times> purge_run" where
  "part_failed (CheckPath path rest) r = (artifacts_phase (r\<lparr>pr_failed := True\<rparr>), r\<lparr>pr_failed := True\<rparr>)"
| "part_failed (DeletePath path rest) r = (artifacts_phase (r\<lparr>pr_failed := True\<rparr>), r\<lparr>pr_failed := True\<rparr>)"
| "part_failed CredentialsMark r = (artifacts_phase (r\<lparr>pr_failed := True\<rparr>), r\<lparr>pr_failed := True\<rparr>)"
| "part_failed FailureRecord r = (PurgeEnd, r)"
| "part_failed PurgeEnd r = (PurgeEnd, r)"
| "part_failed _ r = (FailureRecord, r\<lparr>pr_failed := True\<rparr>)"

definition purge_error :: "error \<Rightarrow> purge_phase \<Rightarrow> purge_run \<Rightarrow> purge_phase \<times> purge_run" where
  "purge_error e p r = (if e = ErrTenantRetentionChanged then (PurgeEnd, r) else part_failed p r)"

text \<open>What a call does, before the sweep goes on: the error or the phase and the variables after it, and the world.\<close>

fun purge_call :: "purger_env \<Rightarrow> time \<Rightarrow> purge_phase \<Rightarrow> purge_run \<Rightarrow> purge_world \<Rightarrow> error + (purge_phase \<times> purge_run) \<times> purge_world" where
  "purge_call E now (CheckPath path rest) r w =
     bindE (lockCurrent (du_TenantID (pr_due r)) (pr_version r) (pw_ledger w)) (\<lambda>_. Inr ((DeletePath path rest, r), w))"
| "purge_call E now (DeletePath path rest) r w = Inr ((path_phase rest, r), w\<lparr>pw_secrets := pw_secrets w - {path}\<rparr>)"
| "purge_call E now CredentialsMark r w =
     bindE (MarkCredentialsPurged (du_TenantID (pr_due r)) (pr_version r) now (pw_ledger w)) (\<lambda>(v, L).
       Inr ((artifacts_phase (next_version v r), next_version v r), w\<lparr>pw_ledger := L\<rparr>))"
| "purge_call E now ArtifactsBatch r w =
     bindE (PurgeBatch (du_TenantID (pr_due r)) (pr_version r) (pg_batch E) w) (\<lambda>(deleted, w').
       Inr ((if deleted = [] then ArtifactsRemaining else ArtifactsBatch, r), w'))"
| "purge_call E now ArtifactsRemaining r w =
     (if HasRows (du_TenantID (pr_due r)) w then Inr (part_failed ArtifactsRemaining r, w) else Inr ((ArtifactsMark, r), w))"
| "purge_call E now ArtifactsMark r w =
     bindE (MarkPurged (du_TenantID (pr_due r)) (pr_version r) now (pw_ledger w)) (\<lambda>(v, L).
       Inr ((finish_phase (next_version v r), next_version v r), w\<lparr>pw_ledger := L\<rparr>))"
| "purge_call E now FailureRecord r w =
     bindE (RecordFailure (du_TenantID (pr_due r)) (pr_version r) (pr_attempts r + 1) (now + backoff E (pr_attempts r + 1)) (pw_ledger w))
       (\<lambda>(_, L). Inr ((PurgeEnd, r), w\<lparr>pw_ledger := L\<rparr>))"
| "purge_call E now PurgeEnd r w = Inr ((PurgeEnd, r), w)"

subsection \<open>Departures and returns\<close>

definition RecordOffboarded :: "purger_env \<Rightarrow> time \<Rightarrow> uuid \<Rightarrow> time \<Rightarrow> ledger \<Rightarrow> ledger" where
  "RecordOffboarded E now tenantID at L =
     (let at = if at = 0 then now else at
      in RecordTenantOffboarded tenantID at (at + pg_credentialRetention E) (at + pg_artifactRetention E) L)"

definition RecordReturned :: "time \<Rightarrow> uuid \<Rightarrow> time \<Rightarrow> ledger \<Rightarrow> ledger" where
  "RecordReturned now tenantID at L = RecordTenantReturned tenantID (if at = 0 then now else at) L"

subsection \<open>Runs\<close>

text \<open>
  The world with the clock, the sweeps of all replicas, and the events recorded so far: the tenant, whether it left, and when.
  A sweep purges the tenants of its list one after the other; here they may be purged in any order.
\<close>

record purge_state =
  ps_world :: purge_world
  ps_now :: time
  ps_runs :: "(purge_phase \<times> purge_run) list"
  ps_events :: "(uuid \<times> bool \<times> time) list"

inductive purge_step :: "purger_env \<Rightarrow> purge_state \<Rightarrow> purge_state \<Rightarrow> bool" for E where
  sweep: "purge_step E s (s\<lparr>ps_runs := ps_runs s @ map (purge_begin E) (ListDue (ps_now s) tenantsPerPurgeTick (pw_ledger (ps_world s)))\<rparr>)"
| call: "i < length (ps_runs s) \<Longrightarrow> ps_runs s ! i = (p, r) \<Longrightarrow> purge_call E (ps_now s) p r (ps_world s) = Inr (pr, w) \<Longrightarrow>
    purge_step E s (s\<lparr>ps_runs := (ps_runs s)[i := pr], ps_world := w\<rparr>)"
| refused: "i < length (ps_runs s) \<Longrightarrow> ps_runs s ! i = (p, r) \<Longrightarrow> purge_call E (ps_now s) p r (ps_world s) = Inl e \<Longrightarrow>
    purge_step E s (s\<lparr>ps_runs := (ps_runs s)[i := purge_error e p r]\<rparr>)"
| fails: "i < length (ps_runs s) \<Longrightarrow> ps_runs s ! i = (p, r) \<Longrightarrow> e \<noteq> ErrTenantRetentionChanged \<Longrightarrow>
    w = ps_world s \<or> (\<exists>pr. purge_call E (ps_now s) p r (ps_world s) = Inr (pr, w)) \<Longrightarrow>
    purge_step E s (s\<lparr>ps_runs := (ps_runs s)[i := purge_error e p r], ps_world := w\<rparr>)"
| offboarded: "purge_step E s (s\<lparr>ps_world := (ps_world s)\<lparr>pw_ledger := RecordOffboarded E (ps_now s) tenantID at (pw_ledger (ps_world s))\<rparr>,
    ps_events := ps_events s @ [(tenantID, True, if at = 0 then ps_now s else at)]\<rparr>)"
| returned: "purge_step E s (s\<lparr>ps_world := (ps_world s)\<lparr>pw_ledger := RecordReturned (ps_now s) tenantID at (pw_ledger (ps_world s))\<rparr>,
    ps_events := ps_events s @ [(tenantID, False, if at = 0 then ps_now s else at)]\<rparr>)"
| row: "purge_step E s (s\<lparr>ps_world := (ps_world s)\<lparr>pw_rows := as @ row # bs\<rparr>\<rparr>)" if "pw_rows (ps_world s) = as @ bs"
| secret: "purge_step E s (s\<lparr>ps_world := (ps_world s)\<lparr>pw_secrets := insert path (pw_secrets (ps_world s))\<rparr>\<rparr>)"
| clock: "ps_now s \<le> now \<Longrightarrow> purge_step E s (s\<lparr>ps_now := now\<rparr>)"

definition purge_start :: purge_state where
  "purge_start = \<lparr>ps_world = \<lparr>pw_ledger = [], pw_rows = [], pw_secrets = {}\<rparr>, ps_now = 0, ps_runs = [], ps_events = []\<rparr>"

end
