(* ===== verification/Tenant_Purge_Correct.thy ===== *)
theory Tenant_Purge_Correct
  imports Tenant_Purger
begin

text \<open>
  A sweep deletes rows of a tenant only while the ledger says that its time has come and it has not returned, and the ledger
  says so only if some departure is at least as new as every return, in whatever order the events were recorded.
\<close>

subsection \<open>How the ledger moves\<close>

definition moves :: "ledger \<Rightarrow> ledger \<Rightarrow> bool" where
  "moves L L' \<longleftrightarrow> tr_TenantID ` set L \<subseteq> tr_TenantID ` set L' \<and>
     (\<forall>x' \<in> set L'. tr_TenantID x' \<notin> tr_TenantID ` set L \<or>
        (\<exists>x \<in> set L. tr_TenantID x = tr_TenantID x' \<and> (x' = x \<or> tr_RecordVersion x < tr_RecordVersion x')))"

lemma moves_refl [simp]: "moves L L"
  by (auto simp: moves_def)

lemma moves_append: "tr_TenantID x \<notin> tr_TenantID ` set L \<Longrightarrow> moves L (L @ [x])"
  by (auto simp: moves_def)

lemma touch_fields:
  assumes "tr_TenantID y = tr_TenantID x"
  shows "tr_TenantID (touch_retention x y) = tr_TenantID x"
    and "touch_retention x y = x \<or> tr_RecordVersion x < tr_RecordVersion (touch_retention x y)"
    and "tr_OffboardedAt (touch_retention x y) = tr_OffboardedAt y" "tr_ReturnedAt (touch_retention x y) = tr_ReturnedAt y"
    and "tr_PurgedAt (touch_retention x y) = tr_PurgedAt y" "tr_ArtifactsPurgeAfter (touch_retention x y) = tr_ArtifactsPurgeAfter y"
  using assms by (auto simp: touch_retention_def)

lemma tenants_update:
  assumes "\<And>x. tr_TenantID (f x) = tr_TenantID x"
  shows "map tr_TenantID (update_ledger P f L) = map tr_TenantID L"
  using touch_fields(1) [OF assms] by (induction L) (auto simp: update_ledger_def)

lemma moves_update:
  assumes "\<And>x. tr_TenantID (f x) = tr_TenantID x"
  shows "moves L (update_ledger P f L)"
proof -
  have "tr_TenantID ` set (update_ledger P f L) = tr_TenantID ` set L"
    using tenants_update [OF assms, of P L] by (metis set_map)
  moreover have "\<exists>x \<in> set L. tr_TenantID x = tr_TenantID x' \<and> (x' = x \<or> tr_RecordVersion x < tr_RecordVersion x')"
    if "x' \<in> set (update_ledger P f L)" for x'
  proof -
    from that obtain x where x: "x \<in> set L" "x' = (if P x then touch_retention x (f x) else x)" by (auto simp: update_ledger_def)
    then show ?thesis using touch_fields(1,2) [OF assms, of x] by (intro bexI [of _ x]) auto
  qed
  ultimately show ?thesis by (auto simp: moves_def)
qed

lemma absent_tenant: "find (\<lambda>r. tr_TenantID r = t) L = None \<longleftrightarrow> t \<notin> tr_TenantID ` set L"
  by (auto simp: find_None_iff)

lemma moves_offboarded: "moves L (RecordTenantOffboarded t at c a L)"
  unfolding RecordTenantOffboarded_def by (auto simp: absent_tenant intro!: moves_append moves_update)

lemma moves_returned: "moves L (RecordTenantReturned t at L)"
  unfolding RecordTenantReturned_def by (auto simp: absent_tenant intro!: moves_append moves_update)

lemma distinct_offboarded: "distinct (map tr_TenantID L) \<Longrightarrow> distinct (map tr_TenantID (RecordTenantOffboarded t at c a L))"
  unfolding RecordTenantOffboarded_def by (auto simp: absent_tenant tenants_update)

lemma distinct_returned: "distinct (map tr_TenantID L) \<Longrightarrow> distinct (map tr_TenantID (RecordTenantReturned t at L))"
  unfolding RecordTenantReturned_def by (auto simp: absent_tenant tenants_update)

lemma tenant_unique: "distinct (map tr_TenantID L) \<Longrightarrow> x \<in> set L \<Longrightarrow> y \<in> set L \<Longrightarrow> tr_TenantID x = tr_TenantID y \<Longrightarrow> x = y"
  by (auto simp: distinct_map inj_on_def)

text \<open>An update that names the version it read.\<close>

lemma returning_version_Inr:
  assumes "returning_version t v f L = Inr (v', L')" "distinct (map tr_TenantID L)" "\<And>x. tr_TenantID (f x) = tr_TenantID x"
  obtains x where "x \<in> set L" "tr_TenantID x = t" "tr_RecordVersion x = v" "v' = tr_RecordVersion (touch_retention x (f x))"
    "L' = update_ledger (current_row t v) f L" "\<And>y. y \<in> set L' \<Longrightarrow> tr_TenantID y = t \<Longrightarrow> y = touch_retention x (f x)"
proof -
  from assms(1) obtain x where x: "find (current_row t v) L = Some x" "v' = tr_RecordVersion (touch_retention x (f x))"
    "L' = update_ledger (current_row t v) f L" by (auto simp: returning_version_def split: option.splits)
  have x1: "x \<in> set L" "tr_TenantID x = t" "tr_RecordVersion x = v" using x(1) by (auto simp: find_Some_iff current_row_def)
  have "y = touch_retention x (f x)" if "y \<in> set L'" "tr_TenantID y = t" for y
  proof -
    from that(1) obtain z where z: "z \<in> set L" "y = (if current_row t v z then touch_retention z (f z) else z)"
      unfolding x(3) update_ledger_def by auto
    then have "tr_TenantID z = t" using that(2) touch_fields(1) [OF assms(3), of z] by (auto split: if_splits)
    with z(1) x1 tenant_unique [OF assms(2)] have "z = x" by simp
    with z(2) x1 show ?thesis by (simp add: current_row_def)
  qed
  with that x x1 show thesis by blast
qed

subsection \<open>What a sweep knows\<close>

definition artifact_phases :: "purge_phase set" where
  "artifact_phases = {ArtifactsBatch, ArtifactsRemaining, ArtifactsMark}"

definition due_row :: "time \<Rightarrow> bool \<Rightarrow> retention_row \<Rightarrow> bool" where
  "due_row now artifacts x \<longleftrightarrow> tr_ReturnedAt x = None \<and> (artifacts \<longrightarrow> artifacts_due now x)"

definition knows :: "ledger \<Rightarrow> time \<Rightarrow> purge_run \<Rightarrow> bool" where
  "knows L now r \<longleftrightarrow> du_TenantID (pr_due r) \<in> tr_TenantID ` set L \<and>
     (\<forall>x \<in> set L. tr_TenantID x = du_TenantID (pr_due r) \<longrightarrow> pr_version r \<le> tr_RecordVersion x \<and>
        (tr_RecordVersion x = pr_version r \<longrightarrow> due_row now (du_Artifacts (pr_due r)) x))"

definition run_ok :: "ledger \<Rightarrow> time \<Rightarrow> purge_phase \<times> purge_run \<Rightarrow> bool" where
  "run_ok L now pr \<longleftrightarrow> fst pr \<in> {FailureRecord, PurgeEnd} \<or>
     knows L now (snd pr) \<and> (fst pr \<in> artifact_phases \<longrightarrow> du_Artifacts (pr_due (snd pr)))"

lemma due_row_later: "due_row now a x \<Longrightarrow> now \<le> now' \<Longrightarrow> due_row now' a x"
  by (auto simp: due_row_def artifacts_due_def due_at_def split: option.splits)

lemma knows_moves:
  assumes "knows L now r" "moves L L'" "now \<le> now'"
  shows "knows L' now' r"
  unfolding knows_def
proof (intro conjI ballI impI)
  show tenant: "du_TenantID (pr_due r) \<in> tr_TenantID ` set L'" using assms(1,2) by (auto simp: knows_def moves_def)
  fix x' assume x': "x' \<in> set L'" "tr_TenantID x' = du_TenantID (pr_due r)"
  moreover have "tr_TenantID x' \<in> tr_TenantID ` set L" using assms(1) x'(2) by (simp add: knows_def)
  ultimately obtain x where x: "x \<in> set L" "tr_TenantID x = tr_TenantID x'" "x' = x \<or> tr_RecordVersion x < tr_RecordVersion x'"
    using assms(2) by (auto simp: moves_def)
  with assms(1) x'(2) have "pr_version r \<le> tr_RecordVersion x"
    "tr_RecordVersion x = pr_version r \<Longrightarrow> due_row now (du_Artifacts (pr_due r)) x" by (auto simp: knows_def)
  with x(3) due_row_later [OF _ assms(3)] show "pr_version r \<le> tr_RecordVersion x'"
    "tr_RecordVersion x' = pr_version r \<Longrightarrow> due_row now' (du_Artifacts (pr_due r)) x'" by fastforce+
qed

lemma run_ok_moves: "run_ok L now pr \<Longrightarrow> moves L L' \<Longrightarrow> now \<le> now' \<Longrightarrow> run_ok L' now' pr"
  unfolding run_ok_def using knows_moves by blast

lemma knows_same: "knows L now r \<Longrightarrow> pr_due r' = pr_due r \<Longrightarrow> pr_version r' = pr_version r \<Longrightarrow> knows L now r'"
  by (simp add: knows_def)

lemma run_ok_artifacts: "knows L now r \<Longrightarrow> run_ok L now (artifacts_phase r, r)"
  by (auto simp: run_ok_def artifacts_phase_def finish_phase_def artifact_phases_def)

lemma run_ok_path: "knows L now r \<Longrightarrow> run_ok L now (path_phase ps, r)"
  by (cases ps) (auto simp: run_ok_def artifact_phases_def)

lemma run_ok_failed:
  assumes "run_ok L now (p, r)"
  shows "run_ok L now (part_failed p r)"
proof (cases "p \<in> {FailureRecord, PurgeEnd}")
  case True
  then show ?thesis by (auto simp: run_ok_def)
next
  case False
  with assms have "knows L now (r\<lparr>pr_failed := True\<rparr>)" by (auto simp: run_ok_def intro: knows_same)
  from run_ok_artifacts [OF this] show ?thesis using False by (cases p) (auto simp: run_ok_def)
qed

lemma run_ok_error: "run_ok L now (p, r) \<Longrightarrow> run_ok L now (purge_error e p r)"
  using run_ok_failed by (auto simp: purge_error_def run_ok_def)

text \<open>The rows that a sweep lists are due.\<close>

lemma run_ok_listed:
  assumes "d \<in> set (ListDue now limit L)" "distinct (map tr_TenantID L)"
  shows "run_ok L now (purge_begin E d)"
proof -
  from assms(1) obtain x where x: "x \<in> set L" "tr_ReturnedAt x = None" "du_TenantID d = tr_TenantID x"
    "du_Artifacts d = artifacts_due now x" "du_RecordVersion d = tr_RecordVersion x"
    by (auto simp: ListDue_def dest!: in_set_takeD)
  have only: "y = x" if "y \<in> set L" "tr_TenantID y = tr_TenantID x" for y using tenant_unique [OF assms(2)] that x(1) by simp
  let ?r = "\<lparr>pr_due = d, pr_version = du_RecordVersion d, pr_attempts = du_Attempts d, pr_failed = False\<rparr>"
  have "knows L now ?r" using x only by (auto simp: knows_def due_row_def)
  then show ?thesis using run_ok_artifacts [of L now ?r] run_ok_path [of L now ?r]
    by (auto simp: purge_begin_def Let_def) (simp add: run_ok_def artifact_phases_def)
qed

subsection \<open>What a call does\<close>

text \<open>A mark keeps what the sweep knows, at the new version.\<close>

lemma knows_marked:
  assumes "knows L now r" "distinct (map tr_TenantID L)" "returning_version (du_TenantID (pr_due r)) (pr_version r) f L = Inr (v, L')"
    and f: "\<And>x. tr_TenantID (f x) = tr_TenantID x"
      "\<And>x. tr_ReturnedAt (f x) = tr_ReturnedAt x \<and> tr_PurgedAt (f x) = tr_PurgedAt x \<and> tr_ArtifactsPurgeAfter (f x) = tr_ArtifactsPurgeAfter x"
  shows "knows L' now (next_version v r)"
proof -
  from returning_version_Inr [OF assms(3,2) f(1)] obtain x where x: "x \<in> set L" "tr_TenantID x = du_TenantID (pr_due r)"
    "tr_RecordVersion x = pr_version r" "v = tr_RecordVersion (touch_retention x (f x))"
    "L' = update_ledger (current_row (du_TenantID (pr_due r)) (pr_version r)) f L"
    "\<And>y. y \<in> set L' \<Longrightarrow> tr_TenantID y = du_TenantID (pr_due r) \<Longrightarrow> y = touch_retention x (f x)" by blast
  have "due_row now (du_Artifacts (pr_due r)) x" using assms(1) x by (auto simp: knows_def)
  then have "due_row now (du_Artifacts (pr_due r)) (touch_retention x (f x))"
    using f(2) [of x] by (simp add: due_row_def artifacts_due_def touch_fields(4-6) [OF f(1)])
  moreover have "tr_TenantID ` set L' = tr_TenantID ` set L" unfolding x(5) using tenants_update [OF f(1)] by (metis set_map)
  ultimately show ?thesis using x(1,2,4,6) assms(1) by (fastforce simp: knows_def next_version_def)
qed

lemma moves_marked:
  assumes "returning_version t v f L = Inr (v', L')" "\<And>x. tr_TenantID (f x) = tr_TenantID x"
  shows "moves L L'" "map tr_TenantID L' = map tr_TenantID L"
  using assms(1) moves_update [OF assms(2)] tenants_update [OF assms(2)] by (auto simp: returning_version_def split: option.splits)

lemmas mark_defs = MarkCredentialsPurged_def MarkPurged_def RecordFailure_def

lemma call_moves:
  assumes "purge_call E now p r w = Inr (pr, w')"
  shows "moves (pw_ledger w) (pw_ledger w')" "map tr_TenantID (pw_ledger w') = map tr_TenantID (pw_ledger w)"
  using assms by (cases p; auto simp: mark_defs PurgeBatch_def bindE_eq_Inr split: option.splits if_splits dest: moves_marked; fail)+

lemma call_ok:
  assumes "purge_call E now p r w = Inr (pr, w')" "run_ok (pw_ledger w) now (p, r)" "distinct (map tr_TenantID (pw_ledger w))"
  shows "run_ok (pw_ledger w') now pr"
proof (cases p)
  case CredentialsMark
  with assms(1) obtain v L where L: "MarkCredentialsPurged (du_TenantID (pr_due r)) (pr_version r) now (pw_ledger w) = Inr (v, L)"
    "pr = (artifacts_phase (next_version v r), next_version v r)" "w' = w\<lparr>pw_ledger := L\<rparr>"
    by (auto simp: bindE_eq_Inr)
  have "knows (pw_ledger w) now r" using assms(2) CredentialsMark by (simp add: run_ok_def)
  from knows_marked [OF this assms(3) L(1) [unfolded mark_defs]] have "knows L now (next_version v r)" by simp
  from run_ok_artifacts [OF this] show ?thesis by (simp add: L(2,3))
next
  case (DeletePath path rest)
  then have "knows (pw_ledger w) now r" using assms(2) by (simp add: run_ok_def)
  from run_ok_path [OF this] show ?thesis using assms(1) DeletePath by auto
next
  case ArtifactsMark
  then show ?thesis using assms(1) by (auto simp: run_ok_def finish_phase_def bindE_eq_Inr split: if_splits)
qed (use assms(1,2) in \<open>auto simp: run_ok_def artifact_phases_def PurgeBatch_def bindE_eq_Inr split: option.splits if_splits\<close>)

lemma set_delete_some: "set (delete_some P n xs) \<subseteq> set xs"
  by (induction P n xs rule: delete_some.induct) (auto split: nat.splits)

lemma delete_some_only: "x \<in> set xs \<Longrightarrow> x \<notin> set (delete_some P n xs) \<Longrightarrow> P x"
  by (induction P n xs rule: delete_some.induct) (auto split: nat.splits if_splits)

text \<open>Only a batch deletes rows, and it does so under the lock of the row it has read.\<close>

lemma call_deletes:
  assumes "purge_call E now p r w = Inr (pr, w')" "run_ok (pw_ledger w) now (p, r)"
    and "row \<in> set (pw_rows w)" "row \<notin> set (pw_rows w')"
  shows "\<exists>x \<in> set (pw_ledger w). tr_TenantID x = fst (snd row) \<and> tr_ReturnedAt x = None \<and> artifacts_due now x"
proof -
  have p: "p = ArtifactsBatch" using assms(1,3,4) by (cases p) (auto simp: bindE_eq_Inr mark_defs split: if_splits)
  with assms(1) obtain x where x: "x \<in> set (pw_ledger w)" "current_row (du_TenantID (pr_due r)) (pr_version r) x"
    and row: "fst (snd row) = du_TenantID (pr_due r)"
    using assms(3,4) delete_some_only
    by (fastforce simp: bindE_eq_Inr PurgeBatch_def lockCurrent_def find_None_iff row_in_def split: option.splits if_splits)
  from assms(2) p x show ?thesis unfolding row
    by (intro bexI [of _ x]) (auto simp: run_ok_def knows_def artifact_phases_def current_row_def due_row_def)
qed

subsection \<open>The events behind a row\<close>

text \<open>
  The departure of a row was recorded, it is older than the return that the row holds, and every recorded return is at most as
  new as the row's return or its departure.
\<close>

definition row_events :: "nat \<Rightarrow> (uuid \<times> bool \<times> time) list \<Rightarrow> retention_row \<Rightarrow> bool" where
  "row_events k evs x \<longleftrightarrow>
     (\<forall>ob. tr_OffboardedAt x = Some ob \<longrightarrow> (tr_TenantID x, True, ob) \<in> set evs \<and> (\<forall>ra. tr_ReturnedAt x = Some ra \<longrightarrow> ob < ra)) \<and>
     (\<forall>u. (tr_TenantID x, False, u) \<in> set evs \<longrightarrow>
        (\<exists>ra. tr_ReturnedAt x = Some ra \<and> u \<le> ra) \<or> (\<exists>ob. tr_OffboardedAt x = Some ob \<and> u \<le> ob)) \<and>
     (\<forall>a. tr_ArtifactsPurgeAfter x = Some a \<longrightarrow> (\<exists>ob. tr_OffboardedAt x = Some ob \<and> a = ob + k))"

definition events_ok :: "nat \<Rightarrow> (uuid \<times> bool \<times> time) list \<Rightarrow> ledger \<Rightarrow> bool" where
  "events_ok k evs L \<longleftrightarrow> fst ` set evs \<subseteq> tr_TenantID ` set L \<and> (\<forall>x \<in> set L. row_events k evs x)"

lemma row_events_same:
  "row_events k evs x \<Longrightarrow> tr_TenantID y = tr_TenantID x \<Longrightarrow> tr_OffboardedAt y = tr_OffboardedAt x \<Longrightarrow> tr_ReturnedAt y = tr_ReturnedAt x
    \<Longrightarrow> tr_ArtifactsPurgeAfter y = tr_ArtifactsPurgeAfter x \<Longrightarrow> row_events k evs y"
  by (simp add: row_events_def)

lemma row_events_other: "row_events k evs x \<Longrightarrow> t \<noteq> tr_TenantID x \<Longrightarrow> row_events k (evs @ [(t, b, u)]) x"
  by (auto simp: row_events_def)

lemma row_events_offboarded: "row_events k evs x \<Longrightarrow> row_events k (evs @ [(t, True, u)]) x"
  by (auto simp: row_events_def)

lemma row_events_offboard:
  assumes "row_events k evs x" "tr_ReturnedAt x = Some ra" "ra < at"
    and "tr_TenantID y = tr_TenantID x" "tr_OffboardedAt y = Some at" "tr_ReturnedAt y = None" "tr_ArtifactsPurgeAfter y = Some (at + k)"
  shows "row_events k (evs @ [(tr_TenantID x, True, at)]) y"
proof -
  have "u \<le> at" if "(tr_TenantID x, False, u) \<in> set evs" for u
  proof -
    from assms(1) that consider "u \<le> ra" | ob where "tr_OffboardedAt x = Some ob" "u \<le> ob" "ob < ra"
      unfolding row_events_def using assms(2) by fastforce
    then show ?thesis using assms(3) by cases auto
  qed
  with assms(4-7) show ?thesis by (auto simp: row_events_def)
qed

lemma row_events_return:
  assumes "row_events k evs x" "\<And>ob. tr_OffboardedAt x = Some ob \<Longrightarrow> ob < at" "\<And>ra. tr_ReturnedAt x = Some ra \<Longrightarrow> ra < at"
    and "tr_TenantID y = tr_TenantID x" "tr_OffboardedAt y = tr_OffboardedAt x" "tr_ReturnedAt y = Some at"
      "tr_ArtifactsPurgeAfter y = tr_ArtifactsPurgeAfter x"
  shows "row_events k (evs @ [(tr_TenantID x, False, at)]) y"
  using assms unfolding row_events_def by fastforce

lemma row_events_stale:
  assumes "row_events k evs x"
    and "(\<exists>ob. tr_OffboardedAt x = Some ob \<and> at \<le> ob) \<or> (\<exists>ra. tr_ReturnedAt x = Some ra \<and> at \<le> ra)"
  shows "row_events k (evs @ [(tr_TenantID x, False, at)]) x"
  using assms unfolding row_events_def by fastforce

lemma events_ok_update:
  assumes "events_ok k evs L" "\<And>x. tr_TenantID (f x) = tr_TenantID x" "t \<in> tr_TenantID ` set L"
    and "\<And>x. x \<in> set L \<Longrightarrow> row_events k evs x \<Longrightarrow> P x \<Longrightarrow> row_events k (evs @ [(t, b, u)]) (f x)"
    and "\<And>x. x \<in> set L \<Longrightarrow> row_events k evs x \<Longrightarrow> \<not> P x \<Longrightarrow> row_events k (evs @ [(t, b, u)]) x"
  shows "events_ok k (evs @ [(t, b, u)]) (update_ledger P f L)"
proof -
  have "row_events k (evs @ [(t, b, u)]) y" if "y \<in> set (update_ledger P f L)" for y
  proof -
    from that obtain x where x: "x \<in> set L" "y = (if P x then touch_retention x (f x) else x)" by (auto simp: update_ledger_def)
    with assms(1) have "row_events k evs x" by (simp add: events_ok_def)
    with assms(4,5) [OF x(1)] x(2) row_events_same [of _ _ "f x" "touch_retention x (f x)"] touch_fields [OF assms(2), of x] assms(2) [of x]
    show ?thesis by (cases "P x") auto
  qed
  moreover have "tr_TenantID ` set (update_ledger P f L) = tr_TenantID ` set L"
    using tenants_update [OF assms(2), of P L] by (metis set_map)
  ultimately show ?thesis using assms(1,3) by (auto simp: events_ok_def)
qed

lemma events_ok_append:
  assumes "events_ok k evs L" "t \<notin> tr_TenantID ` set L" "tr_TenantID x = t"
    and "row_events k [(t, b, u)] x"
  shows "events_ok k (evs @ [(t, b, u)]) (L @ [x])"
proof -
  have none: "(t, b', u') \<notin> set evs" for b' u' using assms(1,2) by (force simp: events_ok_def)
  have "row_events k (evs @ [(t, b, u)]) y" if "y \<in> set L" for y
    using assms(1,2) that row_events_other [of k evs y t b u] by (auto simp: events_ok_def)
  moreover have "row_events k (evs @ [(t, b, u)]) x" using assms(3,4) none by (auto simp: row_events_def)
  ultimately show ?thesis using assms(1,3) by (auto simp: events_ok_def)
qed

lemma events_offboarded:
  assumes "events_ok k evs L"
  shows "events_ok k (evs @ [(t, True, at)]) (RecordTenantOffboarded t at c (at + k) L)"
proof (cases "t \<in> tr_TenantID ` set L")
  case True
  then have found: "\<not> find (\<lambda>r. tr_TenantID r = t) L = None" by (simp add: absent_tenant)
  show ?thesis unfolding RecordTenantOffboarded_def if_not_P [OF found]
  proof (rule events_ok_update [OF assms _ True])
    fix x assume x: "row_events k evs x"
    let ?P = "tr_TenantID x = t \<and> (case tr_ReturnedAt x of None \<Rightarrow> False | Some ra \<Rightarrow> ra < at)"
    let ?y = "x\<lparr>tr_OffboardedAt := Some at, tr_CredentialsPurgeAfter := Some c, tr_ArtifactsPurgeAfter := Some (at + k),
      tr_CredentialsPurgedAt := None, tr_PurgedAt := None, tr_ReturnedAt := None, tr_Attempts := 0, tr_NextAttemptAt := at\<rparr>"
    show "row_events k (evs @ [(t, True, at)]) ?y" if ?P
      using row_events_offboard [OF x, of _ at ?y] that by (auto split: option.splits)
    show "row_events k (evs @ [(t, True, at)]) x" using x by (rule row_events_offboarded)
  qed simp
next
  case False
  then have "find (\<lambda>r. tr_TenantID r = t) L = None" by (simp add: absent_tenant)
  then show ?thesis unfolding RecordTenantOffboarded_def if_P [OF \<open>find _ L = None\<close>]
    by (intro events_ok_append [OF assms False]) (simp_all add: row_events_def)
qed

lemma events_returned:
  assumes "events_ok k evs L"
  shows "events_ok k (evs @ [(t, False, at)]) (RecordTenantReturned t at L)"
proof (cases "t \<in> tr_TenantID ` set L")
  case True
  then have found: "\<not> find (\<lambda>r. tr_TenantID r = t) L = None" by (simp add: absent_tenant)
  show ?thesis unfolding RecordTenantReturned_def if_not_P [OF found]
  proof (rule events_ok_update [OF assms _ True])
    fix x assume x: "row_events k evs x"
    let ?P = "tr_TenantID x = t \<and> (case tr_OffboardedAt x of None \<Rightarrow> True | Some ob \<Rightarrow> ob < at) \<and>
      (case tr_ReturnedAt x of None \<Rightarrow> True | Some ra \<Rightarrow> ra < at)"
    show "row_events k (evs @ [(t, False, at)]) (x\<lparr>tr_ReturnedAt := Some at\<rparr>)" if ?P
      using row_events_return [OF x, of at "x\<lparr>tr_ReturnedAt := Some at\<rparr>"] that by (auto split: option.splits)
    show "row_events k (evs @ [(t, False, at)]) x" if "\<not> ?P"
      using row_events_stale [OF x, of at] row_events_other [OF x, of t False at] that
      by (cases "tr_TenantID x = t") (auto split: option.splits simp: not_less)
  qed simp
next
  case False
  then have "find (\<lambda>r. tr_TenantID r = t) L = None" by (simp add: absent_tenant)
  then show ?thesis unfolding RecordTenantReturned_def if_P [OF \<open>find _ L = None\<close>]
    by (intro events_ok_append [OF assms False]) (simp_all add: row_events_def)
qed

subsection \<open>Runs\<close>

definition purge_inv :: "purger_env \<Rightarrow> purge_state \<Rightarrow> bool" where
  "purge_inv E s \<longleftrightarrow> distinct (map tr_TenantID (pw_ledger (ps_world s))) \<and> events_ok (pg_artifactRetention E) (ps_events s) (pw_ledger (ps_world s)) \<and>
     (\<forall>pr \<in> set (ps_runs s). run_ok (pw_ledger (ps_world s)) (ps_now s) pr)"

lemma events_moves:
  assumes "events_ok k evs L" "\<And>x. tr_TenantID (f x) = tr_TenantID x"
    "\<And>x. tr_OffboardedAt (f x) = tr_OffboardedAt x \<and> tr_ReturnedAt (f x) = tr_ReturnedAt x \<and>
      tr_ArtifactsPurgeAfter (f x) = tr_ArtifactsPurgeAfter x"
  shows "events_ok k evs (update_ledger P f L)"
proof -
  have "row_events k evs y" if "y \<in> set (update_ledger P f L)" for y
  proof -
    from that obtain x where x: "x \<in> set L" "y = (if P x then touch_retention x (f x) else x)" by (auto simp: update_ledger_def)
    with assms(1) have "row_events k evs x" by (simp add: events_ok_def)
    with row_events_same [of k evs x y] x(2) touch_fields [OF assms(2), of x] assms(3) [of x] show ?thesis by (cases "P x") auto
  qed
  moreover have "tr_TenantID ` set (update_ledger P f L) = tr_TenantID ` set L"
    using tenants_update [OF assms(2), of P L] by (metis set_map)
  ultimately show ?thesis using assms(1) by (auto simp: events_ok_def)
qed

lemma events_marked:
  assumes "returning_version t v f L = Inr (v', L')" "events_ok k evs L" "\<And>x. tr_TenantID (f x) = tr_TenantID x"
    "\<And>x. tr_OffboardedAt (f x) = tr_OffboardedAt x \<and> tr_ReturnedAt (f x) = tr_ReturnedAt x \<and>
      tr_ArtifactsPurgeAfter (f x) = tr_ArtifactsPurgeAfter x"
  shows "events_ok k evs L'"
  using assms(1) events_moves [OF assms(2-4)] by (auto simp: returning_version_def split: option.splits)

lemma call_events:
  assumes "purge_call E now p r w = Inr (pr, w')" "events_ok k evs (pw_ledger w)"
  shows "events_ok k evs (pw_ledger w')"
  using assms by (cases p; auto simp: mark_defs PurgeBatch_def bindE_eq_Inr split: option.splits if_splits dest: events_marked; fail)

text \<open>A call with its effect and any of the phases after it.\<close>

lemma purge_inv_call:
  assumes inv: "purge_inv E s" and i: "i < length (ps_runs s)" "ps_runs s ! i = (p, r)"
    and w: "w = ps_world s \<or> (\<exists>pr. purge_call E (ps_now s) p r (ps_world s) = Inr (pr, w))"
    and pr: "run_ok (pw_ledger w) (ps_now s) pr'"
  shows "purge_inv E (s\<lparr>ps_runs := (ps_runs s)[i := pr'], ps_world := w\<rparr>)"
proof -
  have "moves (pw_ledger (ps_world s)) (pw_ledger w)" "distinct (map tr_TenantID (pw_ledger w))" "events_ok (pg_artifactRetention E) (ps_events s) (pw_ledger w)"
    using w inv call_moves [of E "ps_now s" p r "ps_world s"] call_events [of E "ps_now s" p r "ps_world s"]
    by (auto simp: purge_inv_def)
  with inv pr run_ok_moves [OF _ this(1) order_refl] show ?thesis
    by (auto simp: purge_inv_def dest!: subsetD [OF set_update_subset_insert])
qed

lemma inv_ledger:
  assumes "purge_inv E s" "moves (pw_ledger (ps_world s)) L" "distinct (map tr_TenantID L)" "events_ok (pg_artifactRetention E) evs L"
  shows "purge_inv E (s\<lparr>ps_world := (ps_world s)\<lparr>pw_ledger := L\<rparr>, ps_events := evs\<rparr>)"
  using assms run_ok_moves [OF _ assms(2) order_refl] by (auto simp: purge_inv_def)

lemma inv_run_ok: "purge_inv E s \<Longrightarrow> i < length (ps_runs s) \<Longrightarrow> run_ok (pw_ledger (ps_world s)) (ps_now s) (ps_runs s ! i)"
  by (simp add: purge_inv_def)

lemma purge_inv_step:
  assumes "purge_step E s s'" "purge_inv E s"
  shows "purge_inv E s'"
  using assms(1)
proof cases
  case sweep
  with assms(2) run_ok_listed show ?thesis by (auto simp: purge_inv_def)
next
  case (call i p r pr w)
  from inv_run_ok [OF assms(2) call(2)] call(3) have "run_ok (pw_ledger (ps_world s)) (ps_now s) (p, r)" by simp
  with call_ok [OF call(4)] assms(2) have "run_ok (pw_ledger w) (ps_now s) pr" by (simp add: purge_inv_def)
  from purge_inv_call [OF assms(2) call(2,3) _ this] call(1,4) show ?thesis by blast
next
  case (refused i p r e)
  from inv_run_ok [OF assms(2) refused(2)] refused(3) have "run_ok (pw_ledger (ps_world s)) (ps_now s) (purge_error e p r)"
    using run_ok_error by simp
  from purge_inv_call [OF assms(2) refused(2,3) _ this] refused(1) show ?thesis by simp
next
  case (fails i p r e w)
  have "moves (pw_ledger (ps_world s)) (pw_ledger w)" using fails(5) call_moves(1) by auto
  moreover have "run_ok (pw_ledger (ps_world s)) (ps_now s) (purge_error e p r)"
    using inv_run_ok [OF assms(2) fails(2)] fails(3) run_ok_error by simp
  ultimately have "run_ok (pw_ledger w) (ps_now s) (purge_error e p r)" using run_ok_moves by blast
  from purge_inv_call [OF assms(2) fails(2,3,5) this] fails(1) show ?thesis by simp
next
  case (offboarded tenantID at)
  show ?thesis unfolding offboarded RecordOffboarded_def Let_def
    by (rule inv_ledger [OF assms(2)]) (use assms(2) in \<open>simp_all add: moves_offboarded distinct_offboarded events_offboarded purge_inv_def\<close>)
next
  case (returned tenantID at)
  show ?thesis unfolding returned RecordReturned_def
    by (rule inv_ledger [OF assms(2)]) (use assms(2) in \<open>simp_all add: moves_returned distinct_returned events_returned purge_inv_def\<close>)
next
  case (clock now)
  with assms(2) run_ok_moves [OF _ moves_refl] show ?thesis by (auto simp: purge_inv_def)
qed (use assms(2) in \<open>auto simp: purge_inv_def\<close>)

lemma purge_inv_reached: "(purge_step E)\<^sup>*\<^sup>* purge_start s \<Longrightarrow> purge_inv E s"
  by (induction rule: rtranclp_induct) (auto simp: purge_inv_step, simp add: purge_inv_def purge_start_def events_ok_def)

text \<open>A step that deletes a row is a batch, done or reported as failed.\<close>

lemma step_deletes:
  assumes "purge_step E s s'" "row \<in> set (pw_rows (ps_world s))" "row \<notin> set (pw_rows (ps_world s'))"
  obtains i p r pr w where "i < length (ps_runs s)" "ps_runs s ! i = (p, r)" "purge_call E (ps_now s) p r (ps_world s) = Inr (pr, w)"
    "row \<notin> set (pw_rows w)"
  using assms by cases auto

lemma deleted_row_due:
  assumes "(purge_step E)\<^sup>*\<^sup>* purge_start s" "purge_step E s s'"
    "row \<in> set (pw_rows (ps_world s))" "row \<notin> set (pw_rows (ps_world s'))"
  obtains x where "x \<in> set (pw_ledger (ps_world s))" "tr_TenantID x = fst (snd row)" "tr_ReturnedAt x = None"
    "artifacts_due (ps_now s) x" "row_events (pg_artifactRetention E) (ps_events s) x"
proof -
  from step_deletes [OF assms(2-4)] obtain i p r pr w where call: "i < length (ps_runs s)" "ps_runs s ! i = (p, r)"
    "purge_call E (ps_now s) p r (ps_world s) = Inr (pr, w)" "row \<notin> set (pw_rows w)" by blast
  note inv = purge_inv_reached [OF assms(1)]
  from inv_run_ok [OF inv call(1)] call(2) have "run_ok (pw_ledger (ps_world s)) (ps_now s) (p, r)" by simp
  from call_deletes [OF call(3) this assms(3) call(4)] inv that show thesis by (auto simp: purge_inv_def events_ok_def)
qed

subsection \<open>The wait after a failure\<close>

text \<open>The interval doubled per failed attempt, at most seven days; the loop stops before the product could overflow.\<close>

lemma backoff_loop_min: "min (backoff_loop n wait) maxPurgeBackoff = min (wait * 2 ^ n) maxPurgeBackoff"
proof (induction n arbitrary: wait)
  case (Suc n)
  show ?case
  proof (cases "wait < maxPurgeBackoff")
    case True
    with Suc [of "wait * 2"] show ?thesis by (simp add: mult.assoc)
  next
    case False
    moreover have "wait \<le> wait * 2 ^ Suc n" by simp
    ultimately have "maxPurgeBackoff \<le> wait * 2 ^ Suc n" by linarith
    with False show ?thesis by (simp add: min_absorb2)
  qed
qed simp

lemma backoff_exact: "backoff E (Suc n) = min (pg_interval E * 2 ^ n) maxPurgeBackoff"
  using backoff_loop_min by (simp add: backoff_def)

end
