(* ===== verification/Tenant_Examples.thy ===== *)
theory Tenant_Examples
  imports Tenant_Purge_Correct
begin

text \<open>A run of the purge: tenant 3 has a workflow, leaves, and a sweep deletes the workflow; nothing is kept for long here.\<close>

definition ex_purger :: purger_env where
  "ex_purger = \<lparr>pg_registry = [], pg_show = (\<lambda>_. []), pg_secrets = False, pg_batch = 1, pg_interval = 1,
     pg_credentialRetention = 1, pg_artifactRetention = 2\<rparr>"

definition ex_departed :: retention_row where
  "ex_departed = \<lparr>tr_TenantID = 3, tr_OffboardedAt = Some 5, tr_CredentialsPurgeAfter = Some 6, tr_ArtifactsPurgeAfter = Some 7,
     tr_CredentialsPurgedAt = None, tr_PurgedAt = None, tr_ReturnedAt = None, tr_Attempts = 0, tr_NextAttemptAt = 5, tr_RecordVersion = 1\<rparr>"

definition ex_due :: purge_run where
  "ex_due = \<lparr>pr_due = \<lparr>du_TenantID = 3, du_Credentials = True, du_Artifacts = True, du_Attempts = 0, du_RecordVersion = 1\<rparr>,
     pr_version = 1, pr_attempts = 0, pr_failed = False\<rparr>"

definition ex_purge :: "ledger \<Rightarrow> tenant_row list \<Rightarrow> (purge_phase \<times> purge_run) list \<Rightarrow> (uuid \<times> bool \<times> time) list \<Rightarrow> purge_state" where
  "ex_purge L rows runs evs = \<lparr>ps_world = \<lparr>pw_ledger = L, pw_rows = rows, pw_secrets = {}\<rparr>, ps_now = 10, ps_runs = runs, ps_events = evs\<rparr>"

abbreviation ex_tenant_row :: tenant_row where
  "ex_tenant_row \<equiv> (TableWorkflow, 3, 7)"

abbreviation ex_marked :: ledger where
  "ex_marked \<equiv> [ex_departed\<lparr>tr_CredentialsPurgedAt := Some 10, tr_RecordVersion := 2\<rparr>]"

definition ex_sweeping :: purge_state where
  "ex_sweeping = ex_purge ex_marked [ex_tenant_row] [(ArtifactsBatch, next_version 2 ex_due)] [(3, True, 5)]"

definition ex_swept :: purge_state where
  "ex_swept = ex_purge ex_marked [] [(ArtifactsBatch, next_version 2 ex_due)] [(3, True, 5)]"

lemma ex_purge_call:
  "purge_call ex_purger 10 p r \<lparr>pw_ledger = L, pw_rows = rows, pw_secrets = {}\<rparr> = Inr (pr, \<lparr>pw_ledger = L', pw_rows = rows', pw_secrets = {}\<rparr>)
    \<Longrightarrow> purge_step ex_purger (ex_purge L rows [(p, r)] evs) (ex_purge L' rows' [pr] evs)"
  using purge_step.call [of 0 "ex_purge L rows [(p, r)] evs" p r ex_purger pr] by (simp add: ex_purge_def)

lemma ex_purge_listed: "ListDue 10 tenantsPerPurgeTick [ex_departed] = [pr_due ex_due]"
  by (simp add: ListDue_def tenantsPerPurgeTick_def ex_departed_def ex_due_def credentials_due_def artifacts_due_def due_at_def)

lemma ex_sweeping_reach: "(purge_step ex_purger)\<^sup>*\<^sup>* purge_start ex_sweeping"
proof -
  have "purge_step ex_purger purge_start (purge_start\<lparr>ps_now := 10\<rparr>)"
    by (rule purge_step.clock) (simp add: purge_start_def)
  moreover have "purge_step ex_purger \<dots> (ex_purge [] [ex_tenant_row] [] [])"
    using purge_step.row [of "purge_start\<lparr>ps_now := 10\<rparr>" "[]" "[]" ex_purger ex_tenant_row] by (simp add: purge_start_def ex_purge_def)
  moreover have "purge_step ex_purger \<dots> (ex_purge [ex_departed] [ex_tenant_row] [] [(3, True, 5)])"
    using purge_step.offboarded [of ex_purger "ex_purge [] [ex_tenant_row] [] []" 3 5]
    by (simp add: ex_purge_def RecordOffboarded_def RecordTenantOffboarded_def ex_purger_def ex_departed_def)
  moreover have "purge_step ex_purger \<dots> (ex_purge [ex_departed] [ex_tenant_row] [(CredentialsMark, ex_due)] [(3, True, 5)])"
    using purge_step.sweep [of ex_purger "ex_purge [ex_departed] [ex_tenant_row] [] [(3, True, 5)]"]
    by (simp add: ex_purge_def ex_purge_listed) (simp add: purge_begin_def ex_due_def ex_purger_def)
  moreover have "purge_step ex_purger \<dots> ex_sweeping" unfolding ex_sweeping_def
    by (rule ex_purge_call)
      (simp add: MarkCredentialsPurged_def returning_version_def update_ledger_def current_row_def touch_retention_def ex_departed_def
        ex_due_def artifacts_phase_def next_version_def)
  ultimately show ?thesis by (meson converse_rtranclp_into_rtranclp rtranclp.rtrancl_refl)
qed

lemma ex_sweeping_step: "purge_step ex_purger ex_sweeping ex_swept"
  unfolding ex_sweeping_def ex_swept_def
  by (rule ex_purge_call)
    (simp add: PurgeBatch_def lockCurrent_def current_row_def tenantPurgeSteps_def row_in_def clamp_count_def ex_departed_def ex_due_def
      next_version_def ex_purger_def)

lemma ex_sweeping_rows: "pw_rows (ps_world ex_sweeping) = [ex_tenant_row]" "pw_rows (ps_world ex_swept) = []"
  by (simp_all add: ex_sweeping_def ex_swept_def ex_purge_def)

subsection \<open>A departure that is lost\<close>

text \<open>
  A tenant leaves at 1, returns at 2 and leaves again at 3.  When the return is recorded last, the second departure was
  ignored as a repetition of the first, and the tenant counts as returned.
\<close>

lemma late_return_hides_departure:
  "map tr_ReturnedAt (RecordTenantReturned 3 2 (RecordTenantOffboarded 3 3 3 3 (RecordTenantOffboarded 3 1 1 1 []))) = [Some 2]"
  "map tr_ReturnedAt (RecordTenantOffboarded 3 3 3 3 (RecordTenantReturned 3 2 (RecordTenantOffboarded 3 1 1 1 []))) = [None]"
  by (simp_all add: RecordTenantReturned_def RecordTenantOffboarded_def update_ledger_def touch_retention_def)

end
