(* ===== verification/Spec2Isabelle.thy ===== *)
theory Spec2Isabelle
  imports Service_Examples Compiler_Examples Http_Examples Cache_Examples Module_Documents_Correct Http_Handlers_Correct Tenant_Examples
begin

text \<open>
  The workflow definition service: drafts of BPMN documents are edited, validated, compiled to plans and published as numbered
  versions; library modules are bundled into the workflows that call them; the runtime reads the compiled plans.  The model
  follows the code under \<open>src/internal\<close>.

  \<^bold>\<open>The compiler\<close> (\<open>bpmn_compiler\<close>).  \<open>Bpmn_Types\<close> has the document (\<open>bpmncore/types.go\<close>) with its validation errors,
  \<open>Bpmn_Parser\<close> the parser (\<open>parser.go\<close>) over the tokens and the document that \<open>encoding/xml\<close> yields.  \<open>Bpmn_Graph\<close>,
  \<open>Bpmn_Dfs\<close>, \<open>Bpmn_Classify\<close>, \<open>Bpmn_Reach\<close>, \<open>Bpmn_Depth\<close> are the graph and the searches over it (\<open>graph.go\<close>, \<open>dfs.go\<close>,
  \<open>graph_algorithms.go\<close>), \<open>Bpmn_Joins\<close> with \<open>Bpmn_Join_Chains\<close>, \<open>Bpmn_Join_Walk\<close>, \<open>Bpmn_Join_Correct\<close> the joins of
  gateways (\<open>joins.go\<close>), \<open>Bpmn_Call\<close> the helpers on calls and lanes (\<open>call.go\<close>).  The search is client to the visitors' contract,
  the locale \<open>dfs_client\<close>.  The validators (\<open>validator\<close>) are \<open>Validate_Structure\<close>, \<open>Validate_Flow\<close>, \<open>Validate_Boundary\<close>,
  \<open>Validate_Tasks\<close>, \<open>Validate_Calls\<close> with the times of \<open>Go_Time\<close> and \<open>Go_Date\<close>; \<open>Call_Graph\<close> and \<open>Validate_Bodies\<close> go
  through the called processes, \<open>Validate_All\<close> composes them; \<open>Call_Graph_Correct\<close>, \<open>Validate_Routes\<close>, \<open>Validate_Walk\<close> show that
  they report exactly what they should, \<open>Validate_Sound\<close> what they establish for the plan compiler.

  The plan compiler is \<open>Plan_Types\<close> (the plans of workflow-models), \<open>Plan_Stages\<close> (\<open>compile.go\<close>), \<open>Plan_State\<close> and
  \<open>Plan_Resolve\<close> (\<open>state.go\<close>), \<open>Plan_Traverse\<close> (\<open>traverse.go\<close> and \<open>element\<close>).  \<open>Plan_Steps\<close>, \<open>Plan_Closed\<close>, \<open>Plan_Safe\<close>,
  \<open>Plan_Contract\<close> show that it does not panic and that its plans are closed and within the budget of stages, \<open>Plan_Hosts\<close>,
  \<open>Plan_Returns\<close>, \<open>Plan_Fuel\<close> that it returns.  \<open>Compiler_Front\<close> (\<open>compiler.go\<close>) puts parser, validators and plan compiler together,
  \<open>Compiler_Correct\<close> states what follows for a whole document.  \<open>Module_Documents\<close> with \<open>Module_Documents_Correct\<close> is the document side
  of library modules (\<open>modules.go\<close>, \<open>bundle.go\<close>).

  \<^bold>\<open>The store and the services\<close> (\<open>core/service\<close>, \<open>adapter/outbound/postgres\<close>, \<open>db\<close>).  \<open>Service_Types\<close> has the domain objects,
  the rows and the errors.  \<open>Workflow_Store\<close> and \<open>Workflow_Repo\<close> are the tables with their constraints, queries and repositories,
  \<open>Workflow_Services\<close>, \<open>Version_Publish\<close>, \<open>Draft_Services\<close> the methods over them; \<open>Workflow_Steps\<close> has the runs, in which a step is one
  committed transaction with any arguments, so that stale reads and all interleavings are covered, or a batch of the purge of a
  departed tenant (\<open>PurgeTenantWorkflows\<close> of \<open>tenant_retention.sql\<close>); the identifiers of the versions that a purge deletes are kept in
  the ghost field \<open>ws_purged\<close>.  \<open>Workflow_Safety\<close> is what the runs guarantee.  \<open>Module_Store\<close>, \<open>Module_Services\<close>, \<open>Module_Steps\<close> are the same for library modules, with
  \<open>PurgeTenantModules\<close>, \<open>Module_Resolution\<close>
  with \<open>Module_Resolution_Correct\<close> follows the calls to modules.  \<open>Lifecycle\<close> is the contract of versions that both stores refine: its
  locale \<open>version_store\<close> is interpreted on the module store, its extension \<open>tracked_store\<close>, which also keeps published versions until
  their owner leaves, on the workflow store.  \<open>Plan_Cache\<close> with \<open>Plan_Cache_Correct\<close> is the cache of compiled plans
  (\<open>compiled_plan_service.go\<close>) beside the transactions that take versions out of use; a purge evicts nothing, so the plans of the
  versions that it deletes stay cached until they expire.  \<open>Tenant_Purge\<close>, \<open>Tenant_Purger\<close> with
  \<open>Tenant_Purge_Correct\<close> are the ledger of departed tenants and the sweep that deletes their data (\<open>tenant_purger.go\<close>).

  \<^bold>\<open>The requests\<close> (\<open>adapter/inbound/http\<close>, \<open>adapter/outbound/valkey\<close>).  \<open>Http_Errors\<close> has the problem responses, the strict
  bodies and the record version of \<open>If-Match\<close>, \<open>Http_Handlers\<close> with \<open>Http_Handlers_Correct\<close> the identity of the caller and the
  handlers of workflows, drafts and versions; \<open>Http_Idempotency\<close> with \<open>Http_Idempotency_Correct\<close> the cache and the requests with an
  idempotency key, whose contract with their codec is the locale \<open>idem_requests\<close>; the log of runs has those of the requests that bypass
  the cache too, and \<open>guarded\<close> says, independently of the checks of the wrapper, which requests are to run once.

  \<^bold>\<open>Conventions.\<close>  \<open>Prelude\<close> has Go maps, strings and error results, \<open>Go_Strconv\<close> the numbers.  A struct is a record, an error a value
  of a sum, a method on the tables an action \<open>'s \<Rightarrow> error + 'a \<times> 's\<close>.  A function is option-valued where the code might not
  return; that it returns is then a theorem (C4, C21, C28, C29).  The fuel of the recursive searches is a bound on nested calls:
  the traversal gets one unit per node of the budget of every process that can be called (\<open>traverse_fuel\<close>), Tarjan's components one per target
  of an edge (\<open>scc_fuel\<close>), routes one per process (\<open>route_fuel\<close>), boundary paths one per boundary event (\<open>path_fuel\<close>); the termination theorems
  show that they are enough.  Widths are kept where they matter: durations, version numbers, record versions, stage budgets.
  \<open>Bpmn_Examples\<close>, \<open>Plan_Examples\<close>, \<open>Compiler_Examples\<close>, \<open>Service_Examples\<close>, \<open>Cache_Examples\<close>, \<open>Http_Examples\<close> and
  \<open>Tenant_Examples\<close> are the inputs of the witnesses.

  \<^bold>\<open>Parameters.\<close>  The XML decoder and encoder, the JSON decoder of call inputs, Unicode case tables, \<open>dsl.ParseCondition\<close>,
  \<open>dsl.ExpandCalls\<close>, \<open>dsl.NodeKey\<close>, the vocabularies and registries of workflow-models and workflow-connectors, the clock, fresh UUIDs, SHA-256,
  and the membership and execution services are arguments of the definitions that use them.

  \<^bold>\<open>Not modelled.\<close>  The hash of a document (\<open>hasher.go\<close>, canonical XML over tokens), starters, connectors and their aliases, plan
  limits, the contract of a module and the listing of a version's nodes, the handlers that only list or forward, routing, the
  API description, start-up, configuration, logging and metrics; the texts of messages; row level security and the lengths of columns.
  Where a step of the model is coarser than the code, the theory says so: the look at the tables after a save that matched no row
  (\<open>Workflow_Repo\<close>), the text of the \<open>JSONB\<close> plan (\<open>Workflow_Store\<close>), the run of a revocation over its versions (\<open>Draft_Services\<close>).
\<close>

section \<open>The compiler\<close>

text \<open>
  C1 (safety). The back edges that \<open>ProcessBackEdges\<close> marks cut every loop that can run: below the start
  and the boundary events no forward path returns to a node, and no node gets out of reach.
\<close>

lemma back_edges_cut_every_loop:
  "(\<nexists>u. u \<in> (edge_rel g)\<^sup>* `` insert start (bnd_ID ` set (proc_BoundaryEvents proc)) \<and>
        (u, u) \<in> (fwd g (ProcessBackEdges proc g start))\<^sup>+) \<and>
   (fwd g (ProcessBackEdges proc g start))\<^sup>* `` insert start (bnd_ID ` set (proc_BoundaryEvents proc)) =
     (edge_rel g)\<^sup>* `` insert start (bnd_ID ` set (proc_BoundaryEvents proc))"
  using classify_acyclic [of _ g "start # map bnd_ID (proc_BoundaryEvents proc)"]
    classify_reach [of g "start # map bnd_ID (proc_BoundaryEvents proc)"]
  by (simp add: ProcessBackEdges_def)

text \<open>
  C2 (functional). Only flows that loop are marked: every back edge is a sequence flow of the graph whose
  target leads back to its source along forward flows.
\<close>

lemma back_edges_close_loops:
  "ProcessBackEdges proc g start \<subseteq> edge_rel g \<inter> ((fwd g (ProcessBackEdges proc g start))\<^sup>*)\<inverse>"
  using classify_subset classify_closes_cycle unfolding ProcessBackEdges_def by fast

text \<open>
  C3 (functional). In a process as the parser leaves it, the join that \<open>FindJoin\<close> gives a reachable split
  is its nearest common successor: a node on every forward path from the split to an end of the graph, and
  every other such node is on every path from the join.
\<close>

lemma find_join_is_nearest:
  fixes p root
  defines "g \<equiv> BuildGraph (normalise_process p)"
  defines "B \<equiv> ProcessBackEdges (normalise_process p) g root"
  assumes "root \<noteq> []" and "(root, n) \<in> (edge_rel g)\<^sup>*"
  shows "FindJoin n g B = Some (j, True) \<longleftrightarrow> 2 \<le> forwardCount n g B \<and> is_join (fwd g B) n j"
proof (rule FindJoin_join)
  show "named g" unfolding g_def by (rule named_normalised)
  have "n = root \<or> n \<in> targets g"
    using fwd_targets [of root n g "{}"] assms(4) by (simp add: fwd_def)
  with assms(3) \<open>named g\<close> show "n \<noteq> []" by (auto simp: named_def)
  have "n \<in> (fwd g B)\<^sup>* `` set (root # map bnd_ID (proc_BoundaryEvents (normalise_process p)))"
    unfolding B_def ProcessBackEdges_def classify_reach using assms(4) by auto
  with classify_acyclic_from [of g "root # map bnd_ID (proc_BoundaryEvents (normalise_process p))"]
  show "acyclic_from (fwd g B) {n}"
    unfolding B_def ProcessBackEdges_def by (rule_tac acyclic_from_reach) simp_all
qed

lemma find_join_is_nearest_witness:
  "FindJoin ''G'' ex_graph (ProcessBackEdges ex_proc ex_graph ''S'') = Some (''J'', True) \<and>
   is_join (fwd ex_graph (ProcessBackEdges ex_proc ex_graph ''S'')) ''G'' ''J''"
proof -
  have "(''S'', ''G'') \<in> (edge_rel ex_graph)\<^sup>*" unfolding ex_edges by (rule r_into_rtrancl) simp
  from find_join_is_nearest [OF _ this, of "''J''"] show ?thesis
    by (simp add: ProcessBackEdges_def ex_back_edges ex_find_join ex_boundaries)
qed

text \<open>
  C4 (termination). On a parsed process every search for a join returns, although \<open>commonAncestor\<close> climbs
  without a bound; the memoised joins exist and \<open>Joins.Find\<close> agrees with \<open>FindJoin\<close> on every node.
\<close>

lemma joins_of_parsed_process:
  assumes "parse tokens decode ctxErr xml = Inr defs" and "p \<in> set (defs_Processes defs)"
  shows "\<exists>j. NewJoins (BuildGraph p) B = Some j \<and> (\<forall>n. Joins_Find j n = FindJoin n (BuildGraph p) B) \<and>
    {n. FindJoin n (BuildGraph p) B = None} \<subseteq> {[]}"
proof -
  from assms unmarshal_processes obtain q where p: "p = normalise_process q" by (metis parse_Inr)
  note named = named_normalised [of q, folded p]
  from NewJoins_returns [OF named] obtain j where j: "NewJoins (BuildGraph p) B = Some j" by blast
  have "{n. FindJoin n (BuildGraph p) B = None} \<subseteq> {[]}"
  proof
    fix n assume "n \<in> {n. FindJoin n (BuildGraph p) B = None}"
    then show "n \<in> {[]}" using FindJoin_returns [OF named(1), of n B] by (cases n) auto
  qed
  with j Joins_Find_eq [OF named j] show ?thesis by simp
qed

lemma joins_of_parsed_process_witness:
  "\<exists>defs p j. parse (\<lambda>_. ([OtherToken], True)) (\<lambda>_. Some ex_defs) (\<lambda>_. False) ex_xml = Inr defs \<and>
     p \<in> set (defs_Processes defs) \<and> NewJoins (BuildGraph p) {} = Some j"
proof -
  obtain defs where defs: "parse (\<lambda>_. ([OtherToken], True)) (\<lambda>_. Some ex_defs) (\<lambda>_. False) ex_xml = Inr defs"
    using ex_parse by blast
  then have "set (defs_Processes defs) = {ex_proc}"
    by (auto simp: parse_Inr unmarshal_def markCalledProcesses_def ex_defs_def)
  then have p: "ex_proc \<in> set (defs_Processes defs)" by simp
  from joins_of_parsed_process [OF defs p, of "{}"] defs p show ?thesis by blast
qed

text \<open>
  C5 (functional). \<open>ReachesUnbrokenCycle\<close> holds for exactly the nodes from which a cycle of forward flows is
  reachable, and for the nodes of the flow \<open>ReachesEndEvent\<close> holds exactly when an end event is.
\<close>

lemma joins_look_ahead:
  assumes "NewJoins (BuildGraph (normalise_process p)) B = Some j"
  shows "(ReachesUnbrokenCycle j n \<longleftrightarrow> \<not> acyclic_from (fwd (BuildGraph (normalise_process p)) B) {n}) \<and>
    {n \<in> flow_nodes (BuildGraph (normalise_process p)) B. ReachesEndEvent j n} =
    {n \<in> flow_nodes (BuildGraph (normalise_process p)) B.
       \<exists>m. (n, m) \<in> (fwd (BuildGraph (normalise_process p)) B)\<^sup>* \<and>
           node_type (BuildGraph (normalise_process p)) m = Some NodeTypeEndEvent}"
  using ReachesUnbrokenCycle_iff [OF named_normalised assms] ReachesEndEvent_iff [OF named_normalised assms]
  by (auto simp: ends_ahead_def)

lemma joins_look_ahead_witness:
  "\<exists>j. NewJoins ex_graph {} = Some j \<and> ReachesUnbrokenCycle j ''G''"
proof -
  obtain j where j: "NewJoins ex_graph {} = Some j"
    using NewJoins_returns [OF named_normalised] by blast
  have "(''G'', ''G'') \<in> (fwd ex_graph {})\<^sup>+"
    unfolding fwd_def ex_edges by (rule trancl_trans [of _ "''A''"], blast, rule trancl_trans [of _ "''J''"]) blast+
  then have "\<not> acyclic_from (fwd ex_graph {}) {''G''}" by (auto simp: acyclic_from_def)
  with joins_look_ahead [OF j, of "''G''"] j show ?thesis by blast
qed

text \<open>
  C6 (functional). Gateway matching returns on every parsed process, and reports exactly the split gateways
  whose branches never meet: at least two forward branches, no unbroken cycle ahead and no common successor,
  except exclusive splits all of whose branches can end on their own.
\<close>

lemma gateway_matching_exact:
  fixes p
  defines "g \<equiv> BuildGraph (normalise_process p)"
  shows "\<exists>errs. ValidateGatewayMatching proc g B = Some errs \<and>
    be_NodeID ` set errs =
      {gw \<in> gw_ID ` set (proc_ExclusiveGateways proc). unmatched_split g B gw True} \<union>
      {gw \<in> gw_ID ` (set (proc_ParallelGateways proc) \<union> set (proc_InclusiveGateways proc)). unmatched_split g B gw False}"
  unfolding g_def by (rule ValidateGatewayMatching_correct [OF named_normalised])

text \<open>
  C7 (functional). The reachability check reports exactly the nodes, other than boundary events, that no
  flow leads to from the start or from a boundary event.
\<close>

lemma unreachable_nodes_reported:
  assumes "startOf proc implicitStart \<noteq> []"
  shows "be_NodeID ` set (ValidateReachability proc g implicitStart) =
    {n \<in> node_ids g. \<not> (\<exists>k. node_type g n = Some k \<and> IsBoundaryEventType k) \<and>
       n \<notin> (edge_rel g)\<^sup>* `` insert (startOf proc implicitStart) (bnd_ID ` set (proc_BoundaryEvents proc))}"
  unfolding unreachable_reported [OF assms] by (simp add: setcompr_eq_image image_image)

lemma unreachable_nodes_reported_witness:
  "be_NodeID ` set (ValidateReachability ex_proc ex_graph []) =
    {n \<in> node_ids ex_graph. \<not> (\<exists>k. node_type ex_graph n = Some k \<and> IsBoundaryEventType k) \<and>
       n \<notin> (edge_rel ex_graph)\<^sup>* `` {''S''}}"
proof -
  have "startOf ex_proc [] = ''S''" by (simp add: startOf_def ex_process_simps)
  with unreachable_nodes_reported [of ex_proc "[]" ex_graph] show ?thesis by simp
qed

text \<open>
  C8 (bounds). On the back edges of the process, the depth check is silent exactly when no forward path from
  the start has more than 2000 nodes.
\<close>

lemma depth_limit_exact:
  assumes "startOf proc implicitStart = start" and "start \<noteq> []"
  shows "validateMaxDepthFrom proc g (ProcessBackEdges proc g start) implicitStart = [] \<longleftrightarrow>
    (\<nexists>p. path_in (fwd g (ProcessBackEdges proc g start)) (start # p) \<and> 2000 < length (start # p))"
proof -
  have "acyclic_from (fwd g (ProcessBackEdges proc g start)) {start}"
    unfolding ProcessBackEdges_def by (rule acyclic_from_subset [OF classify_acyclic_from]) simp
  from depth_reported_iff [OF assms this] show ?thesis by (auto simp: maxPathDepth_def not_less)
qed

lemma depth_limit_exact_witness:
  "validateMaxDepthFrom ex_proc ex_graph (ProcessBackEdges ex_proc ex_graph ''S'') [] = [] \<longleftrightarrow>
    (\<nexists>p. path_in (fwd ex_graph (ProcessBackEdges ex_proc ex_graph ''S'')) (''S'' # p) \<and> 2000 < length (''S'' # p))"
proof -
  have "startOf ex_proc [] = ''S''" by (simp add: startOf_def ex_process_simps)
  from depth_limit_exact [OF this] show ?thesis by simp
qed

section \<open>Workflow versions\<close>

text \<open>
  C9 (invariant). In every state that any interleaving of requests can reach, version identifiers are
  unique, a workflow has at most one draft, drafts have no number and the versions that have left the draft
  stage are numbered 1 to m without a gap or a repetition.
\<close>

lemma versions_well_numbered:
  assumes "wf_step\<^sup>*\<^sup>* ws_start s"
  shows "distinct (map vr_ID (db_versions (ws_db s))) \<and>
    (\<forall>v \<in> set (db_versions (ws_db s)). \<forall>v' \<in> set (db_versions (ws_db s)).
       vr_WorkflowID v = vr_WorkflowID v' \<and> vr_VersionNumber v = vr_VersionNumber v' \<longrightarrow> v = v') \<and>
    (\<forall>v \<in> set (db_versions (ws_db s)). vr_Status v = VersionStatusDraft \<longleftrightarrow> vr_VersionNumber v = None) \<and>
    (\<forall>wid. \<exists>m. {n. \<exists>v \<in> set (db_versions (ws_db s)). vr_WorkflowID v = wid \<and> vr_VersionNumber v = Some n} = {1..m})"
proof -
  have ok: "life_ok (wkeys (ws_db s))" using wfs.reach_ok [OF assms] by (simp add: ws_keys_def)
  note facts = life_ok_facts [OF ok]
  have "distinct (map vr_ID (db_versions (ws_db s)))" using facts(1) by (simp add: wkeys_ids)
  moreover have "v = v'" if "v \<in> set (db_versions (ws_db s))" "v' \<in> set (db_versions (ws_db s))"
    "vr_WorkflowID v = vr_WorkflowID v'" "vr_VersionNumber v = vr_VersionNumber v'" for v v'
  proof -
    have "vkey_of v = vkey_of v'" by (rule facts(3)) (simp_all add: wkeys_def that)
    from arg_cong [OF this, of k_ID] show ?thesis using version_unique [OF ok that(1,2)] by simp
  qed
  moreover have "vr_Status v = VersionStatusDraft \<longleftrightarrow> vr_VersionNumber v = None" if "v \<in> set (db_versions (ws_db s))" for v
    using facts(2) [of "vkey_of v"] that by (simp add: wkeys_def)
  moreover have "numbers wid (wkeys (ws_db s)) =
      {n. \<exists>v \<in> set (db_versions (ws_db s)). vr_WorkflowID v = wid \<and> vr_VersionNumber v = Some n}" for wid
    by (auto simp: numbers_def wkeys_def)
  ultimately show ?thesis using facts(4) by (metis (no_types, lifting))
qed

lemma versions_well_numbered_witness:
  "\<exists>s. wf_step\<^sup>*\<^sup>* ws_start s \<and> distinct (map vr_ID (db_versions (ws_db s))) \<and> db_versions (ws_db s) \<noteq> []"
  using versions_well_numbered [OF ex_reach2] ex_reach2 by (intro exI [of _ ex_s2]) simp

text \<open>
  C10 (invariant). The active version of a workflow is always a published version of that workflow and
  of its tenant.
\<close>

lemma active_version_published:
  assumes "wf_step\<^sup>*\<^sup>* ws_start s" and "w \<in> set (db_workflows (ws_db s))" and "wr_ActiveVersionID w = Some vid"
  shows "\<exists>v \<in> set (db_versions (ws_db s)). vr_ID v = vid \<and> vr_WorkflowID v = wr_ID w \<and> vr_TenantID v = wr_TenantID w \<and>
    vr_Status v = VersionStatusPublished"
proof -
  have "(wr_ID w, wr_TenantID w, Some vid) \<in> set (wptrs (ws_db s))"
    using assms(2,3) by (force simp: wptrs_def wptr_def)
  with wfs.reach_inv [OF assms(1)] show ?thesis
    unfolding ws_ok_def active_target_def [symmetric] by (blast intro: store_ok_facts(3))
qed

lemma active_version_published_witness:
  "\<exists>v \<in> set (db_versions ex_published). vr_ID v = 2 \<and> vr_Status v = VersionStatusPublished"
proof -
  have "ex_workflow_row\<lparr>wr_ActiveVersionID := Some 2, wr_UpdatedAt := 11, wr_RecordVersion := 2\<rparr> \<in> set (db_workflows (ws_db ex_s2))"
    by (simp add: ex_s2_def ex_published_def)
  from active_version_published [OF ex_reach2 this] show ?thesis by (simp add: ex_s2_def) blast
qed

text \<open>
  C11 (safety). A version that has been published never changes, and only the purge of a tenant takes it away: whatever
  requests run afterwards, either it is still there with the same document, plan, hash, number, publication time and module
  references, its status has not gone back and it has not become valid again once it was marked invalid, or a purge has
  deleted it with its workflow and no version has its identifier any more.  When a purge deletes rows is the subject of C25.
\<close>

lemma published_version_fixed:
  assumes "wf_step\<^sup>*\<^sup>* ws_start s" and "wf_step\<^sup>*\<^sup>* s s'" and "v \<in> set (db_versions (ws_db s))"
    and "vr_Status v \<noteq> VersionStatusDraft"
  shows "if vr_ID v \<in> ws_purged s' then vr_ID v \<notin> vr_ID ` set (db_versions (ws_db s'))
    else \<exists>v' \<in> set (db_versions (ws_db s')). vr_ID v' = vr_ID v \<and> published_content v' = published_content v \<and>
      vr_Status v \<le> vr_Status v' \<and> (vr_IsValid v' \<longrightarrow> vr_IsValid v)"
proof (cases "vr_ID v \<in> ws_purged s'")
  case True
  with ws_ok_facts(4) [OF wfs.reach_inv [OF rtranclp_trans [OF assms(1,2)]]] show ?thesis by auto
next
  case False
  have "vkey_of v \<in> set (ws_keys s)" using assms(3) by (simp add: ws_keys_def wkeys_def)
  from wfs.version_kept [OF assms(1,2) this] assms(4) False have "kept (vkey_of v) (ws_keys s')" by simp
  then obtain v' where v': "v' \<in> set (db_versions (ws_db s'))" "vr_ID v = vr_ID v'"
    by (auto simp: kept_def ws_keys_def wkeys_def)
  from row_again [OF assms(1-3) v'] v' assms(4) False show ?thesis unfolding evolves_def by auto
qed

lemma published_version_fixed_witness:
  "\<exists>v' \<in> set (db_versions (ws_db ex_s2)). vr_ID v' = 2 \<and> published_content v' = published_content ex_published_row"
proof -
  have "ex_published_row \<in> set (db_versions (ws_db ex_s2))" "vr_Status ex_published_row \<noteq> VersionStatusDraft"
    by (simp_all add: ex_published_row_def)
  moreover have "ws_purged ex_s2 = {}" by (simp add: ex_s2_def)
  ultimately show ?thesis using published_version_fixed [OF ex_reach2 rtranclp.rtrancl_refl, of ex_published_row]
    by (simp add: ex_published_row_def ex_draft_row_def)
qed

text \<open>
  C12 (safety). What is published is what was checked.  If the checks before a publish passed on the tables
  as they were, and the publish commits after any other requests, then the published version has the
  document that was checked: its modules resolved, its bundle compiled, and the plan, the hash and the module
  references stored with it are those of that compilation.
\<close>

lemma publish_is_checked:
  assumes "wf_step\<^sup>*\<^sup>* ws_start s" and "wf_step\<^sup>*\<^sup>* s s1"
    and pre: "publishPreFlight env tenantID wid vid force (ws_db s) = Inr ((draft, prep), db0)"
    and tx: "publish_tx now (publish_input tenantID wid vid draft prep) (ws_db s1) = Inr (n, db')"
  shows "\<exists>v \<in> set (db_versions db'). vr_ID v = vid \<and> vr_Status v = VersionStatusPublished \<and> vr_VersionNumber v = Some n \<and>
    (\<exists>res collab plan. pe_resolve env tenantID (vr_BpmnXml v) = Inr res \<and> rs_issues res = [] \<and>
       compileForPublish env (rs_bundled res) = Inr (collab, plan) \<and>
       pe_hash env (rs_bundled res) = Inr (fromPgtypeText (vr_ArtifactHash v)) \<and>
       pe_marshal env collab = Inr (the (vr_CompiledPlanJson v)) \<and> vr_ModuleRefs v = rs_refs res)"
proof -
  from publishPreFlight_reads(2) [OF pre] obtain row where row: "row \<in> set (db_versions (ws_db s))" "vr_ID row = vid"
    "vr_TenantID row = tenantID" and draft: "draft = workflowVersionFromDB row" by (auto dest!: find_SomeD)
  let ?inp = "publish_input tenantID wid vid draft prep"
  from tx obtain x where x: "x \<in> set (db_versions (ws_db s1))" "publish_guard tenantID vid (wv_RecordVersion draft) x"
    by (rule publish_effect) (auto simp: publish_input_def)
  have x_row: "x = row"
    by (rule guarded_row_is_read [OF assms(1,2) row(1) x(1)]) (use x(2) row(2) draft in \<open>auto simp: publish_guard_def\<close>)
  have "touch_version now x (publish_update now n (pi_compiledJSON ?inp) (toNullableText (pi_artifactHash ?inp)) (pi_moduleRefs ?inp) x)
      \<in> set (db_versions db')"
    by (rule publish_commits [OF tx _ x(1)])
      (use x(2) wfs.reach_ok [OF rtranclp_trans [OF assms(1,2)]] in \<open>auto simp: publish_input_def ws_keys_def\<close>)
  moreover have "wv_BPMNXML draft = vr_BpmnXml row" by (simp add: draft)
  ultimately show ?thesis
    using publishPreFlight_reads(3) [OF pre] row
    by (intro bexI) (auto simp: x_row publish_update_def publish_input_def)
qed

lemma publish_is_checked_witness:
  "\<exists>v \<in> set (db_versions ex_published). vr_ID v = 2 \<and> vr_VersionNumber v = Some 1"
proof -
  have "publish_tx 11 (publish_input 3 1 2 (workflowVersionFromDB ex_draft_row) ex_prep) (ws_db ex_s1) = Inr (1, ex_published)"
    using ex_publish_tx unfolding ex_publish_input by (simp add: ex_s1_def res_simps)
  moreover have "publishPreFlight ex_env 3 1 2 False (ws_db ex_s1) = Inr ((workflowVersionFromDB ex_draft_row, ex_prep), ex_created)"
    using ex_preflight by (simp add: ex_s1_def)
  ultimately show ?thesis using publish_is_checked [OF ex_reach1 rtranclp.rtrancl_refl] by blast
qed

text \<open>
  C13 (safety). No draft update is lost.  An update that commits replaces exactly the row its author read,
  whatever ran in between; and an update that changes the row makes every other update that was based on the
  same read fail.
\<close>

lemma draft_updates_not_lost:
  assumes "wf_step\<^sup>*\<^sup>* ws_start s" and "wf_step\<^sup>*\<^sup>* s s1" and "row \<in> set (db_versions (ws_db s))"
    and d: "wv_ID d = vr_ID row" "wv_RecordVersion d = vr_RecordVersion row"
    and tx: "runUpdateTx now tenantID wid d req (ws_db s1) = Inr (r, db')"
  shows "row \<in> set (db_versions (ws_db s1)) \<and> vr_Status row = VersionStatusDraft \<and>
    (\<exists>v \<in> set (db_versions db'). vr_ID v = vr_ID row \<and> vr_BpmnXml v = wv_BPMNXML d \<and> (v = row \<or> vr_RecordVersion row < vr_RecordVersion v))"
proof -
  from update_commits(2) [OF tx] obtain x where x: "x \<in> set (db_versions (ws_db s1))" "draft_guard (version_params d) x" by blast
  then have "vr_ID x = vr_ID row" "vr_RecordVersion x = vr_RecordVersion row"
    by (simp_all add: draft_guard_def version_params_def d)
  from guarded_row_is_read [OF assms(1-3) x(1) this] have row: "x = row" .
  let ?v = "touch_version now row (draft_update (version_params d) row)"
  have "?v \<in> set (db_versions db')"
    using x row unfolding update_commits(1) [OF tx] by force
  moreover have "?v = row \<or> vr_RecordVersion row < vr_RecordVersion ?v" by (simp add: touch_version_def)
  moreover have "vr_BpmnXml ?v = wv_BPMNXML d" "vr_ID ?v = vr_ID row" by (simp_all add: draft_update_def version_params_def)
  ultimately have "\<exists>v \<in> set (db_versions db'). vr_ID v = vr_ID row \<and> vr_BpmnXml v = wv_BPMNXML d \<and>
      (v = row \<or> vr_RecordVersion row < vr_RecordVersion v)" by (intro bexI [of _ ?v]) simp_all
  with x row show ?thesis by (simp add: draft_guard_def)
qed

lemma draft_updates_not_lost_witness:
  "\<exists>v \<in> set (db_versions ex_updated). vr_ID v = 2 \<and> vr_BpmnXml v = ''y''"
proof -
  have tx: "runUpdateTx 12 3 1 ex_edited ex_request (ws_db ex_s1) = Inr (ex_edited\<lparr>wv_RecordVersion := 2\<rparr>, ex_updated)"
    using ex_update_tx by (simp add: ex_s1_def res_simps)
  have d: "wv_ID ex_edited = vr_ID ex_draft_row" "wv_RecordVersion ex_edited = vr_RecordVersion ex_draft_row" "wv_BPMNXML ex_edited = ''y''"
    by (simp_all add: ex_edited_def edit_draft_def clearCompiledArtifacts_def ex_request_def)
  from draft_updates_not_lost [OF ex_reach1 rtranclp.rtrancl_refl _ d(1,2) tx] d(3)
  show ?thesis by (auto simp: ex_draft_row_def)
qed

text \<open>
  C14 (error). An update of a draft fails in a reachable state for one of three reasons and names it: there is
  no such version, it is no longer a draft, or its row has another record version than the caller read.
\<close>

lemma update_error_names_cause:
  assumes "wf_step\<^sup>*\<^sup>* ws_start s"
  shows "VersionRepo_UpdateDraft now d (ws_db s) = Inl e \<longleftrightarrow>
    (case find (\<lambda>x. vr_TenantID x = wv_TenantID d \<and> vr_ID x = wv_ID d) (db_versions (ws_db s)) of
       None \<Rightarrow> e = ErrNotFound
     | Some row \<Rightarrow> if vr_Status row \<noteq> VersionStatusDraft then e = ErrVersionNotDraft
         else vr_RecordVersion row \<noteq> wv_RecordVersion d \<and> e = ErrDraftConcurrency)"
  by (rule UpdateDraft_outcome) (use wfs.reach_ok [OF assms] in \<open>simp add: ws_keys_def\<close>)

lemma update_error_names_cause_witness:
  "VersionRepo_UpdateDraft 12 (ex_edited\<lparr>wv_RecordVersion := 9\<rparr>) (ws_db ex_s1) = Inl ErrDraftConcurrency"
  unfolding update_error_names_cause [OF ex_reach1]
  by (simp add: ex_edited_def edit_draft_def clearCompiledArtifacts_def ex_request_def workflowVersionFromDB_def ex_draft_row_def)

text \<open>
  C15 (bounds). A workflow that is created counts, and after it the tenant has at most as many counted
  workflows as its plan allows.
\<close>

lemma create_within_quota:
  assumes "WorkflowService_Create compiler limits now wfID vID tenantID userID key name description xml planCode db = Inr (r, db')"
  shows "\<exists>limit. limits planCode = Inr limit \<and>
    CountWorkflowsByTenant tenantID db' = Suc (CountWorkflowsByTenant tenantID db) \<and>
    (\<forall>l. limit = Some l \<longrightarrow> int (CountWorkflowsByTenant tenantID db') \<le> l)"
proof -
  from assms obtain limit where limit: "limits planCode = Inr limit"
    and tx: "create_tx now tenantID limit (new_workflow wfID tenantID userID key name description)
      (new_draft vID wfID tenantID userID xml) db = Inr ((), db')"
    by (auto simp: WorkflowService_Create_def Let_def res_simps split: option.splits if_splits)
  with create_count [OF tx] show ?thesis by blast
qed

lemma create_within_quota_witness: "CountWorkflowsByTenant 3 ex_created = Suc (CountWorkflowsByTenant 3 empty_db)"
proof -
  have "WorkflowService_Create None (\<lambda>_. Inr None) 10 1 2 3 4 ''k'' ''n'' [] ''x'' ''free'' empty_db =
      Inr ((new_workflow 1 3 4 ''k'' ''n'' [], new_draft 2 1 3 4 ''x''), ex_created)"
    using ex_create_tx by (simp add: WorkflowService_Create_def store_defs)
  from create_within_quota [OF this] show ?thesis by blast
qed

text \<open>
  C16 (safety). A revocation of a user's membership leaves no version in use that the user is assigned in: each
  such version is archived or marked invalid, and cannot be made the active version.
\<close>

lemma revocation_withdraws_versions:
  assumes "wf_step\<^sup>*\<^sup>* ws_start s" and "\<And>m. set (order m) = set m"
    and run: "HandleTenantMembershipRevoked order evict pause now tenantID userID occurredAt (ws_db s) = (Inr failed, db')"
    and a: "a \<in> set (db_assignees (ws_db s))" "na_TenantID a = tenantID" "na_UserID a = userID"
      "occurredAt = 0 \<or> na_CreatedAt a \<le> occurredAt"
  shows "out_of_use tenantID (na_WorkflowVersionID a) db' \<and>
    WorkflowRepo_UpdateActiveVersion now' tenantID wid (Some (na_WorkflowVersionID a)) db' \<noteq> Inr r"
proof -
  have "a \<in> set (ListAssigneesByUser tenantID userID (ws_db s))" using a by (simp add: ListAssigneesByUser_def)
  from revoked_out [OF run [unfolded HandleTenantMembershipRevoked_def] _ assms(2) this] a(4) wfs.reach_ok [OF assms(1)]
  have "out_of_use tenantID (na_WorkflowVersionID a) db'" by (simp add: ws_keys_def)
  with out_of_use_inactive show ?thesis by blast
qed

lemma revocation_withdraws_versions_witness: "out_of_use 3 2 ex_revoked"
proof -
  have "HandleTenantMembershipRevoked (\<lambda>m. m) (\<lambda>_. True) None 12 3 5 0 (ws_db ex_s3) = (Inr [], ex_revoked)"
    using ex_revocation by (simp add: ex_s3_def)
  from revocation_withdraws_versions [OF ex_reach3 refl this, of ex_assignee] show ?thesis
    by (simp add: ex_s3_def ex_assigned_def ex_assignee_def)
qed

text \<open>
  C17 (safety). A publish asks the membership service about every assignment of a human task: it goes on exactly
  when each assignee is a version 7 UUID with a valid role whom the service finds eligible.
\<close>

lemma assignees_all_eligible:
  "checkAssigneeEligibility uuid_parse validRole membership tenantID plan = Inr () \<longleftrightarrow>
     {p \<in> set (human_assignments plan). \<not> (case p of (d, st, a) \<Rightarrow> \<exists>u. uuid_parse a = Some (u, 7) \<and> validRole (ps_Role st) \<and>
        membership tenantID u (dp_IAMDepartmentID d) (ps_Role st) = Inr True)} = {}"
  unfolding checkAssigneeEligibility_iff by fast

text \<open>
  C18 (functional). Two plans differ in metadata only, so that a publish needs no force, exactly when they have
  the same departments and the same execution steps, and no stage that both have changed its timer, its
  message or its connector.
\<close>

lemma metadata_only_exact:
  "dc_MetadataOnly (computeDiff nodeKey base target) \<longleftrightarrow>
     dp_ID ` set (cp_Departments base) = dp_ID ` set (cp_Departments target) \<and> cp_Steps base = cp_Steps target \<and>
     (\<forall>(k, after) \<in> set (keyed_stages nodeKey target).
        case map_of (rev (keyed_stages nodeKey base)) k of None \<Rightarrow> True | Some before \<Rightarrow> same_connections before after)"
  unfolding computeDiff_metadata_only diffStages_Nil_iff by (simp add: deptSet_def)

lemma metadata_only_exact_witness:
  "dc_MetadataOnly (computeDiff (\<lambda>d (st :: unit plan_stage). d @ ps_NodeID st)
     \<lparr>cp_Departments = [], cp_Steps = [1 :: nat]\<rparr> \<lparr>cp_Departments = [], cp_Steps = [1]\<rparr>)"
  unfolding metadata_only_exact by (simp add: keyed_stages_def)

section \<open>Modules\<close>

text \<open>
  C19 (invariant). In every reachable state of the module store a tenant sees at most one module of a process
  identifier, an active module version is a published version of its module, and module versions are numbered
  without gaps or repetitions.  The first rests on the isolation of \<open>RunInTxWithRetry\<close>: \<open>Create\<close> looks for the identifier and
  inserts in one serializable transaction, for a global module as for a tenant's own, so that of two creates that race one
  is rolled back and tried again.
\<close>

lemma modules_well_formed:
  assumes "mod_step\<^sup>*\<^sup>* empty_mdb db"
  shows "(\<forall>m \<in> set (mdb_modules db). \<forall>m' \<in> set (mdb_modules db). visible tenantID (mo_Scope m) (mo_TenantID m) \<and>
      visible tenantID (mo_Scope m') (mo_TenantID m') \<and> mo_ProcessID m = mo_ProcessID m' \<longrightarrow> m = m') \<and>
    (\<forall>m \<in> set (mdb_modules db). \<forall>vid. mo_ActiveVersionID m = Some vid \<longrightarrow>
      (\<exists>v \<in> set (mdb_versions db). mv_ID v = vid \<and> mv_ModuleID v = mo_ID m \<and> mv_Status v = VersionStatusPublished)) \<and>
    (\<forall>mid. \<exists>k. {n. \<exists>v \<in> set (mdb_versions db). mv_ModuleID v = mid \<and> mv_VersionNumber v = Some n} = {1..k})"
proof -
  have ok: "mod_ok db" and life: "life_ok (vmkeys db)" using mods.reach_inv [OF assms] mods.reach_ok [OF assms] .
  have "m = m'" if m: "m \<in> set (mdb_modules db)" "m' \<in> set (mdb_modules db)" "visible tenantID (mo_Scope m) (mo_TenantID m)"
    "visible tenantID (mo_Scope m') (mo_TenantID m')" "mo_ProcessID m = mo_ProcessID m'" for m m'
  proof -
    have "sees_both (module_cols m) (module_cols m')" using m(3,4) by (auto simp: sees_both_def module_cols_def visible_def)
    moreover have "module_cols m \<in> set (cols db)" "module_cols m' \<in> set (cols db)" using m(1,2) by (simp_all add: cols_def)
    moreover have "snd (snd (snd (module_cols m))) = snd (snd (snd (module_cols m')))" using m(5) by (simp add: module_cols_def)
    ultimately have "module_cols m = module_cols m'" using mod_ok_facts(3) [OF ok] by blast
    then have "mo_ID m = mo_ID m'" by (simp add: module_cols_def)
    moreover have "distinct (map mo_ID (mdb_modules db))"
      using mod_ok_facts(1) [OF ok] by (simp add: cols_def comp_def module_cols_def)
    ultimately show ?thesis using m(1,2) by (auto simp: distinct_map dest: inj_onD)
  qed
  moreover have "numbers mid (vmkeys db) = {n. \<exists>v \<in> set (mdb_versions db). mv_ModuleID v = mid \<and> mv_VersionNumber v = Some n}" for mid
    by (auto simp: numbers_def vmkeys_def)
  ultimately show ?thesis
    using mod_ok_facts(5) [OF ok] life_ok_facts(4) [OF life] unfolding mactive_target_def by (metis (no_types, lifting))
qed

lemma modules_well_formed_witness:
  "\<exists>v \<in> set (mdb_versions ex_mpublished). mv_ID v = 2 \<and> mv_Status v = VersionStatusPublished"
proof -
  have "\<exists>m \<in> set (mdb_modules ex_mpublished). mo_ActiveVersionID m = Some 2" by (simp add: ex_mpublished_def)
  with modules_well_formed [OF ex_module_reach, THEN conjunct2, THEN conjunct1] show ?thesis by blast
qed

text \<open>
  C20 (functional). A call finds the one version that fits it: in a reachable state \<open>Resolve\<close> gives a version exactly when
  some module that the tenant sees, with an active version, has the process identifier, and the version is its
  active one, or the one of the number asked for.
\<close>

lemma resolve_exact:
  assumes "mod_step\<^sup>*\<^sup>* empty_mdb db"
  shows "ResolveModuleVersion tenantID processID n db = Inr v \<longleftrightarrow>
    v \<in> set (mdb_versions db) \<and> (\<exists>m \<in> set (mdb_modules db). mv_ModuleID v = mo_ID m \<and> mo_ProcessID m = processID \<and>
      visible tenantID (mo_Scope m) (mo_TenantID m) \<and> mo_ActiveVersionID m \<noteq> None \<and> mv_VersionNumber v \<noteq> None \<and>
      (case n of None \<Rightarrow> mo_ActiveVersionID m = Some (mv_ID v) | Some k \<Rightarrow> mv_VersionNumber v = Some k))"
  unfolding ResolveModuleVersion_iff [OF mods.reach_inv [OF assms] mods.reach_ok [OF assms]]
  by (cases n; fastforce simp: resolve_candidates_def)

lemma resolve_exact_witness: "ResolveModuleVersion 3 ''p'' None ex_mpublished = Inr ex_mpublished_row"
  unfolding resolve_exact [OF ex_module_reach] by (simp add: ex_mdefs visible_def)

text \<open>
  C21 (termination). On a reachable module store the resolution of the calls of a document returns, although
  modules may call each other in cycles.
\<close>

lemma resolution_returns:
  assumes "mod_step\<^sup>*\<^sup>* empty_mdb db"
  shows "\<exists>r. resolve_modules moduleCalls bundler (live tenantID db) mainXML self = Some r"
  by (rule resolve_modules_returns [OF finite_imageI [OF finite_set]
    live_finite [OF mods.reach_inv [OF assms] mods.reach_ok [OF assms]]])

text \<open>Module p, which calls itself, under the document m, which calls it.\<close>

lemma resolution_returns_witness:
  "\<exists>r. resolve_modules (\<lambda>xml. Inr ([\<lparr>mc_CallID = ''c'', mc_ProcessID = ''p'', mc_VersionNumber = 0\<rparr>], [])) (\<lambda>xml _. Inr xml)
     (live 3 ex_mpublished) ''m'' [] = Some r"
  by (rule resolution_returns [OF ex_module_reach])

text \<open>
  C22 (functional). The resolution reports no issue exactly when the document and every module version its calls
  lead to are free of issues of their own and all their calls name a version; then the references it stores
  are exactly those versions.
\<close>

lemma resolution_exact:
  assumes "mod_step\<^sup>*\<^sup>* empty_mdb db"
    and "resolve_modules moduleCalls bundler (live tenantID db) mainXML self = Some (Inr res)"
  shows "(rs_issues res = [] \<longleftrightarrow> good_doc moduleCalls (live tenantID db) self mainXML \<and>
      (\<forall>v. reached moduleCalls (live tenantID db) self mainXML v \<longrightarrow> good_doc moduleCalls (live tenantID db) self (mdv_BPMNXML v))) \<and>
    (rs_issues res = [] \<longrightarrow> set (rs_refs res) = ref_of ` {v. reached moduleCalls (live tenantID db) self mainXML v})"
proof -
  note inj = live_inj [OF mods.reach_inv [OF assms(1)] mods.reach_ok [OF assms(1)]]
  have "rs_issues res = [] \<longleftrightarrow> good_doc moduleCalls (live tenantID db) self mainXML \<and>
      (\<forall>v. reached moduleCalls (live tenantID db) self mainXML v \<longrightarrow> good_doc moduleCalls (live tenantID db) self (mdv_BPMNXML v))"
    by (rule resolve_modules_correct(1) [OF assms(2)], rule inj)
  moreover have "rs_issues res = [] \<Longrightarrow> set (rs_refs res) = ref_of ` {v. reached moduleCalls (live tenantID db) self mainXML v}"
    by (rule resolve_modules_correct(2) [OF assms(2)], rule inj)
  ultimately show ?thesis by blast
qed

lemma resolution_exact_witness:
  "good_doc (\<lambda>xml. Inr ([], [])) (live 3 ex_mpublished) [] ''m''"
proof -
  have "resolve_modules (\<lambda>xml. Inr ([], [])) (\<lambda>xml _. Inr xml) (live 3 ex_mpublished) ''m'' [] =
      Some (Inr \<lparr>rs_bundled = ''m'', rs_refs = [], rs_issues = []\<rparr>)"
    by (simp add: resolve_modules_def start_walk_def walk_queue.simps visit_doc_def finish_walk_def
      attributeModuleIssues_def sort_refs_def Let_def)
  from resolution_exact [OF ex_module_reach this] show ?thesis by simp
qed

text \<open>
  C23 (functional). Every issue of a module is shown at the calls of the main document through which the module
  is reached, at each of them and at no other.
\<close>

lemma issues_attributed:
  "set (attributeModuleIssues w) = set (mw_issues w) \<union>
     {e\<lparr>be_NodeID := c\<rparr> | e c. \<exists>v \<in> set (mw_issueOrder w). e \<in> set (mget_or [] (mw_docIssues w) v) \<and> leads (mw_reachedBy w) {} v c}"
  unfolding attributed routed_def by blast

section \<open>Validation\<close>

text \<open>
  C24 (bounds). The parser accepts a document exactly when it holds no forbidden markup, has at most 1000000 tokens up
  to its end while the context lives, declares the name spaces and decodes.
\<close>

lemma parser_limits_exact:
  "parse tokens decode ctxErr xml = Inr defs \<longleftrightarrow>
     securityScan xml = Inr () \<and> snd (tokens xml) \<and> length (fst (tokens xml)) \<le> maxTokens \<and>
     {k \<in> {0..length (fst (tokens xml))}. ctxErr k} = {} \<and> requireNamespaces xml = Inr () \<and> unmarshal (decode xml) = Inr defs"
  unfolding parse_Inr countTokens_def count_tokens_ok by (auto simp: count_tokens_ok split: prod.splits)

text \<open>Each identifier that occurs twice in a process is reported, once, and no other is.\<close>

lemma duplicate_ids_exact:
  "be_NodeID ` set (ValidateDuplicateIDs proc) = {x. x \<noteq> [] \<and> 2 \<le> count_list (scope_ids proc) x} \<and>
   distinct (map be_NodeID (ValidateDuplicateIDs proc))"
  using ValidateDuplicateIDs_reported by blast

text \<open>
  C26 (functional). A loop runs work exactly when some forward path from its target reaches a working node before the
  looping gateway.
\<close>

lemma loop_work_exact:
  "loopRunsWork tgt gw g B sk \<longleftrightarrow> tgt \<noteq> gw \<and> (\<exists>n. (tgt, n) \<in> {(u, v) \<in> fwd g B. u \<noteq> gw \<and> v \<noteq> gw}\<^sup>* \<and> working g sk n)"
proof -
  have "avoiding (fwd g B) gw = {(u, v) \<in> fwd g B. u \<noteq> gw \<and> v \<noteq> gw}" by (auto simp: avoiding_def)
  then show ?thesis unfolding loopRunsWork_iff by simp
qed

text \<open>
  C27 (bounds). A timer duration is accepted exactly when it is a positive Go duration, as \<open>time.ParseDuration\<close> reads it, or
  an ISO 8601 period that matches the pattern and whose exact length in nanoseconds is positive and fits 64 bits: no overflow
  of a period goes unnoticed.  A Go duration of whole numbers, such as \<open>72h\<close> or \<open>3h30m\<close>, is accepted exactly when its exact
  length is positive and fits 64 bits, as long as none of its parts is exactly \<open>2 ^ 63\<close> nanoseconds: two such parts wrap to
  zero in the library's sum (\<open>duration_wraps\<close>).
\<close>

lemma duration_overflow_checked:
  "(IsValidDuration frac s \<longleftrightarrow> (\<exists>d > 0. ParseDuration frac s = Some d) \<or>
      (\<exists>m. iso8601_match s = Some m \<and> 0 < iso_exact (zip m iso8601Units) \<and> iso_exact (zip m iso8601Units) \<le> MaxInt64)) \<and>
   (parts \<noteq> [] \<longrightarrow> list_all whole_part parts \<longrightarrow> list_all (\<lambda>p. part_exact p \<noteq> 2 ^ 63) parts \<longrightarrow>
      (IsValidDuration frac (go_text parts) \<longleftrightarrow> 0 < go_exact parts \<and> go_exact parts \<le> MaxInt64))"
  using IsValidDuration_iff iso8601Positive_iff IsValidDuration_whole by blast

lemma duration_overflow_checked_witness:
  "IsValidDuration (\<lambda>_ _ _. 0) (go_text [(''72'', ''h'')]) \<and> IsValidDuration (\<lambda>_ _ _. 0) ''P3D''"
proof -
  have "whole_part (''72'', ''h'')" "part_exact (''72'', ''h'') = 259200000000000"
    by (simp_all add: whole_part_def part_exact_def isDigit_def less_eq_char_def unitMap_def decimal_def digitVal_def)
  then have "list_all whole_part [(''72'', ''h'')]" "list_all (\<lambda>p. part_exact p \<noteq> 2 ^ 63) [(''72'', ''h'')]"
    "0 < go_exact [(''72'', ''h'')] \<and> go_exact [(''72'', ''h'')] \<le> MaxInt64"
    by (simp_all add: go_exact_def MaxInt64_def)
  moreover have "iso8601_match ''P3D'' = Some [[], ''3'', [], [], []]"
    by (simp add: iso8601_match_def opt_group_def isDigit_def less_eq_char_def)
  moreover have "iso_exact (zip [[], ''3'', [], [], []] iso8601Units) = 259200000000000"
    by (simp add: iso_exact_def iso8601Units_def decimal_def digitVal_def)
  ultimately show ?thesis
    using duration_overflow_checked [of "\<lambda>_ _ _. 0" "''P3D''" "[(''72'', ''h'')]"] by (simp add: MaxInt64_def)
qed

section \<open>Compilation\<close>

text \<open>
  C28 (termination). Validating a document returns, whatever the document and the state of the context.
\<close>

lemma validation_returns: "\<exists>r. Compiler_Validate X bpmnXML = Some r"
  by (rule Compiler_Validate_returns)

text \<open>
  C29 (termination). Compiling a draft returns, loops, boundary paths and calls included, when the boundary events of the
  document have identifiers and its root process is not marked as a library process.
\<close>

lemma compilation_returns:
  assumes "well_marked X bpmnXML"
  shows "\<exists>r. Compiler_CompileDraft X bpmnXML = Some r"
proof -
  from compileSingleRoot_returns [OF assms] obtain r where "compileSingleRoot X bpmnXML = Some r" by blast
  then show ?thesis by (cases r) (auto simp: Compiler_CompileDraft_def compileCollaboration_def)
qed

lemma compilation_returns_witness:
  "parsed ex_X ex_xml = Inr ex_one_defs \<and> (\<exists>r. Compiler_CompileDraft ex_X ex_xml = Some r)"
  using compilation_returns [OF ex_X_marked] ex_X_parse by simp

text \<open>
  C30 (safety). Compiling never panics: no segment is looked up that has no department, and no index is out of range.
\<close>

lemma compilation_never_panics: "Compiler_CompileDraft X bpmnXML \<noteq> Some (Inl CE_Panic)"
proof -
  have "compileSingleRoot X bpmnXML \<noteq> Some (Inl CE_Panic)" using compileSingleRoot_ok(1) [of X bpmnXML] by blast
  then show ?thesis
    by (cases "compileSingleRoot X bpmnXML") (auto simp: Compiler_CompileDraft_def compileCollaboration_def bindC_def split: sum.splits)
qed

text \<open>
  C31 (type). Every plan that a compilation yields, that of the root and those of the called processes, is closed: its
  departments have different identifiers, and its steps, those below its stages included, run in departments of the plan.
\<close>

lemma compiled_plans_closed:
  assumes "Compile env proc g = retT (plan, called)" and "pl \<in> set (plan # called)"
  shows "distinct (map dd_ID (pl_Departments pl)) \<and> steps_in (dd_ID ` set (pl_Departments pl)) (pl_Steps pl) \<and>
    (\<forall>d \<in> set (pl_Departments pl). \<forall>st \<in> set (dd_Stages d). stage_in (dd_ID ` set (pl_Departments pl)) st)"
proof -
  have "plan_ok pl" using Compile_ok [of env proc g] assms by (auto simp: outcome_def)
  then show ?thesis by (simp add: plan_ok_def plan_closed_def plan_ids_def)
qed

lemma compiled_plans_closed_witness: "distinct (map dd_ID (pl_Departments ex_plan))"
  using compiled_plans_closed [OF ex_one_compile, of ex_plan] by simp

text \<open>
  C32 (bounds). No compiled plan has more than one stage above the stage budget, however its branches repeat work.
\<close>

lemma compiled_plans_bounded:
  assumes "Compile env proc g = retT (plan, called)" and "pl \<in> set (plan # called)"
  shows "(\<Sum>d\<leftarrow>pl_Departments pl. length (dd_Stages d)) \<le> 1001"
proof -
  have "plan_ok pl" using Compile_ok [of env proc g] assms by (auto simp: outcome_def)
  then show ?thesis by (simp add: plan_ok_def plan_stages_def StageBudget_def)
qed

lemma compiled_plans_bounded_witness: "(\<Sum>d\<leftarrow>pl_Departments ex_plan. length (dd_Stages d)) \<le> 1001"
  using compiled_plans_bounded [OF ex_one_compile, of ex_plan] by simp

text \<open>
  C33 (functional). In a parsed document the errors of the called bodies are those of each process below the root: as they
  are for a process of the document, and at every call that leads to it, and at no other, for a library process.
\<close>

lemma called_bodies_exact:
  assumes "parsed X bpmnXML = Inr defs" and "root \<in> set (defs_Processes defs)"
  shows "\<exists>errs. ValidateCalledBodies (cx_validator X) defs root = Some errs \<and>
    set errs = (\<Union>q \<in> called_below defs root. body_errs (cx_validator X) defs root q)"
  using ValidateCalledBodies_exact [of defs root "cx_validator X"] parsed_flows_ok [OF assms(1)] called_below_mem by blast

lemma called_bodies_exact_witness:
  "\<exists>errs. ValidateCalledBodies (cx_validator ex_call_X) ex_call_defs ex_caller = Some errs \<and>
    body_errs (cx_validator ex_call_X) ex_call_defs ex_caller ex_module \<subseteq> set errs"
proof -
  from called_bodies_exact [OF ex_call_parse, of ex_caller] ex_call_below show ?thesis by auto
qed

text \<open>
  C34 (functional). When process identifiers are unique, the call graph search returns and reports a cycle exactly when
  the calls of the running processes form one.
\<close>

lemma call_cycles_exact:
  assumes "distinct (map proc_ID (defs_Processes defs))"
  shows "\<exists>errs. ValidateCallGraph defs = Some errs \<and>
    ((\<exists>e \<in> set errs. be_Code e = BPMNErrCalledElementCycle) \<longleftrightarrow>
     (\<exists>u. (u, u) \<in> {(proc_ID p, proc_ID q) | p q. p \<in> set (defs_Processes defs) \<and> \<not> IsIgnored p \<and>
        (\<exists>ca \<in> set (proc_CallActivities p). calledProcess defs ca = Some q)}\<^sup>+))"
proof -
  have "q \<in> set (callees_of defs p cas) \<longleftrightarrow> \<not> IsIgnored p \<and> (\<exists>ca \<in> set cas. calledProcess defs ca = Some q)" for p q cas
    by (force simp: callees_of_def List.map_filter_def)
  then have "call_rel defs = {(proc_ID p, proc_ID q) | p q. p \<in> set (defs_Processes defs) \<and> \<not> IsIgnored p \<and>
        (\<exists>ca \<in> set (proc_CallActivities p). calledProcess defs ca = Some q)}"
    unfolding call_rel_def by simp
  moreover have u: "unique_ids defs" using assms by (simp add: unique_ids_def)
  moreover obtain errs where "ValidateCallGraph defs = Some errs" using ValidateCallGraph_returns by blast
  ultimately show ?thesis using call_cycles_reported [OF u] by auto
qed

lemma call_cycles_exact_witness: "\<exists>errs. ValidateCallGraph ex_call_defs = Some errs"
  using call_cycles_exact [of ex_call_defs] ex_call_unique by auto

text \<open>
  C35 (equivalence). Validating for publishing finds an error that blocks exactly when compiling for publishing does not
  succeed: the two never disagree on a document.
\<close>

lemma publish_validation_agrees:
  assumes "ValidateForPublish X bpmnXML = Some (Inr errs)"
  shows "(\<exists>e \<in> set errs. be_Severity e \<noteq> SeverityWarning) \<longleftrightarrow>
    \<not> (\<exists>collab. Compiler_CompileForPublish X bpmnXML = Some (Inr collab))"
  using publish_agrees [OF assms] by (simp add: hasBlockingErrors_def)

lemma publish_validation_agrees_witness: "\<not> (\<exists>collab. Compiler_CompileForPublish ex_X [] = Some (Inr collab))"
  using publish_validation_agrees [OF ex_empty_publish] by simp

text \<open>
  C36 (safety). The check that a publish runs on the expanded plan passes exactly when the calls expand within the bound on
  user tasks and each stage of the main plan that creates a human task runs in an IAM department and names a default user.
\<close>

lemma published_tasks_placed:
  "checkExpanded X collab rootID = Some (Inr ()) \<longleftrightarrow>
     (\<exists>main rest. map_sum id cc_Plans (cx_ExpandCalls X collab maxUserTasks) = Inr (main # rest) \<and>
       (\<forall>d \<in> set (pl_Departments main). \<forall>s \<in> set (dd_Stages d).
          cx_CreatesHumanTask X s \<longrightarrow> dd_IAMDepartmentID d \<noteq> [] \<and> sg_DefaultAssignees s \<noteq> []))"
  by (rule checkExpanded_exact)

lemma published_tasks_placed_witness:
  "checkExpanded ex_X (collaboration_of ex_plan []) ''P'' \<noteq> Some (Inr ())"
proof -
  have "\<not> (\<exists>main rest. map_sum id cc_Plans (cx_ExpandCalls ex_X (collaboration_of ex_plan []) maxUserTasks) = Inr (main # rest) \<and>
       (\<forall>d \<in> set (pl_Departments main). \<forall>s \<in> set (dd_Stages d).
          cx_CreatesHumanTask ex_X s \<longrightarrow> dd_IAMDepartmentID d \<noteq> [] \<and> sg_DefaultAssignees s \<noteq> []))"
    by (simp add: ex_compiler_def collaboration_of_def ex_plan_def)
  then show ?thesis unfolding published_tasks_placed .
qed

section \<open>The life cycle\<close>

text \<open>
  C37 (refinement). Seen through the keys of the versions, every service method that commits on a reachable store takes
  steps of the life cycle: a new draft for an owner that has none, a draft published under the next number, a published
  version archived, a draft removed, or no step at all.
\<close>

lemma services_refine_life_cycle:
  assumes "wf_step\<^sup>*\<^sup>* ws_start s" and "db = ws_db s"
    and "VersionService_Publish env now tenantID wid vid force db = Inr (v, db') \<or>
      VersionService_Promote limits now tenantID wid vid planCode db = Inr (pr, db') \<or>
      VersionService_Clone limits now wfID vID tenantID userID wid vid planCode key name description db = Inr (cl, db') \<or>
      WorkflowService_Create compiler limits now wfID vID tenantID userID key name description xml planCode db = Inr (cr, db') \<or>
      WorkflowService_Archive execution now tenantID wid db = Inr (ar, db') \<or>
      DraftService_Init now vID tenantID userID wid db = Inr (dr, db') \<or>
      DraftService_Update setNX now tenantID wid req db = Inr (up, db') \<or>
      DraftService_Discard now tenantID wid db = Inr (di, db') \<or>
      HandleTenantMembershipRevoked order evict pause now tenantID userID occurredAt db = (rt, db') \<or>
      HandleDepartmentMembershipRevoked parse_dept order evict pause now tenantID userID dept occurredAt db = (rd, db')"
  shows "life_step\<^sup>*\<^sup>* (wkeys db) (wkeys db')"
proof (cases "\<exists>i. wf_new i db db'")
  case True
  then show ?thesis using keys_new by blast
next
  case False
  with assms(3) have "wf_tx\<^sup>*\<^sup>* db db'"
    by (elim disjE) (auto dest: Publish_step Promote_step Clone_step Create_step Archive_step Init_step Update_step Discard_step Revoked_steps)
  moreover have "store_ok db" "life_ok (wkeys db)"
    using ws_ok_facts(1) [OF wfs.reach_inv [OF assms(1)]] wfs.reach_ok [OF assms(1)] by (simp_all add: ws_keys_def assms(2))
  ultimately show ?thesis using txs_life by blast
qed

lemma services_refine_life_cycle_witness: "life_step\<^sup>*\<^sup>* (wkeys ex_created) (wkeys ex_published)"
proof -
  obtain v where "VersionService_Publish ex_env 11 3 1 2 False ex_created = Inr (v, ex_published)"
    by (simp add: VersionService_Publish_def bind_act_def return_act_def bindE_def ex_preflight ex_publish_input ex_publish_tx del: One_nat_def)
  from services_refine_life_cycle [OF ex_reach1 _ disjI1 [OF this]] show ?thesis by (simp add: ex_s1_def)
qed

section \<open>The requests\<close>

text \<open>
  C38 (safety). With a codec that reads back what it wrote, and as long as no call to the cache fails and no key expires: of
  all runs of the handler for the requests that carry one key, a context and a body that can be read, at most one succeeds;
  and a request that is answered from the cache gets the response of a successful run of such a request with its key, and
  never that of another body.  A request without a context, or whose body cannot be read, runs without the cache although it
  carries a key: its runs are in the log, but they are not among those counted.
\<close>

lemma idempotent_requests_run_once:
  assumes "codec_ok E" and "(idem_step E reqs)\<^sup>*\<^sup>* (idem_start E reqs) s" and "\<not> is_faulty s"
  shows "length (filter (\<lambda>(i, r). guarded E (reqs i)) (successes reqs k s)) \<le> 1 \<and>
    (\<forall>i cr. is_phase s i = Answered (Replay cr) \<longrightarrow>
       (cr_BodyHash cr = [] \<or> cr_BodyHash cr = incomingHash E (reqs i)) \<and>
       (\<exists>j r. (j, r) \<in> set (is_log s) \<and> guarded E (reqs j) \<and> successful r \<and>
          request_key (reqs j) = request_key (reqs i) \<and> cr = stored_entry (incomingHash E (reqs j)) r))"
proof -
  note once = idem_requests.at_most_one [OF codec_requests [OF assms(1)] assms(2,3)]
    and runs = idem_requests.mem_guarded_runs [OF codec_requests [OF assms(1)]]
  have "(cr_BodyHash cr = [] \<or> cr_BodyHash cr = incomingHash E (reqs i)) \<and> (\<exists>j r. (j, r) \<in> set (is_log s) \<and>
      guarded E (reqs j) \<and> successful r \<and> request_key (reqs j) = request_key (reqs i) \<and> cr = stored_entry (incomingHash E (reqs j)) r)"
    if "is_phase s i = Answered (Replay cr)" for i cr
    using once(2) [of i cr] that unfolding stored_by_def runs by (auto intro: exI)
  with once(1) show ?thesis by blast
qed

lemma idempotent_requests_run_once_witness:
  "length (filter (\<lambda>(i, r). guarded ex_idem ex_http) (successes (\<lambda>_. ex_http) (request_key ex_http) ex_final)) \<le> 1 \<and>
   guarded ex_idem ex_http \<and> cr_BodyHash ex_entry = incomingHash ex_idem ex_http"
proof -
  have "\<not> is_faulty ex_final" "is_phase ex_final 1 = Answered (Replay ex_entry)" "cr_BodyHash ex_entry \<noteq> []"
    by (simp_all add: ex_final_def ex_at_def ex_entry_def stored_entry_def)
  with idempotent_requests_run_once [OF ex_codec ex_idem_reach, of "request_key ex_http"] show ?thesis by blast
qed

text \<open>
  C39 (liveness). While no eviction has been lost and no write that was reported as failed has reached the cache, every call in
  progress can be made and every call leaves less to do, so that the reads and the evictions end; and once they have, every
  cached plan is the plan of a published, valid version, or its version was deleted by the purge of its tenant, which evicts
  nothing.
\<close>

lemma plan_cache_settles:
  assumes "plan_step\<^sup>*\<^sup>* plan_start s" and "\<not> pn_faulty s"
  shows "if work_left s = 0 then coherent s
    else (\<exists>s'. cache_step s s') \<and> (\<forall>s'. cache_step s s' \<longrightarrow> work_left s' < work_left s)"
  using settled_coherent [OF assms] cache_step_enabled [of s] cache_step_less [of s] by auto

lemma plan_cache_settles_witness: "(\<exists>s'. cache_step ex_reading s') \<and> coherent ex_cached"
proof -
  have "\<not> pn_faulty ex_reading" "work_left ex_reading \<noteq> 0" "\<not> pn_faulty ex_cached" "work_left ex_cached = 0"
    by (simp_all add: ex_reading_def ex_cached_def ex_read_def work_left_def)
  with plan_cache_settles [OF ex_reading_reach] plan_cache_settles [OF ex_cached_reach] show ?thesis by simp
qed

text \<open>
  C40 (roundtrip). A number that is printed in decimal is read back as itself: as the version tag of a module call when it
  fits 32 bits and is positive, and in quotes as the record version of \<open>If-Match\<close> when it fits 64 bits; a greater one is
  refused in both places.
\<close>

lemma printed_numbers_read_back:
  "parseVersionTag (itoa n) = (if 1 \<le> n \<and> n < 2 ^ 31 then Some n else None) \<and>
   recordVersionFromIfMatch (CHR 0x22 # itoa n @ [CHR 0x22]) = (if n < 2 ^ 63 then Some (int n) else None)"
  using parseVersionTag_itoa recordVersion_quoted by blast

section \<open>Departed tenants\<close>

text \<open>
  C25 (safety). Whatever sweeps, events and requests run concurrently, and in whatever order the events are recorded: when a
  sweep deletes a row of a tenant, the tenant's departure was recorded, its retention period has passed since, and no return
  that was recorded is newer than that departure.
\<close>

lemma deleted_rows_of_departed:
  assumes "(purge_step E)\<^sup>*\<^sup>* purge_start s" and "purge_step E s s'"
    and "row \<in> set (pw_rows (ps_world s))" and "row \<notin> set (pw_rows (ps_world s'))"
  shows "\<exists>ob. (fst (snd row), True, ob) \<in> set (ps_events s) \<and> ob + pg_artifactRetention E \<le> ps_now s \<and>
    (\<forall>u. (fst (snd row), False, u) \<in> set (ps_events s) \<longrightarrow> u \<le> ob)"
proof -
  from deleted_row_due [OF assms] obtain x where x: "tr_TenantID x = fst (snd row)" "tr_ReturnedAt x = None"
    "artifacts_due (ps_now s) x" "row_events (pg_artifactRetention E) (ps_events s) x" by blast
  then obtain ob where "tr_OffboardedAt x = Some ob" "ob + pg_artifactRetention E \<le> ps_now s"
    by (auto simp: artifacts_due_def due_at_def row_events_def split: option.splits)
  with x show ?thesis by (auto simp: row_events_def)
qed

lemma deleted_rows_of_departed_witness: "(3, True, 5) \<in> set (ps_events ex_sweeping) \<and> (5::nat) + 2 \<le> ps_now ex_sweeping"
proof -
  have "ps_events ex_sweeping = [(3, True, 5)]" "pg_artifactRetention ex_purger = 2"
    by (simp_all add: ex_sweeping_def ex_purge_def ex_purger_def)
  with deleted_rows_of_departed [OF ex_sweeping_reach ex_sweeping_step, of ex_tenant_row] show ?thesis by (simp add: ex_sweeping_rows)
qed

end
